(* ===== verification/Softpc_Prelude.thy ===== *)
theory Softpc_Prelude
  imports Main "HOL-Library.Word"
begin

unbundle bit_operations_syntax

text \<open>
  Shared vocabulary of the development: the integer types of \<open>insignia.h\<close>, the reading of a
  C truth value as a word, and the facts on bits, masks and carries that the components use.
\<close>

type_synonym IU8 = "8 word"
type_synonym IU16 = "16 word"
type_synonym IU32 = "32 word"

named_theorems carry_simps \<open>bits and carries of sums and differences, read on naturals\<close>

section \<open>Bits of sums\<close>

lemma bit_nat_iff_odd_div: "bit (a::nat) k \<longleftrightarrow> odd (a div 2 ^ k)"
  by (simp add: bit_iff_odd)

lemma add_div_pow2:
  fixes a b c k :: nat
  assumes "c \<le> 1"
  shows "(a + b + c) div 2 ^ k =
         a div 2 ^ k + b div 2 ^ k + of_bool (2 ^ k \<le> a mod 2 ^ k + b mod 2 ^ k + c)"
proof -
  let ?p = "2 ^ k :: nat"
  let ?m = "a mod ?p + b mod ?p + c"
  have p: "0 < ?p" by simp
  have "a + b + c = ?m + (a div ?p + b div ?p) * ?p"
    using div_mult_mod_eq [of a ?p] div_mult_mod_eq [of b ?p] by (simp only: distrib_right)
  then have "(a + b + c) div ?p = a div ?p + b div ?p + ?m div ?p"
    by (metis add.commute div_mult_self1 p less_irrefl)
  moreover have "?m div ?p = of_bool (?p \<le> ?m)"
  proof -
    have "a mod ?p < ?p" "b mod ?p < ?p" using p by simp_all
    then have "?m < 2 * ?p" using assms by linarith
    then show ?thesis
      by (cases "?p \<le> ?m") (simp_all add: div_if)
  qed
  ultimately show ?thesis by simp
qed

text \<open>
  The exclusive-or of two summands and their sum (with a carry in) is the vector of carries:
  bit \<open>k\<close> is set exactly when the sum of the low \<open>k\<close> bits overflows them.
\<close>

lemma bit_xor3_add [carry_simps]:
  fixes a b c k :: nat
  assumes "c \<le> 1"
  shows "(bit a k \<noteq> (bit b k \<noteq> bit (a + b + c) k)) \<longleftrightarrow>
         2 ^ k \<le> a mod 2 ^ k + b mod 2 ^ k + c"
  by (auto simp: bit_nat_iff_odd_div add_div_pow2 [OF assms])

section \<open>Words read as naturals\<close>

lemma unat_and_mask: "unat (x AND mask n) = unat x mod 2 ^ n"
  by (simp add: unsigned_take_bit_eq flip: take_bit_eq_mask take_bit_eq_mod)

lemma and_exp_neq_0_iff: "(x AND 2 ^ k \<noteq> 0) \<longleftrightarrow> bit x k" for x :: "'a::len word"
  by (simp add: and_exp_eq_0_iff_not_bit)

lemma of_bool_word_eq_iff [simp]: "(of_bool P = (of_bool Q :: 'a::len word)) \<longleftrightarrow> (P \<longleftrightarrow> Q)"
  by (auto simp: of_bool_def)

text \<open>C's \<open>&\<close>, \<open>|\<close> and \<open>^\<close> on truth values.\<close>

lemma of_bool_and_word [simp]: "(of_bool P :: 'a::len word) AND of_bool Q = of_bool (P \<and> Q)"
  by (cases P; cases Q) simp_all

lemma of_bool_or_word [simp]: "(of_bool P :: 'a::len word) OR of_bool Q = of_bool (P \<or> Q)"
  by (cases P; cases Q) simp_all

lemma of_bool_xor_word [simp]: "(of_bool P :: 'a::len word) XOR of_bool Q = of_bool (P \<noteq> Q)"
  by (cases P; cases Q) simp_all

section \<open>Sums and differences of words\<close>

lemma bit_top: "x < 2 * 2 ^ m \<Longrightarrow> bit x m \<longleftrightarrow> 2 ^ m \<le> x" for x :: nat
  by (cases "2 ^ m \<le> x") (auto simp: bit_nat_iff_odd_div div_if)

lemma bit_mod_pow2: "k < n \<Longrightarrow> bit (x mod 2 ^ n) k = bit x k" for x :: nat
  by (simp add: bit_take_bit_iff flip: take_bit_eq_mod)

lemma bit_unat: "bit x k = bit (unat x) k" for x :: "'a::len word"
  by (simp add: bit_unsigned_iff)

lemma adder_top:
  fixes a b c r p :: nat
  assumes "a < 2 * p" "b < 2 * p" "c \<le> 1" "r = (a + b + c) mod (2 * p)"
  defines "ov \<equiv> ((p \<le> a) = (p \<le> b)) \<and> ((p \<le> b) \<noteq> (p \<le> r))"
  shows "((p \<le> a) \<noteq> ((p \<le> b) \<noteq> (p \<le> r))) \<noteq> ov \<longleftrightarrow> 2 * p \<le> a + b + c"
    and "ov \<longleftrightarrow> \<not> (- int p \<le> (if a < p then int a else int a - 2 * int p) +
            (if b < p then int b else int b - 2 * int p) + int c \<and>
          (if a < p then int a else int a - 2 * int p) +
            (if b < p then int b else int b - 2 * int p) + int c < int p)"
proof -
  have r: "r = (if 2 * p \<le> a + b + c then a + b + c - 2 * p else a + b + c)"
  proof (cases "2 * p \<le> a + b + c")
    case True
    then have "(a + b + c) mod (2 * p) = (a + b + c - 2 * p) mod (2 * p)" by (rule le_mod_geq)
    moreover have "a + b + c - 2 * p < 2 * p" using assms by linarith
    ultimately show ?thesis using True assms by simp
  qed (use assms in simp)
  show "((p \<le> a) \<noteq> ((p \<le> b) \<noteq> (p \<le> r))) \<noteq> ov \<longleftrightarrow> 2 * p \<le> a + b + c"
    using assms(1-3) r unfolding ov_def by (auto split: if_splits)
  show "ov \<longleftrightarrow> \<not> (- int p \<le> (if a < p then int a else int a - 2 * int p) +
            (if b < p then int b else int b - 2 * int p) + int c \<and>
          (if a < p then int a else int a - 2 * int p) +
            (if b < p then int b else int b - 2 * int p) + int c < int p)"
    using assms(1-3) r unfolding ov_def by (auto split: if_splits)
qed

lemma subber_top:
  fixes a b c r p :: nat
  assumes "a < 2 * p" "b < 2 * p" "c \<le> 1" "r = (2 * p + a - b - c) mod (2 * p)"
  defines "ov \<equiv> ((p \<le> a) \<noteq> (p \<le> b)) \<and> ((p \<le> a) \<noteq> (p \<le> r))"
  shows "((p \<le> a) \<noteq> ((p \<le> b) \<noteq> (p \<le> r))) \<noteq> ov \<longleftrightarrow> a < b + c"
    and "ov \<longleftrightarrow> \<not> (- int p \<le> (if a < p then int a else int a - 2 * int p) -
            (if b < p then int b else int b - 2 * int p) - int c \<and>
          (if a < p then int a else int a - 2 * int p) -
            (if b < p then int b else int b - 2 * int p) - int c < int p)"
proof -
  have r: "r = (if a < b + c then 2 * p + a - b - c else a - b - c)"
  proof (cases "a < b + c")
    case False
    then have "2 * p + a - b - c = (a - b - c) + 2 * p" using assms by linarith
    then have "r = (a - b - c) mod (2 * p)" unfolding assms(4) by (simp only: mod_add_self2)
    then show ?thesis using False assms(1) by simp
  qed (use assms in simp)
  show "((p \<le> a) \<noteq> ((p \<le> b) \<noteq> (p \<le> r))) \<noteq> ov \<longleftrightarrow> a < b + c"
    using assms(1-3) r unfolding ov_def by (auto split: if_splits)
  show "ov \<longleftrightarrow> \<not> (- int p \<le> (if a < p then int a else int a - 2 * int p) -
            (if b < p then int b else int b - 2 * int p) - int c \<and>
          (if a < p then int a else int a - 2 * int p) -
            (if b < p then int b else int b - 2 * int p) - int c < int p)"
    using assms(1-3) r unfolding ov_def by (auto split: if_splits)
qed

text \<open>The value of a masked sum and difference.\<close>

lemma unat_masked_add:
  fixes a b c :: IU32
  assumes "n \<le> 32"
  shows "unat ((a + b + c) AND mask n) = (unat a + unat b + unat c) mod 2 ^ n"
proof -
  have "(2 ^ n :: nat) dvd 2 ^ 32" using assms by (rule le_imp_power_dvd)
  then show ?thesis
    by (simp only: unat_and_mask) (simp add: unat_word_ariths mod_mod_cancel mod_simps)
qed

lemma unat_masked_sub:
  fixes a b c :: IU32
  assumes "n \<le> 32" "unat a < 2 ^ n" "unat b < 2 ^ n" "unat c \<le> 1"
  shows "unat ((a - b - c) AND mask n) = (2 ^ n + unat a - unat b - unat c) mod 2 ^ n"
    (is "?r = _")
proof -
  have "(a - b - c) + b + c = a" by simp
  then have "unat a = unat ((((a - b - c)) + b + c) AND mask n)"
    using assms(2) by (simp only: unat_and_mask) simp
  also have "\<dots> = (?r + unat b + unat c) mod 2 ^ n"
    unfolding unat_masked_add [OF assms(1)] by (simp only: unat_and_mask add.assoc mod_add_left_eq)
  finally have eq: "unat a = (?r + unat b + unat c) mod 2 ^ n" .
  have r: "?r < 2 ^ n" by (simp only: unat_and_mask) simp
  show ?thesis
  proof (cases "?r + unat b + unat c < 2 ^ n")
    case True
    then have "2 ^ n + unat a - unat b - unat c = ?r + 2 ^ n" using eq by simp
    then show ?thesis using r by simp
  next
    case False
    moreover have "?r + unat b + unat c - 2 ^ n < 2 ^ n" using assms r by linarith
    ultimately have "unat a = ?r + unat b + unat c - 2 ^ n" using eq by (simp add: le_mod_geq)
    then have "2 ^ n + unat a - unat b - unat c = ?r" using False by linarith
    then show ?thesis using r by simp
  qed
qed

section \<open>Addressable cells\<close>

text \<open>
  The contract of a bank of registers: reading a cell after writing it gives what was written,
  writing one cell leaves the others alone, a second write wins.
\<close>

locale cells =
  fixes valid :: "'i \<Rightarrow> bool"
    and get :: "'i \<Rightarrow> 's \<Rightarrow> 'v"
    and put :: "'i \<Rightarrow> 'v \<Rightarrow> 's \<Rightarrow> 's"
  assumes get_put: "valid i \<Longrightarrow> get i (put i v s) = v"
    and get_put_other: "valid i \<Longrightarrow> valid j \<Longrightarrow> i \<noteq> j \<Longrightarrow> get i (put j v s) = get i s"
    and put_put: "valid i \<Longrightarrow> put i v (put i w s) = put i v s"
    and put_get: "valid i \<Longrightarrow> put i (get i s) s = s"
begin

text \<open>After a sequence of writes, each cell holds the last value written to it.\<close>

lemma get_foldl_put:
  "valid i \<Longrightarrow> \<forall>(j, v) \<in> set ws. valid j \<Longrightarrow>
   get i (foldl (\<lambda>s (j, v). put j v s) s ws) =
   (case map_of (rev ws) i of None \<Rightarrow> get i s | Some v \<Rightarrow> v)"
proof (induction ws rule: rev_induct)
  case Nil
  then show ?case by simp
next
  case (snoc w ws)
  obtain j v where w: "w = (j, v)" by (cases w)
  show ?case
  proof (cases "i = j")
    case True
    with snoc.prems show ?thesis by (simp add: w get_put)
  next
    case False
    have "get i (foldl (\<lambda>s (j, v). put j v s) s ws) =
          (case map_of (rev ws) i of None \<Rightarrow> get i s | Some v \<Rightarrow> v)"
      using snoc by auto
    with False snoc.prems show ?thesis by (simp add: w get_put_other)
  qed
qed

end

end
