(* ===== verification/Ccpu_State.thy ===== *)
theory Ccpu_State
  imports Softpc_Prelude
begin

text \<open>
  The register set of the C CPU (\<open>ccpu386/c_main.c\<close>, \<open>c_reg.h\<close>), its access macros, and the flag
  and selector support of \<open>c_bsic.c\<close>. An array of registers is a function from its index; the
  accessors of the byte and word registers read and write the bytes of the double word registers,
  as the pointer tables \<open>CCPU_WR\<close> and \<open>CCPU_BR\<close> do on a little-endian host.
\<close>

section \<open>Registers\<close>

record SEGMENT_REGISTER =
  sr_selector :: IU16
  sr_ar_dpl :: IU32
  sr_ar_e :: IU32
  sr_ar_r :: IU32
  sr_ar_w :: IU32
  sr_ar_c :: IU32
  sr_ar_x :: IU32
  sr_base :: IU32
  sr_limit :: IU32

record SYSTEM_ADDRESS_REGISTER =
  sar_selector :: IU16
  sar_ar_super :: int
  sar_base :: IU32
  sar_limit :: IU32

record SYSTEM_TABLE_ADDRESS_REGISTER =
  star_base :: IU32
  star_limit :: IU16

text \<open>
  The last three fields are the statics of \<open>do_multiple_shiftrot_of\<close> and the host environment
  variable \<open>SHIFTROT_OF_UNDEF\<close> it looks up once.
\<close>

record ccpu =
  CCPU_SR :: "nat \<Rightarrow> SEGMENT_REGISTER"
  CCPU_CR :: "nat \<Rightarrow> IU32"
  CCPU_GR :: "nat \<Rightarrow> IU32"
  CCPU_IP :: IU32
  CCPU_STAR :: "nat \<Rightarrow> SYSTEM_TABLE_ADDRESS_REGISTER"
  CCPU_SAR :: "nat \<Rightarrow> SYSTEM_ADDRESS_REGISTER"
  CCPU_CPL :: IU32
  CCPU_FLAGS :: "nat \<Rightarrow> IU32"
  CCPU_MODE :: "nat \<Rightarrow> IU32"
  shiftrot_cold :: bool
  shiftrot_of_undef :: bool
  env_SHIFTROT_OF_UNDEF :: bool

text \<open>The register set as the loader leaves it, all statics zero; used in concrete examples.\<close>

definition ccpu0 :: ccpu where
  "ccpu0 = \<lparr>CCPU_SR = (\<lambda>_. \<lparr>sr_selector = 0, sr_ar_dpl = 0, sr_ar_e = 0, sr_ar_r = 0, sr_ar_w = 0,
       sr_ar_c = 0, sr_ar_x = 0, sr_base = 0, sr_limit = 0\<rparr>),
     CCPU_CR = (\<lambda>_. 0), CCPU_GR = (\<lambda>_. 0), CCPU_IP = 0,
     CCPU_STAR = (\<lambda>_. \<lparr>star_base = 0, star_limit = 0\<rparr>),
     CCPU_SAR = (\<lambda>_. \<lparr>sar_selector = 0, sar_ar_super = 0, sar_base = 0, sar_limit = 0\<rparr>),
     CCPU_CPL = 0, CCPU_FLAGS = (\<lambda>_. 0), CCPU_MODE = (\<lambda>_. 0),
     shiftrot_cold = True, shiftrot_of_undef = False, env_SHIFTROT_OF_UNDEF = False\<rparr>"

text \<open>
  The type invariant of the flag bank: it holds each flag as a separate double word, every one of
  them a single bit except the two-bit IOPL.
\<close>

definition bit_flags :: "nat set" where
  "bit_flags = {0, 2, 4, 6, 7, 8, 9, 10, 11, 14, 16, 17}"

definition flags_wf :: "ccpu \<Rightarrow> bool" where
  "flags_wf s = ((\<forall>i \<in> bit_flags. CCPU_FLAGS s i \<le> 1) \<and> CCPU_FLAGS s 12 \<le> 3)"

text \<open>Exceptions an instruction raises; the C code leaves the instruction by \<open>longjmp\<close>.\<close>

datatype ccpu_exn = Int0 | Int5 | HostOverflow

section \<open>Register access\<close>

definition SET_GR :: "nat \<Rightarrow> IU32 \<Rightarrow> ccpu \<Rightarrow> ccpu" where
  "SET_GR i x s = s\<lparr>CCPU_GR := (CCPU_GR s)(i := x)\<rparr>"

definition GET_WR :: "nat \<Rightarrow> ccpu \<Rightarrow> IU16" where
  "GET_WR i s = ucast (CCPU_GR s i)"

definition SET_WR :: "nat \<Rightarrow> IU16 \<Rightarrow> ccpu \<Rightarrow> ccpu" where
  "SET_WR i x s = SET_GR i ((CCPU_GR s i AND NOT (mask 16)) OR ucast x) s"

definition GET_BR :: "nat \<Rightarrow> ccpu \<Rightarrow> IU8" where
  "GET_BR i s = (if i < 4 then ucast (CCPU_GR s i) else ucast (drop_bit 8 (CCPU_GR s (i - 4))))"

definition SET_BR :: "nat \<Rightarrow> IU8 \<Rightarrow> ccpu \<Rightarrow> ccpu" where
  "SET_BR i x s =
     (if i < 4 then SET_GR i ((CCPU_GR s i AND NOT (mask 8)) OR ucast x) s
      else SET_GR (i - 4) ((CCPU_GR s (i - 4) AND NOT (push_bit 8 (mask 8)))
             OR push_bit 8 (ucast x)) s)"

definition SET_FLAG :: "nat \<Rightarrow> IU32 \<Rightarrow> ccpu \<Rightarrow> ccpu" where
  "SET_FLAG i x s = s\<lparr>CCPU_FLAGS := (CCPU_FLAGS s)(i := x)\<rparr>"

definition SET_CR :: "nat \<Rightarrow> IU32 \<Rightarrow> ccpu \<Rightarrow> ccpu" where
  "SET_CR i x s = s\<lparr>CCPU_CR := (CCPU_CR s)(i := x)\<rparr>"

abbreviation "GET_EAX s \<equiv> CCPU_GR s 0"
abbreviation "GET_EDX s \<equiv> CCPU_GR s 2"
abbreviation "SET_EAX x s \<equiv> SET_GR 0 x s"
abbreviation "SET_EDX x s \<equiv> SET_GR 2 x s"
abbreviation "GET_AX s \<equiv> GET_WR 0 s"
abbreviation "GET_DX s \<equiv> GET_WR 2 s"
abbreviation "SET_AX x s \<equiv> SET_WR 0 x s"
abbreviation "SET_DX x s \<equiv> SET_WR 2 x s"
abbreviation "GET_AL s \<equiv> GET_BR 0 s"
abbreviation "GET_AH s \<equiv> GET_BR 4 s"
abbreviation "SET_AL x s \<equiv> SET_BR 0 x s"
abbreviation "SET_AH x s \<equiv> SET_BR 4 x s"
abbreviation "GET_CF s \<equiv> CCPU_FLAGS s 0"
abbreviation "GET_PF s \<equiv> CCPU_FLAGS s 2"
abbreviation "GET_AF s \<equiv> CCPU_FLAGS s 4"
abbreviation "GET_ZF s \<equiv> CCPU_FLAGS s 6"
abbreviation "GET_SF s \<equiv> CCPU_FLAGS s 7"
abbreviation "GET_TF s \<equiv> CCPU_FLAGS s 8"
abbreviation "GET_IF s \<equiv> CCPU_FLAGS s 9"
abbreviation "GET_DF s \<equiv> CCPU_FLAGS s 10"
abbreviation "GET_OF s \<equiv> CCPU_FLAGS s 11"
abbreviation "GET_IOPL s \<equiv> CCPU_FLAGS s 12"
abbreviation "GET_NT s \<equiv> CCPU_FLAGS s 14"
abbreviation "GET_RF s \<equiv> CCPU_FLAGS s 16"
abbreviation "GET_VM s \<equiv> CCPU_FLAGS s 17"
abbreviation "SET_CF x s \<equiv> SET_FLAG 0 x s"
abbreviation "SET_PF x s \<equiv> SET_FLAG 2 x s"
abbreviation "SET_AF x s \<equiv> SET_FLAG 4 x s"
abbreviation "SET_ZF x s \<equiv> SET_FLAG 6 x s"
abbreviation "SET_SF x s \<equiv> SET_FLAG 7 x s"
abbreviation "SET_TF x s \<equiv> SET_FLAG 8 x s"
abbreviation "SET_IF x s \<equiv> SET_FLAG 9 x s"
abbreviation "SET_DF x s \<equiv> SET_FLAG 10 x s"
abbreviation "SET_OF x s \<equiv> SET_FLAG 11 x s"
abbreviation "SET_IOPL x s \<equiv> SET_FLAG 12 x s"
abbreviation "SET_NT x s \<equiv> SET_FLAG 14 x s"
abbreviation "SET_RF x s \<equiv> SET_FLAG 16 x s"
abbreviation "SET_VM x s \<equiv> SET_FLAG 17 x s"

lemma SET_FLAG_sel [simp]:
  "CCPU_FLAGS (SET_FLAG i x s) = (CCPU_FLAGS s)(i := x)"
  "CCPU_GR (SET_FLAG i x s) = CCPU_GR s"
  "CCPU_CR (SET_FLAG i x s) = CCPU_CR s"
  "CCPU_CPL (SET_FLAG i x s) = CCPU_CPL s"
  "shiftrot_cold (SET_FLAG i x s) = shiftrot_cold s"
  "shiftrot_of_undef (SET_FLAG i x s) = shiftrot_of_undef s"
  "env_SHIFTROT_OF_UNDEF (SET_FLAG i x s) = env_SHIFTROT_OF_UNDEF s"
  "GET_WR j (SET_FLAG i x s) = GET_WR j s"
  "GET_BR j (SET_FLAG i x s) = GET_BR j s"
  by (simp_all add: SET_FLAG_def GET_WR_def GET_BR_def)

lemma SET_GR_sel [simp]:
  "CCPU_GR (SET_GR i x s) = (CCPU_GR s)(i := x)"
  "CCPU_FLAGS (SET_GR i x s) = CCPU_FLAGS s"
  "CCPU_CPL (SET_GR i x s) = CCPU_CPL s"
  by (simp_all add: SET_GR_def)

lemma SET_WR_BR_sel [simp]:
  "CCPU_FLAGS (SET_WR i w s) = CCPU_FLAGS s"
  "CCPU_CPL (SET_WR i w s) = CCPU_CPL s"
  "CCPU_FLAGS (SET_BR i b s) = CCPU_FLAGS s"
  "CCPU_CPL (SET_BR i b s) = CCPU_CPL s"
  by (simp_all add: SET_WR_def SET_BR_def)

lemma flags_wf_ccpu0 [simp]: "flags_wf ccpu0"
  by (simp add: flags_wf_def ccpu0_def)

lemma flags_wf_SET_FLAG [intro]:
  "flags_wf s \<Longrightarrow> (i \<in> bit_flags \<Longrightarrow> x \<le> 1) \<Longrightarrow> (i = 12 \<Longrightarrow> x \<le> 3) \<Longrightarrow> flags_wf (SET_FLAG i x s)"
  by (auto simp: flags_wf_def)

lemma flags_wf_regs [simp]:
  "flags_wf (SET_GR i g s) = flags_wf s"
  "flags_wf (SET_WR i w s) = flags_wf s"
  "flags_wf (SET_BR i b s) = flags_wf s"
  by (simp_all add: flags_wf_def)

text \<open>A flag of the bank as a truth value.\<close>

lemma flags_wf_of_bool:
  assumes "flags_wf s" "i \<in> bit_flags"
  shows "CCPU_FLAGS s i = of_bool (CCPU_FLAGS s i \<noteq> 0)"
proof -
  have "unat (CCPU_FLAGS s i) \<le> 1" using assms by (auto simp: flags_wf_def word_le_nat_alt)
  then have "unat (CCPU_FLAGS s i) = unat (0 :: IU32) \<or> unat (CCPU_FLAGS s i) = unat (1 :: IU32)"
    by (simp only: unsigned_0 unsigned_1) linarith
  then show ?thesis by (simp only: word_unat_eq_iff [symmetric]) (elim disjE; simp)
qed

text \<open>Writing a flag and writing a register commute.\<close>

lemma SET_GR_SET_FLAG: "SET_GR i x (SET_FLAG j y s) = SET_FLAG j y (SET_GR i x s)"
  by (simp add: SET_GR_def SET_FLAG_def)

lemma SET_BR_SET_FLAG: "SET_BR i x (SET_FLAG j y s) = SET_FLAG j y (SET_BR i x s)"
  by (simp add: SET_BR_def SET_GR_SET_FLAG)

text \<open>A step that writes nothing but the flag bank.\<close>

definition flags_only :: "ccpu \<Rightarrow> ccpu \<Rightarrow> bool" where
  "flags_only s t = (t = s\<lparr>CCPU_FLAGS := CCPU_FLAGS t\<rparr>)"

lemma flags_only_refl [simp, intro]: "flags_only s s"
  by (simp add: flags_only_def)

lemma flags_only_SET_FLAG [intro]: "flags_only s t \<Longrightarrow> flags_only s (SET_FLAG i x t)"
proof -
  assume "flags_only s t"
  then have "t = s\<lparr>CCPU_FLAGS := CCPU_FLAGS t\<rparr>" by (simp add: flags_only_def)
  then have "SET_FLAG i x t = s\<lparr>CCPU_FLAGS := (CCPU_FLAGS t)(i := x)\<rparr>"
    unfolding SET_FLAG_def by (metis ccpu.surjective ccpu.update_convs(8))
  then show ?thesis by (simp add: flags_only_def)
qed

lemma flags_only_if:
  "flags_only s t \<Longrightarrow> flags_only s u \<Longrightarrow> flags_only s (if c then t else u)"
  by simp

lemma flags_only_eqI: "flags_only s t \<Longrightarrow> CCPU_FLAGS t = CCPU_FLAGS s \<Longrightarrow> t = s"
  by (simp add: flags_only_def)

section \<open>The register banks are cells\<close>

text \<open>Reading, overwriting and restoring the low word, the low byte and the second byte.\<close>

lemma low16 [simp]:
  fixes g :: IU32 and v w :: IU16
  shows "ucast ((g AND NOT (mask 16)) OR ucast v) = v"
    and "((g AND NOT (mask 16)) OR ucast w) AND NOT (mask 16) = g AND NOT (mask 16)"
    and "(g AND NOT (mask 16)) OR ucast (ucast g :: IU16) = g"
  by (rule bit_word_eqI; auto simp: bit_simps dest: bit_imp_le_length)+

lemma low8 [simp]:
  fixes g :: IU32 and v w :: IU8
  shows "ucast ((g AND NOT (mask 8)) OR ucast v) = v"
    and "((g AND NOT (mask 8)) OR ucast w) AND NOT (mask 8) = g AND NOT (mask 8)"
    and "(g AND NOT (mask 8)) OR ucast (ucast g :: IU8) = g"
    and "ucast (drop_bit 8 ((g AND NOT (mask 8)) OR ucast v)) = (ucast (drop_bit 8 g) :: IU8)"
  by (rule bit_word_eqI; auto simp: bit_simps dest: bit_imp_le_length)+

lemma high8 [simp]:
  fixes g :: IU32 and v w :: IU8
  shows "ucast (drop_bit 8 ((g AND NOT (push_bit 8 (mask 8))) OR push_bit 8 (ucast v))) = v"
    and "((g AND NOT (push_bit 8 (mask 8))) OR push_bit 8 (ucast w)) AND NOT (push_bit 8 (mask 8))
         = g AND NOT (push_bit 8 (mask 8))"
    and "(g AND NOT (push_bit 8 (mask 8))) OR push_bit 8 (ucast (ucast (drop_bit 8 g) :: IU8)) = g"
    and "ucast ((g AND NOT (push_bit 8 (mask 8))) OR push_bit 8 (ucast v)) = (ucast g :: IU8)"
  by (rule bit_word_eqI; auto simp: bit_simps dest: bit_imp_le_length)+

lemma SET_GR_SET_GR [simp]: "SET_GR i x (SET_GR i y s) = SET_GR i x s"
  by (simp add: SET_GR_def)

lemma SET_GR_GET [simp]: "SET_GR i (CCPU_GR s i) s = s"
  by (simp add: SET_GR_def)

interpretation GR: cells "\<lambda>i. i < 8" "\<lambda>i s. CCPU_GR s i" SET_GR
  by unfold_locales simp_all

interpretation FL: cells "\<lambda>i. i < 32" "\<lambda>i s. CCPU_FLAGS s i" SET_FLAG
  by unfold_locales (simp_all add: SET_FLAG_def)

interpretation WR: cells "\<lambda>i. i < 8" GET_WR SET_WR
  by unfold_locales (simp_all add: GET_WR_def SET_WR_def)

interpretation BR: cells "\<lambda>i. i < 8" GET_BR SET_BR
  by unfold_locales (auto simp: GET_BR_def SET_BR_def simp del: drop_bit_and drop_bit_or)

end
