(* ===== verification/Ccpu_Bsic.thy ===== *)
theory Ccpu_Bsic
  imports Ccpu_State
begin

text \<open>
  Flag and selector support: the parity table of \<open>c_main.c\<close>, the operand size macros of
  \<open>c_main.h\<close>, and the functions of \<open>c_bsic.c\<close>.
\<close>

section \<open>Operand sizes and the parity table\<close>

definition SZ2MSB :: "nat \<Rightarrow> IU32" where
  "SZ2MSB x = drop_bit (32 - x) 0x80000000"

definition SZ2MASK :: "nat \<Rightarrow> IU32" where
  "SZ2MASK x = drop_bit (32 - x) 0xffffffff"

definition pf_table :: "IU8 list" where
  "pf_table =
   [1, 0, 0, 1, 0, 1, 1, 0, 0, 1, 1, 0, 1, 0, 0, 1,
    0, 1, 1, 0, 1, 0, 0, 1, 1, 0, 0, 1, 0, 1, 1, 0,
    0, 1, 1, 0, 1, 0, 0, 1, 1, 0, 0, 1, 0, 1, 1, 0,
    1, 0, 0, 1, 0, 1, 1, 0, 0, 1, 1, 0, 1, 0, 0, 1,
    0, 1, 1, 0, 1, 0, 0, 1, 1, 0, 0, 1, 0, 1, 1, 0,
    1, 0, 0, 1, 0, 1, 1, 0, 0, 1, 1, 0, 1, 0, 0, 1,
    1, 0, 0, 1, 0, 1, 1, 0, 0, 1, 1, 0, 1, 0, 0, 1,
    0, 1, 1, 0, 1, 0, 0, 1, 1, 0, 0, 1, 0, 1, 1, 0,
    0, 1, 1, 0, 1, 0, 0, 1, 1, 0, 0, 1, 0, 1, 1, 0,
    1, 0, 0, 1, 0, 1, 1, 0, 0, 1, 1, 0, 1, 0, 0, 1,
    1, 0, 0, 1, 0, 1, 1, 0, 0, 1, 1, 0, 1, 0, 0, 1,
    0, 1, 1, 0, 1, 0, 0, 1, 1, 0, 0, 1, 0, 1, 1, 0,
    1, 0, 0, 1, 0, 1, 1, 0, 0, 1, 1, 0, 1, 0, 0, 1,
    0, 1, 1, 0, 1, 0, 0, 1, 1, 0, 0, 1, 0, 1, 1, 0,
    0, 1, 1, 0, 1, 0, 0, 1, 1, 0, 0, 1, 0, 1, 1, 0,
    1, 0, 0, 1, 0, 1, 1, 0, 0, 1, 1, 0, 1, 0, 0, 1]"

text \<open>The look-up \<open>pf_table[x]\<close> of a byte, widened to the flag's type.\<close>

definition pf_lookup :: "IU8 \<Rightarrow> IU32" where
  "pf_lookup x = ucast (pf_table ! unat x)"

text \<open>What the parity flag means: the low byte holds an even number of set bits.\<close>

definition even_parity :: "nat \<Rightarrow> bool" where
  "even_parity x = even (length (filter (bit x) [0..<8]))"

lemma bit_0x80000000: "bit (0x80000000 :: IU32) k \<longleftrightarrow> k = 31"
  using bit_exp_iff [of 31 k, where ?'a = IU32] by (auto simp: possible_bit_def)

lemma SZ2MSB_eq: "0 < n \<Longrightarrow> n \<le> 32 \<Longrightarrow> SZ2MSB n = 2 ^ (n - 1)"
  unfolding SZ2MSB_def
  by (rule bit_word_eqI, simp only: bit_drop_bit_eq comp_def bit_0x80000000 bit_exp_iff) auto

lemma SZ2MASK_eq: "n \<le> 32 \<Longrightarrow> SZ2MASK n = mask n"
proof (rule bit_word_eqI)
  fix k assume n: "n \<le> 32" and k: "k < LENGTH(32)"
  have m1: "(0xffffffff :: IU32) = - 1" by simp
  show "bit (SZ2MASK n) k = bit (mask n :: IU32) k"
    unfolding SZ2MASK_def m1 using n k by (auto simp: bit_simps)
qed

lemma and_SZ2MSB: "0 < n \<Longrightarrow> n \<le> 32 \<Longrightarrow> (x AND SZ2MSB n \<noteq> 0) = bit x (n - 1)"
  by (simp add: SZ2MSB_eq and_exp_neq_0_iff)

lemma even_parity_div: "even_parity x = even (\<Sum>k\<leftarrow>[0..<8]. x div 2 ^ k)"
proof -
  have "even (length (filter (bit x) ks)) = even (\<Sum>k\<leftarrow>ks. x div 2 ^ k)" for ks
    by (induction ks) (auto simp: bit_iff_odd)
  then show ?thesis by (simp add: even_parity_def)
qed

lemma upt_256: "[0..<256] = 0 # 1 # [2..<256]"
  by (simp add: upt_conv_Cons numeral_2_eq_2)

lemma upt_8: "[0..<8] = [0, 1, 2, 3, 4, 5, 6, 7::nat]"
  by (simp add: upt_conv_Cons numeral_2_eq_2)

lemma pf_table_even: "pf_table = map (\<lambda>i. of_bool (even_parity i)) [0..<256]"
  unfolding even_parity_div upt_8 upt_256 by (simp add: pf_table_def)

lemma pf_lookup_even: "pf_lookup x = of_bool (even_parity (unat x))"
proof -
  have "unat x < 256" using unsigned_less [of x] by simp
  then show ?thesis by (simp add: pf_lookup_def pf_table_even)
qed

section \<open>Reading operands and results\<close>

definition op_size :: "nat \<Rightarrow> bool" where
  "op_size n = (n = 8 \<or> n = 16 \<or> n = 32)"

definition sval :: "nat \<Rightarrow> nat \<Rightarrow> int" where
  "sval n x = (if x < 2 ^ (n - 1) then int x else int x - 2 ^ n)"

definition sfits :: "nat \<Rightarrow> int \<Rightarrow> bool" where
  "sfits n v = (- (2 ^ (n - 1)) \<le> v \<and> v < 2 ^ (n - 1))"

lemma op_sizeD: "op_size n \<Longrightarrow> 0 < n \<and> 4 < n \<and> n \<le> 32"
  by (auto simp: op_size_def)

lemma even_parity_mod [simp]: "even_parity (x mod 256) = even_parity x"
proof -
  have "bit (x mod 256) k = bit x k" if "k \<in> set [0..<8]" for k
    using that bit_take_bit_iff [of 8 x k] by (auto simp: take_bit_eq_mod)
  then have "filter (bit (x mod 256)) [0..<8] = filter (bit x) [0..<8]" by (auto intro: filter_cong)
  then show ?thesis by (simp add: even_parity_def)
qed

lemma pf_result: "pf_lookup (ucast (x AND 0xff :: IU32)) = of_bool (even_parity (unat x))"
proof -
  have "unat (ucast (x AND 0xff) :: IU8) = unat x mod 256"
    using unat_and_mask [of x 8] by (simp add: unsigned_ucast_eq take_bit_eq_mod mask_eq_exp_minus_1)
  then show ?thesis by (simp add: pf_lookup_even)
qed

section \<open>The flags register\<close>

definition do_multiple_shiftrot_of :: "IU32 \<Rightarrow> ccpu \<Rightarrow> ccpu" where
  "do_multiple_shiftrot_of new_of s =
     (let s = (if shiftrot_cold s
               then s\<lparr>shiftrot_of_undef := env_SHIFTROT_OF_UNDEF s, shiftrot_cold := False\<rparr>
               else s)
      in if shiftrot_of_undef s then SET_OF 0 s else SET_OF new_of s)"

definition getFLAGS :: "ccpu \<Rightarrow> IU32" where
  "getFLAGS s =
     push_bit 14 (GET_NT s) OR push_bit 12 (GET_IOPL s) OR push_bit 11 (GET_OF s) OR
     push_bit 10 (GET_DF s) OR push_bit 9 (GET_IF s) OR push_bit 8 (GET_TF s) OR
     push_bit 7 (GET_SF s) OR push_bit 6 (GET_ZF s) OR push_bit 4 (GET_AF s) OR
     push_bit 2 (GET_PF s) OR GET_CF s OR 2"

definition c_getEFLAGS :: "ccpu \<Rightarrow> IU32" where
  "c_getEFLAGS s = getFLAGS s OR push_bit 17 (GET_VM s) OR push_bit 16 (GET_RF s)"

definition setFLAGS :: "IU32 \<Rightarrow> ccpu \<Rightarrow> ccpu" where
  "setFLAGS flags s =
     (let s = SET_CF (of_bool (flags AND 0x1 \<noteq> 0)) s;
          s = SET_PF (of_bool (flags AND 0x4 \<noteq> 0)) s;
          s = SET_AF (of_bool (flags AND 0x10 \<noteq> 0)) s;
          s = SET_ZF (of_bool (flags AND 0x40 \<noteq> 0)) s;
          s = SET_SF (of_bool (flags AND 0x80 \<noteq> 0)) s;
          s = SET_TF (of_bool (flags AND 0x100 \<noteq> 0)) s;
          s = SET_DF (of_bool (flags AND 0x400 \<noteq> 0)) s;
          s = SET_OF (of_bool (flags AND 0x800 \<noteq> 0)) s;
          s = (if CCPU_CPL s \<le> GET_IOPL s
               then SET_IF (of_bool (flags AND 0x200 \<noteq> 0)) s else s);
          s = SET_NT (of_bool (flags AND 0x4000 \<noteq> 0)) s
      in if CCPU_CPL s = 0 then SET_IOPL (drop_bit 12 flags AND 3) s else s)"

definition c_setEFLAGS :: "IU32 \<Rightarrow> ccpu \<Rightarrow> ccpu" where
  "c_setEFLAGS flags s =
     (let s = setFLAGS flags s;
          s = SET_RF (of_bool (flags AND 0x10000 \<noteq> 0)) s
      in if CCPU_CPL s = 0 then SET_VM (of_bool (flags AND 0x20000 \<noteq> 0)) s else s)"

section \<open>Selectors and descriptors\<close>

record CPU_DESCR =
  descr_base :: IU32
  descr_limit :: IU32
  descr_AR :: IU16

definition descriptor_super_type :: "IU16 \<Rightarrow> IU16" where
  "descriptor_super_type AR =
     (let super = AR AND 0x1f
      in if super \<in> {0x0, 0x8, 0xa, 0xd} then 0
         else if super \<in> {0x1, 0x2, 0x3, 0x4, 0x5, 0x6, 0x7, 0x9, 0xb, 0xc, 0xe, 0xf} then super
         else super OR 1)"

definition GET_SELECTOR_TI :: "IU16 \<Rightarrow> IU16" where
  "GET_SELECTOR_TI x = drop_bit 2 (x AND 4)"

definition GET_SELECTOR_INDEX_TIMES8 :: "IU16 \<Rightarrow> IU16" where
  "GET_SELECTOR_INDEX_TIMES8 x = x AND 0xfff8"

definition selector_is_null :: "IU16 \<Rightarrow> bool" where
  "selector_is_null selector =
     (drop_bit 3 (selector AND 0xfff8) = 0 \<and> GET_SELECTOR_TI selector = 0)"

text \<open>The two checks return \<open>None\<close> for TRUE (outside), \<open>Some\<close> of \<open>*descr_addr\<close> for FALSE. The
  comparison \<open>offset + 7 > limit\<close> is made on \<open>int\<close>s, so it does not wrap at 16 bits.\<close>

definition selector_outside_GDT :: "IU16 \<Rightarrow> ccpu \<Rightarrow> IU32 option" where
  "selector_outside_GDT selector s =
     (let offset = GET_SELECTOR_INDEX_TIMES8 selector
      in if GET_SELECTOR_TI selector = 1 \<or> offset = 0
            \<or> unat offset + 7 > unat (star_limit (CCPU_STAR s 0))
         then None
         else Some (star_base (CCPU_STAR s 0) + ucast offset))"

definition selector_outside_GDT_LDT :: "IU16 \<Rightarrow> ccpu \<Rightarrow> IU32 option" where
  "selector_outside_GDT_LDT selector s =
     (let offset = GET_SELECTOR_INDEX_TIMES8 selector
      in if GET_SELECTOR_TI selector = 0
         then (if offset = 0 \<or> unat offset + 7 > unat (star_limit (CCPU_STAR s 0)) then None
               else Some (star_base (CCPU_STAR s 0) + ucast offset))
         else (if sar_selector (CCPU_SAR s 0) \<le> 3
                  \<or> unat offset + 7 > unat (sar_limit (CCPU_SAR s 0)) then None
               else Some (sar_base (CCPU_SAR s 0) + ucast offset)))"

text \<open>
  \<open>spr_read_dword\<close> is the supervisor read of \<open>c_page.c\<close>, a parameter here: it yields the double
  word at a linear address or the page fault it raises.
\<close>

definition read_descriptor_linear ::
  "(IU32 \<Rightarrow> 'e + IU32) \<Rightarrow> IU32 \<Rightarrow> 'e + CPU_DESCR" where
  "read_descriptor_linear spr_read_dword addr =
     (case spr_read_dword addr of Inl e \<Rightarrow> Inl e | Inr first_dword \<Rightarrow>
      (case spr_read_dword (addr + 4) of Inl e \<Rightarrow> Inl e | Inr second_dword \<Rightarrow>
       (let AR = ucast (drop_bit 8 second_dword AND 0xffff);
            base = drop_bit 16 first_dword OR (push_bit 16 second_dword AND 0xff0000) OR
                   (second_dword AND 0xff000000);
            limit = (first_dword AND 0xffff) OR (second_dword AND 0xf0000);
            limit = (if second_dword AND 0x800000 \<noteq> 0
                     then push_bit 12 limit OR 0xfff else limit)
        in Inr \<lparr>descr_base = base, descr_limit = limit, descr_AR = AR\<rparr>)))"

section \<open>The flags register as a word\<close>

lemma flag_bit:
  assumes "flags_wf s" "i \<in> bit_flags"
  shows "bit (CCPU_FLAGS s i) k = (k = 0 \<and> CCPU_FLAGS s i \<noteq> 0)"
  by (subst flags_wf_of_bool [OF assms]) (simp add: bit_simps)

lemma iopl_bit:
  assumes "flags_wf s" "bit (GET_IOPL s) k"
  shows "k < 2"
proof (rule ccontr)
  assume "\<not> k < 2"
  then have "2 ^ 2 \<le> (2 ^ k :: nat)" by (intro power_increasing) simp_all
  moreover have "2 ^ k \<le> unat (GET_IOPL s)"
  proof (rule ccontr)
    assume "\<not> 2 ^ k \<le> unat (GET_IOPL s)"
    then have "unat (GET_IOPL s) div 2 ^ k = 0" by simp
    then show False using assms(2) by (simp only: bit_unat bit_nat_iff_odd_div) simp
  qed
  moreover have "unat (GET_IOPL s) \<le> 3" using assms(1) by (simp add: flags_wf_def word_le_nat_alt)
  ultimately show False by simp
qed

lemma bit_flag_pushed:
  assumes "flags_wf s" "i \<in> bit_flags"
  shows "bit (push_bit i (CCPU_FLAGS s i)) k = (k = i \<and> CCPU_FLAGS s k \<noteq> 0)"
proof -
  have "i < 32" using assms(2) by (auto simp: bit_flags_def)
  then show ?thesis by (auto simp: bit_push_bit_iff flag_bit [OF assms])
qed

lemma bit_iopl_pushed:
  assumes "flags_wf s"
  shows "bit (push_bit 12 (GET_IOPL s)) k =
     (k = 12 \<and> bit (GET_IOPL s) 0 \<or> k = 13 \<and> bit (GET_IOPL s) 1)"
proof -
  have "bit (GET_IOPL s) (k - 12) \<Longrightarrow> 12 \<le> k \<Longrightarrow> k = 12 \<or> k = 13"
    using iopl_bit [OF assms, of "k - 12"] by linarith
  then show ?thesis by (auto simp: bit_push_bit_iff)
qed

lemma bit_getEFLAGS:
  assumes wf: "flags_wf s"
  shows "bit (c_getEFLAGS s) k =
     ((k \<in> bit_flags \<and> CCPU_FLAGS s k \<noteq> 0) \<or> k = 1 \<or>
      k = 12 \<and> bit (GET_IOPL s) 0 \<or> k = 13 \<and> bit (GET_IOPL s) 1)"
proof -
  have two: "bit (2 :: IU32) k = (k = 1)"
    using bit_exp_iff [of 1 k, where ?'a = IU32] by (auto simp: possible_bit_def)
  have cf: "bit (GET_CF s) k = (k = 0 \<and> CCPU_FLAGS s k \<noteq> 0)"
    using flag_bit [OF wf, of 0 k] by (auto simp: bit_flags_def)
  show ?thesis
    unfolding c_getEFLAGS_def getFLAGS_def bit_or_iff two bit_iopl_pushed [OF wf] cf
    by (simp only: bit_flag_pushed [OF wf] bit_flags_def insert_iff empty_iff simp_thms) argo
qed

lemma flag_sel_SET:
  "CCPU_CPL (setFLAGS f s) = CCPU_CPL s"
  by (simp add: setFLAGS_def Let_def)

text \<open>
  The bits of EFLAGS that software at the current privilege may change: IF only when CPL is at
  most IOPL, IOPL and VM only at level 0.
\<close>

definition flags_rights :: "ccpu \<Rightarrow> nat set" where
  "flags_rights s = {0, 2, 4, 6, 7, 8, 10, 11, 14, 16} \<union>
     (if CCPU_CPL s \<le> GET_IOPL s then {9} else {}) \<union> (if CCPU_CPL s = 0 then {12, 13, 17} else {})"

lemma and_masks:
  "(f AND 0x1 \<noteq> 0) = bit f 0" "(f AND 0x4 \<noteq> 0) = bit f 2" "(f AND 0x10 \<noteq> 0) = bit f 4"
  "(f AND 0x40 \<noteq> 0) = bit f 6" "(f AND 0x80 \<noteq> 0) = bit f 7" "(f AND 0x100 \<noteq> 0) = bit f 8"
  "(f AND 0x200 \<noteq> 0) = bit f 9" "(f AND 0x400 \<noteq> 0) = bit f 10" "(f AND 0x800 \<noteq> 0) = bit f 11"
  "(f AND 0x4000 \<noteq> 0) = bit f 14" "(f AND 0x10000 \<noteq> 0) = bit f 16" "(f AND 0x20000 \<noteq> 0) = bit f 17"
  for f :: IU32
  using and_exp_neq_0_iff [of f 0] and_exp_neq_0_iff [of f 2] and_exp_neq_0_iff [of f 4]
    and_exp_neq_0_iff [of f 6] and_exp_neq_0_iff [of f 7] and_exp_neq_0_iff [of f 8]
    and_exp_neq_0_iff [of f 9] and_exp_neq_0_iff [of f 10] and_exp_neq_0_iff [of f 11]
    and_exp_neq_0_iff [of f 14] and_exp_neq_0_iff [of f 16] and_exp_neq_0_iff [of f 17]
  by (simp_all only: power_0 power_numeral Num.pow.simps Num.sqr.simps Num.mult_num_simps numeral_One) 

lemma setEFLAGS_flags:
  "CCPU_FLAGS (c_setEFLAGS f s) i =
     (if i \<in> flags_rights s - {12, 13} then of_bool (bit f i)
      else if i = 12 \<and> 12 \<in> flags_rights s then drop_bit 12 f AND 3 else CCPU_FLAGS s i)"
  unfolding c_setEFLAGS_def setFLAGS_def Let_def and_masks flags_rights_def by auto

lemma and_3_le: "x AND 3 \<le> (3 :: IU32)"
  using unat_and_mask [of x 2] by (simp add: word_le_nat_alt mask_eq_exp_minus_1)

lemma setEFLAGS_wf:
  assumes "flags_wf s"
  shows "flags_wf (c_setEFLAGS f s)"
  unfolding flags_wf_def
proof (intro conjI ballI)
  fix i assume i: "i \<in> bit_flags"
  then have "i \<noteq> 12" "CCPU_FLAGS s i \<le> 1" using assms by (auto simp: bit_flags_def flags_wf_def)
  then show "CCPU_FLAGS (c_setEFLAGS f s) i \<le> 1" by (simp add: setEFLAGS_flags)
next
  show "GET_IOPL (c_setEFLAGS f s) \<le> 3"
    using assms by (simp add: setEFLAGS_flags and_3_le flags_wf_def)
qed

lemma flags_only_setEFLAGS: "flags_only s (c_setEFLAGS f s)"
  unfolding c_setEFLAGS_def setFLAGS_def Let_def
  by (intro flags_only_if flags_only_SET_FLAG flags_only_refl)

lemma bit_3: "bit (3 :: IU32) k = (k < 2)"
  using bit_mask_iff [of 2 k, where ?'a = IU32] by (auto simp: mask_eq_exp_minus_1 possible_bit_def)

lemma bit_iopl_field: "bit (drop_bit 12 f AND 3 :: IU32) k = (k < 2 \<and> bit f (12 + k))"
  by (simp only: bit_and_iff bit_3 bit_drop_bit_eq comp_def) blast

lemma EFLAGS_restore:
  assumes wf: "flags_wf s"
  shows "c_setEFLAGS (c_getEFLAGS s) s = s"
proof (rule flags_only_eqI [OF flags_only_setEFLAGS], rule ext)
  fix i
  have "drop_bit 12 (c_getEFLAGS s) AND 3 = GET_IOPL s"
  proof (rule bit_word_eqI)
    fix k assume "k < LENGTH(32)"
    show "bit (drop_bit 12 (c_getEFLAGS s) AND 3) k = bit (GET_IOPL s) k"
      unfolding bit_iopl_field bit_getEFLAGS [OF wf] using iopl_bit [OF wf, of k]
      by (auto simp: bit_flags_def less_2_cases_iff)
  qed
  moreover have "of_bool (bit (c_getEFLAGS s) i) = CCPU_FLAGS s i" if "i \<in> bit_flags"
    using that flags_wf_of_bool [OF wf that] unfolding bit_getEFLAGS [OF wf]
    by (auto simp: bit_flags_def)
  moreover have "flags_rights s - {12, 13} \<subseteq> bit_flags" by (auto simp: flags_rights_def bit_flags_def)
  ultimately show "CCPU_FLAGS (c_setEFLAGS (c_getEFLAGS s) s) i = CCPU_FLAGS s i"
    unfolding setEFLAGS_flags by (auto simp only: subset_iff split: if_split)
qed

lemma EFLAGS_load:
  assumes wf: "flags_wf s"
  shows "bit (c_getEFLAGS (c_setEFLAGS f s)) k = 
     (if k \<in> flags_rights s then bit f k else bit (c_getEFLAGS s) k)"
  unfolding bit_getEFLAGS [OF setEFLAGS_wf [OF wf]] bit_getEFLAGS [OF wf] setEFLAGS_flags
  by (auto simp: bit_iopl_field flags_rights_def bit_flags_def)

text \<open>C30. Saving EFLAGS and loading the saved value is the identity at every privilege level.\<close>

theorem eflags_save_restore:
  assumes "flags_wf s"
  shows "c_setEFLAGS (c_getEFLAGS s) s = s"
  using assms by (rule EFLAGS_restore)

theorem eflags_save_restore_witness:
  "c_setEFLAGS (c_getEFLAGS (SET_IOPL 3 (SET_IF 1 (ccpu0\<lparr>CCPU_CPL := 3\<rparr>)))) (SET_IOPL 3 (SET_IF 1 (ccpu0\<lparr>CCPU_CPL := 3\<rparr>))) =
   SET_IOPL 3 (SET_IF 1 (ccpu0\<lparr>CCPU_CPL := 3\<rparr>))"
  by (rule eflags_save_restore) (simp add: flags_wf_def bit_flags_def ccpu0_def)

text \<open>
  C31. Loading EFLAGS obeys the privilege rules: each bit the current privilege may change takes the
  value loaded, every other bit of the register keeps its old value, the loaded state satisfies the
  type invariant, and no register but the flags changes.
\<close>

theorem eflags_load_privilege:
  assumes "flags_wf s"
  shows "bit (c_getEFLAGS (c_setEFLAGS f s)) k =
           (if k \<in> flags_rights s then bit f k else bit (c_getEFLAGS s) k)
         \<and> flags_wf (c_setEFLAGS f s) \<and> flags_only s (c_setEFLAGS f s)"
  using EFLAGS_load [OF assms] setEFLAGS_wf [OF assms] flags_only_setEFLAGS by blast

theorem eflags_load_privilege_witness:
  "bit (c_getEFLAGS (c_setEFLAGS 0x3202 (ccpu0\<lparr>CCPU_CPL := 3\<rparr>))) 12 = bit (c_getEFLAGS (ccpu0\<lparr>CCPU_CPL := 3\<rparr>)) 12"
  using eflags_load_privilege [of "ccpu0\<lparr>CCPU_CPL := 3\<rparr>" "0x3202" 12]
  by (simp add: flags_rights_def flags_wf_def ccpu0_def)

section \<open>Selectors and descriptors against their tables\<close>

lemma index_times8: "unat (GET_SELECTOR_INDEX_TIMES8 x) = 8 * (unat x div 8)"
proof -
  have "GET_SELECTOR_INDEX_TIMES8 x = push_bit 3 (drop_bit 3 x)"
    unfolding GET_SELECTOR_INDEX_TIMES8_def
  proof (rule bit_word_eqI)
    fix k assume "k < LENGTH(16)"
    moreover have "bit (0xfff8 :: IU16) k = (3 \<le> k)" if "k < 16"
    proof -
      have e: "(0xfff8 :: IU16) = NOT (mask 3)" by (simp add: mask_eq_exp_minus_1)
      show ?thesis unfolding e using that by (simp add: bit_simps not_less)
    qed
    ultimately show "bit (x AND 0xfff8) k = bit (push_bit 3 (drop_bit 3 x)) k"
      by (simp only: bit_and_iff) (auto simp: bit_simps)
  qed
  then have "GET_SELECTOR_INDEX_TIMES8 x = x div 8 * 8"
    by (simp add: drop_bit_eq_div push_bit_eq_mult)
  moreover have "unat x div 8 * 8 < 65536"
    using div_times_less_eq_dividend [of "unat x" 8] unsigned_less [of x, where ?'a = nat] by simp
  ultimately show ?thesis by (simp add: unat_word_ariths unat_div)
qed

lemma selector_is_null_iff: "selector_is_null x = (GET_SELECTOR_INDEX_TIMES8 x = 0 \<and> GET_SELECTOR_TI x = 0)"
proof -
  have "drop_bit 3 (x AND 0xfff8) = 0 \<longleftrightarrow> GET_SELECTOR_INDEX_TIMES8 x = 0"
    using index_times8 [of x] unfolding GET_SELECTOR_INDEX_TIMES8_def drop_bit_eq_div
    by (simp add: word_unat_eq_iff unat_div) 
  then show ?thesis by (simp add: selector_is_null_def)
qed

text \<open>The table a selector refers to: its base and limit.\<close>

definition sel_table :: "IU16 \<Rightarrow> ccpu \<Rightarrow> IU32 \<times> nat" where
  "sel_table x s = (if GET_SELECTOR_TI x = 0
     then (star_base (CCPU_STAR s 0), unat (star_limit (CCPU_STAR s 0)))
     else (sar_base (CCPU_SAR s 0), unat (sar_limit (CCPU_SAR s 0))))"

lemma selector_in_table:
  assumes "selector_outside_GDT_LDT x s = Some a"
  shows "a = fst (sel_table x s) + of_nat (8 * (unat x div 8)) \<and> 8 * (unat x div 8) + 7 \<le> snd (sel_table x s)
     \<and> \<not> selector_is_null x"
proof -
  let ?o = "GET_SELECTOR_INDEX_TIMES8 x"
  have "ucast ?o = (of_nat (8 * (unat x div 8)) :: IU32)"
    unfolding index_times8 [symmetric] by simp
  then show ?thesis
    using assms index_times8 [of x]
    by (auto simp: selector_outside_GDT_LDT_def sel_table_def Let_def selector_is_null_iff
        simp del: of_nat_mult split: if_splits)
qed

lemma SELECTOR_TI_bit: "GET_SELECTOR_TI x = of_bool (bit x 2)"
proof (rule bit_word_eqI)
  fix k assume "k < LENGTH(16)"
  have "bit (4 :: IU16) (2 + k) = (k = 0)"
    using bit_exp_iff [of 2 "2 + k", where ?'a = IU16] by (auto simp: possible_bit_def)
  then show "bit (GET_SELECTOR_TI x) k = bit (of_bool (bit x 2) :: IU16) k"
    unfolding GET_SELECTOR_TI_def by (simp only: bit_drop_bit_eq comp_def bit_and_iff) (auto simp: bit_simps numeral_2_eq_2)
qed

lemma selector_outside_GDT_eq:
  "selector_outside_GDT x s = (if GET_SELECTOR_TI x = 1 then None else selector_outside_GDT_LDT x s)"
  by (simp add: selector_outside_GDT_def selector_outside_GDT_LDT_def SELECTOR_TI_bit)

text \<open>The two double words of a descriptor in memory.\<close>

definition descr_dword1 :: "IU32 \<Rightarrow> IU16 \<Rightarrow> IU32" where
  "descr_dword1 base limit15_0 = push_bit 16 base OR ucast limit15_0"

definition descr_dword2 :: "IU32 \<Rightarrow> IU16 \<Rightarrow> IU32" where
  "descr_dword2 base AR = (base AND 0xff000000) OR push_bit 8 (ucast AR) OR (drop_bit 16 base AND 0xff)"

lemma field_masks:
  "(0xff :: IU32) = mask 8" "(0xffff :: IU32) = mask 16" "(0xfff :: IU32) = mask 12"
  "(0xff0000 :: IU32) = push_bit 16 (mask 8)" "(0xff000000 :: IU32) = push_bit 24 (mask 8)"
  "(0xf0000 :: IU32) = push_bit 16 (mask 4)" "(0x800000 :: IU32) = 2 ^ 23"
  by (simp_all add: mask_eq_exp_minus_1)

lemma bit_field_masks:
  "bit (0xff :: IU32) k = (k < 8)" "bit (0xffff :: IU32) k = (k < 16)"
  "bit (0xff0000 :: IU32) k = (16 \<le> k \<and> k < 24)" "bit (0xff000000 :: IU32) k = (24 \<le> k \<and> k < 32)"
  "bit (0xf0000 :: IU32) k = (16 \<le> k \<and> k < 20)"
  unfolding field_masks by (auto simp: bit_simps)

lemma bit_descr_dword1: "bit (descr_dword1 base lim) k = (if k < 16 then bit lim k else k < 32 \<and> bit base (k - 16))"
  using bit_imp_le_length [of lim k] by (auto simp: descr_dword1_def bit_simps)

lemma bit_descr_dword2: "bit (descr_dword2 base AR) k =
    (if k < 8 then bit base (16 + k) else if k < 24 then bit AR (k - 8) else bit base k)"
proof -
  have "bit AR (k - 8) \<Longrightarrow> k < 24" using bit_imp_le_length [of AR "k - 8"] by auto
  moreover have "bit base k \<Longrightarrow> k < 32" using bit_imp_le_length [of base k] by simp
  ultimately show ?thesis unfolding descr_dword2_def bit_or_iff bit_and_iff bit_field_masks
    by (auto simp: bit_simps)
qed

lemma descr_unpack:
  fixes base :: IU32 and AR lim :: IU16
  defines "d1 \<equiv> descr_dword1 base lim" and "d2 \<equiv> descr_dword2 base AR"
  shows "drop_bit 16 d1 OR (push_bit 16 d2 AND 0xff0000) OR (d2 AND 0xff000000) = base"
    and "ucast (drop_bit 8 d2 AND 0xffff) = AR"
    and "(d1 AND 0xffff) OR (d2 AND 0xf0000) = ucast lim OR push_bit 16 (ucast (drop_bit 8 AR AND mask 4))"
    and "(d2 AND 0x800000 \<noteq> 0) = bit AR 15"
proof -
  note bits = bit_or_iff bit_and_iff bit_drop_bit_eq bit_push_bit_iff comp_def bit_field_masks
    bit_descr_dword1 bit_descr_dword2
  show "drop_bit 16 d1 OR (push_bit 16 d2 AND 0xff0000) OR (d2 AND 0xff000000) = base"
    unfolding d1_def d2_def by (rule bit_word_eqI) (simp only: bits, auto)
  show "ucast (drop_bit 8 d2 AND 0xffff) = AR"
    unfolding d2_def by (rule bit_word_eqI) (simp only: bit_ucast_iff bits, auto)
  show "(d1 AND 0xffff) OR (d2 AND 0xf0000) = ucast lim OR push_bit 16 (ucast (drop_bit 8 AR AND mask 4))"
    unfolding d1_def d2_def
    by (rule bit_word_eqI) (simp only: bit_ucast_iff bit_mask_iff bits, auto dest: bit_imp_le_length)
  show "(d2 AND 0x800000 \<noteq> 0) = bit AR 15"
    unfolding d2_def field_masks and_exp_neq_0_iff by (simp only: bits) simp
qed

lemma unat_or_disjoint:
  fixes x y :: IU32
  assumes "x AND y = 0" "unat x + unat y < 2 ^ 32"
  shows "unat (x OR y) = unat x + unat y"
  using assms by (simp add: unat_word_ariths flip: disjunctive_add_eq_or)

lemma unat_raw_limit:
  fixes AR lim :: IU16
  shows "unat (ucast lim OR push_bit 16 (ucast (drop_bit 8 AR AND mask 4)) :: IU32) =
     unat lim + 2 ^ 16 * (unat AR div 256 mod 16)"
proof -
  let ?h = "push_bit 16 (ucast (drop_bit 8 AR AND mask 4)) :: IU32"
  have l: "unat (ucast lim :: IU32) = unat lim" "unat lim < 2 ^ 16"
    using unsigned_less [of lim, where ?'a = nat]
    by (simp_all add: unsigned_ucast_eq take_bit_nat_eq_self_iff)
  have n: "unat (ucast (drop_bit 8 AR AND mask 4) :: IU32) = unat AR div 256 mod 16"
  proof -
    have "unat (ucast (y :: IU16) :: IU32) = unat y" for y
      using unsigned_less [of y, where ?'a = nat] by (simp add: unsigned_ucast_eq take_bit_nat_eq_self_iff)
    then show ?thesis by (simp only: unat_and_mask) (simp add: drop_bit_eq_div unat_div)
  qed
  then have h: "unat ?h = 2 ^ 16 * (unat AR div 256 mod 16)"
    by (simp add: push_bit_eq_mult unat_word_ariths)
  have "(ucast lim :: IU32) AND ?h = 0"
    by (rule bit_word_eqI) (auto simp: bit_simps dest: bit_imp_le_length)
  moreover have "unat lim + 2 ^ 16 * (unat AR div 256 mod 16) < 2 ^ 32"
    using l(2) mod_less_divisor [of 16 "unat AR div 256"] by simp
  ultimately show ?thesis using unat_or_disjoint [of "ucast lim" ?h] l h by simp
qed

lemma unat_page_limit:
  assumes "unat (l :: IU32) < 2 ^ 20"
  shows "unat (push_bit 12 l OR 0xfff) = unat l * 4096 + 4095"
proof -
  have "unat (push_bit 12 l) = unat l * 4096"
    using assms by (simp add: push_bit_eq_mult unat_word_ariths)
  moreover have "push_bit 12 l AND (0xfff :: IU32) = 0"
    unfolding field_masks by (rule bit_word_eqI) (auto simp: bit_simps)
  ultimately show ?thesis using unat_or_disjoint [of "push_bit 12 l" "0xfff"] assms by simp
qed

lemma read_descriptor_encoded:
  fixes AR lim :: IU16
  assumes "rd a = Inr (descr_dword1 base lim)" "rd (a + 4) = Inr (descr_dword2 base AR)"
  shows "\<exists>d. read_descriptor_linear rd a = Inr d \<and> descr_base d = base \<and> descr_AR d = AR \<and>
     unat (descr_limit d) = (let raw = unat lim + 2 ^ 16 * (unat AR div 256 mod 16)
        in if bit AR 15 then raw * 4096 + 4095 else raw)"
proof -
  define l :: IU32 where "l = ucast lim OR push_bit 16 (ucast (drop_bit 8 AR AND mask 4))"
  have l: "unat l = unat lim + 2 ^ 16 * (unat AR div 256 mod 16)"
    unfolding l_def by (rule unat_raw_limit)
  moreover have "unat lim < 2 ^ 16" using unsigned_less [of lim, where ?'a = nat] by simp
  ultimately have "unat l < 2 ^ 20" using mod_less_divisor [of 16 "unat AR div 256"] by simp
  note unat_page_limit [OF this]
  then show ?thesis
    unfolding read_descriptor_linear_def assms Let_def sum.case descr_unpack l_def [symmetric]
    by (simp add: l)
qed
text \<open>
  A selector the bounds check accepts names a whole descriptor inside its table: the eight bytes
  at the returned address lie within the table's limit, the selector is not null, and the GDT-only
  check accepts it exactly when it also refers to the GDT.
\<close>

theorem selector_check_in_table:
  assumes "selector_outside_GDT_LDT x s = Some a"
  shows "a = fst (sel_table x s) + of_nat (8 * (unat x div 8)) \<and>
         8 * (unat x div 8) + 7 \<le> snd (sel_table x s) \<and> \<not> selector_is_null x \<and>
         selector_outside_GDT x s = (if bit x 2 then None else Some a)"
  using selector_in_table [OF assms] assms
  by (simp add: selector_outside_GDT_eq SELECTOR_TI_bit)

theorem selector_check_in_table_witness:
  "(0x1010 :: IU32) = 0x1000 + of_nat (8 * (unat (0x13 :: IU16) div 8)) \<and>
   8 * (unat (0x13 :: IU16) div 8) + 7 \<le> (0x17 :: nat)"
  using selector_check_in_table [of "0x13"
      "ccpu0\<lparr>CCPU_STAR := (\<lambda>_. \<lparr>star_base = 0x1000, star_limit = 0x17\<rparr>)\<rparr>" "0x1010"]
  by (simp add: selector_outside_GDT_LDT_def sel_table_def GET_SELECTOR_TI_def
      GET_SELECTOR_INDEX_TIMES8_def)

text \<open>
  Reading a descriptor recovers every field it was packed from: the scattered base, the access
  rights, and the twenty-bit limit, scaled to bytes when the granularity bit is set.
\<close>

theorem read_descriptor_roundtrip:
  assumes "rd a = Inr (descr_dword1 base lim)" "rd (a + 4) = Inr (descr_dword2 base AR)"
  shows "\<exists>d. read_descriptor_linear rd a = Inr d \<and> descr_base d = base \<and> descr_AR d = AR \<and>
     unat (descr_limit d) = (let raw = unat lim + 2 ^ 16 * (unat AR div 256 mod 16)
        in if bit AR 15 then raw * 4096 + 4095 else raw)"
  using assms by (rule read_descriptor_encoded)

theorem read_descriptor_roundtrip_witness:
  "\<exists>d. read_descriptor_linear (\<lambda>x. if x = 0x100 then Inr (descr_dword1 0x12345678 0xffff)
          else if x = 0x104 then Inr (descr_dword2 0x12345678 0xcf9b) else Inl ()) 0x100 = Inr d \<and>
     descr_base d = 0x12345678 \<and> descr_AR d = 0xcf9b"
  using read_descriptor_roundtrip [of "\<lambda>x. if x = 0x100 then Inr (descr_dword1 0x12345678 0xffff)
          else if x = 0x104 then Inr (descr_dword2 0x12345678 0xcf9b) else Inl ()" "0x100"
      "0x12345678" "0xffff" "0xcf9b"]
  by auto

end
