(* ===== verification/Ccpu_Arith.thy ===== *)
theory Ccpu_Arith
  imports Ccpu_Bsic
begin

text \<open>
  The binary and decimal arithmetic instructions and the logic instructions of \<open>ccpu386\<close>
  (\<open>add.c\<close> to \<open>xor.c\<close>, \<open>daa.c\<close> to \<open>aad.c\<close>, the sign extensions and the flag instructions). An
  instruction takes the value \<open>*pop1\<close>, the second operand and the operand size, and returns the
  new value of \<open>*pop1\<close> with the CPU state; the carry of each sum is read off the exclusive-or of
  operands and result, exactly as the code does it.
\<close>

section \<open>Binary arithmetic\<close>

definition ADD :: "IU32 \<Rightarrow> IU32 \<Rightarrow> nat \<Rightarrow> ccpu \<Rightarrow> IU32 \<times> ccpu" where
  "ADD pop1 op2 op_sz s =
     (let msb = SZ2MSB op_sz;
          result = (pop1 + op2) AND SZ2MASK op_sz;
          op1_msb = pop1 AND msb \<noteq> 0;
          op2_msb = op2 AND msb \<noteq> 0;
          res_msb = result AND msb \<noteq> 0;
          carry = pop1 XOR op2 XOR result;
          s = SET_OF (of_bool (op1_msb = op2_msb) AND (of_bool op2_msb XOR of_bool res_msb)) s;
          s = SET_CF (of_bool (carry AND msb \<noteq> 0) XOR GET_OF s) s;
          s = SET_PF (pf_lookup (ucast (result AND 0xff))) s;
          s = SET_ZF (of_bool (result = 0)) s;
          s = SET_SF (of_bool (result AND msb \<noteq> 0)) s;
          s = SET_AF (of_bool (carry AND 0x10 \<noteq> 0)) s
      in (result, s))"

definition ADC :: "IU32 \<Rightarrow> IU32 \<Rightarrow> nat \<Rightarrow> ccpu \<Rightarrow> IU32 \<times> ccpu" where
  "ADC pop1 op2 op_sz s =
     (let msb = SZ2MSB op_sz;
          result = (pop1 + op2 + GET_CF s) AND SZ2MASK op_sz;
          op1_msb = pop1 AND msb \<noteq> 0;
          op2_msb = op2 AND msb \<noteq> 0;
          res_msb = result AND msb \<noteq> 0;
          carry = pop1 XOR op2 XOR result;
          s = SET_OF (of_bool (op1_msb = op2_msb) AND (of_bool op2_msb XOR of_bool res_msb)) s;
          s = SET_CF (of_bool (carry AND msb \<noteq> 0) XOR GET_OF s) s;
          s = SET_PF (pf_lookup (ucast (result AND 0xff))) s;
          s = SET_ZF (of_bool (result = 0)) s;
          s = SET_SF (of_bool (result AND msb \<noteq> 0)) s;
          s = SET_AF (of_bool (carry AND 0x10 \<noteq> 0)) s
      in (result, s))"

definition SUB :: "IU32 \<Rightarrow> IU32 \<Rightarrow> nat \<Rightarrow> ccpu \<Rightarrow> IU32 \<times> ccpu" where
  "SUB pop1 op2 op_sz s =
     (let msb = SZ2MSB op_sz;
          result = (pop1 - op2) AND SZ2MASK op_sz;
          op1_msb = pop1 AND msb \<noteq> 0;
          op2_msb = op2 AND msb \<noteq> 0;
          res_msb = result AND msb \<noteq> 0;
          carry = pop1 XOR op2 XOR result;
          s = SET_OF (of_bool (op1_msb \<noteq> op2_msb) AND (of_bool op1_msb XOR of_bool res_msb)) s;
          s = SET_CF (of_bool (carry AND msb \<noteq> 0) XOR GET_OF s) s;
          s = SET_PF (pf_lookup (ucast (result AND 0xff))) s;
          s = SET_ZF (of_bool (result = 0)) s;
          s = SET_SF (of_bool (result AND msb \<noteq> 0)) s;
          s = SET_AF (of_bool (carry AND 0x10 \<noteq> 0)) s
      in (result, s))"

definition SBB :: "IU32 \<Rightarrow> IU32 \<Rightarrow> nat \<Rightarrow> ccpu \<Rightarrow> IU32 \<times> ccpu" where
  "SBB pop1 op2 op_sz s =
     (let msb = SZ2MSB op_sz;
          result = (pop1 - op2 - GET_CF s) AND SZ2MASK op_sz;
          op1_msb = pop1 AND msb \<noteq> 0;
          op2_msb = op2 AND msb \<noteq> 0;
          res_msb = result AND msb \<noteq> 0;
          carry = pop1 XOR op2 XOR result;
          s = SET_OF (of_bool (op1_msb \<noteq> op2_msb) AND (of_bool op1_msb XOR of_bool res_msb)) s;
          s = SET_CF (of_bool (carry AND msb \<noteq> 0) XOR GET_OF s) s;
          s = SET_PF (pf_lookup (ucast (result AND 0xff))) s;
          s = SET_ZF (of_bool (result = 0)) s;
          s = SET_SF (of_bool (result AND msb \<noteq> 0)) s;
          s = SET_AF (of_bool (carry AND 0x10 \<noteq> 0)) s
      in (result, s))"

definition CMP :: "IU32 \<Rightarrow> IU32 \<Rightarrow> nat \<Rightarrow> ccpu \<Rightarrow> ccpu" where
  "CMP op1 op2 op_sz s =
     (let msb = SZ2MSB op_sz;
          result = (op1 - op2) AND SZ2MASK op_sz;
          op1_msb = op1 AND msb \<noteq> 0;
          op2_msb = op2 AND msb \<noteq> 0;
          res_msb = result AND msb \<noteq> 0;
          carry = op1 XOR op2 XOR result;
          s = SET_OF (of_bool (op1_msb \<noteq> op2_msb) AND (of_bool op1_msb XOR of_bool res_msb)) s;
          s = SET_CF (of_bool (carry AND msb \<noteq> 0) XOR GET_OF s) s;
          s = SET_PF (pf_lookup (ucast (result AND 0xff))) s;
          s = SET_ZF (of_bool (result = 0)) s;
          s = SET_SF (of_bool (result AND msb \<noteq> 0)) s
      in SET_AF (of_bool (carry AND 0x10 \<noteq> 0)) s)"

definition NEG :: "IU32 \<Rightarrow> nat \<Rightarrow> ccpu \<Rightarrow> IU32 \<times> ccpu" where
  "NEG pop1 op_sz s =
     (let msb = SZ2MSB op_sz;
          result = (- pop1) AND SZ2MASK op_sz;
          op1_msb = pop1 AND msb \<noteq> 0;
          res_msb = result AND msb \<noteq> 0;
          s = SET_OF (of_bool op1_msb AND of_bool res_msb) s;
          s = SET_CF (of_bool op1_msb OR of_bool res_msb) s;
          s = SET_PF (pf_lookup (ucast (result AND 0xff))) s;
          s = SET_ZF (of_bool (result = 0)) s;
          s = SET_SF (of_bool (result AND msb \<noteq> 0)) s;
          s = SET_AF (of_bool ((pop1 XOR result) AND 0x10 \<noteq> 0)) s
      in (result, s))"

definition INC :: "IU32 \<Rightarrow> nat \<Rightarrow> ccpu \<Rightarrow> IU32 \<times> ccpu" where
  "INC pop1 op_sz s =
     (let msb = SZ2MSB op_sz;
          result = (pop1 + 1) AND SZ2MASK op_sz;
          op1_msb = pop1 AND msb \<noteq> 0;
          res_msb = result AND msb \<noteq> 0;
          s = SET_OF (of_bool (\<not> op1_msb) AND of_bool res_msb) s;
          s = SET_PF (pf_lookup (ucast (result AND 0xff))) s;
          s = SET_ZF (of_bool (result = 0)) s;
          s = SET_SF (of_bool (result AND msb \<noteq> 0)) s;
          s = SET_AF (of_bool ((pop1 XOR result) AND 0x10 \<noteq> 0)) s
      in (result, s))"

definition DEC :: "IU32 \<Rightarrow> nat \<Rightarrow> ccpu \<Rightarrow> IU32 \<times> ccpu" where
  "DEC pop1 op_sz s =
     (let msb = SZ2MSB op_sz;
          result = (pop1 - 1) AND SZ2MASK op_sz;
          op1_msb = pop1 AND msb \<noteq> 0;
          res_msb = result AND msb \<noteq> 0;
          s = SET_OF (of_bool op1_msb AND of_bool (\<not> res_msb)) s;
          s = SET_PF (pf_lookup (ucast (result AND 0xff))) s;
          s = SET_ZF (of_bool (result = 0)) s;
          s = SET_SF (of_bool (result AND msb \<noteq> 0)) s;
          s = SET_AF (of_bool ((pop1 XOR result) AND 0x10 \<noteq> 0)) s
      in (result, s))"

section \<open>Logic\<close>

definition AND_i :: "IU32 \<Rightarrow> IU32 \<Rightarrow> nat \<Rightarrow> ccpu \<Rightarrow> IU32 \<times> ccpu" where
  "AND_i pop1 op2 op_sz s =
     (let result = pop1 AND op2;
          s = SET_CF 0 s; s = SET_OF 0 s; s = SET_AF 0 s;
          s = SET_PF (pf_lookup (ucast (result AND 0xff))) s;
          s = SET_ZF (of_bool (result = 0)) s;
          s = SET_SF (of_bool (result AND SZ2MSB op_sz \<noteq> 0)) s
      in (result, s))"

definition OR_i :: "IU32 \<Rightarrow> IU32 \<Rightarrow> nat \<Rightarrow> ccpu \<Rightarrow> IU32 \<times> ccpu" where
  "OR_i pop1 op2 op_sz s =
     (let result = pop1 OR op2;
          s = SET_CF 0 s; s = SET_OF 0 s; s = SET_AF 0 s;
          s = SET_PF (pf_lookup (ucast (result AND 0xff))) s;
          s = SET_ZF (of_bool (result = 0)) s;
          s = SET_SF (of_bool (result AND SZ2MSB op_sz \<noteq> 0)) s
      in (result, s))"

definition XOR_i :: "IU32 \<Rightarrow> IU32 \<Rightarrow> nat \<Rightarrow> ccpu \<Rightarrow> IU32 \<times> ccpu" where
  "XOR_i pop1 op2 op_sz s =
     (let result = pop1 XOR op2;
          s = SET_CF 0 s; s = SET_OF 0 s; s = SET_AF 0 s;
          s = SET_PF (pf_lookup (ucast (result AND 0xff))) s;
          s = SET_ZF (of_bool (result = 0)) s;
          s = SET_SF (of_bool (result AND SZ2MSB op_sz \<noteq> 0)) s
      in (result, s))"

definition TEST :: "IU32 \<Rightarrow> IU32 \<Rightarrow> nat \<Rightarrow> ccpu \<Rightarrow> ccpu" where
  "TEST op1 op2 op_sz s =
     (let result = op1 AND op2;
          s = SET_CF 0 s; s = SET_OF 0 s; s = SET_AF 0 s;
          s = SET_PF (pf_lookup (ucast (result AND 0xff))) s;
          s = SET_ZF (of_bool (result = 0)) s
      in SET_SF (of_bool (result AND SZ2MSB op_sz \<noteq> 0)) s)"

definition NOT_i :: "IU32 \<Rightarrow> IU32" where
  "NOT_i pop1 = NOT pop1"

section \<open>Reference adder and subtracter\<close>

definition arith_flags :: "nat \<Rightarrow> nat \<Rightarrow> bool \<Rightarrow> bool \<Rightarrow> bool \<Rightarrow> ccpu \<Rightarrow> ccpu" where
  "arith_flags n r ov cy ac s =
     SET_AF (of_bool ac) (SET_SF (of_bool (2 ^ (n - 1) \<le> r)) (SET_ZF (of_bool (r = 0))
       (SET_PF (of_bool (even_parity r)) (SET_CF (of_bool cy) (SET_OF (of_bool ov) s)))))"

definition adder :: "nat \<Rightarrow> nat \<Rightarrow> nat \<Rightarrow> nat \<Rightarrow> ccpu \<Rightarrow> IU32 \<times> ccpu" where
  "adder n a b c s =
     (of_nat ((a + b + c) mod 2 ^ n),
      arith_flags n ((a + b + c) mod 2 ^ n) (\<not> sfits n (sval n a + sval n b + int c))
        (2 ^ n \<le> a + b + c) (16 \<le> a mod 16 + b mod 16 + c) s)"

definition subber :: "nat \<Rightarrow> nat \<Rightarrow> nat \<Rightarrow> nat \<Rightarrow> ccpu \<Rightarrow> IU32 \<times> ccpu" where
  "subber n a b c s =
     (of_nat ((2 ^ n + a - b - c) mod 2 ^ n),
      arith_flags n ((2 ^ n + a - b - c) mod 2 ^ n) (\<not> sfits n (sval n a - sval n b - int c))
        (a < b + c) (a mod 16 < b mod 16 + c) s)"


text \<open>Facts that hold of every operand size, in the form the flag computations need them.\<close>

lemma sz_arith:
  assumes "op_size n"
  obtains p :: nat where "2 ^ n = 2 * p" "2 ^ (n - 1) = p" "SZ2MASK n = mask n"
    "\<And>x :: IU32. (x AND SZ2MSB n \<noteq> 0) = bit x (n - 1)"
    "\<And>x :: IU32. unat x < 2 * p \<Longrightarrow> bit x (n - 1) = (p \<le> unat x)" "4 < n" "n \<le> 32"
proof (rule that [of "2 ^ (n - 1)"])
  have n: "0 < n" "4 < n" "n \<le> 32" using op_sizeD [OF assms] by auto
  show p2: "(2 ^ n :: nat) = 2 * 2 ^ (n - 1)" using n by (cases n) simp_all
  show "SZ2MASK n = mask n" using n by (simp add: SZ2MASK_eq)
  show "(x AND SZ2MSB n \<noteq> 0) = bit x (n - 1)" for x :: IU32 using n by (simp add: and_SZ2MSB)
  show "bit x (n - 1) = (2 ^ (n - 1) \<le> unat x)" if "unat x < 2 * 2 ^ (n - 1)" for x :: IU32
    using that bit_top by (simp only: bit_unat)
qed (use op_sizeD [OF assms] in simp_all)

lemma and_16_iff: "(x AND 0x10 \<noteq> 0) = bit x 4" for x :: IU32
  using and_exp_neq_0_iff [of x 4] by simp

lemma aux_carry_add:
  fixes a b r :: IU32
  assumes "unat r = (unat a + unat b + c) mod 2 ^ n" "4 < n" "c \<le> 1"
  shows "(bit a 4 \<noteq> (bit b 4 \<noteq> bit r 4)) = (16 \<le> unat a mod 16 + unat b mod 16 + c)"
proof -
  have "bit (unat r) 4 = bit (unat a + unat b + c) 4" using assms by (simp only: bit_mod_pow2)
  then show ?thesis using bit_xor3_add [OF assms(3), of "unat a" 4 "unat b"]
    by (simp only: bit_unat) simp
qed

lemma of_nat_unat_id: "of_nat (unat x) = x" for x :: "'a::len word"
  by simp


lemma add_bits:
  fixes a b :: IU32 and c :: bool
  assumes n: "op_size n" and a: "unat a < 2 ^ n" and b: "unat b < 2 ^ n"
    and r: "r = (a + b + of_bool c) AND SZ2MASK n"
  shows "unat r = (unat a + unat b + of_bool c) mod 2 ^ n"
    and "bit r (n - 1) = (2 ^ (n - 1) \<le> unat r)"
    and "(bit a (n - 1) = bit b (n - 1) \<and> bit b (n - 1) \<noteq> bit r (n - 1)) =
         (\<not> sfits n (sval n (unat a) + sval n (unat b) + of_bool c))"
    and "((bit a (n - 1) \<noteq> (bit b (n - 1) \<noteq> bit r (n - 1))) \<noteq>
          (\<not> sfits n (sval n (unat a) + sval n (unat b) + of_bool c))) =
         (2 ^ n \<le> unat a + unat b + of_bool c)"
    and "(bit a 4 \<noteq> (bit b 4 \<noteq> bit r 4)) = (16 \<le> unat a mod 16 + unat b mod 16 + of_bool c)"
proof -
  obtain p :: nat where p: "2 ^ n = 2 * p" "2 ^ (n - 1) = p" "SZ2MASK n = mask n"
    "\<And>x :: IU32. (x AND SZ2MSB n \<noteq> 0) = bit x (n - 1)"
    "\<And>x :: IU32. unat x < 2 * p \<Longrightarrow> bit x (n - 1) = (p \<le> unat x)" "4 < n" "n \<le> 32"
    using sz_arith [OF n] by metis
  show ur: "unat r = (unat a + unat b + of_bool c) mod 2 ^ n"
    unfolding r p(3) using unat_masked_add [OF p(7), of a b "of_bool c"] by simp
  then have "unat r < 2 ^ n" by simp
  then have top: "bit a (n - 1) = (p \<le> unat a)" "bit b (n - 1) = (p \<le> unat b)"
      "bit r (n - 1) = (p \<le> unat r)"
    using a b p(5) unfolding p(1) by blast+
  have ip: "2 ^ n = 2 * int p" "2 ^ (n - 1) = int p"
    using p(1,2) by (metis of_nat_mult of_nat_numeral of_nat_power, metis of_nat_numeral of_nat_power)
  have c: "of_bool c \<le> (1::nat)" by simp
  show "bit r (n - 1) = (2 ^ (n - 1) \<le> unat r)" by (simp only: top p)
  note tops = adder_top [OF a [unfolded p(1)] b [unfolded p(1)] c ur [unfolded p(1)]]
  show ov: "(bit a (n - 1) = bit b (n - 1) \<and> bit b (n - 1) \<noteq> bit r (n - 1)) =
      (\<not> sfits n (sval n (unat a) + sval n (unat b) + of_bool c))"
    using tops(2) unfolding top sfits_def sval_def p ip by simp
  show "((bit a (n - 1) \<noteq> (bit b (n - 1) \<noteq> bit r (n - 1))) \<noteq>
          (\<not> sfits n (sval n (unat a) + sval n (unat b) + of_bool c))) =
         (2 ^ n \<le> unat a + unat b + of_bool c)"
    using tops(1) unfolding ov [symmetric] top p by simp
  show "(bit a 4 \<noteq> (bit b 4 \<noteq> bit r 4)) = (16 \<le> unat a mod 16 + unat b mod 16 + of_bool c)"
    using ur p(6) c by (rule aux_carry_add)
qed

lemma borrow16:
  fixes x y c :: nat
  assumes "x < 16" "y < 16" "c \<le> 1"
  shows "(16 \<le> x + y + c) = ((x + y + c) mod 16 < y + c)"
  using assms by (cases "16 \<le> x + y + c") (simp_all add: le_mod_geq)

lemma sub_bits:
  fixes a b :: IU32 and c :: bool
  assumes n: "op_size n" and a: "unat a < 2 ^ n" and b: "unat b < 2 ^ n"
    and r: "r = (a - b - of_bool c) AND SZ2MASK n"
  shows "unat r = (2 ^ n + unat a - unat b - of_bool c) mod 2 ^ n"
    and "bit r (n - 1) = (2 ^ (n - 1) \<le> unat r)"
    and "(bit a (n - 1) \<noteq> bit b (n - 1) \<and> bit a (n - 1) \<noteq> bit r (n - 1)) =
         (\<not> sfits n (sval n (unat a) - sval n (unat b) - of_bool c))"
    and "((bit a (n - 1) \<noteq> (bit b (n - 1) \<noteq> bit r (n - 1))) \<noteq>
          (\<not> sfits n (sval n (unat a) - sval n (unat b) - of_bool c))) =
         (unat a < unat b + of_bool c)"
    and "(bit a 4 \<noteq> (bit b 4 \<noteq> bit r 4)) = (unat a mod 16 < unat b mod 16 + of_bool c)"
proof -
  obtain p :: nat where p: "2 ^ n = 2 * p" "2 ^ (n - 1) = p" "SZ2MASK n = mask n"
    "\<And>x :: IU32. (x AND SZ2MSB n \<noteq> 0) = bit x (n - 1)"
    "\<And>x :: IU32. unat x < 2 * p \<Longrightarrow> bit x (n - 1) = (p \<le> unat x)" "4 < n" "n \<le> 32"
    using sz_arith [OF n] by metis
  have c: "of_bool c \<le> (1::nat)" "unat (of_bool c :: IU32) \<le> 1" by simp_all
  show ur: "unat r = (2 ^ n + unat a - unat b - of_bool c) mod 2 ^ n"
    unfolding r p(3) using unat_masked_sub [OF p(7) a b c(2)] by simp
  then have "unat r < 2 ^ n" by simp
  then have top: "bit a (n - 1) = (p \<le> unat a)" "bit b (n - 1) = (p \<le> unat b)"
      "bit r (n - 1) = (p \<le> unat r)"
    using a b p(5) unfolding p(1) by blast+
  have ip: "2 ^ n = 2 * int p" "2 ^ (n - 1) = int p"
    using p(1,2) by (metis of_nat_mult of_nat_numeral of_nat_power, metis of_nat_numeral of_nat_power)
  show "bit r (n - 1) = (2 ^ (n - 1) \<le> unat r)" by (simp only: top p)
  note tops = subber_top [OF a [unfolded p(1)] b [unfolded p(1)] c(1) ur [unfolded p(1)]]
  show ov: "(bit a (n - 1) \<noteq> bit b (n - 1) \<and> bit a (n - 1) \<noteq> bit r (n - 1)) =
         (\<not> sfits n (sval n (unat a) - sval n (unat b) - of_bool c))"
    using tops(2) unfolding top sfits_def sval_def p ip by simp
  show "((bit a (n - 1) \<noteq> (bit b (n - 1) \<noteq> bit r (n - 1))) \<noteq>
          (\<not> sfits n (sval n (unat a) - sval n (unat b) - of_bool c))) =
         (unat a < unat b + of_bool c)"
    using tops(1) unfolding ov [symmetric] top p by simp
  show "(bit a 4 \<noteq> (bit b 4 \<noteq> bit r 4)) = (unat a mod 16 < unat b mod 16 + of_bool c)"
  proof -
    have "unat a mod 2 ^ n = (unat r + unat b + of_bool c) mod 2 ^ n"
    proof -
      have "unat b + of_bool c \<le> 2 ^ n" using b by (cases c) simp_all
      then have "2 ^ n + unat a - unat b - of_bool c + (unat b + of_bool c) = unat a + 2 ^ n"
        by linarith
      then show ?thesis unfolding ur add.assoc mod_add_left_eq by (simp only: mod_add_self2)
    qed
    then have ua: "unat a = (unat r + unat b + of_bool c) mod 2 ^ n" using a by simp
    have mod16: "(x mod 16 + y mod 16 + z) mod 16 = (x + y + z) mod 16" for x y z :: nat
      by (rule mod_add_cong [OF mod_add_eq refl])
    have d16: "(16::nat) dvd 2 ^ n" using le_imp_power_dvd [of 4 n "2::nat"] p(6) by simp
    have a16: "unat a mod 16 = (unat r mod 16 + unat b mod 16 + of_bool c) mod 16"
      unfolding mod16 by (subst ua) (rule mod_mod_cancel [OF d16])
    have "(bit r 4 \<noteq> (bit b 4 \<noteq> bit a 4)) = (16 \<le> unat r mod 16 + unat b mod 16 + of_bool c)"
      using ua p(6) c(1) by (rule aux_carry_add)
    also have "\<dots> = (unat a mod 16 < unat b mod 16 + of_bool c)"
      unfolding a16 by (rule borrow16) (use c(1) in simp_all)
    finally show ?thesis by blast
  qed
qed


lemmas flag_unfold = Let_def and_16_iff pf_result bit_xor_iff SET_FLAG_sel fun_upd_same
  of_bool_and_word of_bool_xor_word of_bool_or_word

lemma word_msb: "op_size n \<Longrightarrow> (x AND SZ2MSB n \<noteq> 0) = bit x (n - 1)"
  using and_SZ2MSB op_sizeD by blast

text \<open>The flag computations of the adders, with the operation's result in \<open>r\<close>.\<close>

lemma add_raw:
  fixes a b :: IU32 and c :: bool
  assumes "op_size n" "unat a < 2 ^ n" "unat b < 2 ^ n"
    and r: "r = (a + b + of_bool c) AND SZ2MASK n"
  defines "ov \<equiv> bit a (n - 1) = bit b (n - 1) \<and> bit b (n - 1) \<noteq> bit r (n - 1)"
  shows "(r, SET_AF (of_bool (bit a 4 \<noteq> (bit b 4 \<noteq> bit r 4))) (SET_SF (of_bool (bit r (n - 1)))
            (SET_ZF (of_bool (r = 0)) (SET_PF (of_bool (even_parity (unat r)))
              (SET_CF (of_bool ((bit a (n - 1) \<noteq> (bit b (n - 1) \<noteq> bit r (n - 1))) \<noteq> ov))
                (SET_OF (of_bool ov) s)))))) =
         adder n (unat a) (unat b) (of_bool c) s"
proof -
  note bits = add_bits [OF assms(1-4)]
  have "(r = 0) = (unat r = 0)" "of_nat (unat r) = r" by (simp_all add: unat_eq_0)
  then show ?thesis
    unfolding ov_def bits(3) unfolding bits(4,5) unfolding bits(2) adder_def arith_flags_def
    by (simp only: bits(1) [symmetric] of_nat_of_bool)
qed
lemma sub_raw:
  fixes a b :: IU32 and c :: bool
  assumes "op_size n" "unat a < 2 ^ n" "unat b < 2 ^ n"
    and r: "r = (a - b - of_bool c) AND SZ2MASK n"
  defines "ov \<equiv> bit a (n - 1) \<noteq> bit b (n - 1) \<and> bit a (n - 1) \<noteq> bit r (n - 1)"
  shows "(r, SET_AF (of_bool (bit a 4 \<noteq> (bit b 4 \<noteq> bit r 4))) (SET_SF (of_bool (bit r (n - 1)))
            (SET_ZF (of_bool (r = 0)) (SET_PF (of_bool (even_parity (unat r)))
              (SET_CF (of_bool ((bit a (n - 1) \<noteq> (bit b (n - 1) \<noteq> bit r (n - 1))) \<noteq> ov))
                (SET_OF (of_bool ov) s)))))) =
         subber n (unat a) (unat b) (of_bool c) s"
proof -
  note bits = sub_bits [OF assms(1-4)]
  have "(r = 0) = (unat r = 0)" "of_nat (unat r) = r" by (simp_all add: unat_eq_0)
  then show ?thesis
    unfolding ov_def bits(3) unfolding bits(4,5) unfolding bits(2) subber_def arith_flags_def
    by (simp only: bits(1) [symmetric] of_nat_of_bool)
qed

lemma ADC_adder:
  assumes "op_size n" "unat a < 2 ^ n" "unat b < 2 ^ n" "GET_CF s = of_bool c"
  shows "ADC a b n s = adder n (unat a) (unat b) (of_bool c) s"
  unfolding ADC_def assms(4) flag_unfold word_msb [OF assms(1)]
  by (rule add_raw [OF assms(1-3) refl])

lemma ADD_adder:
  assumes "op_size n" "unat a < 2 ^ n" "unat b < 2 ^ n"
  shows "ADD a b n s = adder n (unat a) (unat b) 0 s"
  using add_raw [OF assms(1-3) refl, of False s]
  unfolding ADD_def flag_unfold word_msb [OF assms(1)] of_bool_eq add_0_right .

lemma SBB_subber:
  assumes "op_size n" "unat a < 2 ^ n" "unat b < 2 ^ n" "GET_CF s = of_bool c"
  shows "SBB a b n s = subber n (unat a) (unat b) (of_bool c) s"
  unfolding SBB_def assms(4) flag_unfold word_msb [OF assms(1)]
  by (rule sub_raw [OF assms(1-3) refl])

lemma SUB_subber:
  assumes "op_size n" "unat a < 2 ^ n" "unat b < 2 ^ n"
  shows "SUB a b n s = subber n (unat a) (unat b) 0 s"
  using sub_raw [OF assms(1-3) refl, of False s]
  unfolding SUB_def flag_unfold word_msb [OF assms(1)] of_bool_eq diff_0_right .

lemma CMP_SUB: "CMP a b n s = snd (SUB a b n s)"
  by (simp add: CMP_def SUB_def Let_def)


lemma bit_1_high: "op_size n \<Longrightarrow> \<not> bit (1 :: IU32) (n - 1)" "\<not> bit (1 :: IU32) 4"
  by (auto simp: op_size_def bit_1_iff)

lemma SET_CF_restore:
  "SET_CF (GET_CF s) (SET_AF a (SET_SF b (SET_ZF c (SET_PF d (SET_CF e (SET_OF f s)))))) =
   SET_AF a (SET_SF b (SET_ZF c (SET_PF d (SET_OF f s))))"
  by (simp add: SET_FLAG_def fun_upd_twist)

lemma NEG_SUB: "op_size n \<Longrightarrow> NEG a n s = SUB 0 a n s"
  unfolding NEG_def SUB_def flag_unfold word_msb diff_0 bit_0_eq bot_apply
  by (simp add: bot_bool_def)

lemma INC_ADD:
  "op_size n \<Longrightarrow> INC a n s = (fst (ADD a 1 n s), SET_CF (GET_CF s) (snd (ADD a 1 n s)))"
  unfolding INC_def ADD_def flag_unfold word_msb fst_conv snd_conv SET_CF_restore
  by (simp del: One_nat_def add: bit_1_high)

lemma DEC_SUB:
  "op_size n \<Longrightarrow> DEC a n s = (fst (SUB a 1 n s), SET_CF (GET_CF s) (snd (SUB a 1 n s)))"
  unfolding DEC_def SUB_def flag_unfold word_msb fst_conv snd_conv SET_CF_restore
  by (simp del: One_nat_def add: bit_1_high)

section \<open>Multi-precision sums\<close>

text \<open>
  A guest adds numbers of several digits by \<open>ADC\<close> on the digits, lowest first, the carry flag
  linking them.
\<close>

primrec adc_chain :: "nat \<Rightarrow> (IU32 \<times> IU32) list \<Rightarrow> ccpu \<Rightarrow> IU32 list \<times> ccpu" where
  "adc_chain n [] s = ([], s)"
| "adc_chain n (d # ds) s =
     (let (r, s) = ADC (fst d) (snd d) n s; (rs, s) = adc_chain n ds s in (r # rs, s))"

primrec sbb_chain :: "nat \<Rightarrow> (IU32 \<times> IU32) list \<Rightarrow> ccpu \<Rightarrow> IU32 list \<times> ccpu" where
  "sbb_chain n [] s = ([], s)"
| "sbb_chain n (d # ds) s =
     (let (r, s) = SBB (fst d) (snd d) n s; (rs, s) = sbb_chain n ds s in (r # rs, s))"

primrec digits_val :: "nat \<Rightarrow> IU32 list \<Rightarrow> nat" where
  "digits_val n [] = 0"
| "digits_val n (d # ds) = unat d + 2 ^ n * digits_val n ds"

lemma arith_flags_CF: "GET_CF (arith_flags n r ov cy ac s) = of_bool cy"
  by (simp add: arith_flags_def)

lemma unat_of_nat_mod: "n \<le> 32 \<Longrightarrow> unat (of_nat (x mod 2 ^ n) :: IU32) = x mod 2 ^ n"
proof -
  assume "n \<le> 32"
  have "x mod 2 ^ n < 2 ^ n" by simp
  also have "(2 ^ n :: nat) \<le> 2 ^ 32" using \<open>n \<le> 32\<close> by (rule power_increasing) simp
  finally show ?thesis by (simp add: unat_of_nat)
qed

lemma adc_chain_val:
  assumes n: "op_size n"
  shows "\<forall>(a, b) \<in> set ds. unat a < 2 ^ n \<and> unat b < 2 ^ n \<Longrightarrow> GET_CF s = of_bool c \<Longrightarrow>
    adc_chain n ds s = (rs, s') \<Longrightarrow>
    length rs = length ds \<and>
    digits_val n rs + 2 ^ (n * length ds) * unat (GET_CF s') =
    digits_val n (map fst ds) + digits_val n (map snd ds) + of_bool c"
proof (induction ds arbitrary: s c rs)
  case Nil
  then show ?case by simp
next
  case (Cons d ds)
  obtain a b where d: "d = (a, b)" by (cases d)
  have ab: "unat a < 2 ^ n" "unat b < 2 ^ n" using Cons.prems(1) by (auto simp: d)
  define t where "t = unat a + unat b + of_bool c"
  define s1 where "s1 = snd (adder n (unat a) (unat b) (of_bool c) s)"
  obtain rs1 where rs: "adc_chain n ds s1 = (rs1, s')" "rs = of_nat (t mod 2 ^ n) # rs1"
    using Cons.prems(3) ADC_adder [OF n ab Cons.prems(2)]
    by (auto simp: d s1_def t_def adder_def split: prod.splits)
  have "GET_CF s1 = of_bool (2 ^ n \<le> t)"
    by (simp add: s1_def adder_def arith_flags_CF t_def)
  from Cons.IH [OF _ this rs(1)] Cons.prems(1)
  have ih: "length rs1 = length ds \<and> digits_val n rs1 + 2 ^ (n * length ds) * unat (GET_CF s') =
     digits_val n (map fst ds) + digits_val n (map snd ds) + of_bool (2 ^ n \<le> t)" by simp
  have t: "t = t mod 2 ^ n + 2 ^ n * of_bool (2 ^ n \<le> t)"
  proof -
    have "t < 2 * 2 ^ n" unfolding t_def using ab by (cases c) simp_all
    then show ?thesis by (simp add: le_mod_geq)
  qed
  have "digits_val n rs + 2 ^ (n * length (d # ds)) * unat (GET_CF s') =
        t mod 2 ^ n + 2 ^ n * (digits_val n rs1 + 2 ^ (n * length ds) * unat (GET_CF s'))"
    using op_sizeD [OF n] by (simp add: rs unat_of_nat_mod power_add algebra_simps)
  also have "\<dots> = t + 2 ^ n * (digits_val n (map fst ds) + digits_val n (map snd ds))"
    using ih t by (simp add: algebra_simps)
  finally show ?case using ih by (simp add: rs d t_def algebra_simps)
qed

lemma sbb_chain_val:
  assumes n: "op_size n"
  shows "\<forall>(a, b) \<in> set ds. unat a < 2 ^ n \<and> unat b < 2 ^ n \<Longrightarrow> GET_CF s = of_bool c \<Longrightarrow>
    sbb_chain n ds s = (rs, s') \<Longrightarrow>
    length rs = length ds \<and>
    digits_val n rs + digits_val n (map snd ds) + of_bool c =
    digits_val n (map fst ds) + 2 ^ (n * length ds) * unat (GET_CF s')"
proof (induction ds arbitrary: s c rs)
  case Nil
  then show ?case by simp
next
  case (Cons d ds)
  obtain a b where d: "d = (a, b)" by (cases d)
  have ab: "unat a < 2 ^ n" "unat b < 2 ^ n" using Cons.prems(1) by (auto simp: d)
  define t where "t = (2 ^ n + unat a - unat b - of_bool c) mod 2 ^ n"
  define bw where "bw = (unat a < unat b + of_bool c)"
  define s1 where "s1 = snd (subber n (unat a) (unat b) (of_bool c) s)"
  obtain rs1 where rs: "sbb_chain n ds s1 = (rs1, s')" "rs = of_nat t # rs1"
    using Cons.prems(3) SBB_subber [OF n ab Cons.prems(2)]
    by (auto simp: d s1_def t_def subber_def split: prod.splits)
  have "GET_CF s1 = of_bool bw"
    by (simp add: s1_def subber_def arith_flags_CF bw_def)
  from Cons.IH [OF _ this rs(1)] Cons.prems(1)
  have ih: "length rs1 = length ds \<and> digits_val n rs1 + digits_val n (map snd ds) + of_bool bw =
     digits_val n (map fst ds) + 2 ^ (n * length ds) * unat (GET_CF s')" by simp
  have t: "t + unat b + of_bool c = unat a + 2 ^ n * of_bool bw"
  proof (cases bw)
    case False
    then have "2 ^ n + unat a - unat b - of_bool c = (unat a - unat b - of_bool c) + 2 ^ n"
      by (simp add: bw_def)
    then have "t = (unat a - unat b - of_bool c) mod 2 ^ n" unfolding t_def by (simp only: mod_add_self2)
    then show ?thesis using False ab by (simp add: bw_def)
  qed (use ab in \<open>simp add: t_def bw_def\<close>)
  have "digits_val n rs + digits_val n (map snd (d # ds)) + of_bool c =
        t + unat b + of_bool c + 2 ^ n * (digits_val n rs1 + digits_val n (map snd ds))"
    using op_sizeD [OF n] unat_of_nat_mod by (simp add: rs d t_def algebra_simps)
  also have "\<dots> = unat a + 2 ^ n * (digits_val n rs1 + digits_val n (map snd ds) + of_bool bw)"
    using t by (simp add: algebra_simps)
  also have "\<dots> = digits_val n (map fst (d # ds)) + 2 ^ (n * length (d # ds)) * unat (GET_CF s')"
    using ih by (simp add: d power_add distrib_left)
  finally show ?case using ih rs(2) by (intro conjI) simp_all
qed

section \<open>Correctness of the arithmetic instructions\<close>

text \<open>
  C5. \<open>ADD\<close> and \<open>ADC\<close> are the adder: for every operand size the result is the sum modulo
  \<open>2^n\<close>, CF is the carry out, AF the carry out of the low digit, OF says that the signed sum does
  not fit, and ZF, SF and PF describe the result; nothing else changes.
\<close>

theorem add_adc_correct:
  assumes "op_size n" "unat a < 2 ^ n" "unat b < 2 ^ n" "GET_CF s = of_bool c"
  shows "ADD a b n s = adder n (unat a) (unat b) 0 s \<and>
         ADC a b n s = adder n (unat a) (unat b) (of_bool c) s"
  using assms by (simp add: ADD_adder ADC_adder)

theorem add_adc_correct_witness:
  "ADD 0xf0 0x20 8 (SET_CF 1 ccpu0) = adder 8 0xf0 0x20 0 (SET_CF 1 ccpu0) \<and>
   ADC 0xf0 0x20 8 (SET_CF 1 ccpu0) = adder 8 0xf0 0x20 1 (SET_CF 1 ccpu0)"
  using add_adc_correct [of 8 "0xf0" "0x20" "SET_CF 1 ccpu0" True] by (simp add: op_size_def)

text \<open>
  C6. \<open>SUB\<close>, \<open>SBB\<close> and \<open>CMP\<close> are the subtracter: the result is the difference modulo \<open>2^n\<close>,
  CF is the borrow, AF the borrow of the low digit, OF says that the signed difference does not
  fit; \<open>CMP\<close> leaves the flags of \<open>SUB\<close>.
\<close>

theorem sub_sbb_cmp_correct:
  assumes "op_size n" "unat a < 2 ^ n" "unat b < 2 ^ n" "GET_CF s = of_bool c"
  shows "SUB a b n s = subber n (unat a) (unat b) 0 s \<and>
         SBB a b n s = subber n (unat a) (unat b) (of_bool c) s \<and>
         CMP a b n s = snd (subber n (unat a) (unat b) 0 s)"
  using assms by (simp add: SUB_subber SBB_subber CMP_SUB)

theorem sub_sbb_cmp_correct_witness:
  "SBB 0x10 0x7f 8 (SET_CF 1 ccpu0) = subber 8 0x10 0x7f 1 (SET_CF 1 ccpu0) \<and>
   CMP 0x10 0x7f 8 (SET_CF 1 ccpu0) = snd (subber 8 0x10 0x7f 0 (SET_CF 1 ccpu0))"
  using sub_sbb_cmp_correct [of 8 "0x10" "0x7f" "SET_CF 1 ccpu0" True] by (simp add: op_size_def)

text \<open>
  The one-operand instructions, which compute their flags by shorter formulas, agree with the
  two-operand ones: \<open>NEG\<close> is subtraction from zero, \<open>INC\<close> and \<open>DEC\<close> are addition and
  subtraction of one that leave CF as it was.
\<close>

theorem neg_inc_dec_equiv:
  assumes "op_size n"
  shows "NEG a n s = SUB 0 a n s \<and>
         INC a n s = (fst (ADD a 1 n s), SET_CF (GET_CF s) (snd (ADD a 1 n s))) \<and>
         DEC a n s = (fst (SUB a 1 n s), SET_CF (GET_CF s) (snd (SUB a 1 n s)))"
  using assms by (intro conjI NEG_SUB INC_ADD DEC_SUB)

theorem neg_inc_dec_equiv_witness:
  "NEG 0x80 8 ccpu0 = SUB 0 0x80 8 ccpu0"
  using neg_inc_dec_equiv [of 8 "0x80" ccpu0] by (simp add: op_size_def)

text \<open>
  Multi-precision arithmetic: a chain of \<open>ADC\<close> over digits of \<open>n\<close> bits computes the exact
  sum of the two numbers, the final CF being the carry out of the highest digit.
\<close>

theorem adc_chain_exact:
  assumes "op_size n" "\<forall>(a, b) \<in> set ds. unat a < 2 ^ n \<and> unat b < 2 ^ n" "GET_CF s = of_bool c"
    and "adc_chain n ds s = (rs, s')"
  shows "length rs = length ds \<and>
    digits_val n rs + 2 ^ (n * length ds) * unat (GET_CF s') =
    digits_val n (map fst ds) + digits_val n (map snd ds) + of_bool c"
  using assms by (rule adc_chain_val)

theorem adc_chain_exact_witness:
  "length (fst (adc_chain 8 [(0xff, 0x02), (0xff, 0x00)] ccpu0)) = 2"
  using adc_chain_exact [of 8 "[(0xff, 0x02), (0xff, 0x00)]" ccpu0 False
      "fst (adc_chain 8 [(0xff, 0x02), (0xff, 0x00)] ccpu0)"
      "snd (adc_chain 8 [(0xff, 0x02), (0xff, 0x00)] ccpu0)"]
  by (simp add: op_size_def ccpu0_def del: adc_chain.simps)

text \<open>
  Likewise a chain of \<open>SBB\<close> computes the exact difference, the final CF being the borrow.
\<close>

theorem sbb_chain_exact:
  assumes "op_size n" "\<forall>(a, b) \<in> set ds. unat a < 2 ^ n \<and> unat b < 2 ^ n" "GET_CF s = of_bool c"
    and "sbb_chain n ds s = (rs, s')"
  shows "length rs = length ds \<and>
    digits_val n rs + digits_val n (map snd ds) + of_bool c =
    digits_val n (map fst ds) + 2 ^ (n * length ds) * unat (GET_CF s')"
  using assms by (rule sbb_chain_val)

theorem sbb_chain_exact_witness:
  "length (fst (sbb_chain 8 [(0x01, 0x02), (0x00, 0x00)] ccpu0)) = 2"
  using sbb_chain_exact [of 8 "[(0x01, 0x02), (0x00, 0x00)]" ccpu0 False
      "fst (sbb_chain 8 [(0x01, 0x02), (0x00, 0x00)] ccpu0)"
      "snd (sbb_chain 8 [(0x01, 0x02), (0x00, 0x00)] ccpu0)"]
  by (simp add: op_size_def ccpu0_def del: sbb_chain.simps)

end
