(* ===== verification/Ccpu_Decimal.thy ===== *)
theory Ccpu_Decimal
  imports Ccpu_Arith
begin

text \<open>
  Decimal adjustment (\<open>daa.c\<close>, \<open>das.c\<close>, \<open>aaa.c\<close>, \<open>aas.c\<close>, \<open>aam.c\<close>, \<open>aad.c\<close>), the sign extensions
  and the instructions that load, store or set single flags.
\<close>

section \<open>Decimal adjustment\<close>

definition DAA :: "ccpu \<Rightarrow> ccpu" where
  "DAA s =
     (let temp_al = GET_AL s;
          (temp_al, s) = (if (temp_al AND 0xf) > 9 \<or> GET_AF s \<noteq> 0
                          then (temp_al + 6, SET_AF 1 s) else (temp_al, s));
          (temp_al, s) = (if GET_AL s > 0x99 \<or> GET_CF s \<noteq> 0
                          then (temp_al + 0x60, SET_CF 1 s) else (temp_al, s));
          s = SET_AL temp_al s;
          s = SET_ZF (of_bool (temp_al = 0)) s;
          s = SET_SF (of_bool (temp_al AND 0x80 \<noteq> 0)) s;
          s = SET_PF (pf_lookup temp_al) s
      in SET_OF 0 s)"

definition DAS :: "ccpu \<Rightarrow> ccpu" where
  "DAS s =
     (let temp_al = GET_AL s;
          (temp_al, s) = (if (temp_al AND 0xf) > 9 \<or> GET_AF s \<noteq> 0
                          then (temp_al - 6, SET_AF 1 s) else (temp_al, s));
          (temp_al, s) = (if GET_AL s > 0x99 \<or> GET_CF s \<noteq> 0
                          then (temp_al - 0x60, SET_CF 1 s)
                          else if temp_al > 0x9f then (temp_al, SET_CF 1 s)
                          else (temp_al, s));
          s = SET_AL temp_al s;
          s = SET_ZF (of_bool (temp_al = 0)) s;
          s = SET_SF (of_bool (temp_al AND 0x80 \<noteq> 0)) s;
          s = SET_PF (pf_lookup temp_al) s
      in SET_OF 0 s)"

definition AAA :: "ccpu \<Rightarrow> ccpu" where
  "AAA s =
     (let s = (if (GET_AL s AND 0xf) > 9 \<or> GET_AF s \<noteq> 0
               then (let s = SET_AX (GET_AX s + 6) s;
                         s = SET_AH (GET_AH s + 1) s
                     in SET_AF 1 (SET_CF 1 s))
               else SET_AF 0 (SET_CF 0 s));
          s = SET_AL (GET_AL s AND 0xf) s
      in SET_PF 0 (SET_ZF 0 (SET_SF 0 (SET_OF 0 s))))"

definition AAS :: "ccpu \<Rightarrow> ccpu" where
  "AAS s =
     (let s = (if (GET_AL s AND 0xf) > 9 \<or> GET_AF s \<noteq> 0
               then (let s = SET_AX (GET_AX s - 6) s;
                         s = SET_AH (GET_AH s - 1) s
                     in SET_AF 1 (SET_CF 1 s))
               else SET_AF 0 (SET_CF 0 s));
          s = SET_AL (GET_AL s AND 0xf) s
      in SET_PF 0 (SET_ZF 0 (SET_SF 0 (SET_OF 0 s))))"

definition AAM :: "IU32 \<Rightarrow> ccpu \<Rightarrow> ccpu_exn + ccpu" where
  "AAM op1 s =
     (if op1 = 0 then Inl Int0
      else (let s = SET_AH (ucast (ucast (GET_AL s) div op1)) s;
                s = SET_AL (ucast (ucast (GET_AL s) mod op1)) s;
                temp_al = GET_AL s;
                s = SET_ZF (of_bool (temp_al = 0)) s;
                s = SET_SF (of_bool (temp_al AND 0x80 \<noteq> 0)) s;
                s = SET_PF (pf_lookup temp_al) s
            in Inr (SET_CF 0 (SET_OF 0 (SET_AF 0 s)))))"

definition AAD :: "IU32 \<Rightarrow> ccpu \<Rightarrow> ccpu" where
  "AAD op1 s =
     (let temp_al = ucast (ucast (GET_AH s) * op1 + ucast (GET_AL s)) :: IU8;
          s = SET_AL temp_al s;
          s = SET_AH 0 s;
          s = SET_ZF (of_bool (temp_al = 0)) s;
          s = SET_SF (of_bool (temp_al AND 0x80 \<noteq> 0)) s;
          s = SET_PF (pf_lookup temp_al) s
      in SET_CF 0 (SET_OF 0 (SET_AF 0 s)))"

section \<open>Sign extension and flag instructions\<close>

definition CBW :: "ccpu \<Rightarrow> ccpu" where
  "CBW s = (if GET_AL s AND 0x80 \<noteq> 0 then SET_AH 0xff s else SET_AH 0 s)"

definition CWD :: "ccpu \<Rightarrow> ccpu" where
  "CWD s = (if GET_AX s AND 0x8000 \<noteq> 0 then SET_DX 0xffff s else SET_DX 0 s)"

definition CWDE :: "ccpu \<Rightarrow> ccpu" where
  "CWDE s =
     (let temp = ucast (GET_AX s) :: IU32;
          temp = (if temp AND 0x8000 \<noteq> 0 then temp OR 0xffff0000 else temp)
      in SET_EAX temp s)"

definition CDQ :: "ccpu \<Rightarrow> ccpu" where
  "CDQ s = (if GET_EAX s AND 0x80000000 \<noteq> 0 then SET_EDX 0xffffffff s else SET_EDX 0 s)"

definition CLC :: "ccpu \<Rightarrow> ccpu" where "CLC s = SET_CF 0 s"
definition STC :: "ccpu \<Rightarrow> ccpu" where "STC s = SET_CF 1 s"
definition CMC :: "ccpu \<Rightarrow> ccpu" where "CMC s = SET_CF (1 - GET_CF s) s"
definition CLD :: "ccpu \<Rightarrow> ccpu" where "CLD s = SET_DF 0 s"
definition STD :: "ccpu \<Rightarrow> ccpu" where "STD s = SET_DF 1 s"
definition CLI :: "ccpu \<Rightarrow> ccpu" where "CLI s = SET_IF 0 s"
definition STI :: "ccpu \<Rightarrow> ccpu" where "STI s = SET_IF 1 s"

definition CLTS :: "ccpu \<Rightarrow> ccpu" where
  "CLTS s = SET_CR 0 (CCPU_CR s 0 AND NOT 8) s"

definition LAHF :: "ccpu \<Rightarrow> ccpu" where
  "LAHF s =
     (let temp = push_bit 7 (GET_SF s) OR push_bit 6 (GET_ZF s) OR push_bit 4 (GET_AF s) OR
                 push_bit 2 (GET_PF s) OR GET_CF s OR 2
      in SET_AH (ucast temp) s)"

definition SAHF :: "ccpu \<Rightarrow> ccpu" where
  "SAHF s =
     (let temp = ucast (GET_AH s) :: IU32;
          s = SET_SF (of_bool (temp AND 0x80 \<noteq> 0)) s;
          s = SET_ZF (of_bool (temp AND 0x40 \<noteq> 0)) s;
          s = SET_AF (of_bool (temp AND 0x10 \<noteq> 0)) s;
          s = SET_PF (of_bool (temp AND 0x4 \<noteq> 0)) s
      in SET_CF (of_bool (temp AND 0x1 \<noteq> 0)) s)"

section \<open>Decimal arithmetic\<close>

text \<open>A packed decimal byte and its value.\<close>

definition packed :: "nat \<Rightarrow> bool" where
  "packed x = (x mod 16 \<le> 9 \<and> x div 16 \<le> 9)"

definition bcd_val :: "nat \<Rightarrow> nat" where
  "bcd_val x = 10 * (x div 16) + x mod 16"

definition to_bcd :: "nat \<Rightarrow> nat" where
  "to_bcd v = 16 * (v div 10) + v mod 10"

definition daa_nat :: "nat \<Rightarrow> bool \<Rightarrow> bool \<Rightarrow> nat \<times> bool" where
  "daa_nat al af cf = 
     ((al + (if al mod 16 > 9 \<or> af then 6 else 0) + (if al > 0x99 \<or> cf then 0x60 else 0)) mod 256,
      al > 0x99 \<or> cf)"

lemma and_15: "x AND 0xf = x mod 16" for x :: IU8
  using take_bit_eq_mask [of 4 x] take_bit_eq_mod [of 4 x] by (simp add: mask_eq_exp_minus_1)

lemma DAA_nat:
  assumes "GET_AF s = of_bool af" "GET_CF s = of_bool cf"
  shows "unat (GET_AL (DAA s)) = fst (daa_nat (unat (GET_AL s)) af cf)"
    "GET_CF (DAA s) = of_bool (snd (daa_nat (unat (GET_AL s)) af cf))"
  using assms
  by (auto simp: DAA_def daa_nat_def Let_def and_15 BR.get_put word_less_nat_alt unat_mod unat_word_ariths mod_simps)


text \<open>Two packed bytes and a carry in, added digit by digit: \<open>h\<close> and \<open>l\<close> are the digit sums.\<close>

lemma low_digit_adjusts: "(l mod 16 > 9 \<or> 16 \<le> l) = (10 \<le> l)" if "l \<le> 19" for l :: nat
proof (cases "16 \<le> l")
  case False
  then have "l mod 16 = l" by simp
  then show ?thesis by linarith
qed simp

lemma byte_adjusts: "(t mod 256 > 0x99 \<or> 256 \<le> t) = (154 \<le> t)" for t :: nat
proof (cases "256 \<le> t")
  case False
  then have "t mod 256 = t" by simp
  then show ?thesis by linarith
qed simp

lemma carry_digit: "(154 \<le> 16 * h + l) = (10 \<le> h + k)" "(100 \<le> 10 * h + l) = (10 \<le> h + k)"
  if "h \<le> 18" "l = 10 * k + d" "d < 10" "k \<le> 1" for h k l d :: nat
  using that by - (rule iffI; linarith)+

lemma drop_carry:
  fixes h d :: nat
  assumes "h \<le> 19" "d < 10"
  shows "(10 * h + d) mod 100 = 10 * (if 10 \<le> h then h - 10 else h) + d"
    and "(16 * h + d + (if 10 \<le> h then 96 else 0)) mod 256 = 16 * (if 10 \<le> h then h - 10 else h) + d"
proof -
  show "(10 * h + d) mod 100 = 10 * (if 10 \<le> h then h - 10 else h) + d"
  proof (cases "10 \<le> h")
    case True
    with assms have "10 * h + d = 10 * (h - 10) + d + 100" "10 * (h - 10) + d < 100" by simp_all
    then show ?thesis using True by (simp only: mod_add_self2) simp
  qed (use assms in simp)
  show "(16 * h + d + (if 10 \<le> h then 96 else 0)) mod 256 = 16 * (if 10 \<le> h then h - 10 else h) + d"
  proof (cases "10 \<le> h")
    case True
    with assms have "16 * h + d + 96 = 16 * (h - 10) + d + 256" "16 * (h - 10) + d < 256" by simp_all
    then show ?thesis using True by (simp only: mod_add_self2) simp
  qed (use assms in simp)
qed

lemma daa_nat_digits:
  assumes "h \<le> 18" "l \<le> 19"
  shows "daa_nat ((16 * h + l) mod 256) (16 \<le> l) (256 \<le> 16 * h + l) =
     (to_bcd ((10 * h + l) mod 100), 100 \<le> 10 * h + l)"
proof -
  have "(16 * h + l) mod 256 mod 16 = l mod 16"
    using mod_mod_cancel [of 16 256 "16 * h + l"] by simp
  then have c1: "((16 * h + l) mod 256 mod 16 > 9 \<or> 16 \<le> l) = (10 \<le> l)"
    using low_digit_adjusts [OF assms(2)] by simp
  obtain k d where kd: "l = 10 * k + d" "d < 10" "k \<le> 1" "k = of_bool (10 \<le> l)"
    using that [of 0 l] that [of 1 "l - 10"] assms(2) by (cases "10 \<le> l") simp_all
  note cd = carry_digit [OF assms(1) kd(1-3)]
  have hk: "h + k \<le> 19" using assms kd by linarith
  have v: "10 * h + l = 10 * (h + k) + d" "16 * h + l + 6 * k = 16 * (h + k) + d"
    using kd(1) by simp_all
  have six: "(if 10 \<le> l then 6 else 0) = 6 * k" using kd(4) by simp
  have bcd: "to_bcd ((10 * h + l) mod 100) = 16 * (if 10 \<le> h + k then h + k - 10 else h + k) + d"
    unfolding v(1) drop_carry(1) [OF hk kd(2)] to_bcd_def using kd(2) by simp
  have "((16 * h + l) mod 256 + 6 * k + y) mod 256 = (16 * (h + k) + d + y) mod 256" for y
    unfolding v(2) [symmetric] by (simp only: add.assoc mod_add_left_eq)
  then show ?thesis
    unfolding daa_nat_def c1 byte_adjusts cd six bcd using drop_carry(2) [OF hk kd(2)] by simp
qed

lemma sum16: "a = 16 * p + q \<Longrightarrow> b = 16 * r + t \<Longrightarrow> a + b + c = 16 * (p + r) + (q + t + c)"
  for a :: nat
  by simp

lemma packed_digits:
  assumes "packed a" "packed b" "c \<le> 1"
  obtains h l where "h \<le> 18" "l \<le> 19" "a + b + c = 16 * h + l" "a mod 16 + b mod 16 + c = l"
    "bcd_val a + bcd_val b + c = 10 * h + l"
proof (rule that)
  have d: "a mod 16 \<le> 9" "a div 16 \<le> 9" "b mod 16 \<le> 9" "b div 16 \<le> 9"
    using assms unfolding packed_def by blast+
  show "a div 16 + b div 16 \<le> 18" using add_mono [OF d(2,4)] by (simp only: numeral_plus_numeral add_num_simps)
  show "a mod 16 + b mod 16 + c \<le> 19" using add_mono [OF add_mono [OF d(1,3)] assms(3)]
    by (simp only: numeral_plus_numeral numeral_plus_one add_num_simps)
  show "a + b + c = 16 * (a div 16 + b div 16) + (a mod 16 + b mod 16 + c)"
    by (rule sum16) (simp_all only: mult_div_mod_eq)
  show "bcd_val a + bcd_val b + c = 10 * (a div 16 + b div 16) + (a mod 16 + b mod 16 + c)"
    by (simp only: bcd_val_def distrib_left add_ac)
qed simp

lemma daa_nat_sum:
  assumes "packed a" "packed b" "c \<le> 1"
  shows "daa_nat ((a + b + c) mod 256) (16 \<le> a mod 16 + b mod 16 + c) (256 \<le> a + b + c) =
   (to_bcd ((bcd_val a + bcd_val b + c) mod 100), 100 \<le> bcd_val a + bcd_val b + c)"
  by (rule packed_digits [OF assms]) (simp only: daa_nat_digits)

definition das_int :: "int \<Rightarrow> bool \<Rightarrow> bool \<Rightarrow> int \<times> bool" where
  "das_int al af cf =
     (let t = (if al mod 16 > 9 \<or> af then (al - 6) mod 256 else al)
      in if al > 0x99 \<or> cf then ((t - 0x60) mod 256, True) else (t, t > 0x9f))"

lemma DAS_int:
  assumes "GET_AF s = of_bool af" "GET_CF s = of_bool cf"
  shows "uint (GET_AL (DAS s)) = fst (das_int (uint (GET_AL s)) af cf)"
    "GET_CF (DAS s) = of_bool (snd (das_int (uint (GET_AL s)) af cf))"
  using assms
  by (auto simp: DAS_def das_int_def Let_def and_15 BR.get_put word_less_def uint_mod uint_word_ariths mod_simps)

lemma two_digits:
  fixes h d :: int
  assumes "0 \<le> h" "h \<le> 9" "0 \<le> d" "d < 10"
  shows "(16 * h + d) mod 256 = 16 * h + d" "(10 * h + d) mod 100 = 10 * h + d"
    "(10 * h + d) div 10 = h" "(10 * h + d) mod 10 = d"
proof -
  show "(16 * h + d) mod 256 = 16 * h + d" using assms by (intro mod_pos_pos_trivial) linarith+
  show "(10 * h + d) mod 100 = 10 * h + d" using assms by (intro mod_pos_pos_trivial) linarith+
qed (use assms in simp_all)

lemma das_low_digit:
  fixes l t :: int
  assumes "l \<le> 9" "t mod 16 = l mod 16"
  shows "(t mod 256 mod 16 > 9 \<or> l < 0) = (l < 0)"
proof (cases "l < 0")
  case False
  then have "l mod 16 = l" using assms by (intro mod_pos_pos_trivial) linarith+
  moreover have "t mod 256 mod 16 = t mod 16" by (rule mod_mod_cancel) simp
  ultimately show ?thesis using assms by linarith
qed simp

lemma das_byte:
  fixes t :: int
  assumes "t \<le> 0x99"
  shows "(t mod 256 > 0x99 \<or> t < 0) = (t < 0)"
proof (cases "t < 0")
  case False
  then have "t mod 256 = t" using assms by (intro mod_pos_pos_trivial) linarith+
  then show ?thesis using assms by linarith
qed simp

lemma das_int_digits:
  fixes h l :: int
  assumes h: "-9 \<le> h" "h \<le> 9" and l: "-10 \<le> l" "l \<le> 9"
  shows "das_int ((16 * h + l) mod 256) (l < 0) (16 * h + l < 0) =
    (16 * ((10 * h + l) mod 100 div 10) + (10 * h + l) mod 100 mod 10, 10 * h + l < 0)"
proof -
  obtain k d where kd: "l = d - 10 * k" "0 \<le> d" "d < 10" "(l < 0) = (k = 1)" "k = 0 \<or> k = 1"
    using that [of l 0] that [of "l + 10" 1] l by (cases "l < 0") simp_all
  have neg: "(16 * h + l < 0) = (h - k < 0)" "(10 * h + l < 0) = (h - k < 0)"
    using kd by - (rule iffI; linarith)+
  have c1: "((16 * h + l) mod 256 mod 16 > 9 \<or> l < 0) = (k = 1)"
    using das_low_digit [OF l(2), of "16 * h + l"] kd(4) by (simp only: mod_mult_self4)
  have c2: "((16 * h + l) mod 256 > 0x99 \<or> 16 * h + l < 0) = (h - k < 0)"
    using das_byte [of "16 * h + l"] h l neg by linarith
  have t: "(if k = 1 then ((16 * h + l) mod 256 - 6) mod 256 else (16 * h + l) mod 256) =
      (16 * (h - k) + d) mod 256"
    using kd(5)
  proof (elim disjE)
    assume k: "k = 1"
    then have "16 * h + l - 6 = 16 * (h - k) + d" by (simp add: kd(1))
    then show ?thesis using mod_diff_left_eq [of "16 * h + l" 256 6] k by (simp only: if_True simp_thms)
  qed (simp add: kd(1))
  have v: "10 * h + l = 10 * (h - k) + d" by (simp add: kd(1))
  show ?thesis
  proof (cases "h - k < 0")
    case True
    have H: "0 \<le> h - k + 10" "h - k + 10 \<le> 9" using True h kd(5) by linarith+
    have "16 * (h - k) + d - 96 = 16 * (h - k + 10) + d + (-1) * 256"
       "10 * (h - k) + d = 10 * (h - k + 10) + d + (-1) * 100" by simp_all
    then have "(16 * (h - k) + d - 96) mod 256 = 16 * (h - k + 10) + d"
       "(10 * (h - k) + d) mod 100 = 10 * (h - k + 10) + d"
      by (simp_all only: mod_mult_self1 two_digits [OF H kd(2,3)])
    then show ?thesis unfolding das_int_def Let_def c1 c2 t unfolding neg unfolding v
      by (simp only: True if_True mod_diff_left_eq two_digits [OF H kd(2,3)])
  next
    case False
    have H: "0 \<le> h - k" "h - k \<le> 9" using False h kd(5) by linarith+
    have "\<not> 16 * (h - k) + d > 0x9f" using H kd(3) by (simp add: right_diff_distrib)
    then show ?thesis unfolding das_int_def Let_def c1 c2 t unfolding neg unfolding v
      by (simp only: False if_False two_digits [OF H kd(2,3)])
  qed
qed

lemma arith_flags_GR [simp]: "CCPU_GR (arith_flags n r ov cy ac s) = CCPU_GR s"
  and arith_flags_AF: "GET_AF (arith_flags n r ov cy ac s) = of_bool ac"
  by (simp_all add: arith_flags_def)

text \<open>
  The sequence \<open>ADC AL, b; DAA\<close> of a guest: the eight-bit sum of the accumulator and an operand
  goes to AL and is then adjusted. \<open>SBB AL, b; DAS\<close> likewise.
\<close>

definition adc_daa :: "IU8 \<Rightarrow> ccpu \<Rightarrow> ccpu" where
  "adc_daa b s = (let (r, s) = ADC (ucast (GET_AL s)) (ucast b) 8 s in DAA (SET_AL (ucast r) s))"

definition sbb_das :: "IU8 \<Rightarrow> ccpu \<Rightarrow> ccpu" where
  "sbb_das b s = (let (r, s) = SBB (ucast (GET_AL s)) (ucast b) 8 s in DAS (SET_AL (ucast r) s))"

lemma unat_ucast_8_32: "unat (ucast (x :: IU8) :: IU32) = unat x"
  by (simp add: unsigned_ucast_eq take_bit_nat_eq_self_iff less_trans [OF unsigned_less])

lemma unat_8_less: "unat (x :: IU8) < 2 ^ 8"
  using unsigned_less [of x] by simp

lemma ucast_of_nat_8: "ucast (of_nat (x mod 256) :: IU32) = (of_nat (x mod 256) :: IU8)"
  by (rule bit_word_eqI) (simp add: bit_simps)

lemma unat_of_nat_8: "unat (of_nat (x mod 256) :: IU8) = x mod 256"
  by (simp add: unat_of_nat)

lemma adc_daa_bcd:
  fixes a b :: IU8
  assumes a: "GET_AL s = a" "packed (unat a)" and b: "packed (unat b)" and c: "GET_CF s = of_bool c"
  shows "unat (GET_AL (adc_daa b s)) = to_bcd ((bcd_val (unat a) + bcd_val (unat b) + of_bool c) mod 100)"
    and "GET_CF (adc_daa b s) = of_bool (100 \<le> bcd_val (unat a) + bcd_val (unat b) + of_bool c)"
proof -
  let ?t = "unat a + unat b + of_bool c"
  have adc: "ADC (ucast a) (ucast b) 8 s = adder 8 (unat a) (unat b) (of_bool c) s"
    using ADC_adder [of 8 "ucast a" "ucast b" s c] c
    by (simp add: op_size_def unat_ucast_8_32 unat_8_less [simplified])
  define s1 where "s1 = SET_AL (of_nat (?t mod 256)) (snd (adder 8 (unat a) (unat b) (of_bool c) s))"
  have s1: "adc_daa b s = DAA s1" "unat (GET_AL s1) = ?t mod 256"
      "GET_AF s1 = of_bool (16 \<le> unat a mod 16 + unat b mod 16 + of_bool c)"
      "GET_CF s1 = of_bool (256 \<le> ?t)"
    using adc
    by (simp_all add: adc_daa_def a(1) s1_def adder_def arith_flags_AF arith_flags_CF BR.get_put
      ucast_of_nat_8 unat_of_nat_8)
  show "unat (GET_AL (adc_daa b s)) = to_bcd ((bcd_val (unat a) + bcd_val (unat b) + of_bool c) mod 100)"
    "GET_CF (adc_daa b s) = of_bool (100 \<le> bcd_val (unat a) + bcd_val (unat b) + of_bool c)"
    using DAA_nat [OF s1(3,4)] daa_nat_sum [OF a(2) b, of "of_bool c"] unfolding s1(1,2) by simp_all
qed

lemma packed_diff_digits:
  fixes a b c :: nat
  assumes "packed a" "packed b" "c \<le> 1"
  obtains h l :: int where "-9 \<le> h" "h \<le> 9" "-10 \<le> l" "l \<le> 9" "int a - int b - int c = 16 * h + l"
    "(a mod 16 < b mod 16 + c) = (l < 0)" "(a < b + c) = (16 * h + l < 0)"
    "int (bcd_val a) - int (bcd_val b) - int c = 10 * h + l"
proof -
  obtain ah al bh bl where d: "al \<le> 9" "ah \<le> 9" "bl \<le> 9" "bh \<le> 9"
     "a mod 16 = al" "a div 16 = ah" "b mod 16 = bl" "b div 16 = bh"
    using assms unfolding packed_def by blast
  then have ab: "a = 16 * ah + al" "b = 16 * bh + bl" by (metis mult_div_mod_eq)+
  show ?thesis
    by (rule that [of "int ah - int bh" "int al - int bl - int c"])
      (use d(1-4) assms(3) in \<open>auto simp: d(5-8) bcd_val_def ab\<close>)
qed

lemma uint_sub_8: "int ((256 + x - y - c) mod 256) = (int x - int y - int c) mod 256"
  if "y + c \<le> 256" for x y c :: nat
proof -
  have "int (256 + x - y - c) = (int x - int y - int c) + 256" using that by simp
  then show ?thesis by (simp only: zmod_int of_nat_numeral mod_add_self2)
qed

lemma int_to_bcd: "0 \<le> v \<Longrightarrow> int (to_bcd (nat v)) = 16 * (v div 10) + v mod 10"
  by (simp add: to_bcd_def zdiv_int zmod_int)

lemma sbb_das_bcd:
  fixes a b :: IU8
  assumes a: "GET_AL s = a" "packed (unat a)" and b: "packed (unat b)" and c: "GET_CF s = of_bool c"
  shows "unat (GET_AL (sbb_das b s)) =
           to_bcd (nat ((int (bcd_val (unat a)) - int (bcd_val (unat b)) - of_bool c) mod 100))"
    and "GET_CF (sbb_das b s) = of_bool (bcd_val (unat a) < bcd_val (unat b) + of_bool c)"
proof -
  let ?t = "(256 + unat a - unat b - of_bool c) mod 256"
  have sbb: "SBB (ucast a) (ucast b) 8 s = subber 8 (unat a) (unat b) (of_bool c) s"
    using SBB_subber [of 8 "ucast a" "ucast b" s c] c
    by (simp add: op_size_def unat_ucast_8_32 unat_8_less [simplified])
  define s1 where "s1 = SET_AL (of_nat ?t) (snd (subber 8 (unat a) (unat b) (of_bool c) s))"
  have s1: "sbb_das b s = DAS s1" "unat (GET_AL s1) = ?t"
      "GET_AF s1 = of_bool (unat a mod 16 < unat b mod 16 + of_bool c)"
      "GET_CF s1 = of_bool (unat a < unat b + of_bool c)"
    using sbb
    by (simp_all add: sbb_das_def a(1) s1_def subber_def arith_flags_AF arith_flags_CF BR.get_put
      ucast_of_nat_8 unat_of_nat_8)
  obtain h l :: int where hl: "-9 \<le> h" "h \<le> 9" "-10 \<le> l" "l \<le> 9"
      "int (unat a) - int (unat b) - int (of_bool c) = 16 * h + l"
      "(unat a mod 16 < unat b mod 16 + of_bool c) = (l < 0)" "(unat a < unat b + of_bool c) = (16 * h + l < 0)"
      "int (bcd_val (unat a)) - int (bcd_val (unat b)) - int (of_bool c) = 10 * h + l"
    by (rule packed_diff_digits [OF a(2) b, of "of_bool c"]) simp_all
  have "unat b + of_bool c \<le> 256" using unat_8_less [of b] by (cases c) simp_all
  then have "uint (GET_AL s1) = (16 * h + l) mod 256"
    unfolding uint_nat s1(2) hl(5) [symmetric] by (rule uint_sub_8)
  note das = DAS_int [OF s1(3,4), unfolded this hl(6,7) das_int_digits [OF hl(1-4)]]
  show "unat (GET_AL (sbb_das b s)) =
           to_bcd (nat ((int (bcd_val (unat a)) - int (bcd_val (unat b)) - of_bool c) mod 100))"
    using das(1) hl(8) int_to_bcd [of "(10 * h + l) mod 100"] unfolding s1(1)
    by (simp flip: of_nat_eq_iff [where ?'a = int])
  show "GET_CF (sbb_das b s) = of_bool (bcd_val (unat a) < bcd_val (unat b) + of_bool c)"
    using das(2) unfolding s1(1) hl(8) [symmetric] by (cases c) auto
qed

section \<open>Unpacked decimal\<close>

lemma ucast_ucast_8: "x \<le> 0xff \<Longrightarrow> ucast (ucast x :: IU8) = x" for x :: IU32
  unfolding word_unat_eq_iff unat_ucast_8_32
  by (simp add: word_le_nat_alt unsigned_ucast_eq unsigned_take_bit_eq take_bit_nat_eq_self_iff)

lemma AAM_digits:
  assumes "op1 \<noteq> 0"
  shows "AAM op1 s = Inr s' \<Longrightarrow> ucast (GET_AH s') = ucast (GET_AL s) div op1"
    and "AAM op1 s = Inr s' \<Longrightarrow> ucast (GET_AL s') = ucast (GET_AL s) mod op1"
proof -
  have al: "ucast (GET_AL s) \<le> (0xff :: IU32)"
    using unat_8_less [of "GET_AL s"] by (simp add: word_le_nat_alt unat_ucast_8_32)
  have "ucast (GET_AL s) div op1 \<le> 0xff" "ucast (GET_AL s) mod op1 \<le> 0xff"
    using al by (auto simp: word_le_nat_alt unat_div unat_mod intro: order_trans [OF div_le_dividend] order_trans [OF mod_less_eq_dividend])
  then show "AAM op1 s = Inr s' \<Longrightarrow> ucast (GET_AH s') = ucast (GET_AL s) div op1"
    "AAM op1 s = Inr s' \<Longrightarrow> ucast (GET_AL s') = ucast (GET_AL s) mod op1"
    using assms by (auto simp: AAM_def Let_def BR.get_put BR.get_put_other ucast_ucast_8)
qed

lemma AAD_AAM:
  assumes "AAM op1 s = Inr s'" "op1 \<noteq> 0"
  shows "GET_AL (AAD op1 s') = GET_AL s" "GET_AH (AAD op1 s') = 0"
proof -
  have "ucast (GET_AH s') * op1 + ucast (GET_AL s') = (ucast (GET_AL s) :: IU32)"
    unfolding AAM_digits [OF assms(2,1)] by (rule div_mult_mod_eq)
  moreover have "ucast (ucast (GET_AL s) :: IU32) = GET_AL s" 
    by (rule bit_word_eqI) (simp add: bit_simps)
  ultimately show "GET_AL (AAD op1 s') = GET_AL s" "GET_AH (AAD op1 s') = 0"
    by (simp_all add: AAD_def Let_def BR.get_put BR.get_put_other)
qed
section \<open>Correctness of the decimal instructions\<close>

text \<open>
  C7. Packed decimal addition: \<open>ADC\<close> on two packed bytes followed by \<open>DAA\<close> leaves in AL the packed
  form of the decimal sum modulo one hundred, and in CF the decimal carry.
\<close>

theorem daa_decimal_add:
  assumes "packed (unat (GET_AL s))" "packed (unat b)" "GET_CF s = of_bool c"
  shows "unat (GET_AL (adc_daa b s)) =
           to_bcd ((bcd_val (unat (GET_AL s)) + bcd_val (unat b) + of_bool c) mod 100) \<and>
         GET_CF (adc_daa b s) =
           of_bool (100 \<le> bcd_val (unat (GET_AL s)) + bcd_val (unat b) + of_bool c)"
  using adc_daa_bcd [OF refl assms] by blast

theorem daa_decimal_add_witness:
  "unat (GET_AL (adc_daa 0x27 (SET_AL 0x95 ccpu0))) = 0x22"
  using daa_decimal_add [of "SET_AL 0x95 ccpu0" "0x27" False]
  by (simp add: BR.get_put packed_def bcd_val_def to_bcd_def ccpu0_def)

text \<open>
  Packed decimal subtraction: \<open>SBB\<close> on two packed bytes followed by \<open>DAS\<close> leaves in AL the
  packed form of the decimal difference modulo one hundred, and in CF the decimal borrow.
\<close>

theorem das_decimal_sub:
  assumes "packed (unat (GET_AL s))" "packed (unat b)" "GET_CF s = of_bool c"
  shows "unat (GET_AL (sbb_das b s)) =
           to_bcd (nat ((int (bcd_val (unat (GET_AL s))) - int (bcd_val (unat b)) - of_bool c) mod 100)) \<and>
         GET_CF (sbb_das b s) =
           of_bool (bcd_val (unat (GET_AL s)) < bcd_val (unat b) + of_bool c)"
  using sbb_das_bcd [OF refl assms] by blast

theorem das_decimal_sub_witness:
  "unat (GET_AL (sbb_das 0x27 (SET_AL 0x15 ccpu0))) = 0x88"
  using das_decimal_sub [of "SET_AL 0x15 ccpu0" "0x27" False]
  by (simp add: BR.get_put packed_def bcd_val_def to_bcd_def ccpu0_def)

text \<open>
  Unpacked decimal: \<open>AAM\<close> raises the divide error exactly on a zero base, otherwise \<open>AAD\<close> with
  the same base undoes it, restoring AL and clearing AH.
\<close>

theorem aad_undoes_aam:
  "(AAM op1 s = Inl Int0) = (op1 = 0) \<and>
   (case AAM op1 s of Inl e \<Rightarrow> e = Int0
    | Inr s' \<Rightarrow> GET_AL (AAD op1 s') = GET_AL s \<and> GET_AH (AAD op1 s') = 0)"
proof (cases "op1 = 0")
  case False
  then obtain s' where "AAM op1 s = Inr s'" by (simp add: AAM_def Let_def)
  with False show ?thesis by (simp add: AAD_AAM)
qed (simp add: AAM_def)

end
