(* ===== verification/Ccpu_Shift.thy ===== *)
theory Ccpu_Shift
  imports Ccpu_Arith
begin

text \<open>
  Shifts, rotates, double shifts, bit tests and bit scans of \<open>ccpu386\<close> (\<open>shl.c\<close> to \<open>bsr.c\<close>). A
  loop of a fixed number of rounds is a \<open>primrec\<close> on the rounds left; the scans of \<open>bsf.c\<close> and
  \<open>bsr.c\<close>, whose loops end only because the operand is not zero, are partial functions whose value
  \<open>None\<close> is not returning.
\<close>

section \<open>Shifts\<close>

definition SHL :: "IU32 \<Rightarrow> IU32 \<Rightarrow> nat \<Rightarrow> ccpu \<Rightarrow> IU32 \<times> ccpu" where
  "SHL pop1 op2 op_sz s =
     (let op2 = unat (op2 AND 0x1f)
      in if op2 = 0 then (pop1, s)
      else (let msb = SZ2MSB op_sz;
                result = push_bit (op2 - 1) pop1;
                s = SET_CF (of_bool (result AND msb \<noteq> 0)) s;
                result = push_bit 1 result AND SZ2MASK op_sz;
                s = SET_PF (pf_lookup (ucast (result AND 0xff))) s;
                s = SET_ZF (of_bool (result = 0)) s;
                s = SET_SF (of_bool (result AND msb \<noteq> 0)) s;
                new_of = GET_CF s XOR GET_SF s;
                s = (if op2 = 1 then SET_OF new_of s else do_multiple_shiftrot_of new_of s);
                s = SET_AF 0 s
            in (result, s)))"

definition SHR :: "IU32 \<Rightarrow> IU32 \<Rightarrow> nat \<Rightarrow> ccpu \<Rightarrow> IU32 \<times> ccpu" where
  "SHR pop1 op2 op_sz s =
     (let op2 = unat (op2 AND 0x1f)
      in if op2 = 0 then (pop1, s)
      else (let prelim = drop_bit (op2 - 1) pop1;
                s = SET_CF (of_bool (prelim AND 1 \<noteq> 0)) s;
                new_of = of_bool (prelim AND SZ2MSB op_sz \<noteq> 0);
                result = drop_bit 1 prelim;
                s = SET_PF (pf_lookup (ucast (result AND 0xff))) s;
                s = SET_ZF (of_bool (result = 0)) s;
                s = SET_SF 0 s;
                s = (if op2 = 1 then SET_OF new_of s else do_multiple_shiftrot_of new_of s);
                s = SET_AF 0 s
            in (result, s)))"

primrec sar_loop :: "nat \<Rightarrow> IU32 \<Rightarrow> IU32 \<Rightarrow> IU32" where
  "sar_loop 0 feedback prelim = prelim"
| "sar_loop (Suc i) feedback prelim = sar_loop i feedback (drop_bit 1 prelim OR feedback)"

definition SAR :: "IU32 \<Rightarrow> IU32 \<Rightarrow> nat \<Rightarrow> ccpu \<Rightarrow> IU32 \<times> ccpu" where
  "SAR pop1 op2 op_sz s =
     (let op2 = unat (op2 AND 0x1f)
      in if op2 = 0 then (pop1, s)
      else (let prelim = pop1;
                feedback = prelim AND SZ2MSB op_sz;
                prelim = sar_loop (op2 - 1) feedback prelim;
                s = SET_CF (of_bool (prelim AND 1 \<noteq> 0)) s;
                result = drop_bit 1 prelim OR feedback;
                s = SET_OF 0 s;
                s = SET_PF (pf_lookup (ucast (result AND 0xff))) s;
                s = SET_ZF (of_bool (result = 0)) s;
                s = SET_SF (of_bool (feedback \<noteq> 0)) s;
                s = SET_AF 0 s
            in (result, s)))"

section \<open>Rotates\<close>

primrec rol_loop :: "nat \<Rightarrow> IU32 \<Rightarrow> IU32 \<Rightarrow> ccpu \<Rightarrow> IU32 \<times> ccpu" where
  "rol_loop 0 feedback result s = (result, s)"
| "rol_loop (Suc i) feedback result s =
     (if result AND feedback \<noteq> 0 then rol_loop i feedback (push_bit 1 result OR 1) (SET_CF 1 s)
      else rol_loop i feedback (push_bit 1 result) (SET_CF 0 s))"

definition ROL :: "IU32 \<Rightarrow> IU32 \<Rightarrow> nat \<Rightarrow> ccpu \<Rightarrow> IU32 \<times> ccpu" where
  "ROL pop1 op2 op_sz s =
     (let op2 = unat (op2 AND 0x1f)
      in if op2 = 0 then (pop1, s)
      else (let feedback = SZ2MSB op_sz;
                (result, s) = rol_loop op2 feedback pop1 s;
                new_of = GET_CF s XOR of_bool (result AND feedback \<noteq> 0);
                s = (if op2 = 1 then SET_OF new_of s else do_multiple_shiftrot_of new_of s)
            in (result, s)))"

primrec ror_loop :: "nat \<Rightarrow> IU32 \<Rightarrow> IU32 \<Rightarrow> ccpu \<Rightarrow> IU32 \<times> ccpu" where
  "ror_loop 0 feedback result s = (result, s)"
| "ror_loop (Suc i) feedback result s =
     (if result AND 1 \<noteq> 0 then ror_loop i feedback (drop_bit 1 result OR feedback) (SET_CF 1 s)
      else ror_loop i feedback (drop_bit 1 result) (SET_CF 0 s))"

definition ROR :: "IU32 \<Rightarrow> IU32 \<Rightarrow> nat \<Rightarrow> ccpu \<Rightarrow> IU32 \<times> ccpu" where
  "ROR pop1 op2 op_sz s =
     (let op2 = unat (op2 AND 0x1f)
      in if op2 = 0 then (pop1, s)
      else (let feedback = SZ2MSB op_sz;
                (result, s) = ror_loop op2 feedback pop1 s;
                new_of = of_bool ((result XOR push_bit 1 result) AND feedback \<noteq> 0);
                s = (if op2 = 1 then SET_OF new_of s else do_multiple_shiftrot_of new_of s)
            in (result, s)))"

primrec rcl_loop :: "nat \<Rightarrow> IU32 \<Rightarrow> IU32 \<Rightarrow> ccpu \<Rightarrow> IU32 \<times> ccpu" where
  "rcl_loop 0 feedback result s = (result, s)"
| "rcl_loop (Suc i) feedback result s =
     (if result AND feedback \<noteq> 0
      then rcl_loop i feedback (push_bit 1 result OR GET_CF s) (SET_CF 1 s)
      else rcl_loop i feedback (push_bit 1 result OR GET_CF s) (SET_CF 0 s))"

definition RCL :: "IU32 \<Rightarrow> IU32 \<Rightarrow> nat \<Rightarrow> ccpu \<Rightarrow> IU32 \<times> ccpu" where
  "RCL pop1 op2 op_sz s =
     (let op2 = unat (op2 AND 0x1f)
      in if op2 = 0 then (pop1, s)
      else (let feedback = SZ2MSB op_sz;
                (result, s) = rcl_loop op2 feedback pop1 s;
                new_of = GET_CF s XOR of_bool (result AND feedback \<noteq> 0);
                s = (if op2 = 1 then SET_OF new_of s else do_multiple_shiftrot_of new_of s)
            in (result, s)))"

primrec rcr_loop :: "nat \<Rightarrow> IU32 \<Rightarrow> IU32 \<Rightarrow> ccpu \<Rightarrow> IU32 \<times> ccpu" where
  "rcr_loop 0 feedback result s = (result, s)"
| "rcr_loop (Suc i) feedback result s =
     (let temp_cf = GET_CF s;
          s = SET_CF (of_bool (result AND 1 \<noteq> 0)) s;
          result = drop_bit 1 result;
          result = (if temp_cf \<noteq> 0 then result OR feedback else result)
      in rcr_loop i feedback result s)"

definition RCR :: "IU32 \<Rightarrow> IU32 \<Rightarrow> nat \<Rightarrow> ccpu \<Rightarrow> IU32 \<times> ccpu" where
  "RCR pop1 op2 op_sz s =
     (let op2 = unat (op2 AND 0x1f)
      in if op2 = 0 then (pop1, s)
      else (let feedback = SZ2MSB op_sz;
                (result, s) = rcr_loop op2 feedback pop1 s;
                new_of = of_bool ((result XOR push_bit 1 result) AND feedback \<noteq> 0);
                s = (if op2 = 1 then SET_OF new_of s else do_multiple_shiftrot_of new_of s)
            in (result, s)))"

section \<open>Double shifts\<close>

definition SHLD :: "IU32 \<Rightarrow> IU32 \<Rightarrow> IU32 \<Rightarrow> nat \<Rightarrow> ccpu \<Rightarrow> IU32 \<times> ccpu" where
  "SHLD pop1 op2 op3 op_sz s =
     (let op3 = unat (op3 AND 0x1f)
      in if op3 = 0 then (pop1, s)
      else (let op2 = (if op_sz = 16 then push_bit 16 op2 OR op2 else op2);
                op3 = op3 - 1;
                (result, op2) = (if op3 \<noteq> 0
                   then (push_bit op3 pop1 OR drop_bit (32 - op3) op2, push_bit op3 op2)
                   else (pop1, op2));
                msb = SZ2MSB op_sz;
                s = SET_CF (of_bool (result AND msb \<noteq> 0)) s;
                result = push_bit 1 result OR drop_bit 31 op2;
                result = result AND SZ2MASK op_sz;
                s = SET_PF (pf_lookup (ucast (result AND 0xff))) s;
                s = SET_ZF (of_bool (result = 0)) s;
                s = SET_SF (of_bool (result AND msb \<noteq> 0)) s;
                new_of = GET_CF s XOR GET_SF s;
                s = (if op3 = 0 then SET_OF new_of s
                     else SET_OF (of_bool ((result XOR pop1) AND SZ2MSB op_sz \<noteq> 0)) s);
                s = SET_AF 0 s
            in (result, s)))"

definition SHRD :: "IU32 \<Rightarrow> IU32 \<Rightarrow> IU32 \<Rightarrow> nat \<Rightarrow> ccpu \<Rightarrow> IU32 \<times> ccpu" where
  "SHRD pop1 op2 op3 op_sz s =
     (let op3 = unat (op3 AND 0x1f)
      in if op3 = 0 then (pop1, s)
      else (let pop1 = (if op_sz = 16 then push_bit 16 op2 OR pop1 else pop1);
                op3 = op3 - 1;
                (result, op2) = (if op3 \<noteq> 0
                   then (drop_bit op3 pop1 OR push_bit (32 - op3) op2, drop_bit op3 op2)
                   else (pop1, op2));
                s = SET_CF (of_bool (result AND 1 \<noteq> 0)) s;
                msb = of_bool (result AND SZ2MSB op_sz \<noteq> 0);
                result = drop_bit 1 result OR push_bit 31 op2;
                result = result AND SZ2MASK op_sz;
                s = SET_PF (pf_lookup (ucast (result AND 0xff))) s;
                s = SET_ZF (of_bool (result = 0)) s;
                s = SET_SF (of_bool (result AND SZ2MSB op_sz \<noteq> 0)) s;
                new_of = msb XOR GET_SF s;
                s = (if op3 = 0 then SET_OF new_of s
                     else SET_OF (of_bool ((result XOR pop1) AND SZ2MSB op_sz \<noteq> 0)) s);
                s = SET_AF 0 s
            in (result, s)))"

section \<open>Bit tests and scans\<close>

definition BT :: "IU32 \<Rightarrow> IU32 \<Rightarrow> nat \<Rightarrow> ccpu \<Rightarrow> ccpu" where
  "BT op1 op2 op_sz s =
     (let op2 = op2 mod of_nat op_sz;
          bit_mask = push_bit (unat op2) 1
      in SET_CF (of_bool (op1 AND bit_mask \<noteq> 0)) s)"

definition BTC :: "IU32 \<Rightarrow> IU32 \<Rightarrow> nat \<Rightarrow> ccpu \<Rightarrow> IU32 \<times> ccpu" where
  "BTC pop1 op2 op_sz s =
     (let op2 = op2 mod of_nat op_sz;
          bit_mask = push_bit (unat op2) 1;
          s = SET_CF (of_bool (pop1 AND bit_mask \<noteq> 0)) s
      in (pop1 XOR bit_mask, s))"

definition BTR :: "IU32 \<Rightarrow> IU32 \<Rightarrow> nat \<Rightarrow> ccpu \<Rightarrow> IU32 \<times> ccpu" where
  "BTR pop1 op2 op_sz s =
     (let op2 = op2 mod of_nat op_sz;
          bit_mask = push_bit (unat op2) 1;
          s = SET_CF (of_bool (pop1 AND bit_mask \<noteq> 0)) s
      in (pop1 AND NOT bit_mask, s))"

definition BTS :: "IU32 \<Rightarrow> IU32 \<Rightarrow> nat \<Rightarrow> ccpu \<Rightarrow> IU32 \<times> ccpu" where
  "BTS pop1 op2 op_sz s =
     (let op2 = op2 mod of_nat op_sz;
          bit_mask = push_bit (unat op2) 1;
          s = SET_CF (of_bool (pop1 AND bit_mask \<noteq> 0)) s
      in (pop1 OR bit_mask, s))"

partial_function (option) bsf_loop :: "IU32 \<Rightarrow> IU32 \<Rightarrow> IU32 option" where
  "bsf_loop temp op2 =
     (if op2 AND 1 = 0 then bsf_loop (temp + 1) (drop_bit 1 op2) else Some temp)"

definition BSF :: "IU32 \<Rightarrow> IU32 \<Rightarrow> ccpu \<Rightarrow> (IU32 \<times> ccpu) option" where
  "BSF pop1 op2 s =
     (if op2 = 0 then Some (pop1, SET_ZF 1 s)
      else map_option (\<lambda>temp. (temp, SET_ZF 0 s)) (bsf_loop 0 op2))"

partial_function (option) bsr_loop :: "IU32 \<Rightarrow> IU32 \<Rightarrow> IU32 \<Rightarrow> IU32 option" where
  "bsr_loop msb temp op2 =
     (if op2 AND msb = 0 then bsr_loop msb (temp - 1) (push_bit 1 op2) else Some temp)"

definition BSR :: "IU32 \<Rightarrow> IU32 \<Rightarrow> nat \<Rightarrow> ccpu \<Rightarrow> (IU32 \<times> ccpu) option" where
  "BSR pop1 op2 op_sz s =
     (if op2 = 0 then Some (pop1, SET_ZF 1 s)
      else (let temp = of_nat op_sz - 1; msb = SZ2MSB op_sz
            in map_option (\<lambda>temp. (temp, SET_ZF 0 s)) (bsr_loop msb temp op2)))"

section \<open>Shift counts and values\<close>

lemma count_mod: "unat (c AND 0x1f :: IU32) = unat c mod 32"
  using unat_and_mask [of c 5] by (simp add: mask_eq_exp_minus_1)

lemma and_1_bit: "(x AND 1 \<noteq> 0) = bit x 0" for x :: IU32
  using and_exp_neq_0_iff [of x 0] by simp

lemma sval_signed: "0 < n \<Longrightarrow> x < 2 ^ n \<Longrightarrow> sval n x = signed_take_bit (n - 1) (int x)"
  by (cases n) (simp_all add: sval_def signed_take_bit_eq_take_bit_minus bit_top bit_of_nat_iff_bit
      take_bit_of_nat take_bit_nat_eq_self)

lemma bit_sval: "0 < n \<Longrightarrow> x < 2 ^ n \<Longrightarrow> bit (sval n x) i = bit x (min i (n - 1))"
  by (simp add: sval_signed bit_signed_take_bit_iff bit_of_nat_iff_bit min.commute)

lemma unat_lt_bit: "unat (x :: IU32) < 2 ^ n \<Longrightarrow> bit x i \<Longrightarrow> i < n"
proof (rule ccontr)
  assume a: "unat x < 2 ^ n" "bit x i" "\<not> i < n"
  then have "unat x < 2 ^ i" by (meson leI less_le_trans one_le_numeral power_increasing)
  then show False using a(2) by (simp only: bit_unat bit_nat_iff_odd_div) simp
qed

lemma unat_pow2: "k < 32 \<Longrightarrow> unat (2 ^ k :: IU32) = 2 ^ k"
proof -
  assume "k < 32"
  then have "(2 ^ k :: nat) < 2 ^ 32" by (rule power_strict_increasing) simp
  then show ?thesis using unat_of_nat_mod [of 32 "2 ^ k"] by simp
qed

lemma SHL_value:
  assumes n: "op_size n" and a: "unat a < 2 ^ n" and k: "k = unat c mod 32"
  shows "unat (fst (SHL a c n s)) = (unat a * 2 ^ k) mod 2 ^ n"
    and "0 < k \<Longrightarrow> GET_CF (snd (SHL a c n s)) = of_bool (bit (unat a * 2 ^ k) n)"
proof -
  have n': "0 < n" "n \<le> 32" using op_sizeD [OF n] by auto
  show "unat (fst (SHL a c n s)) = (unat a * 2 ^ k) mod 2 ^ n"
  proof (cases "k = 0")
    case True
    then show ?thesis using a by (simp add: SHL_def count_mod k)
  next
    case False
    then have "1 + (k - 1) = k" by simp
    then have "fst (SHL a c n s) = push_bit k a AND mask n"
      using False n' unfolding SHL_def Let_def count_mod k [symmetric]
      by (simp only: if_False fst_conv SZ2MASK_eq push_bit_push_bit)
    moreover have "unat (2 ^ k :: IU32) = 2 ^ k" unfolding k by (rule unat_pow2) simp
    moreover have "(2 ^ n :: nat) dvd 2 ^ 32" using n' by (intro le_imp_power_dvd)
    ultimately show ?thesis
      by (simp only: unat_and_mask) (simp add: push_bit_eq_mult unat_word_ariths mod_mod_cancel mod_simps)
  qed
  show "0 < k \<Longrightarrow> GET_CF (snd (SHL a c n s)) = of_bool (bit (unat a * 2 ^ k) n)"
  proof -
    assume "0 < k"
    then have "GET_CF (snd (SHL a c n s)) = of_bool (bit (push_bit (k - 1) a) (n - 1))"
      unfolding SHL_def Let_def count_mod k [symmetric] do_multiple_shiftrot_of_def word_msb [OF n]
      by simp
    also have "bit (push_bit (k - 1) a) (n - 1) = bit (push_bit k (unat a)) n"
    proof -
      have "k - 1 \<le> n - 1 \<longleftrightarrow> k \<le> n" "n - 1 - (k - 1) = n - k" using n' \<open>0 < k\<close> by auto
      moreover have "bit (push_bit (k - 1) a) (n - 1) = (k - 1 \<le> n - 1 \<and> bit a (n - 1 - (k - 1)))"
        using n' by (auto simp: bit_push_bit_iff)
      ultimately show ?thesis by (simp only: bit_push_bit_iff_nat) (simp only: bit_unat)
    qed
    finally show ?thesis by (simp add: push_bit_eq_mult)
  qed
qed

lemma sar_loop_Suc: "sar_loop (Suc i) fb p = drop_bit 1 (sar_loop i fb p) OR fb"
proof (induction i arbitrary: p)
  case (Suc i)
  have "sar_loop (Suc (Suc i)) fb p = sar_loop (Suc i) fb (drop_bit 1 p OR fb)"
    by (rule sar_loop.simps(2))
  also have "\<dots> = drop_bit 1 (sar_loop i fb (drop_bit 1 p OR fb)) OR fb" by (rule Suc.IH)
  finally show ?case by (simp only: sar_loop.simps(2))
qed simp

lemma bit_sar_loop:
  assumes "0 < n" "n \<le> 32" "unat a < 2 ^ n"
  shows "bit (sar_loop m (a AND SZ2MSB n) a) i = (i < n \<and> bit a (min (i + m) (n - 1)))"
proof (induction m arbitrary: i)
  case 0
  show ?case using unat_lt_bit [OF assms(3), of i] by (cases "i < n") (auto simp: min_def)
next
  case (Suc m)
  have fb: "bit (a AND SZ2MSB n) i = (i = n - 1 \<and> bit a (n - 1))"
    using assms by (auto simp: SZ2MSB_eq bit_simps)
  show ?case unfolding sar_loop_Suc bit_or_iff bit_drop_bit_eq comp_def Suc.IH fb
    using assms(1) by (auto simp: min_def)
qed

lemma SHR_value:
  assumes k: "k = unat c mod 32"
  shows "unat (fst (SHR a c n s)) = unat a div 2 ^ k"
    and "0 < k \<Longrightarrow> GET_CF (snd (SHR a c n s)) = of_bool (bit (unat a) (k - 1))"
proof -
  show "unat (fst (SHR a c n s)) = unat a div 2 ^ k"
  proof (cases "k = 0")
    case True
    then show ?thesis by (simp add: SHR_def count_mod k)
  next
    case False
    then have "1 + (k - 1) = k" by simp
    then have "fst (SHR a c n s) = drop_bit k a"
      using False unfolding SHR_def Let_def count_mod k [symmetric]
      by (simp only: if_False fst_conv drop_bit_drop_bit)
    moreover have "unat (2 ^ k :: IU32) = 2 ^ k" unfolding k by (rule unat_pow2) simp
    ultimately show ?thesis by (simp add: drop_bit_eq_div unat_div)
  qed
  assume "0 < k"
  then show "GET_CF (snd (SHR a c n s)) = of_bool (bit (unat a) (k - 1))"
    unfolding SHR_def Let_def count_mod k [symmetric] do_multiple_shiftrot_of_def and_1_bit
    by (simp add: bit_drop_bit_eq bit_unat)
qed

lemma SAR_value:
  assumes n: "op_size n" and a: "unat a < 2 ^ n" and k: "k = unat c mod 32"
  shows "sval n (unat (fst (SAR a c n s))) = sval n (unat a) div 2 ^ k"
    and "unat (fst (SAR a c n s)) < 2 ^ n"
    and "0 < k \<Longrightarrow> GET_CF (snd (SAR a c n s)) = of_bool (bit (sval n (unat a)) (k - 1))"
proof -
  have n': "0 < n" "n \<le> 32" using op_sizeD [OF n] by auto
  define r where "r = fst (SAR a c n s)"
  have r: "r = sar_loop k (a AND SZ2MSB n) a"
  proof (cases "k = 0")
    case True
    then show ?thesis by (simp add: SAR_def count_mod k r_def)
  next
    case False
    then have "k = Suc (k - 1)" by simp
    then show ?thesis
      using False sar_loop_Suc [of "k - 1" "a AND SZ2MSB n" a]
      unfolding r_def SAR_def Let_def count_mod k [symmetric]
      by (simp only: if_False fst_conv)
  qed
  have br: "bit r i = (i < n \<and> bit a (min (i + k) (n - 1)))" for i
    unfolding r by (rule bit_sar_loop [OF n' a])
  then have "take_bit n r = r" by (intro bit_word_eqI) (auto simp: bit_take_bit_iff)
  then have "unat r = unat r mod 2 ^ n"
    by (metis take_bit_eq_mask unat_and_mask)
  then show lt: "unat (fst (SAR a c n s)) < 2 ^ n" unfolding r_def
    by (metis mod_less_divisor zero_less_numeral zero_less_power)
  have "drop_bit k (sval n (unat a)) = sval n (unat r)"
  proof (rule bit_eqI)
    fix i
    have m: "min (k + i) (n - 1) = min (min i (n - 1) + k) (n - 1)" "min i (n - 1) < n"
      using n'(1) by (auto simp: min_def)
    show "bit (drop_bit k (sval n (unat a))) i = bit (sval n (unat r)) i"
      unfolding bit_drop_bit_eq comp_def bit_sval [OF n'(1) a] bit_sval [OF n'(1) lt [folded r_def]]
        bit_unat [symmetric] br m(1) using m(2) by simp
  qed
  then show "sval n (unat (fst (SAR a c n s))) = sval n (unat a) div 2 ^ k"
    by (simp add: drop_bit_eq_div r_def)
  assume "0 < k"
  then show "GET_CF (snd (SAR a c n s)) = of_bool (bit (sval n (unat a)) (k - 1))"
    unfolding SAR_def Let_def count_mod k [symmetric] and_1_bit
    using bit_sval [OF n'(1) a] bit_sar_loop [OF n' a] n' by (simp add: bit_unat [symmetric])
qed
section \<open>Rotation\<close>

text \<open>
  A ring of \<open>n\<close> bits turned left or right. The plain rotates turn the \<open>n\<close> bits of the operand,
  the rotates through carry turn \<open>n + 1\<close> bits, the carry flag being the highest.
\<close>

definition turned_left :: "nat \<Rightarrow> nat \<Rightarrow> (nat \<Rightarrow> bool) \<Rightarrow> (nat \<Rightarrow> bool) \<Rightarrow> bool" where
  "turned_left n k x y = (\<forall>i < n. y ((i + k) mod n) = x i)"

definition turned_right :: "nat \<Rightarrow> nat \<Rightarrow> (nat \<Rightarrow> bool) \<Rightarrow> (nat \<Rightarrow> bool) \<Rightarrow> bool" where
  "turned_right n k x y = (\<forall>i < n. y i = x ((i + k) mod n))"

lemma turned_left_Suc:
  assumes "turned_left n 1 x y" "turned_left n k y z"
  shows "turned_left n (Suc k) x z"
  unfolding turned_left_def
proof (intro allI impI)
  fix i assume i: "i < n"
  have "z (((i + 1) mod n + k) mod n) = y ((i + 1) mod n)" using assms(2) i by (simp add: turned_left_def)
  moreover have "y ((i + 1) mod n) = x i" using assms(1) i by (simp add: turned_left_def)
  moreover have "((i + 1) mod n + k) mod n = (i + Suc k) mod n" by (simp add: mod_simps)
  ultimately show "z ((i + Suc k) mod n) = x i" by simp
qed

lemma turned_right_Suc:
  assumes "turned_right n 1 x y" "turned_right n k y z"
  shows "turned_right n (Suc k) x z"
  unfolding turned_right_def
proof (intro allI impI)
  fix i assume i: "i < n"
  then have "z i = y ((i + k) mod n)" using assms(2) by (simp add: turned_right_def)
  also have "\<dots> = x (((i + k) mod n + 1) mod n)" using assms(1) i by (simp add: turned_right_def)
  finally show "z i = x ((i + Suc k) mod n)" by (simp add: mod_simps)
qed

lemma turned_back:
  assumes "turned_left n k x y" "turned_right n k y' z" "\<And>i. i < n \<Longrightarrow> y' i = y i" "i < n"
  shows "z i = x i"
  using assms by (simp add: turned_left_def turned_right_def)

lemma rol_loop_turned:
  assumes "0 < n" "n \<le> 32"
  shows "turned_left n m (bit r) (bit (fst (rol_loop m (SZ2MSB n) r s)))"
proof (induction m arbitrary: r s)
  case 0
  then show ?case by (simp add: turned_left_def)
next
  case (Suc m)
  define r1 where "r1 = push_bit 1 r OR of_bool (bit r (n - 1))"
  have step: "fst (rol_loop (Suc m) (SZ2MSB n) r s) = fst (rol_loop m (SZ2MSB n) r1 (SET_CF (of_bool (bit r (n - 1))) s))"
    using assms by (simp add: r1_def and_SZ2MSB)
  have "turned_left n 1 (bit r) (bit r1)"
    unfolding turned_left_def r1_def
  proof (intro allI impI)
    fix i assume "i < n"
    then consider "Suc i < n" | "i = n - 1" by linarith
    then show "bit (push_bit 1 r OR of_bool (bit r (n - 1))) ((i + 1) mod n) = bit r i"
      using assms by cases (auto simp: bit_simps simp del: push_bit_Suc)
  qed
  then show ?case unfolding step by (rule turned_left_Suc [OF _ Suc.IH])
qed

lemma ror_loop_turned:
  assumes "0 < n" "n \<le> 32"
  shows "(\<And>i. n \<le> i \<Longrightarrow> \<not> bit r i) \<Longrightarrow> turned_right n m (bit r) (bit (fst (ror_loop m (SZ2MSB n) r s)))
     \<and> (\<forall>i \<ge> n. \<not> bit (fst (ror_loop m (SZ2MSB n) r s)) i)"
proof (induction m arbitrary: r s)
  case 0
  then show ?case by (simp add: turned_right_def)
next
  case (Suc m)
  define r1 where "r1 = drop_bit 1 r OR (if bit r 0 then SZ2MSB n else 0)"
  have step: "fst (ror_loop (Suc m) (SZ2MSB n) r s) = fst (ror_loop m (SZ2MSB n) r1 (SET_CF (of_bool (bit r 0)) s))"
    by (simp add: r1_def and_1_bit)
  have high: "\<not> bit r1 i" if "n \<le> i" for i
    using Suc.prems [of "Suc i"] that assms by (auto simp: r1_def SZ2MSB_eq bit_simps)
  have "turned_right n 1 (bit r) (bit r1)"
    unfolding turned_right_def r1_def
  proof (intro allI impI)
    fix i assume "i < n"
    then consider "Suc i < n" | "i = n - 1" by linarith
    then show "bit (drop_bit 1 r OR (if bit r 0 then SZ2MSB n else 0)) i = bit r ((i + 1) mod n)"
      using assms Suc.prems [of n] by cases (auto simp: SZ2MSB_eq bit_simps)
  qed
  from turned_right_Suc [OF this] Suc.IH [OF high] show ?case unfolding step by blast
qed

lemma bit_le_1:
  assumes "x \<le> (1 :: IU32)"
  shows "bit x i = (i = 0 \<and> x \<noteq> 0)"
proof -
  have "unat x \<le> 1" using assms by (simp add: word_le_nat_alt)
  then have "unat x = unat (0 :: IU32) \<or> unat x = unat (1 :: IU32)"
    by (simp only: unsigned_0 unsigned_1) linarith
  then show ?thesis by (simp only: word_unat_eq_iff [symmetric]) (elim disjE; simp add: bit_simps)
qed

text \<open>The operand with the carry above its top bit.\<close>

definition with_carry :: "nat \<Rightarrow> IU32 \<Rightarrow> ccpu \<Rightarrow> nat \<Rightarrow> bool" where
  "with_carry n r s i = (if i < n then bit r i else GET_CF s \<noteq> 0)"

lemma rcl_loop_turned:
  assumes "0 < n" "n \<le> 32"
  shows "GET_CF s \<le> 1 \<Longrightarrow> rcl_loop m (SZ2MSB n) r s = (r', s') \<Longrightarrow>
    turned_left (Suc n) m (with_carry n r s) (with_carry n r' s') \<and> GET_CF s' \<le> 1"
proof (induction m arbitrary: r s)
  case 0
  then show ?case by (simp add: turned_left_def)
next
  case (Suc m)
  define r1 where "r1 = push_bit 1 r OR GET_CF s"
  define s1 where "s1 = SET_CF (of_bool (bit r (n - 1))) s"
  have step: "rcl_loop m (SZ2MSB n) r1 s1 = (r', s')"
    using Suc.prems(2) assms by (simp add: r1_def s1_def and_SZ2MSB split: if_splits)
  have cf: "bit (GET_CF s) i = (i = 0 \<and> GET_CF s \<noteq> 0)" for i
    by (rule bit_le_1 [OF Suc.prems(1)])
  have "turned_left (Suc n) 1 (with_carry n r s) (with_carry n r1 s1)"
    unfolding turned_left_def
  proof (intro allI impI)
    fix i assume "i < Suc n"
    then consider "Suc i < n" | "i = n - 1" | "i = n" by linarith
    then show "with_carry n r1 s1 ((i + 1) mod Suc n) = with_carry n r s i"
      using assms by cases (auto simp: with_carry_def r1_def s1_def bit_simps cf simp del: push_bit_Suc)
  qed
  moreover have "turned_left (Suc n) m (with_carry n r1 s1) (with_carry n r' s') \<and> GET_CF s' \<le> 1"
    by (rule Suc.IH [OF _ step]) (simp add: s1_def)
  ultimately show ?case using turned_left_Suc by blast
qed

lemma rcr_loop_turned:
  assumes "0 < n" "n \<le> 32"
  shows "(\<And>i. n \<le> i \<Longrightarrow> \<not> bit r i) \<Longrightarrow> rcr_loop m (SZ2MSB n) r s = (r', s') \<Longrightarrow>
    turned_right (Suc n) m (with_carry n r s) (with_carry n r' s') \<and> (\<forall>i \<ge> n. \<not> bit r' i)"
proof (induction m arbitrary: r s)
  case 0
  then show ?case by (auto simp: turned_right_def)
next
  case (Suc m)
  define r1 where "r1 = drop_bit 1 r OR (if GET_CF s \<noteq> 0 then SZ2MSB n else 0)"
  define s1 where "s1 = SET_CF (of_bool (bit r 0)) s"
  have step: "rcr_loop m (SZ2MSB n) r1 s1 = (r', s')"
    using Suc.prems(2) by (auto simp: r1_def s1_def and_1_bit Let_def split: if_splits)
  have high: "\<not> bit r1 i" if "n \<le> i" for i
    using Suc.prems(1) [of "Suc i"] that assms by (auto simp: r1_def SZ2MSB_eq bit_simps)
  have "turned_right (Suc n) 1 (with_carry n r s) (with_carry n r1 s1)"
    unfolding turned_right_def
  proof (intro allI impI)
    fix i assume "i < Suc n"
    then consider "Suc i < n" | "i = n - 1" | "i = n" by linarith
    then show "with_carry n r1 s1 i = with_carry n r s ((i + 1) mod Suc n)"
      using assms Suc.prems(1) [of n] by cases (auto simp: with_carry_def r1_def s1_def SZ2MSB_eq bit_simps)
  qed
  from turned_right_Suc [OF this] Suc.IH [OF high step] show ?case by blast
qed

lemma do_multiple_CF [simp]: "GET_CF (do_multiple_shiftrot_of v s) = GET_CF s"
  by (simp add: do_multiple_shiftrot_of_def Let_def)

lemma ROL_turned:
  assumes "op_size n"
  shows "turned_left n (unat c mod 32) (bit a) (bit (fst (ROL a c n s)))"
proof -
  have "fst (ROL a c n s) = fst (rol_loop (unat c mod 32) (SZ2MSB n) a s)"
    by (simp add: ROL_def count_mod Let_def split: prod.split)
  then show ?thesis using rol_loop_turned op_sizeD [OF assms] by simp
qed

lemma ROR_turned:
  assumes "op_size n" "\<And>i. n \<le> i \<Longrightarrow> \<not> bit a i"
  shows "turned_right n (unat c mod 32) (bit a) (bit (fst (ROR a c n s)))"
    and "n \<le> i \<Longrightarrow> \<not> bit (fst (ROR a c n s)) i"
proof -
  have "fst (ROR a c n s) = fst (ror_loop (unat c mod 32) (SZ2MSB n) a s)"
    by (simp add: ROR_def count_mod Let_def split: prod.split)
  then show "turned_right n (unat c mod 32) (bit a) (bit (fst (ROR a c n s)))"
    "n \<le> i \<Longrightarrow> \<not> bit (fst (ROR a c n s)) i"
    using ror_loop_turned [of n a] op_sizeD [OF assms(1)] assms(2) by auto
qed

lemma with_carry_set: "with_carry n r (SET_OF v s) = with_carry n r s"
  "with_carry n r (do_multiple_shiftrot_of v s) = with_carry n r s"
  by (simp_all add: with_carry_def fun_eq_iff)

lemma RCL_turned:
  assumes "op_size n" "GET_CF s \<le> 1" "RCL a c n s = (r, t)"
  shows "turned_left (Suc n) (unat c mod 32) (with_carry n a s) (with_carry n r t) \<and> GET_CF t \<le> 1"
proof (cases "unat c mod 32 = 0")
  case True
  then show ?thesis using assms by (simp add: RCL_def count_mod turned_left_def)
next
  case False
  obtain t1 where t1: "rcl_loop (unat c mod 32) (SZ2MSB n) a s = (r, t1)"
      "with_carry n r t = with_carry n r t1" "GET_CF t = GET_CF t1"
    using False assms(3) by (auto simp: RCL_def count_mod Let_def with_carry_set split: prod.splits if_splits)
  then show ?thesis using rcl_loop_turned [OF _ _ assms(2) t1(1)] op_sizeD [OF assms(1)] by simp
qed

lemma RCR_turned:
  assumes "op_size n" "\<And>i. n \<le> i \<Longrightarrow> \<not> bit a i" "RCR a c n s = (r, t)"
  shows "turned_right (Suc n) (unat c mod 32) (with_carry n a s) (with_carry n r t) \<and> (\<forall>i \<ge> n. \<not> bit r i)"
proof (cases "unat c mod 32 = 0")
  case True
  then show ?thesis using assms by (auto simp: RCR_def count_mod turned_right_def)
next
  case False
  obtain t1 where t1: "rcr_loop (unat c mod 32) (SZ2MSB n) a s = (r, t1)"
      "with_carry n r t = with_carry n r t1"
    using False assms(3) by (auto simp: RCR_def count_mod Let_def with_carry_set split: prod.splits if_splits)
  then show ?thesis using rcr_loop_turned [OF _ _ assms(2) t1(1)] op_sizeD [OF assms(1)] by simp
qed
lemma rol_loop_CF: "0 < n \<Longrightarrow> n \<le> 32 \<Longrightarrow> 0 < m \<Longrightarrow> rol_loop m (SZ2MSB n) r s = (r', s') \<Longrightarrow> GET_CF s' = of_bool (bit r' 0)"
proof (induction m arbitrary: r s)
  case (Suc m)
  then show ?case
    by (cases "m = 0") (auto simp: bit_simps simp del: push_bit_Suc split: if_splits)
qed simp

lemma ror_loop_CF: "0 < n \<Longrightarrow> n \<le> 32 \<Longrightarrow> 0 < m \<Longrightarrow> (\<And>i. n \<le> i \<Longrightarrow> \<not> bit r i) \<Longrightarrow>
    ror_loop m (SZ2MSB n) r s = (r', s') \<Longrightarrow> GET_CF s' = of_bool (bit r' (n - 1))"
proof (induction m arbitrary: r s)
  case (Suc m)
  define r1 where "r1 = drop_bit 1 r OR (if bit r 0 then SZ2MSB n else 0)"
  define s1 where "s1 = SET_CF (of_bool (bit r 0)) s"
  have step: "ror_loop m (SZ2MSB n) r1 s1 = (r', s')"
    using Suc.prems(5) by (simp add: r1_def s1_def and_1_bit split: if_splits)
  have high: "\<not> bit r1 i" if "n \<le> i" for i
    using Suc.prems(4) [of "Suc i"] that Suc.prems(1,2) by (auto simp: r1_def SZ2MSB_eq bit_simps)
  show ?case
  proof (cases "m = 0")
    case True
    then show ?thesis using step Suc.prems(1,2) Suc.prems(4) [of n]
      by (cases "bit r 0") (auto simp: r1_def s1_def SZ2MSB_eq bit_simps)
  next
    case False
    then show ?thesis using Suc.IH [OF Suc.prems(1,2) _ high step] by simp
  qed
qed simp

lemma ROL_ROR_CF:
  assumes "op_size n" "unat c mod 32 \<noteq> 0"
  shows "GET_CF (snd (ROL a c n s)) = of_bool (bit (fst (ROL a c n s)) 0)"
    and "(\<And>i. n \<le> i \<Longrightarrow> \<not> bit a i) \<Longrightarrow> GET_CF (snd (ROR a c n s)) = of_bool (bit (fst (ROR a c n s)) (n - 1))"
  using assms op_sizeD [OF assms(1)] rol_loop_CF [of n "unat c mod 32" a s] ror_loop_CF [of n "unat c mod 32" a s]
  by (auto simp: ROL_def ROR_def count_mod Let_def split: prod.split)

lemma SHLD_bits:
  assumes "n = 16 \<or> n = 32" "unat a < 2 ^ n" "unat b < 2 ^ n" "k = unat c mod 32" "0 < k" "k < n" "SHLD a b c n s = (r, t)"
  shows "bit r i = (i < n \<and> (if k \<le> i then bit a (i - k) else bit b (n - k + i)))"
    and "GET_CF t = of_bool (bit a (n - k))"
proof -
  have k32: "k < 32" using assms by simp
  define b2 where "b2 = (if n = 16 then push_bit 16 b OR b else b)"
  have b2: "bit b2 j = (if j < 32 then bit b (if n = 16 \<and> 16 \<le> j then j - 16 else j) else False)" for j
    using assms(1) unat_lt_bit [OF assms(3), of j] by (auto simp: b2_def bit_simps)
  define q where "q = (if k - 1 \<noteq> 0 then push_bit (k - 1) a OR drop_bit (32 - (k - 1)) b2 else a)"
  define b3 where "b3 = (if k - 1 \<noteq> 0 then push_bit (k - 1) b2 else b2)"
  have r: "r = (push_bit 1 q OR drop_bit 31 b3) AND SZ2MASK n" and cf: "GET_CF t = of_bool (bit q (n - 1))"
  proof -
    have op: "op_size n" using assms(1) by (auto simp: op_size_def)
    have "k \<noteq> 0" using assms(5) by simp
    then show "r = (push_bit 1 q OR drop_bit 31 b3) AND SZ2MASK n" "GET_CF t = of_bool (bit q (n - 1))"
      using assms(7) unfolding SHLD_def Let_def count_mod assms(4) [symmetric] b2_def [symmetric] word_msb [OF op]
      by (auto simp: q_def b3_def simp del: push_bit_Suc split: if_splits)
  qed
  have q: "bit q j = (j < 32 \<and> (if k - 1 \<le> j then bit a (j - (k - 1)) else bit b2 (32 - (k - 1) + j)))" for j
    using k32 unat_lt_bit [OF assms(2)] by (auto simp: q_def bit_simps dest: bit_imp_le_length)
  show "bit r i = (i < n \<and> (if k \<le> i then bit a (i - k) else bit b (n - k + i)))"
  proof (cases "i < n")
    case True
    have "bit b3 (31 + i) = (i = 0 \<and> bit b3 31)"
      by (cases "i = 0") (auto dest: bit_imp_le_length)
    then have "bit r i = ((0 < i \<and> bit q (i - 1)) \<or> (i = 0 \<and> bit b3 31))"
      using True assms(1) unfolding r
      by (auto simp: SZ2MASK_eq bit_simps simp del: push_bit_Suc dest: bit_imp_le_length)
    also have "bit b3 31 = bit b2 (32 - k)" using assms(5) k32 by (cases "k = 1") (auto simp: b3_def bit_simps)
    finally have ri: "bit r i = ((0 < i \<and> bit q (i - 1)) \<or> (i = 0 \<and> bit b2 (32 - k)))" .
    have b2': "bit b2 (32 - k + i) = bit b (n - k + i)" if "i < k"
      using that assms(1,5,6) by (auto simp: b2)
    show ?thesis
    proof (cases "i = 0")
      case True
      then show ?thesis using ri b2' assms(5,6) by simp
    next
      case False
      have "i - 1 < 32" "k - 1 \<le> i - 1 \<longleftrightarrow> k \<le> i" "i - 1 - (k - 1) = i - k"
        "32 - (k - 1) + (i - 1) = 32 - k + i"
        using True False assms(1,5) k32 by auto
      then show ?thesis using ri False True b2' by (simp add: q)
    qed
  next
    case False
    then show ?thesis using assms(1) by (auto simp: r SZ2MASK_eq bit_simps)
  qed
  show "GET_CF t = of_bool (bit a (n - k))" unfolding cf q using assms(5,6) k32 assms(1) by auto
qed

lemma SHRD_bits:
  assumes "n = 16 \<or> n = 32" "unat a < 2 ^ n" "unat b < 2 ^ n" "k = unat c mod 32" "0 < k" "k < n" "SHRD a b c n s = (r, t)"
  shows "bit r i = (i < n \<and> (if i + k < n then bit a (i + k) else bit b (i + k - n)))"
    and "GET_CF t = of_bool (bit a (k - 1))"
proof -
  have k32: "k < 32" using assms by simp
  define a2 where "a2 = (if n = 16 then push_bit 16 b OR a else a)"
  have a2: "bit a2 j = (if j < n then bit a j else n = 16 \<and> bit b (j - 16))" for j
    using assms(1) unat_lt_bit [OF assms(2), of j] unat_lt_bit [OF assms(3), of "j - 16"] by (auto simp: a2_def bit_simps)
  define q where "q = (if k - 1 \<noteq> 0 then drop_bit (k - 1) a2 OR push_bit (32 - (k - 1)) b else a2)"
  define b3 where "b3 = (if k - 1 \<noteq> 0 then drop_bit (k - 1) b else b)"
  have r: "r = (drop_bit 1 q OR push_bit 31 b3) AND SZ2MASK n" and cf: "GET_CF t = of_bool (bit q 0)"
  proof -
    have "k \<noteq> 0" using assms(5) by simp
    then show "r = (drop_bit 1 q OR push_bit 31 b3) AND SZ2MASK n" "GET_CF t = of_bool (bit q 0)"
      using assms(7) unfolding SHRD_def Let_def count_mod assms(4) [symmetric] a2_def [symmetric] and_1_bit
      by (auto simp: q_def b3_def simp del: push_bit_Suc split: if_splits)
  qed
  have q: "bit q j = (j < 32 \<and> (if j + (k - 1) < 32 then bit a2 (j + (k - 1)) else bit b (j + (k - 1) - 32)))" for j
    using k32 by (auto simp: q_def bit_simps add.commute dest: bit_imp_le_length)
  show "bit r i = (i < n \<and> (if i + k < n then bit a (i + k) else bit b (i + k - n)))"
  proof (cases "i < n")
    case True
    have "bit r i = (bit q (Suc i) \<or> (i = 31 \<and> bit b3 0))"
      using True assms(1) unfolding r by (auto simp: SZ2MASK_eq bit_simps)
    also have "bit b3 0 = bit b (k - 1)" by (auto simp: b3_def bit_simps)
    finally show ?thesis using True assms(1,5,6) by (cases "i = 31") (auto simp: q a2)
  next
    case False
    then show ?thesis using assms(1) by (auto simp: r SZ2MASK_eq bit_simps)
  qed
  show "GET_CF t = of_bool (bit a (k - 1))" unfolding cf q a2 using assms(5,6) k32 assms(1) by auto
qed

lemma bsf_loop_least: "bit op2 j \<Longrightarrow> (\<forall>i < j. \<not> bit op2 i) \<Longrightarrow> bsf_loop temp op2 = Some (temp + of_nat j)"
proof (induction j arbitrary: temp op2)
  case 0
  then show ?case by (subst bsf_loop.simps) (simp add: and_1_bit [symmetric])
next
  case (Suc j)
  have "\<not> bit op2 0" using Suc.prems(2) by simp
  moreover have "bsf_loop (temp + 1) (drop_bit 1 op2) = Some (temp + 1 + of_nat j)"
    by (rule Suc.IH) (use Suc.prems in \<open>auto simp: bit_drop_bit_eq\<close>)
  ultimately show ?case by (subst bsf_loop.simps) (simp add: and_1_bit add.assoc)
qed

lemma bsr_loop_greatest:
  "n \<le> 32 \<Longrightarrow> j + d + 1 = n \<Longrightarrow> bit op2 j \<Longrightarrow> (\<forall>i. j < i \<and> i < n \<longrightarrow> \<not> bit op2 i) \<Longrightarrow> 
   bsr_loop (SZ2MSB n) temp op2 = Some (temp - of_nat d)"
proof (induction d arbitrary: temp op2 j)
  case 0
  then have "op2 AND SZ2MSB n \<noteq> 0" using and_SZ2MSB [of n op2] by auto
  then show ?case by (subst bsr_loop.simps) simp
next
  case (Suc d)
  have "\<not> bit op2 (n - 1)" using Suc.prems by auto
  then have z: "op2 AND SZ2MSB n = 0" using and_SZ2MSB [of n op2] Suc.prems by simp
  have "bsr_loop (SZ2MSB n) (temp - 1) (push_bit 1 op2) = Some (temp - 1 - of_nat d)"
  proof (rule Suc.IH [of "Suc j"])
    show "\<forall>i. Suc j < i \<and> i < n \<longrightarrow> \<not> bit (push_bit 1 op2) i"
    proof (intro allI impI)
      fix i assume "Suc j < i \<and> i < n"
      then have "j < i - 1 \<and> i - 1 < n" by linarith
      then show "\<not> bit (push_bit 1 op2) i"
        using Suc.prems(4) [rule_format, of "i - 1"] by (auto simp: bit_push_bit_iff simp del: push_bit_Suc)
    qed
  qed (use Suc.prems in \<open>auto simp: bit_push_bit_iff simp del: push_bit_Suc\<close>)
  with z show ?case by (subst bsr_loop.simps) (simp add: algebra_simps)
qed

lemma least_bit: "x \<noteq> 0 \<Longrightarrow> \<exists>j < 32. bit x j \<and> (\<forall>i < j. \<not> bit x i)" for x :: IU32
proof -
  assume "x \<noteq> 0"
  then obtain k where "bit x k" by (auto simp: bit_eq_iff)
  then have "bit x (LEAST j. bit x j)" by (rule LeastI)
  moreover have "(LEAST j. bit x j) < 32" using calculation by (auto dest: bit_imp_le_length)
  ultimately show ?thesis using not_less_Least [of _ "bit x"] by blast
qed

lemma greatest_bit: "x \<noteq> 0 \<Longrightarrow> \<exists>j < 32. bit x j \<and> (\<forall>i. j < i \<longrightarrow> \<not> bit x i)" for x :: IU32
proof -
  assume "x \<noteq> 0"
  then obtain k where k: "bit x k" by (auto simp: bit_eq_iff)
  define S where "S = {i. bit x i}"
  have S: "finite S" "k \<in> S" using k by (auto simp: S_def intro: finite_subset [of _ "{..<32}"] dest: bit_imp_le_length)
  then have "Max S \<in> S" by (intro Max_in) auto
  then have "bit x (Max S)" "Max S < 32" by (auto simp: S_def dest: bit_imp_le_length)
  moreover have "\<not> bit x i" if "Max S < i" for i using Max_ge [OF S(1), of i] that S_def leD by blast
  ultimately show ?thesis by blast
qed
section \<open>Correctness of shifts, rotates and scans\<close>

text \<open>
  C27. The shifts are multiplication and division by powers of two: with \<open>k\<close> the count modulo 32,
  \<open>SHL\<close> yields the product modulo \<open>2^n\<close>, \<open>SHR\<close> the unsigned and \<open>SAR\<close> the signed quotient rounded
  down, and for a count that is not zero CF is the last bit shifted out.
\<close>

theorem shifts_correct:
  assumes "op_size n" "unat a < 2 ^ n" "k = unat c mod 32"
  shows "unat (fst (SHL a c n s)) = (unat a * 2 ^ k) mod 2 ^ n \<and>
         unat (fst (SHR a c n s)) = unat a div 2 ^ k \<and>
         sval n (unat (fst (SAR a c n s))) = sval n (unat a) div 2 ^ k \<and>
         (0 < k \<longrightarrow> GET_CF (snd (SHL a c n s)) = of_bool (bit (unat a * 2 ^ k) n) \<and>
                   GET_CF (snd (SHR a c n s)) = of_bool (bit (unat a) (k - 1)) \<and>
                   GET_CF (snd (SAR a c n s)) = of_bool (bit (sval n (unat a)) (k - 1)))"
  using SHL_value [OF assms] SHR_value [OF assms(3)] SAR_value [OF assms] by auto

theorem shifts_correct_witness:
  "unat (fst (SHL 0x81 3 8 ccpu0)) = 8 \<and> sval 8 (unat (fst (SAR 0x81 3 8 ccpu0))) = - 16"
  using shifts_correct [of 8 "0x81" 3 3 ccpu0] by (simp add: op_size_def sval_def)

text \<open>
  C28. \<open>ROL\<close> and \<open>ROR\<close> turn the ring of the operand's \<open>n\<close> bits by the count, leave in CF the bit that
  crossed the end, and \<open>ROR\<close> undoes \<open>ROL\<close>.
\<close>

theorem rotates_correct:
  assumes "op_size n" "unat a < 2 ^ n"
  shows "turned_left n (unat c mod 32) (bit a) (bit (fst (ROL a c n s))) \<and>
         turned_right n (unat c mod 32) (bit a) (bit (fst (ROR a c n s))) \<and>
         fst (ROR (fst (ROL a c n s) AND mask n) c n t) = a \<and>
         (unat c mod 32 \<noteq> 0 \<longrightarrow>
            GET_CF (snd (ROL a c n s)) = of_bool (bit (fst (ROL a c n s)) 0) \<and>
            GET_CF (snd (ROR a c n s)) = of_bool (bit (fst (ROR a c n s)) (n - 1)))"
proof -
  have high: "\<not> bit a i" if "n \<le> i" for i using unat_lt_bit [OF assms(2), of i] that by auto
  have mhigh: "\<not> bit (x AND mask n) i" if "n \<le> i" for i and x :: IU32
    using that by (simp add: bit_simps)
  note L = ROL_turned [OF assms(1), of c a s]
  have masked: "bit (x AND mask n) i = bit x i" if "i < n" for i and x :: IU32
    using that op_sizeD [OF assms(1)] by (simp add: bit_simps)
  have R: "turned_right n (unat c mod 32) (bit (fst (ROL a c n s) AND mask n))
       (bit (fst (ROR (fst (ROL a c n s) AND mask n) c n t)))"
    "n \<le> i \<Longrightarrow> \<not> bit (fst (ROR (fst (ROL a c n s) AND mask n) c n t)) i" for i
    by (rule ROR_turned [OF assms(1) mhigh]; assumption)+
  have "fst (ROR (fst (ROL a c n s) AND mask n) c n t) = a"
  proof (rule bit_word_eqI)
    fix i assume "i < LENGTH(32)"
    show "bit (fst (ROR (fst (ROL a c n s) AND mask n) c n t)) i = bit a i"
      using turned_back [OF L R(1) masked, of i] R(2) [of i] high [of i] by (cases "i < n") auto
  qed
  then show ?thesis
    using L ROR_turned(1) [OF assms(1) high] ROL_ROR_CF [OF assms(1)] high by blast
qed

theorem rotates_correct_witness:
  "fst (ROR (fst (ROL 0x81 3 8 ccpu0) AND mask 8) 3 8 ccpu0) = 0x81"
  using rotates_correct [of 8 "0x81" 3 ccpu0 ccpu0] by (simp add: op_size_def)

text \<open>
  \<open>RCL\<close> turns the ring of \<open>n + 1\<close> bits formed by the operand and the carry flag, and \<open>RCR\<close> with
  the same count turns it back: operand and carry are restored.
\<close>

theorem rcl_rcr_inverse:
  assumes "op_size n" "unat a < 2 ^ n" "GET_CF s \<le> 1"
    and "RCL a c n s = (r, t)" "RCR (r AND mask n) c n t = (a', u)"
  shows "turned_left (Suc n) (unat c mod 32) (with_carry n a s) (with_carry n r t) \<and>
         a' = a \<and> (GET_CF u \<noteq> 0) = (GET_CF s \<noteq> 0)"
proof -
  have high: "\<not> bit a i" if "n \<le> i" for i using unat_lt_bit [OF assms(2), of i] that by auto
  have mhigh: "\<not> bit (r AND mask n) i" if "n \<le> i" for i using that by (simp add: bit_simps)
  have L: "turned_left (Suc n) (unat c mod 32) (with_carry n a s) (with_carry n r t)"
    using RCL_turned [OF assms(1,3,4)] by simp
  have R: "turned_right (Suc n) (unat c mod 32) (with_carry n (r AND mask n) t) (with_carry n a' u)"
      "\<forall>i \<ge> n. \<not> bit a' i"
    using RCR_turned [OF assms(1) mhigh assms(5)] by blast+
  have same: "with_carry n (r AND mask n) t i = with_carry n r t i" for i
    using op_sizeD [OF assms(1)] by (simp add: with_carry_def bit_simps)
  have restored: "with_carry n a' u i = with_carry n a s i" if "i < Suc n" for i
    by (rule turned_back [OF L R(1) same that])
  have "a' = a"
  proof (rule bit_word_eqI)
    fix i assume "i < LENGTH(32)"
    show "bit a' i = bit a i"
      using restored [of i] R high [of i] by (cases "i < n") (auto simp: with_carry_def)
  qed
  with restored [of n] L show ?thesis by (simp add: with_carry_def)
qed

theorem rcl_rcr_inverse_witness:
  "fst (RCR (fst (RCL 0x81 9 8 (SET_CF 1 ccpu0)) AND mask 8) 9 8 (snd (RCL 0x81 9 8 (SET_CF 1 ccpu0)))) = 0x81"
  using rcl_rcr_inverse [of 8 "0x81" "SET_CF 1 ccpu0" 9, OF _ _ _ surjective_pairing surjective_pairing]
  by (simp add: op_size_def)

text \<open>
  The double shifts, for counts below the operand size, move the bits of the second operand
  into the vacated positions of the first, and CF is the last bit shifted out.
\<close>

theorem double_shifts_correct:
  assumes "n = 16 \<or> n = 32" "unat a < 2 ^ n" "unat b < 2 ^ n" "k = unat c mod 32" "0 < k" "k < n"
  shows "bit (fst (SHLD a b c n s)) i =
           (i < n \<and> (if k \<le> i then bit a (i - k) else bit b (n - k + i))) \<and>
         GET_CF (snd (SHLD a b c n s)) = of_bool (bit a (n - k)) \<and>
         bit (fst (SHRD a b c n s)) i =
           (i < n \<and> (if i + k < n then bit a (i + k) else bit b (i + k - n))) \<and>
         GET_CF (snd (SHRD a b c n s)) = of_bool (bit a (k - 1))"
proof -
  obtain r1 t1 where e1: "SHLD a b c n s = (r1, t1)" by (cases "SHLD a b c n s")
  obtain r2 t2 where e2: "SHRD a b c n s = (r2, t2)" by (cases "SHRD a b c n s")
  show ?thesis unfolding e1 e2 fst_conv snd_conv
    by (intro conjI SHLD_bits [OF assms e1] SHRD_bits [OF assms e2])
qed

theorem double_shifts_correct_witness:
  "bit (fst (SHLD 0x1234 0xabcd 4 16 ccpu0)) 0 =
     (0 < (16 :: nat) \<and> (if (4 :: nat) \<le> 0 then bit (0x1234 :: IU32) (0 - 4) else bit (0xabcd :: IU32) (16 - 4 + 0)))"
  by (rule double_shifts_correct [THEN conjunct1]) simp_all

text \<open>
  The bit scans always return. On zero they set ZF and leave the destination alone; otherwise
  \<open>BSF\<close> yields the lowest and \<open>BSR\<close> the highest set bit of the operand.
\<close>

theorem bit_scans_correct:
  assumes "op_size n" "unat b < 2 ^ n"
  shows "(b = 0 \<longrightarrow> BSF a b s = Some (a, SET_ZF 1 s) \<and> BSR a b n s = Some (a, SET_ZF 1 s)) \<and>
         (b \<noteq> 0 \<longrightarrow>
           (\<exists>j k. j < n \<and> k < n \<and> BSF a b s = Some (of_nat j, SET_ZF 0 s) \<and> bit b j \<and> (\<forall>i < j. \<not> bit b i) \<and>
                  BSR a b n s = Some (of_nat k, SET_ZF 0 s) \<and> bit b k \<and> (\<forall>i. k < i \<longrightarrow> \<not> bit b i)))"
proof (cases "b = 0")
  case False
  from least_bit [OF False] obtain j where j: "bit b j" "\<forall>i < j. \<not> bit b i" by blast
  from greatest_bit [OF False] obtain k where k: "bit b k" "\<forall>i. k < i \<longrightarrow> \<not> bit b i" by blast
  have jn: "j < n" "k < n" using unat_lt_bit [OF assms(2)] j(1) k(1) by blast+
  have n: "0 < n" "n \<le> 32" using op_sizeD [OF assms(1)] by auto
  have "of_nat n - 1 - of_nat (n - 1 - k) = (of_nat k :: IU32)"
    using jn by (simp add: of_nat_diff)
  then have "bsr_loop (SZ2MSB n) (of_nat n - 1) b = Some (of_nat k)"
    using bsr_loop_greatest [OF n(2), of k "n - 1 - k" b "of_nat n - 1"] jn k by simp
  moreover have "bsf_loop 0 b = Some (of_nat j)" using bsf_loop_least [OF j, of 0] by simp
  ultimately show ?thesis using False j k jn by (auto simp: BSF_def BSR_def)
qed (simp add: BSF_def BSR_def)

theorem bit_scans_correct_witness:
  "\<exists>j k. BSF 0 0x90 ccpu0 = Some (of_nat j, SET_ZF 0 ccpu0) \<and> BSR 0 0x90 8 ccpu0 = Some (of_nat k, SET_ZF 0 ccpu0)"
  using bit_scans_correct [of 8 "0x90" 0 ccpu0] by (auto simp: op_size_def)

end
