(* ===== verification/Ccpu_Muldiv.thy ===== *)
theory Ccpu_Muldiv
  imports Ccpu_Shift "HOL-Library.Signed_Division"
begin

text \<open>
  Multiplication and division: the 64-bit helpers of \<open>c_neg64.c\<close>, \<open>c_mul64.c\<close> and \<open>c_div64.c\<close>, and
  the instructions of \<open>mul.c\<close>, \<open>imul.c\<close>, \<open>div.c\<close> and \<open>idiv.c\<close>. A 64-bit value is a pair of its high
  and low double words. Signed host arithmetic (\<open>IS32\<close>) wraps for \<open>-\<close> and \<open>*\<close>; a host division
  whose quotient does not fit traps, which is the exception \<open>HostOverflow\<close>.
\<close>

section \<open>64-bit helpers\<close>

definition neg64 :: "IU32 \<Rightarrow> IU32 \<Rightarrow> IU32 \<times> IU32" where
  "neg64 hr lr =
     (let hr = NOT hr; lr = NOT lr
      in if lr = 0xffffffff then (hr + 1, 0) else (hr, lr + 1))"

definition mulu64 :: "IU32 \<Rightarrow> IU32 \<Rightarrow> IU32 \<times> IU32" where
  "mulu64 mcand mpy =
     (let la = mcand AND 0xffff;
          ha = drop_bit 16 mcand AND 0xffff;
          lb = mpy AND 0xffff;
          hb = drop_bit 16 mpy AND 0xffff;
          res1 = la * lb;
          res2 = ha * lb;
          res3 = la * hb;
          res4 = ha * hb;
          hr = drop_bit 16 res2;
          lr = res1 + push_bit 16 res2;
          hr = (if (res1 AND 0x80000000 \<noteq> 0 \<and> res2 AND 0x8000 \<noteq> 0) \<or>
                   (lr AND 0x80000000 = 0 \<and> (res1 AND 0x80000000) OR (res2 AND 0x8000) \<noteq> 0)
                then hr + 1 else hr);
          hr = hr + drop_bit 16 res3;
          temp = lr + push_bit 16 res3;
          hr = (if (lr AND 0x80000000 \<noteq> 0 \<and> res3 AND 0x8000 \<noteq> 0) \<or>
                   (temp AND 0x80000000 = 0 \<and> (lr AND 0x80000000) OR (res3 AND 0x8000) \<noteq> 0)
                then hr + 1 else hr);
          lr = temp;
          hr = hr + res4
      in (hr, lr))"

definition mul64 :: "IU32 \<Rightarrow> IU32 \<Rightarrow> IU32 \<times> IU32" where
  "mul64 mcand mpy =
     (if mcand AND 0x80000000 \<noteq> 0
      then (if mpy AND 0x80000000 \<noteq> 0
            then mulu64 (- mcand) (- mpy)
            else (let (hr, lr) = mulu64 (- mcand) mpy in neg64 hr lr))
      else (if mpy AND 0x80000000 \<noteq> 0
            then (let (hr, lr) = mulu64 mcand (- mpy) in neg64 hr lr)
            else mulu64 mcand mpy))"

text \<open>The rounds of \<open>divu64\<close>; the state is \<open>hd\<close> (here \<open>hdd\<close>), \<open>ld\<close> and the partial dividend.\<close>

primrec divu64_loop :: "nat \<Rightarrow> IU32 \<Rightarrow> IU32 \<Rightarrow> IU32 \<Rightarrow> IU32 \<Rightarrow> IU32 \<times> IU32 \<times> IU32" where
  "divu64_loop 0 divisor hdd ld par_div = (hdd, ld, par_div)"
| "divu64_loop (Suc count) divisor hdd ld par_div =
     (let carry1 = (if ld AND 0x80000000 \<noteq> 0 then 1 else 0);
          carry2 = (if hdd AND 0x80000000 \<noteq> 0 then 1 else 0);
          carry3 = (if par_div AND 0x80000000 \<noteq> 0 then 1 else 0) :: IU32;
          ld = push_bit 1 ld;
          hdd = push_bit 1 hdd OR carry1;
          par_div = push_bit 1 par_div OR carry2
      in if carry3 \<noteq> 0 \<or> divisor \<le> par_div
         then divu64_loop count divisor hdd (ld OR 1) (par_div - divisor)
         else divu64_loop count divisor hdd ld par_div)"

definition divu64 :: "IU32 \<Rightarrow> IU32 \<Rightarrow> IU32 \<Rightarrow> IU32 \<times> IU32 \<times> IU32" where
  "divu64 hr lr divisor = divu64_loop 64 divisor hr lr 0"

definition div64 :: "IU32 \<Rightarrow> IU32 \<Rightarrow> IU32 \<Rightarrow> IU32 \<times> IU32 \<times> IU32" where
  "div64 hr lr divisor =
     (if hr AND 0x80000000 \<noteq> 0
      then (if divisor AND 0x80000000 \<noteq> 0
            then (let (hr, lr) = neg64 hr lr; (hr, lr, rem) = divu64 hr lr (- divisor)
                  in (hr, lr, - rem))
            else (let (hr, lr) = neg64 hr lr; (hr, lr, rem) = divu64 hr lr divisor;
                      (hr, lr) = neg64 hr lr
                  in (hr, lr, - rem)))
      else (if divisor AND 0x80000000 \<noteq> 0
            then (let (hr, lr, rem) = divu64 hr lr (- divisor); (hr, lr) = neg64 hr lr
                  in (hr, lr, rem))
            else divu64 hr lr divisor))"

section \<open>Unsigned and signed multiply\<close>

definition MUL8 :: "IU32 \<Rightarrow> IU32 \<Rightarrow> ccpu \<Rightarrow> IU32 \<times> ccpu" where
  "MUL8 pop1 op2 s =
     (let result = pop1 * op2;
          top = drop_bit 8 result AND 0xff;
          s = SET_AH (ucast top) s;
          s = (if top \<noteq> 0 then SET_OF 1 (SET_CF 1 s) else SET_OF 0 (SET_CF 0 s))
      in (result, s))"

definition MUL16 :: "IU32 \<Rightarrow> IU32 \<Rightarrow> ccpu \<Rightarrow> IU32 \<times> ccpu" where
  "MUL16 pop1 op2 s =
     (let result = pop1 * op2;
          top = drop_bit 16 result AND 0xffff;
          s = SET_DX (ucast top) s;
          s = (if top \<noteq> 0 then SET_OF 1 (SET_CF 1 s) else SET_OF 0 (SET_CF 0 s))
      in (result, s))"

definition MUL32 :: "IU32 \<Rightarrow> IU32 \<Rightarrow> ccpu \<Rightarrow> IU32 \<times> ccpu" where
  "MUL32 pop1 op2 s =
     (let (top, result) = mulu64 pop1 op2;
          s = SET_EDX top s;
          s = (if top \<noteq> 0 then SET_OF 1 (SET_CF 1 s) else SET_OF 0 (SET_CF 0 s))
      in (result, s))"

definition IMUL8 :: "IU32 \<Rightarrow> IU32 \<Rightarrow> ccpu \<Rightarrow> IU32 \<times> ccpu" where
  "IMUL8 pop1 op2 s =
     (let pop1 = (if pop1 AND 0x80 \<noteq> 0 then pop1 OR NOT 0xff else pop1);
          op2 = (if op2 AND 0x80 \<noteq> 0 then op2 OR NOT 0xff else op2);
          result = pop1 * op2;
          s = SET_AH (ucast (drop_bit 8 result AND 0xff)) s;
          s = (if result AND 0xff80 = 0 \<or> result AND 0xff80 = 0xff80
               then SET_OF 0 (SET_CF 0 s) else SET_OF 1 (SET_CF 1 s))
      in (result, s))"

definition IMUL16 :: "IU32 \<Rightarrow> IU32 \<Rightarrow> ccpu \<Rightarrow> IU32 \<times> ccpu" where
  "IMUL16 pop1 op2 s =
     (let pop1 = (if pop1 AND 0x8000 \<noteq> 0 then pop1 OR NOT 0xffff else pop1);
          op2 = (if op2 AND 0x8000 \<noteq> 0 then op2 OR NOT 0xffff else op2);
          result = pop1 * op2;
          s = SET_DX (ucast (drop_bit 16 result AND 0xffff)) s;
          s = (if result AND 0xffff8000 = 0 \<or> result AND 0xffff8000 = 0xffff8000
               then SET_OF 0 (SET_CF 0 s) else SET_OF 1 (SET_CF 1 s))
      in (result, s))"

definition IMUL16T :: "IU32 \<Rightarrow> IU32 \<Rightarrow> ccpu \<Rightarrow> IU32 \<times> ccpu" where
  "IMUL16T op2 op3 s =
     (let op2 = (if op2 AND 0x8000 \<noteq> 0 then op2 OR NOT 0xffff else op2);
          op3 = (if op3 AND 0x8000 \<noteq> 0 then op3 OR NOT 0xffff else op3);
          result = op2 * op3;
          s = (if result AND 0xffff8000 = 0 \<or> result AND 0xffff8000 = 0xffff8000
               then SET_OF 0 (SET_CF 0 s) else SET_OF 1 (SET_CF 1 s))
      in (result, s))"

definition IMUL32 :: "IU32 \<Rightarrow> IU32 \<Rightarrow> ccpu \<Rightarrow> IU32 \<times> ccpu" where
  "IMUL32 pop1 op2 s =
     (let (top, result) = mul64 pop1 op2;
          s = SET_EDX top s;
          is_signed = result AND 0x80000000 \<noteq> 0;
          s = (if top = 0 \<and> \<not> is_signed \<or> top = 0xffffffff \<and> is_signed
               then SET_OF 0 (SET_CF 0 s) else SET_OF 1 (SET_CF 1 s))
      in (result, s))"

definition IMUL32T :: "IU32 \<Rightarrow> IU32 \<Rightarrow> ccpu \<Rightarrow> IU32 \<times> ccpu" where
  "IMUL32T op2 op3 s =
     (let (top, result) = mul64 op2 op3;
          is_signed = result AND 0x80000000 \<noteq> 0;
          s = (if top = 0 \<and> \<not> is_signed \<or> top = 0xffffffff \<and> is_signed
               then SET_OF 0 (SET_CF 0 s) else SET_OF 1 (SET_CF 1 s))
      in (result, s))"

section \<open>Unsigned and signed divide\<close>

definition DIV8 :: "IU32 \<Rightarrow> ccpu \<Rightarrow> ccpu_exn + ccpu" where
  "DIV8 op2 s =
     (if op2 = 0 then Inl Int0
      else (let op1 = ucast (GET_AX s) :: IU32;
                result = op1 div op2
            in if result AND 0xff00 \<noteq> 0 then Inl Int0
            else (let s = SET_AL (ucast result) s;
                      s = SET_AH (ucast (op1 mod op2)) s;
                      s = SET_CF 1 s; s = SET_ZF 0 s; s = SET_SF 0 s;
                      s = SET_OF 0 s; s = SET_PF 0 s
                  in Inr (SET_AF 0 s))))"

definition DIV16 :: "IU32 \<Rightarrow> ccpu \<Rightarrow> ccpu_exn + ccpu" where
  "DIV16 op2 s =
     (if op2 = 0 then Inl Int0
      else (let op1 = push_bit 16 (ucast (GET_DX s)) OR ucast (GET_AX s) :: IU32;
                result = op1 div op2
            in if result AND 0xffff0000 \<noteq> 0 then Inl Int0
            else (let s = SET_AX (ucast result) s;
                      s = SET_DX (ucast (op1 mod op2)) s;
                      s = SET_CF 1 s; s = SET_ZF 0 s; s = SET_OF 0 s;
                      s = SET_SF 0 s; s = SET_PF 0 s
                  in Inr (SET_AF 0 s))))"

definition DIV32 :: "IU32 \<Rightarrow> ccpu \<Rightarrow> ccpu_exn + ccpu" where
  "DIV32 op2 s =
     (if op2 = 0 then Inl Int0
      else (let (hr, lr, rem) = divu64 (GET_EDX s) (GET_EAX s) op2
            in if hr \<noteq> 0 then Inl Int0
            else (let s = SET_EAX lr s;
                      s = SET_EDX rem s;
                      s = SET_CF 1 s; s = SET_ZF 0 s; s = SET_OF 0 s;
                      s = SET_SF 0 s; s = SET_PF 0 s
                  in Inr (SET_AF 0 s))))"

text \<open>C's division of two \<open>IS32\<close>, truncating; the one quotient that does not fit traps.\<close>

definition host_sdiv :: "IU32 \<Rightarrow> IU32 \<Rightarrow> (IU32 \<times> IU32) option" where
  "host_sdiv a b =
     (if sint a = - (2 ^ 31) \<and> sint b = - 1 then None
      else Some (word_of_int (sint a sdiv sint b), word_of_int (sint a smod sint b)))"

definition IDIV8 :: "IU32 \<Rightarrow> ccpu \<Rightarrow> ccpu_exn + ccpu" where
  "IDIV8 op2 s =
     (if op2 = 0 then Inl Int0
      else (let sop2 = op2;
                sop1 = ucast (GET_AX s) :: IU32;
                sop1 = (if sop1 AND 0x8000 \<noteq> 0 then sop1 OR NOT 0xffff else sop1);
                sop2 = (if sop2 AND 0x80 \<noteq> 0 then sop2 OR NOT 0xff else sop2)
            in case host_sdiv sop1 sop2 of None \<Rightarrow> Inl HostOverflow | Some (sresult, srem) \<Rightarrow>
              (if sresult AND 0xff80 = 0 \<or> sresult AND 0xff80 = 0xff80
               then (let s = SET_AL (ucast sresult) s;
                         s = SET_AH (ucast srem) s;
                         s = SET_CF 0 s; s = SET_OF 0 s; s = SET_SF 0 s;
                         s = SET_ZF 0 s; s = SET_PF 0 s
                     in Inr (SET_AF 0 s))
               else Inl Int0)))"

definition IDIV16 :: "IU32 \<Rightarrow> ccpu \<Rightarrow> ccpu_exn + ccpu" where
  "IDIV16 op2 s =
     (if op2 = 0 then Inl Int0
      else (let sop2 = op2;
                sop1 = push_bit 16 (ucast (GET_DX s)) OR ucast (GET_AX s) :: IU32;
                sop2 = (if sop2 AND 0x8000 \<noteq> 0 then sop2 OR NOT 0xffff else sop2)
            in case host_sdiv sop1 sop2 of None \<Rightarrow> Inl HostOverflow | Some (sresult, srem) \<Rightarrow>
              (if sresult AND 0xffff8000 = 0 \<or> sresult AND 0xffff8000 = 0xffff8000
               then (let s = SET_AX (ucast sresult) s;
                         s = SET_DX (ucast srem) s;
                         s = SET_CF 0 s; s = SET_OF 0 s; s = SET_SF 0 s;
                         s = SET_ZF 0 s; s = SET_PF 0 s
                     in Inr (SET_AF 0 s))
               else Inl Int0)))"

definition IDIV32 :: "IU32 \<Rightarrow> ccpu \<Rightarrow> ccpu_exn + ccpu" where
  "IDIV32 op2 s =
     (if op2 = 0 then Inl Int0
      else (let (shr, slr, srem) = div64 (GET_EDX s) (GET_EAX s) op2
            in if (shr = 0 \<and> slr AND 0x80000000 = 0) \<or>
                  (shr = 0xffffffff \<and> slr AND 0x80000000 \<noteq> 0)
               then (let s = SET_EAX slr s;
                         s = SET_EDX srem s;
                         s = SET_CF 0 s; s = SET_OF 0 s; s = SET_SF 0 s;
                         s = SET_ZF 0 s; s = SET_PF 0 s
                     in Inr (SET_AF 0 s))
               else Inl Int0))"

section \<open>Values of pairs\<close>

definition val64 :: "IU32 \<Rightarrow> IU32 \<Rightarrow> nat" where
  "val64 hr lr = unat hr * 2 ^ 32 + unat lr"

lemma unat_32_less: "unat (x :: IU32) < 2 ^ 32"
  using unsigned_less [of x, where ?'a = nat] by simp

lemma val64_less: "val64 hr lr < 2 ^ 64"
  using unat_32_less [of hr] unat_32_less [of lr] by (simp add: val64_def)

lemma pair_mod: "(x * W + l) mod (W * W) = (x mod W) * W + l" if "l < W" for x l W :: nat
  using that mod_mult2_eq [of "x * W + l" W W] by (simp add: mult.commute)

lemma unat_not32: "unat (NOT x :: IU32) = 2 ^ 32 - 1 - unat x"
proof -
  have "NOT x = - 1 - x" by (simp add: not_eq_complement)
  moreover have "unat (- 1 - x) = unat (- 1 :: IU32) - unat x" by (rule unat_sub) simp
  moreover have "unat (- 1 :: IU32) = 2 ^ 32 - 1"
    by (simp add: unsigned_minus_1_eq_mask mask_eq_exp_minus_1)
  ultimately show ?thesis by simp
qed

lemma word_m1_eq: "(0xffffffff :: IU32) = NOT 0"
  by simp

lemma neg64_val: "neg64 hr lr = (h, l) \<Longrightarrow> val64 h l = (2 ^ 64 - val64 hr lr) mod 2 ^ 64"
proof -
  assume n: "neg64 hr lr = (h, l)"
  have inc: "unat (NOT x + 1 :: IU32) = (2 ^ 32 - unat x) mod 2 ^ 32" for x
  proof -
    have "unat (NOT x + 1) = (unat (NOT x) + 1) mod 2 ^ 32" by (simp add: unat_word_ariths)
    moreover have "unat (NOT x) + 1 = 2 ^ 32 - unat x" unfolding unat_not32 using unat_32_less [of x] by simp
    ultimately show ?thesis by (simp only:)
  qed
  have all1: "(NOT lr = 0xffffffff) = (lr = 0)"
    by (metis bit.double_compl bit.compl_zero word_m1_eq)
  show ?thesis
  proof (cases "lr = 0")
    case True
    then have "unat h = (2 ^ 32 - unat hr) mod 2 ^ 32" "l = 0"
      using n inc [of hr] by (auto simp: neg64_def Let_def all1)
    moreover have "2 ^ 64 - val64 hr 0 = (2 ^ 32 - unat hr) * 2 ^ 32 + 0"
      by (simp add: val64_def diff_mult_distrib)
    ultimately show ?thesis
      using pair_mod [of 0 "2 ^ 32" "2 ^ 32 - unat hr"] True by (simp add: val64_def)
  next
    case False
    then have hl: "unat h = 2 ^ 32 - 1 - unat hr" "unat l = (2 ^ 32 - unat lr) mod 2 ^ 32"
      using n inc [of lr] unat_not32 [of hr] by (auto simp: neg64_def Let_def all1)
    have "0 < unat lr" using False by (simp add: unat_gt_0)
    then have "unat l = 2 ^ 32 - unat lr" using hl(2) by simp
    then have "val64 h l = 2 ^ 64 - val64 hr lr"
      using hl(1) unat_32_less [of hr] unat_32_less [of lr] by (simp add: val64_def)
    moreover have "0 < val64 hr lr" using \<open>0 < unat lr\<close> by (simp add: val64_def)
    ultimately show ?thesis by simp
  qed
qed

lemma carry_test:
  fixes x y :: IU32
  shows "((bit x 31 \<and> bit y 31) \<or> (\<not> bit (x + y) 31 \<and> (bit x 31 \<or> bit y 31))) = (2 ^ 32 \<le> unat x + unat y)"
proof -
  have top: "bit z 31 = (2 ^ 31 \<le> unat z)" for z :: IU32
    using bit_top [of "unat z" 31] unat_32_less [of z] by (simp only: bit_unat) simp
  have u: "unat (x + y) = (if 2 ^ 32 \<le> unat x + unat y then unat x + unat y - 2 ^ 32 else unat x + unat y)"
    using unat_32_less [of x] unat_32_less [of y] by (simp add: unat_word_ariths le_mod_geq)
  show ?thesis unfolding top u using unat_32_less [of x] unat_32_less [of y] by auto
qed

definition addmid :: "IU32 \<times> IU32 \<Rightarrow> IU32 \<Rightarrow> IU32 \<times> IU32" where
  "addmid v r = (fst v + drop_bit 16 r + of_bool (2 ^ 32 \<le> unat (snd v) + unat (push_bit 16 r)), snd v + push_bit 16 r)"

lemma addmid_nat:
  fixes h l r W K :: nat
  assumes W: "W = K * K" "0 < K" and l: "l < W"
  defines "y \<equiv> r * K mod W"
  shows "((h + r div K + of_bool (W \<le> l + y)) mod W) * W + ((l + y) mod W) = (h * W + l + r * K) mod (W * W)"
proof -
  have y: "y < W" using W by (simp add: y_def)
  have ly: "l + y = (l + y) mod W + of_bool (W \<le> l + y) * W" using l y by (simp add: le_mod_geq)
  have "r * K div W = r div K" using W by (simp add: div_mult2_eq)
  then have rK: "r * K = r div K * W + y" using div_mult_mod_eq [of "r * K" W] by (simp add: y_def)
  have "h * W + l + r * K = h * W + r div K * W + (l + y)" unfolding rK by simp
  also have "\<dots> = h * W + r div K * W + ((l + y) mod W + of_bool (W \<le> l + y) * W)" using ly by (simp only:)
  also have "\<dots> = (h + r div K + of_bool (W \<le> l + y)) * W + (l + y) mod W"
    by (simp only: distrib_right add_ac)
  finally show ?thesis using pair_mod [of "(l + y) mod W" W] l by simp
qed

lemma addmid_val: "val64 (fst (addmid v r)) (snd (addmid v r)) = (val64 (fst v) (snd v) + unat r * 2 ^ 16) mod 2 ^ 64"
proof -
  have y: "unat (push_bit 16 r) = unat r * 2 ^ 16 mod 2 ^ 32" by (simp add: push_bit_eq_mult unat_word_ariths)
  have d: "unat (drop_bit 16 r) = unat r div 2 ^ 16" by (simp add: drop_bit_eq_div unat_div)
  have l: "unat (snd (addmid v r)) = (unat (snd v) + unat (push_bit 16 r)) mod 2 ^ 32"
    by (simp only: addmid_def snd_conv unat_word_ariths) simp
  have h: "unat (fst (addmid v r)) =
      (unat (fst v) + unat r div 2 ^ 16 + of_bool (2 ^ 32 \<le> unat (snd v) + unat (push_bit 16 r))) mod 2 ^ 32"
    unfolding addmid_def fst_conv using d by (simp add: unat_word_ariths mod_simps del: unsigned_push_bit_eq)
  have W: "(2 ^ 32 :: nat) = 2 ^ 16 * 2 ^ 16" "(2 ^ 64 :: nat) = 2 ^ 32 * 2 ^ 32" by simp_all
  show ?thesis unfolding val64_def h l y W(2)
    by (rule addmid_nat [OF W(1) _ unat_32_less]) simp
qed

lemma and_bit31: "(x AND 0x80000000 \<noteq> 0) = bit x 31" "(x AND 0x8000 \<noteq> 0) = bit x 15" for x :: IU32
  using and_exp_neq_0_iff [of x 31] and_exp_neq_0_iff [of x 15] by simp_all

lemma carry_test_word:
  fixes x r :: IU32
  shows "((x AND 0x80000000 \<noteq> 0 \<and> r AND 0x8000 \<noteq> 0) \<or>
          ((x + push_bit 16 r) AND 0x80000000 = 0 \<and> (x AND 0x80000000) OR (r AND 0x8000) \<noteq> 0)) =
         (2 ^ 32 \<le> unat x + unat (push_bit 16 r))"
proof -
  have "bit r 15 = bit (push_bit 16 r) 31" by (simp add: bit_push_bit_iff)
  moreover have "((x + push_bit 16 r) AND 0x80000000 = 0) = (\<not> bit (x + push_bit 16 r) 31)"
    using and_bit31(1) by blast
  ultimately show ?thesis
    unfolding or_eq_0_iff de_Morgan_conj and_bit31 using carry_test [of x "push_bit 16 r"] by simp
qed

lemma mulu64_addmid:
  "mulu64 a b =
     (let la = a AND 0xffff; ha = drop_bit 16 a AND 0xffff; lb = b AND 0xffff; hb = drop_bit 16 b AND 0xffff;
          v = addmid (addmid (0, la * lb) (ha * lb)) (la * hb)
      in (fst v + ha * hb, snd v))"
  unfolding mulu64_def Let_def carry_test_word by (simp add: addmid_def)

lemma halves: 
  fixes a :: IU32
  shows "unat (a AND 0xffff) < 2 ^ 16" "unat (drop_bit 16 a AND 0xffff) < 2 ^ 16"
    "unat a = unat (drop_bit 16 a AND 0xffff) * 2 ^ 16 + unat (a AND 0xffff)"
proof -
  have u: "unat (x AND 0xffff) = unat x mod 2 ^ 16" for x :: IU32
    using unat_and_mask [of x 16] by (simp add: mask_eq_exp_minus_1)
  show "unat (a AND 0xffff) < 2 ^ 16" "unat (drop_bit 16 a AND 0xffff) < 2 ^ 16" by (simp_all only: u) simp_all
  have "unat (drop_bit 16 a) = unat a div 2 ^ 16" by (simp add: drop_bit_eq_div unat_div)
  moreover have "unat a div 2 ^ 16 < 2 ^ 16" using unat_32_less [of a] by (simp add: less_mult_imp_div_less)
  ultimately show "unat a = unat (drop_bit 16 a AND 0xffff) * 2 ^ 16 + unat (a AND 0xffff)"
    unfolding u using div_mult_mod_eq [of "unat a" "2 ^ 16"] by simp
qed

lemma unat_mult16: "unat x < 2 ^ 16 \<Longrightarrow> unat y < 2 ^ 16 \<Longrightarrow> unat (x * y :: IU32) = unat x * unat y"
proof -
  assume "unat x < 2 ^ 16" "unat y < 2 ^ 16"
  then have "unat x * unat y < 2 ^ 16 * 2 ^ 16" by (intro mult_strict_mono) simp_all
  then show ?thesis by (simp add: unat_word_ariths)
qed

lemma val64_add_high: "val64 (h + r) l = (val64 h l + unat r * 2 ^ 32) mod 2 ^ 64"
proof -
  have W: "(2 ^ 64 :: nat) = 2 ^ 32 * 2 ^ 32" by simp
  have "unat (h + r) = (unat h + unat r) mod 2 ^ 32" by (simp add: unat_word_ariths)
  moreover have "val64 h l + unat r * 2 ^ 32 = (unat h + unat r) * 2 ^ 32 + unat l"
    by (simp add: val64_def)
  ultimately show ?thesis
    unfolding W using pair_mod [OF unat_32_less [of l], of "unat h + unat r"] by (simp only: val64_def)
qed

lemma mulu64_val: "mulu64 a b = (h, l) \<Longrightarrow> val64 h l = unat a * unat b"
proof -
  assume m: "mulu64 a b = (h, l)"
  define la ha lb hb where "la = a AND 0xffff" and "ha = drop_bit 16 a AND 0xffff"
    and "lb = b AND 0xffff" and "hb = drop_bit 16 b AND 0xffff"
  note H = halves [of a, folded la_def ha_def] halves [of b, folded lb_def hb_def]
  define v where "v = addmid (addmid (0, la * lb) (ha * lb)) (la * hb)"
  have hl: "h = fst v + ha * hb" "l = snd v"
    using m by (simp_all add: mulu64_addmid Let_def v_def la_def ha_def lb_def hb_def)
  have prods: "unat (la * lb) = unat la * unat lb" "unat (ha * lb) = unat ha * unat lb"
      "unat (la * hb) = unat la * unat hb" "unat (ha * hb) = unat ha * unat hb"
    by (intro unat_mult16 H)+
  have "val64 h l = (unat la * unat lb + unat ha * unat lb * 2 ^ 16 + unat la * unat hb * 2 ^ 16
      + unat ha * unat hb * 2 ^ 32) mod 2 ^ 64"
    unfolding hl val64_add_high v_def addmid_val
    unfolding prods val64_def [of 0] unsigned_0 by (simp only: fst_conv snd_conv mod_add_left_eq add.assoc) (simp add: val64_def prods mod_simps add.assoc)
  also have "unat la * unat lb + unat ha * unat lb * 2 ^ 16 + unat la * unat hb * 2 ^ 16
      + unat ha * unat hb * 2 ^ 32 = unat a * unat b"
    unfolding H(3,6) by (simp add: algebra_simps)
  also have "unat a * unat b mod 2 ^ 64 = unat a * unat b"
  proof -
    have "unat a * unat b < 2 ^ 32 * 2 ^ 32" by (intro mult_strict_mono unat_32_less) simp_all
    then show ?thesis by simp
  qed
  finally show ?thesis .
qed

section \<open>Division\<close>

text \<open>One round of the schoolbook division on naturals, and what \<open>m\<close> rounds compute.\<close>

primrec div_rounds :: "nat \<Rightarrow> nat \<Rightarrow> nat \<Rightarrow> nat \<Rightarrow> nat \<times> nat" where
  "div_rounds 0 d N P = (N, P)"
| "div_rounds (Suc m) d N P =
     (let P1 = 2 * P + N div 2 ^ 63; N1 = 2 * N mod 2 ^ 64
      in if d \<le> P1 then div_rounds m d (N1 + 1) (P1 - d) else div_rounds m d N1 P1)"

lemma top_bit_le: "N < 2 ^ 64 \<Longrightarrow> N div 2 ^ 63 \<le> (1 :: nat)"
  using div_le_mono [of N "2 ^ 64 - 1" "2 ^ 63"] by simp

lemma shift_split:
  fixes N k m :: nat
  assumes k: "k + m = 63" and N: "N < 2 ^ 64" and q: "q \<le> 1"
  defines "N2 \<equiv> 2 * N mod 2 ^ 64 + q"
  shows "N2 < 2 ^ 64"
    and "N div 2 ^ k = N div 2 ^ 63 * 2 ^ m + N2 div 2 ^ Suc k"
    and "N2 mod 2 ^ Suc k = 2 * (N mod 2 ^ k) + q"
proof -
  define M where "M = N mod 2 ^ 63"
  have NM: "N = N div 2 ^ 63 * 2 ^ 63 + M" by (simp only: M_def div_mult_mod_eq)
  have "2 * N = N div 2 ^ 63 * 2 ^ 64 + 2 * M" by (subst NM) simp
  moreover have "2 * M < 2 ^ 64" by (simp add: M_def)
  ultimately have N2: "N2 = 2 * M + q" unfolding N2_def by (metis mod_less mod_mult_self3)
  have "M < 2 ^ 63" by (simp add: M_def)
  then show "N2 < 2 ^ 64" using q unfolding N2 by simp
  have half: "(2 * M + q) div 2 = M" "(2 * M + q) mod 2 = q" using q by (cases "q = 0"; simp)+
  have "N2 div 2 ^ Suc k = M div 2 ^ k"
    unfolding N2 power_Suc using div_mult2_eq [of "2 * M + q" 2 "2 ^ k"] half by simp
  moreover have "N div 2 ^ k = N div 2 ^ 63 * 2 ^ m + M div 2 ^ k"
  proof -
    have "(2 ^ 63 :: nat) = 2 ^ m * 2 ^ k" using k by (metis add.commute power_add)
    then have "N = M + (N div 2 ^ 63 * 2 ^ m) * 2 ^ k" using NM by (metis add.commute mult.assoc)
    then show ?thesis by (metis add.commute div_mult_self3 power_not_zero zero_neq_numeral)
  qed
  ultimately show "N div 2 ^ k = N div 2 ^ 63 * 2 ^ m + N2 div 2 ^ Suc k" by simp
  have "N mod 2 ^ k = M mod 2 ^ k"
    unfolding M_def using k by (intro mod_mod_cancel [symmetric] le_imp_power_dvd) simp
  moreover have "N2 mod 2 ^ Suc k = 2 * (M mod 2 ^ k) + q"
    unfolding N2 power_Suc using mod_mult2_eq [of "2 * M + q" 2 "2 ^ k"] half by simp
  ultimately show "N2 mod 2 ^ Suc k = 2 * (N mod 2 ^ k) + q" by simp
qed

lemma div_rounds_val:
  assumes "0 < d"
  shows "m \<le> 64 \<Longrightarrow> N < 2 ^ 64 \<Longrightarrow> P < d \<Longrightarrow>
    div_rounds m d N P =
      (N mod 2 ^ (64 - m) * 2 ^ m + (P * 2 ^ m + N div 2 ^ (64 - m)) div d,
       (P * 2 ^ m + N div 2 ^ (64 - m)) mod d)"
proof (induction m arbitrary: N P)
  case 0
  then show ?case by simp
next
  case (Suc m)
  define P1 where "P1 = 2 * P + N div 2 ^ 63"
  define q where "q = (of_bool (d \<le> P1) :: nat)"
  define N2 where "N2 = 2 * N mod 2 ^ 64 + q"
  define P2 where "P2 = P1 - d * q"
  define k where "k = 63 - m"
  have k: "k + m = 63" "64 - m = Suc k" "64 - Suc m = k" using Suc.prems(1) by (simp_all add: k_def)
  note sp = shift_split [OF k(1) Suc.prems(2), of q, folded N2_def]
  have q1: "q \<le> 1" by (simp add: q_def)
  have step: "div_rounds (Suc m) d N P = div_rounds m d N2 P2"
    unfolding div_rounds.simps Let_def P1_def [symmetric] by (simp add: N2_def P2_def q_def)
  have P1: "P1 = P2 + d * q" by (simp add: P2_def q_def)
  have "N div 2 ^ 63 \<le> 1" by (rule top_bit_le [OF Suc.prems(2)])
  then have P2: "P2 < d" using Suc.prems(3) unfolding P2_def q_def P1_def by auto
  let ?X = "P2 * 2 ^ m + N2 div 2 ^ Suc k"
  have X: "P * 2 ^ Suc m + N div 2 ^ k = q * 2 ^ m * d + ?X"
  proof -
    have "P * 2 ^ Suc m + N div 2 ^ k = P1 * 2 ^ m + N2 div 2 ^ Suc k"
      using sp(2) [OF q1] by (simp add: P1_def distrib_right)
    then show ?thesis unfolding P1 by (simp add: algebra_simps)
  qed
  have "div_rounds (Suc m) d N P = (N2 mod 2 ^ Suc k * 2 ^ m + ?X div d, ?X mod d)"
    unfolding step using Suc.IH [of N2 P2] Suc.prems(1) sp(1) [OF q1] P2 by (simp only: k)
  moreover have "(q * 2 ^ m * d + ?X) div d = q * 2 ^ m + ?X div d" "(q * 2 ^ m * d + ?X) mod d = ?X mod d"
    using assms by (simp_all add: div_mult_self3 mod_mult_self3)
  ultimately show ?case unfolding k X using sp(3) [OF q1] by (simp only: ) (simp add: algebra_simps)
qed

text \<open>The loop of \<open>divu64\<close> on double words is the division on naturals.\<close>

lemma shl1_bit:
  "unat (push_bit 1 x OR (if c then 1 else 0) :: IU32) = (2 * unat x) mod 2 ^ 32 + of_bool c"
proof -
  let ?c = "if c then 1 else 0 :: IU32"
  have "push_bit 1 x AND ?c = 0"
    by (rule bit_word_eqI) (auto simp: bit_simps simp del: push_bit_Suc)
  moreover have u: "unat (push_bit 1 x) = (2 * unat x) mod 2 ^ 32"
    by (simp add: unat_word_ariths mult.commute)
  moreover have "(2 * unat x) mod 2 ^ 32 + 1 < (2 ^ 32 :: nat)"
  proof -
    have "even ((2 * unat x) mod 2 ^ 32)" by (simp add: dvd_mod_iff)
    then have "(2 * unat x) mod 2 ^ 32 \<noteq> 2 ^ 32 - 1" by auto
    moreover have "(2 * unat x) mod 2 ^ 32 < (2 ^ 32 :: nat)" by simp
    ultimately show ?thesis by linarith
  qed
  moreover have "unat ?c = of_bool c" by simp
  ultimately show ?thesis using unat_or_disjoint [of "push_bit 1 x" ?c] by (cases c) (simp_all only: u of_bool_eq if_True if_False)
qed

lemma dbl_mod: "(2 * x + of_bool b) mod 2 ^ 32 = 2 * x mod 2 ^ 32 + of_bool b" for x :: nat
proof -
  have "even ((2 * x) mod 2 ^ 32)" by (simp add: dvd_mod_iff)
  then have "(2 * x) mod 2 ^ 32 \<noteq> 2 ^ 32 - 1" by auto
  moreover have "(2 * x) mod 2 ^ 32 < 2 ^ 32" by simp
  moreover have "of_bool b \<le> (1 :: nat)" by simp
  ultimately have "(2 * x) mod 2 ^ 32 + of_bool b < 2 ^ 32" by linarith
  then show ?thesis using mod_add_left_eq [of "2 * x" "2 ^ 32" "of_bool b"] by (simp only: mod_less)
qed

lemma div_2_31: "unat x div 2 ^ 31 = of_bool (bit x 31)" for x :: IU32
proof -
  have "unat x div 2 ^ 31 \<le> 1" using div_le_mono [of "unat x" "2 ^ 32 - 1" "2 ^ 31"] unat_32_less [of x] by simp
  then have "unat x div 2 ^ 31 = 0 \<or> unat x div 2 ^ 31 = 1" by linarith
  then show ?thesis by (simp only: bit_unat bit_nat_iff_odd_div) (elim disjE; simp)
qed

lemma dbl_carry: "2 * unat x = of_bool (bit x 31) * 2 ^ 32 + 2 * unat x mod 2 ^ 32" for x :: IU32
proof -
  have "2 * unat x div 2 ^ 32 = unat x div 2 ^ 31" using div_mult2_eq [of "2 * unat x" 2 "2 ^ 31"] by simp
  then show ?thesis using div_mult_mod_eq [of "2 * unat x" "2 ^ 32"] div_2_31 [of x] by simp
qed

lemma val64_shl1:
  "val64 (push_bit 1 h OR (if bit l 31 then 1 else 0)) (push_bit 1 l OR (if e then 1 else 0)) =
     2 * val64 h l mod 2 ^ 64 + of_bool e"
proof -
  have "2 * val64 h l = (2 * unat h + of_bool (bit l 31)) * 2 ^ 32 + 2 * unat l mod 2 ^ 32"
    using dbl_carry [of l] by (simp add: val64_def distrib_right)
  moreover have "2 * unat l mod 2 ^ 32 < (2 ^ 32 :: nat)" by simp
  moreover have W: "(2 ^ 64 :: nat) = 2 ^ 32 * 2 ^ 32" by simp
  ultimately have "2 * val64 h l mod 2 ^ 64 = (2 * unat h mod 2 ^ 32 + of_bool (bit l 31)) * 2 ^ 32 + 2 * unat l mod 2 ^ 32"
    using pair_mod [of "2 * unat l mod 2 ^ 32" "2 ^ 32" "2 * unat h + of_bool (bit l 31)"] by (simp only: dbl_mod W)
  then show ?thesis unfolding val64_def shl1_bit by simp
qed

lemma val64_top: "val64 h l div 2 ^ 63 = of_bool (bit h 31)"
proof -
  have "(2 ^ 63 :: nat) = 2 ^ 32 * 2 ^ 31" by simp
  then have "val64 h l div 2 ^ 63 = val64 h l div 2 ^ 32 div 2 ^ 31" by (simp only: div_mult2_eq)
  also have "val64 h l div 2 ^ 32 = unat h" using unat_32_less [of l] by (simp add: val64_def)
  finally show ?thesis by (simp only: div_2_31)
qed

lemma divu64_loop_rounds:
  assumes d: "0 < unat d"
  shows "unat P < unat d \<Longrightarrow> divu64_loop m d h l P = (h', l', P') \<Longrightarrow>
     div_rounds m (unat d) (val64 h l) (unat P) = (val64 h' l', unat P')"
proof (induction m arbitrary: h l P)
  case 0
  then show ?case by simp
next
  case (Suc m)
  define P1 where "P1 = push_bit 1 P OR (if bit h 31 then 1 else 0 :: IU32)"
  define h1 where "h1 = push_bit 1 h OR (if bit l 31 then 1 else 0 :: IU32)"
  define PN where "PN = 2 * unat P + of_bool (bit h 31)"
  have uP1: "unat P1 = PN mod 2 ^ 32" unfolding P1_def PN_def shl1_bit dbl_mod ..
  have PN: "PN = of_bool (bit P 31) * 2 ^ 32 + unat P1"
    unfolding uP1 PN_def dbl_mod using dbl_carry [of P] by simp
  have test: "(bit P 31 \<or> d \<le> P1) = (unat d \<le> PN)"
    using PN unat_32_less [of d] by (cases "bit P 31") (simp_all add: word_le_nat_alt)
  have sub: "unat (P1 - d) = PN - unat d" "PN - unat d < unat d" if "unat d \<le> PN"
  proof -
    have "PN < 2 * unat d" using Suc.prems(1) by (simp add: PN_def) 
    then show lt: "PN - unat d < unat d" using that by linarith
    have "P1 = of_nat PN" using PN by (simp add: word_eq_iff_unsigned [where ?'a = nat] uP1 unat_of_nat)
    then have "P1 - d = of_nat (PN - unat d)" using that by (simp add: of_nat_diff)
    then show "unat (P1 - d) = PN - unat d"
      using lt unat_32_less [of d] unat_of_nat_mod [of 32 "PN - unat d"] by simp
  qed
  have step: "divu64_loop (Suc m) d h l P =
     (if unat d \<le> PN then divu64_loop m d h1 (push_bit 1 l OR 1) (P1 - d) else divu64_loop m d h1 (push_bit 1 l) P1)"
    unfolding divu64_loop.simps Let_def and_bit31 test [symmetric] P1_def h1_def by simp
  show ?case
  proof (cases "unat d \<le> PN")
    case True
    have "div_rounds m (unat d) (val64 h1 (push_bit 1 l OR 1)) (unat (P1 - d)) = (val64 h' l', unat P')"
      using Suc.IH [of "P1 - d" h1 "push_bit 1 l OR 1"] Suc.prems(2) sub [OF True] True unfolding step by simp
    then show ?thesis
      unfolding div_rounds.simps Let_def val64_top PN_def [symmetric]
      using True val64_shl1 [of h l True] sub(1) [OF True] by (simp add: h1_def)
  next
    case False
    have "unat P1 = PN" using False uP1 unat_32_less [of d] by simp
    have "div_rounds m (unat d) (val64 h1 (push_bit 1 l)) (unat P1) = (val64 h' l', unat P')"
      using Suc.IH [of P1 h1 "push_bit 1 l"] Suc.prems(2) False \<open>unat P1 = PN\<close> unfolding step by simp
    then show ?thesis
      unfolding div_rounds.simps Let_def val64_top PN_def [symmetric]
      using False val64_shl1 [of h l False] \<open>unat P1 = PN\<close> by (simp add: h1_def)
  qed
qed

lemma divu64_val:
  assumes "divu64 hr lr d = (h, l, r)" "d \<noteq> 0"
  shows "val64 h l = val64 hr lr div unat d" "unat r = val64 hr lr mod unat d"
proof -
  have d: "0 < unat d" using assms(2) by (simp add: unat_gt_0)
  have "div_rounds 64 (unat d) (val64 hr lr) (unat (0 :: IU32)) = (val64 h l, unat r)"
    using divu64_loop_rounds [OF d, of 0 64 hr lr h l r] assms(1) d by (simp add: divu64_def)
  then show "val64 h l = val64 hr lr div unat d" "unat r = val64 hr lr mod unat d"
    using div_rounds_val [OF d, of 64 "val64 hr lr" 0] val64_less [of hr lr] d by simp_all
qed

section \<open>Signed products and quotients\<close>

text \<open>The double word as a signed number, its magnitude, and a number modulo \<open>2^k\<close>.\<close>

abbreviation "sval32 a \<equiv> sval 32 (unat (a :: IU32))"

definition wrap :: "nat \<Rightarrow> int \<Rightarrow> nat" where
  "wrap k v = nat (v mod 2 ^ k)"

lemma int_wrap [simp]: "int (wrap k v) = v mod 2 ^ k"
  by (simp add: wrap_def)

lemma wrap_of_nat: "x < 2 ^ k \<Longrightarrow> wrap k (int x) = x"
proof -
  assume "x < 2 ^ k"
  then have "int x < 2 ^ k" by (metis of_nat_less_iff of_nat_numeral of_nat_power)
  then show ?thesis by (simp add: wrap_def)
qed

lemma sval32_cases:
  "sval32 a = (if bit a 31 then int (unat a) - 2 ^ 32 else int (unat a))"
  using div_2_31 [of a] bit_top [of "unat a" 31] unat_32_less [of a] by (simp add: sval_def bit_unat)

lemma neg32: "bit a 31 \<Longrightarrow> unat (- a :: IU32) = 2 ^ 32 - unat a"
proof -
  assume b: "bit a 31"
  then have "a \<noteq> 0" by auto
  then have "0 < unat a" by (simp add: unat_gt_0)
  have "- a = NOT a + 1" by (simp add: not_eq_complement)
  moreover have "unat (NOT a + 1) = (unat (NOT a) + 1) mod 2 ^ 32" by (simp add: unat_word_ariths)
  moreover have "unat (NOT a) + 1 = 2 ^ 32 - unat a" unfolding unat_not32 using unat_32_less [of a] by simp
  ultimately show ?thesis using \<open>0 < unat a\<close> by simp
qed

lemma magnitude32: "int (unat (if bit a 31 then - a else a)) = \<bar>sval32 a\<bar>"
  using neg32 [of a] unat_32_less [of a] unfolding sval32_cases
  by (cases "bit a 31") (simp_all del: of_nat_unat add: of_nat_diff)

lemma sval32_neg: "(sval32 a < 0) = bit a 31"
  using unat_32_less [of a] unfolding sval32_cases by (simp del: of_nat_unat)

lemma sval32_abs_le: "\<bar>sval32 a\<bar> \<le> 2 ^ 31"
proof -
  have "(2 ^ 31 \<le> unat a) = bit a 31"
    using bit_top [of "unat a" 31] unat_32_less [of a] by (simp add: bit_unat)
  then show ?thesis using unat_32_less [of a] unfolding sval32_cases
    by (cases "bit a 31") (simp_all del: of_nat_unat)
qed

lemma wrap_neg64:
  assumes "x \<le> 2 ^ 64"
  shows "(2 ^ 64 - x) mod 2 ^ 64 = wrap 64 (- int x)"
proof -
  have "int ((2 ^ 64 - x) mod 2 ^ 64) = (2 ^ 64 - int x) mod 2 ^ 64"
    using assms by (simp add: zmod_int of_nat_diff)
  also have "\<dots> = (- int x) mod 2 ^ 64" using mod_add_self1 [of "2 ^ 64" "- int x"] by simp
  finally show ?thesis by (metis int_wrap of_nat_eq_iff)
qed

lemma neg64_wrap: "neg64 hr lr = (h, l) \<Longrightarrow> val64 h l = wrap 64 (- int (val64 hr lr))"
  using neg64_val [of hr lr h l] wrap_neg64 [of "val64 hr lr"] val64_less [of hr lr] by simp

lemma mul64_cases:
  "mul64 a b = (let (h, l) = mulu64 (if bit a 31 then - a else a) (if bit b 31 then - b else b)
                in if bit a 31 \<noteq> bit b 31 then neg64 h l else (h, l))"
  unfolding mul64_def and_bit31 by (auto simp: split_def)

lemma mul64_val:
  assumes "mul64 a b = (h, l)"
  shows "val64 h l = wrap 64 (sval32 a * sval32 b)"
proof -
  obtain h1 l1 where m: "mulu64 (if bit a 31 then - a else a) (if bit b 31 then - b else b) = (h1, l1)"
    by (cases "mulu64 (if bit a 31 then - a else a) (if bit b 31 then - b else b)")
  have v: "int (val64 h1 l1) = \<bar>sval32 a\<bar> * \<bar>sval32 b\<bar>"
    unfolding mulu64_val [OF m] of_nat_mult magnitude32 ..
  show ?thesis
  proof (cases "bit a 31 \<noteq> bit b 31")
    case True
    then have "neg64 h1 l1 = (h, l)" using assms m by (simp add: mul64_cases)
    moreover have "sval32 a * sval32 b = - (\<bar>sval32 a\<bar> * \<bar>sval32 b\<bar>)"
      using True sval32_neg [of a] sval32_neg [of b] by (cases "bit a 31") (simp_all add: abs_if)
    ultimately show ?thesis using neg64_wrap [of h1 l1 h l] v by simp
  next
    case False
    then have "h1 = h" "l1 = l" using assms m by (simp_all add: mul64_cases)
    moreover have "sval32 a * sval32 b = \<bar>sval32 a\<bar> * \<bar>sval32 b\<bar>"
      using False sval32_neg [of a] sval32_neg [of b] by (cases "bit a 31") (simp_all add: abs_if)
    ultimately show ?thesis using wrap_of_nat [OF val64_less [of h l]] v by simp
  qed
qed

lemma sval64_cases:
  "sval 64 (val64 h l) = (if bit h 31 then int (val64 h l) - 2 ^ 64 else int (val64 h l))"
proof -
  have "(val64 h l < 2 ^ 63) = (\<not> bit h 31)"
    using val64_top [of h l] div_eq_0_iff [of "val64 h l" "2 ^ 63"] by simp
  then show ?thesis by (simp add: sval_def)
qed

lemma magnitude64:
  assumes "(if bit hr 31 then neg64 hr lr else (hr, lr)) = (h, l)"
  shows "int (val64 h l) = \<bar>sval 64 (val64 hr lr)\<bar>" "(sval 64 (val64 hr lr) < 0) = bit hr 31"
proof -
  have lt: "int (val64 hr lr) < 2 ^ 64" using val64_less [of hr lr] by (metis of_nat_less_iff of_nat_numeral of_nat_power)
  show "(sval 64 (val64 hr lr) < 0) = bit hr 31" using lt by (simp add: sval64_cases)
  show "int (val64 h l) = \<bar>sval 64 (val64 hr lr)\<bar>"
  proof (cases "bit hr 31")
    case True
    then have "0 < val64 hr lr" using val64_top [of hr lr] by (metis div_0 gr0I of_bool_eq(2) zero_neq_one)
    then have "val64 h l = 2 ^ 64 - val64 hr lr"
      using True assms neg64_val [of hr lr h l] by simp
    then show ?thesis using True lt val64_less [of hr lr] by (simp add: sval64_cases of_nat_diff)
  qed (use assms in \<open>simp add: sval64_cases\<close>)
qed

lemma div64_cases:
  "div64 hr lr d =
     (let (h, l) = (if bit hr 31 then neg64 hr lr else (hr, lr));
          (q1, q0, r) = divu64 h l (if bit d 31 then - d else d);
          (q1, q0) = (if bit hr 31 \<noteq> bit d 31 then neg64 q1 q0 else (q1, q0))
      in (q1, q0, if bit hr 31 then - r else r))"
  unfolding div64_def and_bit31 by (auto simp: split_def Let_def)

lemma wrap_uminus: "unat (- r :: IU32) = wrap 32 (- int (unat r))"
proof -
  have "int (unat (- r)) = (- int (unat r)) mod 2 ^ 32"
    by (simp add: uint_word_ariths)
  then show ?thesis by (metis int_wrap of_nat_eq_iff)
qed

lemma sdiv_sign: "(x :: int) sdiv y = (if (x < 0) \<noteq> (y < 0) then - (\<bar>x\<bar> div \<bar>y\<bar>) else \<bar>x\<bar> div \<bar>y\<bar>)"
  by (auto simp: signed_divide_int_def sgn_if)

lemma smod_sign: "(x :: int) smod y = (if x < 0 then - (\<bar>x\<bar> mod \<bar>y\<bar>) else \<bar>x\<bar> mod \<bar>y\<bar>)"
  by (auto simp: signed_modulo_int_def sgn_if)

lemma div64_val:
  assumes "div64 hr lr d = (h, l, r)" "d \<noteq> 0"
  shows "val64 h l = wrap 64 (sval 64 (val64 hr lr) sdiv sval32 d)"
    and "unat r = wrap 32 (sval 64 (val64 hr lr) smod sval32 d)"
proof -
  let ?D = "sval 64 (val64 hr lr)"
  obtain h1 l1 where a: "(if bit hr 31 then neg64 hr lr else (hr, lr)) = (h1, l1)"
    by (cases "if bit hr 31 then neg64 hr lr else (hr, lr)")
  obtain q1 q0 r1 where q: "divu64 h1 l1 (if bit d 31 then - d else d) = (q1, q0, r1)"
    by (cases "divu64 h1 l1 (if bit d 31 then - d else d)")
  have res: "(if bit hr 31 \<noteq> bit d 31 then neg64 q1 q0 else (q1, q0)) = (h, l)"
      "r = (if bit hr 31 then - r1 else r1)"
    using assms(1) a q by (auto simp: div64_cases split_def Let_def prod_eq_iff)
  have "(if bit d 31 then - d else d) \<noteq> 0" using assms(2) by auto
  note dv = divu64_val [OF q this]
  have Q: "int (val64 q1 q0) = \<bar>?D\<bar> div \<bar>sval32 d\<bar>"
    unfolding dv(1) zdiv_int magnitude32 magnitude64(1) [OF a] ..
  have R: "int (unat r1) = \<bar>?D\<bar> mod \<bar>sval32 d\<bar>"
    unfolding dv(2) zmod_int magnitude32 magnitude64(1) [OF a] ..
  have dn: "(sval32 d < 0) = bit d 31" "(?D < 0) = bit hr 31"
    by (rule sval32_neg, rule magnitude64(2) [OF a])
  show "val64 h l = wrap 64 (?D sdiv sval32 d)"
  proof (cases "bit hr 31 \<noteq> bit d 31")
    case True
    then have "neg64 q1 q0 = (h, l)" using res(1) by simp
    then show ?thesis using True neg64_wrap [of q1 q0 h l] Q dn by (simp add: sdiv_sign)
  next
    case False
    then have "q1 = h" "q0 = l" using res(1) by simp_all
    then show ?thesis using False wrap_of_nat [OF val64_less [of h l]] Q dn by (simp add: sdiv_sign)
  qed
  show "unat r = wrap 32 (?D smod sval32 d)"
    using res(2) wrap_uminus [of r1] wrap_of_nat [OF unat_32_less [of r1]] R dn(2)
    by (simp add: smod_sign del: of_nat_unat)
qed

section \<open>Does a value fit\<close>

lemma and_field:
  fixes x :: IU32
  assumes "k + m \<le> 32"
  shows "x AND push_bit k (mask m) = push_bit k (take_bit m (drop_bit k x))"
  by (rule bit_word_eqI) (auto simp: bit_simps)

lemma field_eq:
  fixes x y :: IU32
  assumes "k + m \<le> 32"
  shows "(push_bit k (take_bit m x) = push_bit k (take_bit m y)) = (take_bit m x = take_bit m y)"
proof -
  have "drop_bit k (push_bit k (take_bit m z)) = take_bit m z" for z :: IU32
    by (rule bit_word_eqI) (use assms in \<open>auto simp: bit_simps\<close>)
  then show ?thesis by metis
qed

lemma div_0_m1:
  fixes v K :: int
  assumes "0 < K"
  shows "(v div K = 0 \<or> v div K = - 1) = (- K \<le> v \<and> v < K)"
proof -
  have v: "v = v div K * K + v mod K" "0 \<le> v mod K" "v mod K < K" using assms by simp_all
  show ?thesis
  proof (intro iffI)
    assume "v div K = 0 \<or> v div K = - 1"
    then show "- K \<le> v \<and> v < K"
    proof (elim disjE)
      assume w: "v div K = 0"
      have "v = v mod K" using v(1) unfolding w by linarith
      then show ?thesis using v(2,3) by linarith
    next
      assume w: "v div K = - 1"
      have "v = - K + v mod K" using v(1) unfolding w by linarith
      then show ?thesis using v(2,3) by linarith
    qed
  next
    assume "- K \<le> v \<and> v < K"
    moreover have "(v + K) div K = v div K + 1" using assms by (simp add: div_add_self2)
    ultimately show "v div K = 0 \<or> v div K = - 1"
      using div_pos_pos_trivial [of v K] div_pos_pos_trivial [of "v + K" K] by linarith
  qed
qed

lemma mod_all_or_none:
  fixes w :: int
  assumes "2 \<le> m" "- (2 ^ (m - 1)) \<le> w" "w \<le> 2 ^ (m - 1)"
  shows "(w mod 2 ^ m = 0 \<or> w mod 2 ^ m = 2 ^ m - 1) = (w = 0 \<or> w = - 1)"
proof -
  define c :: int where "c = 2 ^ (m - 1)"
  have c: "2 ^ m = 2 * c" "2 \<le> c"
  proof -
    obtain j where "m = Suc (Suc j)" using assms(1) by (metis add_2_eq_Suc le_Suc_ex)
    then show "2 ^ m = 2 * c" "2 \<le> c" by (simp_all add: c_def)
  qed
  have "w mod (2 * c) = (if 0 \<le> w then w else w + 2 * c)"
  proof (cases "0 \<le> w")
    case True
    then show ?thesis using assms(3) [folded c_def] c(2) by (simp add: mod_pos_pos_trivial)
  next
    case False
    have "w mod (2 * c) = (w + 2 * c) mod (2 * c)" by simp
    also have "\<dots> = w + 2 * c" using False assms(2) [folded c_def] c(2) by (intro mod_pos_pos_trivial) simp_all
    finally show ?thesis using False by simp
  qed
  then show ?thesis unfolding c(1) using assms(2,3) [folded c_def] c(2) by auto
qed

lemma div_bounds:
  fixes v :: int
  assumes "1 \<le> m"
  shows "v \<le> 2 ^ (k + m - 1) \<Longrightarrow> v div 2 ^ k \<le> 2 ^ (m - 1)"
    and "- (2 ^ (k + m - 1)) \<le> v \<Longrightarrow> - (2 ^ (m - 1)) \<le> v div 2 ^ k"
proof -
  have "k + m - 1 = (m - 1) + k" using assms by simp
  then have e: "(2 ^ (k + m - 1) :: int) = 2 ^ (m - 1) * 2 ^ k" by (simp only: power_add)
  show "v \<le> 2 ^ (k + m - 1) \<Longrightarrow> v div 2 ^ k \<le> 2 ^ (m - 1)"
    using zdiv_mono1 [of v "2 ^ (m - 1) * 2 ^ k" "2 ^ k"] unfolding e by simp
  assume "- (2 ^ (k + m - 1)) \<le> v"
  then have "(- (2 ^ (m - 1))) * 2 ^ k \<le> v" unfolding e by simp
  then have "((- (2 ^ (m - 1))) * 2 ^ k) div 2 ^ k \<le> v div 2 ^ k" by (rule zdiv_mono1) simp
  moreover have "((- (2 ^ (m - 1))) * 2 ^ k) div 2 ^ k = (- (2 ^ (m - 1)) :: int)"
    by (rule nonzero_mult_div_cancel_right) simp
  ultimately show "- (2 ^ (m - 1)) \<le> v div 2 ^ k" by simp
qed

lemma fits_test:
  fixes v :: int
  assumes km: "k + m \<le> 32" "2 \<le> m" and v: "- (2 ^ (k + m - 1)) \<le> v" "v \<le> 2 ^ (k + m - 1)"
  defines "x \<equiv> word_of_int v :: IU32" and "f \<equiv> push_bit k (mask m) :: IU32"
  shows "(x AND f = 0 \<or> x AND f = f) = (- (2 ^ k) \<le> v \<and> v < 2 ^ k)"
proof -
  define w where "w = v div 2 ^ k"
  have T: "uint (take_bit m (drop_bit k x)) = w mod 2 ^ m"
  proof -
    have "take_bit m (drop_bit k x) = word_of_int (take_bit m (drop_bit k v))"
      by (rule bit_word_eqI) (use km in \<open>auto simp: x_def bit_simps\<close>)
    moreover have "take_bit m (drop_bit k v) = w mod 2 ^ m" by (simp add: take_bit_eq_mod drop_bit_eq_div w_def)
    moreover have "0 \<le> w mod 2 ^ m" "w mod 2 ^ m < 2 ^ 32"
    proof -
      have "w mod 2 ^ m < 2 ^ m" by simp
      also have "(2 ^ m :: int) \<le> 2 ^ 32" using km by (intro power_increasing) simp_all
      finally show "w mod 2 ^ m < 2 ^ 32" .
    qed simp
    ultimately show ?thesis by (simp add: uint_word_of_int)
  qed
  have "uint (mask m :: IU32) = 2 ^ m - 1"
    using km by (simp add: uint_mask_eq min_absorb2) (simp add: mask_eq_exp_minus_1)
  moreover have "(x AND f = 0) = (take_bit m (drop_bit k x) = 0)" "(x AND f = f) = (take_bit m (drop_bit k x) = mask m)"
    unfolding f_def and_field [OF km(1)]
    using field_eq [OF km(1), of "drop_bit k x" 0] field_eq [OF km(1), of "drop_bit k x" "mask m"] by simp_all
  ultimately have "(x AND f = 0 \<or> x AND f = f) = (w mod 2 ^ m = 0 \<or> w mod 2 ^ m = 2 ^ m - 1)"
    using T by (simp add: word_uint_eq_iff del: uint_0_iff)
  also have "\<dots> = (w = 0 \<or> w = - 1)"
    unfolding w_def using km(2) by (intro mod_all_or_none div_bounds v) simp_all
  also have "\<dots> = (- (2 ^ k) \<le> v \<and> v < 2 ^ k)" unfolding w_def by (rule div_0_m1) simp
  finally show ?thesis .
qed

text \<open>Sign extension of a byte or word operand to the host's double word.\<close>

lemma sext_word:
  assumes "n = 8 \<or> n = 16" "unat a < 2 ^ n"
  shows "(if bit a (n - 1) then a OR NOT (mask n) else a) = (word_of_int (sval n (unat a)) :: IU32)"
proof (rule bit_word_eqI)
  fix i assume i: "i < LENGTH(32)"
  have n: "0 < n" using assms(1) by auto
  have "bit (word_of_int (sval n (unat a)) :: IU32) i = bit a (min i (n - 1))"
    using i bit_sval [OF n assms(2), of i] by (simp add: bit_word_of_int_iff bit_unat [symmetric])
  moreover have "bit a i \<Longrightarrow> i < n" by (rule unat_lt_bit [OF assms(2)])
  ultimately show "bit (if bit a (n - 1) then a OR NOT (mask n) else a) i = bit (word_of_int (sval n (unat a)) :: IU32) i"
    using i n by (auto simp: bit_simps min_def)
qed

lemma sext8: "unat a < 2 ^ 8 \<Longrightarrow> (if a AND 0x80 \<noteq> 0 then a OR NOT 0xff else a) = (word_of_int (sval 8 (unat a)) :: IU32)"
  unfolding field_masks(1) using sext_word [of 8 a] and_exp_neq_0_iff [of a 7] by simp

lemma sext16: "unat a < 2 ^ 16 \<Longrightarrow> (if a AND 0x8000 \<noteq> 0 then a OR NOT 0xffff else a) = (word_of_int (sval 16 (unat a)) :: IU32)"
  unfolding field_masks(2) using sext_word [of 16 a] and_exp_neq_0_iff [of a 15] by simp

lemma fit8: "- (2 ^ 15) \<le> v \<Longrightarrow> v \<le> 2 ^ 15 \<Longrightarrow>
   ((word_of_int v :: IU32) AND 0xff80 = 0 \<or> word_of_int v AND 0xff80 = (0xff80 :: IU32)) = sfits 8 v"
  using fits_test [of 7 9 v] by (simp add: sfits_def mask_eq_exp_minus_1)

lemma fit16: "- (2 ^ 31) \<le> v \<Longrightarrow> v \<le> 2 ^ 31 \<Longrightarrow>
   ((word_of_int v :: IU32) AND 0xffff8000 = 0 \<or> word_of_int v AND 0xffff8000 = (0xffff8000 :: IU32)) = sfits 16 v"
  using fits_test [of 15 17 v] by (simp add: sfits_def mask_eq_exp_minus_1)

lemma sval_abs:
  assumes "0 < n" "x < 2 ^ n"
  shows "\<bar>sval n x\<bar> \<le> 2 ^ (n - 1)"
proof -
  have "(2 ^ n :: int) = 2 * 2 ^ (n - 1)" using assms(1) by (cases n) simp_all
  moreover have "int x < 2 ^ n" using assms(2) by (metis of_nat_less_iff of_nat_numeral of_nat_power)
  moreover have "int x < 2 ^ (n - 1) \<longleftrightarrow> x < 2 ^ (n - 1)" by (metis of_nat_less_iff of_nat_numeral of_nat_power)
  ultimately show ?thesis unfolding sval_def by auto
qed

lemma mult_abs_le: "\<bar>x\<bar> \<le> a \<Longrightarrow> \<bar>y\<bar> \<le> b \<Longrightarrow> \<bar>x * y\<bar> \<le> a * b" for x y a b :: int
  by (simp add: abs_mult mult_mono')

text \<open>The two halves of a product, read back as one number.\<close>

lemma unat_ucast_byte: "unat (ucast (x :: IU32) :: IU8) = unat x mod 2 ^ 8"
  and unat_ucast_half: "unat (ucast (x :: IU32) :: IU16) = unat x mod 2 ^ 16"
  by (simp_all add: unsigned_ucast_eq take_bit_eq_mod unsigned_take_bit_eq)

lemma unat_drop8: "unat (ucast (drop_bit 8 r AND 0xff) :: IU8) = unat r div 2 ^ 8 mod 2 ^ 8" for r :: IU32
  unfolding field_masks(1) unat_ucast_byte unat_and_mask by (simp add: drop_bit_eq_div unat_div)

lemma unat_drop16: "unat (ucast (drop_bit 16 r AND 0xffff) :: IU16) = unat r div 2 ^ 16 mod 2 ^ 16" for r :: IU32
  unfolding field_masks(2) unat_ucast_half unat_and_mask by (simp add: drop_bit_eq_div unat_div)

lemma halves_mod: "r div 2 ^ k mod 2 ^ k * 2 ^ k + r mod 2 ^ k = r mod 2 ^ (2 * k)" for r :: nat
  unfolding mult_2 power_add using mod_mult2_eq [of r "2 ^ k" "2 ^ k"] by (simp only: mult.commute)

lemma halves_8: "unat (ucast (drop_bit 8 r AND 0xff) :: IU8) * 2 ^ 8 + unat r mod 2 ^ 8 = unat r mod 2 ^ 16" for r :: IU32
  unfolding unat_drop8 using halves_mod [of "unat r" 8] by simp

lemma halves_16: "unat (ucast (drop_bit 16 r AND 0xffff) :: IU16) * 2 ^ 16 + unat r mod 2 ^ 16 = unat r mod 2 ^ 32" for r :: IU32
  unfolding unat_drop16 using halves_mod [of "unat r" 16] by simp

lemma unat_wrap:
  assumes "k \<le> 32"
  shows "unat (word_of_int v :: IU32) mod 2 ^ k = wrap k v"
proof -
  have "int (unat (word_of_int v :: IU32) mod 2 ^ k) = v mod 2 ^ 32 mod 2 ^ k"
    by (simp add: zmod_int uint_word_of_int)
  also have "\<dots> = v mod 2 ^ k" using assms by (intro mod_mod_cancel le_imp_power_dvd)
  finally show ?thesis by (metis int_wrap of_nat_eq_iff)
qed

lemma IMUL8_correct:
  assumes "unat a < 2 ^ 8" "unat b < 2 ^ 8"
  defines "p \<equiv> sval 8 (unat a) * sval 8 (unat b)"
  shows "unat (GET_AH (snd (IMUL8 a b s))) * 2 ^ 8 + unat (fst (IMUL8 a b s)) mod 2 ^ 8 = wrap 16 p"
    and "GET_CF (snd (IMUL8 a b s)) = of_bool (\<not> sfits 8 p)" "GET_OF (snd (IMUL8 a b s)) = of_bool (\<not> sfits 8 p)"
proof -
  have "\<bar>p\<bar> \<le> 2 ^ 7 * 2 ^ 7"
    unfolding p_def using sval_abs [of 8] assms(1,2) by (intro mult_abs_le) simp_all
  then have fit: "((word_of_int p :: IU32) AND 0xff80 = 0 \<or> word_of_int p AND 0xff80 = (0xff80 :: IU32)) = sfits 8 p"
    by (intro fit8) simp_all
  have r: "fst (IMUL8 a b s) = word_of_int p"
    unfolding IMUL8_def Let_def sext8 [OF assms(1)] sext8 [OF assms(2)] by (simp add: p_def)
  show "unat (GET_AH (snd (IMUL8 a b s))) * 2 ^ 8 + unat (fst (IMUL8 a b s)) mod 2 ^ 8 = wrap 16 p"
  proof -
    have "GET_AH (snd (IMUL8 a b s)) = ucast (drop_bit 8 (fst (IMUL8 a b s)) AND 0xff)"
      by (simp add: IMUL8_def Let_def BR.get_put del: drop_bit_and)
    then show ?thesis using halves_8 [of "fst (IMUL8 a b s)"] unat_wrap [of 16 p] by (simp only: r)
  qed
  show "GET_CF (snd (IMUL8 a b s)) = of_bool (\<not> sfits 8 p)" "GET_OF (snd (IMUL8 a b s)) = of_bool (\<not> sfits 8 p)"
    unfolding IMUL8_def Let_def sext8 [OF assms(1)] sext8 [OF assms(2)] wi_hom_mult p_def [symmetric] fit by simp_all
qed

lemma IMUL16_correct:
  assumes "unat a < 2 ^ 16" "unat b < 2 ^ 16"
  defines "p \<equiv> sval 16 (unat a) * sval 16 (unat b)"
  shows "unat (GET_DX (snd (IMUL16 a b s))) * 2 ^ 16 + unat (fst (IMUL16 a b s)) mod 2 ^ 16 = wrap 32 p"
    and "GET_CF (snd (IMUL16 a b s)) = of_bool (\<not> sfits 16 p)" "GET_OF (snd (IMUL16 a b s)) = of_bool (\<not> sfits 16 p)"
    and "unat (fst (IMUL16T a b s)) mod 2 ^ 16 = wrap 16 p"
    and "GET_CF (snd (IMUL16T a b s)) = of_bool (\<not> sfits 16 p)" "GET_OF (snd (IMUL16T a b s)) = of_bool (\<not> sfits 16 p)"
proof -
  have "\<bar>p\<bar> \<le> 2 ^ 15 * 2 ^ 15"
    unfolding p_def using sval_abs [of 16] assms(1,2) by (intro mult_abs_le) simp_all
  then have fit: "((word_of_int p :: IU32) AND 0xffff8000 = 0 \<or> word_of_int p AND 0xffff8000 = (0xffff8000 :: IU32)) = sfits 16 p"
    by (intro fit16) simp_all
  have r: "fst (IMUL16 a b s) = word_of_int p" "fst (IMUL16T a b s) = word_of_int p"
    unfolding IMUL16_def IMUL16T_def Let_def sext16 [OF assms(1)] sext16 [OF assms(2)] by (simp_all add: p_def)
  show "unat (GET_DX (snd (IMUL16 a b s))) * 2 ^ 16 + unat (fst (IMUL16 a b s)) mod 2 ^ 16 = wrap 32 p"
  proof -
    have "GET_DX (snd (IMUL16 a b s)) = ucast (drop_bit 16 (fst (IMUL16 a b s)) AND 0xffff)"
      by (simp add: IMUL16_def Let_def WR.get_put del: drop_bit_and)
    then show ?thesis using halves_16 [of "fst (IMUL16 a b s)"] unat_wrap [of 32 p] by (simp only: r)
  qed
  show "unat (fst (IMUL16T a b s)) mod 2 ^ 16 = wrap 16 p" unfolding r by (rule unat_wrap) simp
  show "GET_CF (snd (IMUL16 a b s)) = of_bool (\<not> sfits 16 p)" "GET_OF (snd (IMUL16 a b s)) = of_bool (\<not> sfits 16 p)"
    unfolding IMUL16_def Let_def sext16 [OF assms(1)] sext16 [OF assms(2)] wi_hom_mult p_def [symmetric] fit by simp_all
  show "GET_CF (snd (IMUL16T a b s)) = of_bool (\<not> sfits 16 p)" "GET_OF (snd (IMUL16T a b s)) = of_bool (\<not> sfits 16 p)"
    unfolding IMUL16T_def Let_def sext16 [OF assms(1)] sext16 [OF assms(2)] wi_hom_mult p_def [symmetric] fit by simp_all
qed

lemma pair_nat:
  fixes h l W K :: nat
  assumes "l < W" "h < W" "0 < K" "K \<le> W"
  shows "(h = 0 \<and> \<not> K \<le> l) = (h * W + l < K)"
    and "(h = W - 1 \<and> W - K \<le> l) = (W * W - K \<le> h * W + l)"
proof -
  show "(h = 0 \<and> \<not> K \<le> l) = (h * W + l < K)"
    using assms by (cases h) auto
  have top: "(W - 1) * W + W = W * W" using assms(2) by (cases W) auto
  show "(h = W - 1 \<and> W - K \<le> l) = (W * W - K \<le> h * W + l)"
  proof (cases "h = W - 1")
    case True
    have "(W * W - K \<le> h * W + l) = (W - K \<le> l)" unfolding True using top assms(3,4) by (intro iffI) linarith+
    then show ?thesis using True by blast
  next
    case False
    then have "h + 1 \<le> W - 1" using assms(2) by linarith
    then have "(h + 1) * W \<le> (W - 1) * W" by (rule mult_le_mono1)
    then have "h * W + W \<le> (W - 1) * W" by (simp only: distrib_right mult_1_left)
    then have "\<not> W * W - K \<le> h * W + l" using top assms(1,4) by linarith
    then show ?thesis using False by blast
  qed
qed

lemma pair_small:
  "(h = 0 \<and> \<not> bit l 31) = (val64 h l < 2 ^ 31)"
  "(h = 0xffffffff \<and> bit l 31) = (2 ^ 64 - 2 ^ 31 \<le> val64 h l)"
proof -
  have b: "bit l 31 = (2 ^ 31 \<le> unat l)"
    using bit_top [of "unat l" 31] unat_32_less [of l] by (simp add: bit_unat)
  have u: "unat (0xffffffff :: IU32) = 2 ^ 32 - 1" by simp
  have h: "(h = 0) = (unat h = 0)" "(h = 0xffffffff) = (unat h = 2 ^ 32 - 1)"
    unfolding u [symmetric] by (simp_all only: unat_eq_0 word_unat_eq_iff)
  have K: "(2 ^ 32 - 2 ^ 31 :: nat) = 2 ^ 31" "(2 ^ 64 :: nat) = 2 ^ 32 * 2 ^ 32" by simp_all
  note pn = pair_nat [OF unat_32_less [of l] unat_32_less [of h], of "2 ^ 31"]
  show "(h = 0 \<and> \<not> bit l 31) = (val64 h l < 2 ^ 31)"
    unfolding b h val64_def by (rule pn(1)) simp_all
  show "(h = 0xffffffff \<and> bit l 31) = (2 ^ 64 - 2 ^ 31 \<le> val64 h l)"
    unfolding b h val64_def K(2) by (rule pn(2) [unfolded K(1)]) simp_all
qed

lemma fit32:
  assumes "val64 h l = wrap 64 v" "- (2 ^ 63) \<le> v" "v \<le> 2 ^ 63"
  shows "(h = 0 \<and> \<not> bit l 31 \<or> h = 0xffffffff \<and> bit l 31) = sfits 32 v"
proof -
  have "int (val64 h l) = (if 0 \<le> v then v else v + 2 ^ 64)"
  proof (cases "0 \<le> v")
    case True
    then show ?thesis using assms by simp
  next
    case False
    have "v mod 2 ^ 64 = (v + 2 ^ 64) mod 2 ^ 64" by simp
    also have "\<dots> = v + 2 ^ 64" using False assms(2) by (intro mod_pos_pos_trivial) simp_all
    finally show ?thesis using False assms(1) by simp
  qed
  then show ?thesis unfolding pair_small sfits_def using assms(2,3) by (cases "0 \<le> v") auto
qed

lemma val64_low: "val64 h l = wrap 64 p \<Longrightarrow> unat l = wrap 32 p"
proof -
  assume v: "val64 h l = wrap 64 p"
  have "unat l = val64 h l mod 2 ^ 32" using unat_32_less [of l] by (simp add: val64_def)
  moreover have "int (wrap 64 p mod 2 ^ 32) = p mod 2 ^ 32" by (simp add: zmod_int mod_mod_cancel)
  ultimately show ?thesis unfolding v by (metis int_wrap of_nat_eq_iff)
qed

lemma IMUL32_correct:
  fixes a b :: IU32
  defines "p \<equiv> sval32 a * sval32 b"
  shows "val64 (GET_EDX (snd (IMUL32 a b s))) (fst (IMUL32 a b s)) = wrap 64 p"
    and "GET_CF (snd (IMUL32 a b s)) = of_bool (\<not> sfits 32 p)" "GET_OF (snd (IMUL32 a b s)) = of_bool (\<not> sfits 32 p)"
    and "unat (fst (IMUL32T a b s)) = wrap 32 p"
    and "GET_CF (snd (IMUL32T a b s)) = of_bool (\<not> sfits 32 p)" "GET_OF (snd (IMUL32T a b s)) = of_bool (\<not> sfits 32 p)"
proof -
  obtain h l where m: "mul64 a b = (h, l)" by (cases "mul64 a b")
  have "\<bar>p\<bar> \<le> 2 ^ 31 * 2 ^ 31" unfolding p_def by (intro mult_abs_le sval32_abs_le)
  then have fit: "(h = 0 \<and> \<not> bit l 31 \<or> h = 0xffffffff \<and> bit l 31) = sfits 32 p"
    using mul64_val [OF m, folded p_def] by (intro fit32) simp_all
  show "val64 (GET_EDX (snd (IMUL32 a b s))) (fst (IMUL32 a b s)) = wrap 64 p"
    using mul64_val [OF m, folded p_def] by (simp add: IMUL32_def m Let_def)
  show "unat (fst (IMUL32T a b s)) = wrap 32 p"
    using val64_low [OF mul64_val [OF m, folded p_def]] by (simp add: IMUL32T_def m Let_def)
  show "GET_CF (snd (IMUL32 a b s)) = of_bool (\<not> sfits 32 p)" "GET_OF (snd (IMUL32 a b s)) = of_bool (\<not> sfits 32 p)"
    unfolding IMUL32_def m Let_def prod.case and_bit31 fit by simp_all
  show "GET_CF (snd (IMUL32T a b s)) = of_bool (\<not> sfits 32 p)" "GET_OF (snd (IMUL32T a b s)) = of_bool (\<not> sfits 32 p)"
    unfolding IMUL32T_def m Let_def prod.case and_bit31 fit by simp_all
qed


lemma MUL8_correct:
  assumes "unat a < 2 ^ 8" "unat b < 2 ^ 8"
  shows "unat (GET_AH (snd (MUL8 a b s))) * 2 ^ 8 + unat (fst (MUL8 a b s)) mod 2 ^ 8 = unat a * unat b"
    and "GET_CF (snd (MUL8 a b s)) = of_bool (2 ^ 8 \<le> unat a * unat b)"
    and "GET_OF (snd (MUL8 a b s)) = of_bool (2 ^ 8 \<le> unat a * unat b)"
proof -
  have lt: "unat a * unat b < 2 ^ 8 * 2 ^ 8" using assms by (intro mult_strict_mono) simp_all
  then have r: "unat (a * b) = unat a * unat b" by (simp add: unat_word_ariths)
  have top: "(drop_bit 8 (a * b) AND 0xff = 0) = (\<not> 2 ^ 8 \<le> unat a * unat b)"
  proof -
    have "unat (drop_bit 8 (a * b) AND 0xff) = unat a * unat b div 2 ^ 8"
      unfolding field_masks(1) unat_and_mask using lt by (simp add: drop_bit_eq_div unat_div r less_mult_imp_div_less)
    then show ?thesis by (metis div_eq_0_iff not_le unat_eq_zero zero_neq_numeral power_eq_0_iff)
  qed
  have "GET_AH (snd (MUL8 a b s)) = ucast (drop_bit 8 (a * b) AND 0xff)" "fst (MUL8 a b s) = a * b"
    by (simp_all add: MUL8_def Let_def BR.get_put del: drop_bit_and)
  then show "unat (GET_AH (snd (MUL8 a b s))) * 2 ^ 8 + unat (fst (MUL8 a b s)) mod 2 ^ 8 = unat a * unat b"
    using halves_8 [of "a * b"] lt by (simp only: r) simp
  show "GET_CF (snd (MUL8 a b s)) = of_bool (2 ^ 8 \<le> unat a * unat b)"
    "GET_OF (snd (MUL8 a b s)) = of_bool (2 ^ 8 \<le> unat a * unat b)"
    unfolding MUL8_def Let_def top by simp_all
qed

lemma MUL16_correct:
  assumes "unat a < 2 ^ 16" "unat b < 2 ^ 16"
  shows "unat (GET_DX (snd (MUL16 a b s))) * 2 ^ 16 + unat (fst (MUL16 a b s)) mod 2 ^ 16 = unat a * unat b"
    and "GET_CF (snd (MUL16 a b s)) = of_bool (2 ^ 16 \<le> unat a * unat b)"
    and "GET_OF (snd (MUL16 a b s)) = of_bool (2 ^ 16 \<le> unat a * unat b)"
proof -
  have lt: "unat a * unat b < 2 ^ 16 * 2 ^ 16" using assms by (intro mult_strict_mono) simp_all
  have r: "unat (a * b) = unat a * unat b" by (rule unat_mult16 [OF assms])
  have top: "(drop_bit 16 (a * b) AND 0xffff = 0) = (\<not> 2 ^ 16 \<le> unat a * unat b)"
  proof -
    have "unat (drop_bit 16 (a * b) AND 0xffff) = unat a * unat b div 2 ^ 16"
      unfolding field_masks(2) unat_and_mask using lt by (simp add: drop_bit_eq_div unat_div r less_mult_imp_div_less)
    then show ?thesis by (metis div_eq_0_iff not_le unat_eq_zero zero_neq_numeral power_eq_0_iff)
  qed
  have "GET_DX (snd (MUL16 a b s)) = ucast (drop_bit 16 (a * b) AND 0xffff)" "fst (MUL16 a b s) = a * b"
    by (simp_all add: MUL16_def Let_def WR.get_put del: drop_bit_and)
  then show "unat (GET_DX (snd (MUL16 a b s))) * 2 ^ 16 + unat (fst (MUL16 a b s)) mod 2 ^ 16 = unat a * unat b"
    using halves_16 [of "a * b"] lt by (simp only: r) simp
  show "GET_CF (snd (MUL16 a b s)) = of_bool (2 ^ 16 \<le> unat a * unat b)"
    "GET_OF (snd (MUL16 a b s)) = of_bool (2 ^ 16 \<le> unat a * unat b)"
    unfolding MUL16_def Let_def top by simp_all
qed

lemma val64_high: "(h \<noteq> 0) = (2 ^ 32 \<le> val64 h l)"
proof -
  have "(h \<noteq> 0) = (1 \<le> unat h)" by (simp add: unat_gt_0 Suc_le_eq)
  then show ?thesis using unat_32_less [of l] by (cases "unat h") (auto simp: val64_def)
qed

lemma MUL32_correct:
  "val64 (GET_EDX (snd (MUL32 a b s))) (fst (MUL32 a b s)) = unat a * unat b"
  "GET_CF (snd (MUL32 a b s)) = of_bool (2 ^ 32 \<le> unat a * unat b)"
  "GET_OF (snd (MUL32 a b s)) = of_bool (2 ^ 32 \<le> unat a * unat b)"
proof -
  obtain h l where m: "mulu64 a b = (h, l)" by (cases "mulu64 a b")
  show "val64 (GET_EDX (snd (MUL32 a b s))) (fst (MUL32 a b s)) = unat a * unat b"
    using mulu64_val [OF m] by (auto simp: MUL32_def m Let_def)
  show "GET_CF (snd (MUL32 a b s)) = of_bool (2 ^ 32 \<le> unat a * unat b)"
    "GET_OF (snd (MUL32 a b s)) = of_bool (2 ^ 32 \<le> unat a * unat b)"
    unfolding MUL32_def m Let_def prod.case val64_high [of h l] mulu64_val [OF m] by simp_all
qed


section \<open>Quotients\<close>

text \<open>
  What a divide promises: the exception for a zero divisor and for a quotient that needs more than
  \<open>n\<close> bits, otherwise the quotient and the remainder in the two registers \<open>Q\<close> and \<open>R\<close>.
\<close>

definition div_spec :: "nat \<Rightarrow> nat \<Rightarrow> nat \<Rightarrow> (ccpu \<Rightarrow> nat) \<Rightarrow> (ccpu \<Rightarrow> nat) \<Rightarrow> ccpu_exn + ccpu \<Rightarrow> bool" where
  "div_spec n D d Q R r =
     (if d = 0 \<or> 2 ^ n \<le> D div d then r = Inl Int0
      else case r of Inl e \<Rightarrow> False | Inr s' \<Rightarrow> Q s' = D div d \<and> R s' = D mod d)"

definition idiv_spec :: "nat \<Rightarrow> int \<Rightarrow> int \<Rightarrow> (ccpu \<Rightarrow> nat) \<Rightarrow> (ccpu \<Rightarrow> nat) \<Rightarrow> ccpu_exn + ccpu \<Rightarrow> bool" where
  "idiv_spec n D d Q R r =
     (if d = 0 \<or> \<not> sfits n (D sdiv d) then r = Inl Int0
      else case r of Inl e \<Rightarrow> False | Inr s' \<Rightarrow> Q s' = wrap n (D sdiv d) \<and> R s' = wrap n (D smod d))"

lemma word_len32: "LENGTH(32) = 32"
  by simp

lemma high_test:
  fixes r :: IU32
  assumes km: "k + m \<le> 32" and r: "unat r < 2 ^ (k + m)"
  shows "(r AND push_bit k (mask m) \<noteq> 0) = (2 ^ k \<le> unat r)"
proof -
  have d: "unat (drop_bit k r) = unat r div 2 ^ k"
    using unsigned_drop_bit_eq [of k r, where ?'a = nat] unat_32_less [of r]
    by (simp only: drop_bit_eq_div take_bit_eq_mod word_len32 mod_less)
  have "(r AND push_bit k (mask m) = 0) = (take_bit m (drop_bit k r) = 0)"
    unfolding and_field [OF km] using field_eq [OF km, of "drop_bit k r" 0] by simp
  also have "\<dots> = (unat (take_bit m (drop_bit k r)) = 0)" by (simp only: unat_eq_zero)
  also have "unat (take_bit m (drop_bit k r)) = unat r div 2 ^ k mod 2 ^ m"
    by (simp only: unsigned_take_bit_eq d) (simp only: take_bit_eq_mod)
  also have "\<dots> = unat r div 2 ^ k"
    using r by (simp add: power_add less_mult_imp_div_less mult.commute)
  finally show ?thesis by (simp add: div_eq_0_iff not_less)
qed

lemma sval_eq_0: "0 < n \<Longrightarrow> x < 2 ^ n \<Longrightarrow> (sval n x = 0) = (x = 0)"
proof -
  assume "0 < n" "x < 2 ^ n"
  then have "int x < 2 ^ n" by (metis of_nat_less_iff of_nat_numeral of_nat_power)
  then show ?thesis by (cases "x = 0") (simp_all add: sval_def)
qed

lemma sint_sval32: "sint (a :: IU32) = sval32 a"
  using sval_signed [of 32 "unat a"] unat_32_less [of a] by (simp add: sint_uint)

lemma sint_small: "- (2 ^ 31) \<le> v \<Longrightarrow> v < 2 ^ 31 \<Longrightarrow> sint (word_of_int v :: IU32) = v"
  by (simp add: sint_uint uint_word_of_int_eq signed_take_bit_take_bit signed_take_bit_int_eq_self)

lemma sdiv_abs_le: "\<bar>x sdiv y\<bar> \<le> \<bar>x\<bar>" for x y :: int
proof -
  have "\<bar>x\<bar> div \<bar>y\<bar> \<le> \<bar>x\<bar>" "0 \<le> \<bar>x\<bar> div \<bar>y\<bar>"
    using zdiv_mono2 [of "\<bar>x\<bar>" 1 "\<bar>y\<bar>"] pos_imp_zdiv_nonneg_iff [of "\<bar>y\<bar>" "\<bar>x\<bar>"]
    by (cases "y = 0"; simp)+
  then show ?thesis unfolding sdiv_sign by simp
qed

lemma DIV32_correct:
  "div_spec 32 (val64 (GET_EDX s) (GET_EAX s)) (unat d) (\<lambda>s. unat (GET_EAX s)) (\<lambda>s. unat (GET_EDX s)) (DIV32 d s)"
proof (cases "d = 0")
  case False
  obtain h l r where m: "divu64 (GET_EDX s) (GET_EAX s) d = (h, l, r)"
    by (cases "divu64 (GET_EDX s) (GET_EAX s) d")
  note dv = divu64_val [OF m False]
  show ?thesis
  proof (cases "h = 0")
    case True
    have "val64 h l = unat l" using True by (simp add: val64_def)
    then have "\<not> 2 ^ 32 \<le> val64 (GET_EDX s) (GET_EAX s) div unat d" using dv(1) unat_32_less [of l] by simp
    then show ?thesis using False dv True \<open>val64 h l = unat l\<close> by (simp add: div_spec_def DIV32_def m unat_eq_0)
  next
    case h: False
    then have "2 ^ 32 \<le> val64 (GET_EDX s) (GET_EAX s) div unat d" using dv(1) val64_high [of h l] by simp
    then show ?thesis using False h by (simp add: div_spec_def DIV32_def m)
  qed
qed (simp add: div_spec_def DIV32_def)

lemma IDIV32_correct:
  "idiv_spec 32 (sval 64 (val64 (GET_EDX s) (GET_EAX s))) (sval32 d) (\<lambda>s. unat (GET_EAX s)) (\<lambda>s. unat (GET_EDX s)) (IDIV32 d s)"
proof (cases "d = 0")
  case False
  let ?D = "sval 64 (val64 (GET_EDX s) (GET_EAX s))"
  obtain h l r where m: "div64 (GET_EDX s) (GET_EAX s) d = (h, l, r)"
    by (cases "div64 (GET_EDX s) (GET_EAX s) d")
  note dv = div64_val [OF m False]
  have "\<bar>?D\<bar> \<le> 2 ^ 63" using sval_abs [of 64, OF _ val64_less] by simp
  then have "\<bar>?D sdiv sval32 d\<bar> \<le> 2 ^ 63" by (rule order_trans [OF sdiv_abs_le])
  then have fit: "(h = 0 \<and> \<not> bit l 31 \<or> h = 0xffffffff \<and> bit l 31) = sfits 32 (?D sdiv sval32 d)"
    by (intro fit32 dv(1)) simp_all
  have nz: "sval32 d \<noteq> 0" using False by (simp add: sval_eq_0 unat_eq_zero unat_32_less [simplified])
  have l: "unat l = wrap 32 (?D sdiv sval32 d)" by (rule val64_low [OF dv(1)])
  have b: "(l AND 0x80000000 = 0) = (\<not> bit l 31)" using and_bit31(1) by blast
  show ?thesis unfolding idiv_spec_def IDIV32_def m Let_def prod.case and_bit31 b fit
    using False nz l dv(2) by auto
qed (simp add: idiv_spec_def IDIV32_def sval_def)


lemma unat_16_less: "unat (x :: IU16) < 2 ^ 16"
  using unsigned_less [of x, where ?'a = nat] by simp

lemma unat_ucast_up: "unat (ucast (x :: IU16) :: IU32) = unat x"
  using unat_16_less [of x] by (simp add: unsigned_ucast_eq take_bit_nat_eq_self_iff)

lemma word_pair: "unat (push_bit 16 (ucast (x :: IU16)) OR ucast (y :: IU16) :: IU32) = unat x * 2 ^ 16 + unat y"
proof -
  have "push_bit 16 (ucast x) OR ucast y = push_bit 16 (ucast x) + (ucast y :: IU32)"
    by (rule disjunctive_add_eq_or [symmetric]) (rule bit_word_eqI, auto simp: bit_simps dest: bit_imp_le_length)
  moreover have "unat (ucast x * 2 ^ 16 + ucast y :: IU32) = unat x * 2 ^ 16 + unat y"
    using unat_16_less [of x] unat_16_less [of y] by (simp add: unat_word_ariths unat_ucast_up)
  ultimately show ?thesis by (simp add: push_bit_eq_mult)
qed

lemma DIV8_correct:
  assumes "unat d < 2 ^ 8"
  shows "div_spec 8 (unat (GET_AX s)) (unat d) (\<lambda>s. unat (GET_AL s)) (\<lambda>s. unat (GET_AH s)) (DIV8 d s)"
proof (cases "d = 0")
  case False
  define q where "q = ucast (GET_AX s) div d"
  have q: "unat q = unat (GET_AX s) div unat d" by (simp only: q_def unat_div unat_ucast_up)
  have "unat q \<le> unat (GET_AX s)" unfolding q by simp
  then have "unat q < 2 ^ (8 + 8)" using unat_16_less [of "GET_AX s"] by simp
  from high_test [OF _ this] have t: "(q AND 0xff00 \<noteq> 0) = (2 ^ 8 \<le> unat q)" by (simp add: mask_eq_exp_minus_1)
  have r: "unat (ucast (GET_AX s) mod d) = unat (GET_AX s) mod unat d" by (simp only: unat_mod unat_ucast_up)
  have "0 < unat d" using False by (simp add: unat_gt_0)
  then have "unat (GET_AX s) mod unat d < 2 ^ 8" using assms mod_less_divisor [of "unat d" "unat (GET_AX s)"] by linarith
  then show ?thesis
    using False q r \<open>0 < unat d\<close> unfolding div_spec_def DIV8_def Let_def q_def [symmetric] t
    by (simp add: unat_ucast_byte BR.get_put BR.get_put_other)
qed (simp add: div_spec_def DIV8_def)

lemma DIV16_correct:
  assumes "unat d < 2 ^ 16"
  shows "div_spec 16 (unat (GET_DX s) * 2 ^ 16 + unat (GET_AX s)) (unat d) (\<lambda>s. unat (GET_AX s)) (\<lambda>s. unat (GET_DX s)) (DIV16 d s)"
proof (cases "d = 0")
  case False
  let ?D = "unat (GET_DX s) * 2 ^ 16 + unat (GET_AX s)"
  define D where "D = (push_bit 16 (ucast (GET_DX s)) OR ucast (GET_AX s) :: IU32)"
  have D: "unat D = ?D" unfolding D_def by (rule word_pair)
  define q where "q = D div d"
  have q: "unat q = ?D div unat d" by (simp only: q_def unat_div D)
  have t: "(q AND 0xffff0000 \<noteq> 0) = (2 ^ 16 \<le> unat q)"
    using high_test [of 16 16 q] unat_32_less [of q] by (simp add: mask_eq_exp_minus_1)
  have r: "unat (D mod d) = ?D mod unat d" by (simp only: unat_mod D)
  have "0 < unat d" using False by (simp add: unat_gt_0)
  then have "?D mod unat d < 2 ^ 16" using assms mod_less_divisor [of "unat d" ?D] by linarith
  then show ?thesis
    using False q r \<open>0 < unat d\<close> unfolding div_spec_def DIV16_def Let_def D_def [symmetric] q_def [symmetric] t
    by (simp add: unat_ucast_half WR.get_put WR.get_put_other)
qed (simp add: div_spec_def DIV16_def)


lemma smod_abs_less: "y \<noteq> 0 \<Longrightarrow> \<bar>x smod y\<bar> < \<bar>y\<bar>" for x y :: int
  unfolding smod_sign using pos_mod_bound [of "\<bar>y\<bar>" "\<bar>x\<bar>"] pos_mod_sign [of "\<bar>y\<bar>" "\<bar>x\<bar>"] by simp

lemma IDIV8_correct:
  assumes "unat d < 2 ^ 8"
  shows "idiv_spec 8 (sval 16 (unat (GET_AX s))) (sval 8 (unat d)) (\<lambda>s. unat (GET_AL s)) (\<lambda>s. unat (GET_AH s)) (IDIV8 d s)"
proof (cases "d = 0")
  case False
  let ?D = "sval 16 (unat (GET_AX s))" and ?d = "sval 8 (unat d)"
  have D: "\<bar>?D\<bar> \<le> 2 ^ 15" using sval_abs [of 16, OF _ unat_16_less] by simp
  have d: "\<bar>?d\<bar> \<le> 2 ^ 7" "?d \<noteq> 0"
    using sval_abs [of 8, OF _ assms] sval_eq_0 [of 8, OF _ assms] False by (simp_all add: unat_eq_zero)
  have w: "unat (ucast (GET_AX s) :: IU32) < 2 ^ 16" unfolding unat_ucast_up by (rule unat_16_less)
  have h: "host_sdiv (word_of_int ?D) (word_of_int ?d) = Some (word_of_int (?D sdiv ?d), word_of_int (?D smod ?d))"
  proof -
    have "sint (word_of_int ?D :: IU32) = ?D" "sint (word_of_int ?d :: IU32) = ?d"
      using D d(1) by (intro sint_small; simp)+
    moreover have "?D \<noteq> - (2 ^ 31)" using D by auto
    ultimately show ?thesis by (simp only: host_sdiv_def) simp
  qed
  have "\<bar>?D sdiv ?d\<bar> \<le> 2 ^ 15" by (rule order_trans [OF sdiv_abs_le D])
  then have fit: "((word_of_int (?D sdiv ?d) :: IU32) AND 0xff80 = 0 \<or> word_of_int (?D sdiv ?d) AND 0xff80 = (0xff80 :: IU32)) = sfits 8 (?D sdiv ?d)"
    by (intro fit8) simp_all
  show ?thesis
    using False d(2) unat_wrap [of 8 "?D sdiv ?d"] unat_wrap [of 8 "?D smod ?d"]
    unfolding idiv_spec_def IDIV8_def Let_def sext16 [OF w] sext8 [OF assms] unat_ucast_up h option.case prod.case fit
    by (simp add: unat_ucast_byte BR.get_put BR.get_put_other)
qed (simp add: idiv_spec_def IDIV8_def sval_def)

lemma IDIV16_correct:
  fixes s :: ccpu
  assumes "unat d < 2 ^ 16"
  defines "D \<equiv> sval 32 (unat (GET_DX s) * 2 ^ 16 + unat (GET_AX s))"
  shows "D = - (2 ^ 31) \<and> sval 16 (unat d) = - 1 \<Longrightarrow> IDIV16 d s = Inl HostOverflow"
    and "\<not> (D = - (2 ^ 31) \<and> sval 16 (unat d) = - 1) \<Longrightarrow>
      idiv_spec 16 D (sval 16 (unat d)) (\<lambda>s. unat (GET_AX s)) (\<lambda>s. unat (GET_DX s)) (IDIV16 d s)"
proof -
  let ?d = "sval 16 (unat d)"
  define w where "w = (push_bit 16 (ucast (GET_DX s)) OR ucast (GET_AX s) :: IU32)"
  have w: "sint w = D" unfolding sint_sval32 w_def word_pair D_def ..
  have d: "\<bar>?d\<bar> \<le> 2 ^ 15" "(?d = 0) = (d = 0)"
    using sval_abs [of 16, OF _ assms(1)] sval_eq_0 [of 16, OF _ assms(1)] by (simp_all add: unat_eq_zero)
  have sd: "sint (word_of_int ?d :: IU32) = ?d" using d(1) by (intro sint_small) simp_all
  have D: "\<bar>D\<bar> \<le> 2 ^ 31" unfolding w [symmetric] sint_sval32 by (rule sval32_abs_le)
  have h: "host_sdiv w (word_of_int ?d) =
      (if D = - (2 ^ 31) \<and> ?d = - 1 then None else Some (word_of_int (D sdiv ?d), word_of_int (D smod ?d)))"
    unfolding host_sdiv_def sd w ..
  note idiv = IDIV16_def [of d s, unfolded Let_def sext16 [OF assms(1)], folded w_def, unfolded h]
  show "D = - (2 ^ 31) \<and> ?d = - 1 \<Longrightarrow> IDIV16 d s = Inl HostOverflow"
    using d(2) by (simp add: idiv)
  assume ok: "\<not> (D = - (2 ^ 31) \<and> ?d = - 1)"
  have "\<bar>D sdiv ?d\<bar> \<le> 2 ^ 31" by (rule order_trans [OF sdiv_abs_le D])
  then have fit: "((word_of_int (D sdiv ?d) :: IU32) AND 0xffff8000 = 0 \<or> word_of_int (D sdiv ?d) AND 0xffff8000 = (0xffff8000 :: IU32)) = sfits 16 (D sdiv ?d)"
    by (intro fit16) simp_all
  show "idiv_spec 16 D ?d (\<lambda>s. unat (GET_AX s)) (\<lambda>s. unat (GET_DX s)) (IDIV16 d s)"
    using d(2) unat_wrap [of 16 "D sdiv ?d"] unat_wrap [of 16 "D smod ?d"]
    unfolding idiv_spec_def idiv if_not_P [OF ok] option.case prod.case fit
    by (simp add: unat_ucast_half WR.get_put WR.get_put_other)
qed


section \<open>Properties\<close>

text \<open>
  C32. \<open>MUL\<close>: for byte, word and double word operands the accumulator pair (\<open>AH:AL\<close>, \<open>DX:AX\<close>, \<open>EDX:EAX\<close>)
  receives the full product, and \<open>CF\<close> and \<open>OF\<close> are set exactly when the product does not fit in the
  low half; the double word case goes through the four partial products of \<open>mulu64\<close>.
\<close>

theorem mul_correct:
  "(unat a < 2 ^ 8 \<and> unat b < 2 ^ 8 \<longrightarrow>
      unat (GET_AH (snd (MUL8 a b s))) * 2 ^ 8 + unat (fst (MUL8 a b s)) mod 2 ^ 8 = unat a * unat b \<and>
      GET_CF (snd (MUL8 a b s)) = of_bool (2 ^ 8 \<le> unat a * unat b) \<and>
      GET_OF (snd (MUL8 a b s)) = of_bool (2 ^ 8 \<le> unat a * unat b)) \<and>
   (unat a < 2 ^ 16 \<and> unat b < 2 ^ 16 \<longrightarrow>
      unat (GET_DX (snd (MUL16 a b s))) * 2 ^ 16 + unat (fst (MUL16 a b s)) mod 2 ^ 16 = unat a * unat b \<and>
      GET_CF (snd (MUL16 a b s)) = of_bool (2 ^ 16 \<le> unat a * unat b) \<and>
      GET_OF (snd (MUL16 a b s)) = of_bool (2 ^ 16 \<le> unat a * unat b)) \<and>
   (val64 (GET_EDX (snd (MUL32 a b s))) (fst (MUL32 a b s)) = unat a * unat b \<and>
      GET_CF (snd (MUL32 a b s)) = of_bool (2 ^ 32 \<le> unat a * unat b) \<and>
      GET_OF (snd (MUL32 a b s)) = of_bool (2 ^ 32 \<le> unat a * unat b))"
  using MUL8_correct MUL16_correct MUL32_correct by simp_all

theorem mul_correct_witness:
  "unat (GET_AH (snd (MUL8 200 3 ccpu0))) * 256 + unat (fst (MUL8 200 3 ccpu0)) mod 256 = 600 \<and>
   GET_CF (snd (MUL8 200 3 ccpu0)) = 1 \<and>
   unat (GET_DX (snd (MUL16 0x1234 0x100 ccpu0))) = 0x12 \<and>
   val64 (GET_EDX (snd (MUL32 0xffffffff 0xffffffff ccpu0))) (fst (MUL32 0xffffffff 0xffffffff ccpu0)) = 0xfffffffe00000001"
proof -
  have "unat (GET_AH (snd (MUL8 200 3 ccpu0))) * 256 + unat (fst (MUL8 200 3 ccpu0)) mod 256 = 600"
    "GET_CF (snd (MUL8 200 3 ccpu0)) = 1"
    using mul_correct [of 200 3 ccpu0, THEN conjunct1] by simp_all
  moreover have "unat (GET_DX (snd (MUL16 0x1234 0x100 ccpu0))) = 0x12"
    using mul_correct [of "0x1234" "0x100" ccpu0, THEN conjunct2, THEN conjunct1] by (simp add: MUL16_def WR.get_put)
  moreover have "val64 (GET_EDX (snd (MUL32 0xffffffff 0xffffffff ccpu0))) (fst (MUL32 0xffffffff 0xffffffff ccpu0)) = 0xfffffffe00000001"
    using mul_correct [of "0xffffffff" "0xffffffff" ccpu0, THEN conjunct2, THEN conjunct2] by simp
  ultimately show ?thesis by blast
qed

text \<open>
  C33. \<open>IMUL\<close>: the accumulator pair receives the two's complement of the signed product, the two- and
  three-operand forms keep its low half, and in every form \<open>CF\<close> and \<open>OF\<close> are both set exactly when the signed
  product does not fit in one operand.
\<close>

theorem imul_correct:
  "(unat a < 2 ^ 8 \<and> unat b < 2 ^ 8 \<and> p = sval 8 (unat a) * sval 8 (unat b) \<longrightarrow>
      unat (GET_AH (snd (IMUL8 a b s))) * 2 ^ 8 + unat (fst (IMUL8 a b s)) mod 2 ^ 8 = wrap 16 p \<and>
      GET_CF (snd (IMUL8 a b s)) = of_bool (\<not> sfits 8 p) \<and> GET_OF (snd (IMUL8 a b s)) = of_bool (\<not> sfits 8 p)) \<and>
   (unat a < 2 ^ 16 \<and> unat b < 2 ^ 16 \<and> p = sval 16 (unat a) * sval 16 (unat b) \<longrightarrow>
      unat (GET_DX (snd (IMUL16 a b s))) * 2 ^ 16 + unat (fst (IMUL16 a b s)) mod 2 ^ 16 = wrap 32 p \<and>
      GET_CF (snd (IMUL16 a b s)) = of_bool (\<not> sfits 16 p) \<and> GET_OF (snd (IMUL16 a b s)) = of_bool (\<not> sfits 16 p) \<and>
      unat (fst (IMUL16T a b s)) mod 2 ^ 16 = wrap 16 p \<and>
      GET_CF (snd (IMUL16T a b s)) = of_bool (\<not> sfits 16 p) \<and> GET_OF (snd (IMUL16T a b s)) = of_bool (\<not> sfits 16 p)) \<and>
   (p = sval 32 (unat a) * sval 32 (unat b) \<longrightarrow>
      val64 (GET_EDX (snd (IMUL32 a b s))) (fst (IMUL32 a b s)) = wrap 64 p \<and>
      GET_CF (snd (IMUL32 a b s)) = of_bool (\<not> sfits 32 p) \<and> GET_OF (snd (IMUL32 a b s)) = of_bool (\<not> sfits 32 p) \<and>
      unat (fst (IMUL32T a b s)) = wrap 32 p \<and>
      GET_CF (snd (IMUL32T a b s)) = of_bool (\<not> sfits 32 p) \<and> GET_OF (snd (IMUL32T a b s)) = of_bool (\<not> sfits 32 p))"
  using IMUL8_correct [of a b s] IMUL16_correct [of a b s] IMUL32_correct [where a = a and b = b and s = s]
  by simp_all

theorem imul_correct_witness:
  "unat (GET_AH (snd (IMUL8 0xff 2 ccpu0))) * 256 + unat (fst (IMUL8 0xff 2 ccpu0)) mod 256 = 0xfffe \<and>
   GET_CF (snd (IMUL8 0xff 2 ccpu0)) = 0 \<and>
   GET_CF (snd (IMUL16T 0x4000 2 ccpu0)) = 1 \<and> GET_OF (snd (IMUL16T 0x4000 2 ccpu0)) = 1 \<and>
   val64 (GET_EDX (snd (IMUL32 0xffffffff 3 ccpu0))) (fst (IMUL32 0xffffffff 3 ccpu0)) = 2 ^ 64 - 3"
proof -
  have "unat (GET_AH (snd (IMUL8 0xff 2 ccpu0))) * 256 + unat (fst (IMUL8 0xff 2 ccpu0)) mod 256 = 0xfffe"
    "GET_CF (snd (IMUL8 0xff 2 ccpu0)) = 0"
    using imul_correct [of "0xff" 2 "- 2" ccpu0, THEN conjunct1] by (simp_all add: sval_def sfits_def wrap_def)
  moreover have "GET_CF (snd (IMUL16T 0x4000 2 ccpu0)) = 1" "GET_OF (snd (IMUL16T 0x4000 2 ccpu0)) = 1"
    using imul_correct [of "0x4000" 2 "0x8000" ccpu0, THEN conjunct2, THEN conjunct1] by (simp_all add: sval_def sfits_def)
  moreover have "val64 (GET_EDX (snd (IMUL32 0xffffffff 3 ccpu0))) (fst (IMUL32 0xffffffff 3 ccpu0)) = 2 ^ 64 - 3"
    using imul_correct [of "0xffffffff" 3 "- 3" ccpu0, THEN conjunct2, THEN conjunct2] by (simp add: sval_def wrap_def)
  ultimately show ?thesis by blast
qed

text \<open>
  C34. \<open>DIV\<close>: a zero divisor and a quotient too big for the operand raise \<open>Int0\<close>, and nothing else does;
  otherwise quotient and remainder of the accumulator pair are left in its low and high register.
  The double word case is the 64-round shift-and-subtract loop of \<open>divu64\<close>.
\<close>

theorem div_correct:
  "(unat d < 2 ^ 8 \<longrightarrow>
      div_spec 8 (unat (GET_AX s)) (unat d) (\<lambda>s. unat (GET_AL s)) (\<lambda>s. unat (GET_AH s)) (DIV8 d s)) \<and>
   (unat d < 2 ^ 16 \<longrightarrow>
      div_spec 16 (unat (GET_DX s) * 2 ^ 16 + unat (GET_AX s)) (unat d) (\<lambda>s. unat (GET_AX s)) (\<lambda>s. unat (GET_DX s)) (DIV16 d s)) \<and>
   (div_spec 32 (val64 (GET_EDX s) (GET_EAX s)) (unat d) (\<lambda>s. unat (GET_EAX s)) (\<lambda>s. unat (GET_EDX s)) (DIV32 d s))"
  using DIV8_correct DIV16_correct DIV32_correct by blast

theorem div_correct_witness:
  "(case DIV8 7 (SET_AX 1000 ccpu0) of Inl e \<Rightarrow> False | Inr s \<Rightarrow> unat (GET_AL s) = 142 \<and> unat (GET_AH s) = 6) \<and>
   DIV8 3 (SET_AX 1000 ccpu0) = Inl Int0 \<and>
   DIV16 0 ccpu0 = Inl Int0 \<and>
   DIV32 2 (SET_EDX 2 ccpu0) = Inl Int0"
proof -
  have "case DIV8 7 (SET_AX 1000 ccpu0) of Inl e \<Rightarrow> False | Inr s \<Rightarrow> unat (GET_AL s) = 142 \<and> unat (GET_AH s) = 6"
    "DIV8 3 (SET_AX 1000 ccpu0) = Inl Int0"
    using div_correct [of 7 "SET_AX 1000 ccpu0", THEN conjunct1] div_correct [of 3 "SET_AX 1000 ccpu0", THEN conjunct1]
    by (simp_all add: div_spec_def WR.get_put split: sum.splits)
  moreover have "DIV16 0 ccpu0 = Inl Int0"
    using div_correct [of 0 ccpu0, THEN conjunct2, THEN conjunct1] by (simp add: div_spec_def)
  moreover have "DIV32 2 (SET_EDX 2 ccpu0) = Inl Int0"
    using div_correct [of 2 "SET_EDX 2 ccpu0", THEN conjunct2, THEN conjunct2] by (simp add: div_spec_def val64_def GR.get_put GR.get_put_other ccpu0_def)
  ultimately show ?thesis by blast
qed

text \<open>
  C35. \<open>IDIV\<close>: signed division truncates towards zero, the remainder has the sign of the dividend, and
  \<open>Int0\<close> is raised exactly for a zero divisor or a quotient that does not fit. The word form has one
  input outside that contract: the dividend \<open>-2^31\<close> over \<open>-1\<close> overflows the host's own 32-bit division
  before the range test is reached.
\<close>

theorem idiv_correct:
  "(unat d < 2 ^ 8 \<longrightarrow>
      idiv_spec 8 (sval 16 (unat (GET_AX s))) (sval 8 (unat d)) (\<lambda>s. unat (GET_AL s)) (\<lambda>s. unat (GET_AH s)) (IDIV8 d s)) \<and>
   (unat d < 2 ^ 16 \<and> D = sval 32 (unat (GET_DX s) * 2 ^ 16 + unat (GET_AX s)) \<longrightarrow>
      (if D = - (2 ^ 31) \<and> sval 16 (unat d) = - 1 then IDIV16 d s = Inl HostOverflow
       else idiv_spec 16 D (sval 16 (unat d)) (\<lambda>s. unat (GET_AX s)) (\<lambda>s. unat (GET_DX s)) (IDIV16 d s))) \<and>
   (idiv_spec 32 (sval 64 (val64 (GET_EDX s) (GET_EAX s))) (sval 32 (unat d))
      (\<lambda>s. unat (GET_EAX s)) (\<lambda>s. unat (GET_EDX s)) (IDIV32 d s))"
  using IDIV8_correct [of d s] IDIV16_correct [of d s] IDIV32_correct [of s d] by simp_all

theorem idiv_correct_witness:
  "(case IDIV8 3 (SET_AX 0xfff9 ccpu0) of Inl e \<Rightarrow> False | Inr s \<Rightarrow> unat (GET_AL s) = 0xfe \<and> unat (GET_AH s) = 0xff) \<and>
   IDIV16 0xffff (SET_DX 0x8000 ccpu0) = Inl HostOverflow \<and>
   IDIV32 0xffffffff (SET_EDX 0x80000000 ccpu0) = Inl Int0"
proof -
  have "case IDIV8 3 (SET_AX 0xfff9 ccpu0) of Inl e \<Rightarrow> False | Inr s \<Rightarrow> unat (GET_AL s) = 0xfe \<and> unat (GET_AH s) = 0xff"
    using idiv_correct [of 3 "SET_AX 0xfff9 ccpu0", THEN conjunct1]
    by (simp add: idiv_spec_def WR.get_put sval_def sfits_def sdiv_sign smod_sign split: sum.splits) (simp add: wrap_def)
  moreover have "IDIV16 0xffff (SET_DX 0x8000 ccpu0) = Inl HostOverflow"
    using idiv_correct [of "0xffff" "SET_DX 0x8000 ccpu0" "- (2 ^ 31)", THEN conjunct2, THEN conjunct1]
    by (simp add: WR.get_put WR.get_put_other sval_def) (simp add: GET_WR_def ccpu0_def)
  moreover have "IDIV32 0xffffffff (SET_EDX 0x80000000 ccpu0) = Inl Int0"
    using idiv_correct [of "0xffffffff" "SET_EDX 0x80000000 ccpu0", THEN conjunct2, THEN conjunct2]
    by (simp add: idiv_spec_def val64_def GR.get_put GR.get_put_other ccpu0_def sval_def sfits_def sdiv_sign)
  ultimately show ?thesis by blast
qed

end
