(* ===== verification/Ccpu_Jump.thy ===== *)
theory Ccpu_Jump
  imports Ccpu_Arith
begin

text \<open>
  Relative jumps (\<open>update_relative_ip\<close> of \<open>c_xfer.c\<close>, \<open>jxx.c\<close>, \<open>loopxx.c\<close>, \<open>jcxz.c\<close>, \<open>jmp.c\<close>) and the byte settings on the same
  conditions (\<open>setxx.c\<close>). The note \<open>took_relative_jump\<close> is read by the comparison with another CPU only and left out.
  After a comparison the conditions mean the order of the operands, signed or not.
\<close>

section \<open>Jumps\<close>

definition update_relative_ip :: "IU32 \<Rightarrow> ccpu \<Rightarrow> ccpu" where
  "update_relative_ip rel_offset s =
     (let new_dest = CCPU_IP s + rel_offset;
          new_dest = (if CCPU_MODE s 0 = 0 then new_dest AND 0xffff else new_dest)
      in s\<lparr>CCPU_IP := new_dest\<rparr>)"

definition JMPR :: "IU32 \<Rightarrow> ccpu \<Rightarrow> ccpu" where
  "JMPR rel_offset = update_relative_ip rel_offset"

definition JB :: "IU32 \<Rightarrow> ccpu \<Rightarrow> ccpu" where
  "JB rel_offset s = (if GET_CF s \<noteq> 0 then update_relative_ip rel_offset s else s)"

definition JBE :: "IU32 \<Rightarrow> ccpu \<Rightarrow> ccpu" where
  "JBE rel_offset s = (if GET_CF s \<noteq> 0 \<or> GET_ZF s \<noteq> 0 then update_relative_ip rel_offset s else s)"

definition JL :: "IU32 \<Rightarrow> ccpu \<Rightarrow> ccpu" where
  "JL rel_offset s = (if GET_SF s \<noteq> GET_OF s then update_relative_ip rel_offset s else s)"

definition JLE :: "IU32 \<Rightarrow> ccpu \<Rightarrow> ccpu" where
  "JLE rel_offset s = (if GET_SF s \<noteq> GET_OF s \<or> GET_ZF s \<noteq> 0 then update_relative_ip rel_offset s else s)"

definition JNB :: "IU32 \<Rightarrow> ccpu \<Rightarrow> ccpu" where
  "JNB rel_offset s = (if GET_CF s = 0 then update_relative_ip rel_offset s else s)"

definition JNBE :: "IU32 \<Rightarrow> ccpu \<Rightarrow> ccpu" where
  "JNBE rel_offset s = (if GET_CF s = 0 \<and> GET_ZF s = 0 then update_relative_ip rel_offset s else s)"

definition JNL :: "IU32 \<Rightarrow> ccpu \<Rightarrow> ccpu" where
  "JNL rel_offset s = (if GET_SF s = GET_OF s then update_relative_ip rel_offset s else s)"

definition JNLE :: "IU32 \<Rightarrow> ccpu \<Rightarrow> ccpu" where
  "JNLE rel_offset s = (if GET_SF s = GET_OF s \<and> GET_ZF s = 0 then update_relative_ip rel_offset s else s)"

definition JNO :: "IU32 \<Rightarrow> ccpu \<Rightarrow> ccpu" where
  "JNO rel_offset s = (if GET_OF s = 0 then update_relative_ip rel_offset s else s)"

definition JNP :: "IU32 \<Rightarrow> ccpu \<Rightarrow> ccpu" where
  "JNP rel_offset s = (if GET_PF s = 0 then update_relative_ip rel_offset s else s)"

definition JNS :: "IU32 \<Rightarrow> ccpu \<Rightarrow> ccpu" where
  "JNS rel_offset s = (if GET_SF s = 0 then update_relative_ip rel_offset s else s)"

definition JNZ :: "IU32 \<Rightarrow> ccpu \<Rightarrow> ccpu" where
  "JNZ rel_offset s = (if GET_ZF s = 0 then update_relative_ip rel_offset s else s)"

definition JO :: "IU32 \<Rightarrow> ccpu \<Rightarrow> ccpu" where
  "JO rel_offset s = (if GET_OF s \<noteq> 0 then update_relative_ip rel_offset s else s)"

definition JP :: "IU32 \<Rightarrow> ccpu \<Rightarrow> ccpu" where
  "JP rel_offset s = (if GET_PF s \<noteq> 0 then update_relative_ip rel_offset s else s)"

definition JS :: "IU32 \<Rightarrow> ccpu \<Rightarrow> ccpu" where
  "JS rel_offset s = (if GET_SF s \<noteq> 0 then update_relative_ip rel_offset s else s)"

definition JZ :: "IU32 \<Rightarrow> ccpu \<Rightarrow> ccpu" where
  "JZ rel_offset s = (if GET_ZF s \<noteq> 0 then update_relative_ip rel_offset s else s)"

definition JCXZ :: "IU32 \<Rightarrow> ccpu \<Rightarrow> ccpu" where
  "JCXZ rel_offset s = (if GET_WR 1 s = 0 then update_relative_ip rel_offset s else s)"

definition JECXZ :: "IU32 \<Rightarrow> ccpu \<Rightarrow> ccpu" where
  "JECXZ rel_offset s = (if CCPU_GR s 1 = 0 then update_relative_ip rel_offset s else s)"

section \<open>Loops\<close>

definition LOOP16 :: "IU32 \<Rightarrow> ccpu \<Rightarrow> ccpu" where
  "LOOP16 rel_offset s =
     (let s = SET_WR 1 (GET_WR 1 s - 1) s in if GET_WR 1 s \<noteq> 0 then update_relative_ip rel_offset s else s)"

definition LOOP32 :: "IU32 \<Rightarrow> ccpu \<Rightarrow> ccpu" where
  "LOOP32 rel_offset s =
     (let s = SET_GR 1 (CCPU_GR s 1 - 1) s in if CCPU_GR s 1 \<noteq> 0 then update_relative_ip rel_offset s else s)"

definition LOOPE16 :: "IU32 \<Rightarrow> ccpu \<Rightarrow> ccpu" where
  "LOOPE16 rel_offset s =
     (let s = SET_WR 1 (GET_WR 1 s - 1) s in if GET_WR 1 s \<noteq> 0 \<and> GET_ZF s \<noteq> 0 then update_relative_ip rel_offset s else s)"

definition LOOPE32 :: "IU32 \<Rightarrow> ccpu \<Rightarrow> ccpu" where
  "LOOPE32 rel_offset s =
     (let s = SET_GR 1 (CCPU_GR s 1 - 1) s in if CCPU_GR s 1 \<noteq> 0 \<and> GET_ZF s \<noteq> 0 then update_relative_ip rel_offset s else s)"

definition LOOPNE16 :: "IU32 \<Rightarrow> ccpu \<Rightarrow> ccpu" where
  "LOOPNE16 rel_offset s =
     (let s = SET_WR 1 (GET_WR 1 s - 1) s in if GET_WR 1 s \<noteq> 0 \<and> GET_ZF s = 0 then update_relative_ip rel_offset s else s)"

definition LOOPNE32 :: "IU32 \<Rightarrow> ccpu \<Rightarrow> ccpu" where
  "LOOPNE32 rel_offset s =
     (let s = SET_GR 1 (CCPU_GR s 1 - 1) s in if CCPU_GR s 1 \<noteq> 0 \<and> GET_ZF s = 0 then update_relative_ip rel_offset s else s)"

section \<open>Bytes set on a condition\<close>

definition SETB :: "ccpu \<Rightarrow> IU32" where
  "SETB s = GET_CF s"

definition SETBE :: "ccpu \<Rightarrow> IU32" where
  "SETBE s = of_bool (GET_CF s \<noteq> 0 \<or> GET_ZF s \<noteq> 0)"

definition SETL :: "ccpu \<Rightarrow> IU32" where
  "SETL s = of_bool (GET_SF s \<noteq> GET_OF s)"

definition SETLE :: "ccpu \<Rightarrow> IU32" where
  "SETLE s = of_bool (GET_SF s \<noteq> GET_OF s \<or> GET_ZF s \<noteq> 0)"

definition SETNB :: "ccpu \<Rightarrow> IU32" where
  "SETNB s = of_bool (GET_CF s = 0)"

definition SETNBE :: "ccpu \<Rightarrow> IU32" where
  "SETNBE s = of_bool (GET_CF s = 0 \<and> GET_ZF s = 0)"

definition SETNL :: "ccpu \<Rightarrow> IU32" where
  "SETNL s = of_bool (GET_SF s = GET_OF s)"

definition SETNLE :: "ccpu \<Rightarrow> IU32" where
  "SETNLE s = of_bool (GET_SF s = GET_OF s \<and> GET_ZF s = 0)"

definition SETNO :: "ccpu \<Rightarrow> IU32" where
  "SETNO s = of_bool (GET_OF s = 0)"

definition SETNP :: "ccpu \<Rightarrow> IU32" where
  "SETNP s = of_bool (GET_PF s = 0)"

definition SETNS :: "ccpu \<Rightarrow> IU32" where
  "SETNS s = of_bool (GET_SF s = 0)"

definition SETNZ :: "ccpu \<Rightarrow> IU32" where
  "SETNZ s = of_bool (GET_ZF s = 0)"

definition SETO :: "ccpu \<Rightarrow> IU32" where
  "SETO s = GET_OF s"

definition SETP :: "ccpu \<Rightarrow> IU32" where
  "SETP s = GET_PF s"

definition SETS :: "ccpu \<Rightarrow> IU32" where
  "SETS s = GET_SF s"

definition SETZ :: "ccpu \<Rightarrow> IU32" where
  "SETZ s = GET_ZF s"

section \<open>Branches on a comparison\<close>

lemma difference_zero: "(a :: nat) < m \<Longrightarrow> b < m \<Longrightarrow> (m + a - b) mod m = 0 \<longleftrightarrow> a = b"
  by (cases "b \<le> a") (auto simp: mod_if)

lemma difference_sign:
  assumes "a < 2 * p" "b < (2 * p :: nat)"
  defines "v \<equiv> \<lambda>x. if x < p then int x else int x - 2 * int p"
  shows "(p \<le> (2 * p + a - b) mod (2 * p)) \<noteq> (\<not> (- int p \<le> v a - v b \<and> v a - v b < int p)) \<longleftrightarrow> v a < v b"
proof (cases "b \<le> a")
  case True
  then have "(2 * p + a - b) mod (2 * p) = a - b" using assms by (simp add: mod_if)
  then show ?thesis using True assms by auto
next
  case False
  then have "(2 * p + a - b) mod (2 * p) = 2 * p + a - b" using assms by simp
  then show ?thesis using False assms by auto
qed

lemma sval_halves:
  assumes "op_size n"
  obtains p :: nat where "2 ^ n = 2 * p" "\<And>x. sval n x = (if x < p then int x else int x - 2 * int p)" "\<And>v. sfits n v \<longleftrightarrow> - int p \<le> v \<and> v < int p" "2 ^ (n - 1) = p"
proof -
  obtain p :: nat where p: "2 ^ n = 2 * p" "2 ^ (n - 1) = p" using sz_arith [OF assms] by blast
  have i: "2 ^ n = 2 * int p" "2 ^ (n - 1) = int p" using arg_cong [OF p(1), of int] arg_cong [OF p(2), of int] by simp_all
  show ?thesis by (rule that [of p]) (unfold sval_def sfits_def p i, (rule refl)+)
qed

lemma subber_flags:
  fixes u v :: nat and s :: ccpu
  assumes "op_size n" "u < 2 ^ n" "v < 2 ^ n"
  defines "t \<equiv> snd (subber n u v 0 s)"
  shows "(GET_CF t \<noteq> 0) = (u < v)" "(GET_ZF t \<noteq> 0) = (u = v)" "(GET_SF t \<noteq> GET_OF t) = (sval n u < sval n v)" "u = v \<longleftrightarrow> sval n u = sval n v"
proof -
  obtain p :: nat where p: "2 ^ n = 2 * p" "\<And>x. sval n x = (if x < p then int x else int x - 2 * int p)" "\<And>v. sfits n v \<longleftrightarrow> - int p \<le> v \<and> v < int p" "2 ^ (n - 1) = p"
    using sval_halves [OF assms(1)] by blast
  show "(GET_CF t \<noteq> 0) = (u < v)" "(GET_ZF t \<noteq> 0) = (u = v)"
    unfolding t_def subber_def arith_flags_def using difference_zero [OF assms(2,3)] by simp_all
  show "(GET_SF t \<noteq> GET_OF t) = (sval n u < sval n v)"
    unfolding t_def subber_def arith_flags_def p using difference_sign [of u p v] assms(2,3) unfolding p by (simp cong del: if_weak_cong)
  show "u = v \<longleftrightarrow> sval n u = sval n v" using assms(2,3) unfolding p by auto
qed

text \<open>
  C29. A comparison followed by a conditional jump branches on the order of the operands: \<open>JB\<close>, \<open>JBE\<close> and their negations on the operands as
  unsigned numbers, \<open>JL\<close>, \<open>JLE\<close> and theirs as signed numbers, \<open>JZ\<close> and \<open>JNZ\<close> on equality, at every operand size; a jump not taken
  changes nothing.
\<close>

theorem compare_and_branch:
  fixes a b r :: IU32 and s :: ccpu
  assumes "op_size n" "unat a < 2 ^ n" "unat b < 2 ^ n"
  defines "t \<equiv> CMP a b n s" and "x \<equiv> sval n (unat a)" and "y \<equiv> sval n (unat b)"
  shows "JB r t = (if unat a < unat b then JMPR r t else t) \<and> JBE r t = (if unat a \<le> unat b then JMPR r t else t) \<and>
    JNB r t = (if unat b \<le> unat a then JMPR r t else t) \<and> JNBE r t = (if unat b < unat a then JMPR r t else t) \<and>
    JL r t = (if x < y then JMPR r t else t) \<and> JLE r t = (if x \<le> y then JMPR r t else t) \<and>
    JNL r t = (if y \<le> x then JMPR r t else t) \<and> JNLE r t = (if y < x then JMPR r t else t) \<and>
    JZ r t = (if unat a = unat b then JMPR r t else t) \<and> JNZ r t = (if unat a \<noteq> unat b then JMPR r t else t)"
proof -
  have "t = snd (subber n (unat a) (unat b) 0 s)" using assms by (simp add: CMP_SUB SUB_subber)
  then have f: "(GET_CF t \<noteq> 0) = (unat a < unat b)" "(GET_ZF t \<noteq> 0) = (unat a = unat b)" "(GET_SF t \<noteq> GET_OF t) = (x < y)" and eq: "unat a = unat b \<longleftrightarrow> x = y"
    using subber_flags(1-3) [OF assms(1-3), of s] subber_flags(4) [OF assms(1-3)] unfolding x_def y_def by blast+
  have z: "GET_CF t = 0 \<longleftrightarrow> \<not> unat a < unat b" "GET_ZF t = 0 \<longleftrightarrow> unat a \<noteq> unat b" "GET_SF t = GET_OF t \<longleftrightarrow> \<not> x < y" using f by blast+
  have "JB r t = (if unat a < unat b then JMPR r t else t)" "JBE r t = (if unat a \<le> unat b then JMPR r t else t)"
    "JNB r t = (if unat b \<le> unat a then JMPR r t else t)" "JNBE r t = (if unat b < unat a then JMPR r t else t)"
    "JZ r t = (if unat a = unat b then JMPR r t else t)" "JNZ r t = (if unat a \<noteq> unat b then JMPR r t else t)"
    unfolding JB_def JBE_def JNB_def JNBE_def JZ_def JNZ_def JMPR_def z f by (auto simp: not_less le_less)
  moreover have "JL r t = (if x < y then JMPR r t else t)" "JLE r t = (if x \<le> y then JMPR r t else t)"
    "JNL r t = (if y \<le> x then JMPR r t else t)" "JNLE r t = (if y < x then JMPR r t else t)"
    unfolding JL_def JLE_def JNL_def JNLE_def JMPR_def z f eq by auto
  ultimately show ?thesis by blast
qed

theorem compare_and_branch_witness:
  "JL 0x10 (CMP 0x80 0x7f 8 ccpu0) = JMPR 0x10 (CMP 0x80 0x7f 8 ccpu0) \<and> JB 0x10 (CMP 0x80 0x7f 8 ccpu0) = CMP 0x80 0x7f 8 ccpu0"
  using compare_and_branch [where n = 8 and a = "0x80" and b = "0x7f" and r = "0x10" and s = ccpu0] by (simp add: op_size_def sval_def)

end
