(* ===== verification/Ica.thy ===== *)
theory Ica
  imports Softpc_Prelude "HOL-Library.Monad_Syntax"
begin

text \<open>
  The interrupt controller adapter (\<open>system/ica.c\<close>): the two cascaded 8259A controllers, their port
  interface, the interrupt lines of the devices, the acknowledge cycle of the CPU, the action
  interrupts, the IRET-hook bookkeeping and the snapshot of the controllers; with them the host side
  of \<open>compat/platform.c\<close> (the CPU's pending bit) and the end-of-interrupt hooks of \<open>compat/eoi.c\<close>.

  The state record holds both adapters and the file's static variables. Request counts are unbounded
  integers (\<open>IS32\<close> overflow is undefined in C). An access outside an array sets \<open>ica_ub\<close> and changes
  nothing else. Function pointers are addresses, \<open>0\<close> is the null pointer; what stands behind them is
  the parameter \<open>host_env\<close>. An operation that can recurse without end returns an option, \<open>None\<close> for
  the run that does not return.
\<close>

section \<open>State\<close>

record ADAPTER_STATE =
  ica_master :: bool
  ica_irr :: IU8
  ica_isr :: IU8
  ica_imr :: IU8
  ica_ssr :: IU8
  ica_base :: IU16
  ica_hipri :: IU16
  ica_mode :: IU16
  ica_count :: "int list"
  ica_int_line :: nat
  ica_cpu_int :: bool
  callback_parm :: "IU32 list"
  callback_fn :: "nat list"
  isr_depth :: "int list"
  isr_progress :: "int list list"
  isr_time_decay :: "int list list"

record ICA_ASYNC_HANDLER =
  ah_adapter :: nat
  ah_line_no :: nat
  ah_interrupt :: nat
  pending :: bool

record ica =
  adapter_state :: "nat \<Rightarrow> ADAPTER_STATE"
  sequence :: "nat \<Rightarrow> int"
  ica_lock :: IU8
  iretHooksEnabled :: bool
  iretHookMask :: IU16
  iretHookActive :: IU16
  howoften :: int
  cpu_interrupt_map :: IU32
  softpc_eoi_hooks :: "nat list"
  DelayIrqLine :: IU32
  softpc_eoi_delay_handles :: "nat list"
  async_handlers :: "ICA_ASYNC_HANDLER list"
  ica_ub :: bool

record host_env =
  eoi_proc :: "nat \<Rightarrow> nat \<Rightarrow> int \<Rightarrow> ica \<Rightarrow> ica"
  callback_proc :: "nat \<Rightarrow> IU32 \<Rightarrow> ica \<Rightarrow> ica"
  sigio_proc :: "nat \<Rightarrow> ica \<Rightarrow> ica"

abbreviation (input) ICA_MASTER :: nat where "ICA_MASTER \<equiv> 0"
abbreviation (input) ICA_SLAVE :: nat where "ICA_SLAVE \<equiv> 1"
abbreviation (input) "MAX_ISR_DEPTH \<equiv> (3 :: int)"
abbreviation (input) "MAX_INTR_DELTA_FOR_LOST_HOOK \<equiv> (85 :: int)"
abbreviation (input) "MAXAGE \<equiv> (8 :: int)"
abbreviation (input) "ICA_IC4 \<equiv> (0x0001 :: IU16)"
abbreviation (input) "ICA_SINGL \<equiv> (0x0002 :: IU16)"
abbreviation (input) "ICA_ICW1_MASK \<equiv> (0x000f :: IU16)"
abbreviation (input) "ICA_AEOI \<equiv> (0x0020 :: IU16)"
abbreviation (input) "ICA_SFNM \<equiv> (0x0100 :: IU16)"
abbreviation (input) "ICA_ICW4_MASK \<equiv> (0x01f0 :: IU16)"
abbreviation (input) "ICA_SMM \<equiv> (0x0200 :: IU16)"
abbreviation (input) "ICA_RAEOI \<equiv> (0x0400 :: IU16)"
abbreviation (input) "ICA_RIS \<equiv> (0x0800 :: IU16)"
abbreviation (input) "ICA_POLL \<equiv> (0x1000 :: IU16)"

definition asp_upd :: "nat \<Rightarrow> (ADAPTER_STATE \<Rightarrow> ADAPTER_STATE) \<Rightarrow> ica \<Rightarrow> ica" where
  "asp_upd adapter f s = s\<lparr>adapter_state := (adapter_state s)(adapter := f (adapter_state s adapter))\<rparr>"

definition line_bit :: "nat \<Rightarrow> IU8" where
  "line_bit l = push_bit l 1"

section \<open>Host side\<close>

definition host_set_hw_int :: "ica \<Rightarrow> ica" where
  "host_set_hw_int s = s\<lparr>cpu_interrupt_map := cpu_interrupt_map s OR 1\<rparr>"

definition host_clear_hw_int :: "ica \<Rightarrow> ica" where
  "host_clear_hw_int s = s\<lparr>cpu_interrupt_map := cpu_interrupt_map s AND NOT 1\<rparr>"

definition host_EOI_hook :: "host_env \<Rightarrow> int \<Rightarrow> int \<Rightarrow> ica \<Rightarrow> ica" where
  "host_EOI_hook env irq count s =
     (if 0 \<le> irq \<and> irq < 16 \<and> softpc_eoi_hooks s ! nat irq \<noteq> 0
      then eoi_proc env (softpc_eoi_hooks s ! nat irq) (nat irq) count s else s)"

section \<open>Priority resolution\<close>

primrec scan_loop :: "nat \<Rightarrow> IU8 \<Rightarrow> IU8 \<Rightarrow> nat list \<Rightarrow> IU8" where
  "scan_loop hipri active_isr irr_and_not_imr [] = 7"
| "scan_loop hipri active_isr irr_and_not_imr (i # is) =
     (let j = (hipri + i) mod 8;
          bit = line_bit j
      in if active_isr AND bit \<noteq> 0 then 7
         else if irr_and_not_imr AND bit \<noteq> 0 then 0x80 + of_nat j
         else scan_loop hipri active_isr irr_and_not_imr is)"

definition ica_scan_irr :: "nat \<Rightarrow> ica \<Rightarrow> IU8" where
  "ica_scan_irr adapter s =
     (let asp = adapter_state s adapter;
          iret_hook_mask = ucast (drop_bit (8 * adapter) (ucast (iretHookActive s) OR DelayIrqLine s)) :: IU8;
          irr_and_not_imr = ica_irr asp AND NOT (ica_imr asp OR iret_hook_mask);
          active_isr = (if ica_mode asp AND (ICA_SMM OR ICA_SFNM) \<noteq> 0 then 0 else ica_isr asp)
      in if irr_and_not_imr = 0 then 7
         else scan_loop (unat (ica_hipri asp)) active_isr irr_and_not_imr [0..<8])"

section \<open>Raising a request\<close>

definition idle_adapters :: "ica \<Rightarrow> nat" where
  "idle_adapters s = of_bool (\<not> ica_cpu_int (adapter_state s 0)) + of_bool (\<not> ica_cpu_int (adapter_state s 1))"

definition note_progress :: "nat \<Rightarrow> nat \<Rightarrow> ica \<Rightarrow> ica" where
  "note_progress adapter line_no s =
     (let asp = adapter_state s adapter;
          depth = isr_depth asp ! line_no
      in if depth \<le> 0 then s
         else if MAX_ISR_DEPTH < depth then s\<lparr>ica_ub := True\<rparr>
         else
           (let row = isr_progress asp ! line_no;
                row = row[nat depth := row ! nat depth + 1];
                s = asp_upd adapter (\<lambda>asp. asp\<lparr>isr_progress := (isr_progress asp)[line_no := row]\<rparr>) s
            in if MAX_INTR_DELTA_FOR_LOST_HOOK < row ! nat depth - row ! nat (depth - 1)
               then if MAX_ISR_DEPTH \<le> depth then s\<lparr>ica_ub := True\<rparr>
                 else
                   (let s = asp_upd adapter (\<lambda>asp. asp\<lparr>
                              isr_time_decay := (isr_time_decay asp)[line_no := (isr_time_decay asp ! line_no)[nat depth := 0]],
                              isr_depth := (isr_depth asp)[line_no := depth - 1]\<rparr>) s
                    in s\<lparr>iretHookActive := iretHookActive s AND NOT (push_bit (8 * adapter + line_no) 1)\<rparr>)
               else s))"

definition raise_line :: "nat \<Rightarrow> nat \<Rightarrow> int \<Rightarrow> ica \<Rightarrow> ica" where
  "raise_line adapter line_no call_count s =
     asp_upd adapter (\<lambda>asp. asp\<lparr>ica_irr := (if ica_irr asp AND line_bit line_no = 0 then ica_irr asp OR line_bit line_no else ica_irr asp),
       ica_count := (ica_count asp)[line_no := ica_count asp ! line_no + call_count]\<rparr>) s"

lemma idle_adapters_simps [simp]:
  "idle_adapters (s\<lparr>ica_lock := k\<rparr>) = idle_adapters s"
  "idle_adapters (s\<lparr>ica_ub := u\<rparr>) = idle_adapters s"
  "idle_adapters (s\<lparr>iretHookActive := h\<rparr>) = idle_adapters s"
  "(\<And>asp. ica_cpu_int (f asp) = ica_cpu_int asp) \<Longrightarrow> idle_adapters (asp_upd a f s) = idle_adapters s"
  by (simp_all add: idle_adapters_def asp_upd_def)

lemma idle_adapters_raise [simp]: "idle_adapters (raise_line a l k s) = idle_adapters s"
  by (simp add: raise_line_def)

lemma idle_adapters_progress [simp]: "idle_adapters (note_progress a l s) = idle_adapters s"
  by (simp add: note_progress_def Let_def)

lemma idle_adapters_assert:
  assumes "\<not> 1 < a" "\<not> ica_cpu_int (adapter_state s a)"
  shows "idle_adapters (asp_upd a (\<lambda>asp. asp\<lparr>ica_int_line := l, ica_cpu_int := True\<rparr>) s) < idle_adapters s"
proof -
  have "a = 0 \<or> a = 1" using assms(1) by auto
  then show ?thesis using assms(2) by (auto simp: idle_adapters_def asp_upd_def)
qed

function ica_interrupt_cpu :: "nat \<Rightarrow> nat \<Rightarrow> ica \<Rightarrow> ica"
  and SWPIC_hw_interrupt :: "nat \<Rightarrow> nat \<Rightarrow> int \<Rightarrow> ica \<Rightarrow> ica" where
  "ica_interrupt_cpu adapter line s =
     (if 1 < adapter then s\<lparr>ica_ub := True\<rparr>
      else if ica_cpu_int (adapter_state s adapter)
      then asp_upd adapter (\<lambda>asp. asp\<lparr>ica_int_line := line\<rparr>) s
      else
        (let s = asp_upd adapter (\<lambda>asp. asp\<lparr>ica_int_line := line, ica_cpu_int := True\<rparr>) s
         in if ica_master (adapter_state s adapter) then host_set_hw_int s
            else
              (let s = s\<lparr>ica_lock := ica_lock s - 1\<rparr>;
                   s = SWPIC_hw_interrupt ICA_MASTER (unat (ica_ssr (adapter_state s adapter))) 1 s
               in s\<lparr>ica_lock := ica_lock s + 1\<rparr>)))"
| "SWPIC_hw_interrupt adapter line_no call_count s =
     (let line_no = line_no mod 256
      in if 1 < adapter \<or> 7 < line_no then s\<lparr>ica_ub := True\<rparr>
         else
           (let s = raise_line adapter line_no call_count s
            in if ica_lock s \<noteq> 0 then s
               else
                 (let s = s\<lparr>ica_lock := ica_lock s + 1\<rparr>;
                      s = note_progress adapter line_no s;
                      line = ica_scan_irr adapter s;
                      s = (if line AND 0x80 \<noteq> 0 then ica_interrupt_cpu adapter (unat (line AND 7)) s else s)
                  in s\<lparr>ica_lock := 0\<rparr>)))"
  by pat_completeness auto

termination
proof (relation "measure (case_sum (\<lambda>(a, l, s). 2 * idle_adapters s) (\<lambda>(a, l, k, s). 2 * idle_adapters s + 1))",
    goal_cases)
  case (2 adapter line s x xa)
  then show ?case using idle_adapters_assert [of adapter s line] by simp
qed simp_all

declare ica_interrupt_cpu.simps [simp del] SWPIC_hw_interrupt.simps [simp del]

section \<open>Withdrawing a request\<close>

partial_function (option) SWPIC_clear_int :: "host_env \<Rightarrow> nat \<Rightarrow> nat \<Rightarrow> ica \<Rightarrow> ica option" where
  "SWPIC_clear_int env adapter line_no s =
     (if 1 < adapter \<or> 7 < line_no then Some (s\<lparr>ica_ub := True\<rparr>)
      else
        (let asp = adapter_state s adapter;
             n = ica_count asp ! line_no - 1
         in if n \<le> 0
            then
              (let irr_check = ica_irr asp;
                   s = asp_upd adapter (\<lambda>asp. asp\<lparr>ica_irr := ica_irr asp AND NOT (line_bit line_no),
                         ica_count := (ica_count asp)[line_no := 0]\<rparr>) s
               in do {
                 s \<leftarrow> (if \<not> ica_master asp \<and> ica_scan_irr adapter s = 7
                      then SWPIC_clear_int env ICA_MASTER (unat (ica_ssr asp))
                             (asp_upd adapter (\<lambda>asp. asp\<lparr>ica_cpu_int := False\<rparr>) s)
                      else if ica_master asp \<and> ica_cpu_int asp \<and> ica_scan_irr adapter s = 7
                      then Some (host_clear_hw_int (asp_upd adapter (\<lambda>asp. asp\<lparr>ica_cpu_int := False\<rparr>) s))
                      else Some s);
                 Some (if irr_check AND line_bit line_no \<noteq> 0
                       then host_EOI_hook env (int line_no + 8 * int adapter) (- 1) s else s)
               })
            else Some (asp_upd adapter (\<lambda>asp. asp\<lparr>ica_count := (ica_count asp)[line_no := n]\<rparr>) s)))"

definition ica_hw_interrupt_cancel :: "host_env \<Rightarrow> nat \<Rightarrow> nat \<Rightarrow> ica \<Rightarrow> ica option" where
  "ica_hw_interrupt_cancel env adapter line_no s =
     (if 1 < adapter \<or> 7 < line_no then Some (s\<lparr>ica_ub := True\<rparr>)
      else SWPIC_clear_int env adapter line_no
             (asp_upd adapter (\<lambda>asp. asp\<lparr>ica_count := (ica_count asp)[line_no := 0]\<rparr>) s))"

section \<open>End of interrupt and acceptance\<close>

primrec eoi_loop :: "nat \<Rightarrow> IU8 \<Rightarrow> nat list \<Rightarrow> nat option" where
  "eoi_loop hipri isr [] = None"
| "eoi_loop hipri isr (i # is) =
     (let j = (hipri + i) mod 8
      in if isr AND line_bit j \<noteq> 0 then Some j else eoi_loop hipri isr is)"

definition ica_eoi :: "host_env \<Rightarrow> nat \<Rightarrow> int \<Rightarrow> bool \<Rightarrow> ica \<Rightarrow> int \<times> ica" where
  "ica_eoi env adapter line rot s =
     (let asp = adapter_state s adapter;
          (line, EoiLineNo, s) =
            (if line = - 1
             then (case eoi_loop (unat (ica_hipri asp)) (ica_isr asp) [0..<8] of
                     None \<Rightarrow> (line, - 1, s)
                   | Some j \<Rightarrow> (int j, int j, asp_upd adapter (\<lambda>asp. asp\<lparr>ica_isr := ica_isr asp AND NOT (line_bit j)\<rparr>) s))
             else (line, if ica_isr asp AND line_bit (nat line) \<noteq> 0 then line else - 1,
                   asp_upd adapter (\<lambda>asp. asp\<lparr>ica_isr := ica_isr asp AND NOT (line_bit (nat line))\<rparr>) s));
          s = (if rot \<and> 0 \<le> line
               then asp_upd adapter (\<lambda>asp. asp\<lparr>ica_hipri := word_of_int ((line + 1) mod 8)\<rparr>) s else s);
          s = (if EoiLineNo \<noteq> - 1
               then host_EOI_hook env (EoiLineNo + 8 * int adapter) (ica_count (adapter_state s adapter) ! nat EoiLineNo) s
               else s);
          i = ica_scan_irr adapter s;
          s = (if i AND 0x80 \<noteq> 0 then ica_interrupt_cpu adapter (unat (i AND 7)) s else s)
      in (line, s))"

definition serve :: "nat \<Rightarrow> ADAPTER_STATE \<Rightarrow> ADAPTER_STATE" where
  "serve line1 asp =
     (let n = ica_count asp ! line1 - 1;
          asp = asp\<lparr>ica_isr := ica_isr asp OR line_bit line1\<rparr>
      in if n \<le> 0
         then asp\<lparr>ica_irr := ica_irr asp AND NOT (line_bit line1), ica_count := (ica_count asp)[line1 := 0]\<rparr>
         else asp\<lparr>ica_count := (ica_count asp)[line1 := n]\<rparr>)"

definition ica_accept :: "host_env \<Rightarrow> nat \<Rightarrow> ica \<Rightarrow> int \<times> ica" where
  "ica_accept env adapter s =
     (let s = asp_upd adapter (\<lambda>asp. asp\<lparr>ica_cpu_int := False\<rparr>) s;
          line1 = ica_scan_irr adapter s
      in if line1 AND 0x80 = 0 then (- 1, s)
         else
           (let line1 = unat (line1 AND 7)
            in if MAX_ISR_DEPTH \<le> isr_depth (adapter_state s adapter) ! line1
               then (- 1, s\<lparr>iretHookActive := iretHookActive s OR push_bit (8 * adapter + line1) 1\<rparr>)
               else
                 (let s = asp_upd adapter (serve line1) s;
                      mode = ica_mode (adapter_state s adapter);
                      s = (if mode AND ICA_AEOI \<noteq> 0
                           then snd (ica_eoi env adapter (- 1) (mode AND ICA_RAEOI = ICA_RAEOI) s) else s)
                  in (int line1, s))))"

section \<open>The acknowledge cycle\<close>

definition ica_iret_hook_needed :: "nat \<Rightarrow> ica \<Rightarrow> nat" where
  "ica_iret_hook_needed line s = (if iretHookMask s AND push_bit line 1 = 0 then 0 else line + 1)"

definition run_callback :: "host_env \<Rightarrow> nat \<Rightarrow> nat \<Rightarrow> ica \<Rightarrow> ica" where
  "run_callback env adapter line s =
     (let asp = adapter_state s adapter;
          s = callback_proc env (callback_fn asp ! line) (callback_parm asp ! line) s
      in asp_upd adapter (\<lambda>asp. asp\<lparr>callback_fn := (callback_fn asp)[line := 0]\<rparr>) s)"

definition enter_hooked :: "nat \<Rightarrow> nat \<Rightarrow> ica \<Rightarrow> ica" where
  "enter_hooked adapter al s =
     (let depth = isr_depth (adapter_state s adapter) ! al + 1;
          s = asp_upd adapter (\<lambda>asp. asp\<lparr>isr_depth := (isr_depth asp)[al := depth]\<rparr>) s
      in if depth < 1 \<or> MAX_ISR_DEPTH < depth then s\<lparr>ica_ub := True\<rparr>
         else asp_upd adapter (\<lambda>asp. asp\<lparr>isr_progress := (isr_progress asp)[al :=
                (isr_progress asp ! al)[nat depth := isr_progress asp ! al ! nat (depth - 1)]]\<rparr>) s)"

definition ica_intack :: "host_env \<Rightarrow> nat \<Rightarrow> ica \<Rightarrow> int \<times> nat \<times> ica" where
  "ica_intack env hook_address s =
     (let (line, s) = ica_accept env ICA_MASTER s
      in if line = - 1 then (- 1, hook_address, s)
         else
           (let bit = line_bit (nat line)
            in if ica_ssr (adapter_state s ICA_MASTER) AND bit \<noteq> 0
               then
                 (let (line, s) = ica_accept env ICA_SLAVE s;
                      int_no = line + uint (ica_base (adapter_state s ICA_SLAVE))
                  in if line = - 1
                     then (- 1, hook_address, asp_upd ICA_MASTER (\<lambda>asp. asp\<lparr>ica_isr := ica_isr asp AND NOT bit\<rparr>) s)
                     else if callback_fn (adapter_state s ICA_SLAVE) ! nat line \<noteq> 0
                     then (- 1, hook_address, run_callback env ICA_SLAVE (nat line) s)
                     else
                       (let hook_address = ica_iret_hook_needed (nat line + 8) s
                        in (int_no, hook_address, if hook_address \<noteq> 0 then enter_hooked ICA_SLAVE (nat line) s else s)))
               else if callback_fn (adapter_state s ICA_MASTER) ! nat line \<noteq> 0
               then (- 1, hook_address, run_callback env ICA_MASTER (nat line) s)
               else
                 (let int_no = line + uint (ica_base (adapter_state s ICA_MASTER));
                      hook_address = ica_iret_hook_needed (nat line) s
                  in (int_no, hook_address, if hook_address \<noteq> 0 then enter_hooked ICA_MASTER (nat line) s else s))))"

text \<open>
  The place where the instruction loop of \<open>c_main.c\<close> takes a hardware interrupt: the vector that is
  delivered, if one is.
\<close>

definition cpu_take_hw_int :: "host_env \<Rightarrow> bool \<Rightarrow> ica \<Rightarrow> int option \<times> ica" where
  "cpu_take_hw_int env IF s =
     (if IF \<and> cpu_interrupt_map s AND 1 \<noteq> 0
      then
        (let (acknowledged_interrupt, hook_address, s) = ica_intack env 0 s;
             s = s\<lparr>cpu_interrupt_map := cpu_interrupt_map s AND NOT 1\<rparr>
         in (if acknowledged_interrupt \<noteq> - 1 then Some acknowledged_interrupt else None, s))
      else (None, s))"

section \<open>Ports\<close>

definition adapter_for_port :: "IU16 \<Rightarrow> nat" where
  "adapter_for_port port = (if 0x20 \<le> port \<and> port \<le> 0x3f then ICA_MASTER else ICA_SLAVE)"

definition ICA_PORT_0 :: "nat \<Rightarrow> IU16" where
  "ICA_PORT_0 adapter = (if adapter \<noteq> 0 then 0xa0 else 0x20)"

definition SWPIC_inb :: "host_env \<Rightarrow> IU16 \<Rightarrow> ica \<Rightarrow> IU8 \<times> ica" where
  "SWPIC_inb env port s =
     (let adapter = adapter_for_port port;
          asp = adapter_state s adapter
      in if ica_mode asp AND ICA_POLL \<noteq> 0
         then
           (let s = s\<lparr>ica_lock := 1\<rparr>;
                s = asp_upd adapter (\<lambda>asp. asp\<lparr>ica_mode := ica_mode asp AND NOT ICA_POLL\<rparr>) s;
                value = ica_scan_irr adapter s;
                s = (if value AND 0x80 \<noteq> 0 then host_clear_hw_int (snd (ica_accept env adapter s)) else s)
            in (value, s\<lparr>ica_lock := 0\<rparr>))
         else if port = ICA_PORT_0 adapter
         then (if ica_mode asp AND ICA_RIS \<noteq> 0 then ica_isr asp else ica_irr asp, s)
         else (ica_imr asp, s))"

definition outb_icw1 :: "nat \<Rightarrow> IU8 \<Rightarrow> ica \<Rightarrow> ica" where
  "outb_icw1 adapter value s =
     (let s = asp_upd adapter (\<lambda>asp. asp\<lparr>ica_irr := 0, ica_isr := 0, ica_imr := 0, ica_ssr := 0,
            ica_base := 0, ica_hipri := 0, ica_mode := ucast value AND ICA_ICW1_MASK,
            ica_count := replicate 8 0, ica_cpu_int := False\<rparr>) s
      in s\<lparr>sequence := (sequence s)(adapter := 2)\<rparr>)"

definition outb_ocw1 :: "host_env \<Rightarrow> nat \<Rightarrow> IU8 \<Rightarrow> ica \<Rightarrow> ica option" where
  "outb_ocw1 env adapter value s =
     (let s = asp_upd adapter (\<lambda>asp. asp\<lparr>ica_imr := value\<rparr>) s;
          asp = adapter_state s adapter
      in do {
        s \<leftarrow> (if ica_cpu_int asp \<and> ica_imr asp AND line_bit (ica_int_line asp) \<noteq> 0
             then (let s = asp_upd adapter (\<lambda>asp. asp\<lparr>ica_cpu_int := False\<rparr>) s
                   in if ica_master asp then Some (host_clear_hw_int s)
                      else SWPIC_clear_int env ICA_MASTER (unat (ica_ssr asp)) s)
             else Some s);
        (let line = ica_scan_irr adapter s
         in Some (if \<not> ica_cpu_int (adapter_state s adapter) \<and> line AND 0x80 \<noteq> 0
                  then ica_interrupt_cpu adapter (unat (line AND 7)) s else s))
      })"

definition outb_ocw2 :: "host_env \<Rightarrow> nat \<Rightarrow> IU8 \<Rightarrow> ica \<Rightarrow> ica" where
  "outb_ocw2 env adapter value s =
     (let cmd = drop_bit 5 value AND 7;
          line = uint (value AND 7)
      in if cmd = 0 then asp_upd adapter (\<lambda>asp. asp\<lparr>ica_mode := ica_mode asp AND NOT ICA_RAEOI\<rparr>) s
         else if cmd = 1 then snd (ica_eoi env adapter (- 1) False s)
         else if cmd = 2 then s
         else if cmd = 3 then snd (ica_eoi env adapter line False s)
         else if cmd = 4 then asp_upd adapter (\<lambda>asp. asp\<lparr>ica_mode := ica_mode asp OR ICA_RAEOI\<rparr>) s
         else if cmd = 5 then snd (ica_eoi env adapter (- 1) True s)
         else if cmd = 6 then asp_upd adapter (\<lambda>asp. asp\<lparr>ica_hipri := (ucast value + 1) AND 7\<rparr>) s
         else snd (ica_eoi env adapter line True s))"

definition outb_ocw3 :: "nat \<Rightarrow> IU8 \<Rightarrow> ica \<Rightarrow> ica" where
  "outb_ocw3 adapter value s =
     (let s = (if value AND 0x40 \<noteq> 0
               then asp_upd adapter (\<lambda>asp. asp\<lparr>ica_mode := (ica_mode asp AND NOT ICA_SMM) OR (push_bit 4 (ucast value) AND ICA_SMM)\<rparr>) s
               else s)
      in if value AND 0x04 \<noteq> 0 then asp_upd adapter (\<lambda>asp. asp\<lparr>ica_mode := ica_mode asp OR ICA_POLL\<rparr>) s
         else if value AND 0x02 \<noteq> 0
         then asp_upd adapter (\<lambda>asp. asp\<lparr>ica_mode := (ica_mode asp AND NOT ICA_RIS) OR (push_bit 11 (ucast value) AND ICA_RIS)\<rparr>) s
         else s)"

definition outb_icws :: "nat \<Rightarrow> IU16 \<Rightarrow> IU8 \<Rightarrow> ica \<Rightarrow> ica" where
  "outb_icws adapter port value s =
     (let set_seq = (\<lambda>n s. s\<lparr>sequence := (sequence s)(adapter := n)\<rparr>);
          mode = ica_mode (adapter_state s adapter)
      in if sequence s adapter = 2
         then if port AND 1 = 0 then s
              else set_seq (if mode AND ICA_SINGL = 0 then 3 else if mode AND ICA_IC4 \<noteq> 0 then 4 else 0)
                     (asp_upd adapter (\<lambda>asp. asp\<lparr>ica_base := ucast value AND 0xf8\<rparr>) s)
         else if sequence s adapter = 3
         then if port AND 1 = 0 then s
              else set_seq (if mode AND ICA_IC4 \<noteq> 0 then 4 else 0)
                     (asp_upd adapter (\<lambda>asp. asp\<lparr>ica_ssr := value\<rparr>) s)
         else if sequence s adapter = 4
         then set_seq 0
                (if port AND 1 = 0 then s
                 else asp_upd adapter (\<lambda>asp. asp\<lparr>ica_mode :=
                        (ica_mode asp AND NOT ICA_ICW4_MASK) OR (push_bit 4 (ucast value) AND ICA_ICW4_MASK)\<rparr>) s)
         else s)"

definition SWPIC_outb :: "host_env \<Rightarrow> IU16 \<Rightarrow> IU8 \<Rightarrow> ica \<Rightarrow> ica option" where
  "SWPIC_outb env port value s =
     (let adapter = adapter_for_port port
      in if port AND 0xfffe \<noteq> ICA_PORT_0 adapter then Some s
         else if port AND 1 = 0 \<and> value AND 0x10 \<noteq> 0 then Some (outb_icw1 adapter value s)
         else do {
           let s = s\<lparr>ica_lock := 1\<rparr>;
           s \<leftarrow> (if sequence s adapter = 0
                then (if port AND 1 \<noteq> 0 then outb_ocw1 env adapter value s
                      else if value AND 8 = 0 then Some (outb_ocw2 env adapter value s)
                      else Some (outb_ocw3 adapter value s))
                else Some (outb_icws adapter port value s));
           Some (s\<lparr>ica_lock := 0\<rparr>)
         })"

section \<open>Asynchronous requests and action interrupts\<close>

definition ica_async_hw_interrupt :: "nat \<Rightarrow> nat \<Rightarrow> int \<Rightarrow> ica \<Rightarrow> ica" where
  "ica_async_hw_interrupt adapter line_no call_count s =
     (case find (\<lambda>i. ah_adapter (async_handlers s ! i) = adapter \<and> ah_line_no (async_handlers s ! i) = line_no)
             [0..<length (async_handlers s)] of
        None \<Rightarrow> s
      | Some i \<Rightarrow>
          if pending (async_handlers s ! i) then s
          else s\<lparr>async_handlers := (async_handlers s)[i := (async_handlers s ! i)\<lparr>pending := True\<rparr>],
                 cpu_interrupt_map := cpu_interrupt_map s OR 0x1000\<rparr>)"

definition sigio_one :: "host_env \<Rightarrow> nat \<Rightarrow> ica \<Rightarrow> ica" where
  "sigio_one env i s =
     (let iahp = async_handlers s ! i
      in if pending iahp
         then (let s = s\<lparr>async_handlers := (async_handlers s)[i := iahp\<lparr>pending := False\<rparr>]\<rparr>
               in if ah_interrupt iahp \<noteq> 0 then sigio_proc env (ah_interrupt iahp) s
                  else SWPIC_hw_interrupt (ah_adapter iahp) (ah_line_no iahp) 1 s)
         else s)"

definition ica_sigio_event :: "host_env \<Rightarrow> ica \<Rightarrow> ica" where
  "ica_sigio_event env s = fold (sigio_one env) [0..<length (async_handlers s)] s"

definition ica_sigio_init :: "ica \<Rightarrow> ica" where
  "ica_sigio_init s = s\<lparr>async_handlers := map (\<lambda>h. h\<lparr>pending := False\<rparr>) (async_handlers s)\<rparr>"

text \<open>\<open>action_interrupt\<close> falls off its end on success, so only its failure has a value.\<close>

definition action_interrupt :: "nat \<Rightarrow> nat \<Rightarrow> nat \<Rightarrow> IU32 \<Rightarrow> ica \<Rightarrow> bool option \<times> ica" where
  "action_interrupt adapter line func parm s =
     (let line = line mod 8;
          asp = adapter_state s adapter
      in if 1 < adapter then (None, s\<lparr>ica_ub := True\<rparr>)
         else if callback_fn asp ! line \<noteq> 0 then (Some False, s)
         else
           (let s = asp_upd adapter (\<lambda>asp. asp\<lparr>callback_fn := (callback_fn asp)[line := func],
                  callback_parm := (callback_parm asp)[line := parm],
                  ica_irr := ica_irr asp OR line_bit line,
                  ica_count := (ica_count asp)[line := ica_count asp ! line + 1],
                  ica_isr := ica_isr asp OR line_bit line\<rparr>) s
            in (None, host_set_hw_int s)))"

definition cancel_action_interrupt :: "nat \<Rightarrow> nat \<Rightarrow> ica \<Rightarrow> ica" where
  "cancel_action_interrupt adapter line s =
     (if 1 < adapter \<or> 7 < line then s\<lparr>ica_ub := True\<rparr>
      else asp_upd adapter (\<lambda>asp.
        (let asp = asp\<lparr>ica_isr := ica_isr asp AND NOT (line_bit line)\<rparr>;
             asp = (if callback_fn asp ! line \<noteq> 0
                    then asp\<lparr>ica_irr := ica_irr asp AND NOT (line_bit line), ica_count := (ica_count asp)[line := 0]\<rparr>
                    else asp)
         in asp\<lparr>callback_fn := (callback_fn asp)[line := 0], callback_parm := (callback_parm asp)[line := 0]\<rparr>)) s)"

section \<open>IRET hooks\<close>

definition ica_iret_hook_control :: "nat \<Rightarrow> nat \<Rightarrow> bool \<Rightarrow> ica \<Rightarrow> ica" where
  "ica_iret_hook_control adapter line enable s = s"

definition ica_iret_hook_called :: "nat \<Rightarrow> ica \<Rightarrow> ica" where
  "ica_iret_hook_called abs_line s =
     (let adapter = abs_line div 8;
          line = abs_line mod 8;
          depth = isr_depth (adapter_state s adapter) ! line
      in if 1 < adapter \<or> depth < 0 \<or> 2 < depth then s\<lparr>ica_ub := True\<rparr>
         else
           (let s = asp_upd adapter (\<lambda>asp. asp\<lparr>
                  isr_time_decay := (isr_time_decay asp)[line := (isr_time_decay asp ! line)[nat depth := 0]],
                  isr_depth := (isr_depth asp)[line := depth - 1],
                  isr_progress := (if depth - 1 = 0
                    then (isr_progress asp)[line := (isr_progress asp ! line)[1 := 0]] else isr_progress asp)\<rparr>) s;
                s = (if depth - 1 < MAX_ISR_DEPTH
                     then s\<lparr>iretHookActive := iretHookActive s AND NOT (push_bit abs_line 1)\<rparr> else s);
                i = ica_scan_irr adapter s
            in if i AND 0x80 \<noteq> 0 then ica_interrupt_cpu adapter (unat (i AND 7)) s else s))"

text \<open>
  The inner loops of \<open>ica_check_stale_iret_hook\<close>. Dropping level \<open>depth\<close> shifts the ages of the levels
  above it down; the shift reads one element past the last level.
\<close>

primrec stale_depths :: "nat \<Rightarrow> nat \<Rightarrow> nat list \<Rightarrow> ica \<Rightarrow> ica" where
  "stale_depths adapter line [] s = s"
| "stale_depths adapter line (depth # ds) s =
     (if 2 < depth then s\<lparr>ica_ub := True\<rparr>
      else
        (let asp = adapter_state s adapter;
             row = isr_time_decay asp ! line;
             age = row ! depth + 1;
             set_row = (\<lambda>row s. asp_upd adapter (\<lambda>asp. asp\<lparr>isr_time_decay := (isr_time_decay asp)[line := row]\<rparr>) s)
         in if age \<noteq> MAXAGE then stale_depths adapter line ds (set_row (row[depth := age]) s)
            else if depth = 0 \<and> ica_count asp ! line = 0
            then stale_depths adapter line ds (set_row (row[depth := 0]) s)
            else if 2 < isr_depth asp ! line + 1 then s\<lparr>ica_ub := True\<rparr>
            else
              (let row = row[depth := 0];
                   row = fold (\<lambda>k row. row[k := row ! (k + 1)]) [depth..<nat (isr_depth asp ! line) + 1] row;
                   s = set_row row s;
                   s = asp_upd adapter (\<lambda>asp. asp\<lparr>isr_depth := (isr_depth asp)[line := isr_depth asp ! line - 1]\<rparr>) s
               in s\<lparr>iretHookActive := iretHookActive s AND NOT (push_bit (8 * adapter + line) 1)\<rparr>)))"

definition stale_line :: "nat \<Rightarrow> nat \<Rightarrow> ica \<Rightarrow> ica" where
  "stale_line adapter line s =
     (if iretHookMask s AND (if adapter = ICA_MASTER then push_bit line 1 else push_bit line 0x10) \<noteq> 0
      then stale_depths adapter line [0..<nat (isr_depth (adapter_state s adapter) ! line)] s
      else s)"

definition ica_check_stale_iret_hook :: "ica \<Rightarrow> ica" where
  "ica_check_stale_iret_hook s =
     (let s = s\<lparr>howoften := howoften s - 1\<rparr>
      in if howoften s = 0
         then fold (stale_line ICA_SLAVE) [0..<8] (fold (stale_line ICA_MASTER) [0..<8] (s\<lparr>howoften := 18\<rparr>))
         else s)"

section \<open>Power on\<close>

primrec outb_all :: "host_env \<Rightarrow> (IU16 \<times> IU8) list \<Rightarrow> ica \<Rightarrow> ica option" where
  "outb_all env [] s = Some s"
| "outb_all env (w # ws) s = do { s \<leftarrow> SWPIC_outb env (fst w) (snd w) s; outb_all env ws s }"

definition ica0_post :: "host_env \<Rightarrow> ica \<Rightarrow> ica option" where
  "ica0_post env s = outb_all env [(0x20, 0x11), (0x21, 0x08), (0x21, 0x04), (0x21, 0x01), (0x21, 0xb8)] s"

definition ica1_post :: "host_env \<Rightarrow> ica \<Rightarrow> ica option" where
  "ica1_post env s = outb_all env [(0xa0, 0x11), (0xa1, 0x70), (0xa1, 0x02), (0xa1, 0x01), (0xa1, 0x9d)] s"

definition ica0_init :: "ica \<Rightarrow> ica" where
  "ica0_init s =
     (let s = asp_upd ICA_MASTER (\<lambda>asp. asp\<lparr>ica_master := True, callback_fn := replicate 8 0, isr_depth := replicate 8 0\<rparr>) s;
          s = ica_sigio_init s
      in s\<lparr>iretHooksEnabled := True\<rparr>)"

definition ica1_init :: "ica \<Rightarrow> ica" where
  "ica1_init s =
     asp_upd ICA_SLAVE (\<lambda>asp. asp\<lparr>ica_master := False, callback_fn := replicate 8 0, isr_depth := replicate 8 0\<rparr>) s"

text \<open>The static data of the program before any call.\<close>

definition adapter0 :: ADAPTER_STATE where
  "adapter0 = \<lparr>ica_master = False, ica_irr = 0, ica_isr = 0, ica_imr = 0, ica_ssr = 0, ica_base = 0,
     ica_hipri = 0, ica_mode = 0, ica_count = replicate 8 0, ica_int_line = 0, ica_cpu_int = False,
     callback_parm = replicate 8 0, callback_fn = replicate 8 0, isr_depth = replicate 8 0,
     isr_progress = replicate 8 (replicate 4 0), isr_time_decay = replicate 8 (replicate 3 0)\<rparr>"

definition ica_static :: ica where
  "ica_static = \<lparr>adapter_state = (\<lambda>_. adapter0), sequence = (\<lambda>_. - 1), ica_lock = 0, iretHooksEnabled = False,
     iretHookMask = 0, iretHookActive = 0, howoften = 18, cpu_interrupt_map = 0, softpc_eoi_hooks = replicate 16 0,
     DelayIrqLine = 0, softpc_eoi_delay_handles = replicate 16 0, async_handlers = [], ica_ub = False\<rparr>"

section \<open>Snapshot\<close>

record softpc_device_pic_adapter_state =
  pas_master :: IU32
  pas_irr :: IU8
  pas_isr :: IU8
  pas_imr :: IU8
  pas_ssr :: IU8
  pas_base :: IU16
  pas_hipri :: IU16
  pas_mode :: IU16
  pas_count :: "int list"
  pas_interrupt_line :: nat
  pas_cpu_interrupt :: bool
  pas_callback_parameter :: "IU32 list"
  pas_isr_depth :: "int list"
  pas_isr_progress :: "int list list"
  pas_isr_time_decay :: "int list list"

record softpc_device_pic_state =
  pas_adapter :: "softpc_device_pic_adapter_state list"
  pas_iret_hooks_enabled :: IU32
  pas_iret_hook_mask :: IU16
  pas_iret_hook_active :: IU16

definition capture_adapter :: "ADAPTER_STATE \<Rightarrow> softpc_device_pic_adapter_state" where
  "capture_adapter a = \<lparr>pas_master = of_bool (ica_master a), pas_irr = ica_irr a, pas_isr = ica_isr a,
     pas_imr = ica_imr a, pas_ssr = ica_ssr a, pas_base = ica_base a, pas_hipri = ica_hipri a, pas_mode = ica_mode a,
     pas_count = ica_count a, pas_interrupt_line = ica_int_line a, pas_cpu_interrupt = ica_cpu_int a,
     pas_callback_parameter = callback_parm a, pas_isr_depth = isr_depth a, pas_isr_progress = isr_progress a,
     pas_isr_time_decay = isr_time_decay a\<rparr>"

definition softpc_device_snapshot_capture_pic :: "ica \<Rightarrow> softpc_device_pic_state option" where
  "softpc_device_snapshot_capture_pic s =
     (if \<exists>a \<in> set [0, 1]. \<exists>line \<in> set [0..<8]. callback_fn (adapter_state s a) ! line \<noteq> 0 then None
      else Some \<lparr>pas_adapter = map (\<lambda>a. capture_adapter (adapter_state s a)) [0, 1],
                 pas_iret_hooks_enabled = of_bool (iretHooksEnabled s),
                 pas_iret_hook_mask = iretHookMask s, pas_iret_hook_active = iretHookActive s\<rparr>)"

definition restore_adapter :: "softpc_device_pic_adapter_state \<Rightarrow> ADAPTER_STATE" where
  "restore_adapter p = \<lparr>ica_master = (pas_master p \<noteq> 0), ica_irr = pas_irr p, ica_isr = pas_isr p,
     ica_imr = pas_imr p, ica_ssr = pas_ssr p, ica_base = pas_base p, ica_hipri = pas_hipri p, ica_mode = pas_mode p,
     ica_count = pas_count p, ica_int_line = pas_interrupt_line p, ica_cpu_int = pas_cpu_interrupt p,
     callback_parm = pas_callback_parameter p, callback_fn = replicate 8 0, isr_depth = pas_isr_depth p,
     isr_progress = pas_isr_progress p, isr_time_decay = pas_isr_time_decay p\<rparr>"

definition softpc_device_snapshot_restore_pic :: "softpc_device_pic_state \<Rightarrow> ica \<Rightarrow> ica option" where
  "softpc_device_snapshot_restore_pic state s =
     (if \<exists>p \<in> set (pas_adapter state). 1 < pas_master p \<or>
           (\<exists>d \<in> set (pas_isr_depth p). d < 0 \<or> MAX_ISR_DEPTH < d) then None
      else Some (s\<lparr>adapter_state := (adapter_state s)(0 := restore_adapter (pas_adapter state ! 0),
                                                      1 := restore_adapter (pas_adapter state ! 1)),
                  iretHooksEnabled := (pas_iret_hooks_enabled state \<noteq> 0),
                  iretHookMask := pas_iret_hook_mask state, iretHookActive := pas_iret_hook_active state\<rparr>))"

end
