(* ===== verification/Ica_Inv.thy ===== *)
theory Ica_Inv
  imports Ica
begin

text \<open>
  What the interrupt controllers keep: the choice of the next request, the invariant of the two
  adapters, and that every operation of the module preserves it, whatever devices stand behind the
  registered function pointers as long as these act by raising interrupt lines.
\<close>

section \<open>Priority resolution\<close>

lemma bit_line_bit [simp]: "bit (line_bit j) i = (i = j \<and> j < 8)"
  by (auto simp: line_bit_def bit_simps)

lemma and_line_bit [simp]: "(w AND line_bit j = 0) = (\<not> bit w j)"
  using and_exp_eq_0_iff_not_bit [of w j] by (simp add: line_bit_def push_bit_eq_mult)

text \<open>The rank of a line is its distance from the line of highest priority.\<close>

definition prio :: "nat \<Rightarrow> nat \<Rightarrow> nat" where
  "prio h l = (l + (8 - h mod 8)) mod 8"

lemma prio_less: "prio h l < 8"
  by (simp add: prio_def)

lemma prio_of: "i < 8 \<Longrightarrow> prio h ((h + i) mod 8) = i"
proof -
  assume "i < 8"
  have "((h + i) mod 8 + (8 - h mod 8)) mod 8 = (h + i + (8 - h mod 8)) mod 8" by (rule mod_add_left_eq)
  also have "h + i + (8 - h mod 8) = i + 8 + (h div 8) * 8"
  proof -
    have "h mod 8 < 8" "h = (h div 8) * 8 + h mod 8" by simp_all
    then show ?thesis by linarith
  qed
  also have "(i + 8 + (h div 8) * 8) mod 8 = i" using \<open>i < 8\<close> by simp
  finally show ?thesis by (simp add: prio_def)
qed

lemma of_prio: "l < 8 \<Longrightarrow> (h + prio h l) mod 8 = l"
proof -
  assume "l < 8"
  have "(h + prio h l) mod 8 = (h + (l + (8 - h mod 8))) mod 8" by (simp add: prio_def mod_add_right_eq)
  also have "h + (l + (8 - h mod 8)) = l + 8 + (h div 8) * 8"
  proof -
    have "h mod 8 < 8" "h = (h div 8) * 8 + h mod 8" by simp_all
    then show ?thesis by linarith
  qed
  also have "(l + 8 + (h div 8) * 8) mod 8 = l" using \<open>l < 8\<close> by simp
  finally show ?thesis .
qed

lemma prio_inj: "l < 8 \<Longrightarrow> m < 8 \<Longrightarrow> prio h l = prio h m \<Longrightarrow> l = m"
  by (metis of_prio)

text \<open>What the controller sees: the requests that are neither masked nor held back, and the lines in service.\<close>

definition pic_request :: "nat \<Rightarrow> ica \<Rightarrow> nat \<Rightarrow> bool" where
  "pic_request a s l = (l < 8 \<and> bit (ica_irr (adapter_state s a)) l \<and> \<not> bit (ica_imr (adapter_state s a)) l \<and>
     \<not> bit (iretHookActive s) (8 * a + l) \<and> \<not> bit (DelayIrqLine s) (8 * a + l))"

definition pic_serving :: "nat \<Rightarrow> ica \<Rightarrow> nat \<Rightarrow> bool" where
  "pic_serving a s l = (l < 8 \<and> ica_mode (adapter_state s a) AND (ICA_SMM OR ICA_SFNM) = 0 \<and> bit (ica_isr (adapter_state s a)) l)"

text \<open>A request wins when no other request is ahead of it and no line at or ahead of it is in service.\<close>

definition pic_wins :: "nat \<Rightarrow> ica \<Rightarrow> nat \<Rightarrow> bool" where
  "pic_wins a s l =
     (let h = unat (ica_hipri (adapter_state s a))
      in pic_request a s l \<and> (\<forall>m < 8. pic_request a s m \<longrightarrow> prio h l \<le> prio h m) \<and>
         (\<forall>m < 8. pic_serving a s m \<longrightarrow> prio h l < prio h m))"

lemma scan_loop_find:
  "scan_loop h act irr is =
     (case find (\<lambda>i. bit act ((h + i) mod 8) \<or> bit irr ((h + i) mod 8)) is of
        None \<Rightarrow> 7
      | Some i \<Rightarrow> if bit act ((h + i) mod 8) then 7 else 0x80 + of_nat ((h + i) mod 8))"
  by (induction "is") (simp_all add: Let_def)

lemma find_upt: "find P [0..<n] = Some i \<longleftrightarrow> i < n \<and> P i \<and> (\<forall>k < i. \<not> P k)"
  by (auto simp: find_Some_iff)

lemma lt8: "l < 8 \<Longrightarrow> l = 0 \<or> l = 1 \<or> l = 2 \<or> l = 3 \<or> l = 4 \<or> l = 5 \<or> l = 6 \<or> l = (7 :: nat)"
  by arith

lemma reply [simp]:
  assumes "l < 8"
  shows "unat (0x80 + of_nat l :: IU8) = 128 + l" "(0x80 + of_nat l) AND 0x80 \<noteq> (0 :: IU8)"
    "unat ((0x80 + of_nat l) AND 7 :: IU8) = l" "0x80 + of_nat l \<noteq> (7 :: IU8)"
  using lt8 [OF assms] by auto

lemma reply_inj: "j < 8 \<Longrightarrow> l < 8 \<Longrightarrow> (0x80 + of_nat j = (0x80 + of_nat l :: IU8)) = (j = l)"
  using reply(1) by (metis add_left_imp_eq)

lemma scan_loop_wins:
  assumes l: "l < 8"
  shows "(scan_loop h act irr [0..<8] = 0x80 + of_nat l) =
         (bit irr l \<and> (\<forall>m < 8. bit irr m \<longrightarrow> prio h l \<le> prio h m) \<and> (\<forall>m < 8. bit act m \<longrightarrow> prio h l < prio h m))"
  (is "?L = ?R")
proof -
  let ?P = "\<lambda>i. bit act ((h + i) mod 8) \<or> bit irr ((h + i) mod 8)"
  have "?L = (find ?P [0..<8] = Some (prio h l) \<and> \<not> bit act l)"
  proof (cases "find ?P [0..<8]")
    case None
    then show ?thesis using reply(4) [OF l] by (simp add: scan_loop_find)
  next
    case (Some i)
    then have i: "i < 8" by (simp add: find_upt)
    have "((h + i) mod 8 = l) = (i = prio h l)" using prio_of [OF i, of h] of_prio [OF l, of h] by auto
    then show ?thesis using Some reply(4) [OF l] reply_inj [of "(h + i) mod 8" l] l
      by (auto simp: scan_loop_find)
  qed
  also have "\<dots> = (\<not> bit act l \<and> bit irr l \<and> (\<forall>k < prio h l. \<not> ?P k))"
    by (auto simp: find_upt prio_less of_prio [OF l])
  also have "(\<forall>k < prio h l. \<not> ?P k) = (\<forall>m < 8. bit act m \<or> bit irr m \<longrightarrow> prio h l \<le> prio h m)"
  proof (intro iffI allI impI)
    fix m :: nat
    assume a: "\<forall>k < prio h l. \<not> ?P k" and m: "m < 8" "bit act m \<or> bit irr m"
    show "prio h l \<le> prio h m" using a m(2) of_prio [OF m(1), of h] by (metis not_less)
  next
    fix k
    assume a: "\<forall>m < 8. bit act m \<or> bit irr m \<longrightarrow> prio h l \<le> prio h m" and k: "k < prio h l"
    then have "k < 8" using prio_less [of h l] by simp
    then show "\<not> ?P k" using a k prio_of [of k h] by (metis mod_less_divisor not_less zero_less_numeral)
  qed
  finally show ?thesis using prio_inj [of l _ h] l by (auto simp: le_less)
qed

lemma scan_loop_range: "scan_loop h act irr is = 7 \<or> (\<exists>l < 8. scan_loop h act irr is = 0x80 + of_nat l)"
proof (induction "is")
  case (Cons i "is")
  have "(h + i) mod 8 < 8" by simp
  then have "\<exists>l < 8. of_nat ((h + i) mod 8) = (of_nat l :: IU8)" by blast
  then show ?case using Cons unfolding scan_loop.simps Let_def by auto
qed simp

lemma scan_irr_loop:
  "ica_scan_irr a s =
     scan_loop (unat (ica_hipri (adapter_state s a)))
       (if ica_mode (adapter_state s a) AND (ICA_SMM OR ICA_SFNM) \<noteq> 0 then 0 else ica_isr (adapter_state s a))
       (ica_irr (adapter_state s a) AND NOT (ica_imr (adapter_state s a) OR
          ucast (drop_bit (8 * a) (ucast (iretHookActive s) OR DelayIrqLine s)))) [0..<8]"
proof -
  have "scan_loop h act 0 is = 7" for h act "is" by (induction "is") (simp_all add: Let_def)
  then show ?thesis by (simp add: ica_scan_irr_def Let_def del: drop_bit_or)
qed

lemma held_bit:
  "l < 8 \<Longrightarrow> bit (ucast (drop_bit (8 * a) (ucast (h :: IU16) OR (d :: IU32))) :: IU8) l = (bit h (8 * a + l) \<or> bit d (8 * a + l))"
  using bit_imp_le_length [of h "8 * a + l"] by (auto simp: bit_simps)

lemma scan_wins: "l < 8 \<Longrightarrow> (ica_scan_irr a s = 0x80 + of_nat l) = pic_wins a s l"
  unfolding scan_irr_loop by (subst scan_loop_wins) (auto simp: pic_wins_def pic_request_def pic_serving_def Let_def held_bit bit_and_iff bit_or_iff bit_not_iff simp del: drop_bit_or)

lemma pic_wins_less: "pic_wins a s l \<Longrightarrow> l < 8"
  by (simp add: pic_wins_def pic_request_def Let_def)

lemma scan_cases:
  obtains (none) "ica_scan_irr a s = 7" "\<And>l. \<not> pic_wins a s l"
  | (win) l where "l < 8" "pic_wins a s l" "ica_scan_irr a s = 0x80 + of_nat l"
proof -
  consider "ica_scan_irr a s = 7" | l where "l < 8" "ica_scan_irr a s = 0x80 + of_nat l"
    using scan_loop_range unfolding scan_irr_loop by blast
  then show thesis
  proof cases
    case 1
    then have "\<not> pic_wins a s l" for l using scan_wins [of l a s] pic_wins_less [of a s l] reply(4) [of l] by auto
    then show thesis using 1 none by blast
  next
    case 2
    then show thesis using scan_wins win by blast
  qed
qed


section \<open>Updates of one adapter\<close>

lemma asp_upd_get [simp]: "adapter_state (asp_upd a f s) b = (if b = a then f (adapter_state s a) else adapter_state s b)"
  by (simp add: asp_upd_def)

lemma asp_upd_frame [simp]:
  "sequence (asp_upd a f s) = sequence s" "ica_lock (asp_upd a f s) = ica_lock s"
  "iretHooksEnabled (asp_upd a f s) = iretHooksEnabled s" "iretHookMask (asp_upd a f s) = iretHookMask s"
  "iretHookActive (asp_upd a f s) = iretHookActive s" "howoften (asp_upd a f s) = howoften s"
  "cpu_interrupt_map (asp_upd a f s) = cpu_interrupt_map s" "softpc_eoi_hooks (asp_upd a f s) = softpc_eoi_hooks s"
  "DelayIrqLine (asp_upd a f s) = DelayIrqLine s" "softpc_eoi_delay_handles (asp_upd a f s) = softpc_eoi_delay_handles s"
  "async_handlers (asp_upd a f s) = async_handlers s" "ica_ub (asp_upd a f s) = ica_ub s"
  by (simp_all add: asp_upd_def)

lemma hw_int_frame [simp]:
  "adapter_state (host_set_hw_int s) = adapter_state s" "adapter_state (host_clear_hw_int s) = adapter_state s"
  "sequence (host_set_hw_int s) = sequence s" "sequence (host_clear_hw_int s) = sequence s"
  "ica_lock (host_set_hw_int s) = ica_lock s" "ica_lock (host_clear_hw_int s) = ica_lock s"
  "iretHookMask (host_set_hw_int s) = iretHookMask s" "iretHookMask (host_clear_hw_int s) = iretHookMask s"
  "iretHookActive (host_set_hw_int s) = iretHookActive s" "iretHookActive (host_clear_hw_int s) = iretHookActive s"
  "softpc_eoi_hooks (host_set_hw_int s) = softpc_eoi_hooks s" "softpc_eoi_hooks (host_clear_hw_int s) = softpc_eoi_hooks s"
  "DelayIrqLine (host_set_hw_int s) = DelayIrqLine s" "DelayIrqLine (host_clear_hw_int s) = DelayIrqLine s"
  "async_handlers (host_set_hw_int s) = async_handlers s" "async_handlers (host_clear_hw_int s) = async_handlers s"
  "ica_ub (host_set_hw_int s) = ica_ub s" "ica_ub (host_clear_hw_int s) = ica_ub s"
  by (simp_all add: host_set_hw_int_def host_clear_hw_int_def)

lemma hw_int_bit [simp]:
  "bit (cpu_interrupt_map (host_set_hw_int s)) i = (bit (cpu_interrupt_map s) i \<or> i = 0)"
  "bit (cpu_interrupt_map (host_clear_hw_int s)) i = (bit (cpu_interrupt_map s) i \<and> i \<noteq> 0)"
  by (auto simp: host_set_hw_int_def host_clear_hw_int_def bit_simps dest: bit_imp_le_length)

section \<open>The invariant\<close>

text \<open>
  A request bit is set exactly when requests are counted on its line, no count is negative, the
  priority is a line number, the vector base leaves room for the line, and no hooked handler is active.
\<close>

definition adapter_ok :: "ADAPTER_STATE \<Rightarrow> bool" where
  "adapter_ok asp =
     (length (ica_count asp) = 8 \<and> length (callback_fn asp) = 8 \<and> length (callback_parm asp) = 8 \<and>
      (\<forall>l < 8. 0 \<le> ica_count asp ! l \<and> bit (ica_irr asp) l = (0 < ica_count asp ! l)) \<and>
      unat (ica_hipri asp) < 8 \<and> ica_base asp AND 7 = 0 \<and> unat (ica_base asp) < 256 \<and>
      isr_depth asp = replicate 8 0)"

definition pic_inv :: "ica \<Rightarrow> bool" where
  "pic_inv s =
     (adapter_ok (adapter_state s 0) \<and> adapter_ok (adapter_state s 1) \<and>
      ica_master (adapter_state s 0) \<and> \<not> ica_master (adapter_state s 1) \<and>
      unat (ica_ssr (adapter_state s 1)) < 8 \<and>
      sequence s 0 \<in> {- 1, 0, 2, 3, 4} \<and> sequence s 1 \<in> {- 1, 0, 2, 3, 4} \<and>
      iretHookMask s = 0 \<and> iretHookActive s = 0 \<and> async_handlers s = [] \<and>
      length (softpc_eoi_hooks s) = 16 \<and> \<not> ica_ub s)"

lemma pic_inv_asp_upd:
  assumes "pic_inv s" "a < 2" "adapter_ok (adapter_state s a) \<Longrightarrow> adapter_ok (f (adapter_state s a))"
    "ica_master (f (adapter_state s a)) = ica_master (adapter_state s a)"
    "a = 0 \<or> unat (ica_ssr (f (adapter_state s a))) < 8"
  shows "pic_inv (asp_upd a f s)"
proof -
  have "a = 0 \<or> a = 1" using assms(2) by auto
  then show ?thesis using assms by (auto simp: pic_inv_def)
qed

lemma pic_inv_upd:
  assumes "pic_inv s" "a < 2" "adapter_ok (adapter_state s a) \<Longrightarrow> adapter_ok (f (adapter_state s a))"
    "ica_master (f (adapter_state s a)) = ica_master (adapter_state s a)"
    "ica_ssr (f (adapter_state s a)) = ica_ssr (adapter_state s a)"
  shows "pic_inv (asp_upd a f s)"
proof -
  have "a = 0 \<or> a = 1" using assms(2) by auto
  then show ?thesis using assms by (intro pic_inv_asp_upd) (auto simp: pic_inv_def)
qed

lemma pic_inv_fields [simp]:
  "pic_inv (s\<lparr>ica_lock := k\<rparr>) = pic_inv s" "pic_inv (host_set_hw_int s) = pic_inv s"
  "pic_inv (host_clear_hw_int s) = pic_inv s" "pic_inv (s\<lparr>cpu_interrupt_map := m\<rparr>) = pic_inv s"
  "pic_inv (s\<lparr>howoften := n\<rparr>) = pic_inv s"
  by (simp_all add: pic_inv_def)

lemma pic_inv_raise: "pic_inv s \<Longrightarrow> a < 2 \<Longrightarrow> l < 8 \<Longrightarrow> 0 < k \<Longrightarrow> pic_inv (raise_line a l k s)"
  unfolding raise_line_def
  by (rule pic_inv_upd) (auto simp: adapter_ok_def nth_list_update bit_or_iff add_nonneg_pos)

lemma pic_inv_progress: "pic_inv s \<Longrightarrow> a < 2 \<Longrightarrow> l < 8 \<Longrightarrow> note_progress a l s = s"
proof -
  assume "pic_inv s" "a < 2" "l < 8"
  moreover from this have "a = 0 \<or> a = 1" by auto
  ultimately have "isr_depth (adapter_state s a) ! l = 0" by (auto simp: pic_inv_def adapter_ok_def)
  then show ?thesis by (simp add: note_progress_def)
qed

text \<open>
  A predicate kept by the elementary updates of a request is kept by the whole request, through the
  cascade from the slave to the master.
\<close>

locale request_invariant =
  fixes Q :: "ica \<Rightarrow> bool"
  assumes inv: "Q s \<Longrightarrow> pic_inv s"
    and int_line: "Q s \<Longrightarrow> a < 2 \<Longrightarrow> Q (asp_upd a (\<lambda>asp. asp\<lparr>ica_int_line := l\<rparr>) s)"
    and cpu_int: "Q s \<Longrightarrow> a < 2 \<Longrightarrow> Q (asp_upd a (\<lambda>asp. asp\<lparr>ica_int_line := l, ica_cpu_int := True\<rparr>) s)"
    and set_hw: "Q s \<Longrightarrow> Q (host_set_hw_int s)"
    and lock: "Q s \<Longrightarrow> Q (s\<lparr>ica_lock := w\<rparr>)"
    and raised: "Q s \<Longrightarrow> a < 2 \<Longrightarrow> l < 8 \<Longrightarrow> 0 < k \<Longrightarrow> Q (raise_line a l k s)"
begin

lemma roles: "Q s \<Longrightarrow> ica_master (adapter_state s 0)" "Q s \<Longrightarrow> \<not> ica_master (adapter_state s 1)"
  "Q s \<Longrightarrow> unat (ica_ssr (adapter_state s 1)) < 8"
  using inv by (auto simp: pic_inv_def)

lemma interrupt_master: "Q s \<Longrightarrow> Q (ica_interrupt_cpu 0 l s)"
  unfolding ica_interrupt_cpu.simps [of 0 l s] Let_def using roles int_line cpu_int set_hw by simp

lemma deliver: "Q s \<Longrightarrow> a < 2 \<Longrightarrow> (\<And>l s. Q s \<Longrightarrow> Q (ica_interrupt_cpu a l s)) \<Longrightarrow> l < 8 \<Longrightarrow> 0 < k \<Longrightarrow>
   Q (SWPIC_hw_interrupt a l k s)"
  unfolding SWPIC_hw_interrupt.simps [of a l k s] Let_def
  using lock raised pic_inv_progress [OF inv] by simp

lemma interrupt_cpu: "Q s \<Longrightarrow> a < 2 \<Longrightarrow> Q (ica_interrupt_cpu a l s)"
proof -
  assume Q: "Q s" and "a < 2"
  then consider "a = 0" | "a = 1" by linarith
  then show ?thesis
  proof cases
    case 1
    then show ?thesis using Q interrupt_master by simp
  next
    case 2
    have "Q (SWPIC_hw_interrupt 0 m 1 t)" if "Q t" "m < 8" for m t
      using that interrupt_master by (intro deliver) simp_all
    then show ?thesis unfolding 2 ica_interrupt_cpu.simps [of 1 l s] Let_def
      using Q roles int_line cpu_int lock by simp
  qed
qed

lemma hw_interrupt: "Q s \<Longrightarrow> a < 2 \<Longrightarrow> l < 8 \<Longrightarrow> 0 < k \<Longrightarrow> Q (SWPIC_hw_interrupt a l k s)"
  using interrupt_cpu by (intro deliver)

lemma requests: "Q s \<Longrightarrow> \<forall>(a, l, k) \<in> set rs. a < 2 \<and> l < 8 \<and> 0 < k \<Longrightarrow>
   Q (fold (\<lambda>(a, l, k). SWPIC_hw_interrupt a l k) rs s)"
  by (induction rs arbitrary: s) (auto intro: hw_interrupt)

end

interpretation PIC: request_invariant pic_inv
  by unfold_locales (auto intro: pic_inv_raise intro!: pic_inv_upd simp: adapter_ok_def)

section \<open>Devices behind the function pointers\<close>

text \<open>
  A registered end-of-interrupt hook or action callback is device code: whatever else it does, it
  reaches the controllers by raising interrupt lines.
\<close>

definition acts_by_requests :: "(ica \<Rightarrow> ica) \<Rightarrow> bool" where
  "acts_by_requests g = (\<forall>s. \<exists>rs. (\<forall>(a, l, k) \<in> set rs. a < 2 \<and> l < 8 \<and> 0 < k) \<and>
     g s = fold (\<lambda>(a, l, k). SWPIC_hw_interrupt a l k) rs s)"

definition env_ok :: "host_env \<Rightarrow> bool" where
  "env_ok env = ((\<forall>f irq n. acts_by_requests (eoi_proc env f irq n)) \<and>
                 (\<forall>f p. acts_by_requests (callback_proc env f p)))"

context request_invariant
begin

lemma acts: "acts_by_requests g \<Longrightarrow> Q s \<Longrightarrow> Q (g s)"
  unfolding acts_by_requests_def by (metis requests)

lemma eoi_hook: "env_ok env \<Longrightarrow> Q s \<Longrightarrow> Q (host_EOI_hook env irq n s)"
  by (auto simp: host_EOI_hook_def env_ok_def intro: acts)

end

lemma adapter_ok_drop:
  "adapter_ok asp \<Longrightarrow> l < 8 \<Longrightarrow> adapter_ok (asp\<lparr>ica_irr := ica_irr asp AND NOT (line_bit l), ica_count := (ica_count asp)[l := 0]\<rparr>)"
  by (auto simp: adapter_ok_def nth_list_update bit_and_iff bit_not_iff)

lemma adapter_ok_count:
  assumes "adapter_ok asp" "l < 8" "0 < n" "0 < ica_count asp ! l"
  shows "adapter_ok (asp\<lparr>ica_count := (ica_count asp)[l := n]\<rparr>)"
proof -
  have "0 \<le> (ica_count asp)[l := n] ! m \<and> bit (ica_irr asp) m = (0 < (ica_count asp)[l := n] ! m)" if "m < 8" for m
    using assms that by (cases "m = l") (simp_all add: adapter_ok_def)
  then show ?thesis using assms(1) by (simp add: adapter_ok_def)
qed

text \<open>The updates of \<open>SWPIC_clear_int\<close> and its equation over them.\<close>

definition drop_line :: "nat \<Rightarrow> nat \<Rightarrow> ica \<Rightarrow> ica" where
  "drop_line a l = asp_upd a (\<lambda>asp. asp\<lparr>ica_irr := ica_irr asp AND NOT (line_bit l), ica_count := (ica_count asp)[l := 0]\<rparr>)"

definition count_line :: "nat \<Rightarrow> nat \<Rightarrow> int \<Rightarrow> ica \<Rightarrow> ica" where
  "count_line a l n = asp_upd a (\<lambda>asp. asp\<lparr>ica_count := (ica_count asp)[l := n]\<rparr>)"

definition lower_int :: "nat \<Rightarrow> ica \<Rightarrow> ica" where
  "lower_int a = asp_upd a (\<lambda>asp. asp\<lparr>ica_cpu_int := False\<rparr>)"

lemma clear_int_eq:
  fixes s :: ica
  assumes "a < 2" "l < 8"
  defines "asp \<equiv> adapter_state s a"
  shows "SWPIC_clear_int env a l s =
    (if ica_count asp ! l - 1 \<le> 0
     then (if \<not> ica_master asp \<and> ica_scan_irr a (drop_line a l s) = 7
           then SWPIC_clear_int env 0 (unat (ica_ssr asp)) (lower_int a (drop_line a l s))
           else Some (if ica_master asp \<and> ica_cpu_int asp \<and> ica_scan_irr a (drop_line a l s) = 7
                      then host_clear_hw_int (lower_int a (drop_line a l s)) else drop_line a l s)) \<bind>
          (\<lambda>t. Some (if bit (ica_irr asp) l then host_EOI_hook env (int l + 8 * int a) (- 1) t else t))
     else Some (count_line a l (ica_count asp ! l - 1) s))"
proof -
  have g: "(1 < a \<or> 7 < l) = False" using assms(1,2) by auto
  show ?thesis
    unfolding SWPIC_clear_int.simps [of env a l s] Let_def g if_False drop_line_def [symmetric] lower_int_def [symmetric]
      count_line_def [symmetric] asp_def [symmetric] and_line_bit not_not
    by (simp only: if_distrib [of Some])
qed

lemma pic_inv_drop: "pic_inv s \<Longrightarrow> a < 2 \<Longrightarrow> l < 8 \<Longrightarrow> pic_inv (drop_line a l s)"
  unfolding drop_line_def by (intro pic_inv_upd adapter_ok_drop) simp_all

lemma pic_inv_lower: "pic_inv s \<Longrightarrow> a < 2 \<Longrightarrow> pic_inv (lower_int a s)"
  unfolding lower_int_def by (intro pic_inv_upd) (simp_all add: adapter_ok_def)

lemma pic_inv_count: "pic_inv s \<Longrightarrow> a < 2 \<Longrightarrow> l < 8 \<Longrightarrow> 0 < n \<Longrightarrow> 0 < ica_count (adapter_state s a) ! l \<Longrightarrow> pic_inv (count_line a l n s)"
  unfolding count_line_def by (intro pic_inv_upd adapter_ok_count) simp_all

locale pic_devices =
  fixes env :: host_env
  assumes devices: "env_ok env"
begin

lemma clear_last_master:
  assumes "pic_inv (drop_line 0 l s)" "l < 8" "ica_count (adapter_state s 0) ! l \<le> 1"
  shows "\<exists>t. SWPIC_clear_int env 0 l s = Some t \<and> pic_inv t"
proof -
  have "ica_master (adapter_state s 0)" using PIC.roles(1) [OF assms(1)] by (simp add: drop_line_def)
  then show ?thesis
    using assms pic_inv_lower [OF assms(1), of 0] PIC.eoi_hook [OF devices] by (simp add: clear_int_eq)
qed

lemma clear_master: "pic_inv s \<Longrightarrow> l < 8 \<Longrightarrow> \<exists>t. SWPIC_clear_int env 0 l s = Some t \<and> pic_inv t"
  using clear_last_master [of l s] pic_inv_drop [of s 0 l] pic_inv_count [of s 0 l]
  by (cases "ica_count (adapter_state s 0) ! l \<le> 1") (simp_all add: clear_int_eq)

lemma clear_last:
  assumes d: "pic_inv (drop_line a l s)" and a: "a < 2" and l: "l < 8" and "ica_count (adapter_state s a) ! l \<le> 1"
  shows "\<exists>t. SWPIC_clear_int env a l s = Some t \<and> pic_inv t"
proof (cases "\<not> ica_master (adapter_state s a) \<and> ica_scan_irr a (drop_line a l s) = 7")
  case True
  have roles: "ica_master (adapter_state s 0)" "unat (ica_ssr (adapter_state s 1)) < 8"
    using PIC.roles [OF d] by (auto simp: drop_line_def split: if_splits)
  then have "a \<noteq> 0" using True by metis
  then have "a = 1" using a by linarith
  then obtain t where "SWPIC_clear_int env 0 (unat (ica_ssr (adapter_state s a))) (lower_int a (drop_line a l s)) = Some t" "pic_inv t"
    using clear_master [OF pic_inv_lower [OF d a]] roles(2) by blast
  then show ?thesis using True assms PIC.eoi_hook [OF devices] by (simp add: clear_int_eq)
next
  case False
  then show ?thesis
    using assms pic_inv_lower [OF d a] PIC.eoi_hook [OF devices] by (auto simp add: clear_int_eq)
qed

lemma clear_int_inv: "pic_inv s \<Longrightarrow> a < 2 \<Longrightarrow> l < 8 \<Longrightarrow> \<exists>t. SWPIC_clear_int env a l s = Some t \<and> pic_inv t"
  using clear_last [of a l s] pic_inv_drop [of s a l] pic_inv_count [of s a l]
  by (cases "ica_count (adapter_state s a) ! l \<le> 1") (simp_all add: clear_int_eq)

lemma cancel_inv: "pic_inv s \<Longrightarrow> a < 2 \<Longrightarrow> l < 8 \<Longrightarrow> \<exists>t. ica_hw_interrupt_cancel env a l s = Some t \<and> pic_inv t"
proof -
  assume s: "pic_inv s" and a: "a < 2" and l: "l < 8"
  have "drop_line a l (count_line a l 0 s) = drop_line a l s"
    by (simp add: drop_line_def count_line_def asp_upd_def)
  moreover have "ica_count (adapter_state (count_line a l 0 s) a) ! l = 0"
    using s a l by (auto simp: count_line_def pic_inv_def adapter_ok_def less_2_cases_iff)
  ultimately have "\<exists>t. SWPIC_clear_int env a l (count_line a l 0 s) = Some t \<and> pic_inv t"
    using pic_inv_drop [OF s a l] a l by (intro clear_last) simp_all
  then show ?thesis using a l by (simp add: ica_hw_interrupt_cancel_def count_line_def)
qed

lemma pic_inv_hipri:
  assumes "pic_inv s" "a < 2" shows "pic_inv (asp_upd a (\<lambda>asp. asp\<lparr>ica_hipri := word_of_int (n mod 8)\<rparr>) s)"
proof -
  have "uint (word_of_int (n mod 8) :: IU16) = n mod 8"
    by (simp add: uint_word_of_int mod_pos_pos_trivial order_less_trans [OF pos_mod_bound [of 8 n]])
  moreover have "n mod 8 < 8" by simp
  ultimately have "unat (word_of_int (n mod 8) :: IU16) < 8" by (metis of_nat_less_iff of_nat_numeral uint_nat)
  then show ?thesis using assms by (intro pic_inv_upd) (simp_all add: adapter_ok_def)
qed

lemma eoi_inv: "pic_inv s \<Longrightarrow> a < 2 \<Longrightarrow> - 1 \<le> line \<Longrightarrow> line < 8 \<Longrightarrow> pic_inv (snd (ica_eoi env a line rot s))"
proof -
  assume s: "pic_inv s" and a: "a < 2" and l: "- 1 \<le> line" "line < 8"
  have isr: "pic_inv (asp_upd a (\<lambda>asp. asp\<lparr>ica_isr := g asp\<rparr>) t)" if "pic_inv t" for g t
    using that a by (intro pic_inv_upd) (simp_all add: adapter_ok_def)
  note keep = isr pic_inv_hipri [OF _ a] PIC.eoi_hook [OF devices] PIC.interrupt_cpu [OF _ a]
  show ?thesis unfolding ica_eoi_def Let_def using s keep
    by (auto split: option.splits prod.splits if_splits)
qed

end

lemma serve_simps [simp]:
  "ica_master (serve l asp) = ica_master asp" "ica_imr (serve l asp) = ica_imr asp" "ica_ssr (serve l asp) = ica_ssr asp"
  "ica_base (serve l asp) = ica_base asp" "ica_hipri (serve l asp) = ica_hipri asp" "ica_mode (serve l asp) = ica_mode asp"
  "ica_cpu_int (serve l asp) = ica_cpu_int asp" "callback_fn (serve l asp) = callback_fn asp"
  "callback_parm (serve l asp) = callback_parm asp" "isr_depth (serve l asp) = isr_depth asp"
  "ica_isr (serve l asp) = ica_isr asp OR line_bit l"
  by (simp_all add: serve_def Let_def)

lemma adapter_ok_serve:
  assumes "adapter_ok asp" "l < 8" "bit (ica_irr asp) l"
  shows "adapter_ok (serve l asp)"
proof -
  have isr: "adapter_ok (asp\<lparr>ica_isr := w\<rparr>) = adapter_ok asp" for asp w by (simp add: adapter_ok_def)
  have "0 < ica_count asp ! l" using assms by (simp add: adapter_ok_def)
  then show ?thesis
    using assms adapter_ok_drop [of "asp\<lparr>ica_isr := ica_isr asp OR line_bit l\<rparr>" l]
      adapter_ok_count [of "asp\<lparr>ica_isr := ica_isr asp OR line_bit l\<rparr>" l "ica_count asp ! l - 1"]
    unfolding serve_def Let_def isr by simp
qed

lemma pic_inv_adapter: "pic_inv s \<Longrightarrow> a < 2 \<Longrightarrow> adapter_ok (adapter_state s a)"
  by (cases "a = 0") (auto simp: pic_inv_def dest: less_2_cases)

lemma pic_inv_depth: "pic_inv s \<Longrightarrow> a < 2 \<Longrightarrow> l < 8 \<Longrightarrow> isr_depth (adapter_state s a) ! l = 0"
  using pic_inv_adapter [of s a] by (simp add: adapter_ok_def)

text \<open>The two outcomes of \<open>ica_accept\<close>.\<close>

lemma accept_none: "(\<And>l. \<not> pic_wins a (lower_int a s) l) \<Longrightarrow> ica_accept env a s = (- 1, lower_int a s)"
  by (cases a "lower_int a s" rule: scan_cases) (simp_all add: ica_accept_def Let_def lower_int_def [symmetric])

lemma accept_win:
  assumes "pic_wins a (lower_int a s) l" "isr_depth (adapter_state s a) ! l < 3"
  shows "ica_accept env a s =
    (int l, let t = asp_upd a (serve l) (lower_int a s)
            in if ica_mode (adapter_state s a) AND ICA_AEOI \<noteq> 0
               then snd (ica_eoi env a (- 1) (ica_mode (adapter_state s a) AND ICA_RAEOI = ICA_RAEOI) t) else t)"
proof -
  have l: "l < 8" by (rule pic_wins_less [OF assms(1)])
  then have scan: "ica_scan_irr a (lower_int a s) = 0x80 + of_nat l" using assms(1) scan_wins by blast
  have f: "isr_depth (adapter_state (lower_int a s) a) = isr_depth (adapter_state s a)"
    "ica_mode (adapter_state (asp_upd a (serve l) (lower_int a s)) a) = ica_mode (adapter_state s a)"
    by (simp_all add: lower_int_def)
  show ?thesis
    unfolding ica_accept_def Let_def lower_int_def [symmetric] scan reply(3) [OF l] f
    using reply(2) [OF l] assms(2) by simp
qed

lemma pic_wins_irr: "pic_wins a s l \<Longrightarrow> bit (ica_irr (adapter_state s a)) l"
  by (simp add: pic_wins_def pic_request_def Let_def)

context pic_devices
begin

lemma accept_inv:
  assumes s: "pic_inv s" and a: "a < 2"
  shows "pic_inv (snd (ica_accept env a s))"
proof (cases "\<exists>l. pic_wins a (lower_int a s) l")
  case True
  then obtain l where w: "pic_wins a (lower_int a s) l" by blast
  have t: "pic_inv (lower_int a s)" by (rule pic_inv_lower [OF s a])
  have d: "isr_depth (adapter_state s a) ! l < 3"
    using pic_inv_depth [OF s a pic_wins_less [OF w]] by simp
  have v: "pic_inv (asp_upd a (serve l) (lower_int a s))"
    using t a pic_wins_less [OF w] pic_wins_irr [OF w] by (intro pic_inv_upd adapter_ok_serve) simp_all
  then show ?thesis using eoi_inv [OF v a, of "- 1"] unfolding accept_win [OF w d] Let_def by simp
next
  case False
  then show ?thesis using accept_none [of a s env] pic_inv_lower [OF s a] by simp
qed

lemma callback_inv: "pic_inv t \<Longrightarrow> a < 2 \<Longrightarrow> pic_inv (run_callback env a l t)"
proof -
  assume t: "pic_inv t" and a: "a < 2"
  have "pic_inv (callback_proc env f p t)" for f p
    using devices t by (intro PIC.acts [of "callback_proc env f p"]) (simp_all add: env_ok_def)
  then show ?thesis unfolding run_callback_def Let_def
    using a by (intro pic_inv_upd) (simp_all add: adapter_ok_def)
qed

lemma no_hook: "pic_inv t \<Longrightarrow> ica_iret_hook_needed l t = 0"
  by (simp add: ica_iret_hook_needed_def pic_inv_def)

lemma intack_inv: "pic_inv s \<Longrightarrow> pic_inv (snd (snd (ica_intack env h s)))"
proof -
  assume s: "pic_inv s"
  obtain line t where m: "ica_accept env 0 s = (line, t)" by (cases "ica_accept env 0 s")
  have t: "pic_inv t" using accept_inv [OF s, of 0] m by simp
  obtain line2 u where sl: "ica_accept env 1 t = (line2, u)" by (cases "ica_accept env 1 t")
  have u: "pic_inv u" using accept_inv [OF t, of 1] sl by simp
  have isr: "pic_inv (asp_upd 0 (\<lambda>asp. asp\<lparr>ica_isr := ica_isr asp AND NOT b\<rparr>) u)" for b
    using u by (intro pic_inv_upd) (simp_all add: adapter_ok_def)
  show ?thesis unfolding ica_intack_def m prod.case Let_def sl no_hook [OF t] no_hook [OF u]
    using t u callback_inv [OF t] callback_inv [OF u] isr by simp
qed

lemma take_inv: "pic_inv s \<Longrightarrow> pic_inv (snd (cpu_take_hw_int env i s))"
  using intack_inv [of s 0] by (auto simp: cpu_take_hw_int_def Let_def split: prod.splits)

lemma inb_inv: "pic_inv s \<Longrightarrow> pic_inv (snd (SWPIC_inb env port s))"
proof -
  assume s: "pic_inv s"
  have a: "adapter_for_port port < 2" by (simp add: adapter_for_port_def)
  have "pic_inv (asp_upd (adapter_for_port port) (\<lambda>asp. asp\<lparr>ica_mode := g asp\<rparr>) (s\<lparr>ica_lock := 1\<rparr>))" for g
    using s a by (intro pic_inv_upd) (simp_all add: adapter_ok_def)
  then show ?thesis using s accept_inv [OF _ a] by (simp add: SWPIC_inb_def Let_def)
qed

end

lemma pic_inv_ok: "pic_inv s \<Longrightarrow> a < 2 \<Longrightarrow> adapter_ok (f (adapter_state s a)) \<Longrightarrow>
   ica_master (f (adapter_state s a)) = ica_master (adapter_state s a) \<Longrightarrow>
   ica_ssr (f (adapter_state s a)) = ica_ssr (adapter_state s a) \<Longrightarrow> pic_inv (asp_upd a f s)"
  by (rule pic_inv_upd)

lemma pic_inv_seq: "pic_inv s \<Longrightarrow> sequence s = q \<Longrightarrow> n \<in> {- 1, 0, 2, 3, 4} \<Longrightarrow> a < 2 \<Longrightarrow> pic_inv (s\<lparr>sequence := q(a := n)\<rparr>)"
  by (cases "a = 0") (auto simp: pic_inv_def dest: less_2_cases)

lemma pic_inv_mode: "pic_inv s \<Longrightarrow> a < 2 \<Longrightarrow> pic_inv (asp_upd a (\<lambda>asp. asp\<lparr>ica_mode := g asp\<rparr>) s)"
  by (rule pic_inv_upd) (simp_all add: adapter_ok_def)

lemma icw1_inv: "pic_inv s \<Longrightarrow> a < 2 \<Longrightarrow> pic_inv (outb_icw1 a v s)"
  unfolding outb_icw1_def Let_def
  by (rule pic_inv_seq, rule pic_inv_asp_upd) (simp_all add: adapter_ok_def)

lemma ocw3_inv: "pic_inv s \<Longrightarrow> a < 2 \<Longrightarrow> pic_inv (outb_ocw3 a v s)"
  unfolding outb_ocw3_def Let_def by (simp add: pic_inv_mode)

lemma base_ok: "(ucast (v :: IU8) AND 0xf8) AND 7 = (0 :: IU16)" "unat (ucast v AND 0xf8 :: IU16) < 256"
proof -
  have "(0xf8 :: IU16) AND 7 = 0" by simp
  then show "(ucast v AND 0xf8) AND 7 = (0 :: IU16)" by (simp only: and.assoc and_zero_eq)
  have "ucast v AND 0xf8 \<le> (0xf8 :: IU16)" by (rule word_and_le1)
  then have "unat (ucast v AND 0xf8 :: IU16) \<le> unat (0xf8 :: IU16)" by (simp only: word_le_nat_alt)
  then show "unat (ucast v AND 0xf8 :: IU16) < 256" by simp
qed

lemma line7: "uint (v AND 7 :: IU8) < 8"
proof -
  have "v AND 7 \<le> (7 :: IU8)" by (rule word_and_le1)
  then show ?thesis by (simp add: word_le_def)
qed

lemma odd_port: "port AND 0xfffe = p \<Longrightarrow> port AND 1 \<noteq> 0 \<Longrightarrow> port = p OR 1" for port p :: IU16
proof -
  assume p: "port AND 0xfffe = p" "port AND 1 \<noteq> 0"
  have "port AND 1 = 1" using p(2) by (simp add: and_one_eq mod_2_eq_odd split: if_splits)
  moreover have "port = (port AND NOT 1) OR (port AND 1)" by (metis bit.conj_disj_distrib bit.disj_cancel_left bit.conj_one_right)
  moreover have "(0xfffe :: IU16) = NOT 1" by simp
  ultimately show ?thesis using p(1) by metis
qed

context pic_devices
begin

lemma ocw1_inv: "pic_inv s \<Longrightarrow> a < 2 \<Longrightarrow> \<exists>t. outb_ocw1 env a v s = Some t \<and> pic_inv t"
proof -
  assume s: "pic_inv s" and a: "a < 2"
  define u where "u = asp_upd a (\<lambda>asp. asp\<lparr>ica_imr := v\<rparr>) s"
  have u: "pic_inv u" unfolding u_def using s a by (intro pic_inv_upd) (simp_all add: adapter_ok_def)
  have l: "pic_inv (lower_int a u)" by (rule pic_inv_lower [OF u a])
  have "\<exists>t. (if ica_cpu_int (adapter_state u a) \<and> ica_imr (adapter_state u a) AND line_bit (ica_int_line (adapter_state u a)) \<noteq> 0
             then (if ica_master (adapter_state u a) then Some (host_clear_hw_int (lower_int a u))
                   else SWPIC_clear_int env 0 (unat (ica_ssr (adapter_state u a))) (lower_int a u))
             else Some u) = Some t \<and> pic_inv t"
  proof (cases "ica_master (adapter_state u a)")
    case True
    then show ?thesis using u l by simp
  next
    case False
    then have "a \<noteq> 0" using PIC.roles(1) [OF u] by metis
    then have "a = 1" using a by linarith
    then show ?thesis using clear_master [OF l, of "unat (ica_ssr (adapter_state u 1))"] PIC.roles(3) [OF u] u False by auto
  qed
  then obtain t where t: "pic_inv t" "outb_ocw1 env a v s =
      (let line = ica_scan_irr a t in Some (if \<not> ica_cpu_int (adapter_state t a) \<and> line AND 0x80 \<noteq> 0
                  then ica_interrupt_cpu a (unat (line AND 7)) t else t))"
    unfolding outb_ocw1_def Let_def lower_int_def u_def by auto
  then show ?thesis using PIC.interrupt_cpu [OF _ a] by (simp add: Let_def)
qed

lemma ocw2_inv: "pic_inv s \<Longrightarrow> a < 2 \<Longrightarrow> pic_inv (outb_ocw2 env a v s)"
proof -
  assume s: "pic_inv s" and a: "a < 2"
  have h: "unat ((ucast v + 1) AND 7 :: IU16) < 8"
  proof -
    have "(ucast v + 1) AND 7 \<le> (7 :: IU16)" by (rule word_and_le1)
    then show ?thesis by (simp add: word_le_nat_alt)
  qed
  have "pic_inv (asp_upd a (\<lambda>asp. asp\<lparr>ica_hipri := (ucast v + 1) AND 7\<rparr>) s)"
    using s a h by (intro pic_inv_upd) (simp_all add: adapter_ok_def)
  moreover have "- 1 \<le> uint (v AND 7)" by (rule order_trans [OF _ uint_ge_0]) simp
  ultimately show ?thesis
    using s pic_inv_mode [OF s a] eoi_inv [OF s a, of "- 1"] eoi_inv [OF s a, of "uint (v AND 7)"] line7 [of v]
    unfolding outb_ocw2_def Let_def by simp
qed

lemma outb_inv:
  assumes s: "pic_inv s" and ok: "\<not> (port = 0xa1 \<and> sequence s 1 = 3 \<and> 7 < v)"
  shows "\<exists>t. SWPIC_outb env port v s = Some t \<and> pic_inv t"
proof -
  define a where "a = adapter_for_port port"
  have a: "a < 2" by (simp add: a_def adapter_for_port_def)
  let ?s = "s\<lparr>ica_lock := 1\<rparr>"
  have s1: "pic_inv ?s" using s by simp
  have base: "pic_inv (asp_upd a (\<lambda>asp. asp\<lparr>ica_base := ucast v AND 0xf8\<rparr>) ?s)"
    using s1 a base_ok by (intro pic_inv_upd) (simp_all add: adapter_ok_def)
  have ssr: "pic_inv (asp_upd a (\<lambda>asp. asp\<lparr>ica_ssr := v\<rparr>) ?s)"
    if "port AND 0xfffe = ICA_PORT_0 a" "port AND 1 \<noteq> 0" "sequence s a = 3"
  proof -
    have "a = 0 \<or> unat v < 8"
    proof (cases "a = 0")
      case False
      then have "a = 1" using a by linarith
      then have "port = 0xa1" using odd_port [OF that(1,2)] by (simp add: ICA_PORT_0_def)
      then have "\<not> 7 < v" using ok that(3) \<open>a = 1\<close> by blast
      then show ?thesis by (simp add: word_less_nat_alt)
    qed simp
    then show ?thesis using s1 a by (intro pic_inv_asp_upd) (simp_all add: adapter_ok_def)
  qed
  show ?thesis
  proof (cases "port AND 0xfffe = ICA_PORT_0 a \<and> \<not> (port AND 1 = 0 \<and> v AND 0x10 \<noteq> 0)")
    case True
    have seq: "sequence s a \<in> {- 1, 0, 2, 3, 4}" using s a by (cases "a = 0") (auto simp: pic_inv_def dest: less_2_cases)
    consider "sequence s a = 0" | "sequence s a = 2" | "sequence s a = 3" | "sequence s a = 4" | "sequence s a = - 1"
      using seq by auto
    then show ?thesis
    proof cases
      case 1
      then show ?thesis
        using True ocw1_inv [OF s1 a, of v] ocw2_inv [OF s1 a, of v] ocw3_inv [OF s1 a, of v]
        by (auto simp: SWPIC_outb_def outb_icws_def Let_def a_def [symmetric])
    next
      case 2
      then show ?thesis using True s1 a base
        by (auto simp: SWPIC_outb_def outb_icws_def Let_def a_def [symmetric] intro!: pic_inv_seq)
    next
      case 3
      then show ?thesis using True s1 a ssr
        by (auto simp: SWPIC_outb_def outb_icws_def Let_def a_def [symmetric] intro!: pic_inv_seq)
    next
      case 4
      then show ?thesis using True s1 a
        by (auto simp: SWPIC_outb_def outb_icws_def Let_def a_def [symmetric] intro!: pic_inv_seq pic_inv_mode)
    next
      case 5
      then show ?thesis using True s1 by (auto simp: SWPIC_outb_def outb_icws_def Let_def a_def [symmetric])
    qed
  next
    case False
    then show ?thesis using s icw1_inv [OF s a, of v] by (auto simp: SWPIC_outb_def outb_icws_def Let_def a_def [symmetric])
  qed
qed

lemma action_inv: "pic_inv s \<Longrightarrow> a < 2 \<Longrightarrow> pic_inv (snd (action_interrupt a l f p s))"
proof -
  assume s: "pic_inv s" and a: "a < 2"
  have l: "l mod 8 < 8" by simp
  have "pic_inv (asp_upd a (\<lambda>asp. asp\<lparr>callback_fn := (callback_fn asp)[l mod 8 := f],
                  callback_parm := (callback_parm asp)[l mod 8 := p],
                  ica_irr := ica_irr asp OR line_bit (l mod 8),
                  ica_count := (ica_count asp)[l mod 8 := ica_count asp ! (l mod 8) + 1],
                  ica_isr := ica_isr asp OR line_bit (l mod 8)\<rparr>) s)"
    using s a by (intro pic_inv_upd) (auto simp: adapter_ok_def nth_list_update bit_or_iff)
  then show ?thesis using s a unfolding action_interrupt_def Let_def by simp
qed

lemma cancel_action_inv: "pic_inv s \<Longrightarrow> a < 2 \<Longrightarrow> l < 8 \<Longrightarrow> pic_inv (cancel_action_interrupt a l s)"
proof -
  assume s: "pic_inv s" and a: "a < 2" and l: "l < 8"
  show ?thesis
  proof (cases "callback_fn (adapter_state s a) ! l = 0")
    case True
    then show ?thesis unfolding cancel_action_interrupt_def Let_def using s a l
      by (auto intro!: pic_inv_upd simp: adapter_ok_def)
  next
    case False
    then show ?thesis unfolding cancel_action_interrupt_def Let_def using s a l
      by (auto intro!: pic_inv_upd simp: adapter_ok_def nth_list_update bit_and_iff bit_not_iff)
  qed
qed

lemma stale_inv: "pic_inv s \<Longrightarrow> pic_inv (ica_check_stale_iret_hook s)"
proof -
  assume s: "pic_inv s"
  have one: "stale_line a l t = t" if "pic_inv t" for a l t
    using that by (simp add: stale_line_def pic_inv_def)
  have "fold (stale_line a) ls t = t" if "pic_inv t" for a ls t
    using that by (induction ls) (simp_all add: one)
  then show ?thesis using s by (simp add: ica_check_stale_iret_hook_def Let_def)
qed

end

section \<open>Runs of the controllers\<close>

text \<open>
  One step is one call of the module: the guest's port accesses, a device raising or lowering a valid
  line, the CPU looking for an interrupt, the action interrupts and the timer's check of stale hooks.
  The slave's identity is whatever the guest writes as ICW3 of the slave, and the code uses it as a line of the master without
  a check. A run ends at a state whose identity is none of the eight lines.
\<close>

inductive pic_step :: "host_env \<Rightarrow> ica \<Rightarrow> ica \<Rightarrow> bool" for env where
  inb: "pic_step env s (snd (SWPIC_inb env port s))"
| outb: "SWPIC_outb env port v s = Some t \<Longrightarrow> pic_step env s t"
| request: "a < 2 \<Longrightarrow> l < 8 \<Longrightarrow> 0 < k \<Longrightarrow> pic_step env s (SWPIC_hw_interrupt a l k s)"
| clear: "a < 2 \<Longrightarrow> l < 8 \<Longrightarrow> SWPIC_clear_int env a l s = Some t \<Longrightarrow> pic_step env s t"
| cancel: "a < 2 \<Longrightarrow> l < 8 \<Longrightarrow> ica_hw_interrupt_cancel env a l s = Some t \<Longrightarrow> pic_step env s t"
| take: "pic_step env s (snd (cpu_take_hw_int env i s))"
| action: "a < 2 \<Longrightarrow> pic_step env s (snd (action_interrupt a l f p s))"
| cancel_action: "a < 2 \<Longrightarrow> l < 8 \<Longrightarrow> pic_step env s (cancel_action_interrupt a l s)"
| stale: "pic_step env s (ica_check_stale_iret_hook s)"
| control: "pic_step env s (ica_iret_hook_control a l e s)"
| sigio: "pic_step env s (ica_sigio_event env s)"

definition slave_identity :: "ica \<Rightarrow> nat" where
  "slave_identity s = unat (ica_ssr (adapter_state s 1))"

inductive pic_reachable :: "host_env \<Rightarrow> ica \<Rightarrow> bool" for env where
  power_on: "pic_reachable env (ica1_init (ica0_init ica_static))"
| step: "pic_reachable env s \<Longrightarrow> slave_identity s < 8 \<Longrightarrow> pic_step env s t \<Longrightarrow> pic_reachable env t"

text \<open>The slave with another identity, and with its identity made a line if it is none.\<close>

definition with_identity :: "IU8 \<Rightarrow> ica \<Rightarrow> ica" where
  "with_identity v = asp_upd 1 (\<lambda>asp. asp\<lparr>ica_ssr := v\<rparr>)"

definition identified :: "ica \<Rightarrow> ica" where
  "identified s = (if slave_identity s < 8 then s else with_identity 0 s)"

lemma identified_inv [simp]: "pic_inv s \<Longrightarrow> identified s = s"
  by (simp add: identified_def slave_identity_def pic_inv_def)

lemma pic_inv_power_on: "pic_inv (ica1_init (ica0_init ica_static))"
  by (simp add: pic_inv_def adapter_ok_def ica1_init_def ica0_init_def ica_sigio_init_def ica_static_def adapter0_def Let_def)

context pic_devices
begin

lemma icw3_eq:
  assumes "sequence s 1 = 3"
  shows "SWPIC_outb env 0xa1 v s = map_option (with_identity v) (SWPIC_outb env 0xa1 0 s)"
  using assms by (simp add: SWPIC_outb_def outb_icws_def adapter_for_port_def ICA_PORT_0_def Let_def with_identity_def asp_upd_def)

lemma outb_any_inv:
  assumes s: "pic_inv s"
  shows "\<exists>t. SWPIC_outb env port v s = Some t \<and> pic_inv (identified t)"
proof (cases "port = 0xa1 \<and> sequence s 1 = 3 \<and> 7 < v")
  case True
  obtain t where t: "SWPIC_outb env 0xa1 0 s = Some t" "pic_inv t" using outb_inv [OF s, of "0xa1" 0] by auto
  have "ica_ssr (adapter_state t 1) = 0"
    using t(1) True by (auto simp: SWPIC_outb_def outb_icws_def adapter_for_port_def ICA_PORT_0_def Let_def)
  then have "identified (with_identity v t) = t"
    using True by (simp add: identified_def with_identity_def slave_identity_def word_less_nat_alt asp_upd_def fun_upd_idem)
  then show ?thesis using t True icw3_eq [of s v] by simp
next
  case False
  from outb_inv [OF s False] show ?thesis by (metis identified_inv)
qed

lemma step_inv: "pic_step env s t \<Longrightarrow> pic_inv s \<Longrightarrow> pic_inv (identified t)"
proof (induction rule: pic_step.induct)
  case (sigio s)
  then have "async_handlers s = []" by (simp add: pic_inv_def)
  then show ?case using sigio by (simp add: ica_sigio_event_def)
next
  case (outb port v s t)
  then show ?case using outb_any_inv [of s port v] by auto
next
  case (clear a l s t)
  then show ?case using clear_int_inv [of s a l] by auto
next
  case (cancel a l s t)
  then show ?case using cancel_inv [of s a l] by auto
qed (simp_all add: inb_inv PIC.hw_interrupt take_inv action_inv cancel_action_inv stale_inv ica_iret_hook_control_def)

lemma reachable_inv: "pic_reachable env s \<Longrightarrow> pic_inv (identified s)"
proof (induction rule: pic_reachable.induct)
  case (step s t)
  then have "pic_inv s" by (simp add: identified_def)
  then show ?case by (rule step_inv [OF step.hyps(3)])
qed (simp add: pic_inv_power_on)

end

text \<open>The machine before any device has registered a hook: nothing stands behind the pointers.\<close>

definition no_devices :: host_env where
  "no_devices = \<lparr>eoi_proc = (\<lambda>f irq n s. s), callback_proc = (\<lambda>f p s. s), sigio_proc = (\<lambda>f s. s)\<rparr>"

text \<open>A device whose hook and callback raise one line of the master again, as the sound card's hook does.\<close>

definition rearming_device :: "nat \<Rightarrow> host_env" where
  "rearming_device l = \<lparr>eoi_proc = (\<lambda>f irq n. if n < 0 then (\<lambda>s. s) else SWPIC_hw_interrupt 0 (l mod 8) 1),
     callback_proc = (\<lambda>f p. SWPIC_hw_interrupt 0 (l mod 8) 1), sigio_proc = (\<lambda>f s. s)\<rparr>"

lemma acts_by_requests_id: "acts_by_requests (\<lambda>s. s)"
  unfolding acts_by_requests_def by (intro allI exI [of _ "[]"]) simp

lemma acts_by_requests_one: "a < 2 \<Longrightarrow> l < 8 \<Longrightarrow> 0 < k \<Longrightarrow> acts_by_requests (SWPIC_hw_interrupt a l k)"
  unfolding acts_by_requests_def by (intro allI exI [of _ "[(a, l, k)]"]) simp

interpretation ND: pic_devices no_devices
  by unfold_locales (simp add: env_ok_def no_devices_def acts_by_requests_id)

interpretation RD: pic_devices "rearming_device l" for l
proof unfold_locales
  have "acts_by_requests (SWPIC_hw_interrupt 0 (l mod 8) 1)" by (rule acts_by_requests_one) simp_all
  then show "env_ok (rearming_device l)"
    by (auto simp: env_ok_def rearming_device_def acts_by_requests_id)
qed

end
