(* ===== verification/Ica_Run.thy ===== *)
theory Ica_Run
  imports Ica_Inv
begin

text \<open>
  Interrupts on their way from a device to the CPU: raising a line of either controller, the
  acknowledge cycle through the cascade, the end of interrupt, the power-on programming of the
  controllers, the snapshot, and the places where the code loses an interrupt.
\<close>

section \<open>What decides the next interrupt\<close>

text \<open>Registers that a request never changes.\<close>

definition pic_setup :: "ica \<Rightarrow> nat \<Rightarrow> IU8 \<times> IU8 \<times> IU8 \<times> IU16 \<times> IU16 \<times> IU16 \<times> nat list" where
  "pic_setup s a = (let asp = adapter_state s a
     in (ica_isr asp, ica_imr asp, ica_ssr asp, ica_base asp, ica_hipri asp, ica_mode asp, callback_fn asp))"

lemma pic_setup_simps [simp]:
  "pic_setup (s\<lparr>ica_lock := w\<rparr>) = pic_setup s" "pic_setup (host_set_hw_int s) = pic_setup s"
  "pic_setup (asp_upd a (\<lambda>asp. asp\<lparr>ica_int_line := l\<rparr>) s) = pic_setup s"
  "pic_setup (asp_upd a (\<lambda>asp. asp\<lparr>ica_int_line := l, ica_cpu_int := True\<rparr>) s) = pic_setup s"
  "pic_setup (raise_line a l k s) = pic_setup s" "pic_setup (lower_int a s) = pic_setup s"
  by (simp_all add: fun_eq_iff pic_setup_def Let_def raise_line_def lower_int_def)

lemma held_simps [simp]:
  "DelayIrqLine (raise_line a l k s) = DelayIrqLine s" "iretHookActive (raise_line a l k s) = iretHookActive s"
  "DelayIrqLine (lower_int a s) = DelayIrqLine s" "iretHookActive (lower_int a s) = iretHookActive s"
  by (simp_all add: raise_line_def lower_int_def)

interpretation SU: request_invariant "\<lambda>s. pic_inv s \<and> pic_setup s = f \<and> DelayIrqLine s = d" for f d
  by unfold_locales (auto simp: PIC.int_line PIC.cpu_int PIC.raised)

lemma pic_wins_cong:
  assumes "pic_setup t a = pic_setup s a" "ica_irr (adapter_state t a) = ica_irr (adapter_state s a)"
    "DelayIrqLine t = DelayIrqLine s" "iretHookActive t = iretHookActive s"
  shows "pic_wins a t l = pic_wins a s l"
  using assms by (simp add: pic_setup_def Let_def pic_wins_def pic_request_def pic_serving_def)

section \<open>A request on the master\<close>

text \<open>The INT output of the master is the CPU's pending bit.\<close>

definition int_ok :: "ica \<Rightarrow> bool" where
  "int_ok s = (ica_cpu_int (adapter_state s 0) \<longrightarrow> bit (cpu_interrupt_map s) 0)"

lemma interrupt_master_eq:
  "ica_master (adapter_state s 0) \<Longrightarrow> ica_interrupt_cpu 0 l s =
     (if ica_cpu_int (adapter_state s 0) then asp_upd 0 (\<lambda>asp. asp\<lparr>ica_int_line := l\<rparr>) s
      else host_set_hw_int (asp_upd 0 (\<lambda>asp. asp\<lparr>ica_int_line := l, ica_cpu_int := True\<rparr>) s))"
  by (simp add: ica_interrupt_cpu.simps [of 0 l s] Let_def)

text \<open>Raising a line of the master while the lock is free.\<close>

lemma request_master:
  assumes s: "pic_inv s" and lock: "ica_lock s = 0" and ok: "int_ok s" and l: "l < 8" and k: "0 < k"
    and w: "pic_wins 0 (raise_line 0 l k s) m"
  defines "t \<equiv> SWPIC_hw_interrupt 0 l k s"
  shows "pic_inv t" "ica_lock t = 0" "ica_cpu_int (adapter_state t 0)" "bit (cpu_interrupt_map t) 0"
    "pic_wins 0 t m" "pic_setup t = pic_setup s" "adapter_state t 1 = adapter_state s 1"
    "int_ok t"
    "ica_count (adapter_state t 0) = (ica_count (adapter_state s 0))[l := ica_count (adapter_state s 0) ! l + k]"
proof -
  define u where "u = (raise_line 0 l k s)\<lparr>ica_lock := 1\<rparr>"
  have u: "pic_inv u" unfolding u_def using pic_inv_raise [OF s _ l k, of 0] by simp
  have scan: "ica_scan_irr 0 u = 0x80 + of_nat m"
    using w pic_wins_less [OF w] scan_wins [of m 0 u] pic_wins_cong [of u 0 "raise_line 0 l k s" m] by (simp add: u_def)
  have t: "t = (ica_interrupt_cpu 0 m u)\<lparr>ica_lock := 0\<rparr>"
    using l lock reply(2) [OF pic_wins_less [OF w]] reply(3) [OF pic_wins_less [OF w]] pic_inv_progress [OF u _ l, of 0] scan
    unfolding t_def SWPIC_hw_interrupt.simps [of 0 l k s] Let_def by (simp add: u_def raise_line_def)
  show "pic_inv t" unfolding t_def using s l k by (intro PIC.hw_interrupt) simp_all
  show "ica_lock t = 0" unfolding t by simp
  note eq = t interrupt_master_eq [OF PIC.roles(1) [OF u]]
  show "ica_cpu_int (adapter_state t 0)" unfolding eq by simp
  show b: "bit (cpu_interrupt_map t) 0" using ok unfolding eq by (simp add: u_def raise_line_def int_ok_def)
  then show "int_ok t" by (simp add: int_ok_def)
  have "pic_wins 0 t m = pic_wins 0 (raise_line 0 l k s) m"
    unfolding eq by (rule pic_wins_cong) (simp_all add: u_def)
  then show "pic_wins 0 t m" using w by blast
  show "pic_setup t = pic_setup s" unfolding eq by (simp add: u_def)
  show "adapter_state t 1 = adapter_state s 1" unfolding eq by (simp add: u_def raise_line_def)
  show "ica_count (adapter_state t 0) = (ica_count (adapter_state s 0))[l := ica_count (adapter_state s 0) ! l + k]"
    unfolding eq by (simp add: u_def raise_line_def)
qed

section \<open>A request on the slave\<close>

lemma request_slave:
  assumes s: "pic_inv s" and lock: "ica_lock s = 0" and ok: "int_ok s" and l: "l < 8" and k: "0 < k"
    and idle: "\<not> ica_cpu_int (adapter_state s 1)"
    and w: "pic_wins 1 (raise_line 1 l k s) m"
    and v: "pic_wins 0 (raise_line 0 (unat (ica_ssr (adapter_state s 1))) 1 s) n"
  defines "t \<equiv> SWPIC_hw_interrupt 1 l k s"
  shows "pic_inv t" "ica_lock t = 0" "bit (cpu_interrupt_map t) 0" "pic_wins 1 t m" "pic_wins 0 t n" "pic_setup t = pic_setup s"
proof -
  let ?c = "unat (ica_ssr (adapter_state s 1))"
  define u where "u = (raise_line 1 l k s)\<lparr>ica_lock := 1\<rparr>"
  define x where "x = (asp_upd 1 (\<lambda>asp. asp\<lparr>ica_int_line := m, ica_cpu_int := True\<rparr>) u)\<lparr>ica_lock := 0\<rparr>"
  have u: "pic_inv u" unfolding u_def using pic_inv_raise [OF s _ l k, of 1] by simp
  have x: "pic_inv x" unfolding x_def using PIC.cpu_int [OF u, of 1] by simp
  have scan: "ica_scan_irr 1 u = 0x80 + of_nat m"
    using w pic_wins_less [OF w] scan_wins [of m 1 u] pic_wins_cong [of u 1 "raise_line 1 l k s" m] by (simp add: u_def)
  have c: "?c < 8" by (rule PIC.roles(3) [OF s])
  have i: "ica_interrupt_cpu 1 m u = (SWPIC_hw_interrupt 0 ?c 1 x)\<lparr>ica_lock := ica_lock (SWPIC_hw_interrupt 0 ?c 1 x) + 1\<rparr>"
    using idle PIC.roles(2) [OF s] unfolding ica_interrupt_cpu.simps [of 1 m u] Let_def
    by (simp add: u_def x_def raise_line_def)
  have t: "t = (SWPIC_hw_interrupt 0 ?c 1 x)\<lparr>ica_lock := 0\<rparr>"
    using l lock reply(2) [OF pic_wins_less [OF w]] reply(3) [OF pic_wins_less [OF w]] pic_inv_progress [OF u _ l, of 1] scan i
    unfolding t_def SWPIC_hw_interrupt.simps [of 1 l k s] Let_def by (simp add: u_def raise_line_def)
  have "pic_wins 0 (raise_line 0 ?c 1 x) n = pic_wins 0 (raise_line 0 ?c 1 s) n"
    by (rule pic_wins_cong) (simp_all add: x_def u_def raise_line_def pic_setup_def)
  then have v': "pic_wins 0 (raise_line 0 ?c 1 x) n" using v by blast
  have "int_ok x" "ica_lock x = 0" using ok by (simp_all add: int_ok_def x_def u_def raise_line_def)
  note rm = request_master [OF x this(2,1) c zero_less_one v']
  show "pic_inv t" "ica_lock t = 0" "bit (cpu_interrupt_map t) 0" unfolding t using rm by simp_all
  show "pic_setup t = pic_setup s" unfolding t using rm(6) by (simp add: x_def u_def)
  have "pic_wins 0 t n = pic_wins 0 (SWPIC_hw_interrupt 0 ?c 1 x) n" unfolding t by (rule pic_wins_cong) simp_all
  then show "pic_wins 0 t n" using rm(5) by blast
  have d: "DelayIrqLine t = DelayIrqLine s" "iretHookActive t = iretHookActive s"
    using SU.hw_interrupt [of s "pic_setup s" "DelayIrqLine s" 1 l k] s l k
      PIC.hw_interrupt [OF s _ l k, of 1] by (auto simp: t_def pic_inv_def)
  have "pic_wins 1 t m = pic_wins 1 (raise_line 1 l k s) m"
    using rm(6,7) by (intro pic_wins_cong) (simp_all add: d, simp_all add: t x_def u_def)
  then show "pic_wins 1 t m" using w by blast
qed

section \<open>The acknowledge cycle\<close>

lemma wins_lower [simp]: "pic_wins a (lower_int b s) l = pic_wins a s l"
proof (rule pic_wins_cong)
  show "ica_irr (adapter_state (lower_int b s) a) = ica_irr (adapter_state s a)" by (simp add: lower_int_def)
qed simp_all

lemma map_bit: "bit m 0 \<Longrightarrow> m AND 1 \<noteq> 0" for m :: IU32
  using and_exp_neq_0_iff [of m 0] by simp

text \<open>Accepting the winning line outside automatic end of interrupt.\<close>

lemma accept_line:
  assumes "pic_inv s" "a < 2" "pic_wins a s l" "ica_mode (adapter_state s a) AND ICA_AEOI = 0"
  shows "ica_accept env a s = (int l, asp_upd a (serve l) (lower_int a s))"
  using accept_win [of a s l env] assms pic_inv_depth [OF assms(1,2) pic_wins_less [OF assms(3)]] by simp

lemma take_master:
  assumes s: "pic_inv s" and b: "bit (cpu_interrupt_map s) 0" and w: "pic_wins 0 s l"
    and aeoi: "ica_mode (adapter_state s 0) AND ICA_AEOI = 0"
    and ssr: "\<not> bit (ica_ssr (adapter_state s 0)) l" and cb: "callback_fn (adapter_state s 0) ! l = 0"
  defines "t \<equiv> asp_upd 0 (serve l) (lower_int 0 s)"
  shows "cpu_take_hw_int env True s =
    (Some (uint (ica_base (adapter_state s 0)) + int l), t\<lparr>cpu_interrupt_map := cpu_interrupt_map t AND NOT 1\<rparr>)"
proof -
  have "iretHookMask s = 0" using s by (simp add: pic_inv_def)
  then have "ica_intack env 0 s = (uint (ica_base (adapter_state s 0)) + int l, 0, t)"
    using ssr cb unfolding ica_intack_def accept_line [OF s _ w aeoi, of env, simplified] t_def [symmetric]
    by (simp add: Let_def t_def lower_int_def ica_iret_hook_needed_def)
  moreover have "cpu_interrupt_map s AND 1 \<noteq> 0" using b by (rule map_bit)
  moreover have "uint (ica_base (adapter_state s 0)) + int l \<noteq> - 1"
    using uint_ge_0 [of "ica_base (adapter_state s 0)"] by linarith
  ultimately show ?thesis by (simp add: cpu_take_hw_int_def)
qed

lemma take_slave:
  assumes s: "pic_inv s" and b: "bit (cpu_interrupt_map s) 0" and w: "pic_wins 0 s c" and v: "pic_wins 1 s l"
    and aeoi: "ica_mode (adapter_state s 0) AND ICA_AEOI = 0" "ica_mode (adapter_state s 1) AND ICA_AEOI = 0"
    and ssr: "bit (ica_ssr (adapter_state s 0)) c" and cb: "callback_fn (adapter_state s 1) ! l = 0"
  defines "t \<equiv> asp_upd 1 (serve l) (lower_int 1 (asp_upd 0 (serve c) (lower_int 0 s)))"
  shows "cpu_take_hw_int env True s =
    (Some (uint (ica_base (adapter_state s 1)) + int l), t\<lparr>cpu_interrupt_map := cpu_interrupt_map t AND NOT 1\<rparr>)"
proof -
  let ?u = "asp_upd 0 (serve c) (lower_int 0 s)"
  have u: "pic_inv ?u"
    using s pic_wins_less [OF w] pic_wins_irr [OF w] by (intro pic_inv_upd adapter_ok_serve pic_inv_lower) (simp_all add: lower_int_def)
  have "pic_wins 1 ?u l = pic_wins 1 s l" by (rule pic_wins_cong) (simp_all add: lower_int_def pic_setup_def)
  then have a1: "ica_accept env 1 ?u = (int l, t)"
    using accept_line [OF u, of 1 l env] v aeoi(2) by (simp add: t_def lower_int_def)
  have "iretHookMask s = 0" using s by (simp add: pic_inv_def)
  then have "ica_intack env 0 s = (uint (ica_base (adapter_state s 1)) + int l, 0, t)"
    using ssr cb a1 unfolding ica_intack_def accept_line [OF s _ w aeoi(1), of env, simplified]
    by (simp add: Let_def) (simp add: t_def lower_int_def ica_iret_hook_needed_def)
  moreover have "cpu_interrupt_map s AND 1 \<noteq> 0" using b by (rule map_bit)
  moreover have "uint (ica_base (adapter_state s 1)) + int l \<noteq> - 1"
    using uint_ge_0 [of "ica_base (adapter_state s 1)"] by linarith
  ultimately show ?thesis by (simp add: cpu_take_hw_int_def)
qed

section \<open>End of interrupt\<close>

lemma eoi_loop_find: "eoi_loop h isr is = map_option (\<lambda>i. (h + i) mod 8) (find (\<lambda>i. bit isr ((h + i) mod 8)) is)"
  by (induction "is") (simp_all add: Let_def)

text \<open>The loop picks the line in service with the highest priority.\<close>

lemma eoi_loop_first:
  assumes l: "l < 8" and b: "bit isr l" and first: "\<And>m. m < 8 \<Longrightarrow> bit isr m \<Longrightarrow> prio h l \<le> prio h m"
  shows "eoi_loop h isr [0..<8] = Some l"
proof -
  have "find (\<lambda>i. bit isr ((h + i) mod 8)) [0..<8] = Some (prio h l)"
    unfolding find_upt
  proof (intro conjI allI impI)
    show "prio h l < 8" by (rule prio_less)
    show "bit isr ((h + prio h l) mod 8)" using b of_prio [OF l] by simp
    fix k assume k: "k < prio h l"
    then have "k < 8" using prio_less [of h l] by simp
    then show "\<not> bit isr ((h + k) mod 8)" using k first [of "(h + k) mod 8"] prio_of [of k h] by auto
  qed
  then show ?thesis using of_prio [OF l] by (simp add: eoi_loop_find)
qed

context pic_devices
begin

text \<open>After the service bit is dropped, neither the hook nor a newly signalled request touches the registers.\<close>

lemma eoi_isr:
  assumes s: "pic_inv s" and a: "a < 2"
    and e: "eoi_loop (unat (ica_hipri (adapter_state s a))) (ica_isr (adapter_state s a)) [0..<8] = Some l"
  shows "fst (ica_eoi env a (- 1) False s) = int l"
    "ica_isr (adapter_state (snd (ica_eoi env a (- 1) False s)) a) = ica_isr (adapter_state s a) AND NOT (line_bit l)"
proof -
  define t where "t = asp_upd a (\<lambda>asp. asp\<lparr>ica_isr := ica_isr asp AND NOT (line_bit l)\<rparr>) s"
  have t: "pic_inv t" unfolding t_def using s a by (intro pic_inv_upd) (simp_all add: adapter_ok_def)
  have eq: "ica_eoi env a (- 1) False s =
      (int l, let u = host_EOI_hook env (int l + 8 * int a) (ica_count (adapter_state t a) ! l) t; i = ica_scan_irr a u
              in if i AND 0x80 \<noteq> 0 then ica_interrupt_cpu a (unat (i AND 7)) u else u)"
    unfolding ica_eoi_def Let_def e by (simp add: t_def)
  show "fst (ica_eoi env a (- 1) False s) = int l" unfolding eq by simp
  have "pic_inv (host_EOI_hook env i n t) \<and> pic_setup (host_EOI_hook env i n t) = pic_setup t \<and> DelayIrqLine (host_EOI_hook env i n t) = DelayIrqLine t" for i n
    using t by (intro SU.eoi_hook [OF devices]) simp
  then have "pic_setup (snd (ica_eoi env a (- 1) False s)) = pic_setup t"
    unfolding eq Let_def using SU.interrupt_cpu [of _ "pic_setup t" "DelayIrqLine t" a] a by simp
  then have "ica_isr (adapter_state (snd (ica_eoi env a (- 1) False s)) a) = ica_isr (adapter_state t a)"
    by (auto simp: pic_setup_def Let_def dest: fun_cong [of _ _ a])
  then show "ica_isr (adapter_state (snd (ica_eoi env a (- 1) False s)) a) = ica_isr (adapter_state s a) AND NOT (line_bit l)"
    by (simp add: t_def)
qed

lemma accept_eoi:
  assumes s: "pic_inv s" and a: "a < 2" and w: "pic_wins a s l"
    and mode: "ica_mode (adapter_state s a) AND ICA_AEOI = 0" "ica_mode (adapter_state s a) AND (ICA_SMM OR ICA_SFNM) = 0"
  defines "t \<equiv> snd (ica_accept env a s)"
  shows "fst (ica_accept env a s) = int l" "bit (ica_isr (adapter_state t a)) l" "fst (ica_eoi env a (- 1) False t) = int l"
    "ica_isr (adapter_state (snd (ica_eoi env a (- 1) False t)) a) = ica_isr (adapter_state s a)"
proof -
  note ac = accept_line [OF s a w mode(1), of env]
  have l: "l < 8" by (rule pic_wins_less [OF w])
  have t: "pic_inv t" unfolding t_def by (rule accept_inv [OF s a])
  have regs: "ica_isr (adapter_state t a) = ica_isr (adapter_state s a) OR line_bit l" "ica_hipri (adapter_state t a) = ica_hipri (adapter_state s a)"
    unfolding t_def ac by (simp_all add: lower_int_def)
  show "fst (ica_accept env a s) = int l" unfolding ac by simp
  show "bit (ica_isr (adapter_state t a)) l" using l by (simp add: regs bit_or_iff)
  have serving: "pic_serving a s m = (m < 8 \<and> bit (ica_isr (adapter_state s a)) m)" for m
    using mode(2) by (simp add: pic_serving_def)
  have ahead: "m < 8 \<Longrightarrow> bit (ica_isr (adapter_state s a)) m \<Longrightarrow>
      prio (unat (ica_hipri (adapter_state s a))) l < prio (unat (ica_hipri (adapter_state s a))) m" for m
    using w serving by (simp add: pic_wins_def Let_def)
  have nl: "\<not> bit (ica_isr (adapter_state s a)) l" using ahead [OF l] by blast
  have e: "eoi_loop (unat (ica_hipri (adapter_state t a))) (ica_isr (adapter_state t a)) [0..<8] = Some l"
    unfolding regs
  proof (rule eoi_loop_first [OF l])
    fix m :: nat assume "m < 8" "bit (ica_isr (adapter_state s a) OR line_bit l) m"
    then show "prio (unat (ica_hipri (adapter_state s a))) l \<le> prio (unat (ica_hipri (adapter_state s a))) m"
      using ahead [of m] by (auto simp: bit_or_iff)
  qed (use l in \<open>simp add: bit_or_iff\<close>)
  show "fst (ica_eoi env a (- 1) False t) = int l" by (rule eoi_isr(1) [OF t a e])
  have "(ica_isr (adapter_state s a) OR line_bit l) AND NOT (line_bit l) = ica_isr (adapter_state s a)"
    by (rule bit_word_eqI) (use nl in \<open>auto simp: bit_simps\<close>)
  then show "ica_isr (adapter_state (snd (ica_eoi env a (- 1) False t)) a) = ica_isr (adapter_state s a)"
    using eoi_isr(2) [OF t a e] by (simp add: regs)
qed

end

section \<open>Power-on programming\<close>

lemma scan_no_request: "ica_irr (adapter_state s a) = 0 \<Longrightarrow> ica_scan_irr a s = 7"
  by (simp add: ica_scan_irr_def)

text \<open>The bytes of \<open>ica0_post\<close> and \<open>ica1_post\<close>, as one programming sequence of an adapter.\<close>

definition programmed :: "IU8 \<Rightarrow> IU8 \<Rightarrow> IU8 \<Rightarrow> ADAPTER_STATE \<Rightarrow> ADAPTER_STATE" where
  "programmed base ssr imr asp = asp\<lparr>ica_irr := 0, ica_isr := 0, ica_imr := imr, ica_ssr := ssr, ica_base := ucast base AND 0xf8,
     ica_hipri := 0, ica_mode := 0x11, ica_count := replicate 8 0, ica_cpu_int := False\<rparr>"

lemma post_ports:
  assumes "p = 0x20 \<or> p = 0xa0"
  shows "p AND 0xfffe = ICA_PORT_0 (adapter_for_port p)" "p AND 1 = 0" "(p OR 1) AND 0xfffe = ICA_PORT_0 (adapter_for_port p)"
    "(p OR 1) AND 1 \<noteq> 0" "adapter_for_port (p OR 1) = adapter_for_port p"
  using assms by (auto simp: adapter_for_port_def ICA_PORT_0_def)

text \<open>One byte at a time.\<close>

lemma outb_icw:
  assumes p: "p = 0x20 \<or> p = 0xa0"
  defines "a \<equiv> adapter_for_port p"
  shows "SWPIC_outb env p 0x11 s = Some (outb_icw1 a 0x11 s)"
    "sequence s a = 2 \<Longrightarrow> ica_mode (adapter_state s a) AND ICA_SINGL = 0 \<Longrightarrow>
       SWPIC_outb env (p OR 1) v s = Some ((asp_upd a (\<lambda>asp. asp\<lparr>ica_base := ucast v AND 0xf8\<rparr>) s)\<lparr>sequence := (sequence s)(a := 3), ica_lock := 0\<rparr>)"
    "sequence s a = 3 \<Longrightarrow> ica_mode (adapter_state s a) AND ICA_IC4 \<noteq> 0 \<Longrightarrow>
       SWPIC_outb env (p OR 1) v s = Some ((asp_upd a (\<lambda>asp. asp\<lparr>ica_ssr := v\<rparr>) s)\<lparr>sequence := (sequence s)(a := 4), ica_lock := 0\<rparr>)"
    "sequence s a = 4 \<Longrightarrow>
       SWPIC_outb env (p OR 1) v s = Some ((asp_upd a (\<lambda>asp. asp\<lparr>ica_mode := (ica_mode asp AND NOT ICA_ICW4_MASK) OR
         (push_bit 4 (ucast v) AND ICA_ICW4_MASK)\<rparr>) s)\<lparr>sequence := (sequence s)(a := 0), ica_lock := 0\<rparr>)"
    "sequence s a = 0 \<Longrightarrow> ica_irr (adapter_state s a) = 0 \<Longrightarrow> \<not> ica_cpu_int (adapter_state s a) \<Longrightarrow>
       SWPIC_outb env (p OR 1) v s = Some ((asp_upd a (\<lambda>asp. asp\<lparr>ica_imr := v\<rparr>) s)\<lparr>ica_lock := 0\<rparr>)"
proof -
  note pp = post_ports [OF p, folded a_def]
  have g: "((p OR 1) AND 0xfffe \<noteq> ICA_PORT_0 a) = False" "((p OR 1) AND 1 = 0) = False"
    using pp by simp_all
  show "SWPIC_outb env p 0x11 s = Some (outb_icw1 a 0x11 s)"
    unfolding SWPIC_outb_def Let_def a_def [symmetric] using pp(1,2) by simp
  note eq = SWPIC_outb_def [of env "p OR 1" v s, unfolded outb_icws_def Let_def pp(5), unfolded g simp_thms if_False if_True]
  show "SWPIC_outb env (p OR 1) v s = Some ((asp_upd a (\<lambda>asp. asp\<lparr>ica_base := ucast v AND 0xf8\<rparr>) s)\<lparr>sequence := (sequence s)(a := 3), ica_lock := 0\<rparr>)"
    if "sequence s a = 2" "ica_mode (adapter_state s a) AND ICA_SINGL = 0"
    unfolding eq using that by (simp add: asp_upd_def)
  show "SWPIC_outb env (p OR 1) v s = Some ((asp_upd a (\<lambda>asp. asp\<lparr>ica_ssr := v\<rparr>) s)\<lparr>sequence := (sequence s)(a := 4), ica_lock := 0\<rparr>)"
    if "sequence s a = 3" "ica_mode (adapter_state s a) AND ICA_IC4 \<noteq> 0"
    unfolding eq using that by (simp add: asp_upd_def)
  show "SWPIC_outb env (p OR 1) v s = Some ((asp_upd a (\<lambda>asp. asp\<lparr>ica_mode := (ica_mode asp AND NOT ICA_ICW4_MASK) OR
         (push_bit 4 (ucast v) AND ICA_ICW4_MASK)\<rparr>) s)\<lparr>sequence := (sequence s)(a := 0), ica_lock := 0\<rparr>)"
    if "sequence s a = 4"
    unfolding eq using that by (simp add: asp_upd_def del: push_bit_and)
  show "SWPIC_outb env (p OR 1) v s = Some ((asp_upd a (\<lambda>asp. asp\<lparr>ica_imr := v\<rparr>) s)\<lparr>ica_lock := 0\<rparr>)"
    if "sequence s a = 0" "ica_irr (adapter_state s a) = 0" "\<not> ica_cpu_int (adapter_state s a)"
    unfolding eq outb_ocw1_def Let_def using that by (simp add: scan_no_request) (simp add: asp_upd_def)
qed

lemma post_sequence:
  assumes p: "p = 0x20 \<or> p = 0xa0"
  defines "a \<equiv> adapter_for_port p"
  shows "outb_all env [(p, 0x11), (p OR 1, base), (p OR 1, ssr), (p OR 1, 0x01), (p OR 1, imr)] s =
    Some (asp_upd a (programmed base ssr imr) (s\<lparr>sequence := (sequence s)(a := 0), ica_lock := 0\<rparr>))"
  unfolding outb_all.simps fst_conv snd_conv outb_icw(1) [OF p, folded a_def] bind.bind_lunit
    outb_icw1_def Let_def
  by (simp add: outb_icw(2-5) [OF p, folded a_def])
    (auto simp: asp_upd_def programmed_def fun_eq_iff intro!: ica.equality ADAPTER_STATE.equality)

text \<open>The machine after \<open>ica0_post\<close> and \<open>ica1_post\<close>.\<close>

definition posted :: "ica \<Rightarrow> ica" where
  "posted s = asp_upd 1 (programmed 0x70 0x02 0x9d) (asp_upd 0 (programmed 0x08 0x04 0xb8)
     (s\<lparr>sequence := (sequence s)(0 := 0, 1 := 0), ica_lock := 0\<rparr>))"

lemma post_eq: "do { s \<leftarrow> ica0_post env s; ica1_post env s } = Some (posted s)"
proof -
  have a: "adapter_for_port 0x20 = 0" "adapter_for_port 0xa0 = 1" by (simp_all add: adapter_for_port_def)
  show ?thesis
    using post_sequence [of "0x20" env "0x08" "0x04" "0xb8" s] post_sequence [of "0xa0" env "0x70" "0x02" "0x9d"]
    by (simp add: ica0_post_def ica1_post_def a) (auto simp: posted_def asp_upd_def fun_eq_iff intro!: ica.equality)
qed

lemma posted_inv:
  assumes "pic_inv s"
  shows "pic_inv (posted s)"
  using assms by (simp add: posted_def pic_inv_def adapter_ok_def programmed_def asp_upd_def)

section \<open>A programmed controller delivers the line's vector\<close>

text \<open>With nothing else pending or in service, an unmasked and released line wins at once.\<close>

lemma only_request_wins:
  assumes "l < 8" "ica_irr (adapter_state s a) = 0" "ica_isr (adapter_state s a) = 0" "\<not> bit (ica_imr (adapter_state s a)) l"
    "iretHookActive s = 0" "\<not> bit (DelayIrqLine s) (8 * a + l)"
  shows "pic_wins a (raise_line a l k s) l"
  using assms by (auto simp: pic_wins_def pic_request_def pic_serving_def raise_line_def Let_def bit_or_iff)

lemma posted_master:
  assumes s: "pic_inv s" and q: "callback_fn (adapter_state s 0) ! l = 0" "\<not> bit (DelayIrqLine s) l"
    and l: "l \<in> {0, 1, 6}" 
  shows "fst (cpu_take_hw_int env True (SWPIC_hw_interrupt 0 l 1 (posted s))) = Some (8 + int l)"
proof -
  let ?s = "posted s"
  have p: "pic_inv ?s" by (rule posted_inv [OF s])
  have regs: "ica_lock ?s = 0" "int_ok ?s" "pic_setup ?s 0 = (0, 0xb8, 4, 8, 0, 0x11, callback_fn (adapter_state s 0))"
    by (simp_all add: posted_def programmed_def int_ok_def pic_setup_def)
  have l8: "l < 8" and imr: "\<not> bit (0xb8 :: IU8) l" and ssr: "\<not> bit (4 :: IU8) l" using l by (auto simp: bit_numeral_rec)
  have w: "pic_wins 0 (raise_line 0 l 1 ?s) l"
    using l8 imr q(2) s by (intro only_request_wins) (simp_all add: posted_def programmed_def pic_inv_def)
  note r = request_master [OF p regs(1,2) l8 zero_less_one w]
  show ?thesis
    using take_master [OF r(1,4,5), of env] r(6) regs(3) ssr q(1)
    by (simp add: pic_setup_def Let_def fun_eq_iff)
qed

lemma posted_slave:
  assumes s: "pic_inv s" and q: "callback_fn (adapter_state s 1) ! l = 0" "\<not> bit (DelayIrqLine s) (8 + l)" "\<not> bit (DelayIrqLine s) 2"
    and l: "l \<in> {1, 5, 6}"
  shows "fst (cpu_take_hw_int env True (SWPIC_hw_interrupt 1 l 1 (posted s))) = Some (0x70 + int l)"
proof -
  let ?s = "posted s"
  have p: "pic_inv ?s" by (rule posted_inv [OF s])
  have regs: "ica_lock ?s = 0" "int_ok ?s" "\<not> ica_cpu_int (adapter_state ?s 1)"
      "pic_setup ?s 0 = (0, 0xb8, 4, 8, 0, 0x11, callback_fn (adapter_state s 0))"
      "pic_setup ?s 1 = (0, 0x9d, 2, 0x70, 0, 0x11, callback_fn (adapter_state s 1))"
      "unat (ica_ssr (adapter_state ?s 1)) = 2"
    by (simp_all add: posted_def programmed_def int_ok_def pic_setup_def)
  have l8: "l < 8" and imr: "\<not> bit (0x9d :: IU8) l" "\<not> bit (0xb8 :: IU8) 2" using l by (auto simp: bit_numeral_rec)
  have w: "pic_wins 1 (raise_line 1 l 1 ?s) l"
    using l8 imr(1) q(2) s by (intro only_request_wins) (simp_all add: posted_def programmed_def pic_inv_def)
  have v: "pic_wins 0 (raise_line 0 (unat (ica_ssr (adapter_state ?s 1))) 1 ?s) 2"
    unfolding regs(6)
  proof (rule only_request_wins)
    show "\<not> bit (DelayIrqLine ?s) (8 * 0 + 2)" proof -
      have "DelayIrqLine ?s = DelayIrqLine s" by (simp add: posted_def)
      then show ?thesis using q(3) by (simp only: mult_0_right add_0 not_False_eq_True)
    qed
    show "iretHookActive ?s = 0" using p by (simp only: pic_inv_def)
  qed (use imr(2) in \<open>simp_all only: posted_def asp_upd_get programmed_def if_True ADAPTER_STATE.simps\<close>, simp_all)
  note r = request_slave [OF p regs(1,2) l8 zero_less_one regs(3) w v]
  show ?thesis
    using take_slave [OF r(1,3,5,4), of env] r(6) regs(4,5) q(1)
    by (simp add: pic_setup_def Let_def fun_eq_iff bit_numeral_rec)
qed

section \<open>Withdrawal without a master\<close>

text \<open>An adapter 0 that is not marked as the master hands every withdrawal to itself.\<close>

definition masterless :: "nat \<Rightarrow> ica \<Rightarrow> bool" where
  "masterless l s = (let asp = adapter_state s 0
     in \<not> ica_master asp \<and> unat (ica_ssr asp) < 8 \<and> length (ica_count asp) = 8 \<and>
        ica_count asp ! l \<le> 1 \<and> ica_count asp ! unat (ica_ssr asp) \<le> 1 \<and> ica_scan_irr 0 (drop_line 0 l s) = 7)"

text \<open>Withdrawing a request lets no other request win that did not win before.\<close>

lemma drop_no_winner:
  assumes "ica_scan_irr a s = 7" "l < 8"
  shows "ica_scan_irr a (drop_line a l s) = 7"
proof (cases a "drop_line a l s" rule: scan_cases)
  case (win m)
  let ?p = "prio (unat (ica_hipri (adapter_state s a)))"
  have none: "\<not> pic_wins a s j" for j by (cases a s rule: scan_cases) (use assms(1) reply(4) in auto)
  have r: "pic_request a (drop_line a l s) j = (pic_request a s j \<and> j \<noteq> l)" "pic_serving a (drop_line a l s) j = pic_serving a s j" for j
    using assms(2) by (auto simp: pic_request_def pic_serving_def drop_line_def bit_and_iff bit_not_iff)
  have h: "ica_hipri (adapter_state (drop_line a l s) a) = ica_hipri (adapter_state s a)" by (simp add: drop_line_def)
  note w = win(2) [unfolded pic_wins_def Let_def r h]
  have "pic_wins a s (if pic_request a s l \<and> ?p l < ?p m then l else m)"
    unfolding pic_wins_def Let_def using w by (auto intro: less_imp_le less_trans dest: order.strict_trans1 order.strict_trans2)
  then show ?thesis using none by blast
qed

lemma masterless_drop:
  assumes "masterless l s" "l < 8"
  shows "masterless (unat (ica_ssr (adapter_state s 0))) (lower_int 0 (drop_line 0 l s))"
proof -
  let ?c = "unat (ica_ssr (adapter_state s 0))"
  have c: "?c < 8" "ica_scan_irr 0 (drop_line 0 l s) = 7" using assms(1) by (simp_all add: masterless_def Let_def)
  have "ica_scan_irr 0 (drop_line 0 ?c (lower_int 0 (drop_line 0 l s))) = ica_scan_irr 0 (drop_line 0 ?c (drop_line 0 l s))"
    by (simp add: ica_scan_irr_def drop_line_def lower_int_def Let_def)
  then have "ica_scan_irr 0 (drop_line 0 ?c (lower_int 0 (drop_line 0 l s))) = 7" using drop_no_winner [OF c(2,1)] by simp
  then show ?thesis using assms by (simp add: masterless_def Let_def) (simp add: drop_line_def lower_int_def nth_list_update)
qed

lemma masterless_loop:
  "SWPIC_clear_int env a l s = Some t \<Longrightarrow> \<not> (a = 0 \<and> l < 8 \<and> masterless l s)"
proof (rule SWPIC_clear_int.raw_induct [of "\<lambda>env a l s t. \<not> (a = 0 \<and> l < 8 \<and> masterless l s)" env a l s t], goal_cases)
  case (1 f env a l s t)
  show ?case
  proof
    assume b: "a = 0 \<and> l < 8 \<and> masterless l s"
    then have c: "ica_count (adapter_state s 0) ! l \<le> 1" "\<not> ica_master (adapter_state s 0)" "unat (ica_ssr (adapter_state s 0)) < 8"
        "ica_scan_irr 0 (drop_line 0 l s) = 7"
      by (simp_all add: masterless_def Let_def)
    obtain u where "f env 0 (unat (ica_ssr (adapter_state s 0))) (lower_int 0 (drop_line 0 l s)) = Some u"
      using 1(3) b c by (auto simp: Let_def drop_line_def [symmetric] lower_int_def [symmetric] bind_eq_Some_conv)
    then show False using 1(2) b c(3) masterless_drop [of l s] by blast
  qed
qed

section \<open>Snapshot\<close>

lemma capture_restore_adapter:
  assumes "callback_fn a = replicate 8 0"
  shows "restore_adapter (capture_adapter a) = a"
  using assms by (simp add: restore_adapter_def capture_adapter_def)

lemma no_callback: "length xs = 8 \<Longrightarrow> \<forall>l \<in> set [0..<8]. xs ! l = (0 :: nat) \<Longrightarrow> xs = replicate 8 0"
  by (rule nth_equalityI) auto

section \<open>Automatic end of interrupt\<close>

lemma raise_frame:
  "ica_lock (raise_line a l k s) = ica_lock s" "cpu_interrupt_map (raise_line a l k s) = cpu_interrupt_map s"
  "ica_cpu_int (adapter_state (raise_line a l k s) b) = ica_cpu_int (adapter_state s b)"
  by (simp_all add: raise_line_def)

text \<open>INT is high and the CPU has no pending bit: whatever is requested, no operation of a request sets it.\<close>

definition unseen :: "ica \<Rightarrow> bool" where
  "unseen s = (pic_inv s \<and> ica_cpu_int (adapter_state s 0) \<and> \<not> bit (cpu_interrupt_map s) 0)"

lemma unseen_simps [simp]: "unseen (s\<lparr>ica_lock := k\<rparr>) = unseen s"
  by (simp add: unseen_def)

lemma unseen_raise: "unseen s \<Longrightarrow> a < 2 \<Longrightarrow> l < 8 \<Longrightarrow> 0 < k \<Longrightarrow> unseen (raise_line a l k s)"
  by (simp add: unseen_def raise_frame pic_inv_raise)

lemma unseen_deliver:
  assumes "unseen s" "a < 2" "l < 8" "0 < k" "\<And>m u. unseen u \<Longrightarrow> unseen (ica_interrupt_cpu a m u)"
  shows "unseen (SWPIC_hw_interrupt a l k s)"
proof -
  define u where "u = (raise_line a l k s)\<lparr>ica_lock := 1\<rparr>"
  have u: "unseen u" "unseen (raise_line a l k s)" unfolding u_def using unseen_raise [OF assms(1-4)] by simp_all
  then have "note_progress a l u = u" using assms(2,3) by (simp add: unseen_def pic_inv_progress)
  then show ?thesis using assms(2,3) assms(5) [OF u(1)] u unfolding SWPIC_hw_interrupt.simps [of a l k s] Let_def
    by (cases "ica_lock s = 0") (simp_all add: raise_frame u_def)
qed

lemma unseen_master: "unseen s \<Longrightarrow> unseen (ica_interrupt_cpu 0 m s)"
  using PIC.interrupt_cpu [of s 0 m] by (simp add: unseen_def ica_interrupt_cpu.simps [of 0 m s])

lemma unseen_interrupt:
  assumes "unseen s" "a < 2"
  shows "unseen (ica_interrupt_cpu a m s)"
proof (cases "a = 0")
  case False
  then have a: "a = 1" using assms(2) by simp
  have s: "pic_inv s" using assms(1) by (simp add: unseen_def)
  have "unseen (asp_upd 1 (\<lambda>asp. asp\<lparr>ica_int_line := m, ica_cpu_int := True\<rparr>) s)" "unseen (asp_upd 1 (\<lambda>asp. asp\<lparr>ica_int_line := m\<rparr>) s)"
    using assms(1) PIC.cpu_int [OF s, of 1 m] PIC.int_line [OF s, of 1 m] by (simp_all add: unseen_def)
  then show ?thesis using PIC.roles [OF s] unseen_deliver [of _ 0 _ 1] unseen_master
    unfolding a ica_interrupt_cpu.simps [of 1 m s] Let_def by simp
qed (use assms unseen_master in simp)

lemma unseen_requests:
  "unseen s \<Longrightarrow> \<forall>(a, l, k) \<in> set rs. a < 2 \<and> l < 8 \<and> 0 < k \<Longrightarrow> unseen (fold (\<lambda>(a, l, k). SWPIC_hw_interrupt a l k) rs s)"
proof (induction rs arbitrary: s)
  case (Cons r rs)
  obtain a l k where r: "r = (a, l, k)" by (cases r)
  have "unseen (SWPIC_hw_interrupt a l k s)" using Cons.prems by (intro unseen_deliver unseen_interrupt) (simp_all add: r)
  then show ?case using Cons by (simp add: r)
qed simp

lemma unseen_take: "unseen s \<Longrightarrow> cpu_take_hw_int env i s = (None, s)"
proof -
  assume "unseen s"
  then have "cpu_interrupt_map s AND 1 = 0" using and_exp_eq_0_iff_not_bit [of "cpu_interrupt_map s" 0] by (simp add: unseen_def)
  then show ?thesis by (simp add: cpu_take_hw_int_def)
qed

text \<open>Registers that an end of interrupt never changes.\<close>

definition pic_program :: "ica \<Rightarrow> nat \<Rightarrow> IU8 \<times> IU16 \<times> nat list" where
  "pic_program s a = (let asp = adapter_state s a in (ica_ssr asp, ica_base asp, callback_fn asp))"

lemma pic_program_setup: "pic_setup t = pic_setup s \<Longrightarrow> pic_program t = pic_program s"
  by (auto simp: fun_eq_iff pic_setup_def pic_program_def Let_def)

context pic_devices
begin

lemma eoi_shape:
  assumes s: "pic_inv s" and a: "a < 2"
  shows "\<exists>u. snd (ica_eoi env a (- 1) rot s) = (let i = ica_scan_irr a u in if i AND 0x80 \<noteq> 0 then ica_interrupt_cpu a (unat (i AND 7)) u else u) \<and>
    pic_inv u \<and> pic_program u = pic_program s"
proof (cases "eoi_loop (unat (ica_hipri (adapter_state s a))) (ica_isr (adapter_state s a)) [0..<8]")
  case None
  then show ?thesis using s by (intro exI [of _ s]) (simp add: ica_eoi_def Let_def)
next
  case (Some j)
  define s1 where "s1 = asp_upd a (\<lambda>asp. asp\<lparr>ica_isr := ica_isr asp AND NOT (line_bit j)\<rparr>) s"
  define s2 where "s2 = (if rot then asp_upd a (\<lambda>asp. asp\<lparr>ica_hipri := word_of_int ((int j + 1) mod 8)\<rparr>) s1 else s1)"
  define u where "u = host_EOI_hook env (int j + 8 * int a) (ica_count (adapter_state s2 a) ! j) s2"
  have i1: "pic_inv s1" unfolding s1_def using s a by (intro pic_inv_upd) (simp_all add: adapter_ok_def)
  have "pic_inv (asp_upd a (\<lambda>asp. asp\<lparr>ica_hipri := word_of_int (n mod 8)\<rparr>) s1)" for n
    by (rule pic_inv_hipri [OF i1 a])
  then have i2: "pic_inv s2" unfolding s2_def using i1 by simp
  have p2: "pic_program s2 = pic_program s" by (auto simp: s2_def s1_def pic_program_def Let_def fun_eq_iff)
  have u: "pic_inv u \<and> pic_setup u = pic_setup s2 \<and> DelayIrqLine u = DelayIrqLine s2" unfolding u_def
    using i2 by (intro SU.eoi_hook [OF devices]) simp
  have "snd (ica_eoi env a (- 1) rot s) = (let i = ica_scan_irr a u in if i AND 0x80 \<noteq> 0 then ica_interrupt_cpu a (unat (i AND 7)) u else u)"
    unfolding ica_eoi_def Let_def Some by (simp add: u_def s2_def s1_def)
  then show ?thesis using u p2 pic_program_setup [of u s2] by metis
qed

text \<open>An acknowledge cycle of the master in automatic end-of-interrupt mode that leaves a request behind.\<close>

lemma take_aeoi:
  assumes s: "pic_inv s" and b: "bit (cpu_interrupt_map s) 0" and w: "pic_wins 0 s l" and aeoi: "ica_mode (adapter_state s 0) AND ICA_AEOI \<noteq> 0"
    and ssr: "\<not> bit (ica_ssr (adapter_state s 0)) l" and cb: "callback_fn (adapter_state s 0) ! l = 0"
    and t: "cpu_take_hw_int env True s = (v, t)" and m: "pic_wins 0 t m"
  shows "v = Some (uint (ica_base (adapter_state s 0)) + int l) \<and> unseen t"
proof -
  have l: "l < 8" by (rule pic_wins_less [OF w])
  define t1 where "t1 = asp_upd 0 (serve l) (lower_int 0 s)"
  have t1: "pic_inv t1" unfolding t1_def
    using s pic_wins_less [OF w] pic_wins_irr [OF w] by (intro pic_inv_upd adapter_ok_serve pic_inv_lower) (simp_all add: lower_int_def)
  obtain u where e: "snd (ica_eoi env 0 (- 1) (ica_mode (adapter_state s 0) AND ICA_RAEOI = ICA_RAEOI) t1) =
      (let i = ica_scan_irr 0 u in if i AND 0x80 \<noteq> 0 then ica_interrupt_cpu 0 (unat (i AND 7)) u else u)" "pic_inv u" "pic_program u = pic_program t1"
    using eoi_shape [OF t1, of 0] by auto
  define x where "x = (let i = ica_scan_irr 0 u in if i AND 0x80 \<noteq> 0 then ica_interrupt_cpu 0 (unat (i AND 7)) u else u)"
  have ac: "ica_accept env 0 s = (int l, x)"
    using accept_win [of 0 s l env] w aeoi pic_inv_depth [OF s _ l, of 0] e(1) unfolding t1_def [symmetric] x_def by (simp add: Let_def)
  have x: "pic_inv x" unfolding x_def Let_def using e(2) PIC.interrupt_cpu [OF e(2), of 0] by simp
  have px: "pic_program x 0 = pic_program s 0"
    using fun_cong [OF e(3), of 0] interrupt_master_eq [OF PIC.roles(1) [OF e(2)]] unfolding x_def Let_def t1_def
    by (auto simp: pic_program_def Let_def lower_int_def)
  have r: "ica_ssr (adapter_state x 0) = ica_ssr (adapter_state s 0)" "ica_base (adapter_state x 0) = ica_base (adapter_state s 0)"
      "callback_fn (adapter_state x 0) = callback_fn (adapter_state s 0)"
    using px by (simp_all add: pic_program_def Let_def)
  have ia: "ica_intack env 0 s = (uint (ica_base (adapter_state s 0)) + int l, 0, x)"
    using ssr cb r no_hook [OF x] unfolding ica_intack_def ac by (simp add: Let_def)
  moreover have "uint (ica_base (adapter_state s 0)) + int l \<noteq> - 1" using uint_ge_0 [of "ica_base (adapter_state s 0)"] by linarith
  ultimately have tx: "v = Some (uint (ica_base (adapter_state s 0)) + int l)" "t = x\<lparr>cpu_interrupt_map := cpu_interrupt_map x AND NOT 1\<rparr>"
    using t map_bit [OF b] by (auto simp: cpu_take_hw_int_def)
  have "pic_wins 0 t m = pic_wins 0 x m" unfolding tx(2) by (rule pic_wins_cong) (simp_all add: pic_setup_def)
  then have mx: "pic_wins 0 x m" using m by blast
  have "ica_cpu_int (adapter_state x 0)"
  proof (cases "0 :: nat" u rule: scan_cases)
    case none
    then have "x = u" by (simp add: x_def)
    then show ?thesis using none mx by blast
  next
    case (win j)
    then have "x = ica_interrupt_cpu 0 j u" by (simp add: x_def)
    then show ?thesis using interrupt_master_eq [OF PIC.roles(1) [OF e(2)], of j] by simp
  qed
  then show ?thesis using tx x by (auto simp: unseen_def bit_and_iff bit_not_iff)
qed

end

text \<open>The master in automatic end-of-interrupt mode, with the timer and the keyboard pending.\<close>

definition aeoi_machine :: ica where
  "aeoi_machine = the (outb_all no_devices [(0x20, 0x11), (0x21, 0x08), (0x21, 0x04), (0x21, 0x03)] (ica1_init (ica0_init ica_static)))"

definition aeoi_pending :: ica where
  "aeoi_pending = SWPIC_hw_interrupt 0 1 1 (SWPIC_hw_interrupt 0 0 1 aeoi_machine)"

lemma aeoi_eval:
  "fst (cpu_take_hw_int no_devices True aeoi_pending) = Some 8 \<and> (let t = snd (cpu_take_hw_int no_devices True aeoi_pending) in ica_scan_irr 0 t = 0x81)"
  by code_simp

lemma aeoi_requested: "bit (cpu_interrupt_map aeoi_pending) 0"
  by code_simp

lemma aeoi_setup:
  "ica_ssr (adapter_state aeoi_pending 0) = 4 \<and> callback_fn (adapter_state aeoi_pending 0) ! 0 = 0 \<and> ica_scan_irr 0 aeoi_pending = 0x80 \<and>
   ica_mode (adapter_state aeoi_pending 0) = 0x31"
  by code_simp

lemma slave_identity_inv: "pic_inv s \<Longrightarrow> slave_identity s < 8"
  by (simp add: pic_inv_def slave_identity_def)

lemma outb_all_reachable:
  "pic_reachable no_devices s \<Longrightarrow> pic_inv s \<Longrightarrow> outb_all no_devices ws s = Some t \<Longrightarrow> \<forall>w \<in> set ws. fst w \<noteq> 0xa1 \<Longrightarrow> pic_reachable no_devices t \<and> pic_inv t"
proof (induction ws arbitrary: s)
  case (Cons w ws)
  then obtain u where u: "SWPIC_outb no_devices (fst w) (snd w) s = Some u" "outb_all no_devices ws u = Some t"
    by (auto simp: bind_eq_Some_conv)
  have "pic_inv u" using ND.outb_inv [of s "fst w" "snd w"] Cons.prems u(1) by auto
  moreover have "pic_reachable no_devices u"
    by (rule pic_reachable.step [OF Cons.prems(1) slave_identity_inv [OF Cons.prems(2)] pic_step.outb [OF u(1)]])
  ultimately show ?case using Cons.IH [of u] Cons.prems(4) u(2) by simp
qed simp

lemma request_reachable:
  assumes "pic_reachable env s \<and> pic_inv s" "a < 2" "l < 8" "0 < k"
  shows "pic_reachable env (SWPIC_hw_interrupt a l k s) \<and> pic_inv (SWPIC_hw_interrupt a l k s)"
proof
  show "pic_reachable env (SWPIC_hw_interrupt a l k s)"
    by (rule pic_reachable.step [OF conjunct1 [OF assms(1)] slave_identity_inv [OF conjunct2 [OF assms(1)]] pic_step.request [OF assms(2-4)]])
  show "pic_inv (SWPIC_hw_interrupt a l k s)" using assms by (intro PIC.hw_interrupt) simp_all
qed

lemma aeoi_reachable: "pic_reachable no_devices aeoi_pending \<and> pic_inv aeoi_pending"
proof -
  have "outb_all no_devices [(0x20, 0x11), (0x21, 0x08), (0x21, 0x04), (0x21, 0x03)] (ica1_init (ica0_init ica_static)) \<noteq> None"
    by code_simp
  then have "pic_reachable no_devices aeoi_machine \<and> pic_inv aeoi_machine" unfolding aeoi_machine_def
    by (intro outb_all_reachable [OF pic_reachable.power_on pic_inv_power_on option.collapse [symmetric]]) simp_all
  then show ?thesis unfolding aeoi_pending_def by (intro request_reachable) simp_all
qed

section \<open>Properties\<close>

text \<open>The power-on state used by the witnesses, and its programmed successor.\<close>

definition powered :: ica where
  "powered = ica1_init (ica0_init ica_static)"

lemma powered_inv: "pic_inv powered"
  unfolding powered_def by (rule pic_inv_power_on)

text \<open>
  C4. The scan of the request register resolves priority as documented: it reports line \<open>l\<close> exactly
  when \<open>l\<close> is requested, neither masked nor held back, no other such request is ahead of it in the
  rotating order, and (outside the special mask and fully nested modes) no line at or ahead of it is
  in service; it answers 7 when no line qualifies.
\<close>

theorem scan_irr_correct:
  "(\<forall>l < 8. (ica_scan_irr a s = 0x80 + of_nat l) = pic_wins a s l) \<and>
   (ica_scan_irr a s = 7) = (\<forall>l < 8. \<not> pic_wins a s l)"
proof (cases a s rule: scan_cases)
  case none
  then show ?thesis using reply(4) scan_wins [of _ a s] by auto
next
  case (win l)
  then show ?thesis using reply(4) scan_wins [of _ a s] by auto
qed

theorem scan_irr_correct_witness:
  "pic_wins 0 (raise_line 0 1 1 (posted powered)) 1 = (ica_scan_irr 0 (raise_line 0 1 1 (posted powered)) = 0x81)"
  using scan_irr_correct [of 0 "raise_line 0 1 1 (posted powered)", THEN conjunct1, THEN spec, of 1] by simp

text \<open>
  C2. The invariant of the controllers. A run takes any sequence of guest port accesses (every byte to every port), requests, withdrawals and cancellations on
  valid lines of the two adapters, looks of the CPU, action interrupts and timer checks; the functions behind the registered hooks and callbacks reach
  the controllers only by raising valid lines (\<open>env_ok\<close>); it goes on as long as the identity the guest has given the slave is a line number, and stops
  with the write that makes it anything else. In every state of a run: a request bit is set exactly when requests are counted on its line, no count is
  negative, the highest-priority line is a line, the vector base has its low bits clear, the programming sequence is one of its five stages, the IRET-hook
  machinery stays idle and no array has been accessed out of bounds. If the identity is no line number, in the last state of the run, nothing but the identity breaks the invariant.
  (What the next slave interrupt does then is \<open>slave_identity_unchecked\<close> below.)
\<close>

theorem pic_invariant:
  assumes "env_ok env" "pic_reachable env s"
  shows "\<not> ica_ub s \<and> (slave_identity s < 8 \<longrightarrow> pic_inv s) \<and> (8 \<le> slave_identity s \<longrightarrow> pic_inv (asp_upd 1 (\<lambda>asp. asp\<lparr>ica_ssr := 0\<rparr>) s))"
proof -
  have "pic_inv (identified s)" using pic_devices.reachable_inv [OF pic_devices.intro] assms by blast
  moreover from this have "\<not> ica_ub s" by (simp add: identified_def with_identity_def pic_inv_def split: if_splits)
  ultimately show ?thesis by (simp add: identified_def with_identity_def split: if_splits)
qed

theorem pic_invariant_witness:
  "pic_inv (SWPIC_hw_interrupt 1 3 2 powered) \<and>
   (\<exists>t. pic_reachable no_devices t \<and> slave_identity t = 8 \<and> \<not> ica_ub t \<and> pic_inv (asp_upd 1 (\<lambda>asp. asp\<lparr>ica_ssr := 0\<rparr>) t))"
proof -
  have i: "slave_identity powered < 8" "slave_identity (SWPIC_hw_interrupt 1 3 2 powered) < 8" by code_simp+
  have "pic_reachable no_devices (SWPIC_hw_interrupt 1 3 2 powered)"
    unfolding powered_def by (intro pic_reachable.step [OF pic_reachable.power_on i(1) [unfolded powered_def] pic_step.request]) simp_all
  from pic_invariant [OF ND.devices this] i(2) have one: "pic_inv (SWPIC_hw_interrupt 1 3 2 powered)" by blast
  define u where "u = (\<lambda>bs. the (outb_all no_devices bs powered))"
  define t where "t = u [(0xa0, 0x11), (0xa1, 0x70), (0xa1, 0x08)]"
  have "SWPIC_outb no_devices 0xa0 0x11 powered = Some (u [(0xa0, 0x11)])"
    "SWPIC_outb no_devices 0xa1 0x70 (u [(0xa0, 0x11)]) = Some (u [(0xa0, 0x11), (0xa1, 0x70)])"
    "SWPIC_outb no_devices 0xa1 0x08 (u [(0xa0, 0x11), (0xa1, 0x70)]) = Some t"
    unfolding u_def t_def powered_def by (simp_all add: SWPIC_outb_def outb_icws_def outb_icw1_def adapter_for_port_def ICA_PORT_0_def Let_def)
  moreover have "slave_identity (u [(0xa0, 0x11)]) < 8" "slave_identity (u [(0xa0, 0x11), (0xa1, 0x70)]) < 8" "slave_identity t = 8"
    unfolding u_def t_def by code_simp+
  ultimately have "pic_reachable no_devices t" "slave_identity t = 8"
    using i(1) unfolding powered_def by (metis pic_reachable.intros pic_step.outb)+
  from pic_invariant [OF ND.devices this(1)] this one show ?thesis by auto
qed

text \<open>
  C36. No operation of the module gets stuck in the cascade: from a state with the invariant, with hooks and callbacks that only raise valid lines, lowering
  or cancelling a valid line and every port write but one return, and the invariant holds again. The exception is a slave identity above 7.
\<close>

theorem pic_operations_return:
  assumes "env_ok env" "pic_inv s" "a < 2" "l < 8" "\<not> (port = 0xa1 \<and> sequence s 1 = 3 \<and> 7 < v)"
  shows "(\<exists>t. SWPIC_clear_int env a l s = Some t \<and> pic_inv t) \<and>
         (\<exists>t. ica_hw_interrupt_cancel env a l s = Some t \<and> pic_inv t) \<and>
         (\<exists>t. SWPIC_outb env port v s = Some t \<and> pic_inv t)"
  using pic_devices.clear_int_inv [OF pic_devices.intro] pic_devices.cancel_inv [OF pic_devices.intro]
    pic_devices.outb_inv [OF pic_devices.intro] assms by blast

theorem pic_operations_return_witness: "\<exists>t. SWPIC_outb no_devices 0x21 0xff powered = Some t \<and> pic_inv t"
  using pic_operations_return [OF ND.devices powered_inv, of 0 0 "0x21" "0xff"] by simp

text \<open>
  C1. A request on the master reaches the CPU. From a state with the invariant in which the module is not locked and the CPU has its pending bit if the
  master's INT output is high, outside automatic end of interrupt, raise a line of the master that is no cascade line and has no action callback. If the line then
  wins on the master, the CPU's next look with interrupts enabled takes the vector base plus the line, the line is in service, its request
  count is what was there before plus the new requests minus one, and the pending bit is clear.
\<close>

theorem irq_delivered_master:
  assumes "pic_inv s" "ica_lock s = 0" "int_ok s" "l < 8" "0 < k" "pic_wins 0 (raise_line 0 l k s) l"
    and "ica_mode (adapter_state s 0) AND 0x20 = 0" "\<not> bit (ica_ssr (adapter_state s 0)) l" "callback_fn (adapter_state s 0) ! l = 0"
    and "cpu_take_hw_int env True (SWPIC_hw_interrupt 0 l k s) = (vector, t)"
  shows "vector = Some (uint (ica_base (adapter_state s 0)) + int l) \<and> bit (ica_isr (adapter_state t 0)) l \<and>
         ica_count (adapter_state t 0) ! l = ica_count (adapter_state s 0) ! l + k - 1 \<and> \<not> bit (cpu_interrupt_map t) 0"
proof -
  note r = request_master [OF assms(1-6)]
  have p: "pic_setup (SWPIC_hw_interrupt 0 l k s) 0 = pic_setup s 0" using r(6) by simp
  have n: "length (ica_count (adapter_state s 0)) = 8" "0 \<le> ica_count (adapter_state s 0) ! l"
    using assms(1,4) by (simp_all add: pic_inv_def adapter_ok_def)
  have "ica_count (serve l asp) ! l = ica_count asp ! l - 1" if "0 < ica_count asp ! l" "length (ica_count asp) = 8" for asp
    using that assms(4) by (simp add: serve_def Let_def)
  moreover have "ica_count (adapter_state (SWPIC_hw_interrupt 0 l k s) 0) ! l = ica_count (adapter_state s 0) ! l + k"
    using r(9) assms(4) n by simp
  ultimately show ?thesis
    using take_master [OF r(1,4,5), of env] p assms(4,5,7-10) n r(9)
    by (auto simp: pic_setup_def Let_def lower_int_def bit_or_iff bit_and_iff bit_not_iff)
qed

theorem irq_delivered_master_witness:
  "fst (cpu_take_hw_int no_devices True (SWPIC_hw_interrupt 0 1 2 (posted powered))) = Some 9"
proof -
  let ?s = "posted powered"
  have s: "pic_inv ?s" by (rule posted_inv [OF powered_inv])
  have f: "ica_lock ?s = 0" "int_ok ?s" "pic_setup ?s 0 = (0, 0xb8, 4, 8, 0, 0x11, replicate 8 0)"
    by (simp_all add: posted_def powered_def ica1_init_def ica0_init_def ica_sigio_init_def programmed_def int_ok_def pic_setup_def)
  have w: "pic_wins 0 (raise_line 0 1 2 ?s) 1"
    by (intro only_request_wins) (simp_all add: posted_def powered_def ica1_init_def ica0_init_def ica_sigio_init_def ica_static_def programmed_def bit_numeral_rec)
  show ?thesis
    using irq_delivered_master [OF s f(1,2) _ _ w _ _ _ surjective_pairing, of no_devices] f(3)
    by (simp add: pic_setup_def Let_def bit_numeral_rec)
qed

text \<open>
  C3. A request on the slave reaches the CPU through the cascade. From a state with the invariant in which the module is not locked, the slave's INT output is low and the CPU
  has its pending bit if the master's is high, with both controllers outside automatic end of interrupt, raise a line of the slave that has no action callback. If the line
  wins on the slave, and with the slave's line raised on the master a cascade line wins there, the CPU's next look with interrupts enabled takes the vector of the slave's line, and both controllers
  have their line in service.
\<close>

theorem irq_delivered_slave:
  assumes "pic_inv s" "ica_lock s = 0" "int_ok s" "l < 8" "0 < k" "\<not> ica_cpu_int (adapter_state s 1)"
    and "pic_wins 1 (raise_line 1 l k s) l" "pic_wins 0 (raise_line 0 (unat (ica_ssr (adapter_state s 1))) 1 s) c"
    and "ica_mode (adapter_state s 0) AND 0x20 = 0" "ica_mode (adapter_state s 1) AND 0x20 = 0"
    and "bit (ica_ssr (adapter_state s 0)) c" "callback_fn (adapter_state s 1) ! l = 0"
    and "cpu_take_hw_int env True (SWPIC_hw_interrupt 1 l k s) = (vector, t)"
  shows "vector = Some (uint (ica_base (adapter_state s 1)) + int l) \<and>
         bit (ica_isr (adapter_state t 1)) l \<and> bit (ica_isr (adapter_state t 0)) c"
proof -
  note r = request_slave [OF assms(1-8)]
  have p: "pic_setup (SWPIC_hw_interrupt 1 l k s) a = pic_setup s a" for a using r(6) by simp
  show ?thesis
    using take_slave [OF r(1,3,5,4), of env] p [of 0] p [of 1] assms(9-13) assms(4) pic_wins_less [OF assms(8)]
    by (auto simp: pic_setup_def Let_def lower_int_def bit_or_iff)
qed

theorem irq_delivered_slave_witness:
  "fst (cpu_take_hw_int no_devices True (SWPIC_hw_interrupt 1 6 1 (posted powered))) = Some 0x76"
proof -
  let ?s = "posted powered"
  have s: "pic_inv ?s" by (rule posted_inv [OF powered_inv])
  note defs = posted_def powered_def ica1_init_def ica0_init_def ica_sigio_init_def ica_static_def programmed_def
  have f: "ica_lock ?s = 0" "int_ok ?s" "\<not> ica_cpu_int (adapter_state ?s 1)" "pic_setup ?s 0 = (0, 0xb8, 4, 8, 0, 0x11, replicate 8 0)"
    "pic_setup ?s 1 = (0, 0x9d, 2, 0x70, 0, 0x11, replicate 8 0)" "unat (ica_ssr (adapter_state ?s 1)) = 2"
    by (simp_all add: defs int_ok_def pic_setup_def)
  have w: "pic_wins 1 (raise_line 1 6 1 ?s) 6" "pic_wins 0 (raise_line 0 (unat (ica_ssr (adapter_state ?s 1))) 1 ?s) 2"
    unfolding f(6) by (intro only_request_wins; simp add: defs bit_numeral_rec)+
  show ?thesis
    using irq_delivered_slave [OF s f(1,2) _ _ f(3) w _ _ _ _ surjective_pairing, of no_devices] f(4,5)
    by (simp add: pic_setup_def Let_def bit_numeral_rec)
qed

text \<open>
  Service brackets: in the fully nested mode, the non-specific end of interrupt that follows an
  accepted interrupt ends exactly that interrupt, so the in-service register is what it was before.
\<close>

theorem accept_eoi_roundtrip:
  assumes "env_ok env" "pic_inv s" "a < 2" "pic_wins a s l"
    and "ica_mode (adapter_state s a) AND 0x20 = 0" "ica_mode (adapter_state s a) AND (0x200 OR 0x100) = 0"
    and "ica_accept env a s = (line, t)" "ica_eoi env a (- 1) False t = (line', u)"
  shows "line = int l \<and> line' = int l \<and> bit (ica_isr (adapter_state t a)) l \<and>
         ica_isr (adapter_state u a) = ica_isr (adapter_state s a)"
  using pic_devices.accept_eoi [OF pic_devices.intro [OF assms(1)] assms(2-6)] assms(7,8) by simp

theorem accept_eoi_roundtrip_witness:
  "fst (ica_accept no_devices 0 (raise_line 0 1 1 (posted powered))) = 1"
proof -
  let ?s = "raise_line 0 1 1 (posted powered)"
  note defs = posted_def powered_def ica1_init_def ica0_init_def ica_sigio_init_def ica_static_def programmed_def
  have s: "pic_inv ?s" using posted_inv [OF powered_inv] by (intro pic_inv_raise) simp_all
  have w: "pic_wins 0 ?s 1" by (intro only_request_wins) (simp_all add: defs bit_numeral_rec)
  show ?thesis
    using accept_eoi_roundtrip [OF ND.devices s _ w _ _ surjective_pairing surjective_pairing]
    by (simp add: raise_line_def defs)
qed

text \<open>
  The power-on self test programs both controllers completely, from any state: the master answers
  with vectors 8 to 15 and has the slave on line 2, the slave with vectors 0x70 to 0x77, the masks are
  0xb8 and 0x9d; and then every line they leave open delivers its own vector.
\<close>

theorem post_vectors:
  assumes "pic_inv s" "DelayIrqLine s = 0"
    and "\<forall>a < 2. \<forall>l < 8. callback_fn (adapter_state s a) ! l = 0"
  shows "\<exists>t. do { s \<leftarrow> ica0_post env s; ica1_post env s } = Some t \<and> sequence t 0 = 0 \<and> sequence t 1 = 0 \<and>
           (\<forall>l \<in> {0, 1, 6}. fst (cpu_take_hw_int env True (SWPIC_hw_interrupt 0 l 1 t)) = Some (8 + int l)) \<and>
           (\<forall>l \<in> {1, 5, 6}. fst (cpu_take_hw_int env True (SWPIC_hw_interrupt 1 l 1 t)) = Some (0x70 + int l))"
proof -
  have "sequence (posted s) 0 = 0" "sequence (posted s) 1 = 0" by (simp_all add: posted_def)
  moreover have "fst (cpu_take_hw_int env True (SWPIC_hw_interrupt 0 l 1 (posted s))) = Some (8 + int l)" if "l \<in> {0, 1, 6}" for l
    using that assms by (intro posted_master) auto
  moreover have "fst (cpu_take_hw_int env True (SWPIC_hw_interrupt 1 l 1 (posted s))) = Some (0x70 + int l)" if "l \<in> {1, 5, 6}" for l
    using that assms by (intro posted_slave) auto
  ultimately show ?thesis using post_eq [of env s] by blast
qed

theorem post_vectors_witness:
  "\<exists>t. do { s \<leftarrow> ica0_post no_devices powered; ica1_post no_devices s } = Some t \<and>
       fst (cpu_take_hw_int no_devices True (SWPIC_hw_interrupt 0 0 1 t)) = Some 8"
proof -
  have "DelayIrqLine powered = 0" "\<forall>a < 2. \<forall>l < 8. callback_fn (adapter_state powered a) ! l = 0"
    by (auto simp: powered_def ica1_init_def ica0_init_def ica_sigio_init_def ica_static_def Let_def adapter0_def)
  from post_vectors [OF powered_inv this, of no_devices] show ?thesis by fastforce
qed

text \<open>
  C37. The controllers' snapshot: a capture succeeds exactly when no action interrupt is pending, and
  restoring it on any machine brings back both adapters and the IRET-hook registers. The stage of the
  programming sequence is not part of it: the restored machine keeps the one it had.
\<close>

theorem snapshot_pic_roundtrip:
  assumes "pic_inv s" "softpc_device_snapshot_capture_pic s = Some snap"
  shows "\<exists>u. softpc_device_snapshot_restore_pic snap t = Some u \<and> (\<forall>a < 2. adapter_state u a = adapter_state s a) \<and>
     iretHooksEnabled u = iretHooksEnabled s \<and> iretHookMask u = iretHookMask s \<and> iretHookActive u = iretHookActive s \<and>
     sequence u = sequence t"
proof -
  have cb: "callback_fn (adapter_state s a) = replicate 8 0" if "a < 2" for a
  proof (rule no_callback)
    show "length (callback_fn (adapter_state s a)) = 8" using pic_inv_adapter [OF assms(1) that] by (simp add: adapter_ok_def)
    have "a \<in> set [0, 1]" using that by auto
    then show "\<forall>l \<in> set [0..<8]. callback_fn (adapter_state s a) ! l = 0"
      using assms(2) unfolding softpc_device_snapshot_capture_pic_def by (meson option.distinct(1))
  qed
  have snap: "snap = \<lparr>pas_adapter = map (\<lambda>a. capture_adapter (adapter_state s a)) [0, 1],
      pas_iret_hooks_enabled = of_bool (iretHooksEnabled s), pas_iret_hook_mask = iretHookMask s, pas_iret_hook_active = iretHookActive s\<rparr>"
    using assms(2) unfolding softpc_device_snapshot_capture_pic_def by (metis (no_types, lifting) option.distinct(1) option.inject)
  have r: "restore_adapter (capture_adapter (adapter_state s 0)) = adapter_state s 0"
    "restore_adapter (capture_adapter (adapter_state s 1)) = adapter_state s 1"
    by (rule capture_restore_adapter, rule cb, simp)+
  have "isr_depth (adapter_state s 0) = replicate 8 0" "isr_depth (adapter_state s 1) = replicate 8 0"
    using assms(1) by (simp_all add: pic_inv_def adapter_ok_def)
  then have ok: "\<not> (\<exists>p \<in> set (pas_adapter snap). 1 < pas_master p \<or> (\<exists>d \<in> set (pas_isr_depth p). d < 0 \<or> 3 < d))"
    by (auto simp: snap capture_adapter_def of_bool_def split: if_splits)
  have a2: "a < 2 \<Longrightarrow> a = 0 \<or> a = 1" for a :: nat by auto
  show ?thesis unfolding softpc_device_snapshot_restore_pic_def if_not_P [OF ok]
    using r by (auto simp: snap dest!: a2)
qed

theorem snapshot_pic_roundtrip_witness:
  "\<exists>snap u. softpc_device_snapshot_capture_pic powered = Some snap \<and>
     softpc_device_snapshot_restore_pic snap ica_static = Some u \<and> (\<forall>a < 2. adapter_state u a = adapter_state powered a)"
proof -
  have "softpc_device_snapshot_capture_pic powered \<noteq> None" by code_simp
  then obtain snap where "softpc_device_snapshot_capture_pic powered = Some snap" by blast
  then show ?thesis using snapshot_pic_roundtrip [OF powered_inv, of snap ica_static] by blast
qed

text \<open>
  C38. The restore does not insist that adapter 0 is the master. On a machine without one, withdrawing a line of adapter 0 never returns when it
  takes the line's last request away and no other line wins then: the withdrawal is handed on to adapter 0 itself, on the line its register
  \<open>ica_ssr\<close> names, and, if that line has no more than one request either, on and on from there.
\<close>

theorem masterless_withdrawal_diverges:
  assumes "l < 8" "\<not> ica_master (adapter_state s 0)" "length (ica_count (adapter_state s 0)) = 8" "unat (ica_ssr (adapter_state s 0)) < 8"
    and "ica_count (adapter_state s 0) ! l \<le> 1" "ica_count (adapter_state s 0) ! unat (ica_ssr (adapter_state s 0)) \<le> 1"
    and "\<forall>m < 8. \<not> pic_wins 0 (drop_line 0 l s) m"
  shows "SWPIC_clear_int env 0 l s = None"
proof -
  have "ica_scan_irr 0 (drop_line 0 l s) = 7" by (cases "0 :: nat" "drop_line 0 l s" rule: scan_cases) (use assms(7) in auto)
  then have "masterless l s" using assms by (simp add: masterless_def Let_def)
  then show ?thesis using assms(1) masterless_loop [of env 0 l s] by (cases "SWPIC_clear_int env 0 l s") auto
qed

theorem masterless_withdrawal_diverges_witness:
  "\<exists>snap u. softpc_device_snapshot_capture_pic ica_static = Some snap \<and>
     softpc_device_snapshot_restore_pic snap powered = Some u \<and> SWPIC_clear_int no_devices 0 1 u = None"
proof -
  define snap where "snap = the (softpc_device_snapshot_capture_pic ica_static)"
  define u where "u = the (softpc_device_snapshot_restore_pic snap powered)"
  have c: "softpc_device_snapshot_capture_pic ica_static \<noteq> None" by code_simp
  have r: "softpc_device_snapshot_restore_pic snap powered \<noteq> None" unfolding snap_def by code_simp
  have m: "\<not> ica_master (adapter_state u 0)" "length (ica_count (adapter_state u 0)) = 8" "unat (ica_ssr (adapter_state u 0)) < 8"
      "ica_count (adapter_state u 0) ! 1 \<le> 1" "ica_count (adapter_state u 0) ! unat (ica_ssr (adapter_state u 0)) \<le> 1"
    unfolding u_def snap_def by code_simp+
  have "ica_scan_irr 0 (drop_line 0 1 u) = 7" unfolding u_def snap_def by code_simp
  then have "\<forall>m < 8. \<not> pic_wins 0 (drop_line 0 1 u) m" using scan_wins [of _ 0 "drop_line 0 1 u"] reply(4) by auto
  then have "SWPIC_clear_int no_devices 0 1 u = None" using m by (intro masterless_withdrawal_diverges) simp_all
  then show ?thesis using c r unfolding snap_def u_def by (metis option.collapse)
qed

text \<open>
  C39. Automatic end of interrupt loses interrupts: the CPU clears its pending bit after the acknowledge cycle, and in this mode the cycle may just have
  signalled the next request. Whenever the master, in that mode, has a line of its own acknowledged (no cascade, no action callback) and another request wins
  when the CPU has taken the vector, the master's INT output is high for that request, but the CPU does not see it; and it stays so however many requests
  follow on lines of either controller: every look of the CPU in between finds nothing.
\<close>

theorem aeoi_interrupt_lost:
  assumes "env_ok env" "pic_inv s" "bit (cpu_interrupt_map s) 0" "pic_wins 0 s l" "ica_mode (adapter_state s 0) AND 0x20 \<noteq> 0"
    and "\<not> bit (ica_ssr (adapter_state s 0)) l" "callback_fn (adapter_state s 0) ! l = 0"
    and "cpu_take_hw_int env True s = (vector, t)" "pic_wins 0 t m"
  shows "vector = Some (uint (ica_base (adapter_state s 0)) + int l) \<and> ica_cpu_int (adapter_state t 0) \<and>
     (\<forall>rs i. (\<forall>(a, l, k) \<in> set rs. a < 2 \<and> l < 8 \<and> 0 < k) \<longrightarrow>
        cpu_take_hw_int env i (fold (\<lambda>(a, l, k). SWPIC_hw_interrupt a l k) rs t) = (None, fold (\<lambda>(a, l, k). SWPIC_hw_interrupt a l k) rs t))"
proof -
  have u: "vector = Some (uint (ica_base (adapter_state s 0)) + int l)" "unseen t"
    using pic_devices.take_aeoi [OF pic_devices.intro [OF assms(1)] assms(2-4) _ assms(6-9)] assms(5) by auto
  then have "ica_cpu_int (adapter_state t 0)" by (simp add: unseen_def)
  then show ?thesis using u unseen_take [OF unseen_requests [OF u(2)]] by blast
qed

theorem aeoi_interrupt_lost_witness:
  "\<exists>s t. pic_reachable no_devices s \<and> cpu_take_hw_int no_devices True s = (Some 8, t) \<and> pic_wins 0 t 1 \<and>
     fst (cpu_take_hw_int no_devices True (SWPIC_hw_interrupt 1 3 1 (SWPIC_hw_interrupt 0 6 1 t))) = None"
proof -
  define t where "t = snd (cpu_take_hw_int no_devices True aeoi_pending)"
  have e: "cpu_take_hw_int no_devices True aeoi_pending = (Some 8, t)" "ica_scan_irr 0 t = 0x81" "ica_scan_irr 0 aeoi_pending = 0x80"
      "ica_mode (adapter_state aeoi_pending 0) AND 0x20 \<noteq> 0" "\<not> bit (ica_ssr (adapter_state aeoi_pending 0)) 0" "callback_fn (adapter_state aeoi_pending 0) ! 0 = 0"
    using aeoi_eval aeoi_setup by (simp_all add: t_def Let_def prod_eq_iff)
  have w: "pic_wins 0 aeoi_pending 0" "pic_wins 0 t 1" using scan_wins [of 0 0 aeoi_pending] scan_wins [of 1 0 t] e(2,3) by simp_all
  from aeoi_interrupt_lost [OF ND.devices aeoi_reachable [THEN conjunct2] aeoi_requested w(1) e(4-6) e(1) w(2), THEN conjunct2, THEN conjunct2,
      THEN spec, of "[(0, 6, 1), (1, 3, 1)]"] have "cpu_take_hw_int no_devices True (SWPIC_hw_interrupt 1 3 1 (SWPIC_hw_interrupt 0 6 1 t)) =
      (None, SWPIC_hw_interrupt 1 3 1 (SWPIC_hw_interrupt 0 6 1 t))" by simp
  then show ?thesis using aeoi_reachable e w(2) by auto
qed

text \<open>
  The identity the guest programs into the slave is used unchecked as a line of the master: after
  an ICW3 of 8 to the slave, the next slave interrupt indexes past the master's request counts.
\<close>

theorem slave_identity_unchecked:
  "\<exists>s. outb_all no_devices [(0xa0, 0x11), (0xa1, 0x70), (0xa1, 0x08), (0xa1, 0x01)] powered = Some s \<and>
     \<not> ica_ub s \<and> ica_ub (SWPIC_hw_interrupt 1 0 1 s)"
proof -
  define r where "r = outb_all no_devices [(0xa0, 0x11), (0xa1, 0x70), (0xa1, 0x08), (0xa1, 0x01)] powered"
  have "r \<noteq> None" "\<not> ica_ub (the r)" "ica_ub (SWPIC_hw_interrupt 1 0 1 (the r))"
    unfolding r_def by code_simp+
  then show ?thesis unfolding r_def [symmetric] by (metis option.collapse)
qed

end
