(* ===== verification/Quick_ev.thy ===== *)
theory Quick_ev
  imports Softpc_Prelude "HOL-Library.Monad_Syntax"
begin

text \<open>
  The quick event dispatcher (\<open>system/quick_ev.c\<close>): the two queues of delayed calls, one counted down
  by the CPU (quick events) and one by timer ticks, with the conversions between microseconds and
  instructions. An element lives in a store of nodes; it is linked into a doubly linked list in time
  order, and through its third link either into a chain of the handle hash table or into the free list.

  Addresses are natural numbers, \<open>0\<close> is the null pointer. Which calls of \<open>host_malloc\<close> fail is part of
  the state. Both queues are operated by the same code, which receives their static variables by
  reference: here the argument \<open>which\<close> selects the queue. A callback is an address; what stands behind
  it is the parameter \<open>call\<close>, and \<open>host\<close> is the part of the machine outside this file that callbacks change. A loop over links returns an option, \<open>None\<close> for the run that does not end.
\<close>

section \<open>State\<close>

datatype EVENTTYPE = EVENT_TIME | EVENT_INSTRUCTIONS | EVENT_TICK

record Q_EVENT =
  ev_func :: nat
  time_from_last :: IU32
  original_time :: IU32
  ev_handle :: int
  ev_param :: int
  event_type :: EVENTTYPE
  ev_next :: nat
  ev_previous :: nat
  next_free :: nat

record evq =
  list_head :: nat
  list_tail :: nat
  free_list_head :: nat
  ev_hash_table :: "nat \<Rightarrow> nat"
  next_free_handle :: int

datatype which = Quick | Tick

record 'h qstate =
  mem :: "nat \<Rightarrow> Q_EVENT"
  mallocs :: nat
  malloc_fails :: "nat \<Rightarrow> bool"
  queues :: "which \<Rightarrow> evq"
  cpu_heartbeat :: IU32
  tic_event_count :: IU32
  usecPerIJC :: IU32
  jumpRestart :: IU32
  real_q_rate :: IU32
  ideal_q_rate :: IU32
  host :: 'h

type_synonym 'h q_calls = "nat \<Rightarrow> int \<Rightarrow> 'h qstate \<Rightarrow> 'h qstate"

definition q_upd :: "which \<Rightarrow> (evq \<Rightarrow> evq) \<Rightarrow> 'h qstate \<Rightarrow> 'h qstate" where
  "q_upd w f s = s\<lparr>queues := (queues s)(w := f (queues s w))\<rparr>"

definition ev_upd :: "nat \<Rightarrow> (Q_EVENT \<Rightarrow> Q_EVENT) \<Rightarrow> 'h qstate \<Rightarrow> 'h qstate" where
  "ev_upd p f s = s\<lparr>mem := (mem s)(p := f (mem s p))\<rparr>"

definition host_malloc :: "'h qstate \<Rightarrow> nat \<times> 'h qstate" where
  "host_malloc s = (if malloc_fails s (mallocs s) then 0 else Suc (mallocs s), s\<lparr>mallocs := Suc (mallocs s)\<rparr>)"

section \<open>Time and instructions\<close>

definition calc_q_inst_for_time :: "IU32 \<Rightarrow> 'h qstate \<Rightarrow> IU32" where
  "calc_q_inst_for_time time s =
     (if usecPerIJC s = - 1 then time div 10
      else (let jumps = (time * jumpRestart s) div usecPerIJC s
            in (jumps * real_q_rate s) div ideal_q_rate s))"

definition calc_q_time_for_inst :: "IU32 \<Rightarrow> 'h qstate \<Rightarrow> IU32" where
  "calc_q_time_for_inst inst s =
     (if usecPerIJC s = - 1 then inst * 10
      else (let jumps = (inst * ideal_q_rate s) div real_q_rate s;
                time = (jumps * usecPerIJC s) div jumpRestart s
            in if time = 0 \<and> inst \<noteq> 0 then inst else time))"

definition c_cpu_q_ev_set_count :: "IU32 \<Rightarrow> 'h qstate \<Rightarrow> 'h qstate" where
  "c_cpu_q_ev_set_count countval s = s\<lparr>cpu_heartbeat := countval\<rparr>"

definition tic_ev_set_count :: "IU32 \<Rightarrow> 'h qstate \<Rightarrow> 'h qstate" where
  "tic_ev_set_count x s = s\<lparr>tic_event_count := x\<rparr>"

fun set_count :: "which \<Rightarrow> IU32 \<Rightarrow> 'h qstate \<Rightarrow> 'h qstate" where
  "set_count Quick = c_cpu_q_ev_set_count"
| "set_count Tick = tic_ev_set_count"

fun get_count :: "which \<Rightarrow> 'h qstate \<Rightarrow> IU32" where
  "get_count Quick s = cpu_heartbeat s"
| "get_count Tick s = tic_event_count s"

section \<open>Initialisation\<close>

definition q_event_init_structs :: "which \<Rightarrow> 'h qstate \<Rightarrow> 'h qstate" where
  "q_event_init_structs w s =
     q_upd w (\<lambda>q. q\<lparr>list_head := 0, list_tail := 0, free_list_head := 0, next_free_handle := 1, ev_hash_table := (\<lambda>_. 0)\<rparr>) s"

definition init_q_ratio :: "'h qstate \<Rightarrow> 'h qstate" where
  "init_q_ratio s = s\<lparr>ideal_q_rate := 1, real_q_rate := 1\<rparr>"

definition q_event_init :: "'h qstate \<Rightarrow> 'h qstate" where
  "q_event_init s = init_q_ratio (q_event_init_structs Quick (c_cpu_q_ev_set_count 0 s))"

definition tic_event_init :: "'h qstate \<Rightarrow> 'h qstate" where
  "tic_event_init s = q_event_init_structs Tick (tic_ev_set_count 0 s)"

section \<open>Adding an event\<close>

partial_function (option) chain_end :: "(nat \<Rightarrow> Q_EVENT) \<Rightarrow> nat \<Rightarrow> nat option" where
  "chain_end m hptr = (if next_free (m hptr) = 0 then Some hptr else chain_end m (next_free (m hptr)))"

partial_function (option) find_place :: "(nat \<Rightarrow> Q_EVENT) \<Rightarrow> IU32 \<Rightarrow> nat \<Rightarrow> IU32 \<Rightarrow> (nat \<times> IU32) option" where
  "find_place m time ptr run_time =
     (if ptr = 0 then Some (ptr, run_time)
      else (let run_time = run_time + time_from_last (m ptr)
            in if time < run_time then Some (ptr, run_time)
               else find_place m time (ev_next (m ptr)) run_time))"

definition hash_bucket :: "int \<Rightarrow> nat" where
  "hash_bucket handle = nat (handle mod 16)"

definition hash_insert :: "which \<Rightarrow> nat \<Rightarrow> int \<Rightarrow> 'h qstate \<Rightarrow> 'h qstate option" where
  "hash_insert w nptr handle s =
     (let hptr = ev_hash_table (queues s w) (hash_bucket handle)
      in do {
        s \<leftarrow> (if hptr = 0
             then Some (q_upd w (\<lambda>q. q\<lparr>ev_hash_table := (ev_hash_table q)(hash_bucket handle := nptr)\<rparr>) s)
             else do {
               hptr \<leftarrow> chain_end (mem s) hptr;
               Some (ev_upd hptr (\<lambda>e. e\<lparr>next_free := nptr\<rparr>) s)
             });
        Some (ev_upd nptr (\<lambda>e. e\<lparr>next_free := 0\<rparr>) s)
      })"

definition link_event :: "which \<Rightarrow> nat \<Rightarrow> IU32 \<Rightarrow> nat \<Rightarrow> IU32 \<Rightarrow> 'h qstate \<Rightarrow> 'h qstate" where
  "link_event w nptr time ptr run_time s =
     (if ptr = 0
      then if list_tail (queues s w) = 0
        then (let s = q_upd w (\<lambda>q. q\<lparr>list_head := nptr, list_tail := nptr\<rparr>) s
              in ev_upd nptr (\<lambda>e. e\<lparr>ev_next := 0, ev_previous := 0, time_from_last := time, original_time := time\<rparr>) s)
        else (let tail = list_tail (queues s w);
                  s = ev_upd tail (\<lambda>e. e\<lparr>ev_next := nptr\<rparr>) s;
                  s = ev_upd nptr (\<lambda>e. e\<lparr>time_from_last := time - run_time, original_time := time - run_time, ev_previous := tail\<rparr>) s;
                  s = q_upd w (\<lambda>q. q\<lparr>list_tail := nptr\<rparr>) s
              in ev_upd nptr (\<lambda>e. e\<lparr>ev_next := 0\<rparr>) s)
      else if ev_previous (mem s ptr) = 0
      then (let s = q_upd w (\<lambda>q. q\<lparr>list_head := nptr\<rparr>) s;
                s = ev_upd ptr (\<lambda>e. e\<lparr>ev_previous := nptr\<rparr>) s;
                s = ev_upd nptr (\<lambda>e. e\<lparr>time_from_last := time, original_time := time\<rparr>) s;
                s = ev_upd ptr (\<lambda>e. e\<lparr>time_from_last := time_from_last e - time\<rparr>) s
            in ev_upd nptr (\<lambda>e. e\<lparr>ev_next := ptr, ev_previous := 0\<rparr>) s)
      else (let pp = ev_previous (mem s ptr);
                s = ev_upd pp (\<lambda>e. e\<lparr>ev_next := nptr\<rparr>) s;
                s = ev_upd ptr (\<lambda>e. e\<lparr>ev_previous := nptr\<rparr>) s;
                t = time - (run_time - time_from_last (mem s ptr));
                s = ev_upd nptr (\<lambda>e. e\<lparr>ev_next := ptr, ev_previous := pp, time_from_last := t, original_time := t\<rparr>) s
            in ev_upd ptr (\<lambda>e. e\<lparr>time_from_last := time_from_last e - t\<rparr>) s))"

definition take_handle :: "which \<Rightarrow> 'h qstate \<Rightarrow> int \<times> 'h qstate" where
  "take_handle w s =
     (let handle = next_free_handle (queues s w)
      in if handle = 0 \<or> handle = 0xffff
         then (1, q_upd w (\<lambda>q. q\<lparr>next_free_handle := 2\<rparr>) s)
         else (handle, q_upd w (\<lambda>q. q\<lparr>next_free_handle := handle + 1\<rparr>) s))"

definition take_node :: "which \<Rightarrow> 'h qstate \<Rightarrow> nat \<times> 'h qstate" where
  "take_node w s =
     (let nptr = free_list_head (queues s w)
      in if nptr = 0 then host_malloc s
         else (nptr, q_upd w (\<lambda>q. q\<lparr>free_list_head := next_free (mem s nptr)\<rparr>) s))"

definition add_event :: "'h q_calls \<Rightarrow> which \<Rightarrow> nat \<Rightarrow> IU32 \<Rightarrow> int \<Rightarrow> IU32 \<Rightarrow> EVENTTYPE \<Rightarrow> 'h qstate \<Rightarrow> (int \<times> 'h qstate) option" where
  "add_event call w func time param time_to_next_trigger etype s =
     (let head = list_head (queues s w);
          s = (if head \<noteq> 0 then ev_upd head (\<lambda>e. e\<lparr>time_from_last := time_to_next_trigger\<rparr>) s else s)
      in if time = 0 then Some (0, call func param s)
         else
           (let (nptr, s) = take_node w s
            in if nptr = 0 then Some (0xffff, s)
               else
                 (let (handle, s) = take_handle w s;
                      s = ev_upd nptr (\<lambda>e. e\<lparr>ev_handle := handle, ev_param := param, event_type := etype\<rparr>) s
                  in do {
                    s \<leftarrow> hash_insert w nptr handle s;
                    let s = ev_upd nptr (\<lambda>e. e\<lparr>ev_func := func\<rparr>) s;
                    (ptr, run_time) \<leftarrow> find_place (mem s) time (list_head (queues s w)) 0;
                    Some (handle, link_event w nptr time ptr run_time s)
                  })))"

definition gen_add_q_event :: "'h q_calls \<Rightarrow> nat \<Rightarrow> IU32 \<Rightarrow> int \<Rightarrow> EVENTTYPE \<Rightarrow> 'h qstate \<Rightarrow> (int \<times> 'h qstate) option" where
  "gen_add_q_event call func event_value param etype s =
     do {
       let time_remaining_to_next_trigger = calc_q_time_for_inst (cpu_heartbeat s) s;
       (handle, s) \<leftarrow> add_event call Quick func event_value param time_remaining_to_next_trigger etype s;
       let head = list_head (queues s Quick);
       let jumps = (if original_time (mem s head) < time_from_last (mem s head) then 1
                    else (let j = calc_q_inst_for_time (time_from_last (mem s head)) s in if j = 0 then 1 else j));
       Some (handle, if head \<noteq> 0 then c_cpu_q_ev_set_count jumps s else s)
     }"

definition add_q_event_i :: "'h q_calls \<Rightarrow> nat \<Rightarrow> IU32 \<Rightarrow> int \<Rightarrow> 'h qstate \<Rightarrow> (int \<times> 'h qstate) option" where
  "add_q_event_i call func instrs param s = gen_add_q_event call func instrs param EVENT_INSTRUCTIONS s"

definition add_q_event_t :: "'h q_calls \<Rightarrow> nat \<Rightarrow> IU32 \<Rightarrow> int \<Rightarrow> 'h qstate \<Rightarrow> (int \<times> 'h qstate) option" where
  "add_q_event_t call func time param s = gen_add_q_event call func time param EVENT_TIME s"

definition add_tic_event :: "'h q_calls \<Rightarrow> nat \<Rightarrow> IU32 \<Rightarrow> int \<Rightarrow> 'h qstate \<Rightarrow> (int \<times> 'h qstate) option" where
  "add_tic_event call func time param s =
     do {
       (handle, s) \<leftarrow> add_event call Tick func time param (tic_event_count s) EVENT_TICK s;
       let head = list_head (queues s Tick);
       Some (handle, if head \<noteq> 0 then tic_ev_set_count (time_from_last (mem s head)) s else s)
     }"

section \<open>Dispatching and deleting\<close>

partial_function (option) hash_search :: "(nat \<Rightarrow> Q_EVENT) \<Rightarrow> int \<Rightarrow> nat \<Rightarrow> nat \<Rightarrow> (nat \<times> nat) option" where
  "hash_search m handle last_hptr hptr =
     (if hptr = 0 then Some (last_hptr, 0)
      else if ev_handle (m hptr) = handle then Some (last_hptr, hptr)
      else hash_search m handle hptr (next_free (m hptr)))"

definition hash_remove :: "which \<Rightarrow> int \<Rightarrow> 'h qstate \<Rightarrow> (nat \<times> 'h qstate) option" where
  "hash_remove w handle s =
     do {
       let first = ev_hash_table (queues s w) (hash_bucket handle);
       (last_hptr, hptr) \<leftarrow> hash_search (mem s) handle first first;
       Some (hptr,
         if hptr = 0 then s
         else if last_hptr = hptr
         then q_upd w (\<lambda>q. q\<lparr>ev_hash_table := (ev_hash_table q)(hash_bucket handle := next_free (mem s hptr))\<rparr>) s
         else ev_upd last_hptr (\<lambda>e. e\<lparr>next_free := next_free (mem s hptr)\<rparr>) s)
     }"

definition free_node :: "which \<Rightarrow> nat \<Rightarrow> 'h qstate \<Rightarrow> 'h qstate" where
  "free_node w ptr s =
     q_upd w (\<lambda>q. q\<lparr>free_list_head := ptr\<rparr>) (ev_upd ptr (\<lambda>e. e\<lparr>next_free := free_list_head (queues s w)\<rparr>) s)"

definition unlink_head :: "which \<Rightarrow> (IU32 \<Rightarrow> 'h qstate \<Rightarrow> 'h qstate) \<Rightarrow> 'h qstate \<Rightarrow> 'h qstate" where
  "unlink_head w sc s =
     (let ptr = list_head (queues s w);
          s = q_upd w (\<lambda>q. q\<lparr>list_head := ev_next (mem s ptr)\<rparr>) s;
          head = list_head (queues s w)
      in if head \<noteq> 0
         then (let s = ev_upd head (\<lambda>e. e\<lparr>ev_previous := 0\<rparr>) s;
                   j = calc_q_inst_for_time (time_from_last (mem s head)) s;
                   jumps = (if j = 0 then 1 else j)
               in case event_type (mem s head) of
                    EVENT_TIME \<Rightarrow> sc jumps s
                  | EVENT_INSTRUCTIONS \<Rightarrow> sc jumps s
                  | EVENT_TICK \<Rightarrow> sc (time_from_last (mem s head)) s)
         else q_upd w (\<lambda>q. q\<lparr>list_tail := 0\<rparr>) s)"

partial_function (option) dispatch_event :: "'h q_calls \<Rightarrow> which \<Rightarrow> (IU32 \<Rightarrow> 'h qstate \<Rightarrow> 'h qstate) \<Rightarrow> 'h qstate \<Rightarrow> 'h qstate option" where
  "dispatch_event call w sc s =
     (let ptr = list_head (queues s w)
      in if ptr = 0 then Some s
         else do {
           let s = unlink_head w sc s;
           (hptr, s) \<leftarrow> hash_remove w (ev_handle (mem s ptr)) s;
           let s = free_node w ptr s;
           let s = call (ev_func (mem s ptr)) (ev_param (mem s ptr)) s;
           if list_head (queues s w) = 0 then Some s
           else if time_from_last (mem s (list_head (queues s w))) \<noteq> 0 then Some s
           else dispatch_event call w sc s
         })"

definition dispatch_q_event :: "'h q_calls \<Rightarrow> 'h qstate \<Rightarrow> 'h qstate option" where
  "dispatch_q_event call s = dispatch_event call Quick c_cpu_q_ev_set_count s"

definition dispatch_tic_event :: "'h q_calls \<Rightarrow> 'h qstate \<Rightarrow> 'h qstate option" where
  "dispatch_tic_event call s =
     (if 0 < tic_event_count s
      then (let count = tic_event_count s - 1;
                s = tic_ev_set_count count s
            in if count = 0 then dispatch_event call Tick tic_ev_set_count s else Some s)
      else Some s)"

definition unlink_event :: "which \<Rightarrow> nat \<Rightarrow> 'h qstate \<Rightarrow> 'h qstate" where
  "unlink_event w ptr s =
     (let pptr = ev_previous (mem s ptr);
          s = (if pptr \<noteq> 0 then ev_upd pptr (\<lambda>e. e\<lparr>ev_next := ev_next (mem s ptr)\<rparr>) s else s);
          pptr = ev_next (mem s ptr);
          s = (if pptr \<noteq> 0
               then ev_upd pptr (\<lambda>e. e\<lparr>ev_previous := ev_previous (mem s ptr), time_from_last := time_from_last e + time_from_last (mem s ptr)\<rparr>) s
               else s)
      in if ptr = list_tail (queues s w) then q_upd w (\<lambda>q. q\<lparr>list_tail := ev_previous (mem s ptr)\<rparr>) s else s)"

definition retime_head :: "'h q_calls \<Rightarrow> which \<Rightarrow> nat \<Rightarrow> 'h qstate \<Rightarrow> 'h qstate option" where
  "retime_head call w ptr s =
     (let tick = (event_type (mem s ptr) = EVENT_TICK);
          scale_func = (\<lambda>x. if tick then x else calc_q_inst_for_time x s);
          unscale_func = (\<lambda>x. if tick then x else calc_q_time_for_inst x s);
          time_to_next_trigger = scale_func (get_count w s);
          time_counted_down = time_from_last (mem s ptr) - time_to_next_trigger;
          pptr = ev_next (mem s ptr);
          s = q_upd w (\<lambda>q. q\<lparr>list_head := pptr\<rparr>) s
      in if pptr \<noteq> 0
         then if time_from_last (mem s pptr) \<le> time_counted_down then dispatch_q_event call s
              else (let s = ev_upd pptr (\<lambda>e. e\<lparr>time_from_last := time_from_last e - time_counted_down\<rparr>) s
                    in Some (set_count w (unscale_func (time_from_last (mem s pptr))) s))
         else Some (set_count w 0 s))"

definition delete_event :: "'h q_calls \<Rightarrow> which \<Rightarrow> int \<Rightarrow> 'h qstate \<Rightarrow> 'h qstate option" where
  "delete_event call w handle s =
     (if handle = 0 then Some s
      else do {
        (ptr, s) \<leftarrow> hash_remove w handle s;
        if ptr = 0 then Some s
        else (let s = free_node w ptr (unlink_event w ptr s)
              in if ptr = list_head (queues s w) then retime_head call w ptr s else Some s)
      })"

definition delete_q_event :: "'h q_calls \<Rightarrow> int \<Rightarrow> 'h qstate \<Rightarrow> 'h qstate option" where
  "delete_q_event call handle s = delete_event call Quick handle s"

definition delete_tic_event :: "'h q_calls \<Rightarrow> int \<Rightarrow> 'h qstate \<Rightarrow> 'h qstate option" where
  "delete_tic_event call handle s = delete_event call Tick handle s"

declare chain_end.simps [code] find_place.simps [code] hash_search.simps [code] dispatch_event.simps [code]

end
