(* ===== verification/Quick_ev_Inv.thy ===== *)
theory Quick_ev_Inv
  imports Quick_ev
begin

text \<open>
  The data structures of the quick event dispatcher: lists linked through the store, the invariant of a
  queue (time-ordered doubly linked list, handle hash chains and free list), and what each helper of
  \<open>Quick_ev\<close> does to them. The reference model of a queue is a list of waiting times with their events.
\<close>


section \<open>Lists in the store\<close>

text \<open>\<open>seg f p xs\<close>: following the link \<open>f\<close> from \<open>p\<close> visits exactly \<open>xs\<close> and ends at the null pointer.\<close>

primrec seg :: "(nat \<Rightarrow> nat) \<Rightarrow> nat \<Rightarrow> nat list \<Rightarrow> bool" where
  "seg f p [] = (p = 0)"
| "seg f p (x # xs) = (p = x \<and> x \<noteq> 0 \<and> seg f (f x) xs)"

lemma seg_cong: "(\<And>x. x \<in> set xs \<Longrightarrow> f x = g x) \<Longrightarrow> seg f p xs = seg g p xs"
  by (induction xs arbitrary: p) simp_all

lemma seg_nonzero: "seg f p xs \<Longrightarrow> 0 \<notin> set xs"
  by (induction xs arbitrary: p) auto

lemma seg_hd: "seg f p xs \<Longrightarrow> p = (if xs = [] then 0 else hd xs)"
  by (cases xs) simp_all

lemma seg_append:
  "seg f p (as @ bs) \<longleftrightarrow> (if as = [] then seg f p bs
     else p = hd as \<and> 0 \<notin> set as \<and> (\<forall>i. Suc i < length as \<longrightarrow> f (as ! i) = as ! Suc i) \<and> seg f (f (last as)) bs)"
proof (induction as arbitrary: p)
  case (Cons a as)
  show ?case
  proof (cases as)
    case Nil
    then show ?thesis by auto
  next
    case (Cons b bs')
    have "(\<forall>i. Suc i < length (a # as) \<longrightarrow> f ((a # as) ! i) = (a # as) ! Suc i) =
        (f a = hd as \<and> (\<forall>i. Suc i < length as \<longrightarrow> f (as ! i) = as ! Suc i))"
      using Cons by (auto simp: nth_Cons split: nat.splits)
    then show ?thesis using Cons.IH [of "f a"] Cons by auto
  qed
qed simp

lemma not_last: "set as \<inter> set bs = {} \<Longrightarrow> x \<in> set bs \<Longrightarrow> as = [] \<or> x \<noteq> last as"
  by (metis disjoint_iff last_in_set)

text \<open>Putting a node between two parts of a list.\<close>

lemma seg_insert:
  assumes s: "seg f p (as @ bs)" and d: "distinct (as @ bs)" and n: "n \<noteq> 0"
    and new: "g n = (if bs = [] then 0 else hd bs)" and pred: "as \<noteq> [] \<Longrightarrow> g (last as) = n"
    and other: "\<And>x. x \<in> set (as @ bs) \<Longrightarrow> as = [] \<or> x \<noteq> last as \<Longrightarrow> g x = f x"
  shows "seg g (if as = [] then n else p) (as @ n # bs)"
proof -
  have bs: "seg g (if bs = [] then 0 else hd bs) bs"
  proof -
    have "seg f (if bs = [] then 0 else hd bs) bs"
      using s seg_hd [of f _ bs] by (auto simp: seg_append split: if_splits)
    moreover have "g x = f x" if "x \<in> set bs" for x
    proof -
      have "as = [] \<or> x \<noteq> last as" by (rule not_last) (use that d in auto)
      then show ?thesis using other [of x] that by auto
    qed
    ultimately show ?thesis using seg_cong [of bs g f] by blast
  qed
  show ?thesis
  proof (cases "as = []")
    case True
    then show ?thesis using n new bs by simp
  next
    case False
    have "g (as ! i) = as ! Suc i" if i: "Suc i < length as" for i
    proof -
      have "as ! i \<noteq> last as" using d i False by (auto simp: last_conv_nth nth_eq_iff_index_eq)
      then have "g (as ! i) = f (as ! i)" using other [of "as ! i"] i False by auto
      then show ?thesis using s i False by (auto simp: seg_append)
    qed
    then show ?thesis using False s new pred bs n by (auto simp: seg_append)
  qed
qed

text \<open>Taking a node out.\<close>

lemma seg_remove:
  assumes s: "seg f p (as @ n # bs)" and d: "distinct (as @ n # bs)"
    and pred: "as \<noteq> [] \<Longrightarrow> g (last as) = f n"
    and other: "\<And>x. x \<in> set (as @ bs) \<Longrightarrow> as = [] \<or> x \<noteq> last as \<Longrightarrow> g x = f x"
  shows "seg g (if as = [] then f n else p) (as @ bs)"
proof -
  have bs: "seg g (f n) bs"
  proof -
    have "seg f (f n) bs" using s by (auto simp: seg_append split: if_splits)
    moreover have "g x = f x" if "x \<in> set bs" for x
    proof -
      have "as = [] \<or> x \<noteq> last as" by (rule not_last) (use that d in auto)
      then show ?thesis using other [of x] that by auto
    qed
    ultimately show ?thesis using seg_cong [of bs g f] by blast
  qed
  show ?thesis
  proof (cases "as = []")
    case False
    have "g (as ! i) = as ! Suc i" if i: "Suc i < length as" for i
    proof -
      have "as ! i \<noteq> last as" using d i False by (auto simp: last_conv_nth nth_eq_iff_index_eq)
      then have "g (as ! i) = f (as ! i)" using other [of "as ! i"] i False by auto
      then show ?thesis using s i False by (auto simp: seg_append)
    qed
    then show ?thesis using False s pred bs by (auto simp: seg_append)
  qed (use bs in simp)
qed

lemma seg_unique: "seg f p xs \<Longrightarrow> seg f p ys \<Longrightarrow> xs = ys"
proof (induction xs arbitrary: p ys)
  case Nil
  then show ?case by (cases ys) simp_all
next
  case (Cons x xs)
  then show ?case by (cases ys) auto
qed

lemma seg_suffix: "seg f p (as @ x # bs) \<Longrightarrow> seg f x (x # bs)"
  by (induction as arbitrary: p) auto

lemma seg_distinct: "seg f p xs \<Longrightarrow> distinct xs"
proof (induction xs arbitrary: p)
  case (Cons a xs)
  have "a \<notin> set xs"
  proof
    assume "a \<in> set xs"
    then obtain as bs where xs: "xs = as @ a # bs" by (meson split_list)
    have "seg f a (a # bs)" using Cons.prems seg_suffix [of f p "a # as" a bs] xs by simp
    moreover have "seg f a (a # xs)" using Cons.prems by simp
    ultimately have "a # bs = a # xs" by (rule seg_unique)
    then have "length bs = length xs" by simp
    then show False using xs by simp
  qed
  then show ?case using Cons by auto
qed simp

section \<open>The loops\<close>

lemma chain_end_last: "seg (\<lambda>x. next_free (m x)) p (x # xs) \<Longrightarrow> chain_end m p = Some (last (x # xs))"
proof (induction xs arbitrary: p x)
  case Nil
  then show ?case by (simp add: chain_end.simps)
next
  case (Cons y ys)
  then show ?case by (subst chain_end.simps) simp
qed

lemma hash_search_found:
  assumes "seg (\<lambda>x. next_free (m x)) p (as @ n # bs)" "\<forall>x \<in> set as. ev_handle (m x) \<noteq> h" "ev_handle (m n) = h"
  shows "hash_search m h l p = Some (if as = [] then l else last as, n)"
  using assms
proof (induction as arbitrary: p l)
  case Nil
  then show ?case by (simp add: hash_search.simps)
next
  case (Cons a as)
  then show ?case by (subst hash_search.simps) auto
qed

lemma hash_search_none:
  assumes "seg (\<lambda>x. next_free (m x)) p xs" "\<forall>x \<in> set xs. ev_handle (m x) \<noteq> h"
  shows "\<exists>l'. hash_search m h l p = Some (l', 0)"
  using assms
proof (induction xs arbitrary: p l)
  case Nil
  then show ?case by (simp add: hash_search.simps)
next
  case (Cons a as)
  then show ?case by (subst hash_search.simps) auto
qed

text \<open>The waiting times of a list of nodes, and the reference insertion into a list of waiting times.\<close>

definition delays :: "(nat \<Rightarrow> Q_EVENT) \<Rightarrow> nat list \<Rightarrow> nat list" where
  "delays m xs = map (\<lambda>x. unat (time_from_last (m x))) xs"

fun ins :: "nat \<Rightarrow> 'a \<Rightarrow> (nat \<times> 'a) list \<Rightarrow> (nat \<times> 'a) list" where
  "ins t e [] = [(t, e)]"
| "ins t e ((d, x) # r) = (if t < d then (t, e) # (d - t, x) # r else (d, x) # ins (t - d) e r)"

lemma find_place_split:
  assumes "seg (\<lambda>x. ev_next (m x)) p xs" "unat run + sum_list (delays m xs) < 2 ^ 32" "unat run \<le> unat time"
  obtains as bs q r where "find_place m time p run = Some (q, r)" "xs = as @ bs"
    "unat run + sum_list (delays m as) \<le> unat time"
    "bs = [] \<Longrightarrow> q = 0 \<and> unat r = unat run + sum_list (delays m as)"
    "bs \<noteq> [] \<Longrightarrow> q = hd bs \<and> unat r = unat run + sum_list (delays m as) + unat (time_from_last (m q)) \<and> unat time < unat r"
  using assms
proof (induction xs arbitrary: p run thesis)
  case Nil
  have "find_place m time p run = Some (0, run)" using Nil.prems(2) by (simp add: find_place.simps)
  then show ?case using Nil.prems(1) [of 0 run "[]" "[]"] Nil.prems(4) by (simp add: delays_def)
next
  case (Cons x xs)
  define run' where "run' = run + time_from_last (m x)"
  have p: "p = x" "x \<noteq> 0" "seg (\<lambda>x. ev_next (m x)) (ev_next (m x)) xs" using Cons.prems(2) by simp_all
  have r: "unat run' = unat run + unat (time_from_last (m x))"
    using Cons.prems(3) by (simp add: run'_def delays_def unat_word_ariths)
  show ?case
  proof (cases "time < run'")
    case True
    then have "find_place m time p run = Some (x, run')" using p by (simp add: find_place.simps run'_def)
    then show ?thesis using Cons.prems(1) [of x run' "[]" "x # xs"] Cons.prems(4) True r
      by (simp add: delays_def word_less_nat_alt)
  next
    case False
    then have le: "unat run' \<le> unat time" by (simp add: word_less_nat_alt)
    have b: "unat run' + sum_list (delays m xs) < 2 ^ 32" using Cons.prems(3) r by (simp add: delays_def)
    have f: "find_place m time p run = find_place m time (ev_next (m x)) run'"
      unfolding p(1) find_place.simps [of m time x run] using False p(2) by (simp add: run'_def Let_def)
    obtain as bs q r' where IH: "find_place m time (ev_next (m x)) run' = Some (q, r')" "xs = as @ bs"
      "unat run' + sum_list (delays m as) \<le> unat time"
      "bs = [] \<Longrightarrow> q = 0 \<and> unat r' = unat run' + sum_list (delays m as)"
      "bs \<noteq> [] \<Longrightarrow> q = hd bs \<and> unat r' = unat run' + sum_list (delays m as) + unat (time_from_last (m q)) \<and> unat time < unat r'"
      using Cons.IH [OF _ p(3) b le] by metis
    show ?thesis
    proof (rule Cons.prems(1) [of q r' "x # as" bs])
      show "find_place m time p run = Some (q, r')" using f IH(1) by simp
    qed (use IH r in \<open>auto simp: delays_def\<close>)
  qed
qed

lemma ins_split:
  assumes "sum_list (map fst as) \<le> t" "bs \<noteq> [] \<Longrightarrow> t < sum_list (map fst as) + fst (hd bs)"
  shows "ins t e (as @ bs) = as @ (t - sum_list (map fst as), e) #
    (case bs of [] \<Rightarrow> [] | b # r \<Rightarrow> (fst b - (t - sum_list (map fst as)), snd b) # r)"
  using assms
proof (induction as arbitrary: t)
  case Nil
  then show ?case by (cases bs) auto
next
  case (Cons a as)
  obtain d x where a: "a = (d, x)" by (cases a)
  have "ins (t - d) e (as @ bs) = as @ (t - d - sum_list (map fst as), e) #
    (case bs of [] \<Rightarrow> [] | b # r \<Rightarrow> (fst b - (t - d - sum_list (map fst as)), snd b) # r)"
    using Cons.prems a by (intro Cons.IH) auto
  then show ?case using Cons.prems a by (auto split: list.splits)
qed

section \<open>The invariant of a queue\<close>

text \<open>The doubly linked list, the hash chains and the free list of a queue.\<close>

definition linked :: "(nat \<Rightarrow> Q_EVENT) \<Rightarrow> evq \<Rightarrow> nat list \<Rightarrow> bool" where
  "linked m q xs \<longleftrightarrow> seg (\<lambda>x. ev_next (m x)) (list_head q) xs \<and> seg (\<lambda>x. ev_previous (m x)) (list_tail q) (rev xs)"

definition hashed :: "(nat \<Rightarrow> Q_EVENT) \<Rightarrow> evq \<Rightarrow> nat set \<Rightarrow> (nat \<Rightarrow> nat list) \<Rightarrow> bool" where
  "hashed m q X cs \<longleftrightarrow> (\<forall>i. seg (\<lambda>x. next_free (m x)) (ev_hash_table q i) (cs i)) \<and>
     (\<forall>i x. x \<in> set (cs i) \<longleftrightarrow> x \<in> X \<and> hash_bucket (ev_handle (m x)) = i)"

definition freed :: "(nat \<Rightarrow> Q_EVENT) \<Rightarrow> evq \<Rightarrow> nat list \<Rightarrow> bool" where
  "freed m q fs \<longleftrightarrow> seg (\<lambda>x. next_free (m x)) (free_list_head q) fs"

definition evq_ok :: "which \<Rightarrow> 'h qstate \<Rightarrow> nat list \<Rightarrow> (nat \<Rightarrow> nat list) \<Rightarrow> nat list \<Rightarrow> bool" where
  "evq_ok w s xs cs fs \<longleftrightarrow> linked (mem s) (queues s w) xs \<and> hashed (mem s) (queues s w) (set xs) cs \<and>
     freed (mem s) (queues s w) fs \<and> set xs \<inter> set fs = {} \<and> (\<forall>x \<in> set xs \<union> set fs. x \<le> mallocs s)"

lemma state_upd [simp]:
  "mem (ev_upd p f s) = (mem s)(p := f (mem s p))" "queues (ev_upd p f s) = queues s" "mallocs (ev_upd p f s) = mallocs s"
  "mem (q_upd w g s) = mem s" "queues (q_upd w g s) = (queues s)(w := g (queues s w))" "mallocs (q_upd w g s) = mallocs s"
  "host (ev_upd p f s) = host s" "host (q_upd w g s) = host s"
  "tic_event_count (ev_upd p f s) = tic_event_count s" "tic_event_count (q_upd w g s) = tic_event_count s"
  "malloc_fails (ev_upd p f s) = malloc_fails s" "malloc_fails (q_upd w g s) = malloc_fails s"
  by (simp_all add: ev_upd_def q_upd_def)

lemma linked_cong:
  assumes "\<And>x. x \<in> set xs \<Longrightarrow> ev_next (m' x) = ev_next (m x) \<and> ev_previous (m' x) = ev_previous (m x)"
    "list_head q' = list_head q" "list_tail q' = list_tail q"
  shows "linked m' q' xs = linked m q xs"
proof -
  have "seg (\<lambda>x. ev_next (m' x)) p xs = seg (\<lambda>x. ev_next (m x)) p xs" for p by (rule seg_cong) (simp add: assms(1))
  moreover have "seg (\<lambda>x. ev_previous (m' x)) p (rev xs) = seg (\<lambda>x. ev_previous (m x)) p (rev xs)" for p
    by (rule seg_cong) (simp add: assms(1))
  ultimately show ?thesis using assms(2,3) by (simp add: linked_def)
qed

lemma hashed_cong:
  assumes h: "hashed m q X cs"
    and "\<And>x. x \<in> X \<Longrightarrow> next_free (m' x) = next_free (m x) \<and> ev_handle (m' x) = ev_handle (m x)"
    "ev_hash_table q' = ev_hash_table q"
  shows "hashed m' q' X cs"
proof -
  have "seg (\<lambda>x. next_free (m' x)) p (cs i) = seg (\<lambda>x. next_free (m x)) p (cs i)" for p i
    using h assms(2) by (intro seg_cong) (simp add: hashed_def)
  then show ?thesis using h assms(2,3) by (auto simp: hashed_def)
qed

lemma freed_cong:
  assumes "\<And>x. x \<in> set fs \<Longrightarrow> next_free (m' x) = next_free (m x)" "free_list_head q' = free_list_head q"
  shows "freed m' q' fs = freed m q fs"
  using seg_cong [of fs "\<lambda>x. next_free (m' x)" "\<lambda>x. next_free (m x)"] assms by (simp add: freed_def)

lemma linked_facts:
  assumes "linked m q (as @ bs)"
  shows "list_head q = (if as @ bs = [] then 0 else hd (as @ bs))" "list_tail q = (if as @ bs = [] then 0 else last (as @ bs))"
    "distinct (as @ bs)" "0 \<notin> set (as @ bs)"
    "bs \<noteq> [] \<Longrightarrow> ev_previous (m (hd bs)) = (if as = [] then 0 else last as)"
    "as \<noteq> [] \<Longrightarrow> ev_next (m (last as)) = (if bs = [] then 0 else hd bs)"
proof -
  have n: "seg (\<lambda>x. ev_next (m x)) (list_head q) (as @ bs)" and p: "seg (\<lambda>x. ev_previous (m x)) (list_tail q) (rev bs @ rev as)"
    using assms by (simp_all add: linked_def)
  show "list_head q = (if as @ bs = [] then 0 else hd (as @ bs))" by (rule seg_hd [OF n])
  show "list_tail q = (if as @ bs = [] then 0 else last (as @ bs))" using seg_hd [OF p] by (auto simp: hd_append hd_rev last_append)
  show "distinct (as @ bs)" by (rule seg_distinct [OF n])
  show "0 \<notin> set (as @ bs)" by (rule seg_nonzero [OF n])
  show "ev_previous (m (hd bs)) = (if as = [] then 0 else last as)" if "bs \<noteq> []"
    using p that seg_hd [of "\<lambda>x. ev_previous (m x)" "ev_previous (m (hd bs))" "rev as"]
    by (auto simp: seg_append hd_rev last_rev)
  show "ev_next (m (last as)) = (if bs = [] then 0 else hd bs)" if "as \<noteq> []"
    using n that seg_hd [of "\<lambda>x. ev_next (m x)" "ev_next (m (last as))" bs] by (auto simp: seg_append)
qed

lemma linked_insert:
  assumes l: "linked m q (as @ bs)" and n: "n \<noteq> 0" "n \<notin> set (as @ bs)"
    and nx: "ev_next (m' n) = (if bs = [] then 0 else hd bs)" "as \<noteq> [] \<Longrightarrow> ev_next (m' (last as)) = n"
      "\<And>x. x \<in> set (as @ bs) \<Longrightarrow> as = [] \<or> x \<noteq> last as \<Longrightarrow> ev_next (m' x) = ev_next (m x)"
    and pr: "ev_previous (m' n) = (if as = [] then 0 else last as)" "bs \<noteq> [] \<Longrightarrow> ev_previous (m' (hd bs)) = n"
      "\<And>x. x \<in> set (as @ bs) \<Longrightarrow> bs = [] \<or> x \<noteq> hd bs \<Longrightarrow> ev_previous (m' x) = ev_previous (m x)"
    and q: "list_head q' = (if as = [] then n else list_head q)" "list_tail q' = (if bs = [] then n else list_tail q)"
  shows "linked m' q' (as @ n # bs)"
proof -
  have "seg (\<lambda>x. ev_next (m' x)) (if as = [] then n else list_head q) (as @ n # bs)"
    using l linked_facts(3) [OF l] n nx by (intro seg_insert [where f = "\<lambda>x. ev_next (m x)"]) (auto simp: linked_def)
  moreover have "seg (\<lambda>x. ev_previous (m' x)) (if rev bs = [] then n else list_tail q) (rev bs @ n # rev as)"
    using l linked_facts(3) [OF l] n pr
    by (intro seg_insert [where f = "\<lambda>x. ev_previous (m x)"]) (auto simp: linked_def last_rev hd_rev)
  ultimately show ?thesis using q by (simp add: linked_def)
qed

lemma linked_remove:
  assumes l: "linked m q (as @ n # bs)"
    and nx: "as \<noteq> [] \<Longrightarrow> ev_next (m' (last as)) = ev_next (m n)"
      "\<And>x. x \<in> set (as @ bs) \<Longrightarrow> as = [] \<or> x \<noteq> last as \<Longrightarrow> ev_next (m' x) = ev_next (m x)"
    and pr: "bs \<noteq> [] \<Longrightarrow> ev_previous (m' (hd bs)) = ev_previous (m n)"
      "\<And>x. x \<in> set (as @ bs) \<Longrightarrow> bs = [] \<or> x \<noteq> hd bs \<Longrightarrow> ev_previous (m' x) = ev_previous (m x)"
    and q: "list_head q' = (if as = [] then ev_next (m n) else list_head q)"
      "list_tail q' = (if bs = [] then ev_previous (m n) else list_tail q)"
  shows "linked m' q' (as @ bs)"
proof -
  have "seg (\<lambda>x. ev_next (m' x)) (if as = [] then ev_next (m n) else list_head q) (as @ bs)"
    using l linked_facts(3) [OF l] nx by (intro seg_remove [where f = "\<lambda>x. ev_next (m x)"]) (auto simp: linked_def)
  moreover have "seg (\<lambda>x. ev_previous (m' x)) (if rev bs = [] then ev_previous (m n) else list_tail q) (rev bs @ rev as)"
    using l linked_facts(3) [OF l] pr
    by (intro seg_remove [where f = "\<lambda>x. ev_previous (m x)"]) (auto simp: linked_def last_rev hd_rev)
  ultimately show ?thesis using q by (simp add: linked_def)
qed

section \<open>The helpers\<close>

lemma take_node_ok:
  assumes ok: "evq_ok w s xs cs fs" and t: "take_node w s = (n, s')" and n: "n \<noteq> 0"
  shows "\<exists>fs'. evq_ok w s' xs cs fs' \<and> n \<notin> set xs \<and> n \<notin> set fs' \<and> n \<le> mallocs s' \<and>
      set fs' \<subseteq> set fs \<and> (n \<in> set fs \<or> n = Suc (mallocs s))"
    "mem s' = mem s" "list_head (queues s' w) = list_head (queues s w)" "list_tail (queues s' w) = list_tail (queues s w)"
    "next_free_handle (queues s' w) = next_free_handle (queues s w)" "host s' = host s" "tic_event_count s' = tic_event_count s"
    "v \<noteq> w \<Longrightarrow> queues s' v = queues s v" "mallocs s \<le> mallocs s'"
proof -
  show "\<exists>fs'. evq_ok w s' xs cs fs' \<and> n \<notin> set xs \<and> n \<notin> set fs' \<and> n \<le> mallocs s' \<and>
      set fs' \<subseteq> set fs \<and> (n \<in> set fs \<or> n = Suc (mallocs s))"
  proof (cases fs)
    case Nil
    then have "free_list_head (queues s w) = 0" using ok by (simp add: evq_ok_def freed_def)
    then have "n = Suc (mallocs s)" "s' = s\<lparr>mallocs := Suc (mallocs s)\<rparr>"
      using t n by (auto simp: take_node_def host_malloc_def split: if_splits)
    then show ?thesis using ok Nil by (intro exI [of _ "[]"]) (fastforce simp: evq_ok_def)
  next
    case (Cons f fs')
    have f: "free_list_head (queues s w) = f" "f \<noteq> 0" "seg (\<lambda>x. next_free (mem s x)) (next_free (mem s f)) fs'" "distinct fs"
      using ok Cons seg_distinct [of "\<lambda>x. next_free (mem s x)" _ fs] by (auto simp: evq_ok_def freed_def)
    then have e: "n = f" "s' = q_upd w (\<lambda>q. q\<lparr>free_list_head := next_free (mem s f)\<rparr>) s"
      using t by (auto simp: take_node_def)
    show ?thesis using ok e f Cons
      by (intro exI [of _ fs']) (auto simp: evq_ok_def linked_def hashed_def freed_def)
  qed
qed (use t n in \<open>auto simp: take_node_def host_malloc_def Let_def split: if_splits\<close>)

lemma hash_insert_ok:
  assumes h: "hashed (mem s) (queues s w) X cs" and n: "n \<notin> X" "n \<noteq> 0" "ev_handle (mem s n) = k"
  obtains s' where "hash_insert w n k s = Some s'"
    "hashed (mem s') (queues s' w) (insert n X) (cs(hash_bucket k := cs (hash_bucket k) @ [n]))"
    "\<And>x. \<exists>v. mem s' x = (mem s x)\<lparr>next_free := v\<rparr>" "\<And>x. x \<notin> X \<Longrightarrow> x \<noteq> n \<Longrightarrow> mem s' x = mem s x"
    "\<exists>t. queues s' = (queues s)(w := (queues s w)\<lparr>ev_hash_table := t\<rparr>)" "mallocs s' = mallocs s" "host s' = host s"
    "tic_event_count s' = tic_event_count s"
proof -
  define b where "b = hash_bucket k"
  have c: "seg (\<lambda>x. next_free (mem s x)) (ev_hash_table (queues s w) b) (cs b)" using h by (simp add: hashed_def)
  have nc: "n \<notin> set (cs i)" for i using h n by (auto simp: hashed_def)
  have sub: "x \<in> X" if "x \<in> set (cs i)" for x i using h that by (auto simp: hashed_def)
  have oth: "x \<notin> set (cs i)" if "x \<in> set (cs b)" "i \<noteq> b" for x i using h that by (auto simp: hashed_def)
  define u where "u = (if cs b = [] then q_upd w (\<lambda>q. q\<lparr>ev_hash_table := (ev_hash_table q)(b := n)\<rparr>) s
      else ev_upd (last (cs b)) (\<lambda>e. e\<lparr>next_free := n\<rparr>) s)"
  define s' where "s' = ev_upd n (\<lambda>e. e\<lparr>next_free := 0\<rparr>) u"
  have r: "hash_insert w n k s = Some s'"
  proof (cases "cs b")
    case Nil
    then show ?thesis using c by (simp add: hash_insert_def b_def s'_def u_def)
  next
    case (Cons a as)
    then show ?thesis using c chain_end_last [of "mem s" "ev_hash_table (queues s w) b" a as]
      by (auto simp: hash_insert_def b_def s'_def u_def)
  qed
  have nl: "cs b \<noteq> [] \<Longrightarrow> last (cs b) \<noteq> n" using nc [of b] last_in_set [of "cs b"] by metis
  have m: "next_free (mem s' n) = 0" "\<And>x. x \<noteq> n \<Longrightarrow> cs b = [] \<or> x \<noteq> last (cs b) \<Longrightarrow> mem s' x = mem s x"
    "cs b \<noteq> [] \<Longrightarrow> next_free (mem s' (last (cs b))) = n" "ev_handle (mem s' x) = ev_handle (mem s x)" for x
    using nl by (auto simp: s'_def u_def)
  have tb: "ev_hash_table (queues s' w) = (if cs b = [] then (ev_hash_table (queues s w))(b := n) else ev_hash_table (queues s w))"
    by (simp add: s'_def u_def)
  have sb: "seg (\<lambda>x. next_free (mem s' x)) (ev_hash_table (queues s' w) b) (cs b @ [n])"
  proof -
    have "seg (\<lambda>x. next_free (mem s' x)) (if cs b = [] then n else ev_hash_table (queues s w) b) (cs b @ n # [])"
    proof (rule seg_insert [where f = "\<lambda>x. next_free (mem s x)"])
      show "next_free (mem s' x) = next_free (mem s x)" if "x \<in> set (cs b @ [])" "cs b = [] \<or> x \<noteq> last (cs b)" for x
        using m(2) [OF _ that(2)] that(1) nc [of b] by (cases "x = n") auto
    qed (use c n m(1,3) seg_distinct [OF c] in simp_all)
    then show ?thesis using tb by (cases "cs b = []") simp_all
  qed
  have so: "seg (\<lambda>x. next_free (mem s' x)) (ev_hash_table (queues s' w) i) (cs i)" if "i \<noteq> b" for i
  proof -
    have "mem s' x = mem s x" if "x \<in> set (cs i)" for x
    proof (rule m(2))
      show "cs b = [] \<or> x \<noteq> last (cs b)" using oth that \<open>i \<noteq> b\<close> last_in_set [of "cs b"] by metis
    qed (use nc that in auto)
    then have "seg (\<lambda>x. next_free (mem s' x)) p (cs i) = seg (\<lambda>x. next_free (mem s x)) p (cs i)" for p
      by (intro seg_cong) simp
    then show ?thesis using h that tb by (simp add: hashed_def)
  qed
  have hs: "hashed (mem s') (queues s' w) (insert n X) (cs(b := cs b @ [n]))"
    using h sb so n m(4) by (auto simp: hashed_def b_def)
  show ?thesis
  proof (rule that [OF r])
    show "\<exists>v. mem s' x = (mem s x)\<lparr>next_free := v\<rparr>" for x
    proof -
      have "\<exists>v. mem s y = (mem s y)\<lparr>next_free := v\<rparr>" for y by (intro exI [of _ "next_free (mem s y)"]) simp
      then show ?thesis by (auto simp: s'_def u_def)
    qed
    show "mem s' x = mem s x" if "x \<notin> X" "x \<noteq> n" for x
      using that m(2) sub last_in_set [of "cs b"] by metis
    show "\<exists>t. queues s' = (queues s)(w := (queues s w)\<lparr>ev_hash_table := t\<rparr>)"
    proof (cases "cs b = []")
      case False
      then show ?thesis by (intro exI [of _ "ev_hash_table (queues s w)"]) (simp add: s'_def u_def)
    qed (auto simp: s'_def u_def)
  qed (use hs in \<open>simp_all add: b_def [symmetric], simp_all add: s'_def u_def\<close>)
qed

text \<open>What a node stands for, and the list of waiting times and events a list of nodes stands for.\<close>

definition payload :: "(nat \<Rightarrow> Q_EVENT) \<Rightarrow> nat \<Rightarrow> nat \<times> int \<times> int \<times> EVENTTYPE" where
  "payload m x = (ev_func (m x), ev_param (m x), ev_handle (m x), event_type (m x))"

definition entries :: "(nat \<Rightarrow> Q_EVENT) \<Rightarrow> nat list \<Rightarrow> (nat \<times> nat \<times> int \<times> int \<times> EVENTTYPE) list" where
  "entries m xs = map (\<lambda>x. (unat (time_from_last (m x)), payload m x)) xs"

lemma entries_simps [simp]:
  "entries m [] = []" "entries m (x # xs) = (unat (time_from_last (m x)), payload m x) # entries m xs"
  "entries m (as @ bs) = entries m as @ entries m bs" "length (entries m xs) = length xs"
  "map fst (entries m xs) = delays m xs" "entries m xs = [] \<longleftrightarrow> xs = []"
  by (simp_all add: entries_def delays_def comp_def)

lemma entries_cong: "(\<And>x. x \<in> set xs \<Longrightarrow> time_from_last (m' x) = time_from_last (m x) \<and> payload m' x = payload m x) \<Longrightarrow>
    entries m' xs = entries m xs"
  by (simp add: entries_def)

lemma ends_apart:
  assumes "distinct (as @ bs)"
  shows "z \<notin> set (as @ bs) \<Longrightarrow> as \<noteq> [] \<Longrightarrow> last as \<noteq> z" "z \<notin> set (as @ bs) \<Longrightarrow> bs \<noteq> [] \<Longrightarrow> hd bs \<noteq> z"
    "as \<noteq> [] \<Longrightarrow> bs \<noteq> [] \<Longrightarrow> last as \<noteq> hd bs"
proof -
  show "z \<notin> set (as @ bs) \<Longrightarrow> as \<noteq> [] \<Longrightarrow> last as \<noteq> z" by (metis Un_iff last_in_set set_append)
  show "z \<notin> set (as @ bs) \<Longrightarrow> bs \<noteq> [] \<Longrightarrow> hd bs \<noteq> z" by (metis Un_iff hd_in_set set_append)
  show "as \<noteq> [] \<Longrightarrow> bs \<noteq> [] \<Longrightarrow> last as \<noteq> hd bs" using assms by (metis disjoint_iff distinct_append hd_in_set last_in_set)
qed

text \<open>The record update that linking a node performs on every node.\<close>

definition linked_mem :: "nat \<Rightarrow> IU32 \<Rightarrow> nat list \<Rightarrow> nat list \<Rightarrow> (nat \<Rightarrow> Q_EVENT) \<Rightarrow> nat \<Rightarrow> Q_EVENT" where
  "linked_mem n t as bs m x =
     (if x = n then (m x)\<lparr>ev_next := (if bs = [] then 0 else hd bs), ev_previous := (if as = [] then 0 else last as),
                          time_from_last := t, original_time := t\<rparr>
      else if as \<noteq> [] \<and> x = last as then (m x)\<lparr>ev_next := n\<rparr>
      else if bs \<noteq> [] \<and> x = hd bs then (m x)\<lparr>ev_previous := n, time_from_last := time_from_last (m x) - t\<rparr>
      else m x)"

lemma link_event_mem:
  fixes time r :: IU32
  assumes l: "linked (mem s) (queues s w) (as @ bs)" and n: "n \<notin> set (as @ bs)"
    and A: "sum_list (delays (mem s) as) \<le> unat time"
    and e: "bs = [] \<Longrightarrow> p = 0 \<and> unat r = sum_list (delays (mem s) as)"
    and ne: "bs \<noteq> [] \<Longrightarrow> p = hd bs \<and> unat r = sum_list (delays (mem s) as) + unat (time_from_last (mem s p)) \<and> unat time < unat r"
  shows "mem (link_event w n time p r s) = linked_mem n (of_nat (unat time - sum_list (delays (mem s) as))) as bs (mem s)"
    "queues (link_event w n time p r s) =
       (queues s)(w := (queues s w)\<lparr>list_head := (if as = [] then n else list_head (queues s w)),
                                    list_tail := (if bs = [] then n else list_tail (queues s w))\<rparr>)"
proof -
  define t :: IU32 where "t = of_nat (unat time - sum_list (delays (mem s) as))"
  have t1: "time - r = t" if "bs = []"
  proof -
    have "(of_nat (unat r) :: IU32) = of_nat (sum_list (delays (mem s) as))" using e [OF that] by (simp only:)
    then show ?thesis using A by (simp add: t_def of_nat_diff)
  qed
  have t2: "time = t" if "as = []" using that by (simp add: t_def delays_def)
  have t3: "time - (r - time_from_last (mem s p)) = t" if "bs \<noteq> []"
  proof -
    have "(of_nat (unat r) :: IU32) = of_nat (sum_list (delays (mem s) as) + unat (time_from_last (mem s p)))"
      using ne [OF that] by (simp only:)
    then show ?thesis using A by (simp add: t_def of_nat_diff)
  qed
  have f: "list_head (queues s w) = (if as @ bs = [] then 0 else hd (as @ bs))" "list_tail (queues s w) = (if as @ bs = [] then 0 else last (as @ bs))"
    "distinct (as @ bs)" "0 \<notin> set (as @ bs)" by (rule linked_facts [OF l])+
  have pv: "bs \<noteq> [] \<Longrightarrow> ev_previous (mem s (hd bs)) = (if as = [] then 0 else last as)" by (rule linked_facts(5) [OF l])
  have nz: "as \<noteq> [] \<Longrightarrow> last as \<noteq> 0 \<and> last as \<noteq> n" "bs \<noteq> [] \<Longrightarrow> hd bs \<noteq> 0 \<and> hd bs \<noteq> n"
    "as \<noteq> [] \<Longrightarrow> bs \<noteq> [] \<Longrightarrow> last as \<noteq> hd bs" "as \<noteq> [] \<Longrightarrow> bs \<noteq> [] \<Longrightarrow> hd bs \<noteq> last as"
    using ends_apart [OF f(3)] f(4) n by metis+
  have "mem (link_event w n time p r s) = linked_mem n t as bs (mem s) \<and>
     queues (link_event w n time p r s) =
       (queues s)(w := (queues s w)\<lparr>list_head := (if as = [] then n else list_head (queues s w)),
                                    list_tail := (if bs = [] then n else list_tail (queues s w))\<rparr>)"
  proof (cases "bs = []"; cases "as = []")
    assume c: "bs = []" "as = []"
    then show ?thesis using f e t2 by (auto simp: link_event_def linked_mem_def fun_eq_iff Let_def)
  next
    assume c: "bs = []" "as \<noteq> []"
    then show ?thesis using f e t1 nz by (auto simp: link_event_def linked_mem_def fun_eq_iff Let_def)
  next
    assume c: "bs \<noteq> []" "as = []"
    then show ?thesis using f ne t2 nz pv by (auto simp: link_event_def linked_mem_def fun_eq_iff Let_def)
  next
    assume c: "bs \<noteq> []" "as \<noteq> []"
    then have p: "p = hd bs" "ev_previous (mem s p) = last as" using ne pv by auto
    show ?thesis using c f t3 [unfolded p(1)] nz p by (auto simp: link_event_def linked_mem_def fun_eq_iff Let_def)
  qed
  then show "mem (link_event w n time p r s) = linked_mem n (of_nat (unat time - sum_list (delays (mem s) as))) as bs (mem s)"
    "queues (link_event w n time p r s) =
       (queues s)(w := (queues s w)\<lparr>list_head := (if as = [] then n else list_head (queues s w)),
                                    list_tail := (if bs = [] then n else list_tail (queues s w))\<rparr>)" by (simp_all add: t_def)
qed

lemma linked_mem_fields [simp]:
  "next_free (linked_mem n t as bs m x) = next_free (m x)" "payload (linked_mem n t as bs m) x = payload m x"
  "ev_handle (linked_mem n t as bs m x) = ev_handle (m x)"
  "x \<notin> set (as @ bs) \<Longrightarrow> x \<noteq> n \<Longrightarrow> linked_mem n t as bs m x = m x"
  by (auto simp: linked_mem_def payload_def)

lemma linked_mem_linked:
  assumes l: "linked m q (as @ bs)" and n: "n \<noteq> 0" "n \<notin> set (as @ bs)"
  shows "linked (linked_mem n t as bs m) (q\<lparr>list_head := (if as = [] then n else list_head q), list_tail := (if bs = [] then n else list_tail q)\<rparr>) (as @ n # bs)"
proof (rule linked_insert [OF l n])
  have d: "distinct (as @ bs)" by (rule linked_facts [OF l])
  show "ev_next (linked_mem n t as bs m (last as)) = n" if "as \<noteq> []" using ends_apart(1) [OF d n(2) that] that by (simp add: linked_mem_def)
  show "ev_previous (linked_mem n t as bs m (hd bs)) = n" if "bs \<noteq> []"
    using ends_apart(2) [OF d n(2) that] ends_apart(3) [OF d _ that] that by (auto simp: linked_mem_def)
  show "ev_next (linked_mem n t as bs m x) = ev_next (m x)" if "x \<in> set (as @ bs)" "as = [] \<or> x \<noteq> last as" for x
  proof -
    have "x \<noteq> n" using n that by auto
    then show ?thesis using that(2) by (elim disjE) (simp_all add: linked_mem_def)
  qed
  show "ev_previous (linked_mem n t as bs m x) = ev_previous (m x)" if "x \<in> set (as @ bs)" "bs = [] \<or> x \<noteq> hd bs" for x
  proof -
    have "x \<noteq> n" using n that by auto
    then show ?thesis using that(2) by (elim disjE) (simp_all add: linked_mem_def)
  qed
qed (simp_all add: linked_mem_def)

lemma linked_mem_entries:
  fixes time :: IU32
  assumes l: "linked m q (as @ bs)" and n: "n \<notin> set (as @ bs)"
    and A: "sum_list (delays m as) \<le> unat time" and b: "bs \<noteq> [] \<Longrightarrow> unat time < sum_list (delays m as) + unat (time_from_last (m (hd bs)))"
  shows "entries (linked_mem n (of_nat (unat time - sum_list (delays m as))) as bs m) (as @ n # bs) =
     ins (unat time) (payload m n) (entries m (as @ bs))"
proof -
  define t :: IU32 where "t = of_nat (unat time - sum_list (delays m as))"
  have t: "unat t = unat time - sum_list (delays m as)"
  proof -
    have "unat time - sum_list (delays m as) < 2 ^ 32" using unsigned_less [of time, where ?'a = nat] by simp
    then show ?thesis unfolding t_def by (simp add: unat_of_nat)
  qed
  have d: "distinct (as @ bs)" by (rule linked_facts [OF l])
  have as: "entries (linked_mem n t as bs m) as = entries m as"
  proof (rule entries_cong)
    fix x assume x: "x \<in> set as"
    then have "x \<noteq> n" "bs = [] \<or> x \<noteq> hd bs" using n d hd_in_set [of bs] by auto
    then show "time_from_last (linked_mem n t as bs m x) = time_from_last (m x) \<and> payload (linked_mem n t as bs m) x = payload m x"
      by (auto simp: linked_mem_def payload_def)
  qed
  have n': "time_from_last (linked_mem n t as bs m n) = t" by (simp add: linked_mem_def)
  show ?thesis
  proof (cases bs)
    case Nil
    then show ?thesis using A as n' t ins_split [of "entries m as" "unat time" "[]" "payload m n"]
      by (simp add: t_def [symmetric])
  next
    case (Cons y ys)
    have ys: "entries (linked_mem n t as bs m) ys = entries m ys"
    proof (rule entries_cong)
      fix x assume x: "x \<in> set ys"
      then have "x \<noteq> n" "x \<noteq> hd bs" "as = [] \<or> x \<noteq> last as" using n d Cons not_last [of as bs x] by auto
      then show "time_from_last (linked_mem n t as bs m x) = time_from_last (m x) \<and> payload (linked_mem n t as bs m) x = payload m x"
        by (auto simp: linked_mem_def payload_def)
    qed
    have "y \<noteq> n" "as = [] \<or> y \<noteq> last as" using n d Cons not_last [of as bs y] by auto
    then have y: "time_from_last (linked_mem n t as bs m y) = time_from_last (m y) - t" using Cons by (auto simp: linked_mem_def)
    have "t \<le> time_from_last (m y)" using b Cons t A by (simp add: word_le_nat_alt)
    then have "unat (time_from_last (m y) - t) = unat (time_from_last (m y)) - unat t" by (simp add: unat_sub)
    then show ?thesis using A b as ys y n' t Cons ins_split [of "entries m as" "unat time" "entries m bs" "payload m n"]
      by (simp add: t_def [symmetric])
  qed
qed

text \<open>The head is counted down by the counter of the queue, so its waiting time is the remaining count.\<close>

fun retime :: "nat \<Rightarrow> (nat \<times> 'a) list \<Rightarrow> (nat \<times> 'a) list" where
  "retime t [] = []"
| "retime t ((d, x) # r) = (t, x) # r"

lemma evq_frame:
  assumes ok: "evq_ok v s xs cs fs" and m: "\<And>x. x \<in> set xs \<union> set fs \<Longrightarrow> mem s' x = mem s x"
    and q: "queues s' v = queues s v" "mallocs s \<le> mallocs s'"
  shows "evq_ok v s' xs cs fs" "entries (mem s') xs = entries (mem s) xs"
proof -
  have "linked (mem s') (queues s' v) xs" using ok m linked_cong [of xs "mem s'" "mem s"] q by (simp add: evq_ok_def)
  moreover have "hashed (mem s') (queues s' v) (set xs) cs" 
    by (rule hashed_cong [of "mem s" "queues s v"]) (use ok m q in \<open>auto simp: evq_ok_def\<close>)
  moreover have "freed (mem s') (queues s' v) fs" using ok m freed_cong [of fs "mem s'" "mem s"] q by (simp add: evq_ok_def)
  ultimately show "evq_ok v s' xs cs fs" using ok q(2) by (auto simp: evq_ok_def intro: order_trans)
  show "entries (mem s') xs = entries (mem s) xs" using m by (intro entries_cong) (simp add: payload_def)
qed

lemma refresh_head:
  assumes ok: "evq_ok w s xs cs fs"
    and s': "s' = (if list_head (queues s w) \<noteq> 0 then ev_upd (list_head (queues s w)) (\<lambda>e. e\<lparr>time_from_last := t\<rparr>) s else s)"
  shows "evq_ok w s' xs cs fs" "entries (mem s') xs = retime (unat t) (entries (mem s) xs)"
    "\<And>x. x \<notin> set xs \<Longrightarrow> mem s' x = mem s x" "queues s' = queues s" "mallocs s' = mallocs s" "host s' = host s"
    "tic_event_count s' = tic_event_count s" "malloc_fails s' = malloc_fails s"
proof -
  have l: "linked (mem s) (queues s w) ([] @ xs)" using ok by (simp add: evq_ok_def)
  have f: "list_head (queues s w) = (if xs = [] then 0 else hd xs)" "distinct xs" "0 \<notin> set xs"
    using linked_facts(1,3,4) [OF l] by simp_all
  have m: "ev_next (mem s' x) = ev_next (mem s x)" "ev_previous (mem s' x) = ev_previous (mem s x)"
    "next_free (mem s' x) = next_free (mem s x)" "ev_handle (mem s' x) = ev_handle (mem s x)" "payload (mem s') x = payload (mem s) x" for x
    by (simp_all add: s' payload_def)
  show q: "queues s' = queues s" "mallocs s' = mallocs s" "host s' = host s" "tic_event_count s' = tic_event_count s"
    "malloc_fails s' = malloc_fails s" by (simp_all add: s')
  have "linked (mem s') (queues s' w) xs" using l m q linked_cong [of xs "mem s'" "mem s"] by simp
  moreover have "hashed (mem s') (queues s' w) (set xs) cs"
    by (rule hashed_cong [of "mem s" "queues s w"]) (use ok m q in \<open>auto simp: evq_ok_def\<close>)
  moreover have "freed (mem s') (queues s' w) fs" using ok m q freed_cong [of fs "mem s'" "mem s"] by (simp add: evq_ok_def)
  ultimately show "evq_ok w s' xs cs fs" using ok q by (simp add: evq_ok_def)
  show "entries (mem s') xs = retime (unat t) (entries (mem s) xs)"
  proof (cases xs)
    case (Cons y ys)
    then have "entries (mem s') ys = entries (mem s) ys" using f m(5) by (intro entries_cong) (auto simp: s')
    then show ?thesis using Cons f m(5) by (simp add: s')
  qed simp
  show "mem s' x = mem s x" if "x \<notin> set xs" for x using that f by (auto simp: s' split: if_splits)
qed

lemma link_event_frame [simp]:
  "mallocs (link_event w n time p r s) = mallocs s" "host (link_event w n time p r s) = host s"
  "tic_event_count (link_event w n time p r s) = tic_event_count s"
  by (simp_all add: link_event_def Let_def)

lemma add_event_queued:
  fixes time ttn :: IU32
  assumes ok: "evq_ok w s xs cs fs" and time: "time \<noteq> 0" and node: "fs \<noteq> [] \<or> \<not> malloc_fails s (mallocs s)"
    and b: "sum_list (map fst (retime (unat ttn) (entries (mem s) xs))) < 2 ^ 32"
  obtains n h s' xs' cs' fs' where "add_event call w func time param ttn etype s = Some (h, s')" "h = fst (take_handle w s)"
    "evq_ok w s' xs' cs' fs'" "set xs' = insert n (set xs)" "set fs' \<subseteq> set fs" "n \<in> set fs \<or> n = Suc (mallocs s)"
    "entries (mem s') xs' = ins (unat time) (func, param, h, etype) (retime (unat ttn) (entries (mem s) xs))"
    "\<And>x. x \<notin> set xs \<Longrightarrow> x \<noteq> n \<Longrightarrow> mem s' x = mem s x" "\<And>v. v \<noteq> w \<Longrightarrow> queues s' v = queues s v" "mallocs s \<le> mallocs s'"
    "host s' = host s" "tic_event_count s' = tic_event_count s"
    "next_free_handle (queues s' w) = next_free_handle (queues (snd (take_handle w s)) w)"
proof -
  define s1 where "s1 = (if list_head (queues s w) \<noteq> 0 then ev_upd (list_head (queues s w)) (\<lambda>e. e\<lparr>time_from_last := ttn\<rparr>) s else s)"
  note r1 = refresh_head [OF ok s1_def]
  obtain n s2 where t: "take_node w s1 = (n, s2)" by (cases "take_node w s1")
  have n0: "n \<noteq> 0"
  proof (cases fs)
    case Nil
    then show ?thesis using r1(1,5,8) node t by (auto simp: evq_ok_def freed_def take_node_def host_malloc_def)
  next
    case (Cons f fs'')
    then show ?thesis using r1(1) t by (auto simp: evq_ok_def freed_def take_node_def)
  qed
  note t2 = take_node_ok [OF r1(1) t n0]
  obtain fs' where f: "evq_ok w s2 xs cs fs'" "n \<notin> set xs" "n \<notin> set fs'" "n \<le> mallocs s2" "set fs' \<subseteq> set fs"
    "n \<in> set fs \<or> n = Suc (mallocs s1)" using t2(1) by blast
  obtain h s3 where h: "take_handle w s2 = (h, s3)" by (cases "take_handle w s2")
  have h': "h = fst (take_handle w s)" "next_free_handle (queues s3 w) = next_free_handle (queues (snd (take_handle w s)) w)"
    using h t2(5) r1(4) by (auto simp: take_handle_def Let_def split: if_splits)
  have h3: "mem s3 = mem s2" "\<exists>k. queues s3 = (queues s2)(w := (queues s2 w)\<lparr>next_free_handle := k\<rparr>)" "mallocs s3 = mallocs s2" "host s3 = host s2"
    "tic_event_count s3 = tic_event_count s2"
    using h by (auto simp: take_handle_def Let_def split: if_splits)
  define s4 where "s4 = ev_upd n (\<lambda>e. e\<lparr>ev_handle := h, ev_param := param, event_type := etype\<rparr>) s3"
  have m4: "mem s4 x = mem s2 x" if "x \<noteq> n" for x using that h3 by (simp add: s4_def)
  have hs: "hashed (mem s4) (queues s4 w) (set xs) cs"
    by (rule hashed_cong [of "mem s2" "queues s2 w"]) (use f m4 h3 in \<open>auto simp: evq_ok_def s4_def\<close>)
  have k4: "ev_handle (mem s4 n) = h" by (simp add: s4_def)
  obtain s5 where s5: "hash_insert w n h s4 = Some s5"
    "hashed (mem s5) (queues s5 w) (insert n (set xs)) (cs(hash_bucket h := cs (hash_bucket h) @ [n]))"
    "\<And>x. \<exists>v. mem s5 x = (mem s4 x)\<lparr>next_free := v\<rparr>" "\<And>x. x \<notin> set xs \<Longrightarrow> x \<noteq> n \<Longrightarrow> mem s5 x = mem s4 x"
    "\<exists>t. queues s5 = (queues s4)(w := (queues s4 w)\<lparr>ev_hash_table := t\<rparr>)" "mallocs s5 = mallocs s4" "host s5 = host s4"
    "tic_event_count s5 = tic_event_count s4"
    by (rule hash_insert_ok [OF hs f(2) n0 k4]) (rule that; blast)
  define s6 where "s6 = ev_upd n (\<lambda>e. e\<lparr>ev_func := func\<rparr>) s5"
  have f6: "ev_next (mem s6 x) = ev_next (mem s2 x)" "ev_previous (mem s6 x) = ev_previous (mem s2 x)"
    "time_from_last (mem s6 x) = time_from_last (mem s2 x)" "payload (mem s6) x = payload (mem s2) x" if "x \<in> set xs" for x
    using s5(3) [of x] m4 [of x] that f(2) by (auto simp: s6_def payload_def)
  have q6: "list_head (queues s6 w) = list_head (queues s2 w)" "list_tail (queues s6 w) = list_tail (queues s2 w)"
    "free_list_head (queues s6 w) = free_list_head (queues s2 w)" "next_free_handle (queues s6 w) = next_free_handle (queues s3 w)"
    "\<And>v. v \<noteq> w \<Longrightarrow> queues s6 v = queues s v"
    using s5(5) h3(2) t2(8) r1(4) by (auto simp: s6_def s4_def)
  have l6: "linked (mem s6) (queues s6 w) xs" using f f6 q6 linked_cong [of xs "mem s6" "mem s2"] by (simp add: evq_ok_def)
  have e6: "entries (mem s6) xs = retime (unat ttn) (entries (mem s) xs)"
    using entries_cong [of xs "mem s6" "mem s2"] f6 t2(2) r1(2) by simp
  have p6: "payload (mem s6) n = (func, param, h, etype)" using s5(3) [of n] by (auto simp: s6_def s4_def payload_def)
  have sum: "sum_list (delays (mem s6) xs) < 2 ^ 32" using b by (simp add: e6 [symmetric])
  have h6: "hashed (mem s6) (queues s6 w) (insert n (set xs)) (cs(hash_bucket h := cs (hash_bucket h) @ [n]))"
    by (rule hashed_cong [OF s5(2)]) (simp_all add: s6_def)
  have m6: "mem s6 x = mem s2 x" if "x \<notin> set xs" "x \<noteq> n" for x using s5(4) [OF that] m4 [OF that(2)] that by (simp add: s6_def)
  have seg6: "seg (\<lambda>x. ev_next (mem s6 x)) (list_head (queues s6 w)) xs" using l6 by (simp add: linked_def)
  obtain as bs p r where fp: "find_place (mem s6) time (list_head (queues s6 w)) 0 = Some (p, r)" "xs = as @ bs"
    "sum_list (delays (mem s6) as) \<le> unat time" "bs = [] \<Longrightarrow> p = 0 \<and> unat r = sum_list (delays (mem s6) as)"
    "bs \<noteq> [] \<Longrightarrow> p = hd bs \<and> unat r = sum_list (delays (mem s6) as) + unat (time_from_last (mem s6 p)) \<and> unat time < unat r"
    by (rule find_place_split [OF seg6, of 0 time]) (use sum in auto)
  define s' where "s' = link_event w n time p r s6"
  have l: "linked (mem s6) (queues s6 w) (as @ bs)" and nn: "n \<notin> set (as @ bs)" using l6 fp(2) f(2) by simp_all
  note lm = link_event_mem [OF l nn fp(3) fp(4) fp(5), folded s'_def]
  have res: "add_event call w func time param ttn etype s = Some (h, s')"
    unfolding add_event_def Let_def s1_def [symmetric]
    using time t n0 h s5(1) fp(1) [unfolded s6_def state_upd] by (simp add: s4_def [symmetric] s6_def [symmetric] s'_def)
  have L: "linked (mem s') (queues s' w) (as @ n # bs)" using linked_mem_linked [OF l n0 nn] lm by simp
  have H: "hashed (mem s') (queues s' w) (set (as @ n # bs)) (cs(hash_bucket h := cs (hash_bucket h) @ [n]))"
    by (rule hashed_cong [of "mem s6" "queues s6 w"]) (use h6 lm fp(2) in \<open>auto simp: Un_insert_right\<close>)
  have F: "freed (mem s') (queues s' w) fs'"
  proof -
    have "next_free (mem s' x) = next_free (mem s2 x)" if "x \<in> set fs'" for x
    proof -
      have "x \<notin> set xs" "x \<noteq> n" using that f(1,3) by (auto simp: evq_ok_def)
      then show ?thesis using lm(1) m6 [of x] by simp
    qed
    then show ?thesis using f(1) freed_cong [of fs' "mem s'" "mem s2" "queues s' w" "queues s2 w"] lm(2) q6(3) by (simp add: evq_ok_def)
  qed
  have ml: "mallocs s' = mallocs s2" by (simp add: s'_def s6_def s5(6) s4_def h3(3))
  have ok': "evq_ok w s' (as @ n # bs) (cs(hash_bucket h := cs (hash_bucket h) @ [n])) fs'"
    using L H F f fp(2) ml by (auto simp: evq_ok_def)
  have E: "entries (mem s') (as @ n # bs) = ins (unat time) (func, param, h, etype) (retime (unat ttn) (entries (mem s) xs))"
  proof -
    have "unat time < sum_list (delays (mem s6) as) + unat (time_from_last (mem s6 (hd bs)))" if "bs \<noteq> []"
      using fp(5) [OF that] by auto
    from linked_mem_entries [OF l nn fp(3) this] show ?thesis using lm(1) e6 p6 fp(2) by simp
  qed
  have M: "mem s' x = mem s x" if "x \<notin> set xs" "x \<noteq> n" for x
    using that lm(1) fp(2) m6 [OF that] t2(2) r1(3) [OF that(1)] by simp
  show ?thesis
    by (rule that [OF res h'(1) ok' _ f(5) _ E M])
      (use fp(2) f(6) r1 q6 lm(2) ml t2 h' in \<open>simp_all add: s'_def s6_def s5 s4_def h3\<close>)
qed

lemma hash_remove_none:
  assumes h: "hashed (mem s) (queues s w) X cs" and k: "\<forall>x \<in> X. ev_handle (mem s x) \<noteq> k"
  shows "hash_remove w k s = Some (0, s)"
proof -
  have "seg (\<lambda>x. next_free (mem s x)) (ev_hash_table (queues s w) (hash_bucket k)) (cs (hash_bucket k))"
    "\<forall>x \<in> set (cs (hash_bucket k)). ev_handle (mem s x) \<noteq> k" using h k by (auto simp: hashed_def)
  from hash_search_none [OF this, of "ev_hash_table (queues s w) (hash_bucket k)"]
  show ?thesis by (auto simp: hash_remove_def)
qed

lemma hash_remove_ok:
  assumes h: "hashed (mem s) (queues s w) X cs" and n: "n \<in> X" "ev_handle (mem s n) = k" "n \<noteq> 0"
    and u: "\<And>x. x \<in> X \<Longrightarrow> ev_handle (mem s x) = k \<Longrightarrow> x = n"
  shows "\<exists>s' cs'. hash_remove w k s = Some (n, s') \<and> hashed (mem s') (queues s' w) (X - {n}) cs' \<and>
    (\<forall>x. \<exists>v. mem s' x = (mem s x)\<lparr>next_free := v\<rparr>) \<and> (\<forall>x. x \<notin> X \<or> x = n \<longrightarrow> mem s' x = mem s x) \<and>
    (\<exists>t. queues s' = (queues s)(w := (queues s w)\<lparr>ev_hash_table := t\<rparr>)) \<and> mallocs s' = mallocs s \<and> host s' = host s \<and>
    (\<forall>v. get_count v s' = get_count v s)"
proof -
  define b where "b = hash_bucket k"
  have c: "seg (\<lambda>x. next_free (mem s x)) (ev_hash_table (queues s w) b) (cs b)" using h by (simp add: hashed_def)
  have sub: "x \<in> X" if "x \<in> set (cs i)" for x i using h that by (auto simp: hashed_def)
  have oth: "x \<notin> set (cs i)" if "x \<in> set (cs b)" "i \<noteq> b" for x i using h that by (auto simp: hashed_def)
  have "n \<in> set (cs b)" using h n by (simp add: hashed_def b_def)
  then obtain as bs where ab: "cs b = as @ n # bs" by (meson split_list)
  have d: "distinct (as @ n # bs)" using seg_distinct [OF c] ab by simp
  then have ra: "removeAll n (cs b) = as @ bs" using ab by simp
  have k: "\<forall>x \<in> set as. ev_handle (mem s x) \<noteq> k"
  proof
    fix x assume "x \<in> set as"
    then have "x \<in> X" "x \<noteq> n" using sub [of x b] ab d by auto
    then show "ev_handle (mem s x) \<noteq> k" using u by blast
  qed
  have nl: "as \<noteq> [] \<Longrightarrow> last as \<noteq> n" using d last_in_set [of as] by auto
  define s' where "s' = (if as = [] then q_upd w (\<lambda>q. q\<lparr>ev_hash_table := (ev_hash_table q)(b := next_free (mem s n))\<rparr>) s
      else ev_upd (last as) (\<lambda>e. e\<lparr>next_free := next_free (mem s n)\<rparr>) s)"
  have first: "as = [] \<Longrightarrow> ev_hash_table (queues s w) b = n" using c ab by simp
  have r: "hash_remove w k s = Some (n, s')"
    using hash_search_found [OF c [unfolded ab] k n(2), of "ev_hash_table (queues s w) b"] n(3) nl first
    by (auto simp: hash_remove_def b_def [symmetric] s'_def)
  have m: "\<And>x. as = [] \<or> x \<noteq> last as \<Longrightarrow> mem s' x = mem s x" "as \<noteq> [] \<Longrightarrow> next_free (mem s' (last as)) = next_free (mem s n)"
    "ev_handle (mem s' x) = ev_handle (mem s x)" for x
    by (auto simp: s'_def)
  have tb: "ev_hash_table (queues s' w) = (if as = [] then (ev_hash_table (queues s w))(b := next_free (mem s n)) else ev_hash_table (queues s w))"
    by (simp add: s'_def)
  have sb: "seg (\<lambda>x. next_free (mem s' x)) (ev_hash_table (queues s' w) b) (as @ bs)"
  proof -
    have "seg (\<lambda>x. next_free (mem s' x)) (if as = [] then next_free (mem s n) else ev_hash_table (queues s w) b) (as @ bs)"
    proof (rule seg_remove [where f = "\<lambda>x. next_free (mem s x)"])
      show "next_free (mem s' x) = next_free (mem s x)" if "x \<in> set (as @ bs)" "as = [] \<or> x \<noteq> last as" for x
        using m(1) [OF that(2)] by simp
    qed (use c ab d m(2) in simp_all)
    then show ?thesis using tb by (cases "as = []") simp_all
  qed
  have so: "seg (\<lambda>x. next_free (mem s' x)) (ev_hash_table (queues s' w) i) (cs i)" if "i \<noteq> b" for i
  proof -
    have "mem s' x = mem s x" if x: "x \<in> set (cs i)" for x
    proof (rule m(1), rule disjCI)
      assume "\<not> x \<noteq> last as"
      then show "as = []" using oth [of "last as" i] \<open>i \<noteq> b\<close> x ab last_in_set [of as] by (cases "as = []") auto
    qed
    then have "seg (\<lambda>x. next_free (mem s' x)) p (cs i) = seg (\<lambda>x. next_free (mem s x)) p (cs i)" for p
      by (intro seg_cong) simp
    then show ?thesis using h that tb by (simp add: hashed_def)
  qed
  have hs: "hashed (mem s') (queues s' w) (X - {n}) (cs(b := removeAll n (cs b)))"
    using h sb so m(3) n(2) unfolding hashed_def ra [symmetric] by (auto simp: b_def)
  have lx: "as \<noteq> [] \<Longrightarrow> last as \<in> X" using sub [of "last as" b] ab last_in_set [of as] by auto
  have "\<exists>v. mem s' x = (mem s x)\<lparr>next_free := v\<rparr>" for x
  proof -
    have "\<exists>v. mem s y = (mem s y)\<lparr>next_free := v\<rparr>" for y by (intro exI [of _ "next_free (mem s y)"]) simp
    then show ?thesis by (auto simp: s'_def)
  qed
  moreover have "mem s' x = mem s x" if "x \<notin> X \<or> x = n" for x using that m(1) [of x] lx nl by blast
  moreover have "\<exists>t. queues s' = (queues s)(w := (queues s w)\<lparr>ev_hash_table := t\<rparr>)"
  proof (cases "as = []")
    case False
    then show ?thesis by (intro exI [of _ "ev_hash_table (queues s w)"]) (simp add: s'_def)
  qed (auto simp: s'_def)
  moreover have "get_count v s' = get_count v s" for v by (cases v) (simp_all add: s'_def ev_upd_def q_upd_def)
  moreover have "mallocs s' = mallocs s" "host s' = host s" by (simp_all add: s'_def)
  ultimately show ?thesis using r hs by (intro exI [of _ s'] exI [of _ "cs(b := removeAll n (cs b))"] conjI allI impI) simp_all
qed

lemma free_node_ok:
  assumes "linked (mem s) (queues s w) xs" "hashed (mem s) (queues s w) (set xs) cs" "freed (mem s) (queues s w) fs"
    "set xs \<inter> set fs = {}" "\<forall>x \<in> set xs \<union> set fs. x \<le> mallocs s" and n: "n \<notin> set xs" "n \<notin> set fs" "n \<noteq> 0" "n \<le> mallocs s"
  shows "evq_ok w (free_node w n s) xs cs (n # fs)" "entries (mem (free_node w n s)) xs = entries (mem s) xs"
    "payload (mem (free_node w n s)) n = payload (mem s) n" "\<And>x. x \<noteq> n \<Longrightarrow> mem (free_node w n s) x = mem s x"
    "v \<noteq> w \<Longrightarrow> queues (free_node w n s) v = queues s v" "mallocs (free_node w n s) = mallocs s" "host (free_node w n s) = host s"
    "list_head (queues (free_node w n s) w) = list_head (queues s w)"
    "get_count v (free_node w n s) = get_count v s"
proof -
  define s' where "s' = free_node w n s"
  have m: "\<And>x. x \<noteq> n \<Longrightarrow> mem s' x = mem s x" "next_free (mem s' n) = free_list_head (queues s w)" by (simp_all add: s'_def free_node_def)
  have q: "queues s' w = (queues s w)\<lparr>free_list_head := n\<rparr>" by (simp add: s'_def free_node_def)
  have "linked (mem s') (queues s' w) xs" using assms(1) n m q linked_cong [of xs "mem s'" "mem s" "queues s' w" "queues s w"] by fastforce
  moreover have "hashed (mem s') (queues s' w) (set xs) cs"
  proof (rule hashed_cong [OF assms(2)])
    show "next_free (mem s' x) = next_free (mem s x) \<and> ev_handle (mem s' x) = ev_handle (mem s x)" if "x \<in> set xs" for x
      using that n(1) m(1) [of x] by (cases "x = n") simp_all
  qed (simp add: q)
  moreover have "freed (mem s') (queues s' w) (n # fs)"
    using assms(3) m q n seg_cong [of fs "\<lambda>x. next_free (mem s' x)" "\<lambda>x. next_free (mem s x)"] by (fastforce simp: freed_def)
  ultimately show "evq_ok w (free_node w n s) xs cs (n # fs)" using assms(4,5) n by (simp add: evq_ok_def s'_def free_node_def)
  show "entries (mem (free_node w n s)) xs = entries (mem s) xs" using n by (intro entries_cong) (auto simp: free_node_def payload_def)
  show "get_count v (free_node w n s) = get_count v s" by (cases v) (simp_all add: free_node_def ev_upd_def q_upd_def)
qed (auto simp: free_node_def payload_def)

lemma count_upd [simp]:
  "mem (set_count w c s) = mem s" "queues (set_count w c s) = queues s" "mallocs (set_count w c s) = mallocs s"
  "host (set_count w c s) = host s" "get_count w (set_count w c s) = c"
  "get_count v (ev_upd p f s) = get_count v s" "get_count v (q_upd w g s) = get_count v s"
  by (cases w; simp add: c_cpu_q_ev_set_count_def tic_ev_set_count_def; fail)+
    (cases v; simp add: ev_upd_def q_upd_def; fail)+

text \<open>The count to which the counter is set for an event at the head.\<close>

definition head_count :: "'h qstate \<Rightarrow> Q_EVENT \<Rightarrow> IU32" where
  "head_count s e = (if event_type e = EVENT_TICK then time_from_last e
     else if calc_q_inst_for_time (time_from_last e) s = 0 then 1 else calc_q_inst_for_time (time_from_last e) s)"

lemma unlink_head_ok:
  assumes l: "linked (mem s) (queues s w) (x # xs)" and s': "s' = unlink_head w (set_count w) s"
  shows "linked (mem s') (queues s' w) xs" "\<And>y. \<exists>p. mem s' y = (mem s y)\<lparr>ev_previous := p\<rparr>" "\<And>y. y \<notin> set xs \<Longrightarrow> mem s' y = mem s y"
    "v \<noteq> w \<Longrightarrow> queues s' v = queues s v" "\<exists>h t. queues s' w = (queues s w)\<lparr>list_head := h, list_tail := t\<rparr>"
    "mallocs s' = mallocs s" "host s' = host s"
    "get_count w s' = (if xs = [] then get_count w s else head_count s (mem s (hd xs)))"
proof -
  have d: "distinct (x # xs)" "x \<noteq> 0" "0 \<notin> set xs" using linked_facts(3,4) [of _ _ "[]" "x # xs"] l by auto
  have hd: "list_head (queues s w) = x" "ev_next (mem s x) = (if xs = [] then 0 else hd xs)" "ev_previous (mem s x) = 0"
    using linked_facts(1) [of _ _ "[]" "x # xs"] linked_facts(6) [of _ _ "[x]" xs] linked_facts(5) [of _ _ "[]" "x # xs"] l by auto
  have calc: "calc_q_inst_for_time t (ev_upd p f (q_upd w g s)) = calc_q_inst_for_time t s" for t p f g
    by (simp add: calc_q_inst_for_time_def ev_upd_def q_upd_def)
  have h0: "xs \<noteq> [] \<Longrightarrow> hd xs \<noteq> 0" using d by (cases xs) auto
  have m: "mem s' = (if xs = [] then mem s else (mem s)(hd xs := (mem s (hd xs))\<lparr>ev_previous := 0\<rparr>))"
    "queues s' = (queues s)(w := (queues s w)\<lparr>list_head := (if xs = [] then 0 else hd xs),
       list_tail := (if xs = [] then 0 else list_tail (queues s w))\<rparr>)" "mallocs s' = mallocs s" "host s' = host s"
    "get_count w s' = (if xs = [] then get_count w s else head_count s (mem s (hd xs)))"
    unfolding s' using hd h0
    by (auto simp: unlink_head_def Let_def head_count_def calc split: EVENTTYPE.splits)
  show "linked (mem s') (queues s' w) xs"
    using linked_remove [of "mem s" "queues s w" "[]" x xs "mem s'" "queues s' w"] l m hd by auto
  show "\<exists>p. mem s' y = (mem s y)\<lparr>ev_previous := p\<rparr>" for y
  proof -
    have "\<exists>p. mem s z = (mem s z)\<lparr>ev_previous := p\<rparr>" for z by (intro exI [of _ "ev_previous (mem s z)"]) simp
    then show ?thesis unfolding m(1) by auto
  qed
  show "mem s' y = mem s y" if "y \<notin> set xs" for y using that m(1) by (cases xs) auto
  show "\<exists>h t. queues s' w = (queues s w)\<lparr>list_head := h, list_tail := t\<rparr>" unfolding m(2) by (simp only: fun_upd_same) blast
  show "mallocs s' = mallocs s" "host s' = host s" "get_count w s' = (if xs = [] then get_count w s else head_count s (mem s (hd xs)))"
    by (fact m)+
  show "queues s' v = queues s v" if "v \<noteq> w" using that m(2) by simp
qed


text \<open>Handles identify the events of a queue.\<close>

definition unique_handles :: "(nat \<Rightarrow> Q_EVENT) \<Rightarrow> nat list \<Rightarrow> bool" where
  "unique_handles m xs = distinct (map (\<lambda>x. ev_handle (m x)) xs)"

lemma unique_handlesD: "unique_handles m xs \<Longrightarrow> x \<in> set xs \<Longrightarrow> y \<in> set xs \<Longrightarrow> ev_handle (m x) = ev_handle (m y) \<Longrightarrow> x = y"
  by (auto simp: unique_handles_def distinct_map inj_on_def)

lemma unique_handles_entries:
  "entries m' ys = entries m xs \<Longrightarrow> unique_handles m' ys = unique_handles m xs"
proof -
  have "map (\<lambda>x. ev_handle (m x)) xs = map (\<lambda>e. fst (snd (snd (snd e)))) (entries m xs)" for m and xs :: "nat list"
    by (simp add: entries_def payload_def)
  then show "entries m' ys = entries m xs \<Longrightarrow> unique_handles m' ys = unique_handles m xs" by (simp add: unique_handles_def)
qed

text \<open>One round of the dispatch loop up to the callback.\<close>

definition retire_head :: "which \<Rightarrow> 'h qstate \<Rightarrow> 'h qstate option" where
  "retire_head w s = do {
     (hptr, s') \<leftarrow> hash_remove w (ev_handle (mem (unlink_head w (set_count w) s) (list_head (queues s w)))) (unlink_head w (set_count w) s);
     Some (free_node w (list_head (queues s w)) s') }"

lemma retire_head_ok:
  assumes ok: "evq_ok w s (x # xs) cs fs" and u: "unique_handles (mem s) (x # xs)"
  obtains s' cs' where "retire_head w s = Some s'" "evq_ok w s' xs cs' (x # fs)" "entries (mem s') xs = entries (mem s) xs"
    "payload (mem s') x = payload (mem s) x" "host s' = host s" "mallocs s' = mallocs s"
    "\<And>y. y \<notin> set (x # xs) \<Longrightarrow> mem s' y = mem s y" "\<And>v. v \<noteq> w \<Longrightarrow> queues s' v = queues s v"
    "get_count w s' = (if xs = [] then get_count w s else head_count s (mem s (hd xs)))"
proof -
  define s1 where "s1 = unlink_head w (set_count w) s"
  have l: "linked (mem s) (queues s w) (x # xs)" using ok by (simp add: evq_ok_def)
  note u1 = unlink_head_ok [OF l s1_def]
  have x: "list_head (queues s w) = x" "x \<noteq> 0" "x \<notin> set xs" using l linked_facts(1,3,4) [of _ _ "[]" "x # xs"] by auto
  have f1: "ev_handle (mem s1 y) = ev_handle (mem s y)" "next_free (mem s1 y) = next_free (mem s y)"
    "time_from_last (mem s1 y) = time_from_last (mem s y)" "payload (mem s1) y = payload (mem s) y" for y
    using u1(2) [of y] by (auto simp: payload_def)
  have q1: "ev_hash_table (queues s1 w) = ev_hash_table (queues s w)" "free_list_head (queues s1 w) = free_list_head (queues s w)"
    using u1(5) by auto
  have h1: "hashed (mem s1) (queues s1 w) (set (x # xs)) cs"
    by (rule hashed_cong [of "mem s" "queues s w"]) (use ok f1 q1 in \<open>auto simp: evq_ok_def\<close>)
  have uu: "y = x" if "y \<in> set (x # xs)" "ev_handle (mem s1 y) = ev_handle (mem s1 x)" for y
    using unique_handlesD [OF u that(1), of x] that(2) f1(1) by simp
  have xin: "x \<in> set (x # xs)" by simp
  from hash_remove_ok [OF h1 xin refl x(2) uu]
  obtain s2 cs' where s2: "hash_remove w (ev_handle (mem s1 x)) s1 = Some (x, s2)" "hashed (mem s2) (queues s2 w) (set (x # xs) - {x}) cs'"
    "\<forall>y. \<exists>v. mem s2 y = (mem s1 y)\<lparr>next_free := v\<rparr>" "\<forall>y. y \<notin> set (x # xs) \<or> y = x \<longrightarrow> mem s2 y = mem s1 y"
    "\<exists>t. queues s2 = (queues s1)(w := (queues s1 w)\<lparr>ev_hash_table := t\<rparr>)" "mallocs s2 = mallocs s1" "host s2 = host s1"
    "\<forall>v. get_count v s2 = get_count v s1" by blast
  have f2: "ev_next (mem s2 y) = ev_next (mem s1 y)" "ev_previous (mem s2 y) = ev_previous (mem s1 y)"
    "time_from_last (mem s2 y) = time_from_last (mem s y)" "payload (mem s2) y = payload (mem s) y" for y
    using s2(3) [rule_format, of y] f1 [of y] by (auto simp: payload_def)
  have q2: "list_head (queues s2 w) = list_head (queues s1 w)" "list_tail (queues s2 w) = list_tail (queues s1 w)"
    "free_list_head (queues s2 w) = free_list_head (queues s w)" "\<And>v. v \<noteq> w \<Longrightarrow> queues s2 v = queues s v"
    using s2(5) q1 u1(4) by auto
  have l2: "linked (mem s2) (queues s2 w) xs" using u1(1) f2 q2 linked_cong [of xs "mem s2" "mem s1"] by simp
  have h2: "hashed (mem s2) (queues s2 w) (set xs) cs'" using s2(2) x(3) by simp
  have fr2: "freed (mem s2) (queues s2 w) fs"
  proof -
    have "next_free (mem s2 y) = next_free (mem s y)" if "y \<in> set fs" for y
    proof -
      have "y \<notin> set (x # xs)" using ok that by (auto simp: evq_ok_def)
      then show ?thesis using s2(4) [rule_format, of y] f1(2) by simp
    qed
    then show ?thesis using ok q2 freed_cong [of fs "mem s2" "mem s"] by (simp add: evq_ok_def)
  qed
  have dj: "set xs \<inter> set fs = {}" "\<forall>y \<in> set xs \<union> set fs. y \<le> mallocs s2" "x \<notin> set fs" "x \<le> mallocs s2"
    using ok s2(6) u1(6) by (auto simp: evq_ok_def)
  note fn = free_node_ok [OF l2 h2 fr2 dj(1,2) x(3) dj(3) x(2) dj(4)]
  show ?thesis
  proof (rule that)
    show "retire_head w s = Some (free_node w x s2)" using s2(1) x(1) by (simp add: retire_head_def s1_def [symmetric])
    show "evq_ok w (free_node w x s2) xs cs' (x # fs)" by (rule fn)
    show "entries (mem (free_node w x s2)) xs = entries (mem s) xs" using fn(2) f2 entries_cong [of xs "mem s2" "mem s"] by simp
    show "mem (free_node w x s2) y = mem s y" if "y \<notin> set (x # xs)" for y using fn(4) [of y] s2(4) [rule_format, of y] u1(3) [of y] that by auto
    show "get_count w (free_node w x s2) = (if xs = [] then get_count w s else head_count s (mem s (hd xs)))"
      using fn(9) s2(8) u1(8) by simp
  qed (use fn f2 s2 u1 q2 in simp_all)
qed

section \<open>Dispatching\<close>

text \<open>Callbacks that act on the rest of the machine only.\<close>

definition host_only :: "(nat \<Rightarrow> int \<Rightarrow> 'h \<Rightarrow> 'h) \<Rightarrow> 'h q_calls" where
  "host_only hcall f p s = s\<lparr>host := hcall f p (host s)\<rparr>"

text \<open>The effect of calling a list of events in order.\<close>

definition run_events :: "(nat \<Rightarrow> int \<Rightarrow> 'h \<Rightarrow> 'h) \<Rightarrow> (nat \<times> int \<times> int \<times> EVENTTYPE) list \<Rightarrow> 'h \<Rightarrow> 'h" where
  "run_events hcall es h = fold (\<lambda>e. hcall (fst e) (fst (snd e))) es h"

lemma run_events_simps [simp]:
  "run_events hcall [] h = h" "run_events hcall (e # es) h = run_events hcall es (hcall (fst e) (fst (snd e)) h)"
  "run_events hcall (es @ es') h = run_events hcall es' (run_events hcall es h)"
  by (simp_all add: run_events_def)

lemma host_only_frame [simp]:
  "mem (host_only hc f p s) = mem s" "queues (host_only hc f p s) = queues s" "mallocs (host_only hc f p s) = mallocs s"
  "get_count v (host_only hc f p s) = get_count v s" "host (host_only hc f p s) = hc f p (host s)"
  "evq_ok w (host_only hc f p s) xs cs fs = evq_ok w s xs cs fs"
  by (cases v; simp add: host_only_def evq_ok_def)+

lemma dispatch_event_step:
  assumes "evq_ok w s (x # xs) cs fs" "retire_head w s = Some s'"
  shows "dispatch_event call w (set_count w) s =
    (let s'' = call (ev_func (mem s' x)) (ev_param (mem s' x)) s'
     in if list_head (queues s'' w) = 0 then Some s''
        else if time_from_last (mem s'' (list_head (queues s'' w))) \<noteq> 0 then Some s''
        else dispatch_event call w (set_count w) s'')"
proof -
  have "list_head (queues s w) = x" "x \<noteq> 0" using assms(1) linked_facts(1,4) [of _ _ "[]" "x # xs"] by (auto simp: evq_ok_def)
  then show ?thesis using assms(2) by (subst dispatch_event.simps) (auto simp: retire_head_def Let_def split: Option.bind_splits)
qed

definition tick_events :: "(nat \<times> nat \<times> int \<times> int \<times> EVENTTYPE) list \<Rightarrow> bool" where
  "tick_events es = (\<forall>e \<in> set es. snd (snd (snd (snd e))) = EVENT_TICK)"

end
