(* ===== verification/Quick_ev_Run.thy ===== *)
theory Quick_ev_Run
  imports Quick_ev_Inv
begin

text \<open>
  What the queues of delayed calls promise. The reference model of a queue is its agenda: the events in
  the order of their expiry times, first come first served among equal times. Adding a tick event enters
  it into the agenda and deleting one takes it out; running ticks is the subject of \<open>Quick_ev_Again\<close>. The last section records what deleting the head of the quick queue does.
\<close>

section \<open>The agenda of a queue\<close>

text \<open>The list of waiting times and events as a list of expiry times and events.\<close>

fun agenda :: "nat \<Rightarrow> (nat \<times> 'a) list \<Rightarrow> (nat \<times> 'a) list" where
  "agenda t [] = []"
| "agenda t ((d, x) # r) = (t + d, x) # agenda (t + d) r"

text \<open>Entering an event into an agenda: behind the events that expire at the same time or before.\<close>

fun enter :: "nat \<Rightarrow> 'a \<Rightarrow> (nat \<times> 'a) list \<Rightarrow> (nat \<times> 'a) list" where
  "enter t e [] = [(t, e)]"
| "enter t e ((u, x) # r) = (if t < u then (t, e) # (u, x) # r else (u, x) # enter t e r)"

text \<open>One tick on a list of waiting times: the events called, and what is left.\<close>

fun tick :: "(nat \<times> 'a) list \<Rightarrow> 'a list \<times> (nat \<times> 'a) list" where
  "tick [] = ([], [])"
| "tick ((d, x) # r) =
     (if 1 < d then ([], (d - 1, x) # r)
      else (x # map snd (takeWhile (\<lambda>e. fst e = 0) r), dropWhile (\<lambda>e. fst e = 0) r))"

definition advance :: "nat \<Rightarrow> (nat \<times> 'a) list \<Rightarrow> (nat \<times> 'a) list" where
  "advance n a = map (\<lambda>e. (fst e - n, snd e)) (filter (\<lambda>e. n < fst e) a)"

definition due :: "nat \<Rightarrow> (nat \<times> 'a) list \<Rightarrow> 'a list" where
  "due n a = map snd (filter (\<lambda>e. fst e \<le> n) a)"

lemma agenda_ins: "agenda a (ins t e ds) = enter (a + t) e (agenda a ds)"
  by (induction t e ds arbitrary: a rule: ins.induct) auto

lemma agenda_append: "agenda t (as @ bs) = agenda t as @ agenda (t + sum_list (map fst as)) bs"
  by (induction t as rule: agenda.induct) (simp_all add: add.assoc)

lemma agenda_snd [simp]: "map snd (agenda t ds) = map snd ds"
  by (induction t ds rule: agenda.induct) simp_all

lemma agenda_shift: "map (\<lambda>e. (fst e - n, snd e)) (agenda (n + t) ds) = agenda t ds"
  by (induction t ds rule: agenda.induct) (simp_all add: add.assoc)

lemma agenda_ge: "e \<in> set (agenda t ds) \<Longrightarrow> t \<le> fst e"
  by (induction t ds rule: agenda.induct) fastforce+

lemma agenda_bound: "e \<in> set (agenda t ds) \<Longrightarrow> fst e \<le> t + sum_list (map fst ds)"
  by (induction t ds rule: agenda.induct) fastforce+

lemma sum_ins: "sum_list (map fst (ins t e ds)) = max t (sum_list (map fst ds))"
  by (induction t e ds rule: ins.induct) auto

lemma due_advance:
  assumes "sorted (map fst a)" shows "due n a @ due m (advance n a) = due (n + m) a"
proof -
  have "filter (\<lambda>e. fst e \<le> n) a @ filter (\<lambda>e. n < fst e \<and> fst e - n \<le> m) a = filter (\<lambda>e. fst e \<le> n + m) a"
    using assms
  proof (induction a)
    case (Cons e a)
    have "filter (\<lambda>e. fst e \<le> n) a = []" if "n < fst e" using Cons.prems that by (fastforce simp: filter_empty_conv)
    then show ?case using Cons by (cases "n < fst e") auto
  qed simp
  then show ?thesis by (simp add: due_def advance_def filter_map comp_def conj_commute flip: map_append)
qed

lemma advance_advance: "advance m (advance n a) = advance (n + m) a"
proof -
  have "filter (\<lambda>e. m < fst e - n) (filter (\<lambda>e. n < fst e) a) = filter (\<lambda>e. n + m < fst e) a"
    by (auto intro: filter_cong)
  then show ?thesis by (simp add: advance_def filter_map comp_def)
qed

lemma agenda_sorted: "sorted (map fst (agenda t ds))"
  using agenda_ge by (induction t ds rule: agenda.induct) fastforce+

lemma tick_zero:
  "due 1 (agenda 1 r) = map snd (takeWhile (\<lambda>e. fst e = 0) r)" "advance 1 (agenda 1 r) = agenda 0 (dropWhile (\<lambda>e. fst e = 0) r)"
proof (induction r)
  case (Cons e r)
  obtain d x where e: "e = (d, x)" by (cases e)
  {
    case 1
    show ?case
    proof (cases d)
      case (Suc k)
      then have "filter (\<lambda>e. fst e \<le> 1) (agenda (1 + d) r) = []" using agenda_ge [of _ "1 + d" r] by (fastforce simp: filter_empty_conv)
      then show ?thesis using e Suc by (simp add: due_def)
    qed (use Cons e in \<open>simp add: due_def\<close>)
  next
    case 2
    show ?case
    proof (cases d)
      case (Suc k)
      have "filter (\<lambda>e. 1 < fst e) (agenda (1 + d) r) = agenda (1 + d) r"
        using agenda_ge [of _ "1 + d" r] Suc by (fastforce simp: filter_id_conv)
      then show ?thesis using e Suc agenda_shift [of 1 d r] by (simp add: advance_def)
    qed (use Cons e in \<open>simp add: advance_def\<close>)
  }
qed (simp_all add: due_def advance_def)

lemma tick_agenda:
  assumes "ds \<noteq> [] \<Longrightarrow> 0 < fst (hd ds)"
  shows "fst (tick ds) = due 1 (agenda 0 ds)" "agenda 0 (snd (tick ds)) = advance 1 (agenda 0 ds)"
proof -
  consider "ds = []" | d x r where "ds = (d, x) # r" "1 < d" | x r where "ds = (1, x) # r"
  proof (cases ds)
    case (Cons e r)
    then show ?thesis using that assms by (cases e; cases "1 < fst e") (auto simp: not_less le_Suc_eq)
  qed simp
  then have "fst (tick ds) = due 1 (agenda 0 ds) \<and> agenda 0 (snd (tick ds)) = advance 1 (agenda 0 ds)"
  proof cases
    case (2 d x r)
    have a: "\<forall>e \<in> set (agenda d r). 1 < fst e" using agenda_ge [of _ d r] 2 by fastforce
    have "filter (\<lambda>e. fst e \<le> 1) (agenda d r) = []" "filter (\<lambda>e. 1 < fst e) (agenda d r) = agenda d r"
      using a by (auto simp: filter_empty_conv filter_id_conv)
    then show ?thesis using 2 agenda_shift [of 1 "d - 1" r] by (simp add: due_def advance_def)
  next
    case (3 x r)
    then show ?thesis using tick_zero [of r] by (simp add: due_def advance_def)
  qed (simp add: due_def advance_def)
  then show "fst (tick ds) = due 1 (agenda 0 ds)" "agenda 0 (snd (tick ds)) = advance 1 (agenda 0 ds)" by simp_all
qed

section \<open>Ticks\<close>

text \<open>A state of the tick queue, and the waiting times of its events now.\<close>

definition tick_ok :: "'h qstate \<Rightarrow> nat list \<Rightarrow> (nat \<Rightarrow> nat list) \<Rightarrow> nat list \<Rightarrow> bool" where
  "tick_ok s xs cs fs \<longleftrightarrow> evq_ok Tick s xs cs fs \<and> unique_handles (mem s) xs \<and> tick_events (entries (mem s) xs) \<and>
     sum_list (delays (mem s) xs) < 2 ^ 32 \<and>
     (if xs = [] then tic_event_count s = 0 else 0 < tic_event_count s \<and> tic_event_count s \<le> time_from_last (mem s (hd xs)))"

definition waiting :: "'h qstate \<Rightarrow> nat list \<Rightarrow> (nat \<times> nat \<times> int \<times> int \<times> EVENTTYPE) list" where
  "waiting s xs = retime (unat (tic_event_count s)) (entries (mem s) xs)"

text \<open>The tick queue holds exactly the events of an agenda.\<close>

definition tick_queue :: "'h qstate \<Rightarrow> (nat \<times> nat \<times> int \<times> int \<times> EVENTTYPE) list \<Rightarrow> bool" where
  "tick_queue s a \<longleftrightarrow> (\<exists>xs cs fs. tick_ok s xs cs fs \<and> a = agenda 0 (waiting s xs))"

primrec run_ticks :: "'h q_calls \<Rightarrow> nat \<Rightarrow> 'h qstate \<Rightarrow> 'h qstate option" where
  "run_ticks call 0 s = Some s"
| "run_ticks call (Suc n) s = Option.bind (dispatch_tic_event call s) (run_ticks call n)"

lemma retime_hd [simp]: "retime t es \<noteq> [] \<longleftrightarrow> es \<noteq> []" "es \<noteq> [] \<Longrightarrow> fst (hd (retime t es)) = t"
  by (cases es; auto)+

lemma retime_same: "(es \<noteq> [] \<Longrightarrow> t = fst (hd es)) \<Longrightarrow> retime t es = es"
  by (cases es) auto

text \<open>The handle the next event gets, and whether there is memory for an event.\<close>

definition next_handle :: "which \<Rightarrow> 'h qstate \<Rightarrow> int" where
  "next_handle w s = fst (take_handle w s)"

definition node_available :: "which \<Rightarrow> 'h qstate \<Rightarrow> bool" where
  "node_available w s \<longleftrightarrow> free_list_head (queues s w) \<noteq> 0 \<or> \<not> malloc_fails s (mallocs s)"

definition handles :: "(nat \<times> nat \<times> int \<times> int \<times> EVENTTYPE) list \<Rightarrow> int list" where
  "handles a = map (\<lambda>e. fst (snd (snd (snd e)))) a"

lemma handles_simps [simp]:
  "handles (agenda t es) = handles es" "handles (retime t es) = handles es" "handles (entries m xs) = map (\<lambda>x. ev_handle (m x)) xs"
  by (induction t es rule: agenda.induct; simp add: handles_def) (cases es; auto simp: handles_def entries_def payload_def)+

lemma distinct_ins: "distinct (handles es) \<Longrightarrow> fst (snd (snd e)) \<notin> set (handles es) \<Longrightarrow>
    distinct (handles (ins t e es)) \<and> set (handles (ins t e es)) = insert (fst (snd (snd e))) (set (handles es))"
  by (induction t e es rule: ins.induct) (auto simp: handles_def)

lemma tick_events_ins: "tick_events es \<Longrightarrow> snd (snd (snd e)) = EVENT_TICK \<Longrightarrow> tick_events (ins t e es)"
  by (induction t e es rule: ins.induct) (auto simp: tick_events_def)

lemma hd_ins: "0 < t \<Longrightarrow> (es \<noteq> [] \<Longrightarrow> 0 < fst (hd es)) \<Longrightarrow> ins t e es \<noteq> [] \<and> 0 < fst (hd (ins t e es))"
  by (induction t e es rule: ins.induct) auto

lemma tick_events_retime [simp]: "tick_events (retime t es) = tick_events es"
  by (cases es) (auto simp: tick_events_def)

lemma add_tic_event_ok:
  assumes q: "tick_queue s a" and time: "time \<noteq> 0" and node: "node_available Tick s"
    and fresh: "next_handle Tick s \<notin> set (handles a)"
  shows "\<exists>s'. add_tic_event call func time param s = Some (next_handle Tick s, s') \<and> host s' = host s \<and>
    tick_queue s' (enter (unat time) (func, param, next_handle Tick s, EVENT_TICK) a)"
proof -
  define h where "h = next_handle Tick s"
  obtain xs cs fs where ok: "tick_ok s xs cs fs" "a = agenda 0 (waiting s xs)" using q by (auto simp: tick_queue_def)
  have evq: "evq_ok Tick s xs cs fs" using ok(1) by (simp add: tick_ok_def)
  have nd: "fs \<noteq> [] \<or> \<not> malloc_fails s (mallocs s)"
    using evq node by (auto simp: evq_ok_def freed_def node_available_def)
  have le: "sum_list (map fst (waiting s xs)) \<le> sum_list (delays (mem s) xs)"
    using ok(1) by (cases xs) (auto simp: waiting_def tick_ok_def delays_def word_le_nat_alt)
  then have sum: "sum_list (map fst (retime (unat (tic_event_count s)) (entries (mem s) xs))) < 2 ^ 32"
    using ok(1) by (simp add: tick_ok_def waiting_def)
  obtain n s1 ys cs' fs' where r: "add_event call Tick func time param (tic_event_count s) EVENT_TICK s = Some (h, s1)"
    "evq_ok Tick s1 ys cs' fs'" "entries (mem s1) ys = ins (unat time) (func, param, h, EVENT_TICK) (waiting s xs)" "host s1 = host s"
    using add_event_queued [OF evq time nd sum, of call func param EVENT_TICK] unfolding h_def next_handle_def waiting_def by metis
  have hs: "distinct (handles (waiting s xs))" "h \<notin> set (handles (waiting s xs))"
    using ok fresh by (simp_all add: waiting_def tick_ok_def unique_handles_def h_def)
  have te: "tick_events (waiting s xs)" using ok(1) by (simp add: waiting_def tick_ok_def)
  have pos: "waiting s xs \<noteq> [] \<Longrightarrow> 0 < fst (hd (waiting s xs))"
    using ok(1) by (auto simp: tick_ok_def waiting_def unat_gt_0 word_gt_0 split: if_splits)
  have t0: "0 < unat time" using time by (simp add: unat_gt_0)
  have hd: "ys \<noteq> []" "0 < fst (hd (entries (mem s1) ys))" using hd_ins [OF t0 pos] r(3) by (metis entries_simps(6))+
  have l: "linked (mem s1) (queues s1 Tick) ([] @ ys)" using r(2) by (simp add: evq_ok_def)
  have hd': "list_head (queues s1 Tick) = hd ys" "hd ys \<noteq> 0"
    using linked_facts(1) [OF l] ends_apart(2) [OF linked_facts(3,4) [OF l] hd(1)] hd(1) by auto
  define s' where "s' = tic_ev_set_count (time_from_last (mem s1 (hd ys))) s1"
  have m: "mem s' = mem s1" "queues s' = queues s1" "mallocs s' = mallocs s1" "host s' = host s1"
    "tic_event_count s' = time_from_last (mem s1 (hd ys))" by (simp_all add: s'_def tic_ev_set_count_def)
  have res: "add_tic_event call func time param s = Some (h, s')" using r(1) hd' by (simp add: add_tic_event_def s'_def)
  have "sum_list (delays (mem s1) ys) < 2 ^ 32"
    using sum_ins [of "unat time" "(func, param, h, EVENT_TICK)" "waiting s xs"] sum unsigned_less [of time, where ?'a = nat] arg_cong [OF r(3), of "\<lambda>es. sum_list (map fst es)"]
    by (simp add: waiting_def)
  moreover have "unique_handles (mem s1) ys"
    using distinct_ins [OF hs(1), of "(func, param, h, EVENT_TICK)" "unat time"] hs(2) r(3) by (metis fst_conv snd_conv handles_simps(3) unique_handles_def)
  moreover have "tick_events (entries (mem s1) ys)" using tick_events_ins [OF te, of "(func, param, h, EVENT_TICK)"] r(3) by simp
  moreover have "0 < time_from_last (mem s1 (hd ys))" using hd by (cases ys) (auto simp: unat_gt_0 word_gt_0)
  ultimately have "tick_ok s' ys cs' fs'" using r(2) hd(1) m by (simp add: tick_ok_def evq_ok_def)
  moreover have "waiting s' ys = entries (mem s1) ys" unfolding waiting_def m
    by (rule retime_same) (use hd(1) in \<open>cases ys; simp\<close>)
  then have "agenda 0 (waiting s' ys) = enter (unat time) (func, param, h, EVENT_TICK) a" using r(3) ok(2) agenda_ins [of 0] by simp
  ultimately show ?thesis using res r(4) m(4) unfolding h_def tick_queue_def by metis
qed

section \<open>Deleting an event\<close>

text \<open>Taking a waiting time out of a list adds it to the next one.\<close>

fun merge_delay :: "nat \<Rightarrow> (nat \<times> 'a) list \<Rightarrow> (nat \<times> 'a) list" where
  "merge_delay d [] = []"
| "merge_delay d ((e, x) # r) = (d + e, x) # r"

lemma agenda_merge: "agenda t (as @ merge_delay d bs) = agenda t as @ tl (agenda (t + sum_list (map fst as)) ((d, x) # bs))"
  by (cases bs) (auto simp: agenda_append add.assoc)

definition unlinked_mem :: "nat \<Rightarrow> nat list \<Rightarrow> nat list \<Rightarrow> (nat \<Rightarrow> Q_EVENT) \<Rightarrow> nat \<Rightarrow> Q_EVENT" where
  "unlinked_mem n as bs m x =
     (if as \<noteq> [] \<and> x = last as then (m x)\<lparr>ev_next := ev_next (m n)\<rparr>
      else if bs \<noteq> [] \<and> x = hd bs then (m x)\<lparr>ev_previous := ev_previous (m n), time_from_last := time_from_last (m x) + time_from_last (m n)\<rparr>
      else m x)"

lemma unlinked_mem_fields [simp]:
  "next_free (unlinked_mem n as bs m x) = next_free (m x)" "payload (unlinked_mem n as bs m) x = payload m x"
  "ev_handle (unlinked_mem n as bs m x) = ev_handle (m x)" "event_type (unlinked_mem n as bs m x) = event_type (m x)"
  "x \<notin> set (as @ bs) \<Longrightarrow> unlinked_mem n as bs m x = m x"
  by (auto simp: unlinked_mem_def payload_def)

lemma linked_around:
  assumes l: "linked m q (as @ n # bs)"
  shows "ev_previous (m n) = (if as = [] then 0 else last as)" "ev_next (m n) = (if bs = [] then 0 else hd bs)"
    "n \<noteq> 0" "n \<notin> set (as @ bs)" "distinct (as @ bs)" "0 \<notin> set (as @ bs)" "list_head q = n \<longleftrightarrow> as = []" "list_tail q = n \<longleftrightarrow> bs = []"
proof -
  have f: "list_head q = hd (as @ n # bs)" "list_tail q = last (as @ n # bs)" "distinct (as @ n # bs)" "0 \<notin> set (as @ n # bs)"
    using linked_facts(1-4) [OF l] by simp_all
  show "ev_previous (m n) = (if as = [] then 0 else last as)" using linked_facts(5) [OF l] by simp
  show "ev_next (m n) = (if bs = [] then 0 else hd bs)" using linked_facts(6) [of m q "as @ [n]" bs] l by simp
  show "n \<noteq> 0" "n \<notin> set (as @ bs)" "distinct (as @ bs)" "0 \<notin> set (as @ bs)" using f(3,4) by auto
  show "list_head q = n \<longleftrightarrow> as = []" using f(1,3) by (cases as) auto
  show "list_tail q = n \<longleftrightarrow> bs = []" using f(2,3) last_in_set [of bs] by (cases "bs = []") auto
qed

lemma unlink_event_mem:
  assumes l: "linked (mem s) (queues s w) (as @ n # bs)"
  shows "mem (unlink_event w n s) = unlinked_mem n as bs (mem s)"
    "queues (unlink_event w n s) = (queues s)(w := (queues s w)\<lparr>list_tail := (if bs = [] then ev_previous (mem s n) else list_tail (queues s w))\<rparr>)"
    "mallocs (unlink_event w n s) = mallocs s" "host (unlink_event w n s) = host s" "get_count v (unlink_event w n s) = get_count v s"
proof -
  note a = linked_around [OF l]
  have nz: "as \<noteq> [] \<Longrightarrow> last as \<noteq> 0 \<and> last as \<noteq> n" "bs \<noteq> [] \<Longrightarrow> hd bs \<noteq> 0 \<and> hd bs \<noteq> n" "as \<noteq> [] \<Longrightarrow> bs \<noteq> [] \<Longrightarrow> hd bs \<noteq> last as"
    using ends_apart [OF a(5)] a(4,6) by metis+
  show "mem (unlink_event w n s) = unlinked_mem n as bs (mem s)"
    "queues (unlink_event w n s) = (queues s)(w := (queues s w)\<lparr>list_tail := (if bs = [] then ev_previous (mem s n) else list_tail (queues s w))\<rparr>)"
    using a(1,2,8) nz by (cases "as = []"; cases "bs = []"; auto simp: unlink_event_def unlinked_mem_def Let_def fun_eq_iff)+
  show "mallocs (unlink_event w n s) = mallocs s" "host (unlink_event w n s) = host s" "get_count v (unlink_event w n s) = get_count v s"
    by (simp_all add: unlink_event_def Let_def)
qed

lemma unlinked_mem_linked:
  assumes l: "linked m q (as @ n # bs)"
    and q: "list_head q' = (if as = [] then ev_next (m n) else list_head q)" "list_tail q' = (if bs = [] then ev_previous (m n) else list_tail q)"
  shows "linked (unlinked_mem n as bs m) q' (as @ bs)"
proof (rule linked_remove [OF l _ _ _ _ q])
  note a = linked_around [OF l]
  show "ev_next (unlinked_mem n as bs m (last as)) = ev_next (m n)" if "as \<noteq> []" using that by (simp add: unlinked_mem_def)
  show "ev_previous (unlinked_mem n as bs m (hd bs)) = ev_previous (m n)" if "bs \<noteq> []"
    using that ends_apart(3) [OF a(5) _ that] by (auto simp: unlinked_mem_def)
  show "ev_next (unlinked_mem n as bs m x) = ev_next (m x)" if "as = [] \<or> x \<noteq> last as" for x
    using that by (elim disjE) (simp_all add: unlinked_mem_def)
  show "ev_previous (unlinked_mem n as bs m x) = ev_previous (m x)" if "bs = [] \<or> x \<noteq> hd bs" for x
    using that by (elim disjE) (simp_all add: unlinked_mem_def)
qed

lemma unlinked_mem_entries:
  assumes l: "linked m q (as @ n # bs)" and sum: "sum_list (delays m (as @ n # bs)) < 2 ^ 32"
  shows "entries (unlinked_mem n as bs m) as = entries m as"
    "entries (unlinked_mem n as bs m) bs = merge_delay (unat (time_from_last (m n))) (entries m bs)"
proof -
  note a = linked_around [OF l]
  show "entries (unlinked_mem n as bs m) as = entries m as"
  proof (rule entries_cong)
    fix x assume x: "x \<in> set as"
    have "bs = [] \<or> x \<noteq> hd bs" using x a(5) hd_in_set [of bs] by auto
    then show "time_from_last (unlinked_mem n as bs m x) = time_from_last (m x) \<and> payload (unlinked_mem n as bs m) x = payload m x"
      by (elim disjE) (simp_all add: unlinked_mem_def payload_def)
  qed
  show "entries (unlinked_mem n as bs m) bs = merge_delay (unat (time_from_last (m n))) (entries m bs)"
  proof (cases bs)
    case (Cons y ys)
    have "as = [] \<or> y \<noteq> last as" using not_last [of as bs y] a(5) Cons by auto
    then have y: "time_from_last (unlinked_mem n as bs m y) = time_from_last (m y) + time_from_last (m n)"
      using Cons by (elim disjE) (simp_all add: unlinked_mem_def)
    have "unat (time_from_last (m y) + time_from_last (m n)) = unat (time_from_last (m n)) + unat (time_from_last (m y))"
      using sum Cons by (simp add: delays_def unat_word_ariths)
    moreover have "entries (unlinked_mem n as bs m) ys = entries m ys"
    proof (rule entries_cong)
      fix x assume x: "x \<in> set ys"
      have "x \<noteq> y" "as = [] \<or> x \<noteq> last as" using x a(5) Cons not_last [of as bs x] by auto
      then show "time_from_last (unlinked_mem n as bs m x) = time_from_last (m x) \<and> payload (unlinked_mem n as bs m) x = payload m x"
        using Cons by (auto simp: unlinked_mem_def payload_def)
    qed
    ultimately show ?thesis using y Cons by simp
  qed simp
qed

text \<open>Deleting up to the adjustment of the counter.\<close>

definition unlink_node :: "which \<Rightarrow> nat \<Rightarrow> 'h qstate \<Rightarrow> 'h qstate" where
  "unlink_node w n s = (let s = unlink_event w n s
     in if n = list_head (queues s w) then q_upd w (\<lambda>q. q\<lparr>list_head := ev_next (mem s n)\<rparr>) s else s)"

lemma hash_unlink_ok:
  assumes ok: "evq_ok w s (as @ n # bs) cs fs" and u: "unique_handles (mem s) (as @ n # bs)" and h: "ev_handle (mem s n) = h"
    and sum: "sum_list (delays (mem s) (as @ n # bs)) < 2 ^ 32"
  shows "\<exists>s1 s3 cs'. hash_remove w h s = Some (n, s1) \<and> s3 = free_node w n (unlink_node w n s1) \<and> evq_ok w s3 (as @ bs) cs' (n # fs) \<and>
    entries (mem s3) (as @ bs) = entries (mem s) as @ merge_delay (unat (time_from_last (mem s n))) (entries (mem s) bs) \<and>
    time_from_last (mem s3 n) = time_from_last (mem s n) \<and> event_type (mem s3 n) = event_type (mem s n) \<and>
    ev_next (mem s3 n) = (if bs = [] then 0 else hd bs) \<and> linked (mem s1) (queues s1 w) (as @ n # bs) \<and>
    host s3 = host s \<and> (\<forall>v. get_count v s3 = get_count v s)"
proof -
  define xs where "xs = as @ n # bs"
  have l: "linked (mem s) (queues s w) (as @ n # bs)" using ok by (simp add: evq_ok_def)
  note a = linked_around [OF l]
  have uu: "y = n" if "y \<in> set xs" "ev_handle (mem s y) = h" for y
    using unique_handlesD [OF u, of y n] that h by (simp add: xs_def)
  have hs: "hashed (mem s) (queues s w) (set xs) cs" and nx: "n \<in> set xs" using ok by (simp_all add: evq_ok_def xs_def)
  from hash_remove_ok [OF hs nx h a(3) uu]
  obtain s1 cs' where s1: "hash_remove w h s = Some (n, s1)" "hashed (mem s1) (queues s1 w) (set xs - {n}) cs'"
    "\<forall>y. \<exists>v. mem s1 y = (mem s y)\<lparr>next_free := v\<rparr>" "\<forall>y. y \<notin> set xs \<or> y = n \<longrightarrow> mem s1 y = mem s y"
    "\<exists>t. queues s1 = (queues s)(w := (queues s w)\<lparr>ev_hash_table := t\<rparr>)" "mallocs s1 = mallocs s" "host s1 = host s"
    "\<forall>v. get_count v s1 = get_count v s" by blast
  have f1: "ev_next (mem s1 y) = ev_next (mem s y)" "ev_previous (mem s1 y) = ev_previous (mem s y)"
    "time_from_last (mem s1 y) = time_from_last (mem s y)" "payload (mem s1) y = payload (mem s) y" for y
    using s1(3) [rule_format, of y] by (auto simp: payload_def)
  have q1: "list_head (queues s1 w) = list_head (queues s w)" "list_tail (queues s1 w) = list_tail (queues s w)"
    "free_list_head (queues s1 w) = free_list_head (queues s w)" using s1(5) by auto
  have l1: "linked (mem s1) (queues s1 w) (as @ n # bs)" using l f1 q1 linked_cong [of "as @ n # bs" "mem s1" "mem s"] by simp
  have d1: "delays (mem s1) ys = delays (mem s) ys" "entries (mem s1) ys = entries (mem s) ys" for ys
    using entries_cong [of ys "mem s1" "mem s"] f1 by (simp_all add: delays_def)
  note um = unlink_event_mem [OF l1]
  define s2 where "s2 = unlink_node w n s1"
  have m2: "mem s2 = unlinked_mem n as bs (mem s1)" "mallocs s2 = mallocs s" "host s2 = host s" "get_count v s2 = get_count v s" for v
    using um s1(6-8) by (auto simp: s2_def unlink_node_def Let_def)
  have nm: "mem s2 n = mem s n" using m2(1) a(4) s1(4) by simp
  have q2: "list_head (queues s2 w) = (if as = [] then ev_next (mem s1 n) else list_head (queues s1 w))"
    "list_tail (queues s2 w) = (if bs = [] then ev_previous (mem s1 n) else list_tail (queues s1 w))"
    "free_list_head (queues s2 w) = free_list_head (queues s w)" "ev_hash_table (queues s2 w) = ev_hash_table (queues s1 w)"
    using um(1,2) linked_around(4,7) [OF l1] q1(3) by (auto simp: s2_def unlink_node_def Let_def)
  have l2: "linked (mem s2) (queues s2 w) (as @ bs)" unfolding m2(1) by (rule unlinked_mem_linked [OF l1 q2(1,2)])
  have h2: "hashed (mem s2) (queues s2 w) (set (as @ bs)) cs'"
  proof -
    have "set xs - {n} = set (as @ bs)" using a(4) by (auto simp: xs_def)
    then have "hashed (mem s1) (queues s1 w) (set (as @ bs)) cs'" using s1(2) by simp
    then show ?thesis by (rule hashed_cong) (simp_all add: m2(1) q2(4))
  qed
  have fr: "freed (mem s2) (queues s2 w) fs"
  proof -
    have "next_free (mem s2 y) = next_free (mem s y)" if "y \<in> set fs" for y
    proof -
      have "y \<notin> set xs" using ok that by (auto simp: evq_ok_def xs_def)
      then show ?thesis using s1(4) m2(1) by simp
    qed
    then show ?thesis using ok q2(3) freed_cong [of fs "mem s2" "mem s"] by (simp add: evq_ok_def)
  qed
  have dj: "set (as @ bs) \<inter> set fs = {}" "\<forall>y \<in> set (as @ bs) \<union> set fs. y \<le> mallocs s2" "n \<notin> set fs" "n \<le> mallocs s2"
    using ok m2(2) by (auto simp: evq_ok_def)
  note fn = free_node_ok [OF l2 h2 fr dj(1,2) a(4) dj(3) a(3) dj(4)]
  have sum1: "sum_list (delays (mem s1) (as @ n # bs)) < 2 ^ 32" using sum d1 by simp
  have e2: "entries (mem s2) (as @ bs) = entries (mem s) as @ merge_delay (unat (time_from_last (mem s n))) (entries (mem s) bs)"
    using unlinked_mem_entries [OF l1 sum1] d1 f1 m2(1) by simp
  have nf: "time_from_last (mem (free_node w n s2) n) = time_from_last (mem s n)" "event_type (mem (free_node w n s2) n) = event_type (mem s n)"
    "ev_next (mem (free_node w n s2) n) = ev_next (mem s n)" by (simp_all add: free_node_def nm)
  show ?thesis
    by (rule exI [of _ s1], rule exI [of _ "free_node w n s2"], rule exI [of _ cs'])
      (use s1(1) fn e2 nf m2 l1 a(2) in \<open>simp add: s2_def [symmetric]\<close>)
qed

lemma free_node_head:
  "q_upd w (\<lambda>q. q\<lparr>list_head := x\<rparr>) (free_node w n s) = free_node w n (q_upd w (\<lambda>q. q\<lparr>list_head := x\<rparr>) s)"
  by (cases "queues s w") (simp add: free_node_def q_upd_def ev_upd_def)

lemma filter_handle_split:
  assumes "distinct (handles (as @ (t, e) # bs))"
  shows "filter (\<lambda>x. fst (snd (snd (snd x))) \<noteq> fst (snd (snd e))) (as @ (t, e) # bs) = as @ bs"
proof -
  have "filter (\<lambda>x. fst (snd (snd (snd x))) \<noteq> fst (snd (snd e))) ys = ys" if "fst (snd (snd e)) \<notin> set (handles ys)" for ys
    using that by (force simp: filter_id_conv handles_def image_iff)
  then show ?thesis using assms by (simp add: handles_def)
qed

lemma agenda_delete:
  assumes "distinct (handles (as @ (d, e) # bs))"
  shows "agenda 0 (as @ merge_delay d bs) = filter (\<lambda>x. fst (snd (snd (snd x))) \<noteq> fst (snd (snd e))) (agenda 0 (as @ (d, e) # bs))"
proof -
  let ?t = "sum_list (map fst as)"
  have "handles (agenda 0 (as @ (d, e) # bs)) = handles (agenda 0 as @ (?t + d, e) # agenda (?t + d) bs)"
    by (simp add: agenda_append)
  then have "distinct (handles (agenda 0 as @ (?t + d, e) # agenda (?t + d) bs))" using assms by (metis handles_simps(1))
  from filter_handle_split [OF this] show ?thesis using agenda_merge [of 0 as d bs e] by (simp add: agenda_append)
qed

lemma delays_simps: "delays m [] = []" "delays m (x # xs) = unat (time_from_last (m x)) # delays m xs" "delays m (as @ bs) = delays m as @ delays m bs"
  by (simp_all add: delays_def)

lemma merge_delay_fields [simp]:
  "handles (merge_delay d es) = handles es" "tick_events (merge_delay d es) = tick_events es"
  "sum_list (map fst (merge_delay d es)) \<le> d + sum_list (map fst es)"
  by (cases es; auto simp: handles_def tick_events_def)+

lemma handles_append [simp]: "handles (as @ bs) = handles as @ handles bs" "tick_events (as @ bs) \<longleftrightarrow> tick_events as \<and> tick_events bs"
  "handles (e # es) = fst (snd (snd (snd e))) # handles es" "tick_events (e # es) \<longleftrightarrow> snd (snd (snd (snd e))) = EVENT_TICK \<and> tick_events es"
  "handles [] = []" "tick_events []"
  by (auto simp: handles_def tick_events_def)

lemma unique_handles_conv: "unique_handles m xs = distinct (handles (entries m xs))"
  by (simp add: unique_handles_def)

lemma tick_types: "tick_events (entries m xs) \<longleftrightarrow> (\<forall>x \<in> set xs. event_type (m x) = EVENT_TICK)"
  by (auto simp: tick_events_def entries_def payload_def)

text \<open>The tick queue after its counter and its head have been set to the same time.\<close>

lemma tick_queue_set:
  assumes ok: "evq_ok Tick s (y # ys) cs fs" and u: "unique_handles (mem s) (y # ys)" and t: "tick_events (entries (mem s) (y # ys))"
    and c: "0 < c" and sum: "unat c + sum_list (delays (mem s) ys) < 2 ^ 32"
  shows "tick_ok (set_count Tick c (ev_upd y (\<lambda>e. e\<lparr>time_from_last := c\<rparr>) s)) (y # ys) cs fs"
    "waiting (set_count Tick c (ev_upd y (\<lambda>e. e\<lparr>time_from_last := c\<rparr>) s)) (y # ys) = retime (unat c) (entries (mem s) (y # ys))"
proof -
  define s1 where "s1 = ev_upd y (\<lambda>e. e\<lparr>time_from_last := c\<rparr>) s"
  have "linked (mem s) (queues s Tick) ([] @ y # ys)" using ok by (simp add: evq_ok_def)
  then have y: "list_head (queues s Tick) = y" "y \<noteq> 0" "y \<notin> set ys" using linked_facts(1,3,4) [of _ _ "[]" "y # ys"] by auto
  have s1: "s1 = (if list_head (queues s Tick) \<noteq> 0 then ev_upd (list_head (queues s Tick)) (\<lambda>e. e\<lparr>time_from_last := c\<rparr>) s else s)"
    using y by (simp add: s1_def)
  note rf = refresh_head [OF ok s1]
  have d: "delays (mem s1) ys = delays (mem s) ys" "time_from_last (mem s1 y) = c" using y(3) by (auto simp: s1_def delays_def)
  have "(\<lambda>x. ev_handle (mem s1 x)) = (\<lambda>x. ev_handle (mem s x))" by (simp add: s1_def fun_eq_iff)
  then have un: "unique_handles (mem s1) (y # ys)" using u by (simp add: unique_handles_def)
  have te: "tick_events (entries (mem s1) (y # ys))" using t unfolding rf(2) by (simp add: tick_events_def)
  have ok1: "evq_ok Tick (set_count Tick c s1) (y # ys) cs fs" using rf(1) by (simp add: evq_ok_def tic_ev_set_count_def)
  then show "tick_ok (set_count Tick c (ev_upd y (\<lambda>e. e\<lparr>time_from_last := c\<rparr>) s)) (y # ys) cs fs"
    unfolding s1_def [symmetric] using un te c sum d
    by (simp add: tick_ok_def tic_ev_set_count_def delays_simps)
  show "waiting (set_count Tick c (ev_upd y (\<lambda>e. e\<lparr>time_from_last := c\<rparr>) s)) (y # ys) = retime (unat c) (entries (mem s) (y # ys))"
    unfolding s1_def [symmetric] waiting_def using rf(2) by (simp add: tic_ev_set_count_def)
qed


lemma delete_tic_event_ok:
  assumes q: "tick_queue s a" and h: "h \<in> set (handles a)" "h \<noteq> 0"
  shows "\<exists>s'. delete_tic_event call h s = Some s' \<and> host s' = host s \<and>
    tick_queue s' (filter (\<lambda>x. fst (snd (snd (snd x))) \<noteq> h) a)"
proof -
  obtain xs cs fs where ok: "tick_ok s xs cs fs" "a = agenda 0 (waiting s xs)" using q by (auto simp: tick_queue_def)
  have hs: "h \<in> set (map (\<lambda>x. ev_handle (mem s x)) xs)" using h(1) ok(2) by (simp add: waiting_def)
  then obtain n where n: "n \<in> set xs" "ev_handle (mem s n) = h" by auto
  then obtain as bs where xs: "xs = as @ n # bs" by (meson split_list)
  define c where "c = tic_event_count s"
  define d where "d = time_from_last (mem s n)"
  have k: "evq_ok Tick s (as @ n # bs) cs fs" "unique_handles (mem s) (as @ n # bs)" "sum_list (delays (mem s) (as @ n # bs)) < 2 ^ 32"
    "tick_events (entries (mem s) (as @ n # bs))" and cc: "0 < c" "c \<le> time_from_last (mem s (hd (as @ n # bs)))"
    using ok(1) xs by (simp_all add: tick_ok_def c_def)
  from hash_unlink_ok [OF k(1,2) n(2) k(3)] obtain s1 s3 cs' where s3: "hash_remove Tick h s = Some (n, s1)"
    "s3 = free_node Tick n (unlink_node Tick n s1)" "evq_ok Tick s3 (as @ bs) cs' (n # fs)"
    "entries (mem s3) (as @ bs) = entries (mem s) as @ merge_delay (unat d) (entries (mem s) bs)"
    "time_from_last (mem s3 n) = d" "event_type (mem s3 n) = event_type (mem s n)" "ev_next (mem s3 n) = (if bs = [] then 0 else hd bs)"
    "linked (mem s1) (queues s1 Tick) (as @ n # bs)" "host s3 = host s" "\<forall>v. get_count v s3 = get_count v s"
    unfolding d_def by blast
  have c3: "tic_event_count s3 = c" using s3(10) [rule_format, of Tick] by (simp add: c_def)
  have ty: "event_type (mem s3 n) = EVENT_TICK" using s3(6) k(4) unfolding tick_types by simp
  note a1 = linked_around [OF s3(8)]
  have lh: "list_head (queues (unlink_event Tick n s1) Tick) = list_head (queues s1 Tick)"
    using unlink_event_mem(2) [OF s3(8)] by simp
  have un3: "unique_handles (mem s3) (as @ bs)" and te3: "tick_events (entries (mem s3) (as @ bs))"
    using k(2,4) unfolding unique_handles_conv s3(4) by (simp_all del: handles_simps(3))
  have su3: "sum_list (delays (mem s3) (as @ bs)) \<le> sum_list (delays (mem s) (as @ n # bs))"
    using arg_cong [OF s3(4), of "\<lambda>es. sum_list (map fst es)"] merge_delay_fields(3) [of "unat d" "entries (mem s) bs"]
    by (simp add: delays_simps d_def)
  have W: "waiting s xs = retime (unat c) (entries (mem s) (as @ n # bs))" by (simp add: waiting_def c_def xs)
  have dh: "distinct (handles (waiting s xs))" using k(2) unfolding W by (simp add: unique_handles_def payload_def)
  show ?thesis
  proof (cases as)
    case (Cons x as')
    have nh: "n \<noteq> list_head (queues s1 Tick)" using a1(7) Cons by auto
    then have "s3 = free_node Tick n (unlink_event Tick n s1)" using s3(2) lh by (simp add: unlink_node_def)
    then have "delete_tic_event call h s = Some s3"
      using s3(1) h(2) a1(3) nh lh by (simp add: delete_tic_event_def delete_event_def free_node_def Let_def)
    moreover have "tick_ok s3 (as @ bs) cs' (n # fs)"
    proof -
      have "time_from_last (mem s3 x) = time_from_last (mem s x)" using s3(4) Cons by (simp add: word_unat_eq_iff)
      then show ?thesis using s3(3) un3 te3 su3 k(3) c3 cc Cons by (simp add: tick_ok_def)
    qed
    moreover have "agenda 0 (waiting s3 (as @ bs)) = filter (\<lambda>x. fst (snd (snd (snd x))) \<noteq> h) a"
    proof -
      let ?as = "retime (unat c) (entries (mem s) as)"
      have "waiting s3 (as @ bs) = ?as @ merge_delay (unat d) (entries (mem s) bs)"
        unfolding waiting_def c3 s3(4) using Cons by simp
      moreover have "waiting s xs = ?as @ (unat d, payload (mem s) n) # entries (mem s) bs" unfolding W d_def using Cons by simp
      moreover have "fst (snd (snd (payload (mem s) n))) = h" using n(2) by (simp add: payload_def)
      ultimately show ?thesis using agenda_delete [of ?as "unat d" "payload (mem s) n" "entries (mem s) bs"] dh ok(2) by simp
    qed
    ultimately show ?thesis using s3(9) unfolding tick_queue_def by metis
  next
    case Nil
    define s2 where "s2 = free_node Tick n (unlink_event Tick n s1)"
    have hd1: "list_head (queues (unlink_event Tick n s1) Tick) = n" using lh a1(7) Nil by simp
    have hd2: "list_head (queues s2 Tick) = n" using hd1 by (simp add: s2_def free_node_def)
    have del: "delete_tic_event call h s = retime_head call Tick n s2"
      using s3(1) h(2) a1(3) hd2 by (simp add: delete_tic_event_def delete_event_def s2_def [symmetric] Let_def)
    have s3q: "s3 = q_upd Tick (\<lambda>q. q\<lparr>list_head := ev_next (mem (unlink_event Tick n s1) n)\<rparr>) s2"
      using s3(2) hd1 by (simp add: unlink_node_def s2_def free_node_head Let_def)
    have m23: "mem s2 = mem s3" "get_count Tick s2 = c" using c3 unfolding s3q by simp_all
    have nx: "ev_next (mem (unlink_event Tick n s1) n) = ev_next (mem s2 n)" by (simp add: s2_def free_node_def)
    have qs: "q_upd Tick (\<lambda>q. q\<lparr>list_head := (if bs = [] then 0 else hd bs)\<rparr>) s2 = s3"
      by (subst s3q) (simp only: nx m23(1) s3(7))
    show ?thesis
    proof (cases bs)
      case bsN: Nil
      have r: "retime_head call Tick n s2 = Some (set_count Tick 0 s3)"
        using bsN s3(7) m23(1) qs ty by (simp add: retime_head_def Let_def)
      have "tick_ok (set_count Tick 0 s3) [] cs' (n # fs)" using s3(3) Nil bsN
        by (simp add: tick_ok_def evq_ok_def unique_handles_def tic_ev_set_count_def delays_simps)
      moreover have "agenda 0 (waiting (set_count Tick 0 s3) []) = filter (\<lambda>x. fst (snd (snd (snd x))) \<noteq> h) a"
        using ok(2) W Nil bsN n(2) by (simp add: waiting_def payload_def)
      ultimately have "tick_queue (set_count Tick 0 s3) (filter (\<lambda>x. fst (snd (snd (snd x))) \<noteq> h) a)" unfolding tick_queue_def by metis
      then show ?thesis using del r s3(9) by (simp add: tic_ev_set_count_def)
    next
      case (Cons y ys)
      define c' where "c' = time_from_last (mem s3 y) - (d - c)"
      have cd: "c \<le> d" using cc(2) Nil by (simp add: d_def)
      have y: "unat (time_from_last (mem s3 y)) = unat d + unat (time_from_last (mem s y))" "entries (mem s3) ys = entries (mem s) ys"
        "payload (mem s3) y = payload (mem s) y" using s3(4) Nil Cons by simp_all
      have dc: "unat (d - c) = unat d - unat c" using cd by (rule unat_sub)
      have c0: "0 < unat c" "unat c \<le> unat d" using cc(1) cd by (simp_all add: unat_gt_0 word_gt_0 word_le_nat_alt)
      have lt: "\<not> time_from_last (mem s3 y) \<le> d - c" unfolding word_le_nat_alt dc y(1) using c0 by simp
      then have "unat c' = unat (time_from_last (mem s3 y)) - (unat d - unat c)" unfolding c'_def using dc by (simp add: unat_sub)
      then have c': "unat c' = unat c + unat (time_from_last (mem s y))" using y(1) c0 by simp
      have r: "retime_head call Tick n s2 = Some (set_count Tick c' (ev_upd y (\<lambda>e. e\<lparr>time_from_last := c'\<rparr>) s3))"
        using Cons s3(5,7) m23 qs ty lt hd2 a1(3) linked_around(6) [OF s3(8)]
        by (auto simp: retime_head_def Let_def c'_def ev_upd_def simp del: count_upd)
      have "sum_list (delays (mem s3) ys) = sum_list (delays (mem s) ys)" using arg_cong [OF y(2), of "\<lambda>es. sum_list (map fst es)"] by simp
      then have sm: "unat c' + sum_list (delays (mem s3) ys) < 2 ^ 32"
        using k(3) c' c0 Nil Cons by (simp add: delays_simps d_def)
      have p: "0 < c'" using c' c0 by (simp add: word_gt_0 unat_gt_0 [symmetric])
      note tq = tick_queue_set [OF _ _ _ p sm]
      have "tick_ok (set_count Tick c' (ev_upd y (\<lambda>e. e\<lparr>time_from_last := c'\<rparr>) s3)) (y # ys) cs' (n # fs)"
        by (rule tq) (use s3(3) un3 te3 Nil Cons in simp_all)
      moreover have "waiting (set_count Tick c' (ev_upd y (\<lambda>e. e\<lparr>time_from_last := c'\<rparr>) s3)) (y # ys) = retime (unat c') (entries (mem s3) (y # ys))"
        by (rule tq) (use s3(3) un3 te3 Nil Cons in simp_all)
      then have "agenda 0 (waiting (set_count Tick c' (ev_upd y (\<lambda>e. e\<lparr>time_from_last := c'\<rparr>) s3)) (y # ys)) = filter (\<lambda>x. fst (snd (snd (snd x))) \<noteq> h) a"
        using agenda_delete [of "[]" "unat c" "payload (mem s) n" "entries (mem s) bs"] dh ok(2) W c' y Nil Cons n(2)
        by (simp add: payload_def)
      ultimately have "tick_queue (set_count Tick c' (ev_upd y (\<lambda>e. e\<lparr>time_from_last := c'\<rparr>) s3)) (filter (\<lambda>x. fst (snd (snd (snd x))) \<noteq> h) a)"
        unfolding tick_queue_def by metis
      moreover have "host (set_count Tick c' (ev_upd y (\<lambda>e. e\<lparr>time_from_last := c'\<rparr>) s3)) = host s" using s3(9) by (simp del: set_count.simps)
      ultimately show ?thesis using del r by metis
    qed
  qed
qed

section \<open>The contract\<close>

text \<open>Both queues, each with its list of waiting times and events, in disjoint parts of the store.\<close>

definition ev_queues :: "'h qstate \<Rightarrow> (which \<Rightarrow> (nat \<times> nat \<times> int \<times> int \<times> EVENTTYPE) list) \<Rightarrow> bool" where
  "ev_queues s E \<longleftrightarrow> (\<exists>L C F. (\<forall>w. evq_ok w s (L w) (C w) (F w) \<and> E w = entries (mem s) (L w)) \<and>
     (\<forall>v w. v \<noteq> w \<longrightarrow> (set (L v) \<union> set (F v)) \<inter> (set (L w) \<union> set (F w)) = {}))"

text \<open>The state at power on, with memory for every request.\<close>

definition power_on :: "'h \<Rightarrow> 'h qstate" where
  "power_on h = \<lparr>mem = (\<lambda>_. \<lparr>ev_func = 0, time_from_last = 0, original_time = 0, ev_handle = 0, ev_param = 0, event_type = EVENT_TIME,
       ev_next = 0, ev_previous = 0, next_free = 0\<rparr>), mallocs = 0, malloc_fails = (\<lambda>_. False),
     queues = (\<lambda>_. \<lparr>list_head = 0, list_tail = 0, free_list_head = 0, ev_hash_table = (\<lambda>_. 0), next_free_handle = 1\<rparr>),
     cpu_heartbeat = 0, tic_event_count = 0, usecPerIJC = - 1, jumpRestart = - 1, real_q_rate = 1, ideal_q_rate = 1, host = h\<rparr>"

lemma tick_queue_init: "tick_queue (tic_event_init s) []"
proof -
  have "tick_ok (tic_event_init s) [] (\<lambda>_. []) []"
    by (simp add: tick_ok_def evq_ok_def linked_def hashed_def freed_def unique_handles_def delays_simps tic_event_init_def
        q_event_init_structs_def q_upd_def tic_ev_set_count_def)
  then show ?thesis unfolding tick_queue_def by (intro exI) (auto simp: waiting_def)
qed

lemma ev_queues_init: "ev_queues (q_event_init (tic_event_init s)) (\<lambda>_. [])"
proof -
  have "evq_ok w (q_event_init (tic_event_init s)) [] (\<lambda>_. []) []" for w
    by (cases w) (simp_all add: evq_ok_def linked_def hashed_def freed_def tic_event_init_def q_event_init_def init_q_ratio_def
        q_event_init_structs_def q_upd_def tic_ev_set_count_def c_cpu_q_ev_set_count_def)
  then show ?thesis unfolding ev_queues_def
    by (intro exI [of _ "\<lambda>_. []"] exI [of _ "\<lambda>_ _. []"]) simp
qed

lemma add_event_queues:
  fixes time ttn :: IU32
  assumes q: "ev_queues s E" and time: "time \<noteq> 0" and node: "node_available w s"
    and b: "sum_list (map fst (retime (unat ttn) (E w))) < 2 ^ 32"
  shows "\<exists>s'. add_event call w func time param ttn etype s = Some (next_handle w s, s') \<and> host s' = host s \<and>
    ev_queues s' (E(w := ins (unat time) (func, param, next_handle w s, etype) (retime (unat ttn) (E w))))"
proof -
  obtain L C F where ok: "\<And>w. evq_ok w s (L w) (C w) (F w)" "\<And>w. E w = entries (mem s) (L w)"
    and dj: "\<And>v w. v \<noteq> w \<Longrightarrow> (set (L v) \<union> set (F v)) \<inter> (set (L w) \<union> set (F w)) = {}"
    using q unfolding ev_queues_def by blast
  have nd: "F w \<noteq> [] \<or> \<not> malloc_fails s (mallocs s)" using ok(1) [of w] node by (auto simp: evq_ok_def freed_def node_available_def)
  have bb: "sum_list (map fst (retime (unat ttn) (entries (mem s) (L w)))) < 2 ^ 32" using b ok(2) by simp
  obtain n h s' xs' cs' fs' where r: "add_event call w func time param ttn etype s = Some (h, s')" "h = fst (take_handle w s)"
    "evq_ok w s' xs' cs' fs'" "set xs' = insert n (set (L w))" "set fs' \<subseteq> set (F w)" "n \<in> set (F w) \<or> n = Suc (mallocs s)"
    "entries (mem s') xs' = ins (unat time) (func, param, h, etype) (retime (unat ttn) (entries (mem s) (L w)))"
    "\<And>x. x \<notin> set (L w) \<Longrightarrow> x \<noteq> n \<Longrightarrow> mem s' x = mem s x" "\<And>v. v \<noteq> w \<Longrightarrow> queues s' v = queues s v" "mallocs s \<le> mallocs s'" "host s' = host s"
    using add_event_queued [OF ok(1) time nd bb] by metis
  have other: "x \<notin> set (L w) \<and> x \<noteq> n" if "v \<noteq> w" "x \<in> set (L v) \<union> set (F v)" for v x
  proof -
    have "x \<le> mallocs s" using ok(1) [of v] that(2) by (auto simp: evq_ok_def)
    then show ?thesis using dj [OF that(1)] that(2) r(6) by auto
  qed
  have v: "evq_ok v s' (L v) (C v) (F v) \<and> entries (mem s') (L v) = E v" if "v \<noteq> w" for v
    using evq_frame [OF ok(1) [of v]] r(8-10) other [OF that] ok(2) that by metis
  have "evq_ok v s' ((L(w := xs')) v) ((C(w := cs')) v) ((F(w := fs')) v) \<and>
      (E(w := ins (unat time) (func, param, h, etype) (retime (unat ttn) (E w)))) v = entries (mem s') ((L(w := xs')) v)" for v
    using v [of v] r(3,7) ok(2) by simp
  moreover have "(set ((L(w := xs')) u) \<union> set ((F(w := fs')) u)) \<inter> (set ((L(w := xs')) v) \<union> set ((F(w := fs')) v)) = {}" if "u \<noteq> v" for u v
  proof -
    have "x \<notin> set xs' \<union> set fs'" if "t \<noteq> w" "x \<in> set (L t) \<union> set (F t)" for t x
      using other [OF that] dj [OF that(1)] that(2) r(4,5) by auto
    then show ?thesis using that dj [OF that] by (auto split: if_splits)
  qed
  ultimately have "ev_queues s' (E(w := ins (unat time) (func, param, h, etype) (retime (unat ttn) (E w))))"
    unfolding ev_queues_def by (intro exI conjI allI impI) blast+
  then show ?thesis using r(1,2,11) by (simp add: next_handle_def)
qed

lemma add_tic_event_no_memory:
  assumes q: "tick_queue s a" and time: "time \<noteq> 0" and node: "\<not> node_available Tick s"
  shows "\<exists>s'. add_tic_event call func time param s = Some (0xffff, s') \<and> host s' = host s \<and> tick_queue s' a"
proof -
  obtain xs cs fs where ok: "tick_ok s xs cs fs" "a = agenda 0 (waiting s xs)" using q by (auto simp: tick_queue_def)
  have evq: "evq_ok Tick s xs cs fs" using ok(1) by (simp add: tick_ok_def)
  have l: "linked (mem s) (queues s Tick) ([] @ xs)" using evq by (simp add: evq_ok_def)
  have fl: "free_list_head (queues s Tick) = 0" "malloc_fails s (mallocs s)" using node by (simp_all add: node_available_def)
  define c where "c = tic_event_count s"
  define s1 where "s1 = (if list_head (queues s Tick) \<noteq> 0 then ev_upd (list_head (queues s Tick)) (\<lambda>e. e\<lparr>time_from_last := c\<rparr>) s else s)"
  define s2 where "s2 = s1\<lparr>mallocs := Suc (mallocs s1)\<rparr>"
  note r1 = refresh_head [OF evq s1_def]
  have t: "take_node Tick s1 = (0, s2)" using fl r1(4,5,8) by (simp add: take_node_def host_malloc_def s2_def)
  have "add_event call Tick func time param c EVENT_TICK s = Some (0xffff, s2)"
    unfolding add_event_def Let_def s1_def [symmetric] using time t by simp
  then have r: "add_tic_event call func time param s =
      Some (0xffff, if list_head (queues s2 Tick) \<noteq> 0 then tic_ev_set_count (time_from_last (mem s2 (list_head (queues s2 Tick)))) s2 else s2)"
    by (simp add: add_tic_event_def c_def)
  have lh: "list_head (queues s2 Tick) = (if xs = [] then 0 else hd xs)" using linked_facts(1) [OF l] r1(4) by (simp add: s2_def)
  have more: "evq_ok w (s\<lparr>mallocs := Suc (mallocs s)\<rparr>) ys ds gs" if "evq_ok w s ys ds gs" for w ys ds gs and s :: "'a qstate"
    using that by (auto simp: evq_ok_def le_SucI)
  show ?thesis
  proof (cases xs)
    case Nil
    then have "s1 = s" using linked_facts(1) [OF l] by (simp add: s1_def)
    then have "tick_ok s2 [] cs fs" using ok(1) more [OF evq] Nil by (simp add: tick_ok_def s2_def)
    moreover have "waiting s2 [] = waiting s xs" using Nil by (simp add: waiting_def)
    ultimately have "tick_queue s2 a" using ok(2) unfolding tick_queue_def by metis
    then show ?thesis using r lh Nil r1(6) by (intro exI [of _ s2]) (simp add: s2_def)
  next
    case (Cons y ys)
    have y: "y \<noteq> 0" "y \<notin> set ys" "list_head (queues s Tick) = y" using linked_facts(1,3,4) [OF l] Cons by auto
    have cc: "0 < c" "c \<le> time_from_last (mem s y)" using ok(1) Cons by (simp_all add: tick_ok_def c_def)
    have sum: "unat c + sum_list (delays (mem s) ys) < 2 ^ 32" using ok(1) Cons cc(2) by (simp add: tick_ok_def delays_simps word_le_nat_alt)
    define s3 where "s3 = set_count Tick c (ev_upd y (\<lambda>e. e\<lparr>time_from_last := c\<rparr>) s)"
    have "evq_ok Tick s (y # ys) cs fs" "unique_handles (mem s) (y # ys)" "tick_events (entries (mem s) (y # ys))"
      using ok(1) unfolding Cons tick_ok_def by blast+
    from tick_queue_set [OF this cc(1) sum, folded s3_def]
    have k: "tick_ok s3 (y # ys) cs fs" "waiting s3 (y # ys) = waiting s (y # ys)" by (simp_all add: waiting_def c_def)
    have "tick_ok (s3\<lparr>mallocs := Suc (mallocs s3)\<rparr>) (y # ys) cs fs" using k(1) more [of Tick s3] by (simp add: tick_ok_def)
    moreover have "waiting (s3\<lparr>mallocs := Suc (mallocs s3)\<rparr>) (y # ys) = waiting s xs" using k(2) Cons by (simp add: waiting_def)
    ultimately have "tick_queue (s3\<lparr>mallocs := Suc (mallocs s3)\<rparr>) a" using ok(2) unfolding tick_queue_def by metis
    moreover have "tic_ev_set_count (time_from_last (mem s2 y)) s2 = s3\<lparr>mallocs := Suc (mallocs s3)\<rparr>"
      using y by (simp add: s2_def s1_def s3_def tic_ev_set_count_def ev_upd_def)
    ultimately show ?thesis using r lh Cons y(1) by (auto simp: s3_def tic_ev_set_count_def)
  qed
qed

lemma delete_tic_event_unknown:
  assumes "tick_queue s a" "h = 0 \<or> h \<notin> set (handles a)"
  shows "delete_tic_event call h s = Some s"
proof -
  obtain xs cs fs where ok: "tick_ok s xs cs fs" "a = agenda 0 (waiting s xs)" using assms(1) by (auto simp: tick_queue_def)
  then have "hashed (mem s) (queues s Tick) (set xs) cs" by (simp add: tick_ok_def evq_ok_def)
  note none = hash_remove_none [OF this, of h]
  show ?thesis
  proof (cases "h = 0")
    case False
    then have "\<forall>x \<in> set xs. ev_handle (mem s x) \<noteq> h" using assms(2) ok(2) by (auto simp: waiting_def)
    then show ?thesis using none False by (simp add: delete_tic_event_def delete_event_def)
  qed (simp add: delete_tic_event_def delete_event_def)
qed

text \<open>C8. Adding to either queue. With both queues well formed (time-ordered doubly linked list, hash chains and
  free list of each in disjoint parts of the store), a non-zero delay and a free node or memory for one,
  \<open>add_event\<close> returns: it gives out the next handle, refreshes the waiting time of the head, and puts the
  event at its place in the time order, behind events that expire at the same time; the waiting time of
  its successor is reduced by its own, nothing else changes in the list, the other queue is untouched,
  and both queues are well formed again.\<close>

theorem event_added_in_order:
  fixes time ttn :: IU32
  assumes "ev_queues s E" "time \<noteq> 0" "node_available w s" "sum_list (map fst (retime (unat ttn) (E w))) < 2 ^ 32"
  shows "\<exists>s'. add_event call w func time param ttn etype s = Some (next_handle w s, s') \<and> host s' = host s \<and>
    ev_queues s' (E(w := ins (unat time) (func, param, next_handle w s, etype) (retime (unat ttn) (E w))))"
  using assms by (rule add_event_queues)

lemma power_on_next: "node_available w (q_event_init (tic_event_init (power_on h)))" "next_handle w (q_event_init (tic_event_init (power_on h))) = 1"
  by (cases w; simp add: node_available_def next_handle_def take_handle_def power_on_def q_event_init_def tic_event_init_def init_q_ratio_def
      q_event_init_structs_def q_upd_def tic_ev_set_count_def c_cpu_q_ev_set_count_def)+

theorem event_added_in_order_witness:
  "\<exists>s'. add_event (host_only (\<lambda>f p l. (f, p) # l)) Quick 7 1000 5 0 EVENT_TIME (q_event_init (tic_event_init (power_on []))) = Some (1, s') \<and>
    ev_queues s' ((\<lambda>_. [])(Quick := [(1000, 7, 5, 1, EVENT_TIME)]))"
  using event_added_in_order [OF ev_queues_init [of "power_on []"] _ power_on_next(1),
    where w = Quick and time = 1000 and ttn = 0 and call = "host_only (\<lambda>f p l. (f, p) # l)" and func = 7 and param = 5 and etype = EVENT_TIME]
  by (auto simp: power_on_next(2))

text \<open>The tick queue holds an agenda, its events in the order of their remaining ticks. \<open>add_tic_event\<close> with a
  non-zero delay enters the event into the agenda behind those that expire no later, and returns its
  handle, provided the handle is not in use (handles are reused after \<open>0xffff\<close>). When the allocation
  fails it returns \<open>0xffff\<close> and the agenda is unchanged. No callback is called.\<close>

theorem tick_event_scheduled:
  assumes "tick_queue s a" "time \<noteq> 0" "next_handle Tick s \<notin> set (handles a)"
  shows "if node_available Tick s
    then \<exists>s'. add_tic_event call func time param s = Some (next_handle Tick s, s') \<and> host s' = host s \<and>
      tick_queue s' (enter (unat time) (func, param, next_handle Tick s, EVENT_TICK) a)
    else \<exists>s'. add_tic_event call func time param s = Some (0xffff, s') \<and> host s' = host s \<and> tick_queue s' a"
  using add_tic_event_ok [OF assms(1,2) _ assms(3)] add_tic_event_no_memory [OF assms(1,2)] by simp

lemma tick_power_on: "tick_queue (tic_event_init (power_on h)) []" "node_available Tick (tic_event_init (power_on h))"
    "next_handle Tick (tic_event_init (power_on h)) = 1"
  by (rule tick_queue_init) (simp_all add: node_available_def next_handle_def take_handle_def power_on_def tic_event_init_def
      q_event_init_structs_def q_upd_def tic_ev_set_count_def)

theorem tick_event_scheduled_witness:
  "\<exists>s'. add_tic_event (host_only (\<lambda>f p l. (f, p) # l)) 7 3 5 (tic_event_init (power_on [])) = Some (1, s') \<and>
    tick_queue s' [(3, 7, 5, 1, EVENT_TICK)]"
  using tick_event_scheduled [OF tick_power_on(1), where h1 = "[]" and time = 3 and call = "host_only (\<lambda>f p l. (f, p) # l)" and func = 7 and param = 5]
  by (auto simp: tick_power_on(2,3))

lemma one_tick_event: "\<exists>s :: (nat \<times> int) list qstate. tick_queue s [(3, 7, 5, 1, EVENT_TICK)] \<and> host s = []"
proof -
  define s0 :: "(nat \<times> int) list qstate" where "s0 = tic_event_init (power_on [])"
  have q0: "tick_queue s0 []" "node_available Tick s0" "next_handle Tick s0 = 1" unfolding s0_def by (rule tick_power_on)+
  have "host s0 = []" by (simp add: s0_def tic_event_init_def q_event_init_structs_def q_upd_def tic_ev_set_count_def power_on_def)
  then show ?thesis using add_tic_event_ok [OF q0(1) _ q0(2), of 3 undefined 7 5] q0(3) by auto
qed

text \<open>C26. Deleting a tick event by its handle takes it out of the agenda; every other event keeps the time at which it
  will be called, also when the event being counted down is the one deleted and the counter has to be
  set anew. The null handle and a handle that is not in use change nothing. No callback is called.\<close>

theorem tick_event_deleted:
  assumes "tick_queue s a"
  shows "if h = 0 \<or> h \<notin> set (handles a) then delete_tic_event call h s = Some s
    else \<exists>s'. delete_tic_event call h s = Some s' \<and> host s' = host s \<and> tick_queue s' (filter (\<lambda>x. fst (snd (snd (snd x))) \<noteq> h) a)"
  using delete_tic_event_ok [OF assms] delete_tic_event_unknown [OF assms] by simp

theorem tick_event_deleted_witness:
  "\<exists>(s :: (nat \<times> int) list qstate) s'. tick_queue s [(3, 7, 5, 1, EVENT_TICK)] \<and> delete_tic_event (host_only (\<lambda>f p l. l @ [(f, p)])) 1 s = Some s' \<and> tick_queue s' []"
proof -
  obtain s :: "(nat \<times> int) list qstate" where s: "tick_queue s [(3, 7, 5, 1, EVENT_TICK)]" using one_tick_event by blast
  show ?thesis using s tick_event_deleted [OF s, of 1 "host_only (\<lambda>f p l. l @ [(f, p)])"] by (auto simp: handles_def)
qed

section \<open>Deleting the head of the quick queue\<close>

lemma rates_upd [simp]:
  "usecPerIJC (ev_upd p f s) = usecPerIJC s" "usecPerIJC (q_upd w g s) = usecPerIJC s" "usecPerIJC (free_node w p s) = usecPerIJC s"
  "usecPerIJC (unlink_event w p s) = usecPerIJC s"
  by (simp_all add: ev_upd_def q_upd_def free_node_def unlink_event_def Let_def)

lemma hash_remove_rates: "hash_remove w h s = Some (p, s') \<Longrightarrow> usecPerIJC s' = usecPerIJC s"
  by (auto simp: hash_remove_def Let_def bind_eq_Some_conv)

lemma crude_scale: "usecPerIJC s = - 1 \<Longrightarrow> calc_q_inst_for_time x s = x div 10" "usecPerIJC s = - 1 \<Longrightarrow> calc_q_time_for_inst x s = x * 10"
  by (simp_all add: calc_q_inst_for_time_def calc_q_time_for_inst_def)

lemma late_count:
  fixes w k :: IU32
  assumes "0 < w" "10 * unat w + unat k < 2 ^ 32"
  shows "unat k + unat w div 10 < unat ((w + k div 10) * 10)"
proof -
  have "unat (k div 10) = unat k div 10" by (simp add: unat_div)
  moreover have "unat ((w + k div 10) * 10) = (unat w + unat k div 10) * 10"
    using assms(2) calculation by (simp add: unat_word_ariths)
  moreover have "k' + w' div 10 < (w' + k' div 10) * 10" if "0 < w'" for k' w' :: nat
  proof -
    have *: "k' + v < (w' + q) * 10" if "k' = 10 * q + r" "r < 10" "v < w'" for q r v using that by (simp add: algebra_simps)
    show ?thesis by (rule * [of _ "k' mod 10"]) (use that in simp_all)
  qed
  ultimately show ?thesis using assms(1) by (simp add: word_less_nat_alt)
qed

text \<open>C40. Deleting the event the CPU is counting down to makes the next one late. \<open>delete_event\<close> converts the CPU count to a time with the
  function that converts times to counts, and the remaining time to a count with the inverse one. With the built-in scale of ten microseconds
  per count, which is in force until the host has calibrated the rate, for a head with at least ten counts to go and a next event that is due at least
  a microsecond after the head, the CPU counter is set to ten times the sum of the next event's waiting time and a tenth of the count. As
  long as this fits the counter it is more than the counts that are left until the next event, which are those of the head and a tenth of the waiting time.
  In the run below an event due in 2000 microseconds (200 counts) is left with a counter of 10100.\<close>

theorem quick_head_deleted_late:
  assumes "evq_ok Quick s (n # y # ys) cs fs" "unique_handles (mem s) (n # y # ys)" "sum_list (delays (mem s) (n # y # ys)) < 2 ^ 32"
    "event_type (mem s n) \<noteq> EVENT_TICK" "ev_handle (mem s n) = h" "h \<noteq> 0" "usecPerIJC s = - 1"
    "10 \<le> cpu_heartbeat s" "cpu_heartbeat s div 10 \<le> time_from_last (mem s n)"
    "0 < time_from_last (mem s y)" "10 * unat (time_from_last (mem s y)) + unat (cpu_heartbeat s) < 2 ^ 32"
  shows "\<exists>s'. delete_q_event call h s = Some s' \<and> list_head (queues s' Quick) = y \<and>
    cpu_heartbeat s' = (time_from_last (mem s y) + cpu_heartbeat s div 10) * 10 \<and>
    unat (cpu_heartbeat s) + unat (time_from_last (mem s y)) div 10 < unat (cpu_heartbeat s')"
proof -
  define c where "c = cpu_heartbeat s div 10"
  define d where "d = time_from_last (mem s n)"
  from hash_unlink_ok [of Quick s "[]" n "y # ys" cs fs h] assms obtain s1 s3 cs' where s3: "hash_remove Quick h s = Some (n, s1)"
    "s3 = free_node Quick n (unlink_node Quick n s1)" "evq_ok Quick s3 (y # ys) cs' (n # fs)"
    "entries (mem s3) (y # ys) = merge_delay (unat d) (entries (mem s) (y # ys))"
    "time_from_last (mem s3 n) = d" "event_type (mem s3 n) = event_type (mem s n)" "ev_next (mem s3 n) = y"
    "linked (mem s1) (queues s1 Quick) (n # y # ys)" "\<forall>v. get_count v s3 = get_count v s"
    unfolding d_def by auto
  define s2 where "s2 = free_node Quick n (unlink_event Quick n s1)"
  have lh: "list_head (queues (unlink_event Quick n s1) Quick) = n"
    using unlink_event_mem(2) [of s1 Quick "[]" n "y # ys"] linked_around(7) [of "mem s1" "queues s1 Quick" "[]" n "y # ys"] s3(8) by simp
  have n0: "n \<noteq> 0" "y \<noteq> 0" using linked_around(3,6) [of "mem s1" "queues s1 Quick" "[]" n "y # ys"] s3(8) by auto
  have lh2: "list_head (queues s2 Quick) = n" using lh by (simp add: s2_def free_node_def)
  have s3q: "s3 = q_upd Quick (\<lambda>q. q\<lparr>list_head := ev_next (mem (unlink_event Quick n s1) n)\<rparr>) s2"
    using s3(2) lh by (simp add: unlink_node_def s2_def free_node_head Let_def)
  have m23: "mem s2 = mem s3" "get_count Quick s2 = get_count Quick s3" unfolding s3q by simp_all
  have nx: "ev_next (mem (unlink_event Quick n s1) n) = ev_next (mem s2 n)" by (simp add: s2_def free_node_def)
  have qs: "q_upd Quick (\<lambda>q. q\<lparr>list_head := y\<rparr>) s2 = s3" by (subst s3q) (simp only: nx m23(1) s3(7))
  have u: "usecPerIJC s2 = - 1" using hash_remove_rates [OF s3(1)] assms(7) by (simp add: s2_def)
  have hb: "cpu_heartbeat s2 = cpu_heartbeat s" using m23(2) s3(9) [rule_format, of Quick] by simp
  have del: "delete_q_event call h s = retime_head call Quick n s2"
    using s3(1) assms(6) n0 lh2 by (simp add: delete_q_event_def delete_event_def s2_def [symmetric] Let_def)
  have ty: "time_from_last (mem s3 y) = d + time_from_last (mem s y)"
    using s3(4) assms(3) by (simp add: word_unat_eq_iff unat_word_ariths delays_simps d_def)
  have c0: "0 < unat c" "unat c \<le> unat d" using assms(8,9) by (simp_all add: c_def d_def word_le_nat_alt unat_div)
  have lt: "\<not> d + time_from_last (mem s y) \<le> d - c"
  proof -
    have "unat (d - c) = unat d - unat c" using assms(9) by (simp add: unat_sub c_def d_def)
    moreover have "unat (d + time_from_last (mem s y)) = unat d + unat (time_from_last (mem s y))"
      using assms(3) by (simp add: unat_word_ariths delays_simps d_def)
    ultimately show ?thesis using c0 by (simp add: word_le_nat_alt)
  qed
  have "retime_head call Quick n s2 = Some (c_cpu_q_ev_set_count ((time_from_last (mem s y) + c) * 10)
      (ev_upd y (\<lambda>e. e\<lparr>time_from_last := time_from_last e - (d - c)\<rparr>) s3))"
    using assms(4) s3(5,6,7) m23(1) qs n0 ty lt crude_scale [OF u] hb lh2
    by (auto simp: retime_head_def Let_def c_def algebra_simps)
  moreover have "list_head (queues s3 Quick) = y" using s3(3) by (simp add: evq_ok_def linked_def)
  ultimately show ?thesis using del late_count [OF assms(10,11)] by (simp add: c_cpu_q_ev_set_count_def c_def)
qed

text \<open>The state after events in 1000 and 2000 microseconds have been added to an empty queue.\<close>

definition two_events :: "unit qstate" where
  "two_events = \<lparr>mem = (\<lambda>x. if x = 1
       then \<lparr>ev_func = 7, time_from_last = 1000, original_time = 1000, ev_handle = 1, ev_param = 5, event_type = EVENT_TIME,
             ev_next = 2, ev_previous = 0, next_free = 0\<rparr>
       else \<lparr>ev_func = 8, time_from_last = 1000, original_time = 1000, ev_handle = 2, ev_param = 6, event_type = EVENT_TIME,
             ev_next = 0, ev_previous = 1, next_free = 0\<rparr>),
     mallocs = 2, malloc_fails = (\<lambda>_. False),
     queues = (\<lambda>_. \<lparr>list_head = 1, list_tail = 2, free_list_head = 0, ev_hash_table = (\<lambda>i. if i = 1 then 1 else if i = 2 then 2 else 0), next_free_handle = 3\<rparr>),
     cpu_heartbeat = 100, tic_event_count = 0, usecPerIJC = - 1, jumpRestart = - 1, real_q_rate = 1, ideal_q_rate = 1, host = ()\<rparr>"

lemma two_events_ok: "evq_ok Quick two_events [1, 2] (\<lambda>i. if i = 1 then [1] else if i = 2 then [2] else []) []"
  by (auto simp: evq_ok_def linked_def hashed_def freed_def two_events_def hash_bucket_def)

theorem quick_head_deleted_late_witness:
  "\<exists>s'. delete_q_event (host_only (\<lambda>f p h. h)) 1 two_events = Some s' \<and> cpu_heartbeat s' = 10100 \<and> 200 < unat (cpu_heartbeat s') \<and>
     calc_q_inst_for_time (calc_q_time_for_inst (cpu_heartbeat two_events) two_events + time_from_last (mem two_events 2)) two_events = 200"
  using quick_head_deleted_late [OF two_events_ok, of 1 "host_only (\<lambda>f p h. h)"]
  by (auto simp: two_events_def unique_handles_def delays_def calc_q_inst_for_time_def calc_q_time_for_inst_def)

end
