(* ===== verification/Quick_ev_Again.thy ===== *)
theory Quick_ev_Again
  imports Quick_ev_Run
begin

text \<open>
  Ticks with callbacks that queue themselves or another event again, as the callbacks of the real time clock do
  (\<open>sync_rtc_to_host_time\<close> of \<open>system/cmos.c\<close> comes back after 200 ticks, \<open>rtc_alarm\<close> after a day). The reference model is the
  agenda with the handle that comes next: a tick takes the due events off the agenda, calls them in order, and enters what they ask for.
\<close>

section \<open>Callbacks that come again\<close>

text \<open>
  A callback changes the rest of the machine and may then queue one tick event, of which function, delay and parameter depend on its own
  arguments and on the machine. The first argument of \<open>add_tic_event\<close> serves a delay of 0 only.
\<close>

definition coming_again :: "(nat \<Rightarrow> int \<Rightarrow> 'h \<Rightarrow> 'h) \<Rightarrow> (nat \<Rightarrow> int \<Rightarrow> 'h \<Rightarrow> (nat \<times> IU32 \<times> int) option) \<Rightarrow> 'h q_calls" where
  "coming_again hcall again f p s =
     (case again f p (host s) of
        None \<Rightarrow> host_only hcall f p s
      | Some (func, time, param) \<Rightarrow>
          (case add_tic_event (\<lambda>_ _ s. s) func time param (host_only hcall f p s) of Some (h, s') \<Rightarrow> s' | None \<Rightarrow> s))"

definition never_at_once :: "(nat \<Rightarrow> int \<Rightarrow> 'h \<Rightarrow> (nat \<times> IU32 \<times> int) option) \<Rightarrow> bool" where
  "never_at_once again \<longleftrightarrow> (\<forall>f p h func time param. again f p h = Some (func, time, param) \<longrightarrow> time \<noteq> 0)"

lemma never_at_onceD: "never_at_once again \<Longrightarrow> again f p h = Some (func, time, param) \<Longrightarrow> time \<noteq> 0"
  unfolding never_at_once_def by blast

text \<open>The same on the agenda: calling a list of due events, one tick, and the state of the reference model.\<close>

type_synonym 'h tick_model = "'h \<times> (nat \<times> nat \<times> int \<times> int \<times> EVENTTYPE) list \<times> int"

fun call_due :: "(nat \<Rightarrow> int \<Rightarrow> 'h \<Rightarrow> 'h) \<Rightarrow> (nat \<Rightarrow> int \<Rightarrow> 'h \<Rightarrow> (nat \<times> IU32 \<times> int) option) \<Rightarrow> (nat \<times> int \<times> int \<times> EVENTTYPE) list \<Rightarrow> 'h tick_model \<Rightarrow> 'h tick_model" where
  "call_due hcall again [] st = st"
| "call_due hcall again ((f, p, i, ty) # es) (h, a, k) =
     call_due hcall again es (hcall f p h,
       (case again f p h of None \<Rightarrow> (a, k) | Some (func, time, param) \<Rightarrow> (enter (unat time) (func, param, k, EVENT_TICK) a, k + 1)))"

definition tick_model :: "(nat \<Rightarrow> int \<Rightarrow> 'h \<Rightarrow> 'h) \<Rightarrow> (nat \<Rightarrow> int \<Rightarrow> 'h \<Rightarrow> (nat \<times> IU32 \<times> int) option) \<Rightarrow> 'h tick_model \<Rightarrow> 'h tick_model" where
  "tick_model hcall again st = (case st of (h, a, k) \<Rightarrow> call_due hcall again (due 1 a) (h, advance 1 a, k))"

primrec ticks_model :: "(nat \<Rightarrow> int \<Rightarrow> 'h \<Rightarrow> 'h) \<Rightarrow> (nat \<Rightarrow> int \<Rightarrow> 'h \<Rightarrow> (nat \<times> IU32 \<times> int) option) \<Rightarrow> nat \<Rightarrow> 'h tick_model \<Rightarrow> 'h tick_model" where
  "ticks_model hcall again 0 st = st"
| "ticks_model hcall again (Suc n) st = ticks_model hcall again n (tick_model hcall again st)"

lemma call_due_mono: "snd (snd st) \<le> snd (snd (call_due hc again es st))"
  by (induction hc again es st rule: call_due.induct) (auto split: option.splits)

lemma ticks_model_mono: "snd (snd st) \<le> snd (snd (ticks_model hc again n st))"
proof (induction n arbitrary: st)
  case (Suc n)
  obtain h a k where "st = (h, a, k)" by (cases st)
  then have "snd (snd st) \<le> snd (snd (tick_model hc again st))" using call_due_mono [of "(h, advance 1 a, k)" hc again "due 1 a"] by (simp add: tick_model_def)
  then show ?case using Suc [of "tick_model hc again st"] by simp
qed simp

section \<open>The queue between two callbacks\<close>

text \<open>While a tick is served the delay of the head may be 0, but the counter is that delay.\<close>

definition between :: "'h qstate \<Rightarrow> nat list \<Rightarrow> (nat \<Rightarrow> nat list) \<Rightarrow> nat list \<Rightarrow> int \<Rightarrow> bool" where
  "between s xs cs fs k \<longleftrightarrow> evq_ok Tick s xs cs fs \<and> unique_handles (mem s) xs \<and> tick_events (entries (mem s) xs) \<and> sum_list (delays (mem s) xs) < 2 ^ 32 \<and>
     tic_event_count s = (if xs = [] then 0 else time_from_last (mem s (hd xs))) \<and>
     next_free_handle (queues s Tick) = k \<and> 0 < k \<and> (\<forall>x \<in> set xs. ev_handle (mem s x) < k)"

lemma between_host_only [simp]: "between (host_only hc f p s) xs cs fs k = between s xs cs fs k"
proof -
  have "tic_event_count (host_only hc f p s) = tic_event_count s" by (simp add: host_only_def)
  then show ?thesis by (simp add: between_def)
qed

lemma handles_ins: "set (handles (ins t e es)) = insert (fst (snd (snd e))) (set (handles es))"
  by (induction t e es rule: ins.induct) (auto simp: handles_def)

lemma add_between:
  assumes b: "between s xs cs fs k" "fs \<noteq> [] \<or> \<not> malloc_fails s (mallocs s)" "k < 0xffff" "time \<noteq> 0"
  shows "\<exists>s' ys cs' fs'. add_tic_event call func time param s = Some (k, s') \<and> between s' ys cs' fs' (k + 1) \<and> host s' = host s \<and>
    entries (mem s') ys = ins (unat time) (func, param, k, EVENT_TICK) (entries (mem s) xs)"
proof -
  have evq: "evq_ok Tick s xs cs fs" and te: "tick_events (entries (mem s) xs)" using b(1) by (simp_all add: between_def)
  have rt: "retime (unat (tic_event_count s)) (entries (mem s) xs) = entries (mem s) xs"
    by (rule retime_same) (use b(1) in \<open>cases xs; simp add: between_def\<close>)
  have sum: "sum_list (map fst (retime (unat (tic_event_count s)) (entries (mem s) xs))) < 2 ^ 32" using b(1) rt by (simp add: between_def)
  have th: "take_handle Tick s = (k, q_upd Tick (\<lambda>q. q\<lparr>next_free_handle := k + 1\<rparr>) s)" using b(1,3) by (auto simp: take_handle_def between_def)
  obtain i s1 ys cs' fs' where r0: "add_event call Tick func time param (tic_event_count s) EVENT_TICK s = Some (i, s1)" "i = fst (take_handle Tick s)" "evq_ok Tick s1 ys cs' fs'"
      "entries (mem s1) ys = ins (unat time) (func, param, i, EVENT_TICK) (retime (unat (tic_event_count s)) (entries (mem s) xs))" "host s1 = host s"
      "next_free_handle (queues s1 Tick) = next_free_handle (queues (snd (take_handle Tick s)) Tick)"
    by (rule add_event_queued [OF evq b(4) b(2) sum, of call func param EVENT_TICK])
  then have r: "add_event call Tick func time param (tic_event_count s) EVENT_TICK s = Some (k, s1)" "evq_ok Tick s1 ys cs' fs'"
      "entries (mem s1) ys = ins (unat time) (func, param, k, EVENT_TICK) (entries (mem s) xs)" "host s1 = host s" "next_free_handle (queues s1 Tick) = k + 1"
    using rt th by (simp_all add: q_upd_def)
  have ne: "ys \<noteq> []" using r(3) by (cases ys; cases "entries (mem s) xs") (auto split: if_splits)
  have l: "linked (mem s1) (queues s1 Tick) ([] @ ys)" using r(2) by (simp add: evq_ok_def)
  have hd: "list_head (queues s1 Tick) = hd ys" "hd ys \<noteq> 0" using linked_facts(1) [OF l] ends_apart(2) [OF linked_facts(3,4) [OF l] ne] ne by auto
  define s' where "s' = tic_ev_set_count (time_from_last (mem s1 (hd ys))) s1"
  have m: "mem s' = mem s1" "queues s' = queues s1" "mallocs s' = mallocs s1" "host s' = host s1" "tic_event_count s' = time_from_last (mem s1 (hd ys))"
    by (simp_all add: s'_def tic_ev_set_count_def)
  have hs: "k \<notin> set (handles (entries (mem s) xs))" "distinct (handles (entries (mem s) xs))" using b(1) by (auto simp: between_def unique_handles_def)
  have "unique_handles (mem s1) ys" using distinct_ins [OF hs(2), of "(func, param, k, EVENT_TICK)" "unat time"] hs(1) r(3) by (metis fst_conv snd_conv handles_simps(3) unique_handles_def)
  moreover have "ev_handle (mem s1 x) < k + 1" if "x \<in> set ys" for x
  proof -
    have "ev_handle (mem s1 x) \<in> set (handles (entries (mem s1) ys))" using that by simp
    then have "ev_handle (mem s1 x) = k \<or> ev_handle (mem s1 x) \<in> set (handles (entries (mem s) xs))" unfolding r(3) handles_ins by simp
    then show ?thesis using b(1) by (auto simp: between_def)
  qed
  moreover have "sum_list (delays (mem s1) ys) < 2 ^ 32"
    using sum_ins [of "unat time" "(func, param, k, EVENT_TICK)" "entries (mem s) xs"] sum rt unsigned_less [of time, where ?'a = nat] arg_cong [OF r(3), of "\<lambda>es. sum_list (map fst es)"] by simp
  moreover have "tick_events (entries (mem s1) ys)" using tick_events_ins [OF te, of "(func, param, k, EVENT_TICK)"] r(3) by simp
  ultimately have "between s' ys cs' fs' (k + 1)" using r(2,5) ne m b(1) by (simp add: between_def evq_ok_def)
  moreover have "add_tic_event call func time param s = Some (k, s')" using r(1) hd by (simp add: add_tic_event_def s'_def)
  ultimately show ?thesis using r(3,4) m by metis
qed

lemma retire_head_handle: "retire_head w s = Some s' \<Longrightarrow> next_free_handle (queues s' v) = next_free_handle (queues s v)"
proof -
  have u: "next_free_handle (queues (unlink_head w (set_count w) s) v) = next_free_handle (queues s v)"
    by (cases w) (auto simp: unlink_head_def Let_def q_upd_def ev_upd_def c_cpu_q_ev_set_count_def tic_ev_set_count_def split: EVENTTYPE.split)
  have h: "next_free_handle (queues t' v) = next_free_handle (queues t v)" if "hash_remove w i t = Some (p, t')" for i p and t t' :: "'a qstate"
    using that by (auto simp: hash_remove_def q_upd_def ev_upd_def Let_def split: Option.bind_splits if_splits)
  show "retire_head w s = Some s' \<Longrightarrow> next_free_handle (queues s' v) = next_free_handle (queues s v)"
    using u h by (auto simp: retire_head_def free_node_def q_upd_def ev_upd_def split: Option.bind_splits)
qed

text \<open>An event queued by a callback waits behind everything that is due.\<close>

lemma ins_behind_due:
  assumes "0 < t"
  shows "takeWhile (\<lambda>e. fst e = 0) (ins t e es) = takeWhile (\<lambda>e. fst e = 0) es" "dropWhile (\<lambda>e. fst e = 0) (ins t e es) = ins t e (dropWhile (\<lambda>e. fst e = 0) es)"
  using assms by (induction es) auto

lemma call_between:
  assumes b: "between s xs cs fs k" "fs \<noteq> []" and t: "never_at_once again"
    and s2: "s2 = coming_again hc again f p s" and k2: "k2 = (case again f p (host s) of None \<Rightarrow> k | Some r \<Rightarrow> k + 1)" "k2 \<le> 0xffff"
  shows "\<exists>ys cs' fs'. between s2 ys cs' fs' k2 \<and> host s2 = hc f p (host s) \<and>
    entries (mem s2) ys = (case again f p (host s) of None \<Rightarrow> entries (mem s) xs | Some (func, time, param) \<Rightarrow> ins (unat time) (func, param, k, EVENT_TICK) (entries (mem s) xs))"
proof (cases "again f p (host s)")
  case None
  then show ?thesis using b k2 s2 by (auto simp: coming_again_def)
next
  case (Some r)
  obtain func time param where r: "r = (func, time, param)" by (cases r)
  have k: "k < 0xffff" "time \<noteq> 0" using k2 Some never_at_onceD [OF t] r by simp_all
  have b1: "between (host_only hc f p s) xs cs fs k" using b(1) by simp
  from add_between [OF b1 disjI1 [OF b(2)] k, of "\<lambda>_ _ s. s" func param] obtain s' ys cs' fs' where "add_tic_event (\<lambda>_ _ s. s) func time param (host_only hc f p s) = Some (k, s')"
      "between s' ys cs' fs' (k + 1)" "host s' = hc f p (host s)" "entries (mem s') ys = ins (unat time) (func, param, k, EVENT_TICK) (entries (mem s) xs)" by auto
  then show ?thesis using Some r s2 k2 by (auto simp: coming_again_def)
qed

lemma dispatch_again:
  assumes t: "never_at_once again"
  shows "evq_ok Tick s (x # xs) cs fs \<Longrightarrow> unique_handles (mem s) (x # xs) \<Longrightarrow> tick_events (entries (mem s) (x # xs)) \<Longrightarrow> sum_list (delays (mem s) (x # xs)) < 2 ^ 32 \<Longrightarrow>
    tic_event_count s = 0 \<Longrightarrow> next_free_handle (queues s Tick) = k \<Longrightarrow> 0 < k \<Longrightarrow> \<forall>y \<in> set (x # xs). ev_handle (mem s y) < k \<Longrightarrow>
    st = call_due hc again (payload (mem s) x # map snd (takeWhile (\<lambda>e. fst e = 0) (entries (mem s) xs))) (host s, agenda 0 (dropWhile (\<lambda>e. fst e = 0) (entries (mem s) xs)), k) \<Longrightarrow>
    snd (snd st) \<le> 0xffff \<Longrightarrow>
    \<exists>s' ys cs' fs'. dispatch_event (coming_again hc again) Tick (set_count Tick) s = Some s' \<and> between s' ys cs' fs' (snd (snd st)) \<and> host s' = fst st \<and>
      agenda 0 (entries (mem s') ys) = fst (snd st) \<and> (ys \<noteq> [] \<longrightarrow> time_from_last (mem s' (hd ys)) \<noteq> 0)"
proof (induction "length (takeWhile (\<lambda>e. fst e = 0) (entries (mem s) xs))" arbitrary: s x xs cs fs k rule: less_induct)
  case less
  let ?z = "\<lambda>e :: nat \<times> nat \<times> int \<times> int \<times> EVENTTYPE. fst e = 0"
  obtain s1 cs1 where r: "retire_head Tick s = Some s1" "evq_ok Tick s1 xs cs1 (x # fs)" "entries (mem s1) xs = entries (mem s) xs" "payload (mem s1) x = payload (mem s) x"
      "host s1 = host s" "get_count Tick s1 = (if xs = [] then get_count Tick s else head_count s (mem s (hd xs)))"
    by (rule retire_head_ok [OF less.prems(1,2)])
  obtain f p i ty where x: "payload (mem s) x = (f, p, i, ty)" by (cases "payload (mem s) x")
  have hs: "map (\<lambda>y. ev_handle (mem s1 y)) xs = map (\<lambda>y. ev_handle (mem s y)) xs" using arg_cong [OF r(3), of handles] by simp
  have tl: "event_type (mem s y) = EVENT_TICK" "time_from_last (mem s1 y) = time_from_last (mem s y)" if "y \<in> set xs" for y
    using less.prems(3) r(3) that by (auto simp: tick_events_def payload_def entries_def word_unat_eq_iff)
  have b1: "between s1 xs cs1 (x # fs) k"
    unfolding between_def
  proof (intro conjI)
    show "unique_handles (mem s1) xs" using less.prems(2) by (simp add: unique_handles_def hs)
    show "tick_events (entries (mem s1) xs)" using less.prems(3) r(3) by (simp add: tick_events_def)
    show "sum_list (delays (mem s1) xs) < 2 ^ 32" using less.prems(4) arg_cong [OF r(3), of "map fst"] by (simp add: delays_simps)
    show "tic_event_count s1 = (if xs = [] then 0 else time_from_last (mem s1 (hd xs)))" using r(6) less.prems(5) tl [of "hd xs"] by (auto simp: head_count_def)
    show "next_free_handle (queues s1 Tick) = k" using retire_head_handle [OF r(1)] less.prems(6) by simp
    have "set (map (\<lambda>y. ev_handle (mem s1 y)) xs) \<subseteq> {..<k}" unfolding hs using less.prems(8) by auto
    then show "\<forall>y \<in> set xs. ev_handle (mem s1 y) < k" by auto
  qed (use r(2) less.prems(7) in simp_all)
  define s2 where "s2 = coming_again hc again f p s1"
  define k2 where "k2 = (case again f p (host s1) of None \<Rightarrow> k | Some r \<Rightarrow> k + 1)"
  define a2 where "a2 = (case again f p (host s) of None \<Rightarrow> agenda 0 (dropWhile ?z (entries (mem s) xs))
    | Some (func, time, param) \<Rightarrow> enter (unat time) (func, param, k, EVENT_TICK) (agenda 0 (dropWhile ?z (entries (mem s) xs))))"
  have st: "st = call_due hc again (map snd (takeWhile ?z (entries (mem s) xs))) (hc f p (host s), a2, k2)"
    using less.prems(9) unfolding x k2_def a2_def r(5) by (auto split: option.split)
  have "k2 \<le> 0xffff" using less.prems(10) call_due_mono [of "(hc f p (host s), a2, k2)" hc again "map snd (takeWhile ?z (entries (mem s) xs))"] st by simp
  from call_between [OF b1 _ t s2_def k2_def this] obtain ys cs2 fs2 where b2: "between s2 ys cs2 fs2 k2" "host s2 = hc f p (host s)"
      "entries (mem s2) ys = (case again f p (host s) of None \<Rightarrow> entries (mem s) xs | Some (func, time, param) \<Rightarrow> ins (unat time) (func, param, k, EVENT_TICK) (entries (mem s) xs))"
    unfolding r(3,5) by auto
  have e2: "takeWhile ?z (entries (mem s2) ys) = takeWhile ?z (entries (mem s) xs)" "agenda 0 (dropWhile ?z (entries (mem s2) ys)) = a2"
  proof -
    have "0 < unat time" if "again f p (host s) = Some (func, time, param)" for func time param using never_at_onceD [OF t that] by (simp add: unat_gt_0)
    then show "takeWhile ?z (entries (mem s2) ys) = takeWhile ?z (entries (mem s) xs)" "agenda 0 (dropWhile ?z (entries (mem s2) ys)) = a2"
      unfolding b2(3) a2_def using agenda_ins [of 0] by (auto simp: ins_behind_due split: option.split)
  qed
  have step: "dispatch_event (coming_again hc again) Tick (set_count Tick) s = (if list_head (queues s2 Tick) = 0 then Some s2
      else if time_from_last (mem s2 (list_head (queues s2 Tick))) \<noteq> 0 then Some s2 else dispatch_event (coming_again hc again) Tick (set_count Tick) s2)"
    using dispatch_event_step [OF less.prems(1) r(1)] r(4) x by (simp add: Let_def s2_def payload_def)
  have l: "linked (mem s2) (queues s2 Tick) ([] @ ys)" using b2(1) by (simp add: between_def evq_ok_def)
  show ?case
  proof (cases ys)
    case Nil
    then have "list_head (queues s2 Tick) = 0" using linked_facts(1) [OF l] by simp
    then show ?thesis using step b2(1,2) st e2 Nil by (intro exI [of _ s2] exI [of _ ys] exI [of _ cs2] exI [of _ fs2]) simp
  next
    case (Cons y r')
    have hd: "list_head (queues s2 Tick) = y" "y \<noteq> 0" using linked_facts(1) [OF l] linked_facts(4) [OF l] Cons by auto
    show ?thesis
    proof (cases "time_from_last (mem s2 y) = 0")
      case False
      then have "takeWhile ?z (entries (mem s2) ys) = []" "dropWhile ?z (entries (mem s2) ys) = entries (mem s2) ys" using Cons by (simp_all add: unat_eq_0)
      then show ?thesis using step b2(1,2) st e2 hd False Cons by (intro exI [of _ s2] exI [of _ ys] exI [of _ cs2] exI [of _ fs2]) simp
    next
      case True
      then have z: "takeWhile ?z (entries (mem s) xs) = (0, payload (mem s2) y) # takeWhile ?z (entries (mem s2) r')" "agenda 0 (dropWhile ?z (entries (mem s2) r')) = a2"
        using e2 Cons by simp_all
      have "st = call_due hc again (payload (mem s2) y # map snd (takeWhile ?z (entries (mem s2) r'))) (host s2, agenda 0 (dropWhile ?z (entries (mem s2) r')), k2)"
        using st z b2(2) by simp
      moreover have "length (takeWhile ?z (entries (mem s2) r')) < length (takeWhile ?z (entries (mem s) xs))" using z(1) by simp
      ultimately show ?thesis using less.hyps [of s2 r' y cs2 fs2 k2] b2(1) step hd True Cons less.prems(10) by (simp add: between_def)
    qed
  qed
qed

section \<open>Ticks\<close>

text \<open>The queue, the machine and the next handle stand for a state of the reference model; no handle has been used a second time.\<close>

definition tick_state :: "'h qstate \<Rightarrow> 'h tick_model \<Rightarrow> bool" where
  "tick_state s st \<longleftrightarrow> (case st of (h, a, k) \<Rightarrow> tick_queue s a \<and> host s = h \<and> next_free_handle (queues s Tick) = k \<and> 0 < k \<and> (\<forall>i \<in> set (handles a). i < k))"

lemma tick_state_set_count:
  assumes "tick_ok (tic_ev_set_count c s) xs cs fs" "tick_state s (h, a, k)" "a' = agenda 0 (waiting (tic_ev_set_count c s) xs)" "set (handles a') \<subseteq> set (handles a)"
  shows "tick_state (tic_ev_set_count c s) (h, a', k)"
  using assms by (auto simp: tick_state_def tick_queue_def tic_ev_set_count_def)

lemma between_tick_state:
  assumes "between s ys cs fs k" "ys \<noteq> [] \<longrightarrow> time_from_last (mem s (hd ys)) \<noteq> 0"
  shows "tick_state s (host s, agenda 0 (entries (mem s) ys), k)"
proof -
  have "tick_ok s ys cs fs" using assms by (auto simp: between_def tick_ok_def word_gt_0)
  moreover have "waiting s ys = entries (mem s) ys" unfolding waiting_def
    by (rule retime_same) (use assms(1) in \<open>cases ys; simp add: between_def\<close>)
  ultimately have "tick_queue s (agenda 0 (entries (mem s) ys))" unfolding tick_queue_def by metis
  then show ?thesis using assms(1) by (auto simp: tick_state_def between_def)
qed

lemma tick_again:
  assumes q: "tick_state s st" and t: "never_at_once again" and k: "snd (snd (tick_model hc again st)) \<le> 0xffff"
  shows "\<exists>s'. dispatch_tic_event (coming_again hc again) s = Some s' \<and> tick_state s' (tick_model hc again st)"
proof -
  obtain h a i where st: "st = (h, a, i)" by (cases st)
  have q': "host s = h" "next_free_handle (queues s Tick) = i" "0 < i" "\<forall>j \<in> set (handles a). j < i" using q by (simp_all add: tick_state_def st)
  obtain xs cs fs where ok: "tick_ok s xs cs fs" "a = agenda 0 (waiting s xs)" using q by (auto simp: tick_state_def st tick_queue_def)
  have pos: "waiting s xs \<noteq> [] \<Longrightarrow> 0 < fst (hd (waiting s xs))" using ok(1) by (auto simp: tick_ok_def waiting_def unat_gt_0 word_gt_0 split: if_splits)
  note ta = tick_agenda [OF pos, folded ok(2)]
  show ?thesis
  proof (cases xs)
    case Nil
    then have "dispatch_tic_event (coming_again hc again) s = Some s" "a = []" using ok by (simp_all add: dispatch_tic_event_def tick_ok_def waiting_def)
    then show ?thesis using q by (simp add: st tick_model_def due_def advance_def)
  next
    case (Cons x r)
    define c where "c = tic_event_count s - 1"
    have p: "0 < tic_event_count s" "tic_event_count s \<le> time_from_last (mem s x)" using ok(1) Cons by (simp_all add: tick_ok_def)
    have "unat (tic_event_count s) \<noteq> 0" using p(1) by (simp add: unat_eq_0 word_gt_0)
    then have c: "unat (tic_event_count s) = Suc (unat c)" using p(1) by (simp add: c_def unat_minus_one word_gt_0)
    define s1 where "s1 = tic_ev_set_count c s"
    have m1: "mem s1 = mem s" "queues s1 = queues s" "mallocs s1 = mallocs s" "host s1 = host s" "tic_event_count s1 = c" by (simp_all add: s1_def tic_ev_set_count_def)
    have ok1: "evq_ok Tick s1 xs cs fs" using ok(1) m1 by (simp add: tick_ok_def evq_ok_def)
    have d: "dispatch_tic_event (coming_again hc again) s = (if c = 0 then dispatch_event (coming_again hc again) Tick (set_count Tick) s1 else Some s1)"
      using p by (simp add: dispatch_tic_event_def s1_def c_def)
    show ?thesis
    proof (cases "c = 0")
      case False
      then have c1: "0 < unat c" by (simp add: unat_gt_0)
      have "c \<le> time_from_last (mem s x)" using p c by (simp add: word_le_nat_alt)
      then have "tick_ok s1 xs cs fs" using ok(1) ok1 m1 False Cons by (simp add: tick_ok_def word_gt_0)
      moreover have w: "tick (waiting s xs) = ([], waiting s1 xs)" using Cons m1 c c1 by (simp add: waiting_def)
      ultimately have "tick_state s1 (h, agenda 0 (waiting s1 xs), i)" unfolding s1_def
        by (rule_tac tick_state_set_count [OF _ q [unfolded st]]) (simp_all add: ok(2) waiting_def tic_ev_set_count_def)
      moreover have "tick_model hc again st = (h, agenda 0 (waiting s1 xs), i)" using ta w by (simp add: tick_model_def st)
      ultimately show ?thesis using d False by simp
    next
      case True
      have w: "tick (waiting s xs) = (payload (mem s1) x # map snd (takeWhile (\<lambda>e. fst e = 0) (entries (mem s1) r)), dropWhile (\<lambda>e. fst e = 0) (entries (mem s1) r))"
        using Cons c True m1 by (simp add: waiting_def)
      have tm: "tick_model hc again st = call_due hc again (payload (mem s1) x # map snd (takeWhile (\<lambda>e. fst e = 0) (entries (mem s1) r)))
          (host s1, agenda 0 (dropWhile (\<lambda>e. fst e = 0) (entries (mem s1) r)), i)"
        using ta w q'(1) m1 by (simp add: tick_model_def st)
      have hl: "\<forall>y \<in> set (x # r). ev_handle (mem s1 y) < i" using q'(4) ok(2) Cons m1(1) by (simp add: waiting_def payload_def)
      obtain s' ys cs' fs' where "dispatch_event (coming_again hc again) Tick (set_count Tick) s1 = Some s'" "between s' ys cs' fs' (snd (snd (tick_model hc again st)))"
          "host s' = fst (tick_model hc again st)" "agenda 0 (entries (mem s') ys) = fst (snd (tick_model hc again st))" "ys \<noteq> [] \<longrightarrow> time_from_last (mem s' (hd ys)) \<noteq> 0"
        using dispatch_again [OF t ok1 [unfolded Cons] _ _ _ _ _ q'(3) hl tm k] ok(1) Cons m1 True q'(2) by (auto simp: tick_ok_def)
      then show ?thesis using d True between_tick_state [of s' ys cs' fs'] by (metis prod.collapse)
    qed
  qed
qed

lemma run_ticks_again:
  assumes "tick_state s st" "never_at_once again" "snd (snd (ticks_model hc again n st)) \<le> 0xffff"
  shows "\<exists>s'. run_ticks (coming_again hc again) n s = Some s' \<and> tick_state s' (ticks_model hc again n st)"
  using assms(1,3)
proof (induction n arbitrary: s st)
  case (Suc n)
  have "snd (snd (tick_model hc again st)) \<le> 0xffff" using Suc.prems(2) ticks_model_mono [of "tick_model hc again st" hc again n] by simp
  from tick_again [OF Suc.prems(1) assms(2) this] Suc.IH show ?case using Suc.prems(2) by fastforce
qed simp

text \<open>Without further events the reference model has a closed form.\<close>

lemma call_due_none: "(\<And>f p h. again f p h = None) \<Longrightarrow> call_due hc again es (h, a, k) = (run_events hc es h, a, k)"
  by (induction es arbitrary: h) (auto simp: run_events_def)

lemma ticks_model_none:
  assumes "\<And>f p h. again f p h = None" "sorted (map fst a)" "\<forall>e \<in> set a. 0 < fst e"
  shows "ticks_model hc again n (h, a, k) = (run_events hc (due n a) h, advance n a, k)"
  using assms(2,3)
proof (induction n arbitrary: h a)
  case 0
  then have "filter (\<lambda>e. 0 < fst e) a = a" "filter (\<lambda>e. fst e \<le> 0) a = []" by (auto simp: filter_id_conv filter_empty_conv)
  then show ?case by (simp add: due_def advance_def)
next
  case (Suc n)
  have s: "sorted (map fst (advance 1 a))" "\<forall>e \<in> set (advance 1 a). 0 < fst e"
    using Suc.prems by (auto simp: advance_def sorted_map intro!: sorted_wrt_filter elim: sorted_wrt_mono_rel [rotated])
  have "tick_model hc again (h, a, k) = (run_events hc (due 1 a) h, advance 1 a, k)" by (simp add: tick_model_def call_due_none assms(1))
  then have "ticks_model hc again (Suc n) (h, a, k) = (run_events hc (due 1 a @ due n (advance 1 a)) h, advance n (advance 1 a), k)"
    using Suc.IH [OF s] by (simp add: run_events_def)
  moreover have "due 1 a @ due n (advance 1 a) = due (Suc n) a" using due_advance [OF Suc.prems(1), of 1 n] by simp
  moreover have "advance n (advance 1 a) = advance (Suc n) a" using advance_advance [of n 1 a] by simp
  ultimately show ?case by (simp only:)
qed

lemma tick_queue_times:
  assumes "tick_queue s a" shows "sorted (map fst a)" "\<forall>e \<in> set a. 0 < fst e"
proof -
  obtain xs cs fs where q: "tick_ok s xs cs fs" "a = agenda 0 (waiting s xs)" using assms by (auto simp: tick_queue_def)
  then show "sorted (map fst a)" by (simp add: agenda_sorted)
  show "\<forall>e \<in> set a. 0 < fst e"
  proof
    fix e assume e: "e \<in> set a"
    show "0 < fst e"
    proof (cases xs)
      case (Cons x r)
      have "0 < unat (tic_event_count s)" using q(1) Cons by (simp add: tick_ok_def unat_gt_0 word_gt_0)
      moreover have "unat (tic_event_count s) \<le> fst e"
        using e q(2) Cons agenda_ge [of e "unat (tic_event_count s)" "entries (mem s) r"] by (auto simp: waiting_def)
      ultimately show ?thesis by simp
    qed (use e q in \<open>simp add: waiting_def\<close>)
  qed
qed

section \<open>Properties\<close>

text \<open>C9. Ticks call the events of the agenda at their times. Callbacks may change the rest of the machine and queue another tick event with a delay
  of at least one tick, themselves for instance. Then \<open>n\<close> calls of \<open>dispatch_tic_event\<close> all return and do what the reference model does: each
  tick takes the events with one tick to go off the agenda, calls them once each, in the order of their times and for equal times in the order in which
  they were added, and enters what they ask for with the next handle; the others stay with one tick less to go. This holds until the
  handles of the queue are used up (\<open>0xffff\<close>) and start again. In particular, when the callbacks queue nothing, \<open>n\<close> ticks have called exactly the events with at
  most \<open>n\<close> ticks to go, and the others are still queued with \<open>n\<close> ticks less.\<close>

theorem ticks_call_due_events:
  assumes "tick_state s (h, a, k)" "never_at_once again" "snd (snd (ticks_model hc again n (h, a, k))) \<le> 0xffff"
  shows "(\<exists>s'. run_ticks (coming_again hc again) n s = Some s' \<and> tick_state s' (ticks_model hc again n (h, a, k))) \<and>
    ((\<forall>f p h. again f p h = None) \<longrightarrow> ticks_model hc again n (h, a, k) = (run_events hc (due n a) h, advance n a, k))"
  using run_ticks_again [OF assms] ticks_model_none [of again a hc n h k] tick_queue_times [of s a] assms(1) by (simp add: tick_state_def)

text \<open>
  An event that comes back three ticks after each call, as the synchronisation of the real time clock does after 200. After seven
  ticks it has been called twice and has two ticks to go.
\<close>

definition every_three :: "nat \<Rightarrow> int \<Rightarrow> (nat \<times> int) list \<Rightarrow> (nat \<times> IU32 \<times> int) option" where
  "every_three f p h = Some (f, 3, p)"

lemma one_periodic_event: "\<exists>s :: (nat \<times> int) list qstate. tick_state s ([], [(3, 7, 5, 1, EVENT_TICK)], 2)"
proof -
  define s0 :: "(nat \<times> int) list qstate" where "s0 = tic_event_init (power_on [])"
  have "between s0 [] (\<lambda>_. []) [] 1" "\<not> malloc_fails s0 (mallocs s0)" "host s0 = []"
    by (auto simp: between_def evq_ok_def linked_def hashed_def freed_def unique_handles_def tick_events_def delays_def s0_def tic_event_init_def q_event_init_structs_def
        q_upd_def tic_ev_set_count_def power_on_def)
  from add_between [OF this(1) disjI2 [OF this(2)], of 3 undefined 7 5] this(3)
  obtain s :: "(nat \<times> int) list qstate" and ys cs fs where s: "between s ys cs fs 2" "host s = []" "entries (mem s) ys = [(3, 7, 5, 1, EVENT_TICK)]" by auto
  have "ys \<noteq> [] \<longrightarrow> time_from_last (mem s (hd ys)) \<noteq> 0" using s(3) by (cases ys) auto
  from between_tick_state [OF s(1) this] show ?thesis using s(2,3) by (intro exI [of _ s]) simp
qed

theorem ticks_call_due_events_witness:
  "\<exists>(s :: (nat \<times> int) list qstate) s'. tick_state s ([], [(3, 7, 5, 1, EVENT_TICK)], 2) \<and>
     run_ticks (coming_again (\<lambda>f p l. l @ [(f, p)]) every_three) 7 s = Some s' \<and> tick_state s' ([(7, 5), (7, 5)], [(2, 7, 5, 3, EVENT_TICK)], 4)"
proof -
  obtain s :: "(nat \<times> int) list qstate" where s: "tick_state s ([], [(3, 7, 5, 1, EVENT_TICK)], 2)" using one_periodic_event by blast
  have m: "ticks_model (\<lambda>f p l. l @ [(f, p)]) every_three 7 ([], [(3, 7, 5, 1, EVENT_TICK)], 2) = ([(7, 5), (7, 5)], [(2, 7, 5, 3, EVENT_TICK)], 4)"
    by code_simp
  have "never_at_once every_three" by (simp add: never_at_once_def every_three_def)
  from ticks_call_due_events [OF s this, of "\<lambda>f p l. l @ [(f, p)]" 7] s show ?thesis unfolding m by auto
qed

end
