(* ===== verification/Ccpu_Sas.thy ===== *)
theory Ccpu_Sas
  imports Ccpu_State "HOL-Library.Monad_Syntax"
begin

text \<open>
  Physical memory (\<open>ccpu386/ccpusas4.c\<close>): the byte array \<open>M\<close>, the type of every 4K page (RAM, ROM, video
  and so on), the A20 wrap mask, and the physical read and write functions of 8, 16 and 32 bits.

  Reads and writes of video pages go through the handlers that the video adapter registers with
  \<open>gmi_define_mem\<close> and \<open>setVideoWritepointer\<close>; they are the parameter \<open>gmi\<close>, acting on the state
  \<open>video\<close>. \<open>None\<close> is a call that does not return normally: the unbounded recursion of \<open>phyR\<close> on a page
  whose stored type is \<open>SAS_DANGEROUS\<close>, and a call through an index beyond the handler tables.
\<close>

section \<open>State\<close>

datatype SAS_MEM_TYPE = SAS_RAM | SAS_VIDEO | SAS_ROM | SAS_WRAP | SAS_IO | SAS_MM_LIM | SAS_INACCESSIBLE | SAS_DANGEROUS

record 'v sas =
  M_area :: "nat \<Rightarrow> IU8"
  Length_of_M_area :: IU32
  memory_type :: "nat \<Rightarrow> SAS_MEM_TYPE"
  SasWrapMask :: IU32
  junk_value :: IU32
  video :: 'v

record 'v gmi =
  gmi_read :: "nat \<Rightarrow> IU32 \<Rightarrow> 'v \<Rightarrow> IU32 \<times> 'v"
  gmi_write :: "SAS_MEM_TYPE \<Rightarrow> nat \<Rightarrow> IU32 \<Rightarrow> IU32 \<Rightarrow> 'v \<Rightarrow> 'v"

definition READ_SELF_MOD :: "IU32 \<Rightarrow> 'v sas \<Rightarrow> SAS_MEM_TYPE" where
  "READ_SELF_MOD addr s = memory_type s (unat (drop_bit 12 addr))"

definition readSelfMod :: "IU32 \<Rightarrow> nat \<Rightarrow> 'v sas \<Rightarrow> SAS_MEM_TYPE" where
  "readSelfMod addr typeSize s =
     (let startType = READ_SELF_MOD addr s
      in if startType = READ_SELF_MOD (addr + of_nat typeSize - 1) s then startType else SAS_DANGEROUS)"

definition c_sas_memory_size :: "'v sas \<Rightarrow> IU32" where
  "c_sas_memory_size s = Length_of_M_area s"

definition c_sas_connect_memory :: "IU32 \<Rightarrow> IU32 \<Rightarrow> SAS_MEM_TYPE \<Rightarrow> 'v sas \<Rightarrow> 'v sas" where
  "c_sas_connect_memory low high type s =
     (let high = (if high AND 0xfff = 0 \<and> high \<noteq> 0 then high - 1 else high);
          n = unat (drop_bit 12 high - drop_bit 12 low + 1)
      in s\<lparr>memory_type := (\<lambda>i. if unat (drop_bit 12 low) \<le> i \<and> i < unat (drop_bit 12 low) + n then type else memory_type s i)\<rparr>)"

definition c_sas_memory_type :: "IU32 \<Rightarrow> 'v sas \<Rightarrow> SAS_MEM_TYPE" where
  "c_sas_memory_type addr s = memory_type s (unat (drop_bit 12 addr))"

definition c_sas_enable_20_bit_wrapping :: "'v sas \<Rightarrow> 'v sas" where
  "c_sas_enable_20_bit_wrapping s = s\<lparr>SasWrapMask := 0xfffff\<rparr>"

definition c_sas_disable_20_bit_wrapping :: "'v sas \<Rightarrow> 'v sas" where
  "c_sas_disable_20_bit_wrapping s = s\<lparr>SasWrapMask := 0xffffffff\<rparr>"

definition c_sas_twenty_bit_wrapping_enabled :: "'v sas \<Rightarrow> bool" where
  "c_sas_twenty_bit_wrapping_enabled s = (SasWrapMask s = 0xfffff)"

section \<open>Reading\<close>

primrec pick_up :: "'v sas \<Rightarrow> nat \<Rightarrow> IU32 \<Rightarrow> IU32 \<Rightarrow> IU32" where
  "pick_up s 0 addr retVal = retVal"
| "pick_up s (Suc typeSize) addr retVal =
     pick_up s typeSize (addr - 1) (push_bit 8 retVal + ucast (M_area s (unat addr)))"

definition phyR_with :: "'v gmi \<Rightarrow> (IU32 \<Rightarrow> 'v sas \<Rightarrow> (IU32 \<times> 'v sas) option) \<Rightarrow> IU32 \<Rightarrow> nat \<Rightarrow> 'v sas \<Rightarrow> (IU32 \<times> 'v sas) option" where
  "phyR_with gmi dangerous addr typeSize s =
     (let addr = addr AND SasWrapMask s
      in if Length_of_M_area s \<le> addr \<or> Length_of_M_area s - addr < of_nat typeSize then Some (junk_value s, s)
         else case readSelfMod addr typeSize s of
             SAS_DANGEROUS \<Rightarrow> dangerous addr s
           | SAS_VIDEO \<Rightarrow> (let (v, vs) = gmi_read gmi typeSize addr (video s) in Some (v, s\<lparr>video := vs\<rparr>))
           | SAS_INACCESSIBLE \<Rightarrow> Some (0xffffffff, s)
           | _ \<Rightarrow> Some (pick_up s typeSize (addr + of_nat typeSize - 1) 0, s))"

text \<open>A byte has no boundary inside, so its read recurses only on a page that is stored as dangerous.\<close>

definition phyR_byte :: "'v gmi \<Rightarrow> IU32 \<Rightarrow> 'v sas \<Rightarrow> (IU32 \<times> 'v sas) option" where
  "phyR_byte gmi addr s = phyR_with gmi (\<lambda>_ _. None) addr 1 s"

primrec split_read :: "'v gmi \<Rightarrow> nat \<Rightarrow> nat \<Rightarrow> IU32 \<Rightarrow> IU32 \<Rightarrow> 'v sas \<Rightarrow> (IU32 \<times> 'v sas) option" where
  "split_read gmi byte 0 addr retVal s = Some (retVal, s)"
| "split_read gmi byte (Suc n) addr retVal s =
     do {
       (v, s) \<leftarrow> phyR_byte gmi addr s;
       split_read gmi (Suc byte) n (addr + 1) (retVal + push_bit (8 * byte) v) s
     }"

definition phyR :: "'v gmi \<Rightarrow> IU32 \<Rightarrow> nat \<Rightarrow> 'v sas \<Rightarrow> (IU32 \<times> 'v sas) option" where
  "phyR gmi addr typeSize s =
     (if typeSize = 1 then phyR_byte gmi addr s
      else phyR_with gmi (\<lambda>addr s. split_read gmi 0 typeSize addr 0 s) addr typeSize s)"

definition phy_r8 :: "'v gmi \<Rightarrow> IU32 \<Rightarrow> 'v sas \<Rightarrow> (IU8 \<times> 'v sas) option" where
  "phy_r8 gmi addr s = do { (v, s) \<leftarrow> phyR gmi addr 1 s; Some (ucast v, s) }"

definition phy_r16 :: "'v gmi \<Rightarrow> IU32 \<Rightarrow> 'v sas \<Rightarrow> (IU16 \<times> 'v sas) option" where
  "phy_r16 gmi addr s = do { (v, s) \<leftarrow> phyR gmi addr 2 s; Some (ucast v, s) }"

definition phy_r32 :: "'v gmi \<Rightarrow> IU32 \<Rightarrow> 'v sas \<Rightarrow> (IU32 \<times> 'v sas) option" where
  "phy_r32 gmi addr s =
     do {
       (low, s) \<leftarrow> phy_r16 gmi addr s;
       (high, s) \<leftarrow> phy_r16 gmi (addr + 2) s;
       Some (push_bit 16 (ucast high) + ucast low, s)
     }"

section \<open>Writing\<close>

definition poke :: "IU32 \<Rightarrow> IU8 \<Rightarrow> 'v sas \<Rightarrow> 'v sas" where
  "poke addr val s = s\<lparr>M_area := (M_area s)(unat addr := val)\<rparr>"

definition write_word :: "IU32 \<Rightarrow> IU16 \<Rightarrow> 'v sas \<Rightarrow> 'v sas" where
  "write_word addr wrd s =
     (let hi = ucast (drop_bit 8 wrd AND 0xff); lo = ucast (wrd AND 0xff)
      in poke addr lo (poke (addr + 1) hi s))"

definition gmi_call :: "'v gmi \<Rightarrow> SAS_MEM_TYPE \<Rightarrow> nat \<Rightarrow> IU32 \<Rightarrow> IU32 \<Rightarrow> 'v sas \<Rightarrow> 'v sas option" where
  "gmi_call gmi type typeSize addr val s =
     (if type = SAS_DANGEROUS then None else Some (s\<lparr>video := gmi_write gmi type typeSize addr val (video s)\<rparr>))"

definition phy_w8 :: "'v gmi \<Rightarrow> IU32 \<Rightarrow> IU8 \<Rightarrow> 'v sas \<Rightarrow> 'v sas option" where
  "phy_w8 gmi addr val s =
     (let addr = addr AND SasWrapMask s
      in if addr < Length_of_M_area s
         then (let temp_val = readSelfMod addr 1 s
               in if temp_val = SAS_RAM \<or> temp_val = SAS_MM_LIM then Some (poke addr val s)
                  else if temp_val = SAS_INACCESSIBLE \<or> temp_val = SAS_ROM then Some s
                  else gmi_call gmi temp_val 1 addr (ucast val) s)
         else Some s)"

text \<open>The bound is tested on \<open>addr + 1\<close>, which wraps for the last address; the page type table ends long before.\<close>

definition phy_w16 :: "'v gmi \<Rightarrow> IU32 \<Rightarrow> IU16 \<Rightarrow> 'v sas \<Rightarrow> 'v sas option" where
  "phy_w16 gmi addr val s =
     (let addr = addr AND SasWrapMask s
      in if addr + 1 < Length_of_M_area s
         then if addr + 1 < addr then None
           else (let temp_val = readSelfMod addr 2 s
               in if temp_val = SAS_RAM \<or> temp_val = SAS_MM_LIM then Some (write_word addr val s)
                  else if temp_val = SAS_INACCESSIBLE \<or> temp_val = SAS_ROM then Some s
                  else gmi_call gmi temp_val 2 addr (ucast val) s)
         else Some s)"

definition phy_w32 :: "'v gmi \<Rightarrow> IU32 \<Rightarrow> IU32 \<Rightarrow> 'v sas \<Rightarrow> 'v sas option" where
  "phy_w32 gmi addr val s =
     do {
       s \<leftarrow> phy_w16 gmi addr (ucast val) s;
       phy_w16 gmi (addr + 2) (ucast (drop_bit 16 val)) s
     }"

section \<open>Blocks\<close>

text \<open>The block operations of the physical interface; the host buffer is a list of bytes.\<close>

primrec c_sas_PWS :: "'v gmi \<Rightarrow> IU8 list \<Rightarrow> IU32 \<Rightarrow> 'v sas \<Rightarrow> 'v sas option" where
  "c_sas_PWS gmi [] dest s = Some s"
| "c_sas_PWS gmi (b # src) dest s = do { s \<leftarrow> phy_w8 gmi dest b s; c_sas_PWS gmi src (dest + 1) s }"

primrec c_sas_PRS :: "'v gmi \<Rightarrow> nat \<Rightarrow> IU32 \<Rightarrow> 'v sas \<Rightarrow> (IU8 list \<times> 'v sas) option" where
  "c_sas_PRS gmi 0 src s = Some ([], s)"
| "c_sas_PRS gmi (Suc len) src s =
     do {
       (b, s) \<leftarrow> phy_r8 gmi src s;
       (bs, s) \<leftarrow> c_sas_PRS gmi len (src + 1) s;
       Some (b # bs, s)
     }"

section \<open>Double words in RAM\<close>

text \<open>An aligned double word whose page is RAM, with the wrap mask as the A20 gate sets it, and its value.\<close>

definition ram32 :: "'v sas \<Rightarrow> IU32 \<Rightarrow> bool" where
  "ram32 m a \<longleftrightarrow> SasWrapMask m \<in> {0xfffff, 0xffffffff} \<and> a AND 3 = 0 \<and> a AND SasWrapMask m < Length_of_M_area m \<and>
     4 \<le> Length_of_M_area m - (a AND SasWrapMask m) \<and> READ_SELF_MOD (a AND SasWrapMask m) m = SAS_RAM"

definition peek32 :: "'v sas \<Rightarrow> IU32 \<Rightarrow> IU32" where
  "peek32 m a = (let p = unat (a AND SasWrapMask m) in
     ucast (M_area m p) OR push_bit 8 (ucast (M_area m (p + 1))) OR push_bit 16 (ucast (M_area m (p + 2))) OR push_bit 24 (ucast (M_area m (p + 3))))"

lemma aligned_or:
  fixes p :: IU32
  assumes "p AND 3 = 0"
  shows "p + 1 = p OR 1" "p + 2 = p OR 2" "p + 3 = p OR 3"
proof -
  have "\<not> bit p 0" "\<not> bit p 1" using arg_cong [OF assms, of "\<lambda>x. bit x 0"] arg_cong [OF assms, of "\<lambda>x. bit x 1"] by (simp_all add: bit_simps)
  then have "p AND 1 = 0" "p AND 2 = 0" by (auto intro!: bit_word_eqI simp: bit_simps)
  then show "p + 1 = p OR 1" "p + 2 = p OR 2" "p + 3 = p OR 3" using assms by (simp_all add: disjunctive_add_eq_or)
qed

lemma aligned_bits:
  fixes p :: IU32
  assumes "p AND 3 = 0" shows "\<not> bit p 0" "\<not> bit p (Suc 0)"
  using arg_cong [OF assms, of "\<lambda>x. bit x 0"] arg_cong [OF assms, of "\<lambda>x. bit x 1"] by (simp_all add: bit_simps)

lemma aligned_page:
  fixes p :: IU32
  assumes "p AND 3 = 0"
  shows "drop_bit 12 (p + 1) = drop_bit 12 p" "drop_bit 12 (p + 2) = drop_bit 12 p" "drop_bit 12 (p + 3) = drop_bit 12 p"
proof -
  have "\<not> bit (3 :: IU32) (12 + n)" "\<not> bit (2 :: IU32) (12 + n)" "\<not> bit (1 :: IU32) (12 + n)" for n
    by (simp_all add: bit_numeral_rec bit_1_iff)
  then show "drop_bit 12 (p + 1) = drop_bit 12 p" "drop_bit 12 (p + 2) = drop_bit 12 p" "drop_bit 12 (p + 3) = drop_bit 12 p"
    unfolding aligned_or [OF assms] by (auto intro!: bit_word_eqI simp: bit_simps add.commute)
qed

lemma bytes_or:
  fixes b c :: IU8
  shows "push_bit 8 (ucast b) + ucast c = (push_bit 8 (ucast b) OR ucast c :: IU32)"
proof (rule disjunctive_add_eq_or)
  show "push_bit 8 (ucast b) AND ucast c = (0 :: IU32)" by (rule bit_word_eqI) (auto simp: bit_simps dest: bit_imp_le_length)
qed

lemma words_or:
  fixes b c :: IU16
  shows "push_bit 16 (ucast b) + ucast c = (push_bit 16 (ucast b) OR ucast c :: IU32)"
proof (rule disjunctive_add_eq_or)
  show "push_bit 16 (ucast b) AND ucast c = (0 :: IU32)" by (rule bit_word_eqI) (auto simp: bit_simps dest: bit_imp_le_length)
qed

lemma wrap_aligned:
  assumes "m = 0xfffff \<or> m = (0xffffffff :: IU32)" "a AND 3 = 0"
  shows "(a AND m) AND 3 = 0" "(a + 2) AND m = (a AND m) + 2"
proof -
  show 1: "(a AND m) AND 3 = 0" using assms(2) by (metis and.assoc and.commute and_zero_eq)
  have b: "bit m (Suc 0)" using assms(1) by (elim disjE) (simp_all add: bit_numeral_rec)
  show "(a + 2) AND m = (a AND m) + 2"
    unfolding aligned_or(2) [OF assms(2)] aligned_or(2) [OF 1] using b by (auto intro!: bit_word_eqI simp: bit_simps bit_2_iff)
qed

lemma no_wrap_add:
  fixes p l :: IU32
  assumes "p < l" "4 \<le> l - p" "k < 4"
  shows "unat (p + of_nat k) = unat p + k" "p + of_nat k < l"
proof -
  have "unat (l - p) = unat l - unat p" using assms(1) by (simp add: unat_sub order_less_imp_le)
  then have "4 \<le> unat l - unat p" using assms(2) by (simp add: word_le_nat_alt)
  moreover have "unat l < 2 ^ 32" using unsigned_less [of l, where ?'a = nat] by simp
  ultimately have "unat p + k < 2 ^ 32" "unat p + k < unat l" using assms(3) by linarith+
  then show "unat (p + of_nat k) = unat p + k" using assms(3) by (simp add: unat_word_ariths unat_of_nat)
  then show "p + of_nat k < l" using \<open>unat p + k < unat l\<close> by (simp add: word_less_nat_alt)
qed

lemma ram32_half:
  assumes r: "ram32 m a" and p: "p = a AND SasWrapMask m" and k: "k = 0 \<or> k = (2 :: nat)"
  shows "(a + of_nat k) AND SasWrapMask m = p + of_nat k" "unat (p + of_nat k) = unat p + k" "unat (p + of_nat k + 1) = unat p + k + 1"
    "p + of_nat k + 1 < Length_of_M_area m" "p + of_nat k < p + of_nat k + 1" "readSelfMod (p + of_nat k) 2 m = SAS_RAM"
    "\<not> (Length_of_M_area m \<le> p + of_nat k \<or> Length_of_M_area m - (p + of_nat k) < 2)"
proof -
  have l: "p < Length_of_M_area m" "4 \<le> Length_of_M_area m - p" and w: "SasWrapMask m = 0xfffff \<or> SasWrapMask m = 0xffffffff" "a AND 3 = 0"
    and t: "READ_SELF_MOD p m = SAS_RAM"
    using r by (auto simp: ram32_def p)
  have al: "p AND 3 = 0" using wrap_aligned(1) [OF w] by (simp add: p)
  show "(a + of_nat k) AND SasWrapMask m = p + of_nat k" using wrap_aligned(2) [OF w] k by (auto simp: p)
  have n: "unat (p + of_nat i) = unat p + i" "p + of_nat i < Length_of_M_area m" if "i < 4" for i using no_wrap_add [OF l that] by simp_all
  show u0: "unat (p + of_nat k) = unat p + k" using n(1) [of k] k by auto
  have e: "p + of_nat k + 1 = p + of_nat (k + 1)" by simp
  show u1: "unat (p + of_nat k + 1) = unat p + k + 1" using n(1) [of "k + 1"] k unfolding e by auto
  show "p + of_nat k + 1 < Length_of_M_area m" using n(2) [of "k + 1"] k unfolding e by auto
  show "p + of_nat k < p + of_nat k + 1" using u0 u1 by (simp add: word_less_nat_alt)
  have "drop_bit 12 (p + of_nat k) = drop_bit 12 p" "drop_bit 12 (p + of_nat k + 1) = drop_bit 12 p"
    using aligned_page [OF al] k by (auto simp: add.assoc)
  then show "readSelfMod (p + of_nat k) 2 m = SAS_RAM" using t by (simp add: readSelfMod_def READ_SELF_MOD_def add.commute [of 1])
  have "unat (Length_of_M_area m - (p + of_nat k)) = unat (Length_of_M_area m) - (unat p + k)"
    using n(2) [of k] u0 k by (subst unat_sub) (auto simp: order_less_imp_le)
  moreover have "unat p + k + 1 < unat (Length_of_M_area m)" using n(2) [of "k + 1"] n(1) [of "k + 1"] k by (auto simp: word_less_nat_alt)
  ultimately have "2 \<le> unat (Length_of_M_area m - (p + of_nat k))" by linarith
  then show "\<not> (Length_of_M_area m \<le> p + of_nat k \<or> Length_of_M_area m - (p + of_nat k) < 2)"
    using n(2) [of k] k by (auto simp: not_le not_less word_le_nat_alt word_less_nat_alt)
qed

lemma ram32_r16:
  assumes r: "ram32 m a" and k: "k = 0 \<or> k = (2 :: nat)"
  shows "phy_r16 gmi (a + of_nat k) m =
    Some (push_bit 8 (ucast (M_area m (unat (a AND SasWrapMask m) + k + 1))) OR ucast (M_area m (unat (a AND SasWrapMask m) + k)), m)"
proof -
  define p where "p = a AND SasWrapMask m"
  note h = ram32_half [OF r p_def k]
  have "pick_up m 2 (p + of_nat k + 1) 0 = push_bit 8 (ucast (M_area m (unat p + k + 1))) OR ucast (M_area m (unat p + k))"
    using h(2,3) by (simp add: numeral_2_eq_2 bytes_or)
  then have "phyR gmi (a + of_nat k) 2 m = Some (push_bit 8 (ucast (M_area m (unat p + k + 1))) OR ucast (M_area m (unat p + k)), m)"
    using h(1,6,7) by (simp add: phyR_def phyR_with_def Let_def add.commute [of 1])
  moreover have "ucast (push_bit 8 (ucast b) OR ucast c :: IU32) = (push_bit 8 (ucast b) OR ucast c :: IU16)" for b c :: IU8
    by (rule bit_word_eqI) (auto simp: bit_simps dest: bit_imp_le_length)
  ultimately show ?thesis by (simp add: phy_r16_def p_def [symmetric])
qed

lemma ram32_read:
  assumes "ram32 m a" shows "phy_r32 gmi a m = Some (peek32 m a, m)"
proof -
  define p where "p = unat (a AND SasWrapMask m)"
  have "push_bit 16 (ucast (push_bit 8 (ucast (M_area m (p + 3))) OR ucast (M_area m (p + 2)) :: IU16)) OR
      ucast (push_bit 8 (ucast (M_area m (p + 1))) OR ucast (M_area m p) :: IU16) = peek32 m a"
    by (rule bit_word_eqI) (auto simp: peek32_def Let_def p_def [symmetric] bit_simps dest: bit_imp_le_length)
  then show ?thesis using ram32_r16 [OF assms, of 0 gmi] ram32_r16 [OF assms, of 2 gmi]
    by (simp add: phy_r32_def words_or p_def [symmetric] numeral_3_eq_3)
qed

text \<open>Writing a double word in RAM changes its four bytes and nothing else.\<close>

definition put32 :: "nat \<Rightarrow> IU32 \<Rightarrow> 'v sas \<Rightarrow> 'v sas" where
  "put32 p v m = m\<lparr>M_area := (M_area m)(p := ucast v, p + 1 := ucast (drop_bit 8 v), p + 2 := ucast (drop_bit 16 v), p + 3 := ucast (drop_bit 24 v))\<rparr>"

lemma ram32_w16:
  assumes r: "ram32 m a" and k: "k = 0 \<or> k = (2 :: nat)"
  shows "phy_w16 gmi (a + of_nat k) x m =
    Some (m\<lparr>M_area := (M_area m)(unat (a AND SasWrapMask m) + k + 1 := ucast (drop_bit 8 x), unat (a AND SasWrapMask m) + k := ucast x)\<rparr>)"
proof -
  note h = ram32_half [OF r refl k]
  have m8: "(255 :: IU16) = mask 8" by (simp add: mask_eq_exp_minus_1)
  have b: "ucast (drop_bit 8 x AND 255) = (ucast (drop_bit 8 x) :: IU8)" "ucast (x AND 255) = (ucast x :: IU8)"
    unfolding m8 by (rule bit_word_eqI; auto simp: bit_simps dest: bit_imp_le_length)+
  show ?thesis using h by (simp add: phy_w16_def Let_def write_word_def poke_def b order_less_not_sym fun_upd_twist)
qed

lemma ram32_write:
  assumes r: "ram32 m a" shows "phy_w32 gmi a v m = Some (put32 (unat (a AND SasWrapMask m)) v m)"
proof -
  define p where "p = a AND SasWrapMask m"
  have w: "phy_w16 gmi (a + of_nat k) x m' = Some (m'\<lparr>M_area := (M_area m')(unat p + k + 1 := ucast (drop_bit 8 x), unat p + k := ucast x)\<rparr>)"
    if "k = 0 \<or> k = 2" "ram32 m' a" "SasWrapMask m' = SasWrapMask m" for k x and m' :: "'a sas"
    using ram32_w16 [OF that(2,1)] that(3) by (simp add: p_def)
  define m1 where "m1 = m\<lparr>M_area := (M_area m)(unat p + 1 := ucast (drop_bit 8 (ucast v :: IU16)), unat p := ucast (ucast v :: IU16))\<rparr>"
  have r1: "ram32 m1 a" "SasWrapMask m1 = SasWrapMask m" using r by (simp_all add: ram32_def m1_def READ_SELF_MOD_def)
  have "phy_w16 gmi a (ucast v) m = Some m1" using w [of 0 m "ucast v"] r by (simp add: m1_def)
  moreover have "phy_w16 gmi (a + 2) (ucast (drop_bit 16 v)) m1 = Some (put32 (unat p) v m)"
  proof -
    have b: "ucast (ucast v :: IU16) = (ucast v :: IU8)" "ucast (drop_bit 8 (ucast v :: IU16)) = (ucast (drop_bit 8 v) :: IU8)"
      "ucast (ucast (drop_bit 16 v) :: IU16) = (ucast (drop_bit 16 v) :: IU8)" "ucast (drop_bit 8 (ucast (drop_bit 16 v) :: IU16)) = (ucast (drop_bit 24 v) :: IU8)"
      by (rule bit_word_eqI; auto simp: bit_simps dest: bit_imp_le_length)+
    have "(M_area m1)(unat p + 2 + 1 := ucast (drop_bit 8 (ucast (drop_bit 16 v) :: IU16)), unat p + 2 := ucast (ucast (drop_bit 16 v) :: IU16)) =
        M_area (put32 (unat p) v m)"
      unfolding m1_def put32_def b by (auto simp: fun_eq_iff)
    then show ?thesis using w [of 2 m1 "ucast (drop_bit 16 v)"] r1 by (simp add: m1_def put32_def)
  qed
  ultimately show ?thesis by (simp add: phy_w32_def p_def)
qed

lemma aligned_mod4: "unat p mod 4 = 0" if "p AND 3 = 0" for p :: IU32
proof -
  have "(3 :: IU32) = mask 2" by (simp add: mask_eq_exp_minus_1)
  then have "unat (p AND 3) = unat p mod 4" using unat_and_mask [of p 2] by simp
  then show ?thesis using that by simp
qed

lemma peek32_put32:
  assumes "ram32 m a" "ram32 m b"
  shows "peek32 (put32 (unat (a AND SasWrapMask m)) v m) b = (if b AND SasWrapMask m = a AND SasWrapMask m then v else peek32 m b)"
proof -
  have w: "SasWrapMask m = 0xfffff \<or> SasWrapMask m = 0xffffffff" "a AND 3 = 0" "b AND 3 = 0" using assms by (auto simp: ram32_def)
  define p where "p = unat (a AND SasWrapMask m)"
  define q where "q = unat (b AND SasWrapMask m)"
  have al: "p mod 4 = 0" "q mod 4 = 0" unfolding p_def q_def by (rule aligned_mod4, rule wrap_aligned [OF w(1)], rule w)+
  have s: "SasWrapMask (put32 p v m) = SasWrapMask m" by (simp add: put32_def)
  show ?thesis
  proof (cases "q = p")
    case True
    have "ucast (ucast v :: IU8) OR push_bit 8 (ucast (ucast (drop_bit 8 v) :: IU8)) OR push_bit 16 (ucast (ucast (drop_bit 16 v) :: IU8)) OR
        push_bit 24 (ucast (ucast (drop_bit 24 v) :: IU8)) = v"
    proof (rule bit_word_eqI)
      fix n assume "n < LENGTH(32)"
      then consider "n < 8" | "8 \<le> n" "n < 16" | "16 \<le> n" "n < 24" | "24 \<le> n" "n < 32" by fastforce
      then show "bit (ucast (ucast v :: IU8) OR push_bit 8 (ucast (ucast (drop_bit 8 v) :: IU8)) OR push_bit 16 (ucast (ucast (drop_bit 16 v) :: IU8)) OR
          push_bit 24 (ucast (ucast (drop_bit 24 v) :: IU8)) :: IU32) n = bit v n"
        by cases (auto simp: bit_simps)
    qed
    then have "peek32 (put32 p v m) b = v" using True unfolding peek32_def s q_def [symmetric] by (simp add: put32_def Let_def)
    then show ?thesis using True by (simp add: p_def q_def word_unat_eq_iff)
  next
    case False
    then have d: "q + i \<noteq> p + j" if "i < 4" "j < 4" for i j
      using al that by (metis add_diff_cancel_left' mod_add_self1 mod_less mod_mult_self2 mult.commute add.commute div_mult_mod_eq add_0_right)
    have n: "M_area (put32 p v m) (q + i) = M_area m (q + i)" if "i < 4" for i
      using d [OF that, of 0] d [OF that, of 1] d [OF that, of 2] d [OF that, of 3] by (simp add: put32_def)
    have "peek32 (put32 p v m) b = peek32 m b" using n [of 0] n [of 1] n [of 2] n [of 3] unfolding peek32_def s q_def [symmetric] by (simp add: Let_def)
    then show ?thesis using False by (auto simp: p_def q_def)
  qed
qed

section \<open>What the page tables need of memory\<close>

text \<open>
  The contract between the page walk and memory: cells that read back what they hold, and writes that
  reach the cell and its aliases and no other cell. The walk only ever sets the accessed and dirty
  bits of page entries; what that can and cannot change is proved once, here.
\<close>

locale page_memory =
  fixes rd :: "IU32 \<Rightarrow> 's \<Rightarrow> (IU32 \<times> 's) option" and wr :: "IU32 \<Rightarrow> IU32 \<Rightarrow> 's \<Rightarrow> 's option"
    and peek :: "'s \<Rightarrow> IU32 \<Rightarrow> IU32" and ok :: "'s \<Rightarrow> IU32 \<Rightarrow> bool" and cell :: "'s \<Rightarrow> IU32 \<Rightarrow> IU32"
  assumes rd: "ok s a \<Longrightarrow> rd a s = Some (peek s a, s)"
    and same_cell: "ok s a \<Longrightarrow> ok s b \<Longrightarrow> cell s b = cell s a \<Longrightarrow> peek s b = peek s a"
    and wr: "ok s a \<Longrightarrow> \<exists>s'. wr a v s = Some s' \<and> ok s' = ok s \<and> cell s' = cell s \<and>
      (\<forall>b. ok s b \<longrightarrow> peek s' b = (if cell s b = cell s a then v else peek s b))"
begin

definition marked :: "'s \<Rightarrow> 's \<Rightarrow> bool" where
  "marked s s' \<longleftrightarrow> ok s' = ok s \<and> cell s' = cell s \<and>
     (\<forall>b. ok s b \<longrightarrow> peek s' b OR 0x60 = peek s b OR 0x60 \<and> (\<forall>n. bit (peek s b) n \<longrightarrow> bit (peek s' b) n))"

lemma marked_refl: "marked s s"
  by (simp add: marked_def)

text \<open>A write that is left out when it would change nothing.\<close>

lemma write_changed:
  assumes "ok s a" "old = peek s a"
  obtains t where "(if v \<noteq> old then wr a v s else Some s) = Some t" "ok t = ok s" "cell t = cell s"
    "\<forall>b. ok s b \<longrightarrow> peek t b = (if cell s b = cell s a then v else peek s b)"
proof (cases "v = old")
  case True
  have "\<forall>b. ok s b \<longrightarrow> peek s b = (if cell s b = cell s a then v else peek s b)" using same_cell [OF assms(1)] True assms(2) by auto
  then show ?thesis using that [of s] True by simp
next
  case False
  then show ?thesis using wr [OF assms(1), of v] that by auto
qed

lemma mark_entries:
  assumes p: "ok s p" and q: "ok s q" and n: "n = peek s q OR 0x20 \<or> n = peek s q OR 0x60"
  shows "\<exists>s'. Option.bind (if n \<noteq> peek s q then wr q n s else Some s) (\<lambda>t. if peek s p OR 0x20 \<noteq> peek s p then wr p (peek s p OR 0x20) t else Some t) = Some s' \<and>
    marked s s' \<and> bit (peek s' p) 5 \<and> bit (peek s' q) 5 \<and> (bit n 6 \<longrightarrow> bit (peek s' q) 6 \<or> cell s q = cell s p)"
proof -
  have b: "bit (0x20 :: int) k \<longleftrightarrow> k = 5" "bit (0x60 :: int) k \<longleftrightarrow> k = 5 \<or> k = 6" for k by (auto simp: bit_numeral_rec bit_1_iff split: nat.splits)
  obtain t where t: "(if n \<noteq> peek s q then wr q n s else Some s) = Some t" "ok t = ok s" "cell t = cell s"
    "\<forall>b. ok s b \<longrightarrow> peek t b = (if cell s b = cell s q then n else peek s b)" by (rule write_changed [OF q refl])
  let ?m = "peek s p OR 0x20"
  obtain u where u: "(if ?m \<noteq> peek s p then wr p ?m t else Some t) = Some u" "ok u = ok s" "cell u = cell s"
    "\<forall>b. ok s b \<longrightarrow> peek u b = (if cell s b = cell s p then ?m else peek t b) \<or> peek u b = peek t b \<and> peek s b = peek s b OR 0x20"
  proof (cases "?m = peek s p")
    case True
    have "peek t b = (if cell s b = cell s p then ?m else peek t b) \<or> peek s b = peek s b OR 0x20" if "ok s b" for b
      using same_cell [OF p that] True by auto
    then show ?thesis using that [of t] True t(2,3) by auto
  next
    case False
    have "ok t p" using p t(2) by simp
    then show ?thesis using wr [of t p ?m] t(2,3) that False by auto
  qed
  have v: "peek u b = peek s b OR 0x20 \<or> peek u b = peek s b OR 0x60 \<or> peek u b = peek s b" if "ok s b" for b
    using u(4) t(4) n same_cell [OF p that] same_cell [OF q that] that by metis
  have "peek u b OR 0x60 = peek s b OR 0x60 \<and> (\<forall>n. bit (peek s b) n \<longrightarrow> bit (peek u b) n)" if "ok s b" for b
  proof -
    have w: "(x OR 0x20) OR 0x60 = x OR 0x60" for x :: IU32 by (rule bit_word_eqI) (auto simp: bit_or_iff b)
    show ?thesis using v [OF that] w by (auto simp: bit_or_iff)
  qed
  then have m: "marked s u" using u(2,3) by (simp add: marked_def)
  have b5: "bit (x OR 0x20 :: IU32) 5" for x by (simp add: bit_or_iff b)
  have "bit (peek u p) 5"
  proof (cases "peek s p = ?m")
    case True
    then have "bit (peek s p) 5" using b5 by metis
    then show ?thesis using m p by (simp add: marked_def)
  next
    case False
    then have "peek u p = ?m" using u(4) p by metis
    then show ?thesis using b5 by simp
  qed
  moreover have "bit (peek u q) 5 \<and> (bit n 6 \<longrightarrow> bit (peek u q) 6 \<or> cell s q = cell s p)" 
  proof (cases "peek u q = n")
    case True
    then show ?thesis using n by (auto simp: bit_or_iff b)
  next
    case False
    moreover have "peek t q = n" using t(4) q by simp
    ultimately have "peek u q = ?m" "cell s q = cell s p" using u(4) q by metis+
    then show ?thesis using b5 by simp
  qed
  ultimately show ?thesis using t(1) u(1) m by auto
qed

end

interpretation RAM: page_memory "phy_r32 gmi" "phy_w32 gmi" peek32 ram32 "\<lambda>s a. a AND SasWrapMask s"
proof
  show "ram32 s a \<Longrightarrow> phy_r32 gmi a s = Some (peek32 s a, s)" for s a by (rule ram32_read)
  show "peek32 s b = peek32 s a" if "b AND SasWrapMask s = a AND SasWrapMask s" for s :: "'a sas" and a b using that by (simp add: peek32_def)
  fix s :: "'a sas" and a v assume r: "ram32 s a"
  let ?s = "put32 (unat (a AND SasWrapMask s)) v s"
  have "ram32 ?s = ram32 s" "(\<lambda>a. a AND SasWrapMask ?s) = (\<lambda>a. a AND SasWrapMask s)" by (simp_all add: ram32_def put32_def READ_SELF_MOD_def fun_eq_iff)
  then show "\<exists>s'. phy_w32 gmi a v s = Some s' \<and> ram32 s' = ram32 s \<and> (\<lambda>a. a AND SasWrapMask s') = (\<lambda>a. a AND SasWrapMask s) \<and>
      (\<forall>b. ram32 s b \<longrightarrow> peek32 s' b = (if b AND SasWrapMask s = a AND SasWrapMask s then v else peek32 s b))"
    using ram32_write [OF r, of gmi v] peek32_put32 [OF r, of _ v] by auto
qed

end
