(* ===== verification/Ccpu_Tlb.thy ===== *)
theory Ccpu_Tlb
  imports Ccpu_Sas
begin

text \<open>
  The translation lookaside buffer and the page walk (\<open>ccpu386/c_tlb.c\<close>): the Intel format buffer of four
  sets of eight entries, the fast format beside it (one byte per linear page that names set and entry, and
  a table of four translated addresses per entry), the translation \<open>lin2phy\<close> used by the CPU, the
  translation \<open>xtrn2phy\<close> used by the rest of the machine, the flush and the test registers.

  A page fault leaves \<open>lin2phy\<close> by \<open>longjmp\<close>: here it is the left summand, with the error code and the
  fault location as in the call of \<open>PF\<close>, and the state at that point.
\<close>

section \<open>State\<close>

record TLB_ENTRY =
  tlb_la :: IU32
  tlb_pa :: IU32
  tlb_v :: bool
  tlb_d :: bool
  tlb_mode :: IU32

record 'v mmu =
  tlb :: "nat \<Rightarrow> nat \<Rightarrow> TLB_ENTRY"
  next_set :: "nat \<Rightarrow> IU32"
  page_index :: "nat \<Rightarrow> IU8"
  page_address :: "nat \<Rightarrow> IU32"
  CCPU_TR :: "nat \<Rightarrow> IU32"
  cpu :: ccpu
  phys :: "'v sas"

datatype fault_at = FAULT_LIN2PHY_ACCESS | FAULT_LIN2PHY_PDE_NOTPRESENT | FAULT_LIN2PHY_PTE_NOTPRESENT | FAULT_LIN2PHY_PROTECT_FAIL

type_synonym PF = "IU16 \<times> fault_at"

definition tlb_upd :: "nat \<Rightarrow> nat \<Rightarrow> (TLB_ENTRY \<Rightarrow> TLB_ENTRY) \<Rightarrow> 'v mmu \<Rightarrow> 'v mmu" where
  "tlb_upd i j f s = s\<lparr>tlb := (tlb s)(i := (tlb s i)(j := f (tlb s i j)))\<rparr>"

definition read_pe :: "'v gmi \<Rightarrow> IU32 \<Rightarrow> 'v mmu \<Rightarrow> (IU32 \<times> 'v mmu) option" where
  "read_pe gmi addr s = do { (v, m) \<leftarrow> phy_r32 gmi addr (phys s); Some (v, s\<lparr>phys := m\<rparr>) }"

definition write_pe :: "'v gmi \<Rightarrow> IU32 \<Rightarrow> IU32 \<Rightarrow> 'v mmu \<Rightarrow> 'v mmu option" where
  "write_pe gmi addr v s = do { m \<leftarrow> phy_w32 gmi addr v (phys s); Some (s\<lparr>phys := m\<rparr>) }"

definition access_check :: "nat \<Rightarrow> nat \<Rightarrow> bool" where
  "access_check reqd avail = ([[False, False, False, False], [False, False, False, False], [True, True, False, False], [True, True, True, False]] ! reqd ! avail)"

section \<open>Flush\<close>

definition flush_entry :: "nat \<Rightarrow> nat \<Rightarrow> 'v mmu \<Rightarrow> 'v mmu" where
  "flush_entry i j s =
     (let s = (if tlb_v (tlb s i j) then s\<lparr>page_index := (page_index s)(unat (drop_bit 12 (tlb_la (tlb s i j))) := 0)\<rparr> else s)
      in tlb_upd i j (\<lambda>e. e\<lparr>tlb_v := False\<rparr>) s)"

definition flush_tlb :: "'v mmu \<Rightarrow> 'v mmu" where
  "flush_tlb s = fold (\<lambda>i. fold (flush_entry i) [0..<8]) [0..<4] s"

section \<open>Translation\<close>

definition fast_lookup :: "IU32 \<Rightarrow> nat \<Rightarrow> 'v mmu \<Rightarrow> IU32" where
  "fast_lookup lin access s =
     (let pi = page_index s (unat (drop_bit 12 lin))
      in if pi = 0 then 0 else page_address s (unat (pi AND 0x7c) + access))"

definition tlb_entry :: "IU32 \<Rightarrow> nat" where
  "tlb_entry lin = unat (drop_bit 12 lin AND 7)"

fun tlb_search :: "'v mmu \<Rightarrow> IU32 \<Rightarrow> bool \<Rightarrow> nat list \<Rightarrow> TLB_ENTRY option" where
  "tlb_search s lin read_op [] = None"
| "tlb_search s lin read_op (i # is) =
     (let e = tlb s i (tlb_entry lin)
      in if tlb_v e \<and> tlb_la e = lin AND NOT 0xfff \<and> (read_op \<or> tlb_d e) then Some e else tlb_search s lin read_op is)"

definition combine :: "IU32 \<Rightarrow> IU32 \<Rightarrow> IU32" where
  "combine pde pte =
     (if pde AND 6 < pte AND 6
      then (if pde AND 4 \<noteq> 0 then 2 else 0) OR (if pde AND 2 \<noteq> 0 then 1 else 0)
      else (if pte AND 4 \<noteq> 0 then 2 else 0) OR (if pte AND 2 \<noteq> 0 then 1 else 0))"

definition set_pages :: "nat \<Rightarrow> TLB_ENTRY \<Rightarrow> (nat \<Rightarrow> IU32) \<Rightarrow> nat \<Rightarrow> IU32" where
  "set_pages pi e p =
     (let p = p(pi := tlb_pa e, pi + 1 := 0, pi + 2 := 0, pi + 3 := 0);
          p = (if tlb_d e then p(pi + 1 := tlb_pa e) else p)
      in if 2 \<le> tlb_mode e
         then (let p = p(pi + 2 := tlb_pa e)
               in if tlb_mode e AND 1 \<noteq> 0 \<and> tlb_d e then p(pi + 3 := tlb_pa e) else p)
         else p)"

definition allocate :: "IU32 \<Rightarrow> IU32 \<Rightarrow> IU32 \<Rightarrow> bool \<Rightarrow> 'v mmu \<Rightarrow> 'v mmu" where
  "allocate lin comb pte read_op s =
     (let j = tlb_entry lin;
          i = unat (next_set s j);
          s = s\<lparr>next_set := (next_set s)(j := (next_set s j + 1) AND 3)\<rparr>;
          s = (if tlb_v (tlb s i j) then s\<lparr>page_index := (page_index s)(unat (drop_bit 12 (tlb_la (tlb s i j))) := 0)\<rparr> else s);
          e = \<lparr>tlb_la = lin AND NOT 0xfff, tlb_pa = pte AND 0xfffff000, tlb_v = True, tlb_d = \<not> read_op, tlb_mode = comb\<rparr>;
          s = tlb_upd i j (\<lambda>_. e) s;
          pi = push_bit 5 (of_nat i) OR push_bit 2 (of_nat j);
          s = s\<lparr>page_index := (page_index s)(unat (drop_bit 12 lin) := 0x80 OR pi)\<rparr>
      in s\<lparr>page_address := set_pages (unat pi) e (page_address s)\<rparr>)"

definition pde_addr :: "IU32 \<Rightarrow> 'v mmu \<Rightarrow> IU32" where
  "pde_addr lin s = (CCPU_CR (cpu s) 3 AND 0xfffff000) + push_bit 2 (drop_bit 22 lin AND 0x3ff)"

definition pte_addr :: "IU32 \<Rightarrow> IU32 \<Rightarrow> IU32" where
  "pte_addr lin pde = (pde AND 0xfffff000) + push_bit 2 (drop_bit 12 lin AND 0x3ff)"

definition take_PF :: "IU32 \<Rightarrow> IU16 \<Rightarrow> fault_at \<Rightarrow> 'v mmu \<Rightarrow> ((PF + IU32) \<times> 'v mmu) option" where
  "take_PF lin code xcode s = Some (Inl (code, xcode), s\<lparr>cpu := SET_CR 2 lin (cpu s)\<rparr>)"

definition mark_used :: "'v gmi \<Rightarrow> IU32 \<Rightarrow> IU32 \<Rightarrow> IU32 \<Rightarrow> IU32 \<Rightarrow> bool \<Rightarrow> 'v mmu \<Rightarrow> 'v mmu option" where
  "mark_used gmi pdea pde ptea pte dirty s =
     do {
       let new_pde = pde OR 0x20;
       let new_pte = (if dirty then pte OR 0x20 OR 0x40 else pte OR 0x20);
       s \<leftarrow> (if new_pte \<noteq> pte then write_pe gmi ptea new_pte s else Some s);
       if new_pde \<noteq> pde then write_pe gmi pdea new_pde s else Some s
     }"

definition walk_fill :: "'v gmi \<Rightarrow> IU32 \<Rightarrow> nat \<Rightarrow> 'v mmu \<Rightarrow> ((PF + IU32) \<times> 'v mmu) option" where
  "walk_fill gmi lin access s =
     do {
       let code = push_bit 1 (of_nat access :: IU16);
       let pdea = pde_addr lin s;
       (pde, s) \<leftarrow> read_pe gmi pdea s;
       if pde AND 1 = 0 then take_PF lin code FAULT_LIN2PHY_PDE_NOTPRESENT s
       else do {
         let ptea = pte_addr lin pde;
         (pte, s) \<leftarrow> read_pe gmi ptea s;
         if pte AND 1 = 0 then take_PF lin code FAULT_LIN2PHY_PTE_NOTPRESENT s
         else if access_check access (unat (combine pde pte)) then take_PF lin (code OR 1) FAULT_LIN2PHY_PROTECT_FAIL s
         else do {
           let read_op = (access AND 1 = 0);
           let s = allocate lin (combine pde pte) pte read_op s;
           s \<leftarrow> mark_used gmi pdea pde ptea pte (\<not> read_op) s;
           Some (Inr ((pte AND 0xfffff000) OR (lin AND 0xfff)), s)
         }
       }
     }"

definition lin2phy :: "'v gmi \<Rightarrow> IU32 \<Rightarrow> nat \<Rightarrow> 'v mmu \<Rightarrow> ((PF + IU32) \<times> 'v mmu) option" where
  "lin2phy gmi lin access s =
     (let ma = fast_lookup lin access s
      in if ma \<noteq> 0 then Some (Inr (ma OR (lin AND 0xfff)), s)
         else case tlb_search s lin (access AND 1 = 0) [0..<4] of
             Some e \<Rightarrow> (if access_check access (unat (tlb_mode e))
                       then take_PF lin (push_bit 1 (of_nat access) OR 1) FAULT_LIN2PHY_ACCESS s
                       else Some (Inr (tlb_pa e OR (lin AND 0xfff)), s))
           | None \<Rightarrow> walk_fill gmi lin access s)"

section \<open>Translation for the rest of the machine\<close>

definition combine_xtrn :: "IU32 \<Rightarrow> IU32 \<Rightarrow> IU32" where
  "combine_xtrn pde pte = (if (pde OR pte) AND 4 \<noteq> 0 then 2 else 0) OR (if (pde AND pte) AND 2 \<noteq> 0 then 1 else 0)"

definition xtrn2phy :: "'v gmi \<Rightarrow> IU32 \<Rightarrow> nat \<Rightarrow> 'v mmu \<Rightarrow> (IU32 option \<times> 'v mmu) option" where
  "xtrn2phy gmi lin access_request s =
     do {
       let access = access_request AND 3;
       let read_op = (access AND 1 = 0);
       let ma = fast_lookup lin access s;
       if ma \<noteq> 0 then Some (Some (ma OR (lin AND 0xfff)), s)
       else case tlb_search s lin read_op [0..<4] of
           Some e \<Rightarrow> Some (if access_check access (unat (tlb_mode e)) then None else Some (tlb_pa e OR (lin AND 0xfff)), s)
         | None \<Rightarrow>
             do {
               let pdea = pde_addr lin s;
               (pde, s) \<leftarrow> read_pe gmi pdea s;
               if pde AND 1 = 0 then Some (None, s)
               else do {
                 let ptea = pte_addr lin pde;
                 (pte, s) \<leftarrow> read_pe gmi ptea s;
                 if pte AND 1 = 0 then Some (None, s)
                 else if access_check access (unat (combine_xtrn pde pte)) then Some (None, s)
                 else do {
                   s \<leftarrow> (if access_request AND 4 \<noteq> 0 \<and>
                            (pde AND 0x20 = 0 \<or> pte AND 0x20 = 0 \<or> (\<not> read_op \<and> pte AND 0x40 = 0))
                        then mark_used gmi pdea pde ptea pte (\<not> read_op) s else Some s);
                   Some (Some ((pte AND 0xfffff000) OR (lin AND 0xfff)), s)
                 }
               }
             }
     }"

section \<open>Test registers\<close>

fun test_lookup :: "IU32 \<Rightarrow> bool \<Rightarrow> nat \<Rightarrow> 'v mmu \<Rightarrow> nat list \<Rightarrow> (nat \<times> TLB_ENTRY) option" where
  "test_lookup lookup reqd_v j s [] = None"
| "test_lookup lookup reqd_v j s (i # is) =
     (if tlb_v (tlb s i j) = reqd_v \<and> tlb_la (tlb s i j) = lookup then Some (i, tlb s i j) else test_lookup lookup reqd_v j s is)"

definition test_tlb :: "'v mmu \<Rightarrow> 'v mmu" where
  "test_tlb s =
     (let tcr = CCPU_TR s 6; tdr = CCPU_TR s 7; j = unat (drop_bit 12 tcr AND 7)
      in if tcr AND 1 \<noteq> 0
         then (case test_lookup (tcr AND 0xfffff000) (tcr AND 0x800 \<noteq> 0) j s [0..<4] of
             Some (i, e) \<Rightarrow>
               (let tdr = tlb_pa e OR 0x10 OR push_bit 2 (of_nat i);
                    tcr = tcr AND NOT 0x7e0;
                    tcr = tcr OR (if tlb_d e then 0x400 else 0x200);
                    tcr = tcr OR (if tlb_mode e AND 2 \<noteq> 0 then 0x100 else 0x80);
                    tcr = tcr OR (if tlb_mode e AND 1 \<noteq> 0 then 0x40 else 0x20)
                in s\<lparr>CCPU_TR := (CCPU_TR s)(7 := tdr, 6 := tcr)\<rparr>)
           | None \<Rightarrow> s\<lparr>CCPU_TR := (CCPU_TR s)(7 := tdr AND NOT 0x10)\<rparr>)
         else
           (let i = (if tdr AND 0x10 \<noteq> 0 then unat (drop_bit 2 (tdr AND 0xc)) else unat (next_set s j));
                s = (if tdr AND 0x10 \<noteq> 0 then s else s\<lparr>next_set := (next_set s)(j := (next_set s j + 1) AND 3)\<rparr>);
                s = (if tlb_v (tlb s i j) then s\<lparr>page_index := (page_index s)(unat (drop_bit 12 (tlb_la (tlb s i j))) := 0)\<rparr> else s)
            in tlb_upd i j (\<lambda>_. \<lparr>tlb_la = tcr AND 0xfffff000, tlb_pa = tdr AND 0xfffff000, tlb_v = (tcr AND 0x800 \<noteq> 0),
                 tlb_d = (tcr AND 0x400 \<noteq> 0), tlb_mode = of_bool (tcr AND 0x40 \<noteq> 0) OR push_bit 1 (of_bool (tcr AND 0x100 \<noteq> 0))\<rparr>) s))"

end
