(* ===== verification/Ccpu_Tlb_Inv.thy ===== *)
theory Ccpu_Tlb_Inv
  imports Ccpu_Tlb
begin

text \<open>
  Correctness of the translation lookaside buffer: the invariant that ties the fast format to the Intel
  format, coherence of the buffer with the page tables in memory, and \<open>lin2phy\<close> as an implementation of the
  page walk.
\<close>

section \<open>The invariant\<close>

definition pi_byte :: "nat \<Rightarrow> nat \<Rightarrow> IU8" where
  "pi_byte i j = 0x80 OR (push_bit 5 (of_nat i) OR push_bit 2 (of_nat j))"

text \<open>The translated address the fast format holds for an entry and an access mode.\<close>

definition fast_page :: "TLB_ENTRY \<Rightarrow> nat \<Rightarrow> IU32" where
  "fast_page e k = (if k = 0 \<or> k = 1 \<and> tlb_d e \<or> k = 2 \<and> 2 \<le> tlb_mode e \<or> k = 3 \<and> 2 \<le> tlb_mode e \<and> tlb_mode e AND 1 \<noteq> 0 \<and> tlb_d e
     then tlb_pa e else 0)"

definition entry_ok :: "nat \<Rightarrow> TLB_ENTRY \<Rightarrow> bool" where
  "entry_ok j e \<longleftrightarrow> tlb_mode e < 4 \<and> (tlb_v e \<longrightarrow> tlb_la e AND 0xfff = 0 \<and> tlb_entry (tlb_la e) = j)"

definition indexed :: "'v mmu \<Rightarrow> nat \<Rightarrow> nat \<Rightarrow> nat \<Rightarrow> bool" where
  "indexed s p i j \<longleftrightarrow> i < 4 \<and> j < 8 \<and> page_index s p = pi_byte i j \<and> tlb_v (tlb s i j) \<and>
     unat (drop_bit 12 (tlb_la (tlb s i j))) = p \<and> (\<forall>k < 4. page_address s (32 * i + 4 * j + k) = fast_page (tlb s i j) k)"

definition tlb_wf :: "'v mmu \<Rightarrow> bool" where
  "tlb_wf s \<longleftrightarrow> (\<forall>j < 8. next_set s j < 4) \<and> (\<forall>i < 4. \<forall>j < 8. entry_ok j (tlb s i j)) \<and>
     (\<forall>p. page_index s p \<noteq> 0 \<longrightarrow> (\<exists>i j. indexed s p i j))"

lemma pi_byte_slot: "i < 4 \<Longrightarrow> j < 8 \<Longrightarrow> unat (pi_byte i j AND 0x7c) = 32 * i + 4 * j"
proof -
  have "\<forall>i \<in> {0..<4}. \<forall>j \<in> {0..<8}. unat (pi_byte i j AND 0x7c) = 32 * i + 4 * j" by code_simp
  then show "i < 4 \<Longrightarrow> j < 8 \<Longrightarrow> unat (pi_byte i j AND 0x7c) = 32 * i + 4 * j" by simp
qed

lemma pi_byte_nonzero: "pi_byte i j \<noteq> 0"
proof -
  have "bit (pi_byte i j) 7" by (simp add: pi_byte_def bit_simps bit_numeral_rec)
  then show ?thesis by auto
qed

lemma slot_inj:
  fixes i j :: nat
  assumes "j < 8" "j' < 8" "8 * i + j = 8 * i' + j'" shows "(i, j) = (i', j')"
proof -
  have "(8 * i + j) div 8 = i" "(8 * i' + j') div 8 = i'" using assms(1,2) by simp_all
  then show ?thesis using assms(3) by simp
qed

lemma pi_byte_inj:
  assumes "i < 4" "j < 8" "i' < 4" "j' < 8" "pi_byte i j = pi_byte i' j'" shows "i = i'" "j = j'"
proof -
  have "32 * i + 4 * j = 32 * i' + 4 * j'" using pi_byte_slot [OF assms(1,2)] pi_byte_slot [OF assms(3,4)] assms(5) by simp
  then have "8 * i + j = 8 * i' + j'" by linarith
  then show "i = i'" "j = j'" using slot_inj [OF assms(2,4)] by simp_all
qed

lemma small_mode: "m < 4 \<longleftrightarrow> m = 0 \<or> m = 1 \<or> m = 2 \<or> m = (3 :: IU32)"
proof -
  have "unat m < 4 \<longleftrightarrow> unat m = 0 \<or> unat m = 1 \<or> unat m = 2 \<or> unat m = 3" by arith
  then show ?thesis by (simp add: word_less_nat_alt word_unat_eq_iff)
qed

lemma access_check_fast:
  assumes "tlb_mode e < 4" "k < 4" "fast_page e k \<noteq> 0"
  shows "fast_page e k = tlb_pa e" "k AND 1 = 0 \<or> tlb_d e" "\<not> access_check k (unat (tlb_mode e))"
proof -
  have k: "k = 0 \<or> k = 1 \<or> k = 2 \<or> k = 3" using assms(2) by arith
  show "fast_page e k = tlb_pa e" using assms(3) by (auto simp: fast_page_def split: if_splits)
  show "k AND 1 = 0 \<or> tlb_d e" using k assms(3) by (auto simp: fast_page_def split: if_splits)
  show "\<not> access_check k (unat (tlb_mode e))"
    using k assms(1,3) unfolding small_mode by (elim disjE) (auto simp: fast_page_def access_check_def word_le_nat_alt split: if_splits)
qed

lemma page_eq:
  fixes a b :: IU32
  assumes "a AND 0xfff = 0" "drop_bit 12 a = drop_bit 12 b"
  shows "a = b AND NOT 0xfff"
proof -
  have m: "(0xfff :: IU32) = mask 12" by (simp add: mask_eq_exp_minus_1)
  have lo: "\<not> bit a n" if "n < 12" for n using arg_cong [OF assms(1), of "\<lambda>x. bit x n"] that unfolding m by (auto simp: bit_simps dest: bit_imp_le_length)
  have hi: "bit a (12 + n) = bit b (12 + n)" for n using arg_cong [OF assms(2), of "\<lambda>x. bit x n"] by (simp add: bit_simps)
  show ?thesis unfolding m
  proof (rule bit_word_eqI)
    fix n assume "n < LENGTH(32)"
    then show "bit a n = bit (b AND NOT (mask 12)) n" using lo [of n] hi [of "n - 12"] by (cases "n < 12") (auto simp: bit_simps)
  qed
qed

lemma page_part: "drop_bit 12 (b AND NOT 0xfff) = drop_bit 12 b" "(b AND NOT 0xfff) AND 0xfff = 0" for b :: IU32
proof -
  have m: "(0xfff :: IU32) = mask 12" by (simp add: mask_eq_exp_minus_1)
  show "drop_bit 12 (b AND NOT 0xfff) = drop_bit 12 b" "(b AND NOT 0xfff) AND 0xfff = 0"
    unfolding m by (rule bit_word_eqI; auto simp: bit_simps dest: bit_imp_le_length)+
qed

lemma entry_part: "tlb_entry (lin AND NOT 0xfff) = tlb_entry lin" "tlb_entry lin < 8"
proof -
  show "tlb_entry (lin AND NOT 0xfff) = tlb_entry lin" by (simp only: tlb_entry_def page_part)
  have "(7 :: IU32) = mask 3" by (simp add: mask_eq_exp_minus_1)
  then show "tlb_entry lin < 8" using unat_and_mask [of "drop_bit 12 lin" 3] by (simp add: tlb_entry_def)
qed

text \<open>Whatever the fast format answers is an entry of the Intel format that admits the access.\<close>

lemma fast_lookup_hit:
  assumes wf: "tlb_wf s" and a: "access < 4" and ma: "fast_lookup lin access s \<noteq> 0"
  obtains i where "i < 4" "tlb_v (tlb s i (tlb_entry lin))" "tlb_la (tlb s i (tlb_entry lin)) = lin AND NOT 0xfff"
    "access AND 1 = 0 \<or> tlb_d (tlb s i (tlb_entry lin))" "\<not> access_check access (unat (tlb_mode (tlb s i (tlb_entry lin))))"
    "fast_lookup lin access s = tlb_pa (tlb s i (tlb_entry lin))"
proof -
  let ?p = "unat (drop_bit 12 lin)"
  have pi: "page_index s ?p \<noteq> 0" using ma by (auto simp: fast_lookup_def Let_def)
  then obtain i j where ix: "indexed s ?p i j" using wf by (auto simp: tlb_wf_def)
  let ?e = "tlb s i j"
  have e: "i < 4" "j < 8" "tlb_v ?e" "entry_ok j ?e" "drop_bit 12 (tlb_la ?e) = drop_bit 12 lin"
    using ix wf by (auto simp: indexed_def tlb_wf_def word_unat_eq_iff)
  have la: "tlb_la ?e = lin AND NOT 0xfff" using e(3-5) by (intro page_eq) (auto simp: entry_ok_def)
  then have j: "j = tlb_entry lin" using e(3,4) entry_part(1) by (auto simp: entry_ok_def)
  have f: "fast_lookup lin access s = fast_page ?e access"
    using ix a pi pi_byte_slot [OF e(1,2)] by (simp add: fast_lookup_def indexed_def Let_def)
  have "tlb_mode ?e < 4" using e(4) by (simp add: entry_ok_def)
  note c = access_check_fast [OF this a ma [unfolded f]]
  show ?thesis by (rule that [OF e(1)]) (use e la c f j in auto)
qed

lemma set_pages_at:
  "k < 4 \<Longrightarrow> set_pages q e p (q + k) = fast_page e k" "x < q \<or> q + 4 \<le> x \<Longrightarrow> set_pages q e p x = p x"
proof -
  assume "k < 4"
  then have "k = 0 \<or> k = 1 \<or> k = 2 \<or> k = 3" by arith
  then show "set_pages q e p (q + k) = fast_page e k" by (auto simp: set_pages_def fast_page_def Let_def)
next
  show "x < q \<or> q + 4 \<le> x \<Longrightarrow> set_pages q e p x = p x" by (auto simp: set_pages_def Let_def)
qed

text \<open>Taking a slot away from its page: afterwards no page of the index refers to it.\<close>

definition drop_index :: "TLB_ENTRY \<Rightarrow> (nat \<Rightarrow> IU8) \<Rightarrow> nat \<Rightarrow> IU8" where
  "drop_index e ix = (if tlb_v e then ix(unat (drop_bit 12 (tlb_la e)) := 0) else ix)"

lemma drop_index_slot:
  assumes wf: "tlb_wf s" and ij: "i < 4" "j < 8" and p: "drop_index (tlb s i j) (page_index s) p \<noteq> 0"
  obtains i' j' where "indexed s p i' j'" "(i', j') \<noteq> (i, j)" "drop_index (tlb s i j) (page_index s) p = page_index s p"
proof -
  have e: "drop_index (tlb s i j) (page_index s) p = page_index s p" "page_index s p \<noteq> 0"
    "tlb_v (tlb s i j) \<Longrightarrow> unat (drop_bit 12 (tlb_la (tlb s i j))) \<noteq> p"
    using p by (auto simp: drop_index_def split: if_splits)
  then obtain i' j' where x: "indexed s p i' j'" using wf by (auto simp: tlb_wf_def)
  have "(i', j') \<noteq> (i, j)" using x e(3) by (auto simp: indexed_def)
  then show ?thesis using that x e(1) by blast
qed

lemma replace_entry_wf:
  assumes wf: "tlb_wf s" and ij: "i < 4" "j < 8" and e: "entry_ok j e" and n: "\<forall>j < 8. next_set s' j < 4"
    and t: "tlb s' = (tlb s)(i := (tlb s i)(j := e))"
    and ix: "page_index s' = drop_index (tlb s i j) (page_index s) \<or>
      tlb_v e \<and> page_index s' = (drop_index (tlb s i j) (page_index s))(unat (drop_bit 12 (tlb_la e)) := pi_byte i j) \<and>
      (\<forall>k < 4. page_address s' (32 * i + 4 * j + k) = fast_page e k)"
    and pa: "\<And>x. x < 32 * i + 4 * j \<or> 32 * i + 4 * j + 4 \<le> x \<Longrightarrow> page_address s' x = page_address s x"
  shows "tlb_wf s'"
proof -
  have ent: "\<forall>i < 4. \<forall>j < 8. entry_ok j (tlb s' i j)" using wf e t by (auto simp: tlb_wf_def)
  have old: "indexed s' p i' j'" if x: "indexed s p i' j'" "(i', j') \<noteq> (i, j)" "page_index s' p = page_index s p" for p i' j'
  proof -
    have b: "i' < 4" "j' < 8" using x(1) by (simp_all add: indexed_def)
    have "page_address s' (32 * i' + 4 * j' + k) = page_address s (32 * i' + 4 * j' + k)" if "k < 4" for k
    proof (rule pa)
      have "8 * i' + j' \<noteq> 8 * i + j" using slot_inj b(2) ij(2) x(2) by blast
      then show "32 * i' + 4 * j' + k < 32 * i + 4 * j \<or> 32 * i + 4 * j + 4 \<le> 32 * i' + 4 * j' + k" using that by linarith
    qed
    moreover have "tlb s' i' j' = tlb s i' j'" using x(2) t by auto
    ultimately show ?thesis using x(1,3) by (simp add: indexed_def)
  qed
  have "\<exists>i' j'. indexed s' p i' j'" if p: "page_index s' p \<noteq> 0" for p
  proof (cases "page_index s' p = drop_index (tlb s i j) (page_index s) p")
    case True
    then have "drop_index (tlb s i j) (page_index s) p \<noteq> 0" using p by simp
    then obtain i' j' where "indexed s p i' j'" "(i', j') \<noteq> (i, j)" "drop_index (tlb s i j) (page_index s) p = page_index s p"
      by (rule drop_index_slot [OF wf ij])
    then show ?thesis using old True by metis
  next
    case False
    then have "tlb_v e" "p = unat (drop_bit 12 (tlb_la e))" "page_index s' p = pi_byte i j"
      "\<forall>k < 4. page_address s' (32 * i + 4 * j + k) = fast_page e k" using ix by (auto split: if_splits)
    then have "indexed s' p i j" using ij t by (simp add: indexed_def)
    then show ?thesis by blast
  qed
  then show ?thesis using n ent by (simp add: tlb_wf_def)
qed

lemma and3_less: "(x AND 3 :: IU32) < 4"
proof -
  have "(3 :: IU32) = mask 2" by (simp add: mask_eq_exp_minus_1)
  then show ?thesis using unat_and_mask [of x 2] by (simp add: word_less_nat_alt)
qed

lemma combine_less: "combine pde pte < 4"
  by (auto simp: combine_def word_less_nat_alt)

definition new_entry :: "IU32 \<Rightarrow> IU32 \<Rightarrow> IU32 \<Rightarrow> bool \<Rightarrow> TLB_ENTRY" where
  "new_entry lin comb pte read_op =
     \<lparr>tlb_la = lin AND NOT 0xfff, tlb_pa = pte AND 0xfffff000, tlb_v = True, tlb_d = (\<not> read_op), tlb_mode = comb\<rparr>"

lemma allocate_slot:
  assumes wf: "tlb_wf s"
  shows "tlb (allocate lin comb pte read_op s) =
      (tlb s)(unat (next_set s (tlb_entry lin)) := (tlb s (unat (next_set s (tlb_entry lin))))(tlb_entry lin := new_entry lin comb pte read_op))"
    "cpu (allocate lin comb pte read_op s) = cpu s" "phys (allocate lin comb pte read_op s) = phys s"
    "comb < 4 \<Longrightarrow> tlb_wf (allocate lin comb pte read_op s)"
proof -
  define j where "j = tlb_entry lin"
  define i where "i = unat (next_set s j)"
  define e where "e = new_entry lin comb pte read_op"
  define q where "q = (push_bit 5 (of_nat i) OR push_bit 2 (of_nat j) :: IU8)"
  define s' where "s' = allocate lin comb pte read_op s"
  have j: "j < 8" by (simp add: j_def entry_part)
  have i: "i < 4" using wf j by (simp add: i_def tlb_wf_def word_less_nat_alt)
  have q: "unat q = 32 * i + 4 * j" 
  proof -
    have "\<forall>i \<in> {0..<4}. \<forall>j \<in> {0..<8}. unat (push_bit 5 (of_nat i) OR push_bit 2 (of_nat j) :: IU8) = 32 * i + 4 * j" by code_simp
    then show ?thesis using i j by (simp add: q_def)
  qed
  have t: "tlb s' = (tlb s)(i := (tlb s i)(j := e))" "next_set s' = (next_set s)(j := (next_set s j + 1) AND 3)"
    "page_index s' = (drop_index (tlb s i j) (page_index s))(unat (drop_bit 12 lin) := pi_byte i j)"
    "page_address s' = set_pages (32 * i + 4 * j) e (page_address s)" "cpu s' = cpu s" "phys s' = phys s"
    unfolding s'_def allocate_def Let_def j_def [symmetric] i_def [symmetric] q_def [symmetric] q
    by (auto simp: tlb_upd_def e_def new_entry_def drop_index_def pi_byte_def q_def)
  show "tlb (allocate lin comb pte read_op s) =
      (tlb s)(unat (next_set s (tlb_entry lin)) := (tlb s (unat (next_set s (tlb_entry lin))))(tlb_entry lin := new_entry lin comb pte read_op))"
    "cpu (allocate lin comb pte read_op s) = cpu s" "phys (allocate lin comb pte read_op s) = phys s"
    using t unfolding s'_def i_def j_def e_def by simp_all
  show "tlb_wf (allocate lin comb pte read_op s)" if c: "comb < 4" unfolding s'_def [symmetric]
  proof (rule replace_entry_wf [OF wf i j _ _ t(1)])
    show "entry_ok j e" using c page_part [of lin] entry_part [of lin] by (simp add: entry_ok_def e_def new_entry_def j_def)
    show "\<forall>j < 8. next_set s' j < 4" using wf t(2) and3_less by (auto simp: tlb_wf_def)
    have la: "drop_bit 12 (tlb_la e) = drop_bit 12 lin" "tlb_v e" using page_part(1) [of lin] by (simp_all add: e_def new_entry_def)
    show "page_index s' = drop_index (tlb s i j) (page_index s) \<or>
      tlb_v e \<and> page_index s' = (drop_index (tlb s i j) (page_index s))(unat (drop_bit 12 (tlb_la e)) := pi_byte i j) \<and>
      (\<forall>k < 4. page_address s' (32 * i + 4 * j + k) = fast_page e k)"
      using t(3,4) la set_pages_at(1) by auto
  qed (use t(4) set_pages_at(2) in auto)
qed

lemma flush_entry_ok:
  assumes "i < 4" "j < 8" "tlb_wf s"
  shows "tlb_wf (flush_entry i j s)" "tlb_v (tlb (flush_entry i j s) i' j') \<longleftrightarrow> tlb_v (tlb s i' j') \<and> (i', j') \<noteq> (i, j)"
    "cpu (flush_entry i j s) = cpu s" "phys (flush_entry i j s) = phys s"
proof -
  have f: "tlb (flush_entry i j s) = (tlb s)(i := (tlb s i)(j := (tlb s i j)\<lparr>tlb_v := False\<rparr>))"
    "page_index (flush_entry i j s) = drop_index (tlb s i j) (page_index s)" "page_address (flush_entry i j s) = page_address s"
    "next_set (flush_entry i j s) = next_set s" "cpu (flush_entry i j s) = cpu s" "phys (flush_entry i j s) = phys s"
    by (simp_all add: flush_entry_def tlb_upd_def drop_index_def Let_def)
  show "tlb_wf (flush_entry i j s)"
    by (rule replace_entry_wf [OF assms(3,1,2) _ _ f(1)]) (use f assms in \<open>auto simp: tlb_wf_def entry_ok_def\<close>)
  show "tlb_v (tlb (flush_entry i j s) i' j') \<longleftrightarrow> tlb_v (tlb s i' j') \<and> (i', j') \<noteq> (i, j)" using f(1) by auto
  show "cpu (flush_entry i j s) = cpu s" "phys (flush_entry i j s) = phys s" by (fact f)+
qed

lemma flush_row_ok:
  assumes "i < 4" "set js \<subseteq> {0..<8}" "tlb_wf s"
  shows "tlb_wf (fold (flush_entry i) js s) \<and> cpu (fold (flush_entry i) js s) = cpu s \<and> phys (fold (flush_entry i) js s) = phys s \<and>
    (\<forall>i' j'. tlb_v (tlb (fold (flush_entry i) js s) i' j') \<longleftrightarrow> tlb_v (tlb s i' j') \<and> (i' = i \<longrightarrow> j' \<notin> set js))"
  using assms
proof (induction js arbitrary: s)
  case (Cons j js)
  have j: "j < 8" using Cons.prems(2) by simp
  note f = flush_entry_ok [OF Cons.prems(1) j Cons.prems(3)]
  have "tlb_wf (fold (flush_entry i) js (flush_entry i j s)) \<and> cpu (fold (flush_entry i) js (flush_entry i j s)) = cpu (flush_entry i j s) \<and>
      phys (fold (flush_entry i) js (flush_entry i j s)) = phys (flush_entry i j s) \<and>
      (\<forall>i' j'. tlb_v (tlb (fold (flush_entry i) js (flush_entry i j s)) i' j') \<longleftrightarrow> tlb_v (tlb (flush_entry i j s) i' j') \<and> (i' = i \<longrightarrow> j' \<notin> set js))"
    using Cons.prems f(1) by (intro Cons.IH) auto
  then show ?case using f(2-4) by auto
qed simp

lemma flush_rows_ok:
  assumes "set is \<subseteq> {0..<4}" "tlb_wf s"
  shows "tlb_wf (fold (\<lambda>i. fold (flush_entry i) [0..<8]) is s) \<and> cpu (fold (\<lambda>i. fold (flush_entry i) [0..<8]) is s) = cpu s \<and>
    phys (fold (\<lambda>i. fold (flush_entry i) [0..<8]) is s) = phys s \<and>
    (\<forall>i' j'. tlb_v (tlb (fold (\<lambda>i. fold (flush_entry i) [0..<8]) is s) i' j') \<longleftrightarrow> tlb_v (tlb s i' j') \<and> (i' \<in> set is \<longrightarrow> 8 \<le> j'))"
  using assms
proof (induction "is" arbitrary: s)
  case (Cons i "is")
  have i: "i < 4" using Cons.prems(1) by simp
  let ?s = "fold (flush_entry i) [0..<8] s"
  have r: "tlb_wf ?s \<and> cpu ?s = cpu s \<and> phys ?s = phys s \<and> (\<forall>i' j'. tlb_v (tlb ?s i' j') \<longleftrightarrow> tlb_v (tlb s i' j') \<and> (i' = i \<longrightarrow> j' \<notin> set [0..<8]))"
    by (rule flush_row_ok [OF i _ Cons.prems(2)]) simp
  then have w: "tlb_wf ?s" by blast
  have "set is \<subseteq> {0..<4}" using Cons.prems(1) by simp
  from Cons.IH [OF this w] r show ?case by (auto simp del: upt_conv_Cons)
qed simp

lemma flush_tlb_ok:
  assumes "tlb_wf s"
  shows "tlb_wf (flush_tlb s)" "\<forall>i < 4. \<forall>j < 8. \<not> tlb_v (tlb (flush_tlb s) i j)" "\<forall>p. page_index (flush_tlb s) p = 0"
    "cpu (flush_tlb s) = cpu s" "phys (flush_tlb s) = phys s"
proof -
  have f: "tlb_wf (flush_tlb s)" "\<And>i j. tlb_v (tlb (flush_tlb s) i j) \<longleftrightarrow> tlb_v (tlb s i j) \<and> (i \<in> set [0..<4] \<longrightarrow> 8 \<le> j)"
    and c: "cpu (flush_tlb s) = cpu s" "phys (flush_tlb s) = phys s"
    using flush_rows_ok [of "[0..<4]" s] assms unfolding flush_tlb_def by auto
  show "tlb_wf (flush_tlb s)" by (fact f)
  show v: "\<forall>i < 4. \<forall>j < 8. \<not> tlb_v (tlb (flush_tlb s) i j)" using f(2) by auto
  show "cpu (flush_tlb s) = cpu s" "phys (flush_tlb s) = phys s" by (fact c)+
  show "\<forall>p. page_index (flush_tlb s) p = 0"
  proof (rule allI, rule ccontr)
    fix p assume "page_index (flush_tlb s) p \<noteq> 0"
    then obtain i j where "indexed (flush_tlb s) p i j" using f(1) unfolding tlb_wf_def by blast
    then show False using v by (auto simp: indexed_def)
  qed
qed

lemma test_tlb_ok:
  assumes wf: "tlb_wf s" shows "tlb_wf (test_tlb s)"
proof (cases "CCPU_TR s 6 AND 1 = 0")
  case False
  have "tlb_wf (s\<lparr>CCPU_TR := t\<rparr>)" for t using wf by (simp add: tlb_wf_def indexed_def)
  then show ?thesis using False by (auto simp: test_tlb_def Let_def split: option.split)
next
  case True
  define tcr where "tcr = CCPU_TR s 6"
  define tdr where "tdr = CCPU_TR s 7"
  define j where "j = unat (drop_bit 12 tcr AND 7)"
  define i where "i = (if tdr AND 0x10 \<noteq> 0 then unat (drop_bit 2 (tdr AND 0xc)) else unat (next_set s j))"
  define e where "e = \<lparr>tlb_la = tcr AND 0xfffff000, tlb_pa = tdr AND 0xfffff000, tlb_v = (tcr AND 0x800 \<noteq> 0),
                 tlb_d = (tcr AND 0x400 \<noteq> 0), tlb_mode = of_bool (tcr AND 0x40 \<noteq> 0) OR push_bit 1 (of_bool (tcr AND 0x100 \<noteq> 0))\<rparr>"
  have jj: "j = tlb_entry tcr" by (simp add: j_def tlb_entry_def)
  then have j: "j < 8" by (simp add: entry_part)
  have i: "i < 4"
  proof (cases "tdr AND 0x10 = 0")
    case True
    then show ?thesis using wf j by (simp add: i_def tlb_wf_def word_less_nat_alt)
  next
    case False
    have "drop_bit 2 (tdr AND 0xc) = drop_bit 2 tdr AND 3" by (rule bit_word_eqI) (auto simp: bit_simps bit_numeral_rec)
    then show ?thesis using False and3_less [of "drop_bit 2 tdr"] by (simp add: i_def word_less_nat_alt)
  qed
  have t: "tlb (test_tlb s) = (tlb s)(i := (tlb s i)(j := e))" "page_index (test_tlb s) = drop_index (tlb s i j) (page_index s)"
    "page_address (test_tlb s) = page_address s"
    "next_set (test_tlb s) = (if tdr AND 0x10 \<noteq> 0 then next_set s else (next_set s)(j := (next_set s j + 1) AND 3))"
    using True unfolding test_tlb_def Let_def tcr_def [symmetric] tdr_def [symmetric] j_def [symmetric]
    by (auto simp: i_def e_def tlb_upd_def drop_index_def)
  have p: "(0xfffff000 :: IU32) = NOT 0xfff" by simp
  show ?thesis
  proof (rule replace_entry_wf [OF wf i j _ _ t(1)])
    have "tlb_mode e < 4" by (auto simp: e_def word_less_nat_alt)
    moreover have "tlb_la e AND 0xfff = 0" "tlb_entry (tlb_la e) = j" unfolding e_def jj TLB_ENTRY.simps p by (simp_all only: page_part entry_part)
    ultimately show "entry_ok j e" by (simp add: entry_ok_def)
    show "\<forall>j < 8. next_set (test_tlb s) j < 4" using wf t(4) and3_less by (auto simp: tlb_wf_def)
  qed (use t in simp_all)
qed

section \<open>The page walk as a specification\<close>

text \<open>The two entries that map an address, what they permit, and the address they give.\<close>

definition pde_of :: "'v mmu \<Rightarrow> IU32 \<Rightarrow> IU32" where
  "pde_of s lin = peek32 (phys s) (pde_addr lin s)"

definition pte_of :: "'v mmu \<Rightarrow> IU32 \<Rightarrow> IU32" where
  "pte_of s lin = peek32 (phys s) (pte_addr lin (pde_of s lin))"

text \<open>
  The protection rule of the processor: a supervisor may do everything; a user needs both entries to be
  user entries, and for a write both to be writable.
\<close>

definition permitted :: "nat \<Rightarrow> IU32 \<Rightarrow> IU32 \<Rightarrow> bool" where
  "permitted access pde pte \<longleftrightarrow> access < 2 \<or> bit pde 2 \<and> bit pte 2 \<and> (access = 2 \<or> bit pde 1 \<and> bit pte 1)"

definition translate :: "'v mmu \<Rightarrow> IU32 \<Rightarrow> nat \<Rightarrow> nat + IU32" where
  "translate s lin access =
     (if \<not> bit (pde_of s lin) 0 \<or> \<not> bit (pte_of s lin) 0 then Inl (2 * access)
      else if permitted access (pde_of s lin) (pte_of s lin) then Inr ((pte_of s lin AND 0xfffff000) OR (lin AND 0xfff))
      else Inl (2 * access + 1))"

text \<open>The page tables of an address lie in RAM.\<close>

definition tables_in_ram :: "'v mmu \<Rightarrow> IU32 \<Rightarrow> bool" where
  "tables_in_ram s lin \<longleftrightarrow> ram32 (phys s) (pde_addr lin s) \<and> (bit (pde_of s lin) 0 \<longrightarrow> ram32 (phys s) (pte_addr lin (pde_of s lin)))"

text \<open>
  Every entry of the buffer agrees with the page tables, and the tables show that the page was used and,
  for an entry that admits writes, that it was written. The exception is a directory that maps itself: for
  the page where the directory entry serves as page entry too, the code may store the directory entry last.
\<close>

definition self_mapped :: "'v mmu \<Rightarrow> IU32 \<Rightarrow> bool" where
  "self_mapped s lin \<longleftrightarrow> pte_addr lin (pde_of s lin) AND SasWrapMask (phys s) = pde_addr lin s AND SasWrapMask (phys s)"

definition agrees :: "'v mmu \<Rightarrow> TLB_ENTRY \<Rightarrow> bool" where
  "agrees s e \<longleftrightarrow> tables_in_ram s (tlb_la e) \<and> bit (pde_of s (tlb_la e)) 0 \<and> bit (pte_of s (tlb_la e)) 0 \<and>
     bit (pde_of s (tlb_la e)) 5 \<and> bit (pte_of s (tlb_la e)) 5 \<and> (tlb_d e \<longrightarrow> bit (pte_of s (tlb_la e)) 6 \<or> self_mapped s (tlb_la e)) \<and>
     tlb_pa e = pte_of s (tlb_la e) AND 0xfffff000 \<and> tlb_mode e = combine (pde_of s (tlb_la e)) (pte_of s (tlb_la e))"

definition coherent :: "'v mmu \<Rightarrow> bool" where
  "coherent s \<longleftrightarrow> (\<forall>i < 4. \<forall>j < 8. tlb_v (tlb s i j) \<longrightarrow> agrees s (tlb s i j))"

lemma low_two:
  fixes x :: IU32
  shows "x AND 6 = (if bit x 2 then 4 else 0) OR (if bit x 1 then 2 else 0)" "(x AND 4 \<noteq> 0) = bit x 2" "(x AND 2 \<noteq> 0) = bit x 1" "(x AND 1 \<noteq> 0) = bit x 0"
proof -
  have b: "bit (6 :: int) n \<longleftrightarrow> n = 1 \<or> n = 2" "bit (4 :: int) n \<longleftrightarrow> n = 2" "bit (2 :: int) n \<longleftrightarrow> n = 1" for n
    by (auto simp: bit_numeral_rec bit_1_iff split: nat.splits)
  show "x AND 6 = (if bit x 2 then 4 else 0) OR (if bit x 1 then 2 else 0)"
    by (rule bit_word_eqI) (auto simp: bit_and_iff bit_or_iff b)
  show "(x AND 4 \<noteq> 0) = bit x 2" "(x AND 2 \<noteq> 0) = bit x 1" "(x AND 1 \<noteq> 0) = bit x 0" by (simp_all only: bit_eq_iff) (auto simp: bit_and_iff b bit_1_iff dest: bit_imp_le_length)
qed

lemma combine_permitted:
  assumes "access < 4" shows "access_check access (unat (combine pde pte)) \<longleftrightarrow> \<not> permitted access pde pte"
proof -
  have "access = 0 \<or> access = 1 \<or> access = 2 \<or> access = 3" using assms by arith
  then show ?thesis unfolding combine_def permitted_def low_two
    by (elim disjE) (cases "bit pde 1"; cases "bit pde 2"; cases "bit pte 1"; cases "bit pte 2"; simp add: access_check_def)+
qed

lemma same_page:
  fixes lin :: IU32
  shows "pde_addr (lin AND NOT 0xfff) s = pde_addr lin s" "pte_addr (lin AND NOT 0xfff) pde = pte_addr lin pde"
    "pde_of s (lin AND NOT 0xfff) = pde_of s lin" "pte_of s (lin AND NOT 0xfff) = pte_of s lin"
    "tables_in_ram s (lin AND NOT 0xfff) = tables_in_ram s lin" "self_mapped s (lin AND NOT 0xfff) = self_mapped s lin"
proof -
  have "drop_bit 22 x = drop_bit 10 (drop_bit 12 x)" for x :: IU32 by (simp add: drop_bit_drop_bit)
  then have "drop_bit 22 (lin AND NOT 0xfff) = drop_bit 22 lin" by (simp only: page_part)
  then show a: "pde_addr (lin AND NOT 0xfff) s = pde_addr lin s" "pte_addr (lin AND NOT 0xfff) pde = pte_addr lin pde" for pde
    by (simp_all only: pde_addr_def pte_addr_def page_part)
  then show b: "pde_of s (lin AND NOT 0xfff) = pde_of s lin" "pte_of s (lin AND NOT 0xfff) = pte_of s lin" by (simp_all only: pde_of_def pte_of_def)
  show "tables_in_ram s (lin AND NOT 0xfff) = tables_in_ram s lin" "self_mapped s (lin AND NOT 0xfff) = self_mapped s lin"
    by (simp_all only: tables_in_ram_def self_mapped_def a b)
qed

text \<open>Setting accessed and dirty bits changes nothing that a walk depends on.\<close>

lemma same_frame:
  fixes x y :: IU32
  assumes "x OR 0x60 = y OR 0x60"
  shows "x AND 0xfffff000 = y AND 0xfffff000" "bit x 0 = bit y 0" "bit x 1 = bit y 1" "bit x 2 = bit y 2"
proof -
  have b: "bit (0x60 :: int) n \<longleftrightarrow> n = 5 \<or> n = 6" for n by (auto simp: bit_numeral_rec bit_1_iff split: nat.splits)
  have e: "bit x n = bit y n" if "n \<noteq> 5" "n \<noteq> 6" for n using arg_cong [OF assms, of "\<lambda>z. bit z n"] that by (simp add: bit_or_iff b)
  show "x AND 0xfffff000 = y AND 0xfffff000"
  proof (rule bit_word_eqI)
    fix n assume "n < LENGTH(32)"
    have "\<not> bit (0xfffff000 :: IU32) 5" "\<not> bit (0xfffff000 :: IU32) 6" by (simp_all add: bit_numeral_rec)
    then show "bit (x AND 0xfffff000) n = bit (y AND 0xfffff000) n" using e [of n] by (cases "n = 5 \<or> n = 6") (auto simp only: bit_and_iff)
  qed
  show "bit x 0 = bit y 0" "bit x 1 = bit y 1" "bit x 2 = bit y 2" by (simp_all add: e)
qed

lemma marked_tables:
  assumes m: "RAM.marked (phys s) (phys s')" and c: "cpu s' = cpu s" and r: "tables_in_ram s lin"
  shows "tables_in_ram s' lin" "pde_of s' lin OR 0x60 = pde_of s lin OR 0x60" "bit (pde_of s lin) n \<Longrightarrow> bit (pde_of s' lin) n"
    "bit (pde_of s lin) 0 \<Longrightarrow> pte_of s' lin OR 0x60 = pte_of s lin OR 0x60" "bit (pde_of s lin) 0 \<Longrightarrow> bit (pte_of s lin) n \<Longrightarrow> bit (pte_of s' lin) n"
    "self_mapped s' lin = self_mapped s lin" "pte_addr lin (pde_of s' lin) = pte_addr lin (pde_of s lin)"
proof -
  have a: "pde_addr lin s' = pde_addr lin s" using c by (simp add: pde_addr_def)
  show p: "pde_of s' lin OR 0x60 = pde_of s lin OR 0x60" and "bit (pde_of s lin) n \<Longrightarrow> bit (pde_of s' lin) n"
    using m r by (simp_all add: RAM.marked_def tables_in_ram_def pde_of_def a)
  show q: "pte_addr lin (pde_of s' lin) = pte_addr lin (pde_of s lin)" using same_frame [OF p] by (simp add: pte_addr_def)
  have "bit (pde_of s' lin) 0 = bit (pde_of s lin) 0" by (rule same_frame [OF p])
  then show "tables_in_ram s' lin" using m r q by (simp add: tables_in_ram_def a RAM.marked_def)
  show "bit (pde_of s lin) 0 \<Longrightarrow> pte_of s' lin OR 0x60 = pte_of s lin OR 0x60" "bit (pde_of s lin) 0 \<Longrightarrow> bit (pte_of s lin) n \<Longrightarrow> bit (pte_of s' lin) n"
    using m r q by (simp_all add: RAM.marked_def tables_in_ram_def pte_of_def)
  have "x AND SasWrapMask (phys s') = x AND SasWrapMask (phys s)" for x using m by (auto simp: RAM.marked_def fun_eq_iff)
  then show "self_mapped s' lin = self_mapped s lin" by (simp add: self_mapped_def q a)
qed

lemma marked_agrees:
  assumes "RAM.marked (phys s) (phys s')" "cpu s' = cpu s" "agrees s e"
  shows "agrees s' e"
proof -
  have r: "tables_in_ram s (tlb_la e)" "bit (pde_of s (tlb_la e)) 0" using assms(3) by (simp_all add: agrees_def)
  note m = marked_tables [OF assms(1,2) r(1)]
  have f: "pde_of s' (tlb_la e) OR 0x60 = pde_of s (tlb_la e) OR 0x60" "pte_of s' (tlb_la e) OR 0x60 = pte_of s (tlb_la e) OR 0x60" using m r(2) by simp_all
  have "combine (pde_of s' (tlb_la e)) (pte_of s' (tlb_la e)) = combine (pde_of s (tlb_la e)) (pte_of s (tlb_la e))"
    unfolding combine_def low_two same_frame [OF f(1)] same_frame [OF f(2)] ..
  then show ?thesis using assms(3) m r(2) same_frame [OF f(1)] same_frame [OF f(2)] by (auto simp: agrees_def)
qed

section \<open>Translation\<close>

lemma tlb_search_hit:
  "tlb_search s lin read_op is = Some e \<Longrightarrow>
    \<exists>i \<in> set is. e = tlb s i (tlb_entry lin) \<and> tlb_v e \<and> tlb_la e = lin AND NOT 0xfff \<and> (read_op \<or> tlb_d e)"
  by (induction "is") (auto simp: Let_def split: if_splits)

lemma hit_translates:
  assumes "agrees s e" "tlb_la e = lin AND NOT 0xfff" "access < 4"
  shows "translate s lin access =
    (if access_check access (unat (tlb_mode e)) then Inl (2 * access + 1) else Inr (tlb_pa e OR (lin AND 0xfff)))"
  using assms(1) combine_permitted [OF assms(3)] unfolding agrees_def assms(2) same_page translate_def by simp

lemma fault_code: assumes "access < 4" shows "unat (push_bit 1 (of_nat access) :: IU16) = 2 * access"
  "unat (push_bit 1 (of_nat access) OR 1 :: IU16) = 2 * access + 1"
proof -
  from assms have a: "access = 0 \<or> access = 1 \<or> access = 2 \<or> access = 3" by arith
  then show "unat (push_bit 1 (of_nat access) :: IU16) = 2 * access" by (elim disjE) simp_all
  from a show "unat (push_bit 1 (of_nat access) OR 1 :: IU16) = 2 * access + 1" by (elim disjE) simp_all
qed

text \<open>What a translation leaves behind: the fault address, or the page marked as used.\<close>

definition lin2phy_post :: "IU32 \<Rightarrow> nat \<Rightarrow> 'v mmu \<Rightarrow> (PF + IU32) \<Rightarrow> 'v mmu \<Rightarrow> bool" where
  "lin2phy_post lin access s r s' \<longleftrightarrow> map_sum (\<lambda>pf. unat (fst pf)) id r = translate s lin access \<and> tlb_wf s' \<and> coherent s' \<and>
     (case r of Inl _ \<Rightarrow> s' = s\<lparr>cpu := SET_CR 2 lin (cpu s)\<rparr>
      | Inr _ \<Rightarrow> cpu s' = cpu s \<and> RAM.marked (phys s) (phys s') \<and> bit (pde_of s' lin) 5 \<and> bit (pte_of s' lin) 5 \<and>
          (odd access \<longrightarrow> bit (pte_of s' lin) 6 \<or> self_mapped s lin))"

lemma CR2_kept: "CCPU_CR (SET_CR 2 v c) 3 = CCPU_CR c 3"
  by (simp add: SET_CR_def)

lemma fault_keeps:
  assumes "tlb_wf s" "coherent s" shows "tlb_wf (s\<lparr>cpu := SET_CR 2 lin (cpu s)\<rparr>)" "coherent (s\<lparr>cpu := SET_CR 2 lin (cpu s)\<rparr>)"
proof -
  let ?s = "s\<lparr>cpu := SET_CR 2 lin (cpu s)\<rparr>"
  show "tlb_wf ?s" using assms(1) by (simp add: tlb_wf_def indexed_def)
  have "pde_of ?s = pde_of s" by (simp add: pde_of_def pde_addr_def CR2_kept fun_eq_iff)
  moreover from this have "pte_of ?s = pte_of s" by (simp add: pte_of_def fun_eq_iff)
  ultimately have "agrees ?s = agrees s" 
    by (simp add: agrees_def tables_in_ram_def self_mapped_def pde_addr_def CR2_kept fun_eq_iff)
  then show "coherent ?s" using assms(2) by (simp add: coherent_def)
qed

lemma access_odd: "access < 4 \<Longrightarrow> (access AND 1 = 0) = even access" for access :: nat
  by (simp add: and_one_eq even_iff_mod_2_eq_zero)

lemma hit_post:
  assumes wf: "tlb_wf s" "coherent s" and a: "access < 4" and e: "i < 4" "e = tlb s i (tlb_entry lin)" "tlb_v e" "tlb_la e = lin AND NOT 0xfff"
    "access AND 1 = 0 \<or> tlb_d e" and ok: "\<not> access_check access (unat (tlb_mode e))"
  shows "lin2phy_post lin access s (Inr (tlb_pa e OR (lin AND 0xfff))) s"
proof -
  have ag: "agrees s e" using wf(2) e(1,2,3) entry_part(2) unfolding coherent_def by blast
  have "translate s lin access = Inr (tlb_pa e OR (lin AND 0xfff))" using hit_translates [OF ag e(4) a] ok by simp
  moreover have "bit (pde_of s lin) 5" "bit (pte_of s lin) 5" "odd access \<longrightarrow> bit (pte_of s lin) 6 \<or> self_mapped s lin"
    using ag e(5) access_odd [OF a] unfolding agrees_def e(4) same_page by auto
  ultimately show ?thesis using wf by (simp add: lin2phy_post_def RAM.marked_refl)
qed

lemma fault_post:
  assumes "tlb_wf s" "coherent s" "Inl (unat c) = translate s lin access"
  shows "\<exists>r s'. take_PF lin c x s = Some (r, s') \<and> lin2phy_post lin access s r s'"
  using fault_keeps [OF assms(1,2)] assms(3) by (simp add: take_PF_def lin2phy_post_def)

lemma mark_used_phys:
  "mark_used gmi p d q t dirty s = map_option (\<lambda>m. s\<lparr>phys := m\<rparr>)
     (Option.bind (if (if dirty then t OR 0x60 else t OR 0x20) \<noteq> t then phy_w32 gmi q (if dirty then t OR 0x60 else t OR 0x20) (phys s) else Some (phys s))
       (\<lambda>m. if d OR 0x20 \<noteq> d then phy_w32 gmi p (d OR 0x20) m else Some m))"
  by (auto simp: mark_used_def write_pe_def Let_def option.map_comp comp_def split: bind_splits)

lemma fill_coherent:
  assumes wf: "tlb_wf s" "coherent s" and r: "tables_in_ram s lin" and b: "bit (pde_of s lin) 0" "bit (pte_of s lin) 0"
    and t: "tlb s' = tlb (allocate lin (combine (pde_of s lin) (pte_of s lin)) (pte_of s lin) read_op s)" "cpu s' = cpu s"
    and m: "RAM.marked (phys s) (phys s')" "bit (pde_of s' lin) 5" "bit (pte_of s' lin) 5" "\<not> read_op \<longrightarrow> bit (pte_of s' lin) 6 \<or> self_mapped s lin"
  shows "coherent s'"
proof -
  let ?e = "new_entry lin (combine (pde_of s lin) (pte_of s lin)) (pte_of s lin) read_op"
  note mt = marked_tables [OF m(1) t(2) r]
  have f: "pde_of s' lin OR 0x60 = pde_of s lin OR 0x60" "pte_of s' lin OR 0x60 = pte_of s lin OR 0x60" using mt b by simp_all
  have "combine (pde_of s' lin) (pte_of s' lin) = combine (pde_of s lin) (pte_of s lin)"
    unfolding combine_def low_two same_frame [OF f(1)] same_frame [OF f(2)] ..
  moreover have la: "tlb_la ?e = lin AND NOT 0xfff" "tlb_d ?e = (\<not> read_op)" "tlb_pa ?e = pte_of s lin AND 0xfffff000"
      "tlb_mode ?e = combine (pde_of s lin) (pte_of s lin)" by (simp_all add: new_entry_def)
  ultimately have new: "agrees s' ?e"
    unfolding agrees_def la same_page using mt(1,6) m b same_frame [OF f(1)] same_frame [OF f(2)] by auto
  have "agrees s' (tlb s' i j)" if "i < 4" "j < 8" "tlb_v (tlb s' i j)" for i j
  proof (cases "tlb s' i j = ?e")
    case False
    then have "tlb s' i j = tlb s i j" unfolding t(1) allocate_slot(1) [OF wf(1)] by (auto split: if_splits)
    then show ?thesis using that wf(2) marked_agrees [OF m(1) t(2)] by (simp add: coherent_def)
  qed (use new in simp)
  then show ?thesis by (simp add: coherent_def)
qed

lemma fill_post:
  assumes wf: "tlb_wf s" "coherent s" and r: "tables_in_ram s lin" and b: "bit (pde_of s lin) 0" "bit (pte_of s lin) 0" and a: "access < 4"
    and p: "permitted access (pde_of s lin) (pte_of s lin)"
    and s1: "s1 = allocate lin (combine (pde_of s lin) (pte_of s lin)) (pte_of s lin) (access AND 1 = 0) s"
  shows "\<exists>s'. mark_used gmi (pde_addr lin s) (pde_of s lin) (pte_addr lin (pde_of s lin)) (pte_of s lin) (access AND 1 \<noteq> 0) s1 = Some s' \<and>
    lin2phy_post lin access s (Inr ((pte_of s lin AND 0xfffff000) OR (lin AND 0xfff))) s'"
proof -
  define n where "n = (if access AND 1 \<noteq> 0 then pte_of s lin OR 0x60 else pte_of s lin OR 0x20)"
  have ph: "phys s1 = phys s" "cpu s1 = cpu s" "tlb_wf s1" using allocate_slot [OF wf(1)] combine_less by (simp_all add: s1)
  have ok: "ram32 (phys s) (pde_addr lin s)" "ram32 (phys s) (pte_addr lin (pde_of s lin))" using r b by (simp_all add: tables_in_ram_def)
  have nv: "n = pte_of s lin OR 0x20 \<or> n = pte_of s lin OR 0x60" by (simp add: n_def)
  obtain m where m: "mark_used gmi (pde_addr lin s) (pde_of s lin) (pte_addr lin (pde_of s lin)) (pte_of s lin) (access AND 1 \<noteq> 0) s1 = Some (s1\<lparr>phys := m\<rparr>)"
      "RAM.marked (phys s) m" "bit (peek32 m (pde_addr lin s)) 5" "bit (peek32 m (pte_addr lin (pde_of s lin))) 5"
      "bit n 6 \<longrightarrow> bit (peek32 m (pte_addr lin (pde_of s lin))) 6 \<or> self_mapped s lin"
    using RAM.mark_entries [OF ok, of n gmi] nv
    unfolding mark_used_phys ph n_def [symmetric] pde_of_def [of s, symmetric] pte_of_def [of s, symmetric] self_mapped_def by auto
  let ?s = "s1\<lparr>phys := m\<rparr>"
  have k: "RAM.marked (phys s) (phys ?s)" "cpu ?s = cpu s" using m(2) ph by simp_all
  note mt = marked_tables [OF k r]
  have pa: "pde_addr lin ?s = pde_addr lin s" using ph by (simp add: pde_addr_def)
  have u: "bit (pde_of ?s lin) 5" "bit (pte_of ?s lin) 5" "access AND 1 \<noteq> 0 \<longrightarrow> bit (pte_of ?s lin) 6 \<or> self_mapped s lin"
  proof -
    have d: "peek32 m (pde_addr lin s) = pde_of ?s lin" "peek32 m (pte_addr lin (pde_of s lin)) = pte_of ?s lin"
      using mt(7) by (simp_all add: pde_of_def pte_of_def pa)
    show "bit (pde_of ?s lin) 5" "bit (pte_of ?s lin) 5" using m(3,4) unfolding d .
    show "access AND 1 \<noteq> 0 \<longrightarrow> bit (pte_of ?s lin) 6 \<or> self_mapped s lin" using m(5) unfolding d by (auto simp: n_def bit_or_iff bit_numeral_rec)
  qed
  have "coherent ?s"
    by (rule fill_coherent [OF wf r b _ k(2) k(1) u(1,2), of "access AND 1 = 0"]) (use u(3) s1 in simp_all)
  moreover have "tlb_wf ?s" using ph(3) by (simp add: tlb_wf_def indexed_def)
  moreover have "translate s lin access = Inr ((pte_of s lin AND 0xfffff000) OR (lin AND 0xfff))" using b p by (simp add: translate_def)
  ultimately have "lin2phy_post lin access s (Inr ((pte_of s lin AND 0xfffff000) OR (lin AND 0xfff))) ?s"
    using k u access_odd [OF a] unfolding lin2phy_post_def by auto
  then show ?thesis using m(1) by blast
qed

lemma walk_post:
  assumes wf: "tlb_wf s" "coherent s" and r: "tables_in_ram s lin" and a: "access < 4"
  shows "\<exists>q s'. walk_fill gmi lin access s = Some (q, s') \<and> lin2phy_post lin access s q s'"
proof -
  have rd: "read_pe gmi (pde_addr lin s) s = Some (pde_of s lin, s)" using r by (simp add: RAM.rd read_pe_def pde_of_def tables_in_ram_def)
  show ?thesis
  proof (cases "bit (pde_of s lin) 0")
    case False
    then have "Inl (unat (push_bit 1 (of_nat access) :: IU16)) = translate s lin access" unfolding fault_code [OF a] by (simp add: translate_def)
    moreover have "pde_of s lin AND 1 = 0" using False low_two(4) by blast
    ultimately show ?thesis using fault_post [OF wf] rd unfolding walk_fill_def Let_def by simp
  next
    case True
    then have rt: "read_pe gmi (pte_addr lin (pde_of s lin)) s = Some (pte_of s lin, s)" using r by (simp add: RAM.rd read_pe_def pte_of_def tables_in_ram_def)
    have p: "pde_of s lin AND 1 \<noteq> 0" using True low_two(4) by blast
    show ?thesis
    proof (cases "bit (pte_of s lin) 0")
      case False
      then have "Inl (unat (push_bit 1 (of_nat access) :: IU16)) = translate s lin access" unfolding fault_code [OF a] by (simp add: translate_def)
      moreover have "pte_of s lin AND 1 = 0" using False low_two(4) by blast
      ultimately show ?thesis using fault_post [OF wf] rd rt p unfolding walk_fill_def Let_def by simp
    next
      case b: True
      have q: "pte_of s lin AND 1 \<noteq> 0" using b low_two(4) by blast
      show ?thesis
      proof (cases "permitted access (pde_of s lin) (pte_of s lin)")
        case False
        then have "Inl (unat (push_bit 1 (of_nat access) OR 1 :: IU16)) = translate s lin access" unfolding fault_code [OF a] using True b by (simp add: translate_def)
        then show ?thesis using fault_post [OF wf] rd rt p q False combine_permitted [OF a] unfolding walk_fill_def Let_def by simp
      next
        case pm: True
        show ?thesis using fill_post [OF wf r True b a pm refl, of gmi] rd rt p q pm combine_permitted [OF a] unfolding walk_fill_def Let_def by auto
      qed
    qed
  qed
qed

lemma lin2phy_ok:
  assumes wf: "tlb_wf s" "coherent s" and r: "tables_in_ram s lin" and a: "access < 4"
  shows "\<exists>q s'. lin2phy gmi lin access s = Some (q, s') \<and> lin2phy_post lin access s q s'"
proof (cases "fast_lookup lin access s = 0")
  case False
  then obtain i where "i < 4" "tlb_v (tlb s i (tlb_entry lin))" "tlb_la (tlb s i (tlb_entry lin)) = lin AND NOT 0xfff"
    "access AND 1 = 0 \<or> tlb_d (tlb s i (tlb_entry lin))" "\<not> access_check access (unat (tlb_mode (tlb s i (tlb_entry lin))))"
    "fast_lookup lin access s = tlb_pa (tlb s i (tlb_entry lin))" using fast_lookup_hit [OF wf(1) a] by blast
  then show ?thesis using hit_post [OF wf a _ refl] False by (auto simp: lin2phy_def)
next
  case True
  show ?thesis
  proof (cases "tlb_search s lin (access AND 1 = 0) [0..<4]")
    case None
    then show ?thesis using walk_post [OF wf r a] True by (simp add: lin2phy_def)
  next
    case (Some e)
    from tlb_search_hit [OF Some] obtain i where e: "i < 4" "e = tlb s i (tlb_entry lin)" "tlb_v e" "tlb_la e = lin AND NOT 0xfff" "access AND 1 = 0 \<or> tlb_d e"
      by auto
    have ag: "agrees s e" using wf(2) e(1,2,3) entry_part(2) unfolding coherent_def by blast
    show ?thesis
    proof (cases "access_check access (unat (tlb_mode e))")
      case chk: True
      have "Inl (unat (push_bit 1 (of_nat access) OR 1 :: IU16)) = translate s lin access" unfolding fault_code [OF a] using hit_translates [OF ag e(4) a] chk by simp
      then show ?thesis using fault_post [OF wf] True Some chk by (simp add: lin2phy_def)
    next
      case False
      then show ?thesis using hit_post [OF wf a e] True Some by (simp add: lin2phy_def)
    qed
  qed
qed

section \<open>Properties\<close>

lemma put32_peek32: "put32 (unat (a AND SasWrapMask m)) (peek32 m a) m = m"
proof -
  define p where "p = unat (a AND SasWrapMask m)"
  have "ucast (peek32 m a) = M_area m p" "ucast (drop_bit 8 (peek32 m a)) = M_area m (p + 1)" "ucast (drop_bit 16 (peek32 m a)) = M_area m (p + 2)"
    "ucast (drop_bit 24 (peek32 m a)) = M_area m (p + 3)"
    unfolding peek32_def Let_def p_def [symmetric] by (rule bit_word_eqI; auto simp: bit_simps dest: bit_imp_le_length)+
  then show ?thesis unfolding p_def [symmetric] put32_def by (simp add: fun_upd_idem)
qed

lemma put32_put32: "put32 p v (put32 p w m) = put32 p v m"
  by (simp add: put32_def fun_eq_iff)

lemma ram32_put32: "ram32 (put32 p v m) a = ram32 m a" "SasWrapMask (put32 p v m) = SasWrapMask m"
  by (simp_all add: ram32_def put32_def READ_SELF_MOD_def)

lemma write_changed_put32:
  assumes "ram32 m a"
  shows "(if v \<noteq> peek32 m a then phy_w32 gmi a v m else Some m) = Some (put32 (unat (a AND SasWrapMask m)) v m)"
  using ram32_write [OF assms] put32_peek32 [of a m] by auto

text \<open>
  The memory after a page has been used: the page entry is accessed and after a write dirty, the directory entry is accessed, and nothing
  else changes. Where the two are the same double word, the directory entry may have been stored last.
\<close>

definition page_used :: "IU32 \<Rightarrow> nat \<Rightarrow> 'v mmu \<Rightarrow> 'v sas \<Rightarrow> bool" where
  "page_used lin access s m \<longleftrightarrow>
     (let p = unat (pde_addr lin s AND SasWrapMask (phys s)); q = unat (pte_addr lin (pde_of s lin) AND SasWrapMask (phys s));
          pde = pde_of s lin OR 0x20; pte = pte_of s lin OR (if odd access then 0x60 else 0x20)
      in if self_mapped s lin then m = put32 p pde (phys s) \<or> m = put32 p pte (phys s) else m = put32 p pde (put32 q pte (phys s)))"

lemma or_bits:
  fixes x :: IU32
  shows "bit x 5 \<Longrightarrow> x OR 0x20 = x" "bit x 5 \<Longrightarrow> bit x 6 \<Longrightarrow> x OR 0x60 = x"
proof -
  have b: "bit (0x20 :: int) k \<longleftrightarrow> k = 5" "bit (0x60 :: int) k \<longleftrightarrow> k = 5 \<or> k = 6" for k by (auto simp: bit_numeral_rec bit_1_iff split: nat.splits)
  show "bit x 5 \<Longrightarrow> x OR 0x20 = x" "bit x 5 \<Longrightarrow> bit x 6 \<Longrightarrow> x OR 0x60 = x" by (rule bit_word_eqI; auto simp: bit_or_iff b)+
qed

lemma used_before:
  assumes "bit (pde_of s lin) 5" "bit (pte_of s lin) 5" "odd access \<longrightarrow> bit (pte_of s lin) 6 \<or> self_mapped s lin"
  shows "page_used lin access s (phys s)"
proof -
  have "put32 (unat (pde_addr lin s AND SasWrapMask (phys s))) (pde_of s lin) (phys s) = phys s"
    "put32 (unat (pte_addr lin (pde_of s lin) AND SasWrapMask (phys s))) (pte_of s lin) (phys s) = phys s"
    unfolding pde_of_def pte_of_def by (rule put32_peek32)+
  then show ?thesis using assms or_bits by (auto simp: page_used_def Let_def)
qed

lemma mark_used_exact:
  assumes r: "tables_in_ram s lin" "bit (pde_of s lin) 0" and s1: "phys s1 = phys s"
    and m: "mark_used gmi (pde_addr lin s) (pde_of s lin) (pte_addr lin (pde_of s lin)) (pte_of s lin) (odd access) s1 = Some s2"
  shows "page_used lin access s (phys s2)"
proof -
  let ?p = "pde_addr lin s" and ?q = "pte_addr lin (pde_of s lin)" and ?v = "pte_of s lin OR (if odd access then 0x60 else 0x20)"
  let ?m = "put32 (unat (?q AND SasWrapMask (phys s))) ?v (phys s)"
  have ok: "ram32 (phys s) ?p" "ram32 (phys s) ?q" using r by (simp_all add: tables_in_ram_def)
  have v: "(if odd access then pte_of s lin OR 0x60 else pte_of s lin OR 0x20) = ?v" by simp
  have 1: "(if ?v \<noteq> pte_of s lin then phy_w32 gmi ?q ?v (phys s) else Some (phys s)) = Some ?m"
    unfolding pte_of_def by (rule write_changed_put32 [OF ok(2)])
  have 2: "phys s2 = (if pde_of s lin OR 0x20 \<noteq> pde_of s lin then put32 (unat (?p AND SasWrapMask (phys s))) (pde_of s lin OR 0x20) ?m else ?m)"
    using m 1 ram32_write [of ?m ?p gmi "pde_of s lin OR 0x20"] ok(1) unfolding mark_used_phys s1 v by (auto simp: ram32_put32 split: if_splits)
  show ?thesis
  proof (cases "self_mapped s lin")
    case True
    then show ?thesis using 2 unfolding page_used_def Let_def self_mapped_def by (simp add: put32_put32)
  next
    case False
    have "peek32 ?m ?p = pde_of s lin" using peek32_put32 [OF ok(2,1)] False by (auto simp: self_mapped_def pde_of_def)
    then have "put32 (unat (?p AND SasWrapMask (phys s))) (pde_of s lin) ?m = ?m" using put32_peek32 [of ?p ?m] by (simp add: ram32_put32)
    then show ?thesis using 2 False by (auto simp: page_used_def Let_def)
  qed
qed

lemma held_used:
  assumes "coherent s" "access < 4" "i < 4" "e = tlb s i (tlb_entry lin)" "tlb_v e" "tlb_la e = lin AND NOT 0xfff" "access AND 1 = 0 \<or> tlb_d e"
  shows "agrees s e" "page_used lin access s (phys s)"
proof -
  show ag: "agrees s e" using assms(1,3-5) entry_part(2) unfolding coherent_def by blast
  show "page_used lin access s (phys s)"
    using ag assms(7) access_odd [OF assms(2)] unfolding agrees_def assms(6) same_page by (intro used_before) auto
qed

lemma read_entries:
  assumes "tables_in_ram s lin"
  shows "read_pe gmi (pde_addr lin s) s = Some (pde_of s lin, s)" "bit (pde_of s lin) 0 \<Longrightarrow> read_pe gmi (pte_addr lin (pde_of s lin)) s = Some (pte_of s lin, s)"
  using assms by (simp_all add: RAM.rd read_pe_def pde_of_def pte_of_def tables_in_ram_def)

lemma lin2phy_used:
  assumes wf: "tlb_wf s" "coherent s" "tables_in_ram s lin" "access < 4" and l: "lin2phy gmi lin access s = Some (Inr a, s')"
  shows "page_used lin access s (phys s')"
proof (cases "fast_lookup lin access s = 0")
  case False
  then have "s' = s" using l by (simp add: lin2phy_def)
  then show ?thesis using fast_lookup_hit [OF wf(1,4) False] held_used(2) [OF wf(2,4) _ refl] by metis
next
  case True
  show ?thesis
  proof (cases "tlb_search s lin (access AND 1 = 0) [0..<4]")
    case (Some e)
    then have "s' = s" using l True by (auto simp: lin2phy_def take_PF_def split: if_splits)
    then show ?thesis using tlb_search_hit [OF Some] held_used(2) [OF wf(2,4)] by auto
  next
    case None
    then have w: "walk_fill gmi lin access s = Some (Inr a, s')" using l True by (simp add: lin2phy_def)
    then have p: "bit (pde_of s lin) 0" "bit (pte_of s lin) 0"
      using read_entries [OF wf(3), of gmi] low_two(4) [of "pde_of s lin"] low_two(4) [of "pte_of s lin"]
      by (auto simp: walk_fill_def Let_def take_PF_def split: if_splits)
    have "mark_used gmi (pde_addr lin s) (pde_of s lin) (pte_addr lin (pde_of s lin)) (pte_of s lin) (odd access)
        (allocate lin (combine (pde_of s lin) (pte_of s lin)) (pte_of s lin) (even access) s) = Some s'"
      using w p read_entries [OF wf(3), of gmi] low_two(4) [of "pde_of s lin"] low_two(4) [of "pte_of s lin"] access_odd [OF wf(4)]
      by (auto simp: walk_fill_def Let_def take_PF_def split: if_splits bind_splits)
    then show ?thesis by (rule mark_used_exact [OF wf(3) p(1) allocate_slot(3) [OF wf(1)]])
  qed
qed

text \<open>
  C13. The translation of the CPU implements the page walk. With the buffer well formed and coherent with the
  page tables and the tables of the address in RAM, \<open>lin2phy\<close> returns, for every access (supervisor or user,
  read or write), exactly what walking the two levels of tables gives: the physical address, or a page fault
  with error code \<open>U/S W/R P\<close>. A fault changes nothing but \<open>CR2\<close>, which holds the faulting address. A success
  leaves the CPU alone, and physical memory changes in exactly this: the accessed bit of both entries is set and, for a write
  and for a write only, the dirty bit of the page entry; when the directory maps itself and the two entries are the
  same double word, the dirty bit may be lost. The buffer is well formed and coherent again,
  whether the answer came from the fast format, from the Intel format or from the tables.
\<close>

theorem lin2phy_translates:
  assumes "tlb_wf s" "coherent s" "tables_in_ram s lin" "access < 4"
  shows "\<exists>r s'. lin2phy gmi lin access s = Some (r, s') \<and> map_sum (\<lambda>pf. unat (fst pf)) id r = translate s lin access \<and> tlb_wf s' \<and> coherent s' \<and>
    (case r of Inl _ \<Rightarrow> s' = s\<lparr>cpu := SET_CR 2 lin (cpu s)\<rparr>
     | Inr _ \<Rightarrow> cpu s' = cpu s \<and> page_used lin access s (phys s') \<and>
         bit (pde_of s' lin) 5 \<and> bit (pte_of s' lin) 5 \<and> (odd access \<longrightarrow> bit (pte_of s' lin) 6 \<or> self_mapped s lin))"
proof -
  obtain r s' where rs: "lin2phy gmi lin access s = Some (r, s')" "lin2phy_post lin access s r s'" using lin2phy_ok [OF assms] by blast
  then have "page_used lin access s (phys s')" if "r = Inr a" for a using lin2phy_used [OF assms] that by blast
  then show ?thesis by (intro exI [of _ r] exI [of _ s']) (use rs in \<open>auto simp: lin2phy_post_def split: sum.split\<close>)
qed

text \<open>
  A machine with 16K of RAM: the directory at 0x1000 maps its first entry to the table at 0x2000, whose entry 5
  maps linear page 5 to physical page 3, for a user, read only. The CPU state is arbitrary but for \<open>CR3\<close>.
\<close>

definition demo_mem :: "IU32 \<Rightarrow> IU32 \<Rightarrow> nat \<Rightarrow> IU8" where
  "demo_mem pde pte = (\<lambda>_. 0)(0x1000 := ucast pde, 0x1001 := ucast (drop_bit 8 pde), 0x2014 := ucast pte, 0x2015 := ucast (drop_bit 8 pte))"

definition demo_mmu :: "IU32 \<Rightarrow> IU32 \<Rightarrow> ccpu \<Rightarrow> unit mmu" where
  "demo_mmu pde pte c =
     \<lparr>tlb = (\<lambda>_ _. \<lparr>tlb_la = 0, tlb_pa = 0, tlb_v = False, tlb_d = False, tlb_mode = 0\<rparr>), next_set = (\<lambda>_. 0), page_index = (\<lambda>_. 0),
      page_address = (\<lambda>_. 0), CCPU_TR = (\<lambda>_. 0), cpu = SET_CR 3 0x1000 c,
      phys = \<lparr>M_area = demo_mem pde pte, Length_of_M_area = 0x4000, memory_type = (\<lambda>_. SAS_RAM), SasWrapMask = 0xffffffff, junk_value = 0, video = ()\<rparr>\<rparr>"

lemma demo_wf: "tlb_wf (demo_mmu pde pte c)" "coherent (demo_mmu pde pte c)"
  by (simp_all add: tlb_wf_def coherent_def demo_mmu_def entry_ok_def)

lemma demo_pde_addr: "pde_addr 0x5123 (demo_mmu pde pte c) = 0x1000"
  by (simp add: pde_addr_def demo_mmu_def SET_CR_def)

lemma demo_tables:
  "pde_of (demo_mmu 0x2007 0x3005 c) 0x5123 = 0x2007" "pte_of (demo_mmu 0x2007 0x3005 c) 0x5123 = 0x3005"
  "tables_in_ram (demo_mmu 0x2007 0x3005 c) 0x5123"
  "pde_of (demo_mmu 0x2003 0x3005 c) 0x5123 = 0x2003" "pte_of (demo_mmu 0x2003 0x3005 c) 0x5123 = 0x3005"
  "tables_in_ram (demo_mmu 0x2003 0x3005 c) 0x5123"
proof -
  show a: "pde_of (demo_mmu 0x2007 0x3005 c) 0x5123 = 0x2007" "pde_of (demo_mmu 0x2003 0x3005 c) 0x5123 = 0x2003"
    unfolding pde_of_def demo_pde_addr by (simp_all add: peek32_def demo_mmu_def demo_mem_def)
  then show "pte_of (demo_mmu 0x2007 0x3005 c) 0x5123 = 0x3005" "pte_of (demo_mmu 0x2003 0x3005 c) 0x5123 = 0x3005"
    by (simp_all add: pte_of_def pte_addr_def) (simp_all add: peek32_def demo_mmu_def demo_mem_def)
  show "tables_in_ram (demo_mmu 0x2007 0x3005 c) 0x5123" "tables_in_ram (demo_mmu 0x2003 0x3005 c) 0x5123"
    unfolding tables_in_ram_def demo_pde_addr a by (simp_all add: pte_addr_def) (simp_all add: ram32_def demo_mmu_def READ_SELF_MOD_def)
qed

lemma demo_translate:
  "translate (demo_mmu 0x2007 0x3005 c) 0x5123 2 = Inr 0x3123" "translate (demo_mmu 0x2007 0x3005 c) 0x5123 3 = Inl 7"
  "translate (demo_mmu 0x2003 0x3005 c) 0x5123 2 = Inl 5"
  by (simp_all add: translate_def demo_tables permitted_def bit_numeral_rec)

theorem lin2phy_translates_witness:
  "\<forall>gmi c. (\<exists>s'. lin2phy gmi 0x5123 2 (demo_mmu 0x2007 0x3005 c) = Some (Inr 0x3123, s') \<and> bit (pte_of s' 0x5123) 5 \<and> tlb_wf s' \<and> coherent s') \<and>
    (\<exists>x. lin2phy gmi 0x5123 3 (demo_mmu 0x2007 0x3005 c) = Some (Inl (7, x), (demo_mmu 0x2007 0x3005 c)\<lparr>cpu := SET_CR 2 0x5123 (cpu (demo_mmu 0x2007 0x3005 c))\<rparr>))"
proof (intro allI conjI)
  fix gmi :: "unit gmi" and c
  let ?s = "demo_mmu 0x2007 0x3005 c"
  have a: "(2 :: nat) < 4" "(3 :: nat) < 4" by simp_all
  obtain r s' where r: "lin2phy gmi 0x5123 2 ?s = Some (r, s')" "map_sum (\<lambda>pf. unat (fst pf)) id r = Inr 0x3123" "tlb_wf s'" "coherent s'"
      "case r of Inl _ \<Rightarrow> True | Inr _ \<Rightarrow> bit (pte_of s' 0x5123) 5"
    using lin2phy_translates [OF demo_wf demo_tables(3) a(1), of gmi c] unfolding demo_translate
    by (elim exE) (rename_tac r s', case_tac r; fastforce)
  then show "\<exists>s'. lin2phy gmi 0x5123 2 ?s = Some (Inr 0x3123, s') \<and> bit (pte_of s' 0x5123) 5 \<and> tlb_wf s' \<and> coherent s'" by (cases r) auto
  obtain r s' where r: "lin2phy gmi 0x5123 3 ?s = Some (r, s')" "map_sum (\<lambda>pf. unat (fst pf)) id r = Inl 7"
      "case r of Inl _ \<Rightarrow> s' = ?s\<lparr>cpu := SET_CR 2 0x5123 (cpu ?s)\<rparr> | Inr _ \<Rightarrow> True"
    using lin2phy_translates [OF demo_wf demo_tables(3) a(2), of gmi c] unfolding demo_translate
    by (elim exE) (rename_tac r s', case_tac r; fastforce)
  then show "\<exists>x. lin2phy gmi 0x5123 3 ?s = Some (Inl (7, x), ?s\<lparr>cpu := SET_CR 2 0x5123 (cpu ?s)\<rparr>)"
    by (cases r) (auto simp: word_unat_eq_iff)
qed

text \<open>
  C23. The buffer stays well formed (the fast format only names valid entries of the Intel format, holds exactly
  the translations these admit, and the round robin pointers stay in range) under every operation: a translation
  from any well formed state, whatever the page tables hold, the flush, and the test registers. After a flush
  the buffer is empty, in both formats, so that it is coherent with every page table that a new \<open>CR3\<close> and new
  memory contents may give.
\<close>

theorem tlb_stays_well_formed:
  assumes "tlb_wf s"
  shows "(lin2phy gmi lin access s = Some (r, s') \<longrightarrow> tlb_wf s') \<and> tlb_wf (test_tlb s) \<and> tlb_wf (flush_tlb s) \<and>
    (\<forall>i < 4. \<forall>j < 8. \<not> tlb_v (tlb (flush_tlb s) i j)) \<and> (\<forall>p. page_index (flush_tlb s) p = 0) \<and>
    (\<forall>c m. coherent ((flush_tlb s)\<lparr>cpu := c, phys := m\<rparr>))"
proof (intro conjI impI)
  have cp: "tlb_wf (t\<lparr>cpu := c\<rparr>)" "tlb_wf (t\<lparr>phys := m\<rparr>)" if "tlb_wf t" for t :: "'a mmu" and c m using that by (simp_all add: tlb_wf_def indexed_def)
  have wr: "tlb_wf t'" if "write_pe gmi a v t = Some t'" "tlb_wf t" for a v and t t' :: "'a mmu" using that cp by (auto simp: write_pe_def split: bind_splits)
  have mk: "tlb_wf t'" if "mark_used gmi p d q x y t = Some t'" "tlb_wf t" for p d q x y and t t' :: "'a mmu"
    using that wr by (auto simp: mark_used_def Let_def split: bind_splits if_splits)
  have al: "tlb_wf (allocate lin (combine d x) x y t)" if "tlb_wf t" for d x y and t :: "'a mmu" using allocate_slot(4) [OF that combine_less] .
  assume "lin2phy gmi lin access s = Some (r, s')"
  then show "tlb_wf s'" using assms cp
    by (auto simp: lin2phy_def walk_fill_def read_pe_def take_PF_def Let_def split: if_splits option.splits bind_splits prod.splits dest!: mk intro!: al)
next
  show "\<forall>c m. coherent ((flush_tlb s)\<lparr>cpu := c, phys := m\<rparr>)" using flush_tlb_ok(2) [OF assms] by (simp add: coherent_def)
qed (use flush_tlb_ok [OF assms] test_tlb_ok [OF assms] in blast)+

theorem tlb_stays_well_formed_witness:
  "\<forall>c. tlb_wf (flush_tlb (demo_mmu 0x2007 0x3005 c)) \<and> tlb_wf (test_tlb (demo_mmu 0x2007 0x3005 c)) \<and> page_index (flush_tlb (demo_mmu 0x2007 0x3005 c)) 5 = 0"
  using tlb_stays_well_formed [OF demo_wf(1)] by blast

section \<open>Accesses of the rest of the machine\<close>












end
