(* ===== verification/Ccpu_Debug.thy ===== *)
theory Ccpu_Debug
  imports Ccpu_State
begin

text \<open>
  The debug registers (\<open>ccpu386/c_debug.c\<close>): the breakpoints of the control register are put into two tables of active
  instruction and data breakpoints, against which every fetch and every operand access is checked; a hit sets bits
  of the status register. Of a state of the tables only the first \<open>nr_inst_break\<close> and \<open>nr_data_break\<close> slots are in use.
\<close>

section \<open>State\<close>

record INST_BREAK =
  ib_addr :: IU32
  ib_id :: nat

record DATA_BREAK =
  start_addr :: IU32
  end_addr :: IU32
  db_type :: nat
  db_id :: nat

record ccpu_debug =
  CCPU_DR :: "nat \<Rightarrow> IU32"
  nr_inst_break :: nat
  nr_data_break :: nat
  i_brk :: "nat \<Rightarrow> INST_BREAK"
  d_brk :: "nat \<Rightarrow> DATA_BREAK"

abbreviation (input) D_WO :: nat where "D_WO \<equiv> 0"
abbreviation (input) D_RW :: nat where "D_RW \<equiv> 1"
abbreviation (input) D_R :: nat where "D_R \<equiv> 0"
abbreviation (input) D_W :: nat where "D_W \<equiv> 1"

definition g_l_shift :: "nat \<Rightarrow> nat" where "g_l_shift i = [0, 2, 4, 6] ! i"
definition r_w_shift :: "nat \<Rightarrow> nat" where "r_w_shift i = [16, 20, 24, 28] ! i"
definition len_shift :: "nat \<Rightarrow> nat" where "len_shift i = [18, 22, 26, 30] ! i"

definition DCR_field :: "(nat \<Rightarrow> nat) \<Rightarrow> nat \<Rightarrow> ccpu_debug \<Rightarrow> IU32" where
  "DCR_field shift i s = drop_bit (shift i) (CCPU_DR s 7) AND 3"

section \<open>Operations\<close>

definition len_to_addr :: "nat \<Rightarrow> ccpu_debug \<Rightarrow> (IU32 \<times> IU32) option" where
  "len_to_addr i s =
     (let len = DCR_field len_shift i s; a = CCPU_DR s i
      in if len = 0 then Some (a, a)
         else if len = 1 then Some (a AND NOT 1, (a AND NOT 1) + 1)
         else if len = 3 then Some (a AND NOT (2 OR 1), (a AND NOT (2 OR 1)) + 3)
         else None)"

definition setup_inst_break :: "nat \<Rightarrow> ccpu_debug \<Rightarrow> ccpu_debug" where
  "setup_inst_break i s =
     s\<lparr>i_brk := (i_brk s)(nr_inst_break s := \<lparr>ib_addr = CCPU_DR s i, ib_id = i\<rparr>), nr_inst_break := nr_inst_break s + 1\<rparr>"

definition setup_data_break :: "nat \<Rightarrow> nat \<Rightarrow> ccpu_debug \<Rightarrow> ccpu_debug" where
  "setup_data_break type i s =
     (case len_to_addr i s of None \<Rightarrow> s
      | Some (a, b) \<Rightarrow> s\<lparr>d_brk := (d_brk s)(nr_data_break s := \<lparr>start_addr = a, end_addr = b, db_type = type, db_id = i\<rparr>),
                         nr_data_break := nr_data_break s + 1\<rparr>)"

definition setup_break :: "nat \<Rightarrow> ccpu_debug \<Rightarrow> ccpu_debug" where
  "setup_break i s =
     (if DCR_field g_l_shift i s \<noteq> 0
      then (let rw = DCR_field r_w_shift i s
            in if rw = 0 then setup_inst_break i s
               else if rw = 1 then setup_data_break D_WO i s
               else if rw = 2 then s
               else setup_data_break D_RW i s)
      else s)"

definition setup_breakpoints :: "ccpu_debug \<Rightarrow> ccpu_debug" where
  "setup_breakpoints s = fold setup_break [0..<4] (s\<lparr>nr_inst_break := 0, nr_data_break := 0\<rparr>)"

definition set_B :: "nat \<Rightarrow> ccpu_debug \<Rightarrow> ccpu_debug" where
  "set_B i s = s\<lparr>CCPU_DR := (CCPU_DR s)(6 := CCPU_DR s 6 OR push_bit i 1)\<rparr>"

definition check_other :: "nat \<Rightarrow> IU32 \<Rightarrow> IU32 \<Rightarrow> nat \<Rightarrow> nat \<Rightarrow> ccpu_debug \<Rightarrow> ccpu_debug" where
  "check_other trig la end_la attr ii s =
     (if ii = trig then s
      else (let rw = DCR_field r_w_shift ii s;
                range = (if rw = 1 then (if attr = D_W then len_to_addr ii s else None)
                         else if rw = 3 then len_to_addr ii s else None)
            in case range of None \<Rightarrow> s
               | Some (a, b) \<Rightarrow> (if b < la \<or> end_la < a then s else set_B ii s)))"

definition check_for_data_exception :: "IU32 \<Rightarrow> nat \<Rightarrow> IU32 \<Rightarrow> ccpu_debug \<Rightarrow> ccpu_debug" where
  "check_for_data_exception la attr sz s =
     (let end_la = la + sz
      in case find (\<lambda>p. \<not> (end_addr p < la \<or> end_la < start_addr p \<or> attr = D_R \<and> db_type p = D_WO)) (map (d_brk s) [0..<nr_data_break s]) of
          None \<Rightarrow> s
        | Some p \<Rightarrow> fold (check_other (db_id p) la end_la attr) [0..<4] (set_B (db_id p) s))"

definition check_inst :: "IU32 \<Rightarrow> nat \<Rightarrow> ccpu_debug \<Rightarrow> ccpu_debug" where
  "check_inst la i s = (if ib_addr (i_brk s i) = la then set_B (ib_id (i_brk s i)) s else s)"

definition check_for_inst_exception :: "IU32 \<Rightarrow> ccpu_debug \<Rightarrow> ccpu_debug" where
  "check_for_inst_exception la s = fold (check_inst la) [0..<nr_inst_break s] s"

section \<open>Snapshot\<close>

record softpc_ccpu_debug_state =
  instruction_break_count :: nat
  data_break_count :: nat
  instruction_breaks :: "nat \<Rightarrow> INST_BREAK"
  data_breaks :: "nat \<Rightarrow> DATA_BREAK"

definition softpc_ccpu_snapshot_capture_debug :: "ccpu_debug \<Rightarrow> softpc_ccpu_debug_state" where
  "softpc_ccpu_snapshot_capture_debug s =
     \<lparr>instruction_break_count = nr_inst_break s, data_break_count = nr_data_break s, instruction_breaks = i_brk s, data_breaks = d_brk s\<rparr>"

definition softpc_ccpu_snapshot_restore_debug :: "softpc_ccpu_debug_state \<Rightarrow> ccpu_debug \<Rightarrow> bool \<times> ccpu_debug" where
  "softpc_ccpu_snapshot_restore_debug st s =
     (if 4 < instruction_break_count st \<or> 4 < data_break_count st then (False, s)
      else (True, s\<lparr>nr_inst_break := instruction_break_count st, nr_data_break := data_break_count st,
              i_brk := (\<lambda>i. if i < 4 then instruction_breaks st i else i_brk s i),
              d_brk := (\<lambda>i. if i < 4 then data_breaks st i else d_brk s i)\<rparr>))"

section \<open>Correctness\<close>

text \<open>
  What the registers mean: breakpoint \<open>i\<close> is enabled by its global or local bit, it watches an access by its type, and
  it covers the bytes of its length from its aligned address on.
\<close>

definition enabled :: "ccpu_debug \<Rightarrow> nat \<Rightarrow> bool" where
  "enabled s i \<longleftrightarrow> bit (CCPU_DR s 7) (2 * i) \<or> bit (CCPU_DR s 7) (2 * i + 1)"

definition bp_type :: "ccpu_debug \<Rightarrow> nat \<Rightarrow> nat" where
  "bp_type s i = unat (drop_bit (16 + 4 * i) (CCPU_DR s 7) AND 3)"

definition bp_bytes :: "ccpu_debug \<Rightarrow> nat \<Rightarrow> nat set" where
  "bp_bytes s i =
     (let len = unat (drop_bit (18 + 4 * i) (CCPU_DR s 7) AND 3); a = unat (CCPU_DR s i)
      in if len = 2 then {} else {a - a mod (len + 1)..a - a mod (len + 1) + len})"

definition watches :: "ccpu_debug \<Rightarrow> nat \<Rightarrow> nat \<Rightarrow> nat set \<Rightarrow> bool" where
  "watches s i attr A \<longleftrightarrow> (bp_type s i = 3 \<or> bp_type s i = 1 \<and> attr = D_W) \<and> bp_bytes s i \<inter> A \<noteq> {}"

lemma unat_and_not_mask: "unat (a AND NOT (mask n) :: IU32) = unat a - unat a mod 2 ^ n"
proof -
  have "a AND NOT (mask n) = push_bit n (drop_bit n a)" by (rule bit_word_eqI) (auto simp: bit_simps)
  moreover have "push_bit n (drop_bit n (unat a)) = unat a - unat a mod 2 ^ n"
    by (simp add: push_bit_eq_mult drop_bit_eq_div minus_mod_eq_div_mult)
  moreover have "unat a - unat a mod 2 ^ n < 2 ^ 32" using unsigned_less [of a, where ?'a = nat] by simp
  moreover have "take_bit 32 (unat a) = unat a" using unsigned_less [of a, where ?'a = nat] by (simp add: take_bit_nat_eq_self)
  ultimately show ?thesis by (simp add: unsigned_push_bit_eq unsigned_drop_bit_eq take_bit_nat_eq_self)
qed

definition hits :: "ccpu_debug \<Rightarrow> IU32 \<Rightarrow> IU32 \<Rightarrow> nat \<Rightarrow> nat \<Rightarrow> bool" where
  "hits s la end_la attr i \<longleftrightarrow>
     (DCR_field r_w_shift i s = 1 \<and> attr = D_W \<or> DCR_field r_w_shift i s = 3) \<and>
     (\<exists>a b. len_to_addr i s = Some (a, b) \<and> \<not> (b < la \<or> end_la < a))"

lemma three_values: "(x AND 3 :: IU32) \<in> {0, 1, 2, 3}"
proof -
  define v where "v = x AND 3"
  have "x AND 3 = x AND mask 2" by (simp add: mask_eq_exp_minus_1)
  then have "unat v = unat x mod 2 ^ 2" unfolding v_def by (simp only: unat_and_mask)
  then have "unat v < 4" by simp
  then have "unat v = unat (0 :: IU32) \<or> unat v = unat (1 :: IU32) \<or> unat v = unat (2 :: IU32) \<or> unat v = unat (3 :: IU32)" by auto
  then show ?thesis unfolding v_def [symmetric] by (metis insertCI unsigned_word_eqI)
qed

lemma four: "i < 4 \<longleftrightarrow> i = 0 \<or> i = 1 \<or> i = 2 \<or> i = (3 :: nat)"
  by auto

lemma fields:
  assumes "i < 4"
  shows "DCR_field r_w_shift i s = drop_bit (16 + 4 * i) (CCPU_DR s 7) AND 3" "DCR_field len_shift i s = drop_bit (18 + 4 * i) (CCPU_DR s 7) AND 3"
    "DCR_field g_l_shift i s \<noteq> 0 \<longleftrightarrow> enabled s i"
proof -
  show "DCR_field r_w_shift i s = drop_bit (16 + 4 * i) (CCPU_DR s 7) AND 3" "DCR_field len_shift i s = drop_bit (18 + 4 * i) (CCPU_DR s 7) AND 3"
    using assms unfolding four by (auto simp: DCR_field_def r_w_shift_def len_shift_def)
  have g: "DCR_field g_l_shift i s = take_bit 2 (drop_bit (2 * i) (CCPU_DR s 7))"
    using assms unfolding four by (auto simp: DCR_field_def g_l_shift_def take_bit_eq_mask mask_eq_exp_minus_1)
  have "take_bit 2 x = 0 \<longleftrightarrow> \<not> bit x 0 \<and> \<not> bit x 1" for x :: IU32
  proof -
    have "take_bit 2 x = 0 \<longleftrightarrow> (\<forall>n. \<not> bit (take_bit 2 x) n)" by (metis bit_0_eq bit_eqI bot_apply bot_bool_def)
    then show ?thesis unfolding bit_take_bit_iff less_2_cases_iff by auto
  qed
  then show "DCR_field g_l_shift i s \<noteq> 0 \<longleftrightarrow> enabled s i" unfolding g enabled_def by (simp add: bit_drop_bit_eq)
qed

lemma range_bytes:
  assumes "i < 4"
  shows "case len_to_addr i s of None \<Rightarrow> bp_bytes s i = {} | Some (a, b) \<Rightarrow> bp_bytes s i = {unat a..unat b} \<and> unat a \<le> unat b"
proof -
  let ?len = "DCR_field len_shift i s" and ?a = "CCPU_DR s i"
  have u: "unat ?a < 2 ^ 32" using unsigned_less [of ?a, where ?'a = nat] by simp
  have m: "NOT 1 = NOT (mask 1 :: IU32)" "NOT (2 OR 1) = NOT (mask 2 :: IU32)" by (simp_all add: mask_eq_exp_minus_1)
  have "unat ?a - unat ?a mod 2 = 2 * (unat ?a div 2)" "unat ?a - unat ?a mod 4 = 4 * (unat ?a div 4)"
    by (simp_all add: minus_mod_eq_mult_div)
  then have w: "unat ?a - unat ?a mod 2 + 1 < 2 ^ 32" "unat ?a - unat ?a mod 4 + 3 < 2 ^ 32" using u by (simp_all, presburger+)
  have s: "unat (x + y) = unat x + unat y" if "unat x + unat y < 2 ^ 32" for x y :: IU32 using that by (simp add: unat_word_ariths)
  have p: "unat ((?a AND NOT (mask 1)) + 1) = unat ?a - unat ?a mod 2 + 1" "unat ((?a AND NOT (mask 2)) + 3) = unat ?a - unat ?a mod 4 + 3"
    using s [of "?a AND NOT (mask 1)" 1] s [of "?a AND NOT (mask 2)" 3] w unfolding unat_and_not_mask by simp_all
  have "?len \<in> {0, 1, 2, 3}" unfolding fields(2) [OF assms] by (rule three_values)
  then show ?thesis unfolding len_to_addr_def bp_bytes_def fields(2) [OF assms, symmetric] Let_def m
    using p unat_and_not_mask [of ?a 1] unat_and_not_mask [of ?a 2] by (auto simp: numeral_2_eq_2 [symmetric] intro: diff_le_mono)
qed

lemma hits_watches:
  assumes "i < 4" "unat la + unat sz < 2 ^ 32"
  shows "hits s la (la + sz) attr i \<longleftrightarrow> watches s i attr {unat la..unat la + unat sz}"
proof -
  have e: "unat (la + sz) = unat la + unat sz" using assms(2) by (simp add: unat_word_ariths)
  have "DCR_field r_w_shift i s \<in> {0, 1, 2, 3}" unfolding fields(1) [OF assms(1)] by (rule three_values)
  then have t: "DCR_field r_w_shift i s = 1 \<and> attr = D_W \<or> DCR_field r_w_shift i s = 3 \<longleftrightarrow> bp_type s i = 3 \<or> bp_type s i = 1 \<and> attr = D_W"
    unfolding bp_type_def fields(1) [OF assms(1), symmetric] by auto
  show ?thesis
  proof (cases "len_to_addr i s")
    case None
    then show ?thesis using range_bytes [OF assms(1), of s] by (simp add: hits_def watches_def)
  next
    case (Some r)
    obtain a b where r: "r = (a, b)" by (cases r)
    have "bp_bytes s i = {unat a..unat b}" "unat a \<le> unat b" using range_bytes [OF assms(1), of s] Some r by simp_all
    then show ?thesis unfolding hits_def watches_def t Some r by (auto simp: word_less_nat_alt e)
  qed
qed

text \<open>The active breakpoints as lists, and what \<open>setup_breakpoints\<close> puts there for each register.\<close>

definition data_table :: "ccpu_debug \<Rightarrow> DATA_BREAK list" where
  "data_table s = map (d_brk s) [0..<nr_data_break s]"

definition inst_table :: "ccpu_debug \<Rightarrow> INST_BREAK list" where
  "inst_table s = map (i_brk s) [0..<nr_inst_break s]"

definition data_slot :: "ccpu_debug \<Rightarrow> nat \<Rightarrow> DATA_BREAK list" where
  "data_slot s i =
     (if DCR_field g_l_shift i s \<noteq> 0 \<and> (DCR_field r_w_shift i s = 1 \<or> DCR_field r_w_shift i s = 3)
      then (case len_to_addr i s of None \<Rightarrow> []
            | Some (a, b) \<Rightarrow> [\<lparr>start_addr = a, end_addr = b, db_type = (if DCR_field r_w_shift i s = 1 then D_WO else D_RW), db_id = i\<rparr>])
      else [])"

definition inst_slot :: "ccpu_debug \<Rightarrow> nat \<Rightarrow> INST_BREAK list" where
  "inst_slot s i = (if DCR_field g_l_shift i s \<noteq> 0 \<and> DCR_field r_w_shift i s = 0 then [\<lparr>ib_addr = CCPU_DR s i, ib_id = i\<rparr>] else [])"

lemma same_registers:
  assumes "CCPU_DR s' = CCPU_DR s"
  shows "DCR_field f i s' = DCR_field f i s" "len_to_addr i s' = len_to_addr i s" "data_slot s' i = data_slot s i" "inst_slot s' i = inst_slot s i"
  using assms by (simp_all add: DCR_field_def len_to_addr_def data_slot_def inst_slot_def)

lemma setup_break_tables:
  assumes "i < 4"
  shows "CCPU_DR (setup_break i s) = CCPU_DR s \<and> data_table (setup_break i s) = data_table s @ data_slot s i \<and>
    inst_table (setup_break i s) = inst_table s @ inst_slot s i"
proof -
  have "DCR_field r_w_shift i s \<in> {0, 1, 2, 3}" unfolding fields(1) [OF assms] by (rule three_values)
  then show ?thesis
    by (auto simp: setup_break_def setup_inst_break_def setup_data_break_def data_slot_def inst_slot_def data_table_def inst_table_def split: option.split)
qed

lemma setup_fold_tables:
  assumes "\<forall>i \<in> set is. i < 4"
  shows "CCPU_DR (fold setup_break is s) = CCPU_DR s \<and> data_table (fold setup_break is s) = data_table s @ concat (map (data_slot s) is) \<and>
    inst_table (fold setup_break is s) = inst_table s @ concat (map (inst_slot s) is)"
  using assms
proof (induction "is" arbitrary: s)
  case (Cons i "is")
  have s: "CCPU_DR (setup_break i s) = CCPU_DR s" "data_table (setup_break i s) = data_table s @ data_slot s i" "inst_table (setup_break i s) = inst_table s @ inst_slot s i"
    using setup_break_tables [of i s] Cons.prems by auto
  have f: "data_slot (setup_break i s) = data_slot s" "inst_slot (setup_break i s) = inst_slot s" using same_registers [OF s(1)] by auto
  show ?case using Cons.IH [of "setup_break i s"] Cons.prems s f by simp
qed simp

lemma setup_tables:
  "CCPU_DR (setup_breakpoints s) = CCPU_DR s"
  "data_table (setup_breakpoints s) = concat (map (data_slot s) [0..<4])"
  "inst_table (setup_breakpoints s) = concat (map (inst_slot s) [0..<4])"
proof -
  let ?s = "s\<lparr>nr_inst_break := 0, nr_data_break := 0\<rparr>"
  have "data_slot ?s = data_slot s" "inst_slot ?s = inst_slot s" using same_registers [of ?s s] by auto
  then show "CCPU_DR (setup_breakpoints s) = CCPU_DR s" "data_table (setup_breakpoints s) = concat (map (data_slot s) [0..<4])"
      "inst_table (setup_breakpoints s) = concat (map (inst_slot s) [0..<4])"
    using setup_fold_tables [of "[0..<4]" ?s] by (simp_all add: setup_breakpoints_def data_table_def inst_table_def)
qed

text \<open>Setting bits of the status register.\<close>

definition set_bits :: "nat set \<Rightarrow> ccpu_debug \<Rightarrow> ccpu_debug \<Rightarrow> bool" where
  "set_bits B s s' \<longleftrightarrow> (\<exists>v. s' = s\<lparr>CCPU_DR := (CCPU_DR s)(6 := v)\<rparr> \<and> (\<forall>n < 32. bit v n \<longleftrightarrow> bit (CCPU_DR s 6) n \<or> n \<in> B))"

lemma set_bits_refl: "set_bits {} s s"
  unfolding set_bits_def by (rule exI [of _ "CCPU_DR s 6"]) simp

lemma set_bits_B: "set_bits {i} s (set_B i s)"
  unfolding set_bits_def set_B_def by (rule exI [of _ "CCPU_DR s 6 OR push_bit i 1"]) (auto simp: bit_or_iff bit_exp_iff)

lemma set_bits_trans:
  assumes "set_bits A s t" "set_bits B t u" shows "set_bits (A \<union> B) s u"
proof -
  obtain v where v: "t = s\<lparr>CCPU_DR := (CCPU_DR s)(6 := v)\<rparr>" "\<forall>n < 32. bit v n \<longleftrightarrow> bit (CCPU_DR s 6) n \<or> n \<in> A" using assms(1) by (auto simp: set_bits_def)
  obtain w where w: "u = t\<lparr>CCPU_DR := (CCPU_DR t)(6 := w)\<rparr>" "\<forall>n < 32. bit w n \<longleftrightarrow> bit (CCPU_DR t 6) n \<or> n \<in> B" using assms(2) by (auto simp: set_bits_def)
  show ?thesis unfolding set_bits_def using v w by (intro exI [of _ w]) auto
qed

lemma set_bits_hits:
  assumes "set_bits B s t" "i < 4" shows "hits t la e attr i = hits s la e attr i"
proof -
  obtain v where "t = s\<lparr>CCPU_DR := (CCPU_DR s)(6 := v)\<rparr>" using assms(1) by (auto simp: set_bits_def)
  then show ?thesis using assms(2) by (simp add: hits_def DCR_field_def len_to_addr_def)
qed

lemma check_other_bits: "set_bits (if ii \<noteq> trig \<and> hits s la e attr ii then {ii} else {}) s (check_other trig la e attr ii s)"
proof -
  have "check_other trig la e attr ii s = (if ii \<noteq> trig \<and> hits s la e attr ii then set_B ii s else s)"
    by (auto simp: check_other_def Let_def hits_def split: option.split)
  then show ?thesis using set_bits_refl set_bits_B by simp
qed

lemma check_fold_bits:
  assumes "\<forall>i \<in> set is. i < 4"
  shows "set_bits {i \<in> set is. i \<noteq> trig \<and> hits s la e attr i} s (fold (check_other trig la e attr) is s)"
  using assms
proof (induction "is" arbitrary: s)
  case (Cons i "is")
  let ?t = "check_other trig la e attr i s"
  have t: "set_bits (if i \<noteq> trig \<and> hits s la e attr i then {i} else {}) s ?t" by (rule check_other_bits)
  have "set_bits {j \<in> set is. j \<noteq> trig \<and> hits ?t la e attr j} ?t (fold (check_other trig la e attr) is ?t)" using Cons by simp
  moreover have "{j \<in> set is. j \<noteq> trig \<and> hits ?t la e attr j} = {j \<in> set is. j \<noteq> trig \<and> hits s la e attr j}"
    using set_bits_hits [OF t] Cons.prems by auto
  ultimately have "set_bits ((if i \<noteq> trig \<and> hits s la e attr i then {i} else {}) \<union> {j \<in> set is. j \<noteq> trig \<and> hits s la e attr j}) s (fold (check_other trig la e attr) (i # is) s)"
    using set_bits_trans [OF t] by simp
  moreover have "(if i \<noteq> trig \<and> hits s la e attr i then {i} else {}) \<union> {j \<in> set is. j \<noteq> trig \<and> hits s la e attr j} = {j \<in> set (i # is). j \<noteq> trig \<and> hits s la e attr j}" by auto
  ultimately show ?case by simp
qed (simp add: set_bits_refl)

abbreviation triggers :: "IU32 \<Rightarrow> IU32 \<Rightarrow> nat \<Rightarrow> DATA_BREAK \<Rightarrow> bool" where
  "triggers la e attr p \<equiv> \<not> (end_addr p < la \<or> e < start_addr p \<or> attr = D_R \<and> db_type p = D_WO)"

lemma data_slot_cases:
  obtains "data_slot s i = []" "\<And>la e attr. \<not> (DCR_field g_l_shift i s \<noteq> 0 \<and> hits s la e attr i)"
  | a b where "data_slot s i = [\<lparr>start_addr = a, end_addr = b, db_type = (if DCR_field r_w_shift i s = 1 then D_WO else D_RW), db_id = i\<rparr>]"
      "len_to_addr i s = Some (a, b)" "DCR_field g_l_shift i s \<noteq> 0" "DCR_field r_w_shift i s = 1 \<or> DCR_field r_w_shift i s = 3"
proof (cases "DCR_field g_l_shift i s \<noteq> 0 \<and> (DCR_field r_w_shift i s = 1 \<or> DCR_field r_w_shift i s = 3)")
  case True
  show ?thesis
  proof (cases "len_to_addr i s")
    case None
    then show ?thesis using that(1) True by (simp add: data_slot_def hits_def)
  next
    case (Some r)
    obtain a b where "r = (a, b)" by (cases r)
    then show ?thesis using that(2) True Some by (simp add: data_slot_def)
  qed
next
  case False
  then have "data_slot s i = []" unfolding data_slot_def by (rule if_not_P)
  then show ?thesis using that(1) False by (auto simp: hits_def)
qed

lemma slot_triggers:
  assumes "i < 4" "attr = D_R \<or> attr = D_W"
  shows "(\<exists>p \<in> set (data_slot s i). triggers la e attr p) \<longleftrightarrow> enabled s i \<and> hits s la e attr i"
  using assms(2) fields(3) [OF assms(1), of s] by (cases rule: data_slot_cases [of s i]) (auto simp: hits_def)

lemma slot_id: "p \<in> set (data_slot s i) \<Longrightarrow> db_id p = i"
  by (cases rule: data_slot_cases [of s i]) simp_all

lemma data_exception_bits:
  assumes "attr = D_R \<or> attr = D_W"
  shows "set_bits (if \<exists>i < 4. enabled s i \<and> hits s la (la + sz) attr i then {i. i < 4 \<and> hits s la (la + sz) attr i} else {})
    (setup_breakpoints s) (check_for_data_exception la attr sz (setup_breakpoints s))"
proof -
  let ?t = "setup_breakpoints s" and ?T = "triggers la (la + sz) attr" and ?H = "hits s la (la + sz) attr"
  have ht: "hits ?t la e attr = hits s la e attr" for e using same_registers [OF setup_tables(1)] by (auto simp: hits_def fun_eq_iff)
  have tab: "set (map (d_brk ?t) [0..<nr_data_break ?t]) = (\<Union>i < 4. set (data_slot s i))"
    using setup_tables(2) [of s] by (simp add: data_table_def lessThan_atLeast0)
  show ?thesis
  proof (cases "find ?T (map (d_brk ?t) [0..<nr_data_break ?t])")
    case None
    then have "\<not> (\<exists>p. p \<in> set (map (d_brk ?t) [0..<nr_data_break ?t]) \<and> ?T p)" by (simp only: find_None_iff not_False_eq_True)
    then have "\<not> (\<exists>i < 4. \<exists>p \<in> set (data_slot s i). ?T p)" unfolding tab by blast
    then have "\<not> (\<exists>i < 4. enabled s i \<and> ?H i)" using slot_triggers [OF _ assms] by blast
    moreover have "check_for_data_exception la attr sz ?t = ?t" using None by (simp add: check_for_data_exception_def Let_def)
    ultimately show ?thesis using set_bits_refl by auto
  next
    case (Some p)
    then have p: "?T p" "p \<in> set (map (d_brk ?t) [0..<nr_data_break ?t])" by (auto simp: find_Some_iff in_set_conv_nth)
    then obtain i where i: "i < 4" "p \<in> set (data_slot s i)" unfolding tab by auto
    have e: "enabled s i \<and> ?H i" "db_id p = i" using slot_triggers [OF i(1) assms] slot_id i(2) p(1) by blast+
    have "check_for_data_exception la attr sz ?t = fold (check_other i la (la + sz) attr) [0..<4] (set_B i ?t)"
      using Some e(2) by (simp add: check_for_data_exception_def Let_def)
    moreover have "set_bits {j \<in> set [0..<4]. j \<noteq> i \<and> hits (set_B i ?t) la (la + sz) attr j} (set_B i ?t) (fold (check_other i la (la + sz) attr) [0..<4] (set_B i ?t))"
      by (rule check_fold_bits) simp
    moreover have "{j \<in> set [0..<4]. j \<noteq> i \<and> hits (set_B i ?t) la (la + sz) attr j} = {j. j < 4 \<and> j \<noteq> i \<and> ?H j}"
      using set_bits_hits [OF set_bits_B, of _ i ?t] ht by auto
    ultimately have "set_bits ({i} \<union> {j. j < 4 \<and> j \<noteq> i \<and> ?H j}) ?t (check_for_data_exception la attr sz ?t)" using set_bits_trans [OF set_bits_B] by metis
    moreover have "{i} \<union> {j. j < 4 \<and> j \<noteq> i \<and> ?H j} = {j. j < 4 \<and> ?H j}" using i(1) e(1) by auto
    ultimately show ?thesis using i(1) e(1) by auto
  qed
qed

lemma inst_fold_bits: "set_bits {ib_id (i_brk s k) |k. k \<in> set ks \<and> ib_addr (i_brk s k) = la} s (fold (check_inst la) ks s)"
proof (induction ks arbitrary: s)
  case (Cons k ks)
  let ?t = "check_inst la k s"
  have t: "set_bits (if ib_addr (i_brk s k) = la then {ib_id (i_brk s k)} else {}) s ?t" using set_bits_refl set_bits_B by (simp add: check_inst_def)
  have "i_brk ?t = i_brk s" by (simp add: check_inst_def set_B_def)
  then have "set_bits ((if ib_addr (i_brk s k) = la then {ib_id (i_brk s k)} else {}) \<union> {ib_id (i_brk s k) |k. k \<in> set ks \<and> ib_addr (i_brk s k) = la}) s (fold (check_inst la) (k # ks) s)"
    using set_bits_trans [OF t Cons.IH] by simp
  moreover have "(if ib_addr (i_brk s k) = la then {ib_id (i_brk s k)} else {}) \<union> {ib_id (i_brk s k) |k. k \<in> set ks \<and> ib_addr (i_brk s k) = la} =
      {ib_id (i_brk s j) |j. j \<in> set (k # ks) \<and> ib_addr (i_brk s j) = la}" by auto
  ultimately show ?case by simp
qed (simp add: set_bits_refl)

lemma inst_exception_bits:
  "set_bits {i. i < 4 \<and> enabled s i \<and> bp_type s i = 0 \<and> CCPU_DR s i = la} (setup_breakpoints s) (check_for_inst_exception la (setup_breakpoints s))"
proof -
  let ?t = "setup_breakpoints s"
  have z: "unat x = 0 \<longleftrightarrow> x = 0" for x :: IU32 by (rule unat_eq_zero)
  have slot: "p \<in> set (inst_slot s i) \<longleftrightarrow> enabled s i \<and> bp_type s i = 0 \<and> p = \<lparr>ib_addr = CCPU_DR s i, ib_id = i\<rparr>" if "i < 4" for i p
    unfolding bp_type_def fields(1) [OF that, symmetric] z fields(3) [OF that, symmetric] inst_slot_def by auto
  have "set (inst_table ?t) = (\<Union>i < 4. set (inst_slot s i))" using setup_tables(3) [of s] by (simp add: lessThan_atLeast0)
  then have "{ib_id p |p. p \<in> set (inst_table ?t) \<and> ib_addr p = la} = {i. i < 4 \<and> enabled s i \<and> bp_type s i = 0 \<and> CCPU_DR s i = la}"
    (is "?L = ?R")
  proof (intro set_eqI iffI)
    fix j assume "j \<in> ?L"
    then obtain p i where "i < 4" "p \<in> set (inst_slot s i)" "ib_addr p = la" "j = ib_id p" using \<open>set (inst_table ?t) = _\<close> by auto
    then show "j \<in> ?R" using slot [of i p] by auto
  next
    fix j assume j: "j \<in> ?R"
    then have "\<lparr>ib_addr = la, ib_id = j\<rparr> \<in> set (inst_slot s j)" using slot [of j] by auto
    then show "j \<in> ?L" using \<open>set (inst_table ?t) = _\<close> j by (intro CollectI exI [of _ "\<lparr>ib_addr = la, ib_id = j\<rparr>"]) auto
  qed
  moreover have "{ib_id (i_brk ?t k) |k. k \<in> set [0..<nr_inst_break ?t] \<and> ib_addr (i_brk ?t k) = la} = {ib_id p |p. p \<in> set (inst_table ?t) \<and> ib_addr p = la}"
    by (auto simp: inst_table_def)
  ultimately show ?thesis using inst_fold_bits [of ?t "[0..<nr_inst_break ?t]" la] by (simp add: check_for_inst_exception_def)
qed

section \<open>Properties\<close>

text \<open>
  C25. Breakpoints work as the debug registers say. After the registers have been put into the tables, an operand access that some
  enabled data breakpoint watches (by type and by any common byte) sets in the status register the bits of all the
  breakpoints, enabled or not, that watch it, and no other access sets any; a fetch sets the bits of the enabled instruction
  breakpoints at its address. Nothing else of the state changes.
\<close>

theorem breakpoints_exact:
  assumes "attr = D_R \<or> attr = D_W" "unat la + unat sz < 2 ^ 32"
  defines "A \<equiv> {unat la..unat la + unat sz}"
  shows "CCPU_DR (setup_breakpoints s) = CCPU_DR s \<and>
    set_bits (if \<exists>i < 4. enabled s i \<and> watches s i attr A then {i. i < 4 \<and> watches s i attr A} else {})
      (setup_breakpoints s) (check_for_data_exception la attr sz (setup_breakpoints s)) \<and>
    set_bits {i. i < 4 \<and> enabled s i \<and> bp_type s i = 0 \<and> CCPU_DR s i = la} (setup_breakpoints s) (check_for_inst_exception la (setup_breakpoints s))"
proof -
  have w: "watches s i attr A = hits s la (la + sz) attr i" if "i < 4" for i unfolding A_def by (rule hits_watches [OF that assms(2), symmetric])
  have a: "(\<exists>i < 4. enabled s i \<and> watches s i attr A) = (\<exists>i < 4. enabled s i \<and> hits s la (la + sz) attr i)" using w by auto
  have b: "{i. i < 4 \<and> watches s i attr A} = {i. i < 4 \<and> hits s la (la + sz) attr i}" using w by auto
  show ?thesis unfolding a b using data_exception_bits [OF assms(1), of s la sz] inst_exception_bits [of s la] setup_tables(1) [of s] by blast
qed

text \<open>A word write breakpoint at \<open>0x1001\<close> (register 1, enabled) and a disabled byte breakpoint for any access at \<open>0x1000\<close> (register 0).\<close>

definition demo_debug :: ccpu_debug where
  "demo_debug = \<lparr>CCPU_DR = (\<lambda>_. 0)(0 := 0x1000, 1 := 0x1001, 7 := 0x00530004), nr_inst_break = 0, nr_data_break = 0,
     i_brk = (\<lambda>_. \<lparr>ib_addr = 0, ib_id = 0\<rparr>), d_brk = (\<lambda>_. \<lparr>start_addr = 0, end_addr = 0, db_type = 0, db_id = 0\<rparr>)\<rparr>"

theorem breakpoints_exact_witness:
  "bit (CCPU_DR (check_for_data_exception 0x0fff 1 1 (setup_breakpoints demo_debug)) 6) 0 \<and>
   bit (CCPU_DR (check_for_data_exception 0x0fff 1 1 (setup_breakpoints demo_debug)) 6) 1 \<and>
   CCPU_DR (check_for_data_exception 0x0fff 0 1 (setup_breakpoints demo_debug)) 6 = 0"
proof -
  have t: "bp_type demo_debug 0 = 3" "bp_type demo_debug 1 = 1" "bp_type demo_debug 2 = 0" "bp_type demo_debug 3 = 0" by (simp_all add: bp_type_def demo_debug_def)
  have b: "bp_bytes demo_debug 0 = {0x1000}" "bp_bytes demo_debug 1 = {0x1000..0x1001}" by (simp_all add: bp_bytes_def demo_debug_def Let_def numeral_2_eq_2 [symmetric])
  have e: "\<not> enabled demo_debug 0" "enabled demo_debug 1" "\<not> enabled demo_debug 2" "\<not> enabled demo_debug 3"
    by (simp_all add: enabled_def demo_debug_def bit_numeral_rec)
  have w: "watches demo_debug 1 1 {0xfff..0x1000}" "watches demo_debug 0 1 {0xfff..0x1000}" "\<not> watches demo_debug 1 0 {0xfff..0x1000}"
    unfolding watches_def t b by simp_all
  have z: "CCPU_DR (setup_breakpoints demo_debug) 6 = 0" using setup_tables(1) [of demo_debug] by (simp add: demo_debug_def)
  have h: "\<exists>i < 4. enabled demo_debug i \<and> watches demo_debug i 1 {0xfff..0x1000}" using e(2) w(1) by (intro exI [of _ 1]) simp
  have n: "\<not> (\<exists>i < 4. enabled demo_debug i \<and> watches demo_debug i 0 {0xfff..0x1000})" unfolding four using e w(3) by metis
  have "set_bits {i. i < 4 \<and> watches demo_debug i 1 {0xfff..0x1000}} (setup_breakpoints demo_debug) (check_for_data_exception 0x0fff 1 1 (setup_breakpoints demo_debug))"
    using breakpoints_exact [of 1 "0x0fff" 1 demo_debug] h by simp
  moreover have "set_bits {} (setup_breakpoints demo_debug) (check_for_data_exception 0x0fff 0 1 (setup_breakpoints demo_debug))"
    using breakpoints_exact [of 0 "0x0fff" 1 demo_debug] n by simp
  ultimately show ?thesis using w z by (auto simp: set_bits_def bit_eq_iff)
qed

end
