(* ===== verification/Ccpu_Page.thy ===== *)
theory Ccpu_Page
  imports Ccpu_Tlb_Inv Ccpu_Debug
begin

text \<open>
  The memory accesses of the CPU (\<open>ccpu386/c_page.c\<close>): checks of an access at the current privilege, accesses
  made as the supervisor, and the \<open>vir_\<close> accesses that follow a check. The state is the translation unit with registers and
  memory, and the debug registers.

  An operation may leave by a fault, for which the C code calls \<open>longjmp\<close>: its result is then \<open>Inl\<close>. \<open>None\<close> is a
  memory handler called outside its table. The copies that the \<open>vir_\<close> functions give to the debugger of the
  host (\<open>softpc_host_debug_access\<close>) do not act on the machine and are left out; \<open>check_D\<close> is an empty stub.
\<close>

section \<open>State and faults\<close>

text \<open>The status of interrupts and faults that \<open>c_xcptn.c\<close> keeps, and the flag of \<open>c_xtrn.c\<close> for a call from outside the CPU.\<close>

record xcptn =
  doing_contributory :: bool
  doing_page_fault :: bool
  doing_double_fault :: bool
  doing_fault :: bool
  EXT :: IU16
  CCPU_save_EIP :: IU32
  interface_active :: bool

definition xcptn0 :: xcptn where
  "xcptn0 = \<lparr>doing_contributory = False, doing_page_fault = False, doing_double_fault = False, doing_fault = False, EXT = 0, CCPU_save_EIP = 0, interface_active = False\<rparr>"

record 'v core =
  core_mmu :: "'v mmu"
  core_dbg :: ccpu_debug
  core_xcp :: xcptn

text \<open>The calls of the exception functions of \<open>c_xcptn.c\<close>, with the selector or vector; the position in the source is a diagnostic and left out.\<close>

datatype ccpu_fault = PageFault PF | GP IU16 | SF IU16 | NP IU16 | TS IU16 | GP_INT IU16 | NP_INT IU16

type_synonym ('v, 'a) m = "'v core \<Rightarrow> ((ccpu_fault + 'a) \<times> 'v core) option"

abbreviation core_cpu :: "'v core \<Rightarrow> ccpu" where "core_cpu c \<equiv> cpu (core_mmu c)"
abbreviation core_phys :: "'v core \<Rightarrow> 'v sas" where "core_phys c \<equiv> phys (core_mmu c)"

definition m_ret :: "'a \<Rightarrow> ('v, 'a) m" where
  "m_ret x c = Some (Inr x, c)"

definition m_fault :: "ccpu_fault \<Rightarrow> ('v, 'a) m" where
  "m_fault f c = Some (Inl f, c)"

definition m_bind :: "('v, 'a) m \<Rightarrow> ('a \<Rightarrow> ('v, 'b) m) \<Rightarrow> ('v, 'b) m" where
  "m_bind p f c = (case p c of None \<Rightarrow> None | Some (Inl e, c) \<Rightarrow> Some (Inl e, c) | Some (Inr x, c) \<Rightarrow> f x c)"

definition m_get :: "('v core \<Rightarrow> ('v, 'a) m) \<Rightarrow> ('v, 'a) m" where
  "m_get f c = f c c"

lemma m_bind_ret [simp]: "m_bind (m_ret x) f = f x"
  by (simp add: m_bind_def m_ret_def fun_eq_iff)

lemma m_bind_assoc: "m_bind (m_bind p f) g = m_bind p (\<lambda>x. m_bind (f x) g)"
  by (rule ext) (simp add: m_bind_def split: option.split sum.split)

lemma m_bind_pair: "m_bind (case x of (a, b) \<Rightarrow> f a b) g = (case x of (a, b) \<Rightarrow> m_bind (f a b) g)"
  by (simp split: prod.split)

lemma m_bind_get: "m_bind (m_get f) g = m_get (\<lambda>c. m_bind (f c) g)"
  by (simp add: m_bind_def m_get_def fun_eq_iff)

lemmas m_laws = m_bind_ret m_bind_assoc m_bind_pair m_bind_get

definition upd_cpu :: "(ccpu \<Rightarrow> ccpu) \<Rightarrow> 'v core \<Rightarrow> 'v core" where
  "upd_cpu f c = c\<lparr>core_mmu := (core_mmu c)\<lparr>cpu := f (cpu (core_mmu c))\<rparr>\<rparr>"

definition m_cpu :: "(ccpu \<Rightarrow> ccpu) \<Rightarrow> ('v, unit) m" where
  "m_cpu f c = Some (Inr (), upd_cpu f c)"

definition set_phys :: "'v sas \<Rightarrow> 'v core \<Rightarrow> 'v core" where
  "set_phys s c = c\<lparr>core_mmu := (core_mmu c)\<lparr>phys := s\<rparr>\<rparr>"

definition phy_get :: "('v sas \<Rightarrow> ('a \<times> 'v sas) option) \<Rightarrow> ('v, 'a) m" where
  "phy_get f c = do { (v, s) \<leftarrow> f (core_phys c); Some (Inr v, set_phys s c) }"

definition phy_put :: "('v sas \<Rightarrow> 'v sas option) \<Rightarrow> ('v, unit) m" where
  "phy_put f c = do { s \<leftarrow> f (core_phys c); Some (Inr (), set_phys s c) }"

abbreviation GET_PE :: "ccpu \<Rightarrow> bool" where "GET_PE s \<equiv> CCPU_CR s 0 AND 1 \<noteq> 0"
abbreviation GET_PG :: "ccpu \<Rightarrow> bool" where "GET_PG s \<equiv> CCPU_CR s 0 AND 0x80000000 \<noteq> 0"

abbreviation (input) PG_R :: nat where "PG_R \<equiv> 0"
abbreviation (input) PG_W :: nat where "PG_W \<equiv> 1"
abbreviation (input) PG_S :: nat where "PG_S \<equiv> 0"
abbreviation (input) PG_U :: nat where "PG_U \<equiv> 2"
abbreviation (input) NO_PHYSICAL_MAPPING :: IU32 where "NO_PHYSICAL_MAPPING \<equiv> 0"

section \<open>Translation with faults\<close>

definition lin2phy_m :: "'v gmi \<Rightarrow> IU32 \<Rightarrow> nat \<Rightarrow> ('v, IU32) m" where
  "lin2phy_m gmi lin access c = do { (r, m) \<leftarrow> lin2phy gmi lin access (core_mmu c); Some (map_sum PageFault id r, c\<lparr>core_mmu := m\<rparr>) }"

text \<open>The address itself when paging is off.\<close>

definition map_address :: "'v gmi \<Rightarrow> IU32 \<Rightarrow> nat \<Rightarrow> ('v, IU32) m" where
  "map_address gmi lin access = m_get (\<lambda>c. if GET_PG (core_cpu c) then lin2phy_m gmi lin access else m_ret lin)"

definition spans :: "IU32 \<Rightarrow> IU32 \<Rightarrow> bool" where
  "spans lst lin = (lst < (lin AND 0xfff))"

abbreviation (input) LAST_DWORD_ON_PAGE :: IU32 where "LAST_DWORD_ON_PAGE \<equiv> 0xffc"
abbreviation (input) LAST_WORD_ON_PAGE :: IU32 where "LAST_WORD_ON_PAGE \<equiv> 0xffe"

section \<open>Checks\<close>

definition spr_chk_byte :: "'v gmi \<Rightarrow> IU32 \<Rightarrow> nat \<Rightarrow> ('v, IU32) m" where
  "spr_chk_byte gmi lin access = map_address gmi lin (access OR PG_S)"

text \<open>The check of an item of which the last byte is \<open>k\<close> bytes on.\<close>

definition chk_item :: "'v gmi \<Rightarrow> IU32 \<Rightarrow> IU32 \<Rightarrow> IU32 \<Rightarrow> nat \<Rightarrow> ('v, IU32) m" where
  "chk_item gmi lst k lin access =
     m_bind (lin2phy_m gmi lin access) (\<lambda>phy.
       if spans lst lin then m_bind (lin2phy_m gmi (lin + k) access) (\<lambda>_. m_ret NO_PHYSICAL_MAPPING) else m_ret phy)"

definition spr_chk_dword :: "'v gmi \<Rightarrow> IU32 \<Rightarrow> nat \<Rightarrow> ('v, unit) m" where
  "spr_chk_dword gmi lin access = m_get (\<lambda>c.
     if GET_PG (core_cpu c) then m_bind (chk_item gmi LAST_DWORD_ON_PAGE 3 lin (access OR PG_S)) (\<lambda>_. m_ret ()) else m_ret ())"

definition spr_chk_word :: "'v gmi \<Rightarrow> IU32 \<Rightarrow> nat \<Rightarrow> ('v, unit) m" where
  "spr_chk_word gmi lin access = m_get (\<lambda>c.
     if GET_PG (core_cpu c) then m_bind (chk_item gmi LAST_WORD_ON_PAGE 1 lin (access OR PG_S)) (\<lambda>_. m_ret ()) else m_ret ())"

definition usr_access :: "nat \<Rightarrow> ccpu \<Rightarrow> nat" where
  "usr_access access s = (if CCPU_CPL s = 3 then access OR PG_U else access OR PG_S)"

definition usr_chk_byte :: "'v gmi \<Rightarrow> IU32 \<Rightarrow> nat \<Rightarrow> ('v, IU32) m" where
  "usr_chk_byte gmi lin access = m_get (\<lambda>c. map_address gmi lin (usr_access access (core_cpu c)))"

definition usr_chk_dword :: "'v gmi \<Rightarrow> IU32 \<Rightarrow> nat \<Rightarrow> ('v, IU32) m" where
  "usr_chk_dword gmi lin access = m_get (\<lambda>c.
     if GET_PG (core_cpu c) then chk_item gmi LAST_DWORD_ON_PAGE 3 lin (usr_access access (core_cpu c)) else m_ret lin)"

definition usr_chk_word :: "'v gmi \<Rightarrow> IU32 \<Rightarrow> nat \<Rightarrow> ('v, IU32) m" where
  "usr_chk_word gmi lin access = m_get (\<lambda>c.
     if GET_PG (core_cpu c) then chk_item gmi LAST_WORD_ON_PAGE 1 lin (usr_access access (core_cpu c)) else m_ret lin)"

section \<open>Supervisor accesses\<close>

definition spr_read_byte :: "'v gmi \<Rightarrow> IU32 \<Rightarrow> ('v, IU8) m" where
  "spr_read_byte gmi lin = m_bind (map_address gmi lin (PG_R OR PG_S)) (\<lambda>phy. phy_get (phy_r8 gmi phy))"

definition spr_read_word :: "'v gmi \<Rightarrow> IU32 \<Rightarrow> ('v, IU16) m" where
  "spr_read_word gmi lin = m_get (\<lambda>c.
     if GET_PG (core_cpu c) \<and> spans LAST_WORD_ON_PAGE lin
     then m_bind (spr_read_byte gmi lin) (\<lambda>low_byte.
          m_bind (spr_read_byte gmi (lin + 1)) (\<lambda>high_byte.
          m_ret (push_bit 8 (ucast high_byte) OR ucast low_byte)))
     else m_bind (map_address gmi lin (PG_R OR PG_S)) (\<lambda>phy. phy_get (phy_r16 gmi phy)))"

definition spr_read_dword :: "'v gmi \<Rightarrow> IU32 \<Rightarrow> ('v, IU32) m" where
  "spr_read_dword gmi lin = m_get (\<lambda>c.
     if GET_PG (core_cpu c) \<and> spans LAST_DWORD_ON_PAGE lin
     then m_bind (spr_read_word gmi lin) (\<lambda>low_word.
          m_bind (spr_read_word gmi (lin + 2)) (\<lambda>high_word.
          m_ret (push_bit 16 (ucast high_word) OR ucast low_word)))
     else m_bind (map_address gmi lin (PG_R OR PG_S)) (\<lambda>phy. phy_get (phy_r32 gmi phy)))"

definition spr_write_byte :: "'v gmi \<Rightarrow> IU32 \<Rightarrow> IU8 \<Rightarrow> ('v, unit) m" where
  "spr_write_byte gmi lin v = m_bind (map_address gmi lin (PG_W OR PG_S)) (\<lambda>phy. phy_put (phy_w8 gmi phy v))"

definition spr_write_word :: "'v gmi \<Rightarrow> IU32 \<Rightarrow> IU16 \<Rightarrow> ('v, unit) m" where
  "spr_write_word gmi lin v = m_get (\<lambda>c.
     if GET_PG (core_cpu c) \<and> spans LAST_WORD_ON_PAGE lin
     then m_bind (spr_write_byte gmi lin (ucast v)) (\<lambda>_. spr_write_byte gmi (lin + 1) (ucast (drop_bit 8 v)))
     else m_bind (map_address gmi lin (PG_W OR PG_S)) (\<lambda>phy. phy_put (phy_w16 gmi phy v)))"

definition spr_write_dword :: "'v gmi \<Rightarrow> IU32 \<Rightarrow> IU32 \<Rightarrow> ('v, unit) m" where
  "spr_write_dword gmi lin v = m_get (\<lambda>c.
     if GET_PG (core_cpu c) \<and> spans LAST_DWORD_ON_PAGE lin
     then m_bind (spr_write_word gmi lin (ucast v)) (\<lambda>_. spr_write_word gmi (lin + 2) (ucast (drop_bit 16 v)))
     else m_bind (map_address gmi lin (PG_W OR PG_S)) (\<lambda>phy. phy_put (phy_w32 gmi phy v)))"

section \<open>Accesses after a check\<close>

definition data_break :: "IU32 \<Rightarrow> nat \<Rightarrow> IU32 \<Rightarrow> ('v, unit) m" where
  "data_break lin attr sz c =
     Some (Inr (), if nr_data_break (core_dbg c) \<noteq> 0 then c\<lparr>core_dbg := check_for_data_exception lin attr sz (core_dbg c)\<rparr> else c)"

definition vir_read_byte :: "'v gmi \<Rightarrow> IU32 \<Rightarrow> IU32 \<Rightarrow> ('v, IU8) m" where
  "vir_read_byte gmi lin phy =
     m_bind (data_break lin D_R 0) (\<lambda>_. if phy \<noteq> 0 then phy_get (phy_r8 gmi phy) else spr_read_byte gmi lin)"

definition vir_read_word :: "'v gmi \<Rightarrow> IU32 \<Rightarrow> IU32 \<Rightarrow> ('v, IU16) m" where
  "vir_read_word gmi lin phy =
     m_bind (data_break lin D_R 1) (\<lambda>_. if phy \<noteq> 0 then phy_get (phy_r16 gmi phy) else spr_read_word gmi lin)"

definition vir_read_dword :: "'v gmi \<Rightarrow> IU32 \<Rightarrow> IU32 \<Rightarrow> ('v, IU32) m" where
  "vir_read_dword gmi lin phy =
     m_bind (data_break lin D_R 3) (\<lambda>_. if phy \<noteq> 0 then phy_get (phy_r32 gmi phy) else spr_read_dword gmi lin)"

definition vir_write_byte :: "'v gmi \<Rightarrow> IU32 \<Rightarrow> IU32 \<Rightarrow> IU8 \<Rightarrow> ('v, unit) m" where
  "vir_write_byte gmi lin phy v =
     m_bind (data_break lin D_W 0) (\<lambda>_. if phy \<noteq> 0 then phy_put (phy_w8 gmi phy v) else spr_write_byte gmi lin v)"

definition vir_write_word :: "'v gmi \<Rightarrow> IU32 \<Rightarrow> IU32 \<Rightarrow> IU16 \<Rightarrow> ('v, unit) m" where
  "vir_write_word gmi lin phy v =
     m_bind (data_break lin D_W 1) (\<lambda>_. if phy \<noteq> 0 then phy_put (phy_w16 gmi phy v) else spr_write_word gmi lin v)"

definition vir_write_dword :: "'v gmi \<Rightarrow> IU32 \<Rightarrow> IU32 \<Rightarrow> IU32 \<Rightarrow> ('v, unit) m" where
  "vir_write_dword gmi lin phy v =
     m_bind (data_break lin D_W 3) (\<lambda>_. if phy \<noteq> 0 then phy_put (phy_w32 gmi phy v) else spr_write_dword gmi lin v)"

text \<open>
  The block forms run downwards: the first byte of the buffer belongs to the highest address. The loops start
  at the address of the last byte.
\<close>

primrec read_down :: "(IU32 \<Rightarrow> ('v, IU8) m) \<Rightarrow> IU32 \<Rightarrow> nat \<Rightarrow> ('v, IU8 list) m" where
  "read_down rd a 0 = m_ret []"
| "read_down rd a (Suc n) = m_bind (rd a) (\<lambda>b. m_bind (read_down rd (a - 1) n) (\<lambda>bs. m_ret (b # bs)))"

primrec write_down :: "(IU32 \<Rightarrow> IU8 \<Rightarrow> ('v, unit) m) \<Rightarrow> IU32 \<Rightarrow> IU8 list \<Rightarrow> ('v, unit) m" where
  "write_down wr a [] = m_ret ()"
| "write_down wr a (b # bs) = m_bind (wr a b) (\<lambda>_. write_down wr (a - 1) bs)"

definition vir_read_bytes :: "'v gmi \<Rightarrow> IU32 \<Rightarrow> IU32 \<Rightarrow> nat \<Rightarrow> ('v, IU8 list) m" where
  "vir_read_bytes gmi lin phy n =
     m_bind (data_break lin D_R 0) (\<lambda>_.
       if phy \<noteq> 0 then read_down (\<lambda>a. phy_get (phy_r8 gmi a)) (phy + (of_nat n - 1)) n
       else read_down (spr_read_byte gmi) (lin + (of_nat n - 1)) n)"

definition vir_write_bytes :: "'v gmi \<Rightarrow> IU32 \<Rightarrow> IU32 \<Rightarrow> IU8 list \<Rightarrow> ('v, unit) m" where
  "vir_write_bytes gmi lin phy bs =
     m_bind (data_break lin D_W 0) (\<lambda>_.
       if phy \<noteq> 0 then write_down (\<lambda>a b. phy_put (phy_w8 gmi a b)) (phy + (of_nat (length bs) - 1)) bs
       else write_down (spr_write_byte gmi) (lin + (of_nat (length bs) - 1)) bs)"

end
