(* ===== verification/Ccpu_Page_Run.thy ===== *)
theory Ccpu_Page_Run
  imports Ccpu_Page
begin

text \<open>
  The contract of the accesses of \<open>c_page.c\<close>: an access that was checked before cannot fault, because the
  check leaves the translation in the buffer; it does exactly the physical accesses at the translated addresses.
\<close>

section \<open>Cached translations\<close>

text \<open>
  The buffer holds the page of an address, in an entry that admits writes if they are asked for, and all its entries for
  that page name the same physical page.
\<close>

definition holds_page :: "TLB_ENTRY \<Rightarrow> IU32 \<Rightarrow> bool" where
  "holds_page e lin \<longleftrightarrow> tlb_v e \<and> tlb_la e = lin AND NOT 0xfff"

definition cached :: "'v mmu \<Rightarrow> IU32 \<Rightarrow> bool \<Rightarrow> IU32 \<Rightarrow> bool" where
  "cached s lin w pa \<longleftrightarrow> (\<exists>i < 4. holds_page (tlb s i (tlb_entry lin)) lin \<and> (w \<longrightarrow> tlb_d (tlb s i (tlb_entry lin)))) \<and>
     (\<forall>i < 4. holds_page (tlb s i (tlb_entry lin)) lin \<longrightarrow> tlb_pa (tlb s i (tlb_entry lin)) = pa)"

lemma same_page_cached:
  assumes "lin' AND NOT 0xfff = lin AND NOT 0xfff" shows "cached s lin' w pa = cached s lin w pa"
proof -
  have "tlb_entry lin' = tlb_entry lin" using entry_part(1) [of lin'] entry_part(1) [of lin] assms by simp
  then show ?thesis unfolding cached_def holds_page_def assms by simp
qed

lemma supervisor_admitted: "access < 2 \<Longrightarrow> m < 4 \<Longrightarrow> \<not> access_check access m"
  by (auto simp: access_check_def less_2_cases_iff numeral_eq_Suc less_Suc_eq)

lemma tlb_search_miss: "tlb_search s lin read_op is = None \<Longrightarrow> i \<in> set is \<Longrightarrow> holds_page (tlb s i (tlb_entry lin)) lin \<Longrightarrow> \<not> (read_op \<or> tlb_d (tlb s i (tlb_entry lin)))"
  by (induction "is") (auto simp: Let_def holds_page_def split: if_splits)

lemma cached_lin2phy:
  assumes wf: "tlb_wf s" and c: "cached s lin w pa" and a: "access < 2" "odd access \<longrightarrow> w"
  shows "lin2phy gmi lin access s = Some (Inr (pa OR (lin AND 0xfff)), s)"
proof (cases "fast_lookup lin access s = 0")
  case False
  have "access < 4" using a(1) by simp
  then obtain i where "i < 4" "tlb_v (tlb s i (tlb_entry lin))" "tlb_la (tlb s i (tlb_entry lin)) = lin AND NOT 0xfff"
    "fast_lookup lin access s = tlb_pa (tlb s i (tlb_entry lin))" using fast_lookup_hit [OF wf _ False] by metis
  then have "fast_lookup lin access s = pa" using c by (simp add: cached_def holds_page_def)
  then show ?thesis using False by (simp add: lin2phy_def)
next
  case True
  have rd: "access AND 1 = 0 \<longleftrightarrow> even access" using access_odd [of access] a(1) by simp
  have "tlb_search s lin (access AND 1 = 0) [0..<4] \<noteq> None"
  proof
    assume "tlb_search s lin (access AND 1 = 0) [0..<4] = None"
    then show False using tlb_search_miss [of s lin "access AND 1 = 0" "[0..<4]"] c a(2) rd unfolding cached_def by auto
  qed
  then obtain e where e: "tlb_search s lin (access AND 1 = 0) [0..<4] = Some e" by blast
  from tlb_search_hit [OF e] obtain i where i: "i < 4" "e = tlb s i (tlb_entry lin)" "tlb_v e" "tlb_la e = lin AND NOT 0xfff" by auto
  have "tlb_mode e < 4" using wf i entry_part(2) [of lin] by (auto simp: tlb_wf_def entry_ok_def)
  then have "\<not> access_check access (unat (tlb_mode e))" using supervisor_admitted [OF a(1)] by (simp add: word_less_nat_alt)
  moreover have "tlb_pa e = pa" using c i by (simp add: cached_def holds_page_def)
  ultimately show ?thesis using True e by (simp add: lin2phy_def)
qed

lemma coherent_cached:
  assumes "coherent s" "i < 4" "holds_page (tlb s i (tlb_entry lin)) lin" "w \<longrightarrow> tlb_d (tlb s i (tlb_entry lin))"
  shows "cached s lin w (tlb_pa (tlb s i (tlb_entry lin)))"
proof -
  have "tlb_pa (tlb s k (tlb_entry lin)) = pte_of s (lin AND NOT 0xfff) AND 0xfffff000" if "k < 4" "holds_page (tlb s k (tlb_entry lin)) lin" for k
  proof -
    have "agrees s (tlb s k (tlb_entry lin))" using assms(1) that entry_part(2) [of lin] by (auto simp: coherent_def holds_page_def)
    then show ?thesis using that by (simp add: agrees_def holds_page_def)
  qed
  then show ?thesis unfolding cached_def using assms(2-4) by auto
qed

lemma mark_used_tlb: "mark_used gmi p d q t dirty s = Some s' \<Longrightarrow> tlb s' = tlb s \<and> cpu s' = cpu s"
  unfolding mark_used_phys by auto

text \<open>A translation leaves the buffer alone or replaces one entry, in the row of the address.\<close>

definition filled :: "IU32 \<Rightarrow> nat \<Rightarrow> 'v mmu \<Rightarrow> (PF + IU32) \<Rightarrow> 'v mmu \<Rightarrow> bool" where
  "filled lin access s r s' \<longleftrightarrow> (\<exists>i < 4. \<exists>comb pte. tlb s' = (tlb s)(i := (tlb s i)(tlb_entry lin := new_entry lin comb pte (access AND 1 = 0))) \<and>
    r = Inr ((pte AND 0xfffff000) OR (lin AND 0xfff)))"

lemma walk_tlb:
  assumes wf: "tlb_wf s" and w: "walk_fill gmi lin access s = Some (r, s')"
  shows "(\<exists>x. r = Inl x) \<and> tlb s' = tlb s \<or> filled lin access s r s'"
proof -
  obtain pde s1 where 1: "read_pe gmi (pde_addr lin s) s = Some (pde, s1)" using w by (cases "read_pe gmi (pde_addr lin s) s") (auto simp: walk_fill_def Let_def)
  have t1: "tlb s1 = tlb s" "tlb_wf s1" using 1 wf by (auto simp: read_pe_def tlb_wf_def indexed_def split: bind_splits)
  show ?thesis
  proof (cases "pde AND 1 = 0")
    case True
    then show ?thesis using w 1 t1 by (auto simp: walk_fill_def Let_def take_PF_def)
  next
    case p: False
    obtain pte s2 where 2: "read_pe gmi (pte_addr lin pde) s1 = Some (pte, s2)"
      using w 1 p by (cases "read_pe gmi (pte_addr lin pde) s1") (auto simp: walk_fill_def Let_def)
    have t2: "tlb s2 = tlb s" "tlb_wf s2" using 2 t1 by (auto simp: read_pe_def tlb_wf_def indexed_def split: bind_splits)
    show ?thesis
    proof (cases "pte AND 1 = 0 \<or> access_check access (unat (combine pde pte))")
      case True
      then show ?thesis using w 1 2 p t2 by (auto simp: walk_fill_def Let_def take_PF_def split: if_splits)
    next
      case q: False
      let ?a = "allocate lin (combine pde pte) pte (access AND 1 = 0) s2"
      have 3: "mark_used gmi (pde_addr lin s) pde (pte_addr lin pde) pte (access AND 1 \<noteq> 0) ?a = Some s'" "r = Inr ((pte AND 0xfffff000) OR (lin AND 0xfff))"
        using w 1 2 p q by (auto simp: walk_fill_def Let_def bind_eq_Some_conv)
      have "tlb s' = (tlb s)(unat (next_set s2 (tlb_entry lin)) := (tlb s (unat (next_set s2 (tlb_entry lin))))(tlb_entry lin := new_entry lin (combine pde pte) pte (access AND 1 = 0)))"
        using mark_used_tlb [OF 3(1)] allocate_slot(1) [OF t2(2)] t2(1) by simp
      moreover have "unat (next_set s2 (tlb_entry lin)) < 4" using t2(2) entry_part(2) [of lin] by (auto simp: tlb_wf_def word_less_nat_alt)
      ultimately show ?thesis using 3(2) unfolding filled_def by blast
    qed
  qed
qed

lemma lin2phy_tlb:
  assumes wf: "tlb_wf s" and l: "lin2phy gmi lin access s = Some (r, s')"
  shows "tlb s' = tlb s \<or> filled lin access s r s'"
proof (cases "fast_lookup lin access s = 0 \<and> tlb_search s lin (access AND 1 = 0) [0..<4] = None")
  case False
  then show ?thesis using l by (auto simp: lin2phy_def take_PF_def Let_def split: if_splits option.splits)
next
  case True
  then have "walk_fill gmi lin access s = Some (r, s')" using l by (simp add: lin2phy_def)
  from walk_tlb [OF wf this] show ?thesis by blast
qed

lemma lin2phy_keeps_cached:
  assumes "tlb_wf s" "lin2phy gmi lin' access s = Some (r, s')" "tlb_entry lin' \<noteq> tlb_entry lin" "cached s lin w pa"
  shows "cached s' lin w pa"
proof -
  have "tlb s' i (tlb_entry lin) = tlb s i (tlb_entry lin)" for i using lin2phy_tlb [OF assms(1,2)] assms(3) by (auto simp: filled_def)
  then show ?thesis using assms(4) by (simp add: cached_def)
qed

lemma lin2phy_cached:
  assumes wf: "tlb_wf s" "coherent s" "tables_in_ram s lin" "access < 4" and l: "lin2phy gmi lin access s = Some (Inr a, s')"
  shows "\<exists>pa. cached s' lin (odd access) pa \<and> a = pa OR (lin AND 0xfff)"
proof -
  have co: "coherent s'" using lin2phy_ok [OF wf, of gmi] l by (auto simp: lin2phy_post_def)
  have rd: "(access AND 1 = 0) = even access" by (rule access_odd [OF wf(4)])
  have "\<exists>i < 4. holds_page (tlb s' i (tlb_entry lin)) lin \<and> (odd access \<longrightarrow> tlb_d (tlb s' i (tlb_entry lin))) \<and> a = tlb_pa (tlb s' i (tlb_entry lin)) OR (lin AND 0xfff)"
  proof (cases "fast_lookup lin access s = 0")
    case False
    then have e: "a = fast_lookup lin access s OR (lin AND 0xfff)" "s' = s" using l by (auto simp: lin2phy_def)
    obtain i where "i < 4" "tlb_v (tlb s i (tlb_entry lin))" "tlb_la (tlb s i (tlb_entry lin)) = lin AND NOT 0xfff"
      "access AND 1 = 0 \<or> tlb_d (tlb s i (tlb_entry lin))" "fast_lookup lin access s = tlb_pa (tlb s i (tlb_entry lin))"
      using fast_lookup_hit [OF wf(1,4) False] by metis
    then show ?thesis using e rd by (auto simp: holds_page_def)
  next
    case True
    show ?thesis
    proof (cases "tlb_search s lin (access AND 1 = 0) [0..<4]")
      case (Some e)
      then show ?thesis using tlb_search_hit [OF Some] l True rd by (auto simp: lin2phy_def take_PF_def holds_page_def split: if_splits)
    next
      case None
      then have "walk_fill gmi lin access s = Some (Inr a, s')" using l True by (simp add: lin2phy_def)
      from walk_tlb [OF wf(1) this] have "filled lin access s (Inr a) s'" by blast
      then obtain i comb pte where "i < 4" "tlb s' i (tlb_entry lin) = new_entry lin comb pte (access AND 1 = 0)" "a = (pte AND 0xfffff000) OR (lin AND 0xfff)"
        unfolding filled_def by fastforce
      then show ?thesis by (intro exI [of _ i]) (simp add: holds_page_def new_entry_def odd_iff_mod_2_eq_one)
    qed
  qed
  then obtain i where "i < 4" "holds_page (tlb s' i (tlb_entry lin)) lin" "odd access \<longrightarrow> tlb_d (tlb s' i (tlb_entry lin))" "a = tlb_pa (tlb s' i (tlb_entry lin)) OR (lin AND 0xfff)"
    by blast
  then show ?thesis using coherent_cached [OF co, of i lin "odd access"] by metis
qed

section \<open>Pages\<close>

lemma tlb_entry_div: "tlb_entry lin = unat lin div 4096 mod 8"
proof -
  have "unat (drop_bit 12 lin AND 7) = unat (drop_bit 12 lin) mod 2 ^ 3" using unat_and_mask [of "drop_bit 12 lin" 3] by (simp add: mask_eq_exp_minus_1)
  moreover have "unat (drop_bit 12 lin) = unat lin div 4096" 
    unfolding unsigned_drop_bit_eq using unsigned_less [of lin, where ?'a = nat] by (simp add: drop_bit_eq_div take_bit_nat_eq_self)
  ultimately show ?thesis unfolding tlb_entry_def by simp
qed

lemma page_base_div: "unat (lin AND NOT 0xfff :: IU32) = unat lin div 4096 * 4096" "unat (lin AND 0xfff) = unat lin mod 4096" for lin :: IU32
proof -
  have m: "(0xfff :: IU32) = mask 12" by (simp add: mask_eq_exp_minus_1)
  show "unat (lin AND NOT 0xfff) = unat lin div 4096 * 4096" "unat (lin AND 0xfff) = unat lin mod 4096"
    unfolding m unat_and_not_mask unat_and_mask by (simp_all add: minus_mod_eq_div_mult)
qed

lemma same_page_iff: "a AND NOT 0xfff = b AND NOT 0xfff \<longleftrightarrow> unat a div 4096 = unat b div 4096" for a b :: IU32
  unfolding word_unat_eq_iff [of "a AND NOT 0xfff"] page_base_div by simp

lemma next_byte:
  fixes lin :: IU32
  assumes "k < 4096"
  shows "\<not> spans (0xfff - of_nat k) lin \<Longrightarrow> unat (lin + of_nat k) = unat lin + k \<and> unat (lin + of_nat k) div 4096 = unat lin div 4096"
    "spans (0xfff - of_nat k) lin \<Longrightarrow> unat (lin + of_nat k) div 4096 = (unat lin div 4096 + 1) mod 1048576 \<and>
      (\<forall>j \<le> k. unat (lin + of_nat j) div 4096 = unat lin div 4096 \<or> unat (lin + of_nat j) div 4096 = unat (lin + of_nat k) div 4096)"
proof -
  have k: "unat (of_nat j :: IU32) = j" if "j < 4096" for j using that by (simp add: unat_of_nat)
  have l: "unat lin < 2 ^ 32" using unsigned_less [of lin, where ?'a = nat] by simp
  have "of_nat k \<le> (0xfff :: IU32)" using assms k [OF assms] by (simp add: word_le_nat_alt)
  then have "unat (0xfff - of_nat k :: IU32) = 0xfff - k" using k [OF assms] by (simp add: unat_sub)
  then have s: "spans (0xfff - of_nat k) lin \<longleftrightarrow> 4096 \<le> unat lin mod 4096 + k"
    using assms unfolding spans_def word_less_nat_alt page_base_div by auto
  have add: "unat (lin + of_nat j) = (unat lin + j) mod 2 ^ 32" if "j < 4096" for j using k [OF that] by (simp add: unat_word_ariths)
  have q: "(unat lin + j) div 4096 = (if 4096 \<le> unat lin mod 4096 + j then unat lin div 4096 + 1 else unat lin div 4096)" if "j < 4096" for j
  proof -
    have "(unat lin + j) div 4096 = unat lin div 4096 + (unat lin mod 4096 + j) div 4096" using div_add1_eq [of "unat lin" j 4096] that by simp
    moreover have "(unat lin mod 4096 + j) div 4096 = (if 4096 \<le> unat lin mod 4096 + j then 1 else 0)"
    proof (cases "4096 \<le> unat lin mod 4096 + j")
      case True
      have "unat lin mod 4096 + j < 2 * 4096" using that mod_less_divisor [of 4096 "unat lin"] by linarith
      then have "(unat lin mod 4096 + j) div 4096 = 1" using True by (intro div_nat_eqI) simp_all
      then show ?thesis using True by simp
    qed simp
    ultimately show ?thesis by simp
  qed
  have d: "unat (lin + of_nat j) div 4096 = (unat lin + j) div 4096 mod 1048576" if "j < 4096" for j
  proof -
    have "(4096 * y + r) div 4096 = y" if "r < 4096" for y r :: nat using that by simp
    moreover have "(unat lin + j) mod 2 ^ 32 = 4096 * ((unat lin + j) div 4096 mod 1048576) + (unat lin + j) mod 4096"
      using mod_mult2_eq [of "unat lin + j" 4096 1048576] by simp
    ultimately show ?thesis unfolding add [OF that] by simp
  qed
  have lp: "unat lin div 4096 < 1048576" using l by (simp add: less_mult_imp_div_less)
  { assume "\<not> spans (0xfff - of_nat k) lin"
    then have ns: "unat lin mod 4096 + k < 4096" using s by simp
    have "unat lin + k < 4294967296" using lp ns div_mult_mod_eq [of "unat lin" 4096] by linarith
    then show "unat (lin + of_nat k) = unat lin + k \<and> unat (lin + of_nat k) div 4096 = unat lin div 4096" using add [OF assms] q [OF assms] ns by simp }
  assume sp: "spans (0xfff - of_nat k) lin"
  have "unat (lin + of_nat j) div 4096 = unat lin div 4096 \<or> unat (lin + of_nat j) div 4096 = unat (lin + of_nat k) div 4096" if "j \<le> k" for j
  proof -
    have "j < 4096" using that assms by simp
    then show ?thesis using d [of j] q [of j] d [OF assms] q [OF assms] sp s lp by auto
  qed
  then show "unat (lin + of_nat k) div 4096 = (unat lin div 4096 + 1) mod 1048576 \<and>
      (\<forall>j \<le> k. unat (lin + of_nat j) div 4096 = unat lin div 4096 \<or> unat (lin + of_nat j) div 4096 = unat (lin + of_nat k) div 4096)"
    using d [OF assms] q [OF assms] sp s by simp
qed

lemma next_page_row:
  assumes "k < 4096" "spans (0xfff - of_nat k) lin" shows "tlb_entry (lin + of_nat k) \<noteq> tlb_entry lin"
proof -
  have "unat (lin + of_nat k) div 4096 mod 8 = (unat lin div 4096 + 1) mod 8"
    using next_byte(2) [OF assms] mod_mod_cancel [of 8 1048576 "unat lin div 4096 + 1"] by simp
  then show ?thesis unfolding tlb_entry_div by (simp add: mod_Suc)
qed

section \<open>Translations that are ready\<close>

definition ready :: "'v core \<Rightarrow> IU32 \<Rightarrow> bool \<Rightarrow> IU32 \<Rightarrow> bool" where
  "ready c lin w phy \<longleftrightarrow> (if GET_PG (core_cpu c) then tlb_wf (core_mmu c) \<and> (\<exists>pa. cached (core_mmu c) lin w pa \<and> phy = pa OR (lin AND 0xfff)) else phy = lin)"

lemma ready_map_address:
  assumes "ready c lin w phy" "access < 2" "odd access \<longrightarrow> w"
  shows "map_address gmi lin access c = Some (Inr phy, c)"
proof (cases "GET_PG (core_cpu c)")
  case True
  then obtain pa where "tlb_wf (core_mmu c)" "cached (core_mmu c) lin w pa" "phy = pa OR (lin AND 0xfff)" using assms(1) by (auto simp: ready_def)
  then have "lin2phy gmi lin access (core_mmu c) = Some (Inr phy, core_mmu c)" using cached_lin2phy [OF _ _ assms(2,3)] by blast
  then show ?thesis using True by (simp add: map_address_def m_get_def lin2phy_m_def)
next
  case False
  then show ?thesis using assms(1) by (simp add: map_address_def m_get_def m_ret_def ready_def)
qed

lemma same_tlb_ready:
  assumes "tlb (core_mmu c') = tlb (core_mmu c)" "tlb_wf (core_mmu c') = tlb_wf (core_mmu c)" "GET_PG (core_cpu c') = GET_PG (core_cpu c)"
  shows "ready c' lin w phy = ready c lin w phy"
  using assms by (simp add: ready_def cached_def)

lemma ready_phys [simp]: "ready (set_phys s c) lin w phy = ready c lin w phy"
  by (rule same_tlb_ready) (simp_all add: set_phys_def tlb_wf_def indexed_def)

lemma ready_dbg [simp]: "ready (c\<lparr>core_dbg := d\<rparr>) lin w phy = ready c lin w phy"
  by (rule same_tlb_ready) simp_all

lemma set_phys_sel [simp]: "core_cpu (set_phys s c) = core_cpu c" "core_phys (set_phys s c) = s" "set_phys s' (set_phys s c) = set_phys s' c" "core_dbg (set_phys s c) = core_dbg c"
  by (simp_all add: set_phys_def)

lemma ready_read: "ready c lin w p \<Longrightarrow> ready c lin False p"
  by (auto simp: ready_def cached_def)

text \<open>The physical accesses at given addresses: one, or one for each byte where the item crosses a page.\<close>

definition get16 :: "'v gmi \<Rightarrow> bool \<Rightarrow> (IU32 \<Rightarrow> IU32) \<Rightarrow> IU32 \<Rightarrow> 'v sas \<Rightarrow> (IU16 \<times> 'v sas) option" where
  "get16 gmi pg f lin s =
     (if pg \<and> spans 0xffe lin
      then do { (lo, s) \<leftarrow> phy_r8 gmi (f lin) s; (hi, s) \<leftarrow> phy_r8 gmi (f (lin + 1)) s; Some (push_bit 8 (ucast hi) OR ucast lo, s) }
      else phy_r16 gmi (f lin) s)"

definition get32 :: "'v gmi \<Rightarrow> bool \<Rightarrow> (IU32 \<Rightarrow> IU32) \<Rightarrow> IU32 \<Rightarrow> 'v sas \<Rightarrow> (IU32 \<times> 'v sas) option" where
  "get32 gmi pg f lin s =
     (if pg \<and> spans 0xffc lin
      then do { (lo, s) \<leftarrow> get16 gmi pg f lin s; (hi, s) \<leftarrow> get16 gmi pg f (lin + 2) s; Some (push_bit 16 (ucast hi) OR ucast lo, s) }
      else phy_r32 gmi (f lin) s)"

definition put16 :: "'v gmi \<Rightarrow> bool \<Rightarrow> (IU32 \<Rightarrow> IU32) \<Rightarrow> IU32 \<Rightarrow> IU16 \<Rightarrow> 'v sas \<Rightarrow> 'v sas option" where
  "put16 gmi pg f lin v s =
     (if pg \<and> spans 0xffe lin then do { s \<leftarrow> phy_w8 gmi (f lin) (ucast v) s; phy_w8 gmi (f (lin + 1)) (ucast (drop_bit 8 v)) s }
      else phy_w16 gmi (f lin) v s)"

definition put_dword :: "'v gmi \<Rightarrow> bool \<Rightarrow> (IU32 \<Rightarrow> IU32) \<Rightarrow> IU32 \<Rightarrow> IU32 \<Rightarrow> 'v sas \<Rightarrow> 'v sas option" where
  "put_dword gmi pg f lin v s =
     (if pg \<and> spans 0xffc lin then do { s \<leftarrow> put16 gmi pg f lin (ucast v) s; put16 gmi pg f (lin + 2) (ucast (drop_bit 16 v)) s }
      else phy_w32 gmi (f lin) v s)"

lemma ready_read_byte: "ready c lin w p \<Longrightarrow> spr_read_byte gmi lin c = phy_get (phy_r8 gmi p) c"
  using ready_map_address [of c lin w p 0 gmi] by (simp add: spr_read_byte_def m_bind_def)

lemma ready_write_byte: "ready c lin True p \<Longrightarrow> spr_write_byte gmi lin v c = phy_put (phy_w8 gmi p v) c"
  using ready_map_address [of c lin True p 1 gmi] by (simp add: spr_write_byte_def m_bind_def)

lemma ready_read_word:
  assumes "ready c lin w (f lin)" "ready c (lin + 1) w (f (lin + 1))"
  shows "spr_read_word gmi lin c = phy_get (get16 gmi (GET_PG (core_cpu c)) f lin) c"
proof (cases "GET_PG (core_cpu c) \<and> spans 0xffe lin")
  case True
  have "spr_read_byte gmi (lin + 1) (set_phys s c) = phy_get (phy_r8 gmi (f (lin + 1))) (set_phys s c)" for s by (rule ready_read_byte [where w = w]) (simp add: assms(2))
  then show ?thesis using True ready_read_byte [OF assms(1), of gmi]
    by (auto simp: spr_read_word_def m_get_def m_bind_def m_ret_def get16_def phy_get_def split: option.split bind_split)
next
  case False
  then show ?thesis using ready_map_address [OF assms(1), of 0 gmi] by (auto simp: spr_read_word_def m_get_def m_bind_def get16_def phy_get_def)
qed

lemma ready_write_word:
  assumes "ready c lin True (f lin)" "ready c (lin + 1) True (f (lin + 1))"
  shows "spr_write_word gmi lin v c = phy_put (put16 gmi (GET_PG (core_cpu c)) f lin v) c"
proof (cases "GET_PG (core_cpu c) \<and> spans 0xffe lin")
  case True
  have "spr_write_byte gmi (lin + 1) x (set_phys s c) = phy_put (phy_w8 gmi (f (lin + 1)) x) (set_phys s c)" for s x by (rule ready_write_byte) (simp add: assms(2))
  then show ?thesis using True ready_write_byte [OF assms(1), of gmi]
    by (auto simp: spr_write_word_def m_get_def m_bind_def put16_def phy_put_def split: option.split bind_split)
next
  case False
  then show ?thesis using ready_map_address [OF assms(1), of 1 gmi] by (auto simp: spr_write_word_def m_get_def m_bind_def put16_def phy_put_def)
qed

lemma ready_read_dword:
  assumes "\<forall>k < 4. ready c (lin + of_nat k) w (f (lin + of_nat k))"
  shows "spr_read_dword gmi lin c = phy_get (get32 gmi (GET_PG (core_cpu c)) f lin) c"
proof -
  have r: "ready c lin w (f lin)" "ready c (lin + 1) w (f (lin + 1))" "ready c (lin + 2) w (f (lin + 2))" "ready c (lin + 2 + 1) w (f (lin + 2 + 1))"
    using assms [rule_format, of 0] assms [rule_format, of 1] assms [rule_format, of 2] assms [rule_format, of 3] by (simp_all add: add.assoc)
  show ?thesis
  proof (cases "GET_PG (core_cpu c) \<and> spans 0xffc lin")
    case True
    have "spr_read_word gmi (lin + 2) (set_phys s c) = phy_get (get16 gmi (GET_PG (core_cpu (set_phys s c))) f (lin + 2)) (set_phys s c)" for s by (rule ready_read_word [where w = w]) (use r(3,4) in simp_all)
    then show ?thesis using True ready_read_word [of c lin w f gmi, OF r(1,2)]
      by (auto simp: spr_read_dword_def m_get_def m_bind_def m_ret_def get32_def phy_get_def split: option.split bind_split)
  next
    case False
    then show ?thesis using ready_map_address [OF r(1), of 0 gmi] by (auto simp: spr_read_dword_def m_get_def m_bind_def get32_def phy_get_def)
  qed
qed

lemma ready_write_dword:
  assumes "\<forall>k < 4. ready c (lin + of_nat k) True (f (lin + of_nat k))"
  shows "spr_write_dword gmi lin v c = phy_put (put_dword gmi (GET_PG (core_cpu c)) f lin v) c"
proof -
  have r: "ready c lin True (f lin)" "ready c (lin + 1) True (f (lin + 1))" "ready c (lin + 2) True (f (lin + 2))" "ready c (lin + 2 + 1) True (f (lin + 2 + 1))"
    using assms [rule_format, of 0] assms [rule_format, of 1] assms [rule_format, of 2] assms [rule_format, of 3] by (simp_all add: add.assoc)
  show ?thesis
  proof (cases "GET_PG (core_cpu c) \<and> spans 0xffc lin")
    case True
    have "spr_write_word gmi (lin + 2) x (set_phys s c) = phy_put (put16 gmi (GET_PG (core_cpu (set_phys s c))) f (lin + 2) x) (set_phys s c)" for s x
      by (rule ready_write_word) (use r(3,4) in simp_all)
    then show ?thesis using True ready_write_word [of c lin f gmi, OF r(1,2)]
      by (auto simp: spr_write_dword_def m_get_def m_bind_def put_dword_def phy_put_def split: option.split bind_split)
  next
    case False
    then show ?thesis using ready_map_address [OF r(1), of 1 gmi] by (auto simp: spr_write_dword_def m_get_def m_bind_def put_dword_def phy_put_def)
  qed
qed

section \<open>A check makes the translation ready\<close>

lemma spans_iff: "k < 4096 \<Longrightarrow> spans (0xfff - of_nat k) lin \<longleftrightarrow> 4096 \<le> unat lin mod 4096 + k"
proof -
  assume k: "k < 4096"
  have u: "unat (of_nat k :: IU32) = k" using k by (simp add: unat_of_nat)
  then have "of_nat k \<le> (0xfff :: IU32)" using k by (simp add: word_le_nat_alt)
  then have "unat (0xfff - of_nat k :: IU32) = 0xfff - k" using u by (simp add: unat_sub)
  then show ?thesis using k unfolding spans_def word_less_nat_alt page_base_div by auto
qed

lemma lin2phy_caches_frame:
  assumes wf: "tlb_wf s" "coherent s" "tables_in_ram s lin" "access < 4" and l: "lin2phy gmi lin access s = Some (Inr a, s')"
  shows "cached s' lin (odd access) (pte_of s lin AND 0xfffff000)" "lin2phy_post lin access s (Inr a) s'" "bit (pde_of s lin) 0" "bit (pte_of s lin) 0"
proof -
  show po: "lin2phy_post lin access s (Inr a) s'" using lin2phy_ok [OF wf, of gmi] l by auto
  then have k: "cpu s' = cpu s" "RAM.marked (phys s) (phys s')" "coherent s'" "Inr a = translate s lin access" by (auto simp: lin2phy_post_def)
  show b: "bit (pde_of s lin) 0" "bit (pte_of s lin) 0" using k(4) by (auto simp: translate_def split: if_splits)
  obtain pa where c: "cached s' lin (odd access) pa" using lin2phy_cached [OF wf l] by blast
  then obtain i where i: "i < 4" "holds_page (tlb s' i (tlb_entry lin)) lin" "tlb_pa (tlb s' i (tlb_entry lin)) = pa" by (auto simp: cached_def)
  have "agrees s' (tlb s' i (tlb_entry lin))" using k(3) i entry_part(2) [of lin] by (auto simp: coherent_def holds_page_def)
  then have "pa = pte_of s' (lin AND NOT 0xfff) AND 0xfffff000" using i by (simp add: agrees_def holds_page_def)
  also have "\<dots> = pte_of s lin AND 0xfffff000" unfolding same_page using same_frame [OF marked_tables(4) [OF k(2,1) wf(3) b(1)]] by simp
  finally show "cached s' lin (odd access) (pte_of s lin AND 0xfffff000)" using c by simp
qed

lemma translate_page:
  assumes "a AND NOT 0xfff = lin AND NOT 0xfff" "translate s lin access = Inr p"
  shows "translate s a access = Inr ((pte_of s lin AND 0xfffff000) OR (a AND 0xfff))"
proof -
  have "pde_of s a = pde_of s lin" "pte_of s a = pte_of s lin" using same_page(3,4) [where lin = a and s = s] same_page(3,4) [where lin = lin and s = s] assms(1) by metis+
  then show ?thesis using assms(2) by (auto simp: translate_def split: if_splits)
qed

lemma marked_translate:
  assumes "RAM.marked (phys s) (phys s')" "cpu s' = cpu s" "tables_in_ram s lin"
  shows "translate s' lin access = translate s lin access"
proof -
  note m = marked_tables [OF assms]
  have d: "bit (pde_of s' lin) 0 = bit (pde_of s lin) 0" "bit (pde_of s' lin) 1 = bit (pde_of s lin) 1" "bit (pde_of s' lin) 2 = bit (pde_of s lin) 2"
    using same_frame [OF m(2)] by simp_all
  show ?thesis
  proof (cases "bit (pde_of s lin) 0")
    case True
    have "bit (pte_of s' lin) 0 = bit (pte_of s lin) 0" "bit (pte_of s' lin) 1 = bit (pte_of s lin) 1" "bit (pte_of s' lin) 2 = bit (pte_of s lin) 2"
      "pte_of s' lin AND 0xfffff000 = pte_of s lin AND 0xfffff000" using same_frame [OF m(4) [OF True]] by simp_all
    then show ?thesis using d unfolding translate_def permitted_def by auto
  qed (use d in \<open>simp add: translate_def\<close>)
qed

text \<open>What a successful check leaves: every byte of the item has its translation ready, and it is the one of the page tables.\<close>

definition checked :: "'v core \<Rightarrow> IU32 \<Rightarrow> nat \<Rightarrow> nat \<Rightarrow> 'v core \<Rightarrow> bool" where
  "checked c lin k access c' \<longleftrightarrow> core_cpu c' = core_cpu c \<and> core_dbg c' = core_dbg c \<and>
     (\<forall>j \<le> k. \<exists>p. ready c' (lin + of_nat j) (odd access) p \<and> translate (core_mmu c) (lin + of_nat j) access = Inr p)"

lemma page_ready:
  assumes "tlb_wf m" "cached m lin w (pte_of s lin AND 0xfffff000)" "translate s lin access = Inr q" "unat a div 4096 = unat lin div 4096" "GET_PG (cpu m)"
  shows "\<exists>p. ready (c\<lparr>core_mmu := m\<rparr>) a w p \<and> translate s a access = Inr p"
proof -
  have e: "a AND NOT 0xfff = lin AND NOT 0xfff" using assms(4) unfolding same_page_iff .
  show ?thesis using translate_page [OF e assms(3)] assms(1,2,5) same_page_cached [OF e] by (auto simp: ready_def)
qed

lemma chk_item_checked:
  assumes wf: "tlb_wf (core_mmu c)" "coherent (core_mmu c)" and t: "tables_in_ram (core_mmu c) lin" "tables_in_ram (core_mmu c) (lin + of_nat k)"
    and a: "access < 4" "k < 4096" and pg: "GET_PG (core_cpu c)" and l: "chk_item gmi (0xfff - of_nat k) (of_nat k) lin access c = Some (Inr phy, c')"
  shows "checked c lin k access c'" "phy = 0 \<or> \<not> spans (0xfff - of_nat k) lin \<and> translate (core_mmu c) lin access = Inr phy"
proof -
  let ?s = "core_mmu c"
  obtain r s1 where 1: "lin2phy gmi lin access ?s = Some (r, s1)" using lin2phy_ok [OF wf t(1) a(1), of gmi] by blast
  obtain x where x: "r = Inr x" using l 1 by (cases r) (auto simp: chk_item_def m_bind_def lin2phy_m_def)
  note c1 = lin2phy_caches_frame [OF wf t(1) a(1) 1 [unfolded x]]
  have p1: "cpu s1 = cpu ?s" "RAM.marked (phys ?s) (phys s1)" "tlb_wf s1" "coherent s1" "translate ?s lin access = Inr x" using c1(2) by (auto simp: lin2phy_post_def)
  show "checked c lin k access c'" "phy = 0 \<or> \<not> spans (0xfff - of_nat k) lin \<and> translate ?s lin access = Inr phy"
  proof (atomize (full), cases "spans (0xfff - of_nat k) lin")
    case False
    then have c': "c' = c\<lparr>core_mmu := s1\<rparr>" "phy = x" using l 1 x by (auto simp: chk_item_def m_bind_def lin2phy_m_def m_ret_def)
    have "\<exists>p. ready c' (lin + of_nat j) (odd access) p \<and> translate ?s (lin + of_nat j) access = Inr p" if "j \<le> k" for j
    proof -
      have j: "j < 4096" using that a(2) by simp
      have "\<not> spans (0xfff - of_nat j) lin" using False that spans_iff [OF a(2)] spans_iff [OF j] by simp
      then have "unat (lin + of_nat j) div 4096 = unat lin div 4096" using next_byte(1) [OF j, of lin] by blast
      then show ?thesis unfolding c' using page_ready [OF p1(3) c1(1) p1(5)] pg p1(1) by simp
    qed
    then show "checked c lin k access c' \<and> (phy = 0 \<or> \<not> spans (0xfff - of_nat k) lin \<and> translate ?s lin access = Inr phy)"
      using False p1(1,5) c' by (simp add: checked_def)
  next
    case sp: True
    let ?l = "lin + of_nat k"
    have t1: "tables_in_ram s1 ?l" using marked_tables(1) [OF p1(2,1) t(2)] .
    obtain r2 s2 where 2: "lin2phy gmi ?l access s1 = Some (r2, s2)" using lin2phy_ok [OF p1(3,4) t1 a(1), of gmi] by blast
    obtain y where y: "r2 = Inr y" using l 1 2 x sp by (cases r2) (auto simp: chk_item_def m_bind_def lin2phy_m_def)
    have c': "c' = c\<lparr>core_mmu := s2\<rparr>" "phy = 0" using l 1 2 x y sp by (auto simp: chk_item_def m_bind_def lin2phy_m_def m_ret_def)
    note c2 = lin2phy_caches_frame [OF p1(3,4) t1 a(1) 2 [unfolded y]]
    have p2: "cpu s2 = cpu s1" "tlb_wf s2" "translate s1 ?l access = Inr y" using c2(2) by (auto simp: lin2phy_post_def)
    have k1: "cached s2 lin (odd access) (pte_of ?s lin AND 0xfffff000)"
      by (rule lin2phy_keeps_cached [OF p1(3) 2 next_page_row [OF a(2) sp] c1(1)])
    have tl: "translate ?s ?l access = Inr y" using p2(3) marked_translate [OF p1(2,1) t(2)] by simp
    have "pte_of s1 ?l AND 0xfffff000 = pte_of ?s ?l AND 0xfffff000"
      using same_frame [OF marked_tables(4) [OF p1(2,1) t(2)]] tl by (auto simp: translate_def split: if_splits)
    then have k2: "cached s2 ?l (odd access) (pte_of ?s ?l AND 0xfffff000)" using c2(1) by simp
    have pg2: "GET_PG (cpu s2)" using pg p1(1) p2(1) by simp
    have "\<exists>p. ready c' (lin + of_nat j) (odd access) p \<and> translate ?s (lin + of_nat j) access = Inr p" if "j \<le> k" for j
      using next_byte(2) [OF a(2) sp] that page_ready [OF p2(2) k1 p1(5) _ pg2, of "lin + of_nat j" c] page_ready [OF p2(2) k2 tl _ pg2, of "lin + of_nat j" c]
      unfolding c' by blast
    then show "checked c lin k access c' \<and> (phy = 0 \<or> \<not> spans (0xfff - of_nat k) lin \<and> translate ?s lin access = Inr phy)"
      using p1(1) p2(1) c' by (simp add: checked_def)
  qed
qed

definition to_phys :: "'v core \<Rightarrow> nat \<Rightarrow> IU32 \<Rightarrow> IU32" where
  "to_phys c access lin =
     (if GET_PG (core_cpu c) then (case translate (core_mmu c) lin (usr_access access (core_cpu c)) of Inr p \<Rightarrow> p | Inl _ \<Rightarrow> 0) else lin)"

lemma usr_access_facts:
  assumes "access = PG_R \<or> access = PG_W" shows "usr_access access s < 4" "odd (usr_access access s) = (access = PG_W)"
proof -
  have "(0 :: nat) OR 2 = 2" "(1 :: nat) OR 2 = 3" by simp_all
  then show "usr_access access s < 4" "odd (usr_access access s) = (access = PG_W)" using assms by (auto simp: usr_access_def)
qed

text \<open>The check of an item of \<open>k + 1\<close> bytes, with paging on or off.\<close>

definition usr_chk :: "'v gmi \<Rightarrow> nat \<Rightarrow> IU32 \<Rightarrow> nat \<Rightarrow> ('v, IU32) m" where
  "usr_chk gmi k lin access = m_get (\<lambda>c.
     if GET_PG (core_cpu c) then chk_item gmi (0xfff - of_nat k) (of_nat k) lin (usr_access access (core_cpu c)) else m_ret lin)"

lemma usr_chk_items: "usr_chk_word gmi = usr_chk gmi 1" "usr_chk_dword gmi = usr_chk gmi 3"
proof -
  have k: "of_nat 1 = (1 :: IU32)" "of_nat 3 = (3 :: IU32)" "(0xfff - 1 :: IU32) = 0xffe" "(0xfff - 3 :: IU32) = 0xffc" by simp_all
  show "usr_chk_word gmi = usr_chk gmi 1" unfolding fun_eq_iff usr_chk_def usr_chk_word_def k by (intro allI refl)
  show "usr_chk_dword gmi = usr_chk gmi 3" unfolding fun_eq_iff usr_chk_def usr_chk_dword_def k by (intro allI refl)
qed

lemma usr_chk_ready:
  assumes wf: "tlb_wf (core_mmu c)" "coherent (core_mmu c)" "tables_in_ram (core_mmu c) lin" "tables_in_ram (core_mmu c) (lin + of_nat k)"
    and a: "access = PG_R \<or> access = PG_W" "k < 4096" and l: "usr_chk gmi k lin access c = Some (Inr phy, c')"
  shows "core_cpu c' = core_cpu c" "core_dbg c' = core_dbg c" "j \<le> k \<Longrightarrow> ready c' (lin + of_nat j) (access = PG_W) (to_phys c access (lin + of_nat j))"
    "phy = 0 \<or> \<not> (GET_PG (core_cpu c) \<and> spans (0xfff - of_nat k) lin) \<and> phy = to_phys c access lin"
proof -
  let ?a = "usr_access access (core_cpu c)"
  have all: "core_cpu c' = core_cpu c \<and> core_dbg c' = core_dbg c \<and> (\<forall>j \<le> k. ready c' (lin + of_nat j) (access = PG_W) (to_phys c access (lin + of_nat j))) \<and>
    (phy = 0 \<or> \<not> (GET_PG (core_cpu c) \<and> spans (0xfff - of_nat k) lin) \<and> phy = to_phys c access lin)"
  proof (cases "GET_PG (core_cpu c)")
    case True
    then have "chk_item gmi (0xfff - of_nat k) (of_nat k) lin ?a c = Some (Inr phy, c')" using l by (simp add: usr_chk_def m_get_def)
    note ck = chk_item_checked [OF wf usr_access_facts(1) [OF a(1)] a(2) True this]
    have "\<forall>j \<le> k. ready c' (lin + of_nat j) (access = PG_W) (to_phys c access (lin + of_nat j))"
    proof (intro allI impI)
      fix j assume "j \<le> k"
      then obtain p where "ready c' (lin + of_nat j) (odd ?a) p" "translate (core_mmu c) (lin + of_nat j) ?a = Inr p" using ck(1) unfolding checked_def by blast
      then show "ready c' (lin + of_nat j) (access = PG_W) (to_phys c access (lin + of_nat j))" using True usr_access_facts(2) [OF a(1)] by (simp add: to_phys_def)
    qed
    moreover have "phy = 0 \<or> \<not> spans (0xfff - of_nat k) lin \<and> phy = to_phys c access lin" using ck(2) True by (auto simp: to_phys_def)
    ultimately show ?thesis using ck(1) unfolding checked_def by blast
  next
    case False
    then show ?thesis using l by (auto simp: usr_chk_def m_get_def m_ret_def ready_def to_phys_def)
  qed
  then show "core_cpu c' = core_cpu c" "core_dbg c' = core_dbg c" "j \<le> k \<Longrightarrow> ready c' (lin + of_nat j) (access = PG_W) (to_phys c access (lin + of_nat j))"
    "phy = 0 \<or> \<not> (GET_PG (core_cpu c) \<and> spans (0xfff - of_nat k) lin) \<and> phy = to_phys c access lin" by auto
qed

lemma data_break_ready:
  obtains d where "data_break lin attr sz c = Some (Inr (), c\<lparr>core_dbg := d\<rparr>)"
proof (cases "nr_data_break (core_dbg c) = 0")
  case True
  then show ?thesis using that [of "core_dbg c"] by (simp add: data_break_def)
next
  case False
  then show ?thesis using that [of "check_for_data_exception lin attr sz (core_dbg c)"] by (simp add: data_break_def)
qed

lemma checked_word:
  assumes wf: "tlb_wf (core_mmu c)" "coherent (core_mmu c)" "tables_in_ram (core_mmu c) lin" "tables_in_ram (core_mmu c) (lin + 1)"
    and a: "access = PG_R \<or> access = PG_W" and l: "usr_chk_word gmi lin access c = Some (Inr phy, c')" and p: "p = phy \<or> p = NO_PHYSICAL_MAPPING"
  shows "vir_read_word gmi lin p c' = m_bind (data_break lin D_R 1) (\<lambda>_. phy_get (get16 gmi (GET_PG (core_cpu c)) (to_phys c access) lin)) c'"
    "access = PG_W \<Longrightarrow> vir_write_word gmi lin p v c' = m_bind (data_break lin D_W 1) (\<lambda>_. phy_put (put16 gmi (GET_PG (core_cpu c)) (to_phys c access) lin v)) c'"
proof -
  have t: "tables_in_ram (core_mmu c) (lin + of_nat 1)" using wf(4) by simp
  have k: "(1 :: nat) < 4096" by simp
  note u = usr_chk_ready [OF wf(1-3) t a k l [unfolded usr_chk_items]]
  have r: "ready c' lin (access = PG_W) (to_phys c access lin)" "ready c' (lin + 1) (access = PG_W) (to_phys c access (lin + 1))" using u(3) [of 0] u(3) [of 1] by simp_all
  have sp: "p \<noteq> 0 \<Longrightarrow> \<not> (GET_PG (core_cpu c) \<and> spans 0xffe lin) \<and> p = to_phys c access lin" using u(4) p by auto
  obtain d where d: "data_break lin D_R 1 c' = Some (Inr (), c'\<lparr>core_dbg := d\<rparr>)" by (rule data_break_ready)
  have "spr_read_word gmi lin (c'\<lparr>core_dbg := d\<rparr>) = phy_get (get16 gmi (GET_PG (core_cpu c)) (to_phys c access) lin) (c'\<lparr>core_dbg := d\<rparr>)"
    using ready_read_word [of "c'\<lparr>core_dbg := d\<rparr>" lin "access = PG_W" "to_phys c access" gmi] r u(1) by simp
  then show "vir_read_word gmi lin p c' = m_bind (data_break lin D_R 1) (\<lambda>_. phy_get (get16 gmi (GET_PG (core_cpu c)) (to_phys c access) lin)) c'"
    using d sp by (auto simp: vir_read_word_def m_bind_def get16_def phy_get_def)
  assume w: "access = PG_W"
  obtain d where d: "data_break lin D_W 1 c' = Some (Inr (), c'\<lparr>core_dbg := d\<rparr>)" by (rule data_break_ready)
  have "spr_write_word gmi lin v (c'\<lparr>core_dbg := d\<rparr>) = phy_put (put16 gmi (GET_PG (core_cpu c)) (to_phys c access) lin v) (c'\<lparr>core_dbg := d\<rparr>)"
    using ready_write_word [of "c'\<lparr>core_dbg := d\<rparr>" lin "to_phys c access" gmi v] r u(1) w by simp
  then show "vir_write_word gmi lin p v c' = m_bind (data_break lin D_W 1) (\<lambda>_. phy_put (put16 gmi (GET_PG (core_cpu c)) (to_phys c access) lin v)) c'"
    using d sp by (auto simp: vir_write_word_def m_bind_def put16_def phy_put_def)
qed

lemma checked_dword:
  assumes wf: "tlb_wf (core_mmu c)" "coherent (core_mmu c)" "tables_in_ram (core_mmu c) lin" "tables_in_ram (core_mmu c) (lin + 3)"
    and a: "access = PG_R \<or> access = PG_W" and l: "usr_chk_dword gmi lin access c = Some (Inr phy, c')" and p: "p = phy \<or> p = NO_PHYSICAL_MAPPING"
  shows "vir_read_dword gmi lin p c' = m_bind (data_break lin D_R 3) (\<lambda>_. phy_get (get32 gmi (GET_PG (core_cpu c)) (to_phys c access) lin)) c'"
    "access = PG_W \<Longrightarrow> vir_write_dword gmi lin p v c' = m_bind (data_break lin D_W 3) (\<lambda>_. phy_put (put_dword gmi (GET_PG (core_cpu c)) (to_phys c access) lin v)) c'"
proof -
  have t: "tables_in_ram (core_mmu c) (lin + of_nat 3)" using wf(4) by simp
  have k: "(3 :: nat) < 4096" by simp
  note u = usr_chk_ready [OF wf(1-3) t a k l [unfolded usr_chk_items]]
  have r: "\<forall>j < 4. ready c' (lin + of_nat j) (access = PG_W) (to_phys c access (lin + of_nat j))" using u(3) by simp
  have sp: "p \<noteq> 0 \<Longrightarrow> \<not> (GET_PG (core_cpu c) \<and> spans 0xffc lin) \<and> p = to_phys c access lin" using u(4) p by auto
  obtain d where d: "data_break lin D_R 3 c' = Some (Inr (), c'\<lparr>core_dbg := d\<rparr>)" by (rule data_break_ready)
  have "spr_read_dword gmi lin (c'\<lparr>core_dbg := d\<rparr>) = phy_get (get32 gmi (GET_PG (core_cpu c)) (to_phys c access) lin) (c'\<lparr>core_dbg := d\<rparr>)"
    using ready_read_dword [of "c'\<lparr>core_dbg := d\<rparr>" lin "access = PG_W" "to_phys c access" gmi] r u(1) by simp
  then show "vir_read_dword gmi lin p c' = m_bind (data_break lin D_R 3) (\<lambda>_. phy_get (get32 gmi (GET_PG (core_cpu c)) (to_phys c access) lin)) c'"
    using d sp by (auto simp: vir_read_dword_def m_bind_def get32_def phy_get_def)
  assume w: "access = PG_W"
  obtain d where d: "data_break lin D_W 3 c' = Some (Inr (), c'\<lparr>core_dbg := d\<rparr>)" by (rule data_break_ready)
  have "spr_write_dword gmi lin v (c'\<lparr>core_dbg := d\<rparr>) = phy_put (put_dword gmi (GET_PG (core_cpu c)) (to_phys c access) lin v) (c'\<lparr>core_dbg := d\<rparr>)"
    using ready_write_dword [of "c'\<lparr>core_dbg := d\<rparr>" lin "to_phys c access" gmi v] r u(1) w by simp
  then show "vir_write_dword gmi lin p v c' = m_bind (data_break lin D_W 3) (\<lambda>_. phy_put (put_dword gmi (GET_PG (core_cpu c)) (to_phys c access) lin v)) c'"
    using d sp by (auto simp: vir_write_dword_def m_bind_def put_dword_def phy_put_def)
qed

lemma chk_item_total:
  assumes wf: "tlb_wf (core_mmu c)" "coherent (core_mmu c)" and t: "tables_in_ram (core_mmu c) lin" "tables_in_ram (core_mmu c) (lin + k)" and a: "access < 4"
  shows "\<exists>r c'. chk_item gmi l k lin access c = Some (r, c') \<and>
    (\<forall>f. r = Inl f \<longrightarrow> (\<exists>pf. f = PageFault pf \<and> (translate (core_mmu c) lin access = Inl (unat (fst pf)) \<or> translate (core_mmu c) (lin + k) access = Inl (unat (fst pf)))))"
proof -
  let ?s = "core_mmu c"
  obtain q s1 where 1: "lin2phy gmi lin access ?s = Some (q, s1)" "lin2phy_post lin access ?s q s1" using lin2phy_ok [OF wf t(1) a, of gmi] by blast
  show ?thesis
  proof (cases q)
    case (Inl pf)
    have "translate ?s lin access = Inl (unat (fst pf))" using 1(2) Inl by (simp add: lin2phy_post_def)
    moreover have "chk_item gmi l k lin access c = Some (Inl (PageFault pf), c\<lparr>core_mmu := s1\<rparr>)" using 1(1) Inl by (simp add: chk_item_def m_bind_def lin2phy_m_def)
    ultimately show ?thesis by blast
  next
    case (Inr p)
    then have p1: "cpu s1 = cpu ?s" "RAM.marked (phys ?s) (phys s1)" "tlb_wf s1" "coherent s1" using 1(2) by (auto simp: lin2phy_post_def)
    obtain q2 s2 where 2: "lin2phy gmi (lin + k) access s1 = Some (q2, s2)" "lin2phy_post (lin + k) access s1 q2 s2"
      using lin2phy_ok [OF p1(3,4) marked_tables(1) [OF p1(2,1) t(2)] a, of gmi] by blast
    have "map_sum (\<lambda>pf. unat (fst pf)) id q2 = translate ?s (lin + k) access" using 2(2) marked_translate [OF p1(2,1) t(2)] by (simp add: lin2phy_post_def)
    then show ?thesis using 1(1) 2(1) Inr by (cases q2) (auto simp: chk_item_def m_bind_def lin2phy_m_def m_ret_def)
  qed
qed

lemma usr_chk_admitted:
  assumes wf: "tlb_wf (core_mmu c)" "coherent (core_mmu c)" "tables_in_ram (core_mmu c) lin" "tables_in_ram (core_mmu c) (lin + of_nat k)"
    and a: "access = PG_R \<or> access = PG_W" "k < 4096" and l: "usr_chk gmi k lin access c = Some (Inr phy, c')" and pg: "GET_PG (core_cpu c)" "j \<le> k"
  shows "translate (core_mmu c) (lin + of_nat j) (usr_access access (core_cpu c)) = Inr (to_phys c access (lin + of_nat j))"
proof -
  have "chk_item gmi (0xfff - of_nat k) (of_nat k) lin (usr_access access (core_cpu c)) c = Some (Inr phy, c')" using l pg(1) by (simp add: usr_chk_def m_get_def)
  note chk_item_checked(1) [OF wf usr_access_facts(1) [OF a(1)] a(2) pg(1) this]
  then obtain p where "translate (core_mmu c) (lin + of_nat j) (usr_access access (core_cpu c)) = Inr p" using pg(2) unfolding checked_def by blast
  then show ?thesis using pg(1) by (simp add: to_phys_def)
qed

text \<open>
  C14. The contract of the memory accesses of the CPU. The check of a double word at the current privilege returns, and
  faults only with a page fault that the page tables give for the first or the last byte. A check that succeeds
  implies that the page tables admit the access to all four bytes. After it, the
  read of the double word, and the write of it if the check was for writing, cannot fault, even though they translate again
  with the rights of the supervisor where the item crosses a page: they report the access to the debug registers and make exactly the physical
  accesses, one or one for each byte at the page crossing, at the addresses to which the page tables map the item.
\<close>

theorem checked_access_never_faults:
  assumes "tlb_wf (core_mmu c)" "coherent (core_mmu c)" "tables_in_ram (core_mmu c) lin" "tables_in_ram (core_mmu c) (lin + 3)" "access = PG_R \<or> access = PG_W"
  shows "\<exists>r c'. usr_chk_dword gmi lin access c = Some (r, c') \<and>
    (case r of Inl f \<Rightarrow> GET_PG (core_cpu c) \<and> (\<exists>pf. f = PageFault pf \<and>
         (translate (core_mmu c) lin (usr_access access (core_cpu c)) = Inl (unat (fst pf)) \<or> translate (core_mmu c) (lin + 3) (usr_access access (core_cpu c)) = Inl (unat (fst pf))))
     | Inr phy \<Rightarrow>
         (GET_PG (core_cpu c) \<longrightarrow> (\<forall>j \<le> 3. translate (core_mmu c) (lin + of_nat j) (usr_access access (core_cpu c)) = Inr (to_phys c access (lin + of_nat j)))) \<and>
         vir_read_dword gmi lin phy c' = m_bind (data_break lin D_R 3) (\<lambda>_. phy_get (get32 gmi (GET_PG (core_cpu c)) (to_phys c access) lin)) c' \<and>
         (access = PG_W \<longrightarrow> (\<forall>v. vir_write_dword gmi lin phy v c' =
            m_bind (data_break lin D_W 3) (\<lambda>_. phy_put (put_dword gmi (GET_PG (core_cpu c)) (to_phys c access) lin v)) c')))"
proof -
  obtain r c' where l: "usr_chk_dword gmi lin access c = Some (r, c')" and
    f: "\<forall>f. r = Inl f \<longrightarrow> GET_PG (core_cpu c) \<and> (\<exists>pf. f = PageFault pf \<and>
         (translate (core_mmu c) lin (usr_access access (core_cpu c)) = Inl (unat (fst pf)) \<or> translate (core_mmu c) (lin + 3) (usr_access access (core_cpu c)) = Inl (unat (fst pf))))"
    using chk_item_total [OF assms(1-4) usr_access_facts(1) [OF assms(5), where s = "core_cpu c"], where gmi = gmi and l = "0xffc"]
    by (cases "GET_PG (core_cpu c)") (auto simp: usr_chk_dword_def m_get_def m_ret_def)
  show ?thesis
  proof (cases r)
    case (Inr phy)
    have p: "phy = phy \<or> phy = NO_PHYSICAL_MAPPING" by simp
    have t: "GET_PG (core_cpu c) \<longrightarrow> (\<forall>j \<le> 3. translate (core_mmu c) (lin + of_nat j) (usr_access access (core_cpu c)) = Inr (to_phys c access (lin + of_nat j)))"
      using usr_chk_admitted [OF assms(1-3) _ assms(5) _ l [unfolded Inr usr_chk_items]] assms(4) by simp
    show ?thesis using l Inr t checked_dword [OF assms l [unfolded Inr] p] by auto
  qed (use l f in auto)
qed

text \<open>A user program reads a double word in the page that the example tables map to physical page 3; its check for writing faults with code 7.\<close>

definition demo_core :: "ccpu \<Rightarrow> unit core" where
  "demo_core c = \<lparr>core_mmu = demo_mmu 0x2007 0x3005 (SET_CR 0 0x80000001 (c\<lparr>CCPU_CPL := 3\<rparr>)), core_dbg = demo_debug, core_xcp = xcptn0\<rparr>"

lemma demo_core_facts:
  "tlb_wf (core_mmu (demo_core c))" "coherent (core_mmu (demo_core c))" "GET_PG (core_cpu (demo_core c))" "CCPU_CPL (core_cpu (demo_core c)) = 3"
  "tables_in_ram (core_mmu (demo_core c)) 0x5123" "tables_in_ram (core_mmu (demo_core c)) 0x5126"
  "translate (core_mmu (demo_core c)) 0x5123 2 = Inr 0x3123" "translate (core_mmu (demo_core c)) 0x5126 2 = Inr 0x3126" "translate (core_mmu (demo_core c)) 0x5123 3 = Inl 7"
  "translate (core_mmu (demo_core c)) 0x5126 3 = Inl 7"
proof -
  let ?d = "SET_CR 0 0x80000001 (c\<lparr>CCPU_CPL := 3\<rparr>)"
  have m: "core_mmu (demo_core c) = demo_mmu 0x2007 0x3005 ?d" by (simp add: demo_core_def)
  show "tlb_wf (core_mmu (demo_core c))" "coherent (core_mmu (demo_core c))" unfolding m by (rule demo_wf)+
  show "tables_in_ram (core_mmu (demo_core c)) 0x5123" unfolding m by (rule demo_tables)
  show "translate (core_mmu (demo_core c)) 0x5123 2 = Inr 0x3123" "translate (core_mmu (demo_core c)) 0x5123 3 = Inl 7" unfolding m by (rule demo_translate)+
  show "GET_PG (core_cpu (demo_core c))" "CCPU_CPL (core_cpu (demo_core c)) = 3" unfolding m by (simp_all add: demo_mmu_def SET_CR_def)
  have e: "(0x5126 :: IU32) AND NOT 0xfff = 0x5123 AND NOT 0xfff" by simp
  have p: "pde_of (core_mmu (demo_core c)) 0x5126 = 0x2007" "pte_of (core_mmu (demo_core c)) 0x5126 = 0x3005"
    using demo_tables(1,2) [of ?d] same_page(3,4) [where lin = "0x5126" and s = "core_mmu (demo_core c)"] same_page(3,4) [where lin = "0x5123" and s = "core_mmu (demo_core c)"] e unfolding m by metis+
  have a: "pde_addr 0x5126 (core_mmu (demo_core c)) = 0x1000" unfolding m by (simp add: pde_addr_def demo_mmu_def SET_CR_def)
  show "tables_in_ram (core_mmu (demo_core c)) 0x5126"
    unfolding tables_in_ram_def a p by (simp add: pte_addr_def) (simp add: ram32_def m demo_mmu_def READ_SELF_MOD_def)
  show "translate (core_mmu (demo_core c)) 0x5126 2 = Inr 0x3126" "translate (core_mmu (demo_core c)) 0x5126 3 = Inl 7"
    unfolding translate_def p by (simp_all add: permitted_def bit_numeral_rec)
qed

theorem checked_access_never_faults_witness:
  "\<forall>gmi c. (\<exists>phy c'. usr_chk_dword gmi 0x5123 PG_R (demo_core c) = Some (Inr phy, c') \<and> to_phys (demo_core c) PG_R 0x5123 = 0x3123 \<and>
      vir_read_dword gmi 0x5123 phy c' = m_bind (data_break 0x5123 D_R 3) (\<lambda>_. phy_get (get32 gmi True (to_phys (demo_core c) PG_R) 0x5123)) c') \<and>
    (\<exists>pf c'. usr_chk_dword gmi 0x5123 PG_W (demo_core c) = Some (Inl (PageFault pf), c') \<and> unat (fst pf) = 7)"
proof (intro allI conjI)
  fix gmi :: "unit gmi" and c
  note d = demo_core_facts [of c]
  have u: "usr_access PG_R (core_cpu (demo_core c)) = 2" "usr_access PG_W (core_cpu (demo_core c)) = 3" using d(4) by (simp_all add: usr_access_def)
  have a: "PG_R = PG_R \<or> PG_R = PG_W" "PG_W = PG_R \<or> PG_W = PG_W" by simp_all
  have t: "tables_in_ram (core_mmu (demo_core c)) (0x5123 + 3)" using d(6) by simp
  obtain r c' where r: "usr_chk_dword gmi 0x5123 PG_R (demo_core c) = Some (r, c')" "case r of Inl _ \<Rightarrow> False | Inr phy \<Rightarrow>
      vir_read_dword gmi 0x5123 phy c' = m_bind (data_break 0x5123 D_R 3) (\<lambda>_. phy_get (get32 gmi True (to_phys (demo_core c) PG_R) 0x5123)) c'"
    using checked_access_never_faults [OF d(1,2,5) t a(1), of gmi] d(3,7,8) unfolding u by (elim exE) (rename_tac r c', case_tac r; auto)
  moreover have "to_phys (demo_core c) PG_R 0x5123 = 0x3123" using d(3,7) u(1) by (simp add: to_phys_def)
  ultimately show "\<exists>phy c'. usr_chk_dword gmi 0x5123 PG_R (demo_core c) = Some (Inr phy, c') \<and> to_phys (demo_core c) PG_R 0x5123 = 0x3123 \<and>
      vir_read_dword gmi 0x5123 phy c' = m_bind (data_break 0x5123 D_R 3) (\<lambda>_. phy_get (get32 gmi True (to_phys (demo_core c) PG_R) 0x5123)) c'"
    by (cases r) auto
  obtain r c' where "usr_chk_dword gmi 0x5123 PG_W (demo_core c) = Some (r, c')" "case r of Inl f \<Rightarrow> \<exists>pf. f = PageFault pf \<and> unat (fst pf) = 7 | Inr _ \<Rightarrow> False"
    using checked_access_never_faults [OF d(1,2,5) t a(2), of gmi] d(3,9,10) unfolding u by (elim exE) (rename_tac r c', case_tac r; fastforce)
  then show "\<exists>pf c'. usr_chk_dword gmi 0x5123 PG_W (demo_core c) = Some (Inl (PageFault pf), c') \<and> unat (fst pf) = 7" by (cases r) auto
qed

end
