(* ===== verification/Ccpu_Seg.thy ===== *)
theory Ccpu_Seg
  imports Ccpu_Page_Run Ccpu_Bsic
begin

text \<open>
  Segment registers (\<open>ccpu386/c_seg.c\<close>) and the protection checks they share with stack switches and tasks
  (\<open>c_prot.c\<close>): loading a register from a descriptor in protected mode, or from the selector in real and virtual
  8086 mode.
\<close>

section \<open>Fields of selectors and access rights\<close>

abbreviation (input) NONCONFORM_NOREAD_CODE :: IU16 where "NONCONFORM_NOREAD_CODE \<equiv> 0x19"
abbreviation (input) NONCONFORM_READABLE_CODE :: IU16 where "NONCONFORM_READABLE_CODE \<equiv> 0x1b"
abbreviation (input) CONFORM_NOREAD_CODE :: IU16 where "CONFORM_NOREAD_CODE \<equiv> 0x1d"
abbreviation (input) CONFORM_READABLE_CODE :: IU16 where "CONFORM_READABLE_CODE \<equiv> 0x1f"
abbreviation (input) EXPANDUP_READONLY_DATA :: IU16 where "EXPANDUP_READONLY_DATA \<equiv> 0x11"
abbreviation (input) EXPANDUP_WRITEABLE_DATA :: IU16 where "EXPANDUP_WRITEABLE_DATA \<equiv> 0x13"
abbreviation (input) EXPANDDOWN_READONLY_DATA :: IU16 where "EXPANDDOWN_READONLY_DATA \<equiv> 0x15"
abbreviation (input) EXPANDDOWN_WRITEABLE_DATA :: IU16 where "EXPANDDOWN_WRITEABLE_DATA \<equiv> 0x17"
abbreviation (input) AVAILABLE_TSS :: IU16 where "AVAILABLE_TSS \<equiv> 0x01"
abbreviation (input) BUSY_TSS :: IU16 where "BUSY_TSS \<equiv> 0x03"
abbreviation (input) XTND_AVAILABLE_TSS :: IU16 where "XTND_AVAILABLE_TSS \<equiv> 0x09"
abbreviation (input) XTND_BUSY_TSS :: IU16 where "XTND_BUSY_TSS \<equiv> 0x0b"

definition GET_SELECTOR_RPL :: "IU16 \<Rightarrow> IU32" where "GET_SELECTOR_RPL x = ucast (x AND 3)"
definition SET_SELECTOR_RPL :: "IU16 \<Rightarrow> IU32 \<Rightarrow> IU16" where "SET_SELECTOR_RPL x y = (x AND NOT 3) OR ucast y"
definition GET_AR_P :: "IU16 \<Rightarrow> IU32" where "GET_AR_P x = of_bool (x AND 0x80 \<noteq> 0)"
definition GET_AR_E :: "IU16 \<Rightarrow> IU32" where "GET_AR_E x = of_bool (x AND 4 \<noteq> 0)"
definition GET_AR_C :: "IU16 \<Rightarrow> IU32" where "GET_AR_C x = of_bool (x AND 4 \<noteq> 0)"
definition GET_AR_W :: "IU16 \<Rightarrow> IU32" where "GET_AR_W x = of_bool (x AND 2 \<noteq> 0)"
definition GET_AR_R :: "IU16 \<Rightarrow> IU32" where "GET_AR_R x = of_bool (x AND 2 \<noteq> 0)"
definition GET_AR_X :: "IU16 \<Rightarrow> IU32" where "GET_AR_X x = of_bool (x AND 0x4000 \<noteq> 0)"
definition GET_AR_DPL :: "IU16 \<Rightarrow> IU32" where "GET_AR_DPL x = ucast (drop_bit 5 (x AND 0x60))"

definition set_sr :: "nat \<Rightarrow> (SEGMENT_REGISTER \<Rightarrow> SEGMENT_REGISTER) \<Rightarrow> ccpu \<Rightarrow> ccpu" where
  "set_sr i f s = s\<lparr>CCPU_SR := (CCPU_SR s)(i := f (CCPU_SR s i))\<rparr>"

abbreviation real_mode :: "ccpu \<Rightarrow> bool" where "real_mode s \<equiv> \<not> GET_PE s \<or> GET_VM s = 1"

text \<open>The descriptor, read with the supervisor reads of \<open>c_page.c\<close>.\<close>

definition read_descr :: "'v gmi \<Rightarrow> IU32 \<Rightarrow> ('v, CPU_DESCR) m" where
  "read_descr gmi addr =
     m_bind (spr_read_dword gmi addr) (\<lambda>d1. m_bind (spr_read_dword gmi (addr + 4)) (\<lambda>d2.
       case read_descriptor_linear ((\<lambda>_. Inr d2)(addr := Inr d1)) addr of Inl f \<Rightarrow> m_fault f | Inr e \<Rightarrow> m_ret e))"

text \<open>The mark that the segment has been accessed.\<close>

definition mark_accessed :: "'v gmi \<Rightarrow> IU32 \<Rightarrow> CPU_DESCR \<Rightarrow> ('v, CPU_DESCR) m" where
  "mark_accessed gmi descr_addr e =
     m_bind (spr_write_byte gmi (descr_addr + 5) (ucast (descr_AR e) OR 1)) (\<lambda>_. m_ret (e\<lparr>descr_AR := descr_AR e OR 1\<rparr>))"

section \<open>Code segment\<close>

definition code_cache :: "IU16 \<Rightarrow> CPU_DESCR \<Rightarrow> SEGMENT_REGISTER \<Rightarrow> SEGMENT_REGISTER" where
  "code_cache selector e r =
     r\<lparr>sr_selector := selector, sr_base := descr_base e, sr_limit := descr_limit e,
       sr_ar_dpl := GET_AR_DPL (descr_AR e), sr_ar_r := GET_AR_R (descr_AR e), sr_ar_c := GET_AR_C (descr_AR e),
       sr_ar_x := GET_AR_X (descr_AR e), sr_ar_e := 0, sr_ar_w := 0\<rparr>"

definition load_CS_cache :: "'v gmi \<Rightarrow> IU16 \<Rightarrow> IU32 \<Rightarrow> CPU_DESCR \<Rightarrow> ('v, unit) m" where
  "load_CS_cache gmi selector descr_addr e = m_get (\<lambda>c.
     if real_mode (core_cpu c)
     then m_cpu (\<lambda>s. set_sr 1 (\<lambda>r. r\<lparr>sr_selector := selector, sr_base := push_bit 4 (ucast selector), sr_ar_w := 1, sr_ar_r := 1,
            sr_ar_e := 0, sr_ar_c := 0, sr_ar_x := 0, sr_ar_dpl := (if GET_VM s = 1 then 3 else 0)\<rparr>) s)
     else m_bind (mark_accessed gmi descr_addr e) (\<lambda>e.
            m_cpu (set_sr 1 (code_cache selector e))))"

definition code_seg_check :: "IU16 \<Rightarrow> IU32 \<Rightarrow> CPU_DESCR \<Rightarrow> ccpu_fault option" where
  "code_seg_check new_cs CPL e =
     (let super = descriptor_super_type (descr_AR e); dpl = GET_AR_DPL (descr_AR e); p = GET_AR_P (descr_AR e)
      in if super = CONFORM_NOREAD_CODE \<or> super = CONFORM_READABLE_CODE
         then (if CPL < dpl then Some (GP new_cs) else if p = 0 then Some (NP new_cs) else None)
         else if super = NONCONFORM_NOREAD_CODE \<or> super = NONCONFORM_READABLE_CODE
         then (if CPL < GET_SELECTOR_RPL new_cs \<or> dpl \<noteq> CPL then Some (GP new_cs) else if p = 0 then Some (NP new_cs) else None)
         else Some (GP new_cs))"

definition load_code_seg :: "'v gmi \<Rightarrow> IU16 \<Rightarrow> ('v, unit) m" where
  "load_code_seg gmi new_cs = m_get (\<lambda>c.
     if real_mode (core_cpu c) then load_CS_cache gmi new_cs 0 \<lparr>descr_base = 0, descr_limit = 0, descr_AR = 0\<rparr>
     else (case selector_outside_GDT_LDT new_cs (core_cpu c) of
         None \<Rightarrow> m_fault (GP new_cs)
       | Some cs_descr_addr \<Rightarrow> m_bind (read_descr gmi cs_descr_addr) (\<lambda>e.
           case code_seg_check new_cs (CCPU_CPL (core_cpu c)) e of
             Some f \<Rightarrow> m_fault f
           | None \<Rightarrow> load_CS_cache gmi (SET_SELECTOR_RPL new_cs (CCPU_CPL (core_cpu c))) cs_descr_addr e)))"

section \<open>Data segments\<close>

definition is_data :: "CPU_DESCR \<Rightarrow> bool" where
  "is_data e = (descriptor_super_type (descr_AR e) \<in>
     {EXPANDUP_READONLY_DATA, EXPANDUP_WRITEABLE_DATA, EXPANDDOWN_READONLY_DATA, EXPANDDOWN_WRITEABLE_DATA})"

definition data_seg_check :: "IU16 \<Rightarrow> IU32 \<Rightarrow> CPU_DESCR \<Rightarrow> ccpu_fault option" where
  "data_seg_check selector CPL e =
     (let super = descriptor_super_type (descr_AR e); dpl = GET_AR_DPL (descr_AR e)
      in if \<not> (super = CONFORM_READABLE_CODE \<or> super = NONCONFORM_READABLE_CODE \<or> is_data e) then Some (GP selector)
         else if super \<noteq> CONFORM_READABLE_CODE \<and> (dpl < CPL \<or> dpl < GET_SELECTOR_RPL selector) then Some (GP selector)
         else if GET_AR_P (descr_AR e) = 0 then Some (NP selector)
         else None)"

definition data_cache :: "IU16 \<Rightarrow> bool \<Rightarrow> CPU_DESCR \<Rightarrow> SEGMENT_REGISTER \<Rightarrow> SEGMENT_REGISTER" where
  "data_cache selector data e r =
     (let AR = descr_AR e
      in r\<lparr>sr_selector := selector, sr_base := descr_base e, sr_limit := descr_limit e, sr_ar_dpl := GET_AR_DPL AR,
           sr_ar_w := (if data then GET_AR_W AR else 0), sr_ar_e := (if data then GET_AR_E AR else 0),
           sr_ar_c := (if data then 0 else GET_AR_C AR), sr_ar_x := GET_AR_X AR, sr_ar_r := 1\<rparr>)"

definition load_data_seg :: "'v gmi \<Rightarrow> nat \<Rightarrow> IU16 \<Rightarrow> ('v, unit) m" where
  "load_data_seg gmi indx selector = m_get (\<lambda>c.
     if real_mode (core_cpu c)
     then m_cpu (set_sr indx (\<lambda>r. r\<lparr>sr_selector := selector, sr_base := push_bit 4 (ucast selector)\<rparr>))
     else if selector_is_null selector
     then m_cpu (set_sr indx (\<lambda>r. r\<lparr>sr_selector := selector, sr_base := 0, sr_limit := 0, sr_ar_w := 0, sr_ar_r := 0\<rparr>))
     else (case selector_outside_GDT_LDT selector (core_cpu c) of
         None \<Rightarrow> m_fault (GP selector)
       | Some descr_addr \<Rightarrow> m_bind (read_descr gmi descr_addr) (\<lambda>e.
           case data_seg_check selector (CCPU_CPL (core_cpu c)) e of
             Some f \<Rightarrow> m_fault f
           | None \<Rightarrow> m_bind (mark_accessed gmi descr_addr e) (\<lambda>e'. m_cpu (set_sr indx (data_cache selector (is_data e) e'))))))"

definition load_pseudo_descr :: "nat \<Rightarrow> ccpu \<Rightarrow> ccpu" where
  "load_pseudo_descr i s =
     set_sr i (\<lambda>r. r\<lparr>sr_limit := 0xffff, sr_ar_w := 1, sr_ar_r := 1, sr_ar_e := 0, sr_ar_c := 0, sr_ar_x := 0,
       sr_ar_dpl := (if GET_VM s = 1 then 3 else 0)\<rparr>) s"

definition load_data_seg_new_privilege :: "nat \<Rightarrow> ccpu \<Rightarrow> ccpu" where
  "load_data_seg_new_privilege indx s =
     (let r = CCPU_SR s indx; selector = sr_selector r;
          valid = (case selector_outside_GDT_LDT selector s of
              Some _ \<Rightarrow> (if sr_ar_c r = 0 then CCPU_CPL s \<le> sr_ar_dpl r \<and> GET_SELECTOR_RPL selector \<le> sr_ar_dpl r else True)
            | None \<Rightarrow> False)
      in if valid then s
         else set_sr indx (\<lambda>r. r\<lparr>sr_selector := 0, sr_ar_w := 0, sr_ar_r := 0, sr_base := 0, sr_limit := 0\<rparr>) s)"

section \<open>Stack segment\<close>

definition stack_cache :: "IU16 \<Rightarrow> CPU_DESCR \<Rightarrow> SEGMENT_REGISTER \<Rightarrow> SEGMENT_REGISTER" where
  "stack_cache selector e r =
     r\<lparr>sr_selector := selector, sr_base := descr_base e, sr_limit := descr_limit e,
       sr_ar_dpl := GET_AR_DPL (descr_AR e), sr_ar_e := GET_AR_E (descr_AR e), sr_ar_x := GET_AR_X (descr_AR e),
       sr_ar_w := 1, sr_ar_r := 1, sr_ar_c := 0\<rparr>"

definition load_SS_cache :: "'v gmi \<Rightarrow> IU16 \<Rightarrow> IU32 \<Rightarrow> CPU_DESCR \<Rightarrow> ('v, unit) m" where
  "load_SS_cache gmi selector descr_addr e = m_bind (mark_accessed gmi descr_addr e) (\<lambda>e. m_cpu (set_sr 2 (stack_cache selector e)))"

definition stack_seg_check :: "IU16 \<Rightarrow> IU32 \<Rightarrow> CPU_DESCR \<Rightarrow> ccpu_fault option" where
  "stack_seg_check selector privilege e =
     (if descriptor_super_type (descr_AR e) \<notin> {EXPANDUP_WRITEABLE_DATA, EXPANDDOWN_WRITEABLE_DATA} then Some (GP selector)
      else if GET_SELECTOR_RPL selector \<noteq> privilege \<or> GET_AR_DPL (descr_AR e) \<noteq> privilege then Some (GP selector)
      else if GET_AR_P (descr_AR e) = 0 then Some (SF selector)
      else None)"

definition check_SS :: "'v gmi \<Rightarrow> IU16 \<Rightarrow> IU32 \<Rightarrow> ('v, IU32 \<times> CPU_DESCR) m" where
  "check_SS gmi selector privilege = m_get (\<lambda>c.
     case selector_outside_GDT_LDT selector (core_cpu c) of
       None \<Rightarrow> m_fault (GP selector)
     | Some descr_addr \<Rightarrow> m_bind (read_descr gmi descr_addr) (\<lambda>e.
         case stack_seg_check selector privilege e of Some f \<Rightarrow> m_fault f | None \<Rightarrow> m_ret (descr_addr, e)))"

definition load_stack_seg :: "'v gmi \<Rightarrow> IU16 \<Rightarrow> ('v, unit) m" where
  "load_stack_seg gmi selector = m_get (\<lambda>c.
     if real_mode (core_cpu c)
     then m_cpu (set_sr 2 (\<lambda>r. r\<lparr>sr_selector := selector, sr_base := push_bit 4 (ucast selector)\<rparr>))
     else m_bind (check_SS gmi selector (CCPU_CPL (core_cpu c))) (\<lambda>(descr_addr, e). load_SS_cache gmi selector descr_addr e))"

definition validate_SS_on_stack_change :: "'v gmi \<Rightarrow> IU32 \<Rightarrow> IU16 \<Rightarrow> ('v, IU32 \<times> CPU_DESCR) m" where
  "validate_SS_on_stack_change gmi priv selector = m_get (\<lambda>c.
     case selector_outside_GDT_LDT selector (core_cpu c) of
       None \<Rightarrow> m_fault (TS selector)
     | Some descr \<Rightarrow> m_bind (read_descr gmi descr) (\<lambda>e.
         if GET_SELECTOR_RPL selector \<noteq> priv \<or> GET_AR_DPL (descr_AR e) \<noteq> priv then m_fault (TS selector)
         else if descriptor_super_type (descr_AR e) \<notin> {EXPANDUP_WRITEABLE_DATA, EXPANDDOWN_WRITEABLE_DATA} then m_fault (TS selector)
         else if GET_AR_P (descr_AR e) = 0 then m_fault (SF selector)
         else m_ret (descr, e)))"

section \<open>Task state segment\<close>

text \<open>A privilege other than 0, 1 and 2 has no stack in the segment; the callers never ask for it, and the model stops.\<close>

definition get_stack_selector_from_TSS :: "'v gmi \<Rightarrow> IU32 \<Rightarrow> ('v, IU16 \<times> IU32) m" where
  "get_stack_selector_from_TSS gmi priv = m_get (\<lambda>c. let TR = CCPU_SAR (core_cpu c) 1 in
     if 2 < priv then (\<lambda>_. None)
     else if sar_ar_super TR = uint BUSY_TSS
     then (let address = 2 + 4 * priv + sar_base TR
           in m_bind (spr_read_word gmi address) (\<lambda>sp. m_bind (spr_read_word gmi (address + 2)) (\<lambda>ss. m_ret (ss, ucast sp))))
     else (let address = 4 + 8 * priv + sar_base TR
           in m_bind (spr_read_dword gmi address) (\<lambda>sp. m_bind (spr_read_word gmi (address + 4)) (\<lambda>ss. m_ret (ss, sp)))))"

definition validate_TSS :: "'v gmi \<Rightarrow> IU16 \<Rightarrow> bool \<Rightarrow> ('v, IU16 \<times> IU32) m" where
  "validate_TSS gmi selector is_switch = m_get (\<lambda>c.
     let bad = m_fault (if is_switch then TS selector else GP selector)
     in case selector_outside_GDT selector (core_cpu c) of
          None \<Rightarrow> bad
        | Some descr_addr \<Rightarrow> m_bind (spr_read_byte gmi (descr_addr + 5)) (\<lambda>AR.
            let super = descriptor_super_type (ucast AR)
            in if super \<in> (if is_switch then {BUSY_TSS, XTND_BUSY_TSS} else {AVAILABLE_TSS, XTND_AVAILABLE_TSS})
               then (if GET_AR_P (ucast AR) = 0 then m_fault (NP selector) else m_ret (super, descr_addr))
               else bad))"

end
