(* ===== verification/Ccpu_Frame.thy ===== *)
theory Ccpu_Frame
  imports Ccpu_Page_Run
begin

text \<open>
  What the memory accesses of the CPU leave alone, and the rules by which an instruction inherits it.
\<close>

section \<open>What memory accesses leave alone\<close>

text \<open>
  Apart from the fault address in \<open>CR2\<close> no access to memory changes a register, whether it faults or not.
\<close>

definition regs :: "ccpu \<Rightarrow> ccpu" where
  "regs s = s\<lparr>CCPU_CR := (CCPU_CR s)(2 := 0)\<rparr>"

definition keeps :: "('v, 'a) m \<Rightarrow> bool" where
  "keeps p \<longleftrightarrow> (\<forall>c r c'. p c = Some (r, c') \<longrightarrow> regs (core_cpu c') = regs (core_cpu c))"

named_theorems keeps_intro \<open>operations that leave the registers alone\<close>

lemma regs_eq:
  assumes "regs s' = regs s"
  shows "CCPU_SR s' = CCPU_SR s" "CCPU_GR s' = CCPU_GR s" "CCPU_IP s' = CCPU_IP s" "CCPU_STAR s' = CCPU_STAR s" "CCPU_SAR s' = CCPU_SAR s"
    "CCPU_CPL s' = CCPU_CPL s" "CCPU_FLAGS s' = CCPU_FLAGS s" "CCPU_MODE s' = CCPU_MODE s" "i \<noteq> 2 \<Longrightarrow> CCPU_CR s' i = CCPU_CR s i"
proof -
  have r: "CCPU_SR (regs s') = CCPU_SR (regs s)" "CCPU_GR (regs s') = CCPU_GR (regs s)" "CCPU_IP (regs s') = CCPU_IP (regs s)" "CCPU_STAR (regs s') = CCPU_STAR (regs s)"
    "CCPU_SAR (regs s') = CCPU_SAR (regs s)" "CCPU_CPL (regs s') = CCPU_CPL (regs s)" "CCPU_FLAGS (regs s') = CCPU_FLAGS (regs s)"
    "CCPU_MODE (regs s') = CCPU_MODE (regs s)" "CCPU_CR (regs s') i = CCPU_CR (regs s) i" using assms by simp_all
  then show "CCPU_SR s' = CCPU_SR s" "CCPU_GR s' = CCPU_GR s" "CCPU_IP s' = CCPU_IP s" "CCPU_STAR s' = CCPU_STAR s" "CCPU_SAR s' = CCPU_SAR s"
    "CCPU_CPL s' = CCPU_CPL s" "CCPU_FLAGS s' = CCPU_FLAGS s" "CCPU_MODE s' = CCPU_MODE s" "i \<noteq> 2 \<Longrightarrow> CCPU_CR s' i = CCPU_CR s i" by (simp_all add: regs_def)
qed

lemma regs_CR2 [simp]: "regs (SET_CR 2 v s) = regs s"
  by (simp add: regs_def SET_CR_def)

lemma keeps_ret [keeps_intro]: "keeps (m_ret x)" "keeps (m_fault f)" "keeps (\<lambda>_. None)"
  by (simp_all add: keeps_def m_ret_def m_fault_def)

lemma keeps_bind [keeps_intro]:
  assumes "keeps p" "\<And>x. keeps (f x)" shows "keeps (m_bind p f)"
  unfolding keeps_def
proof (intro allI impI)
  fix c r c' assume b: "m_bind p f c = Some (r, c')"
  then obtain q c1 where q: "p c = Some (q, c1)" by (cases "p c") (auto simp: m_bind_def)
  then have k: "regs (core_cpu c1) = regs (core_cpu c)" using assms(1) by (auto simp: keeps_def)
  show "regs (core_cpu c') = regs (core_cpu c)"
  proof (cases q)
    case (Inr x)
    then have "f x c1 = Some (r, c')" using b q by (simp add: m_bind_def)
    then show ?thesis using assms(2) [of x] k by (auto simp: keeps_def)
  qed (use b q k in \<open>auto simp: m_bind_def\<close>)
qed

lemma keeps_get [keeps_intro]: "(\<And>c. keeps (f c)) \<Longrightarrow> keeps (m_get f)"
  by (simp add: keeps_def m_get_def)

lemma keeps_if [keeps_intro]: "keeps p \<Longrightarrow> keeps q \<Longrightarrow> keeps (if b then p else q)"
  by simp

lemma keeps_phy [keeps_intro]: "keeps (phy_get f)" "keeps (phy_put g)" "keeps (data_break lin attr sz)"
  by (auto simp: keeps_def phy_get_def phy_put_def data_break_def split: bind_splits)

lemma pe_cpu: "read_pe gmi a s = Some (v, s') \<Longrightarrow> cpu s' = cpu s" "write_pe gmi a w s = Some s' \<Longrightarrow> cpu s' = cpu s"
  by (auto simp: read_pe_def write_pe_def split: bind_splits)

lemma mark_used_cpu: "mark_used gmi a d b t w s = Some s' \<Longrightarrow> cpu s' = cpu s"
  by (auto simp: mark_used_def Let_def pe_cpu split: bind_splits if_splits)

lemma allocate_cpu: "cpu (allocate lin m pte r s) = cpu s"
  by (simp add: allocate_def Let_def tlb_upd_def)

lemma walk_cpu: "walk_fill gmi lin access s = Some (r, s') \<Longrightarrow> regs (cpu s') = regs (cpu s)"
  by (auto simp: walk_fill_def Let_def take_PF_def dest!: pe_cpu mark_used_cpu simp: allocate_cpu split: bind_splits if_splits)

lemma keeps_lin2phy [keeps_intro]: "keeps (lin2phy_m gmi lin access)"
proof -
  have "regs (cpu s') = regs (cpu s)" if "lin2phy gmi lin access s = Some (r, s')" for r s s'
  proof (cases "fast_lookup lin access s = 0 \<and> tlb_search s lin (access AND 1 = 0) [0..<4] = None")
    case True
    then show ?thesis using that walk_cpu by (simp add: lin2phy_def)
  qed (use that in \<open>auto simp: lin2phy_def take_PF_def Let_def split: if_splits option.splits\<close>)
  then show ?thesis by (auto simp: keeps_def lin2phy_m_def split: bind_splits)
qed

lemma keeps_accesses [keeps_intro]:
  "keeps (map_address gmi lin access)" "keeps (chk_item gmi lst k lin access)" "keeps (usr_chk_byte gmi lin access)" "keeps (usr_chk_word gmi lin access)" "keeps (usr_chk_dword gmi lin access)"
  "keeps (spr_chk_word gmi lin access)" "keeps (spr_chk_dword gmi lin access)"
  "keeps (spr_read_byte gmi lin)" "keeps (spr_write_byte gmi lin v)"
  unfolding map_address_def chk_item_def usr_chk_byte_def usr_chk_word_def usr_chk_dword_def spr_chk_word_def spr_chk_dword_def spr_read_byte_def spr_write_byte_def
  by (intro keeps_intro)+

lemma keeps_words [keeps_intro]: "keeps (spr_read_word gmi lin)" "keeps (spr_write_word gmi lin w)"
  unfolding spr_read_word_def spr_write_word_def by (intro keeps_intro)+

lemma keeps_dwords [keeps_intro]: "keeps (spr_read_dword gmi lin)" "keeps (spr_write_dword gmi lin d)"
  unfolding spr_read_dword_def spr_write_dword_def by (intro keeps_intro)+

lemma keeps_vir [keeps_intro]:
  "keeps (vir_read_byte gmi lin phy)" "keeps (vir_read_word gmi lin phy)" "keeps (vir_read_dword gmi lin phy)"
  "keeps (vir_write_byte gmi lin phy b)" "keeps (vir_write_word gmi lin phy w)" "keeps (vir_write_dword gmi lin phy d)"
  unfolding vir_read_byte_def vir_read_word_def vir_read_dword_def vir_write_byte_def vir_write_word_def vir_write_dword_def by (intro keeps_intro)+

section \<open>Conditions on registers\<close>

text \<open>
  A small logic for operations that may fault: from registers in \<open>P\<close> the operation faults with registers in \<open>E\<close> or ends in \<open>Q\<close>. Memory accesses
  keep every condition that does not look at the fault address.
\<close>

definition triple :: "(ccpu \<Rightarrow> bool) \<Rightarrow> (ccpu \<Rightarrow> bool) \<Rightarrow> ('v, 'a) m \<Rightarrow> ('a \<Rightarrow> ccpu \<Rightarrow> bool) \<Rightarrow> bool" where
  "triple E P p Q \<longleftrightarrow> (\<forall>c r c'. P (core_cpu c) \<longrightarrow> p c = Some (r, c') \<longrightarrow> (case r of Inl f \<Rightarrow> E (core_cpu c') | Inr x \<Rightarrow> Q x (core_cpu c')))"

definition register_cond :: "(ccpu \<Rightarrow> bool) \<Rightarrow> bool" where
  "register_cond P \<longleftrightarrow> (\<forall>s s'. regs s' = regs s \<longrightarrow> P s \<longrightarrow> P s')"

lemma triple_bind:
  assumes "triple E P p R" "\<And>x. triple E (R x) (f x) Q" shows "triple E P (m_bind p f) Q"
  unfolding triple_def
proof (intro allI impI)
  fix c r c' assume P: "P (core_cpu c)" and b: "m_bind p f c = Some (r, c')"
  then obtain q c1 where q: "p c = Some (q, c1)" by (cases "p c") (auto simp: m_bind_def)
  show "case r of Inl f \<Rightarrow> E (core_cpu c') | Inr x \<Rightarrow> Q x (core_cpu c')"
  proof (cases q)
    case (Inl e)
    then have "r = Inl e" "c' = c1" "p c = Some (Inl e, c1)" using b q by (simp_all add: m_bind_def)
    then show ?thesis using assms(1) P unfolding triple_def by fastforce
  next
    case (Inr x)
    then have "p c = Some (Inr x, c1)" "f x c1 = Some (r, c')" using b q by (simp_all add: m_bind_def)
    then show ?thesis using assms(1) assms(2) [of x] P unfolding triple_def by fastforce
  qed
qed

lemma triple_get: "(\<And>c. P (core_cpu c) \<Longrightarrow> triple E P (f c) Q) \<Longrightarrow> triple E P (m_get f) Q"
  unfolding triple_def m_get_def by blast

lemma triple_if: "(b \<Longrightarrow> triple E P p Q) \<Longrightarrow> (\<not> b \<Longrightarrow> triple E P q Q) \<Longrightarrow> triple E P (if b then p else q) Q"
  by simp

lemma triple_fault: "(\<And>s. P s \<Longrightarrow> E s) \<Longrightarrow> triple E P (m_fault f) Q"
  by (simp add: triple_def m_fault_def)

lemma triple_ret: "(\<And>s. P s \<Longrightarrow> Q x s) \<Longrightarrow> triple E P (m_ret x) Q"
  by (simp add: triple_def m_ret_def)

lemma triple_cpu: "(\<And>s. P s \<Longrightarrow> Q () (g s)) \<Longrightarrow> triple E P (m_cpu g) Q"
  by (simp add: triple_def m_cpu_def upd_cpu_def)

lemma triple_keeps: "keeps p \<Longrightarrow> register_cond P \<Longrightarrow> (\<And>s. P s \<Longrightarrow> E s) \<Longrightarrow> triple E P p (\<lambda>_. P)"
  unfolding triple_def keeps_def register_cond_def by (simp split: sum.split)

lemma triple_split: "(\<And>a b. z = (a, b) \<Longrightarrow> triple E P (h a b) Q) \<Longrightarrow> triple E P (case z of (a, b) \<Rightarrow> h a b) Q"
  by (simp split: prod.split)

lemmas triple_intro = triple_bind triple_get triple_if triple_fault triple_split

end
