(* ===== verification/Ccpu_Seg_Run.thy ===== *)
theory Ccpu_Seg_Run
  imports Ccpu_Seg Ccpu_Frame
begin

text \<open>
  Protection of the segment registers: whatever is loaded, by whatever code, a segment register admits only what the privilege
  rules of the processor admit, and a load that faults leaves every register as it was.
\<close>

lemma keeps_descr [keeps_intro]: "keeps (read_descr gmi a)" "keeps (mark_accessed gmi a e)"
proof -
  have "keeps (case x of Inl f \<Rightarrow> m_fault f | Inr e \<Rightarrow> m_ret e)" for x by (cases x) (simp_all add: keeps_ret)
  then show "keeps (read_descr gmi a)" unfolding read_descr_def by (intro keeps_intro)
  show "keeps (mark_accessed gmi a e)" unfolding mark_accessed_def by (intro keeps_intro)
qed

section \<open>Privilege\<close>

text \<open>
  A data segment register that admits accesses names conforming code, or a segment at most as privileged as the current level and the
  level its selector asks for.
\<close>

definition visible :: "ccpu \<Rightarrow> nat \<Rightarrow> bool" where
  "visible s i \<longleftrightarrow> (let r = CCPU_SR s i in sr_ar_r r \<noteq> 0 \<or> sr_ar_w r \<noteq> 0 \<longrightarrow>
     sr_ar_c r \<noteq> 0 \<or> CCPU_CPL s \<le> sr_ar_dpl r \<and> GET_SELECTOR_RPL (sr_selector r) \<le> sr_ar_dpl r)"

definition only_sr :: "nat \<Rightarrow> ccpu \<Rightarrow> ccpu \<Rightarrow> bool" where
  "only_sr i s s' \<longleftrightarrow> (\<exists>r. regs s' = regs (set_sr i (\<lambda>_. r) s))"

lemma set_sr_sel [simp]: "CCPU_CPL (set_sr i f s) = CCPU_CPL s" "CCPU_SR (set_sr i f s) = (CCPU_SR s)(i := f (CCPU_SR s i))"
  by (simp_all add: set_sr_def)

lemma only_sr_set: "regs s' = regs s \<Longrightarrow> only_sr i s (set_sr i f s')"
proof -
  assume e: "regs s' = regs s"
  then have "regs (set_sr i f s') = regs (set_sr i (\<lambda>_. f (CCPU_SR s' i)) s)" using regs_eq(1) [OF e]
    by (cases s; cases s') (simp add: regs_def set_sr_def)
  then show ?thesis unfolding only_sr_def by blast
qed

lemma m_bind_Some:
  assumes "m_bind p f c = Some (r, c')"
  obtains e where "p c = Some (Inl e, c')" "r = Inl e" | x c1 where "p c = Some (Inr x, c1)" "f x c1 = Some (r, c')"
  using assms by (auto simp: m_bind_def split: option.splits sum.splits prod.splits)

lemma keepsD: "keeps p \<Longrightarrow> p c = Some (r, c') \<Longrightarrow> regs (core_cpu c') = regs (core_cpu c)"
  by (auto simp: keeps_def)

lemma core_upd_cpu [simp]: "core_cpu (upd_cpu f c) = f (core_cpu c)"
  by (simp add: upd_cpu_def)

text \<open>The bits of the access rights that tell the type are not changed by the mark of access.\<close>

lemma accessed_bits:
  "GET_AR_DPL (x OR 1) = GET_AR_DPL x" "GET_AR_C (x OR 1) = GET_AR_C x" "GET_AR_X (x OR 1) = GET_AR_X x" "GET_AR_E (x OR 1) = GET_AR_E x"
  "GET_AR_W (x OR 1) = GET_AR_W x" "GET_AR_R (x OR 1) = GET_AR_R x"
proof -
  have "(x OR 1) AND m = x AND m" if "m AND 1 = 0" for m :: IU16 by (simp add: that and.commute [of _ m] bit.conj_disj_distrib)
  from this [of "0x60"] this [of 4] this [of "0x4000"] this [of 2]
  show "GET_AR_DPL (x OR 1) = GET_AR_DPL x" "GET_AR_C (x OR 1) = GET_AR_C x" "GET_AR_X (x OR 1) = GET_AR_X x" "GET_AR_E (x OR 1) = GET_AR_E x"
    "GET_AR_W (x OR 1) = GET_AR_W x" "GET_AR_R (x OR 1) = GET_AR_R x"
    by (simp_all add: GET_AR_DPL_def GET_AR_C_def GET_AR_X_def GET_AR_E_def GET_AR_W_def GET_AR_R_def)
qed

lemma mark_accessed_result: "mark_accessed gmi a e c = Some (Inr e', c') \<Longrightarrow> e' = e\<lparr>descr_AR := descr_AR e OR 1\<rparr>"
  by (auto simp: mark_accessed_def m_ret_def elim!: m_bind_Some)

text \<open>A conforming type has the bit of conformity.\<close>

lemma super_conforming: "descriptor_super_type x = CONFORM_NOREAD_CODE \<or> descriptor_super_type x = CONFORM_READABLE_CODE \<Longrightarrow> GET_AR_C x \<noteq> 0"
proof -
  assume a: "descriptor_super_type x = CONFORM_NOREAD_CODE \<or> descriptor_super_type x = CONFORM_READABLE_CODE"
  have "(x AND 0x1f) OR 1 = 0x1d \<or> (x AND 0x1f) OR 1 = 0x1f"
  proof (cases "x AND 0x1f \<in> {0x0, 0x8, 0xa, 0xd} \<or> x AND 0x1f \<in> {0x1, 0x2, 0x3, 0x4, 0x5, 0x6, 0x7, 0x9, 0xb, 0xc, 0xe, 0xf}")
    case True
    then show ?thesis using a unfolding descriptor_super_type_def Let_def by (elim disjE) auto
  next
    case False
    then show ?thesis using a unfolding descriptor_super_type_def Let_def by argo
  qed
  then have "bit ((x AND 0x1f) OR 1) 2 = bit (0x1f :: IU16) 2" by (auto simp: bit_numeral_rec)
  then have "bit x 2" by (simp add: bit_and_iff bit_or_iff bit_numeral_rec bit_1_iff)
  then show ?thesis using and_exp_neq_0_iff [of x 2] by (simp add: GET_AR_C_def)
qed

text \<open>
  A load from a descriptor: it faults with all registers kept, or it goes through the check and sets the register.
\<close>

lemma checked_load:
  assumes l: "m_bind (read_descr gmi a) (\<lambda>e. case chk e of Some f \<Rightarrow> m_fault f | None \<Rightarrow> B e) c = Some (r, c')"
    and B: "\<And>e c1. regs (core_cpu c1) = regs (core_cpu c) \<Longrightarrow> B e c1 = m_bind (mark_accessed gmi a e) (\<lambda>e'. m_cpu (set_sr i (ld e e'))) c1"
  obtains f where "r = Inl f" "regs (core_cpu c') = regs (core_cpu c)"
  | e s where "r = Inr ()" "chk e = None" "regs s = regs (core_cpu c)" "core_cpu c' = set_sr i (ld e (e\<lparr>descr_AR := descr_AR e OR 1\<rparr>)) s"
  using l
proof (rule m_bind_Some)
  fix e assume "read_descr gmi a c = Some (Inl e, c')" "r = Inl e"
  then show ?thesis using keepsD [OF keeps_descr(1)] that(1) by blast
next
  fix e c1 assume e: "read_descr gmi a c = Some (Inr e, c1)" "(case chk e of Some f \<Rightarrow> m_fault f | None \<Rightarrow> B e) c1 = Some (r, c')"
  note k1 = keepsD [OF keeps_descr(1) e(1)]
  show ?thesis
  proof (cases "chk e")
    case (Some f)
    then show ?thesis using e(2) k1 that(1) by (auto simp: m_fault_def)
  next
    case None
    then have "m_bind (mark_accessed gmi a e) (\<lambda>e'. m_cpu (set_sr i (ld e e'))) c1 = Some (r, c')" using e(2) B [OF k1] by simp
    then show ?thesis
    proof (rule m_bind_Some)
      fix f assume "mark_accessed gmi a e c1 = Some (Inl f, c')" "r = Inl f"
      then show ?thesis using keepsD [OF keeps_descr(2)] k1 that(1) by metis
    next
      fix e' c2 assume m: "mark_accessed gmi a e c1 = Some (Inr e', c2)" "m_cpu (set_sr i (ld e e')) c2 = Some (r, c')"
      then have "r = Inr ()" "core_cpu c' = set_sr i (ld e (e\<lparr>descr_AR := descr_AR e OR 1\<rparr>)) (core_cpu c2)" using mark_accessed_result [OF m(1)] by (auto simp: m_cpu_def)
      moreover have "regs (core_cpu c2) = regs (core_cpu c)" using keepsD [OF keeps_descr(2) m(1)] k1 by simp
      ultimately show ?thesis using that(2) None by blast
    qed
  qed
qed

lemma load_data_seg_cases:
  assumes rm: "\<not> real_mode (core_cpu c)" and l: "load_data_seg gmi i sel c = Some (r, c')"
  shows "case r of Inl _ \<Rightarrow> regs (core_cpu c') = regs (core_cpu c) | Inr _ \<Rightarrow> visible (core_cpu c') i \<and> only_sr i (core_cpu c) (core_cpu c')"
proof (cases "selector_is_null sel \<or> selector_outside_GDT_LDT sel (core_cpu c) = None")
  case True
  then show ?thesis using rm l by (auto simp: load_data_seg_def m_get_def m_cpu_def m_fault_def visible_def only_sr_set split: if_splits)
next
  case False
  then obtain a where a: "selector_outside_GDT_LDT sel (core_cpu c) = Some a" by auto
  have "m_bind (read_descr gmi a) (\<lambda>e. case data_seg_check sel (CCPU_CPL (core_cpu c)) e of Some f \<Rightarrow> m_fault f
      | None \<Rightarrow> m_bind (mark_accessed gmi a e) (\<lambda>e'. m_cpu (set_sr i (data_cache sel (is_data e) e')))) c = Some (r, c')"
    using l rm False a by (simp add: load_data_seg_def m_get_def)
  then show ?thesis
  proof (rule checked_load)
    fix e s assume s: "r = Inr ()" "data_seg_check sel (CCPU_CPL (core_cpu c)) e = None" "regs s = regs (core_cpu c)"
      "core_cpu c' = set_sr i (data_cache sel (is_data e) (e\<lparr>descr_AR := descr_AR e OR 1\<rparr>)) s"
    have d: "is_data e \<Longrightarrow> descriptor_super_type (descr_AR e) \<noteq> CONFORM_READABLE_CODE" by (auto simp: is_data_def)
    have "visible (core_cpu c') i" using s(2) super_conforming [of "descr_AR e"] regs_eq(6) [OF s(3)] d
      by (auto simp: visible_def s(4) data_cache_def Let_def accessed_bits data_seg_check_def not_less split: if_splits)
    then show ?thesis using s(1,4) only_sr_set [OF s(3)] by simp
  qed simp_all
qed

lemma bind_check: "m_bind (case x of Some f \<Rightarrow> m_fault f | None \<Rightarrow> p) g = (case x of Some f \<Rightarrow> m_fault f | None \<Rightarrow> m_bind p g)"
  by (cases x) (simp_all add: m_bind_def m_fault_def fun_eq_iff)

text \<open>The stack segment belongs to the current level, and so does the code segment unless it is conforming.\<close>

lemma load_stack_seg_cases:
  assumes rm: "\<not> real_mode (core_cpu c)" and l: "load_stack_seg gmi sel c = Some (r, c')"
  shows "case r of Inl _ \<Rightarrow> regs (core_cpu c') = regs (core_cpu c)
    | Inr _ \<Rightarrow> (let R = CCPU_SR (core_cpu c') 2 in sr_selector R = sel \<and> sr_ar_dpl R = CCPU_CPL (core_cpu c') \<and> GET_SELECTOR_RPL sel = CCPU_CPL (core_cpu c') \<and> sr_ar_w R = 1) \<and>
        only_sr 2 (core_cpu c) (core_cpu c')"
proof (cases "selector_outside_GDT_LDT sel (core_cpu c)")
  case None
  then show ?thesis using rm l by (auto simp: load_stack_seg_def check_SS_def m_get_def m_bind_def m_fault_def)
next
  case (Some a)
  let ?p = "CCPU_CPL (core_cpu c)"
  let ?chk = "stack_seg_check sel ?p"
  have "m_bind (read_descr gmi a) (\<lambda>e. case ?chk e of Some f \<Rightarrow> m_fault f | None \<Rightarrow> load_SS_cache gmi sel a e) c = Some (r, c')"
    using l rm Some by (simp add: load_stack_seg_def check_SS_def m_get_def m_laws bind_check cong del: option.case_cong_weak)
  then show ?thesis
  proof (rule checked_load)
    fix e s assume s: "r = Inr ()" "?chk e = None" "regs s = regs (core_cpu c)"
      "core_cpu c' = set_sr 2 (stack_cache sel (e\<lparr>descr_AR := descr_AR e OR 1\<rparr>)) s"
    have "GET_SELECTOR_RPL sel = ?p" "GET_AR_DPL (descr_AR e) = ?p" using s(2) by (auto simp: stack_seg_check_def split: if_splits)
    then show ?thesis using s(1,4) only_sr_set [OF s(3)] regs_eq(6) [OF s(3)] by (simp add: accessed_bits stack_cache_def)
  qed (simp_all add: load_SS_cache_def)
qed

lemma set_selector_rpl: "p < 4 \<Longrightarrow> GET_SELECTOR_RPL (SET_SELECTOR_RPL x p) = p"
proof -
  assume p: "p < (4 :: IU32)"
  have "ucast p AND 3 = (ucast p :: IU16)"
  proof -
    have u: "unat (ucast p :: IU16) = unat p" using p by (simp add: word_less_nat_alt unsigned_ucast_eq take_bit_eq_mod)
    have "unat (ucast p AND mask 2 :: IU16) = unat (ucast p :: IU16)" unfolding unat_and_mask u using p by (simp add: word_less_nat_alt)
    then show ?thesis by (simp add: word_unat_eq_iff mask_numeral)
  qed
  then have "((x AND NOT 3) OR ucast p) AND 3 = ucast p" by (simp add: bit.conj_disj_distrib2 and.assoc)
  moreover have "ucast (ucast p :: IU16) = p" using p by (simp add: word_unat_eq_iff word_less_nat_alt unsigned_ucast_eq take_bit_eq_mod unat_mod)
  ultimately show ?thesis by (simp add: GET_SELECTOR_RPL_def SET_SELECTOR_RPL_def)
qed

lemma load_code_seg_cases:
  assumes rm: "\<not> real_mode (core_cpu c)" and l: "load_code_seg gmi sel c = Some (r, c')" and cpl: "CCPU_CPL (core_cpu c) < 4"
  shows "case r of Inl _ \<Rightarrow> regs (core_cpu c') = regs (core_cpu c)
    | Inr _ \<Rightarrow> (let R = CCPU_SR (core_cpu c') 1; CPL = CCPU_CPL (core_cpu c')
                in GET_SELECTOR_RPL (sr_selector R) = CPL \<and> sr_ar_dpl R \<le> CPL \<and> (sr_ar_c R = 0 \<longrightarrow> sr_ar_dpl R = CPL) \<and> sr_ar_w R = 0) \<and>
        only_sr 1 (core_cpu c) (core_cpu c')"
proof (cases "selector_outside_GDT_LDT sel (core_cpu c)")
  case None
  then show ?thesis using rm l by (auto simp: load_code_seg_def m_get_def m_fault_def)
next
  case (Some a)
  let ?p = "CCPU_CPL (core_cpu c)" and ?chk = "code_seg_check sel (CCPU_CPL (core_cpu c))"
  have "m_bind (read_descr gmi a) (\<lambda>e. case ?chk e of Some f \<Rightarrow> m_fault f | None \<Rightarrow> load_CS_cache gmi (SET_SELECTOR_RPL sel ?p) a e) c = Some (r, c')"
    using l rm Some by (simp add: load_code_seg_def m_get_def)
  then show ?thesis
  proof (rule checked_load)
    fix e s assume s: "r = Inr ()" "?chk e = None" "regs s = regs (core_cpu c)"
      "core_cpu c' = set_sr 1 (code_cache (SET_SELECTOR_RPL sel ?p) (e\<lparr>descr_AR := descr_AR e OR 1\<rparr>)) s"
    have "GET_AR_DPL (descr_AR e) \<le> ?p" "GET_AR_C (descr_AR e) = 0 \<longrightarrow> GET_AR_DPL (descr_AR e) = ?p"
      using s(2) super_conforming [of "descr_AR e"] by (auto simp: code_seg_check_def Let_def not_less split: if_splits)
    then show ?thesis using s(1,4) only_sr_set [OF s(3)] regs_eq(6) [OF s(3)] set_selector_rpl [OF cpl] by (simp add: accessed_bits code_cache_def)
  next
    fix e and c1 :: "'a core" assume k: "regs (core_cpu c1) = regs (core_cpu c)"
    have "\<not> real_mode (core_cpu c1)" using rm regs_eq(7,9) [OF k] by simp
    then show "load_CS_cache gmi (SET_SELECTOR_RPL sel ?p) a e c1 = m_bind (mark_accessed gmi a e) (\<lambda>e'. m_cpu (set_sr 1 (code_cache (SET_SELECTOR_RPL sel ?p) e'))) c1"
      by (simp add: load_CS_cache_def m_get_def)
  qed simp
qed

lemma new_privilege_visible: "visible (load_data_seg_new_privilege i s) i"
  by (auto simp: visible_def load_data_seg_new_privilege_def Let_def split: option.split)

text \<open>
  C15. Privilege of the segment registers, in protected mode. A load of a segment register that faults leaves all registers as they were
  (but for the fault address); one that succeeds changes only that register. After a successful load of a data segment
  register, and after the check that follows a change of privilege from any state, the register admits accesses only
  to conforming code or to a segment whose level is at least the current one and the one the selector asks for. The stack
  segment is writable data of the current level exactly. A code segment is stamped with the current level, is not writable, and belongs to the
  current level unless it is conforming, when it is not less privileged.
\<close>

theorem segment_loads_respect_privilege:
  assumes "\<not> real_mode (core_cpu c)" "CCPU_CPL (core_cpu c) < 4"
  shows "(\<forall>r c'. load_data_seg gmi i sel c = Some (r, c') \<longrightarrow>
      (case r of Inl _ \<Rightarrow> regs (core_cpu c') = regs (core_cpu c) | Inr _ \<Rightarrow> visible (core_cpu c') i \<and> only_sr i (core_cpu c) (core_cpu c'))) \<and>
    (\<forall>r c'. load_stack_seg gmi sel c = Some (r, c') \<longrightarrow>
      (case r of Inl _ \<Rightarrow> regs (core_cpu c') = regs (core_cpu c)
       | Inr _ \<Rightarrow> (let R = CCPU_SR (core_cpu c') 2 in sr_selector R = sel \<and> sr_ar_dpl R = CCPU_CPL (core_cpu c') \<and> GET_SELECTOR_RPL sel = CCPU_CPL (core_cpu c') \<and> sr_ar_w R = 1) \<and>
           only_sr 2 (core_cpu c) (core_cpu c'))) \<and>
    (\<forall>r c'. load_code_seg gmi sel c = Some (r, c') \<longrightarrow>
      (case r of Inl _ \<Rightarrow> regs (core_cpu c') = regs (core_cpu c)
       | Inr _ \<Rightarrow> (let R = CCPU_SR (core_cpu c') 1; CPL = CCPU_CPL (core_cpu c')
                   in GET_SELECTOR_RPL (sr_selector R) = CPL \<and> sr_ar_dpl R \<le> CPL \<and> (sr_ar_c R = 0 \<longrightarrow> sr_ar_dpl R = CPL) \<and> sr_ar_w R = 0) \<and>
           only_sr 1 (core_cpu c) (core_cpu c'))) \<and>
    (\<forall>s. visible (load_data_seg_new_privilege i s) i)"
  using load_data_seg_cases [OF assms(1)] load_stack_seg_cases [OF assms(1)] load_code_seg_cases [OF assms(1) _ assms(2)] new_privilege_visible by blast

text \<open>
  A machine at level 3 with paging off and a table at 0 whose second entry, selector 0x0b, is a writable data segment of level 3
  and size 64K, and whose third, selector 0x13, is one of level 0.
\<close>

definition demo_gdt :: "unit core" where
  "demo_gdt = \<lparr>core_mmu = (demo_mmu 0 0 (SET_CR 0 1 (ccpu0\<lparr>CCPU_CPL := 3, CCPU_STAR := (\<lambda>_. \<lparr>star_base = 0, star_limit = 0x17\<rparr>)\<rparr>)))
     \<lparr>phys := (phys (demo_mmu 0 0 ccpu0))\<lparr>M_area := (\<lambda>_. 0)(8 := 0xff, 9 := 0xff, 13 := 0xf2, 16 := 0xff, 17 := 0xff, 21 := 0x92)\<rparr>\<rparr>, core_dbg = demo_debug, core_xcp = xcptn0\<rparr>"

lemma demo_gdt_read:
  "a = 8 \<or> a = 12 \<or> a = 16 \<or> a = 20 \<Longrightarrow> spr_read_dword gmi a demo_gdt = Some (Inr (peek32 (core_phys demo_gdt) a), demo_gdt)"
proof -
  assume a: "a = 8 \<or> a = 12 \<or> a = 16 \<or> a = 20"
  have r: "ram32 (core_phys demo_gdt) a" using a by (auto simp: ram32_def demo_gdt_def demo_mmu_def READ_SELF_MOD_def)
  have "\<not> GET_PG (core_cpu demo_gdt)" by (simp add: demo_gdt_def demo_mmu_def SET_CR_def)
  then show ?thesis using RAM.rd [OF r, of gmi] by (simp add: spr_read_dword_def map_address_def m_get_def m_bind_def m_ret_def phy_get_def set_phys_def)
qed

lemma demo_descr:
  "read_descr gmi 8 demo_gdt = Some (Inr \<lparr>descr_base = 0, descr_limit = 0xffff, descr_AR = 0xf2\<rparr>, demo_gdt)"
  "read_descr gmi 16 demo_gdt = Some (Inr \<lparr>descr_base = 0, descr_limit = 0xffff, descr_AR = 0x92\<rparr>, demo_gdt)"
proof -
  have "peek32 (core_phys demo_gdt) 8 = 0xffff" "peek32 (core_phys demo_gdt) 12 = 0xf200" "peek32 (core_phys demo_gdt) 16 = 0xffff" "peek32 (core_phys demo_gdt) 20 = 0x9200"
    by (simp_all add: peek32_def demo_gdt_def demo_mmu_def)
  then show "read_descr gmi 8 demo_gdt = Some (Inr \<lparr>descr_base = 0, descr_limit = 0xffff, descr_AR = 0xf2\<rparr>, demo_gdt)"
    "read_descr gmi 16 demo_gdt = Some (Inr \<lparr>descr_base = 0, descr_limit = 0xffff, descr_AR = 0x92\<rparr>, demo_gdt)"
    by (simp_all add: read_descr_def m_bind_def demo_gdt_read m_ret_def read_descriptor_linear_def)
qed

lemma demo_facts: "\<not> real_mode (core_cpu demo_gdt)" "CCPU_CPL (core_cpu demo_gdt) = 3" "CCPU_STAR (core_cpu demo_gdt) 0 = \<lparr>star_base = 0, star_limit = 0x17\<rparr>"
  by (simp_all add: demo_gdt_def demo_mmu_def SET_CR_def ccpu0_def)

theorem segment_loads_respect_privilege_witness:
  "\<forall>gmi. (\<exists>c'. load_data_seg gmi 3 0x0b demo_gdt = Some (Inr (), c') \<and> visible (core_cpu c') 3) \<and>
    load_data_seg gmi 3 0x13 demo_gdt = Some (Inl (GP 0x13), demo_gdt)"
proof (intro allI conjI)
  fix gmi :: "unit gmi"
  have o: "selector_outside_GDT_LDT 0x0b (core_cpu demo_gdt) = Some 8" "selector_outside_GDT_LDT 0x13 (core_cpu demo_gdt) = Some 16" "\<not> selector_is_null 0x0b" "\<not> selector_is_null 0x13"
    by (simp_all add: selector_outside_GDT_LDT_def selector_is_null_def GET_SELECTOR_INDEX_TIMES8_def GET_SELECTOR_TI_def demo_facts)
  have ck: "data_seg_check 0x0b 3 \<lparr>descr_base = 0, descr_limit = 0xffff, descr_AR = 0xf2\<rparr> = None" "data_seg_check 0x13 3 \<lparr>descr_base = 0, descr_limit = 0xffff, descr_AR = 0x92\<rparr> = Some (GP 0x13)"
    by (simp_all add: data_seg_check_def is_data_def descriptor_super_type_def GET_AR_DPL_def GET_AR_P_def GET_SELECTOR_RPL_def)
  show "load_data_seg gmi 3 0x13 demo_gdt = Some (Inl (GP 0x13), demo_gdt)"
    using o ck demo_facts by (simp add: load_data_seg_def m_get_def m_bind_def demo_descr m_fault_def)
  have pg: "\<not> GET_PG (core_cpu demo_gdt)" by (simp add: demo_gdt_def demo_mmu_def SET_CR_def)
  obtain s where "phy_w8 gmi 13 0xf3 (core_phys demo_gdt) = Some s" by (simp add: phy_w8_def demo_gdt_def demo_mmu_def readSelfMod_def READ_SELF_MOD_def)
  then have "mark_accessed gmi 8 \<lparr>descr_base = 0, descr_limit = 0xffff, descr_AR = 0xf2\<rparr> demo_gdt = Some (Inr \<lparr>descr_base = 0, descr_limit = 0xffff, descr_AR = 0xf3\<rparr>, set_phys s demo_gdt)"
    using pg by (simp add: mark_accessed_def spr_write_byte_def map_address_def m_get_def m_bind_def m_ret_def phy_put_def)
  then obtain c' where l: "load_data_seg gmi 3 0x0b demo_gdt = Some (Inr (), c')"
    using o ck demo_facts by (simp add: load_data_seg_def m_get_def m_bind_def demo_descr m_cpu_def)
  have "CCPU_CPL (core_cpu demo_gdt) < 4" by (simp add: demo_facts)
  from segment_loads_respect_privilege [OF demo_facts(1) this, of gmi 3 "0x0b"] l
  show "\<exists>c'. load_data_seg gmi 3 0x0b demo_gdt = Some (Inr (), c') \<and> visible (core_cpu c') 3" by fastforce
qed

end
