(* ===== verification/Ccpu_Select.thy ===== *)
theory Ccpu_Select
  imports Ccpu_Seg_Run
begin

text \<open>
  The instructions that ask about a selector without loading it (\<open>lar.c\<close>, \<open>lsl.c\<close>, \<open>verr.c\<close>, \<open>verw.c\<close>,
  \<open>arpl.c\<close>), and their agreement with what a load of the selector would do.
\<close>

definition privilege_ok :: "IU32 \<Rightarrow> IU32 \<Rightarrow> IU16 \<Rightarrow> bool" where
  "privilege_ok CPL RPL AR = (CPL \<le> GET_AR_DPL AR \<and> RPL \<le> GET_AR_DPL AR)"

section \<open>Access rights and limit\<close>

definition lar_loadable :: "IU32 \<Rightarrow> IU32 \<Rightarrow> IU16 \<Rightarrow> bool" where
  "lar_loadable CPL RPL AR =
     (let super = descriptor_super_type AR
      in if super = 0 then False
         else if super \<in> {CONFORM_NOREAD_CODE, CONFORM_READABLE_CODE} then True
         else privilege_ok CPL RPL AR)"

definition lsl_loadable :: "IU32 \<Rightarrow> IU32 \<Rightarrow> IU16 \<Rightarrow> bool" where
  "lsl_loadable CPL RPL AR =
     (let super = descriptor_super_type AR
      in if super \<in> {0, 4, 5, 6, 7, 0xc, 0xe, 0xf} then False
         else if super \<in> {CONFORM_NOREAD_CODE, CONFORM_READABLE_CODE} then True
         else privilege_ok CPL RPL AR)"

text \<open>The result is the new value of the destination, which stays as it was when the selector does not admit the load.\<close>

definition load_info :: "'v gmi \<Rightarrow> (IU32 \<Rightarrow> IU32 \<Rightarrow> IU16 \<Rightarrow> bool) \<Rightarrow> (CPU_DESCR \<Rightarrow> IU32) \<Rightarrow> IU32 \<Rightarrow> IU32 \<Rightarrow> ('v, IU32) m" where
  "load_info gmi loadable val op1 op2 = m_get (\<lambda>c.
     case selector_outside_GDT_LDT (ucast op2) (core_cpu c) of
       None \<Rightarrow> m_bind (m_cpu (SET_ZF 0)) (\<lambda>_. m_ret op1)
     | Some descr_addr \<Rightarrow> m_bind (read_descr gmi descr_addr) (\<lambda>e.
         if loadable (CCPU_CPL (core_cpu c)) (op2 AND 3) (descr_AR e)
         then m_bind (m_cpu (SET_ZF 1)) (\<lambda>_. m_ret (val e)) else m_bind (m_cpu (SET_ZF 0)) (\<lambda>_. m_ret op1)))"

definition LAR :: "'v gmi \<Rightarrow> IU32 \<Rightarrow> IU32 \<Rightarrow> ('v, IU32) m" where
  "LAR gmi = load_info gmi lar_loadable (\<lambda>e. push_bit 8 (ucast (descr_AR e)))"

definition LSL :: "'v gmi \<Rightarrow> IU32 \<Rightarrow> IU32 \<Rightarrow> ('v, IU32) m" where
  "LSL gmi = load_info gmi lsl_loadable descr_limit"

section \<open>Verification\<close>

definition verr_readable :: "IU32 \<Rightarrow> IU32 \<Rightarrow> IU16 \<Rightarrow> bool" where
  "verr_readable CPL RPL AR =
     (let super = descriptor_super_type AR
      in if super = CONFORM_READABLE_CODE then True
         else if super \<in> {EXPANDUP_READONLY_DATA, EXPANDUP_WRITEABLE_DATA, EXPANDDOWN_READONLY_DATA, EXPANDDOWN_WRITEABLE_DATA, NONCONFORM_READABLE_CODE}
         then privilege_ok CPL RPL AR
         else False)"

definition verw_writeable :: "IU32 \<Rightarrow> IU32 \<Rightarrow> IU16 \<Rightarrow> bool" where
  "verw_writeable CPL RPL AR =
     (if descriptor_super_type AR \<in> {EXPANDUP_WRITEABLE_DATA, EXPANDDOWN_WRITEABLE_DATA} then privilege_ok CPL RPL AR else False)"

definition verify_selector :: "'v gmi \<Rightarrow> (IU32 \<Rightarrow> IU32 \<Rightarrow> IU16 \<Rightarrow> bool) \<Rightarrow> IU32 \<Rightarrow> ('v, unit) m" where
  "verify_selector gmi ok op1 = m_get (\<lambda>c.
     case selector_outside_GDT_LDT (ucast op1) (core_cpu c) of
       None \<Rightarrow> m_cpu (SET_ZF 0)
     | Some descr \<Rightarrow> m_bind (spr_read_byte gmi (descr + 5)) (\<lambda>AR.
         m_cpu (SET_ZF (of_bool (ok (CCPU_CPL (core_cpu c)) (op1 AND 3) (ucast AR))))))"

definition VERR :: "'v gmi \<Rightarrow> IU32 \<Rightarrow> ('v, unit) m" where "VERR gmi = verify_selector gmi verr_readable"
definition VERW :: "'v gmi \<Rightarrow> IU32 \<Rightarrow> ('v, unit) m" where "VERW gmi = verify_selector gmi verw_writeable"

definition ARPL :: "IU32 \<Rightarrow> IU32 \<Rightarrow> ccpu \<Rightarrow> IU32 \<times> ccpu" where
  "ARPL op1 op2 s = (let rpl = op2 AND 3 in if op1 AND 3 < rpl then ((op1 AND NOT 3) OR rpl, SET_ZF 1 s) else (op1, SET_ZF 0 s))"

section \<open>Agreement with loads\<close>

lemma low_byte_rights:
  "descriptor_super_type (ucast (ucast AR :: IU8)) = descriptor_super_type AR" "GET_AR_DPL (ucast (ucast AR :: IU8)) = GET_AR_DPL AR"
proof -
  have m: "ucast (ucast AR :: IU8) AND (x :: IU16) = AR AND x" if "x AND 0xff = x" for x
  proof -
    have "ucast (ucast AR :: IU8) = AR AND (0xff :: IU16)"
    proof -
      have m: "(0xff :: IU16) = mask 8" by (simp add: mask_numeral)
      show ?thesis unfolding m by (rule bit_word_eqI) (auto simp: bit_simps)
    qed
    then show ?thesis using that by (metis and.assoc and.commute)
  qed
  show "descriptor_super_type (ucast (ucast AR :: IU8)) = descriptor_super_type AR" "GET_AR_DPL (ucast (ucast AR :: IU8)) = GET_AR_DPL AR"
    using m [of "0x1f"] m [of "0x60"] by (simp_all add: descriptor_super_type_def GET_AR_DPL_def)
qed

lemma readable_iff: "verr_readable CPL (GET_SELECTOR_RPL sel) (descr_AR e) \<longleftrightarrow> data_seg_check sel CPL e \<noteq> Some (GP sel)"
  by (auto simp: verr_readable_def data_seg_check_def is_data_def privilege_ok_def Let_def not_less)

text \<open>The bit of writability of a data segment is part of its type.\<close>

lemma super_writeable: "is_data e \<Longrightarrow> GET_AR_W (descr_AR e) \<noteq> 0 \<longleftrightarrow> descriptor_super_type (descr_AR e) \<in> {EXPANDUP_WRITEABLE_DATA, EXPANDDOWN_WRITEABLE_DATA}"
proof -
  let ?x = "descr_AR e"
  assume d: "is_data e"
  have n: "descriptor_super_type ?x = (?x AND 0x1f) OR 1"
  proof (cases "?x AND 0x1f \<in> {0x0, 0x8, 0xa, 0xd} \<or> ?x AND 0x1f \<in> {0x1, 0x2, 0x3, 0x4, 0x5, 0x6, 0x7, 0x9, 0xb, 0xc, 0xe, 0xf}")
    case True
    then show ?thesis using d unfolding is_data_def descriptor_super_type_def Let_def by (elim disjE) auto
  next
    case False
    then show ?thesis unfolding descriptor_super_type_def Let_def by argo
  qed
  have "bit ?x 1 \<longleftrightarrow> bit ((?x AND 0x1f) OR 1) 1" by (simp add: bit_and_iff bit_or_iff bit_numeral_rec bit_1_iff)
  also have "\<dots> \<longleftrightarrow> descriptor_super_type ?x \<in> {EXPANDUP_WRITEABLE_DATA, EXPANDDOWN_WRITEABLE_DATA}"
    using d unfolding is_data_def n [symmetric] by (auto simp: bit_numeral_rec)
  finally show ?thesis using and_exp_neq_0_iff [of ?x 1] by (simp add: GET_AR_W_def)
qed

lemma writeable_iff:
  "verw_writeable CPL (GET_SELECTOR_RPL sel) (descr_AR e) \<longleftrightarrow> data_seg_check sel CPL e \<noteq> Some (GP sel) \<and> is_data e \<and> GET_AR_W (descr_AR e) \<noteq> 0"
  using super_writeable [of e] by (auto simp: verw_writeable_def data_seg_check_def privilege_ok_def Let_def not_less is_data_def split: if_splits)

lemma in_table_not_null: "selector_outside_GDT_LDT sel s = Some d \<Longrightarrow> \<not> selector_is_null sel"
  by (auto simp: selector_outside_GDT_LDT_def selector_is_null_iff Let_def)

lemma rpl_wide: "ucast (sel :: IU16) AND 3 = GET_SELECTOR_RPL sel"
  by (simp add: GET_SELECTOR_RPL_def) (rule bit_word_eqI, auto simp: bit_simps dest: bit_imp_le_length)

lemma verify_result:
  assumes "selector_outside_GDT_LDT sel (core_cpu c) = Some d" "spr_read_byte gmi (d + 5) c = Some (Inr (ucast (descr_AR e)), c1)"
    "\<And>a b. ok a b (ucast (ucast (descr_AR e) :: IU8)) = ok a b (descr_AR e)"
  shows "verify_selector gmi ok (ucast sel) c = Some (Inr (), upd_cpu (SET_ZF (of_bool (ok (CCPU_CPL (core_cpu c)) (GET_SELECTOR_RPL sel) (descr_AR e)))) c1)"
proof -
  have "ucast (ucast sel :: IU32) = sel" by (rule bit_word_eqI) (auto simp: bit_simps)
  then show ?thesis using assms by (simp add: verify_selector_def m_get_def m_bind_def m_cpu_def rpl_wide)
qed

lemma load_outcome:
  assumes "\<not> real_mode (core_cpu c)" "selector_outside_GDT_LDT sel (core_cpu c) = Some d" "read_descr gmi d c = Some (Inr e, c1)"
  shows "(\<exists>c''. load_data_seg gmi i sel c = Some (Inl (GP sel), c'')) \<longleftrightarrow> data_seg_check sel (CCPU_CPL (core_cpu c)) e = Some (GP sel)"
    "load_data_seg gmi i sel c = Some (Inr (), c'') \<Longrightarrow> data_seg_check sel (CCPU_CPL (core_cpu c)) e = None \<and>
      sr_ar_w (CCPU_SR (core_cpu c'') i) = (if is_data e then GET_AR_W (descr_AR e) else 0)"
proof -
  have l: "load_data_seg gmi i sel c = (case data_seg_check sel (CCPU_CPL (core_cpu c)) e of Some f \<Rightarrow> m_fault f
    | None \<Rightarrow> m_bind (mark_accessed gmi d e) (\<lambda>e'. m_cpu (set_sr i (data_cache sel (is_data e) e')))) c1"
    using assms in_table_not_null [OF assms(2)] by (simp add: load_data_seg_def m_get_def m_bind_def)
  have pf: "f \<noteq> GP sel" if "mark_accessed gmi d e c1 = Some (Inl f, c2)" for f c2
  proof -
    have "map_sum PageFault id a = Inl f \<Longrightarrow> \<exists>pf. f = PageFault pf" for a :: "PF + IU32" by (cases a) auto
    then have "\<exists>pf. f = PageFault pf" using that
      by (fastforce simp: mark_accessed_def spr_write_byte_def map_address_def m_get_def m_ret_def lin2phy_m_def phy_put_def elim!: m_bind_Some split: if_splits bind_splits sum.splits)
    then show ?thesis by auto
  qed
  show "(\<exists>c''. load_data_seg gmi i sel c = Some (Inl (GP sel), c'')) \<longleftrightarrow> data_seg_check sel (CCPU_CPL (core_cpu c)) e = Some (GP sel)"
    unfolding l using pf by (cases "data_seg_check sel (CCPU_CPL (core_cpu c)) e") (auto simp: m_fault_def m_cpu_def elim!: m_bind_Some)
  assume "load_data_seg gmi i sel c = Some (Inr (), c'')"
  then show "data_seg_check sel (CCPU_CPL (core_cpu c)) e = None \<and> sr_ar_w (CCPU_SR (core_cpu c'') i) = (if is_data e then GET_AR_W (descr_AR e) else 0)"
    unfolding l by (cases "data_seg_check sel (CCPU_CPL (core_cpu c)) e") (auto simp: m_fault_def m_cpu_def data_cache_def Let_def accessed_bits dest!: mark_accessed_result elim!: m_bind_Some)
qed

lemma low_byte_checks:
  "verr_readable a b (ucast (ucast AR :: IU8)) = verr_readable a b AR" "verw_writeable a b (ucast (ucast AR :: IU8)) = verw_writeable a b AR"
  by (simp_all add: verr_readable_def verw_writeable_def privilege_ok_def low_byte_rights)

lemma verify_outside:
  assumes "selector_outside_GDT_LDT sel (core_cpu c) = None"
  shows "verify_selector gmi ok (ucast sel) c = Some (Inr (), upd_cpu (SET_ZF 0) c)"
proof -
  have "ucast (ucast sel :: IU32) = sel" by (rule bit_word_eqI) (auto simp: bit_simps)
  then show ?thesis using assms by (simp add: verify_selector_def m_get_def m_cpu_def)
qed

text \<open>
  C22. The verification instructions predict loads, in protected mode. For a selector with a descriptor in its table that can be read,
  \<open>VERR\<close> sets the zero flag exactly when loading the selector into a data segment register does not raise the protection fault, and
  \<open>VERW\<close> sets it exactly when, besides, the descriptor is of a writable data segment, whether the segment is present or not; so
  after a load that succeeds \<open>VERW\<close> has told whether the register admits writes. For a selector outside its table, the null selector
  included, both clear the flag, and the load raises the protection fault unless the selector is null. Neither instruction ever faults itself where
  the descriptor can be read, and nothing but the flag depends on the answer.
\<close>

theorem verify_predicts_load:
  assumes "\<not> real_mode (core_cpu c)"
  shows "(selector_outside_GDT_LDT sel (core_cpu c) = Some d \<and> read_descr gmi d c = Some (Inr e, c1) \<and> spr_read_byte gmi (d + 5) c = Some (Inr (ucast (descr_AR e)), c2) \<longrightarrow>
      (let denied = (\<exists>c''. load_data_seg gmi i sel c = Some (Inl (GP sel), c''))
       in (\<exists>z. VERR gmi (ucast sel) c = Some (Inr (), upd_cpu (SET_ZF z) c2) \<and> z = of_bool (\<not> denied)) \<and>
          (\<exists>z. VERW gmi (ucast sel) c = Some (Inr (), upd_cpu (SET_ZF z) c2) \<and> z = of_bool (\<not> denied \<and> is_data e \<and> GET_AR_W (descr_AR e) \<noteq> 0) \<and>
            (\<forall>c''. load_data_seg gmi i sel c = Some (Inr (), c'') \<longrightarrow> (z = 1 \<longleftrightarrow> sr_ar_w (CCPU_SR (core_cpu c'') i) \<noteq> 0))))) \<and>
    (selector_outside_GDT_LDT sel (core_cpu c) = None \<longrightarrow>
      VERR gmi (ucast sel) c = Some (Inr (), upd_cpu (SET_ZF 0) c) \<and> VERW gmi (ucast sel) c = Some (Inr (), upd_cpu (SET_ZF 0) c) \<and>
      (\<not> selector_is_null sel \<longrightarrow> load_data_seg gmi i sel c = Some (Inl (GP sel), c)))"
proof (intro conjI impI)
  let ?p = "CCPU_CPL (core_cpu c)"
  assume "selector_outside_GDT_LDT sel (core_cpu c) = Some d \<and> read_descr gmi d c = Some (Inr e, c1) \<and> spr_read_byte gmi (d + 5) c = Some (Inr (ucast (descr_AR e)), c2)"
  then have h: "selector_outside_GDT_LDT sel (core_cpu c) = Some d" "read_descr gmi d c = Some (Inr e, c1)" "spr_read_byte gmi (d + 5) c = Some (Inr (ucast (descr_AR e)), c2)" by simp_all
  define denied where "denied = (\<exists>c''. load_data_seg gmi i sel c = Some (Inl (GP sel), c''))"
  have d: "denied \<longleftrightarrow> data_seg_check sel ?p e = Some (GP sel)" unfolding denied_def by (rule load_outcome(1) [OF assms h(1,2)])
  have "VERR gmi (ucast sel) c = Some (Inr (), upd_cpu (SET_ZF (of_bool (\<not> denied))) c2)"
    using verify_result [where ok = verr_readable, OF h(1,3) low_byte_checks(1)] readable_iff [of ?p sel e] d unfolding VERR_def by simp
  moreover have "VERW gmi (ucast sel) c = Some (Inr (), upd_cpu (SET_ZF (of_bool (\<not> denied \<and> is_data e \<and> GET_AR_W (descr_AR e) \<noteq> 0))) c2)"
    using verify_result [where ok = verw_writeable, OF h(1,3) low_byte_checks(2)] writeable_iff [of ?p sel e] d unfolding VERW_def by simp
  moreover have "\<not> denied \<and> sr_ar_w (CCPU_SR (core_cpu c'') i) = (if is_data e then GET_AR_W (descr_AR e) else 0)" if "load_data_seg gmi i sel c = Some (Inr (), c'')" for c''
    using load_outcome(2) [OF assms h(1,2) that] that by (auto simp: denied_def)
  ultimately show "let denied = (\<exists>c''. load_data_seg gmi i sel c = Some (Inl (GP sel), c''))
       in (\<exists>z. VERR gmi (ucast sel) c = Some (Inr (), upd_cpu (SET_ZF z) c2) \<and> z = of_bool (\<not> denied)) \<and>
          (\<exists>z. VERW gmi (ucast sel) c = Some (Inr (), upd_cpu (SET_ZF z) c2) \<and> z = of_bool (\<not> denied \<and> is_data e \<and> GET_AR_W (descr_AR e) \<noteq> 0) \<and>
            (\<forall>c''. load_data_seg gmi i sel c = Some (Inr (), c'') \<longrightarrow> (z = 1 \<longleftrightarrow> sr_ar_w (CCPU_SR (core_cpu c'') i) \<noteq> 0)))"
    unfolding Let_def denied_def [symmetric] by auto
next
  assume o: "selector_outside_GDT_LDT sel (core_cpu c) = None"
  then show "VERR gmi (ucast sel) c = Some (Inr (), upd_cpu (SET_ZF 0) c)" "VERW gmi (ucast sel) c = Some (Inr (), upd_cpu (SET_ZF 0) c)"
    unfolding VERR_def VERW_def by (rule verify_outside)+
  show "load_data_seg gmi i sel c = Some (Inl (GP sel), c)" if "\<not> selector_is_null sel" using that o assms by (simp add: load_data_seg_def m_get_def m_fault_def)
qed

text \<open>A descriptor of level 0 asked for at level 3, and the null selector.\<close>

theorem verify_predicts_load_witness:
  "\<forall>gmi. (\<exists>c2. VERR gmi 0x13 demo_gdt = Some (Inr (), upd_cpu (SET_ZF 0) c2) \<and> VERW gmi 0x13 demo_gdt = Some (Inr (), upd_cpu (SET_ZF 0) c2)) \<and>
    (\<exists>c''. load_data_seg gmi 3 0x13 demo_gdt = Some (Inl (GP 0x13), c'')) \<and> VERR gmi 0 demo_gdt = Some (Inr (), upd_cpu (SET_ZF 0) demo_gdt)"
proof (intro allI conjI)
  fix gmi :: "unit gmi"
  have o: "selector_outside_GDT_LDT 0x13 (core_cpu demo_gdt) = Some 16" "\<not> selector_is_null 0x13" "selector_outside_GDT_LDT 0 (core_cpu demo_gdt) = None"
    by (simp_all add: selector_outside_GDT_LDT_def selector_is_null_def GET_SELECTOR_INDEX_TIMES8_def GET_SELECTOR_TI_def demo_facts)
  have ck: "data_seg_check 0x13 3 \<lparr>descr_base = 0, descr_limit = 0xffff, descr_AR = 0x92\<rparr> = Some (GP 0x13)"
    by (simp add: data_seg_check_def is_data_def descriptor_super_type_def GET_AR_DPL_def GET_AR_P_def GET_SELECTOR_RPL_def)
  show l: "\<exists>c''. load_data_seg gmi 3 0x13 demo_gdt = Some (Inl (GP 0x13), c'')" using o ck demo_facts by (simp add: load_data_seg_def m_get_def m_bind_def demo_descr m_fault_def)
  have "\<not> GET_PG (core_cpu demo_gdt)" by (simp add: demo_gdt_def demo_mmu_def SET_CR_def)
  moreover have "phyR gmi 21 1 (core_phys demo_gdt) = Some (0x92, core_phys demo_gdt)"
    by (simp add: phyR_def phyR_with_def Let_def demo_gdt_def demo_mmu_def readSelfMod_def READ_SELF_MOD_def phyR_byte_def)
  ultimately have b: "spr_read_byte gmi (16 + 5) demo_gdt = Some (Inr (ucast (descr_AR \<lparr>descr_base = 0, descr_limit = 0xffff, descr_AR = 0x92\<rparr>)), set_phys (core_phys demo_gdt) demo_gdt)"
    by (simp add: spr_read_byte_def map_address_def m_get_def m_bind_def m_ret_def phy_get_def phy_r8_def)
  show "\<exists>c2. VERR gmi 0x13 demo_gdt = Some (Inr (), upd_cpu (SET_ZF 0) c2) \<and> VERW gmi 0x13 demo_gdt = Some (Inr (), upd_cpu (SET_ZF 0) c2)"
    using verify_predicts_load [OF demo_facts(1), THEN conjunct1, THEN mp, OF conjI [OF o(1) conjI [OF demo_descr(2) b]], of 3] l by (auto simp: Let_def)
  show "VERR gmi 0 demo_gdt = Some (Inr (), upd_cpu (SET_ZF 0) demo_gdt)"
    using verify_predicts_load [OF demo_facts(1), THEN conjunct2, THEN mp, OF o(3)] by simp
qed

end
