(* ===== verification/Ccpu_Addr.thy ===== *)
theory Ccpu_Addr
  imports Ccpu_Page
begin

text \<open>
  Where the operands of an instruction are: the fetch of instruction bytes through the host pointer into the current code page
  (\<open>SETUP_HOST_IP\<close> and \<open>ccpu_new_code_page\<close> of \<open>c_main.c\<close>, \<open>GET_INST_BYTE\<close> of \<open>c_mem.h\<close>), the decoding of the
  addressing form and the segment limit check (\<open>c_addr.c\<close>), and the check of a port against the permission map of the
  task (\<open>c_main.c\<close>).
\<close>

section \<open>Instruction bytes\<close>

text \<open>The pointers into the memory array are offsets from its start.\<close>

record host_ip =
  hip_p :: nat
  p_start :: nat
  pg_end :: nat

definition SETUP_HOST_IP :: "'v gmi \<Rightarrow> host_ip \<Rightarrow> ('v, host_ip) m" where
  "SETUP_HOST_IP gmi x = m_get (\<lambda>c.
     m_bind (usr_chk_byte gmi (sr_base (CCPU_SR (core_cpu c) 1) + CCPU_IP (core_cpu c)) PG_R) (\<lambda>phy. m_get (\<lambda>c.
       let ip_phy_addr = phy AND SasWrapMask (core_phys c)
       in m_ret (x\<lparr>hip_p := unat ip_phy_addr, pg_end := unat ((ip_phy_addr AND NOT 0xfff) + 0x1000)\<rparr>))))"

definition inst_byte :: "host_ip \<Rightarrow> ('v, IU8 \<times> host_ip) m" where
  "inst_byte x = m_get (\<lambda>c. m_ret (M_area (core_phys c) (hip_p x), x\<lparr>hip_p := hip_p x + 1\<rparr>))"

definition ccpu_new_code_page :: "'v gmi \<Rightarrow> host_ip \<Rightarrow> ('v, IU8 \<times> host_ip) m" where
  "ccpu_new_code_page gmi x =
     m_bind (m_cpu (\<lambda>s. s\<lparr>CCPU_IP := CCPU_IP s + (of_nat (hip_p x) - of_nat (p_start x))\<rparr>)) (\<lambda>_.
     m_bind (SETUP_HOST_IP gmi x) (\<lambda>x. inst_byte (x\<lparr>p_start := hip_p x\<rparr>)))"

definition GET_INST_BYTE :: "'v gmi \<Rightarrow> host_ip \<Rightarrow> ('v, IU8 \<times> host_ip) m" where
  "GET_INST_BYTE gmi x = (if pg_end x \<le> hip_p x then ccpu_new_code_page gmi x else inst_byte x)"

section \<open>Addressing forms\<close>

text \<open>The identifiers are the numbers of the source; a filler is 0.\<close>

definition addr_maintype :: "nat list list list" where
  "addr_maintype =
   [[[0, 1, 2, 3, 4, 5, 6, 7],
     [8, 9, 10, 11, 12, 13, 14, 15],
     [16, 17, 18, 19, 20, 21, 22, 23]],
    [[24, 25, 26, 27, 0, 28, 29, 30],
     [31, 32, 33, 34, 0, 35, 36, 37],
     [38, 39, 40, 41, 0, 42, 43, 44]],
    [[45, 46, 47, 48, 49, 50, 51, 52],
     [53, 54, 55, 56, 57, 58, 59, 60],
     [61, 62, 63, 64, 65, 66, 67, 68]]]"

definition addr_subtype :: "nat list list" where
  "addr_subtype =
   [[1, 2, 3, 4, 5, 6, 7, 8],
    [9, 10, 11, 12, 13, 14, 15, 16],
    [17, 18, 19, 20, 21, 22, 23, 24],
    [25, 26, 27, 28, 29, 30, 31, 32]]"

datatype disp_kind = D_NO | D_S8 | D_S16 | D_Z16 | D_32

definition addr_disp :: "disp_kind list list list" where
  "addr_disp =
   [[[D_NO, D_NO, D_NO, D_NO, D_NO, D_NO, D_Z16, D_NO],
     [D_S8, D_S8, D_S8, D_S8, D_S8, D_S8, D_S8, D_S8],
     [D_S16, D_S16, D_S16, D_S16, D_S16, D_S16, D_S16, D_S16]],
    [[D_NO, D_NO, D_NO, D_NO, D_NO, D_32, D_NO, D_NO],
     [D_S8, D_S8, D_S8, D_S8, D_S8, D_S8, D_S8, D_S8],
     [D_32, D_32, D_32, D_32, D_32, D_32, D_32, D_32]]]"

text \<open>\<open>DS_REG\<close> is 3, \<open>SS_REG\<close> is 2.\<close>

definition addr_default_seg :: "nat list list list" where
  "addr_default_seg =
   [[[3, 3, 2, 2, 3, 3, 3, 3],
     [3, 3, 2, 2, 3, 3, 2, 3],
     [3, 3, 2, 2, 3, 3, 2, 3]],
    [[3, 3, 3, 3, 2, 3, 3, 3],
     [3, 3, 3, 3, 2, 2, 3, 3],
     [3, 3, 3, 3, 2, 2, 3, 3]]]"

abbreviation ADDRESS_SIZE :: "ccpu \<Rightarrow> nat" where "ADDRESS_SIZE s \<equiv> unat (CCPU_MODE s 1)"
abbreviation GET_POP_DISP :: "ccpu \<Rightarrow> IU32" where "GET_POP_DISP s \<equiv> CCPU_MODE s 2"
abbreviation (input) SEG_CLR :: nat where "SEG_CLR \<equiv> 6"

definition address_add :: "IU32 \<Rightarrow> IU32 \<Rightarrow> ccpu \<Rightarrow> IU32" where
  "address_add offset delta s = (if ADDRESS_SIZE s = 1 then offset + delta else (offset + delta) AND 0xffff)"

definition get_disp :: "'v gmi \<Rightarrow> disp_kind \<Rightarrow> host_ip \<Rightarrow> ('v, IU32 \<times> host_ip) m" where
  "get_disp gmi k p =
     (case k of
        D_NO \<Rightarrow> m_ret (0, p)
      | D_S8 \<Rightarrow> m_bind (GET_INST_BYTE gmi p) (\<lambda>(b0, p).
          let disp = ucast b0 in m_ret (if disp AND 0x80 \<noteq> 0 then disp OR NOT 0xff else disp, p))
      | D_S16 \<Rightarrow> m_bind (GET_INST_BYTE gmi p) (\<lambda>(b0, p). m_bind (GET_INST_BYTE gmi p) (\<lambda>(b1, p).
          let disp = ucast b0 OR push_bit 8 (ucast b1) in m_ret (if disp AND 0x8000 \<noteq> 0 then disp OR NOT 0xffff else disp, p)))
      | D_Z16 \<Rightarrow> m_bind (GET_INST_BYTE gmi p) (\<lambda>(b0, p). m_bind (GET_INST_BYTE gmi p) (\<lambda>(b1, p).
          m_ret (ucast b0 OR push_bit 8 (ucast b1), p)))
      | D_32 \<Rightarrow> m_bind (GET_INST_BYTE gmi p) (\<lambda>(b0, p). m_bind (GET_INST_BYTE gmi p) (\<lambda>(b1, p).
          m_bind (GET_INST_BYTE gmi p) (\<lambda>(b2, p). m_bind (GET_INST_BYTE gmi p) (\<lambda>(b3, p).
          m_ret (ucast b0 OR push_bit 8 (ucast b1) OR push_bit 16 (ucast b2) OR push_bit 24 (ucast b3), p))))))"

text \<open>The two switches; every identifier of the tables has a case, so the last branch is never taken.\<close>

definition main_offset :: "nat \<Rightarrow> IU32 \<Rightarrow> ccpu \<Rightarrow> IU32" where
  "main_offset identifier disp s =
     (let W = (\<lambda>i. ucast (GET_WR i s) :: IU32); R = CCPU_GR s
      in if identifier \<in> {0, 8, 16} then (W 3 + W 6 + disp) AND 0xffff
         else if identifier \<in> {1, 9, 17} then (W 3 + W 7 + disp) AND 0xffff
         else if identifier \<in> {2, 10, 18} then (W 5 + W 6 + disp) AND 0xffff
         else if identifier \<in> {3, 11, 19} then (W 5 + W 7 + disp) AND 0xffff
         else if identifier \<in> {4, 12, 20} then (W 6 + disp) AND 0xffff
         else if identifier \<in> {5, 13, 21} then (W 7 + disp) AND 0xffff
         else if identifier \<in> {6} then disp AND 0xffff
         else if identifier \<in> {14, 22} then (W 5 + disp) AND 0xffff
         else if identifier \<in> {7, 15, 23} then (W 3 + disp) AND 0xffff
         else if identifier \<in> {24, 31, 38, 45, 53, 61} then R 0 + disp
         else if identifier \<in> {25, 32, 39, 46, 54, 62} then R 1 + disp
         else if identifier \<in> {26, 33, 40, 47, 55, 63} then R 2 + disp
         else if identifier \<in> {27, 34, 41, 48, 56, 64} then R 3 + disp
         else if identifier \<in> {49, 57, 65} then R 4 + GET_POP_DISP s + disp
         else if identifier \<in> {28, 50} then disp
         else if identifier \<in> {35, 42, 58, 66} then R 5 + disp
         else if identifier \<in> {29, 36, 43, 51, 59, 67} then R 6 + disp
         else if identifier \<in> {30, 37, 44, 52, 60, 68} then R 7 + disp
         else 0)"

definition sub_offset :: "nat \<Rightarrow> IU32 \<Rightarrow> ccpu \<Rightarrow> IU32" where
  "sub_offset sub_id mem_off s =
     (if sub_id = 0 \<or> (sub_id - 1) mod 8 = 4 then mem_off
      else mem_off + push_bit ((sub_id - 1) div 8) (CCPU_GR s ((sub_id - 1) mod 8)))"

text \<open>The address size was set by the decoder and does not change while the bytes of the instruction are fetched.\<close>

definition d_mem :: "'v gmi \<Rightarrow> IU8 \<Rightarrow> host_ip \<Rightarrow> nat \<Rightarrow> ('v, nat \<times> IU32 \<times> host_ip) m" where
  "d_mem gmi modRM p segment_override =
     (let mode = unat (drop_bit 6 modRM AND 3); r_m = unat (modRM AND 7)
      in m_get (\<lambda>c.
           m_bind (if r_m = 4 \<and> ADDRESS_SIZE (core_cpu c) = 1
                   then m_bind (GET_INST_BYTE gmi p) (\<lambda>(sib, p).
                     let r_m = unat (sib AND 7)
                     in m_ret (r_m, addr_maintype ! 2 ! mode ! r_m, addr_subtype ! unat (drop_bit 6 sib AND 3) ! unat (drop_bit 3 sib AND 7), p))
                   else m_ret (r_m, addr_maintype ! ADDRESS_SIZE (core_cpu c) ! mode ! r_m, 0, p))
             (\<lambda>(r_m, identifier, sub_id, p).
           m_bind (get_disp gmi (addr_disp ! ADDRESS_SIZE (core_cpu c) ! mode ! r_m) p) (\<lambda>(disp, p). m_get (\<lambda>c'.
             let seg = (if segment_override = SEG_CLR then addr_default_seg ! ADDRESS_SIZE (core_cpu c) ! mode ! r_m else segment_override)
             in m_ret (seg, sub_offset sub_id (main_offset identifier disp (core_cpu c')) (core_cpu c'), p))))))"

section \<open>Limits\<close>

definition bad_limit :: "SEGMENT_REGISTER \<Rightarrow> IU32 \<Rightarrow> nat \<Rightarrow> nat \<Rightarrow> bool" where
  "bad_limit r offset nr_items op_sz =
     (let range = (of_nat nr_items * of_nat op_sz - 1 :: IU32)
      in if sr_ar_e r \<noteq> 0
         then (let segment_top = (if sr_ar_x r = 1 then 0xffffffff else 0xffff :: IU32)
               in offset \<le> sr_limit r \<or> segment_top - range < offset)
         else if sr_limit r < offset \<or> sr_limit r < range then True
         else if sr_limit r - range < offset
              then (if unat offset mod op_sz \<noteq> 0 then True
                    else if sr_ar_x r = 0 then sr_limit r \<noteq> 0xffff
                    else sr_limit r \<noteq> 0xffffffff)
              else False)"

definition limit_check :: "nat \<Rightarrow> IU32 \<Rightarrow> nat \<Rightarrow> nat \<Rightarrow> ('v, unit) m" where
  "limit_check index offset nr_items op_sz = m_get (\<lambda>c.
     if \<not> GET_PE (core_cpu c) \<or> GET_VM (core_cpu c) = 1 then m_ret ()
     else if bad_limit (CCPU_SR (core_cpu c) index) offset nr_items op_sz then m_fault (if index = 2 then SF 0 else GP 0)
     else m_ret ())"

section \<open>Port permissions\<close>

definition width_mask :: "nat \<Rightarrow> IU32" where
  "width_mask i = [0x1, 0x3, 0, 0xf] ! i"

abbreviation (input) MAP_BASE_ADDR :: IU32 where "MAP_BASE_ADDR \<equiv> 0x66"

definition check_io_permission_map :: "'v gmi \<Rightarrow> IU32 \<Rightarrow> nat \<Rightarrow> ('v, unit) m" where
  "check_io_permission_map gmi port width = m_get (\<lambda>c. let TR = CCPU_SAR (core_cpu c) 1 in
     if sar_selector TR = 0 \<or> sar_ar_super TR = 3 then m_fault (GP 0)
     else if sar_limit TR \<le> MAP_BASE_ADDR then m_fault (GP 0)
     else m_bind (spr_read_word gmi (sar_base TR + MAP_BASE_ADDR)) (\<lambda>map_start_offset.
       let map_word_offset = (ucast (ucast map_start_offset + drop_bit 3 port) :: IU16)
       in if sar_limit TR \<le> ucast map_word_offset then m_fault (GP 0)
          else m_bind (spr_read_word gmi (sar_base TR + ucast map_word_offset)) (\<lambda>map_word.
            let map_word = drop_bit (unat (port AND 7)) map_word
            in if ucast map_word AND width_mask (width - 1) \<noteq> 0 then m_fault (GP 0) else m_ret ())))"

end
