(* ===== verification/Ccpu_Stack.thy ===== *)
theory Ccpu_Stack
  imports Ccpu_Addr Ccpu_Seg
begin

text \<open>
  The stack (\<open>ccpu386/c_stack.c\<close>) and the instructions on it: \<open>push.c\<close>, \<open>pop.c\<close>, \<open>pusha.c\<close>, \<open>popa.c\<close>,
  \<open>pushf.c\<close>, \<open>popf.c\<close>, \<open>enter.c\<close>, \<open>leave.c\<close> and the move to a segment register of \<open>mov.c\<close>. The size of
  the stack pointer is that of the stack segment, the size of an item that of the operand.
\<close>

abbreviation OPERAND_SIZE :: "ccpu \<Rightarrow> nat" where "OPERAND_SIZE s \<equiv> unat (CCPU_MODE s 0)"
abbreviation SS :: "ccpu \<Rightarrow> SEGMENT_REGISTER" where "SS s \<equiv> CCPU_SR s 2"

definition item_size :: "ccpu \<Rightarrow> nat" where
  "item_size s = (if OPERAND_SIZE s = 0 then 2 else 4)"

section \<open>Stack and frame pointer\<close>

definition set_stack_reg :: "nat \<Rightarrow> IU32 \<Rightarrow> ccpu \<Rightarrow> ccpu" where
  "set_stack_reg i x s = (if sr_ar_x (SS s) = 1 then SET_GR i x s else SET_WR i (ucast x) s)"

definition get_stack_reg :: "nat \<Rightarrow> ccpu \<Rightarrow> IU32" where
  "get_stack_reg i s = (if sr_ar_x (SS s) = 1 then CCPU_GR s i else ucast (GET_WR i s))"

definition GetStackPointer :: "ccpu \<Rightarrow> IU32" where "GetStackPointer s = get_stack_reg 4 s"
definition get_current_BP :: "ccpu \<Rightarrow> IU32" where "get_current_BP s = get_stack_reg 5 s"
definition set_current_SP :: "IU32 \<Rightarrow> ccpu \<Rightarrow> ccpu" where "set_current_SP new_sp s = set_stack_reg 4 new_sp s"
definition set_current_BP :: "IU32 \<Rightarrow> ccpu \<Rightarrow> ccpu" where "set_current_BP new_bp s = set_stack_reg 5 new_bp s"

definition byte_change_SP :: "IU32 \<Rightarrow> ccpu \<Rightarrow> ccpu" where
  "byte_change_SP delta s =
     (if sr_ar_x (SS s) = 1 then SET_GR 4 (CCPU_GR s 4 + delta) s else SET_WR 4 (ucast (ucast (GET_WR 4 s) + delta)) s)"

definition change_SP :: "IU32 \<Rightarrow> ccpu \<Rightarrow> ccpu" where
  "change_SP items s =
     (let items = items * (if OPERAND_SIZE s = 0 then 2 else 4)
      in if sr_ar_x (SS s) = 1 then SET_GR 4 (CCPU_GR s 4 + items) s else SET_WR 4 (ucast (ucast (GET_WR 4 s) + items)) s)"

definition stack_wrap :: "ccpu \<Rightarrow> IU32 \<Rightarrow> IU32" where
  "stack_wrap s offset = (if sr_ar_x (SS s) = 0 then offset AND 0xffff else offset)"

section \<open>Items\<close>

definition spop :: "'v gmi \<Rightarrow> ('v, IU32) m" where
  "spop gmi = m_get (\<lambda>c. let s = core_cpu c; addr = sr_base (SS s) + GetStackPointer s
     in if OPERAND_SIZE s = 0
        then m_bind (vir_read_word gmi addr NO_PHYSICAL_MAPPING) (\<lambda>val. m_bind (m_cpu (byte_change_SP 2)) (\<lambda>_. m_ret (ucast val)))
        else m_bind (vir_read_dword gmi addr NO_PHYSICAL_MAPPING) (\<lambda>val. m_bind (m_cpu (byte_change_SP 4)) (\<lambda>_. m_ret val)))"

definition spush :: "'v gmi \<Rightarrow> IU32 \<Rightarrow> ('v, unit) m" where
  "spush gmi data = m_get (\<lambda>c.
     if OPERAND_SIZE (core_cpu c) = 0
     then m_bind (m_cpu (byte_change_SP (- 2))) (\<lambda>_. m_get (\<lambda>c. let s = core_cpu c; addr = sr_base (SS s) + GetStackPointer s
            in vir_write_word gmi addr NO_PHYSICAL_MAPPING (ucast data)))
     else m_bind (m_cpu (byte_change_SP (- 4))) (\<lambda>_. m_get (\<lambda>c. let s = core_cpu c; addr = sr_base (SS s) + GetStackPointer s
            in vir_write_dword gmi addr NO_PHYSICAL_MAPPING data)))"

definition spush16 :: "'v gmi \<Rightarrow> IU32 \<Rightarrow> ('v, unit) m" where
  "spush16 gmi data = m_get (\<lambda>c.
     m_bind (m_cpu (byte_change_SP (if OPERAND_SIZE (core_cpu c) = 0 then - 2 else - 4))) (\<lambda>_. m_get (\<lambda>c.
       let s = core_cpu c; addr = sr_base (SS s) + GetStackPointer s in vir_write_word gmi addr NO_PHYSICAL_MAPPING (ucast data))))"

definition tpop :: "'v gmi \<Rightarrow> IU32 \<Rightarrow> IU32 \<Rightarrow> ('v, IU32) m" where
  "tpop gmi item_offset byte_offset = m_get (\<lambda>c.
     let s = core_cpu c; offset = item_offset * (if OPERAND_SIZE s = 0 then 2 else 4) + byte_offset;
         addr = stack_wrap s (GetStackPointer s + offset) + sr_base (SS s)
     in if OPERAND_SIZE s = 0 then m_bind (vir_read_word gmi addr NO_PHYSICAL_MAPPING) (\<lambda>val. m_ret (ucast val))
        else vir_read_dword gmi addr NO_PHYSICAL_MAPPING)"

section \<open>Checks\<close>

primrec chk_new_stack :: "'v gmi \<Rightarrow> nat \<Rightarrow> IU32 \<Rightarrow> IU32 \<Rightarrow> ('v, unit) m" where
  "chk_new_stack gmi 0 base offset = m_ret ()"
| "chk_new_stack gmi (Suc n) base offset = m_get (\<lambda>c.
     if OPERAND_SIZE (core_cpu c) = 0
     then m_bind (spr_chk_word gmi (base + offset) PG_W) (\<lambda>_. chk_new_stack gmi n base (offset + 2))
     else m_bind (spr_chk_dword gmi (base + offset) PG_W) (\<lambda>_. chk_new_stack gmi n base (offset + 4)))"

definition validate_new_stack_space :: "'v gmi \<Rightarrow> nat \<Rightarrow> IU32 \<Rightarrow> CPU_DESCR \<Rightarrow> ('v, unit) m" where
  "validate_new_stack_space gmi nr_items stack_top e = m_get (\<lambda>c.
     let bytes = of_nat nr_items * (if OPERAND_SIZE (core_cpu c) = 0 then 2 else 4);
         bad = (if GET_AR_E (descr_AR e) = 0 then stack_top < bytes \<or> descr_limit e < stack_top - 1
                else stack_top \<le> descr_limit e + bytes \<or> (if GET_AR_X (descr_AR e) = 0 then 0xffff else 0xffffffff) < stack_top - 1)
     in if bad then m_fault (SF 0) else chk_new_stack gmi nr_items (descr_base e) (stack_top - bytes))"

primrec chk_stack :: "'v gmi \<Rightarrow> nat \<Rightarrow> nat \<Rightarrow> IU32 \<Rightarrow> ('v, unit) m" where
  "chk_stack gmi access 0 offset = m_ret ()"
| "chk_stack gmi access (Suc n) offset = m_get (\<lambda>c. let s = core_cpu c in
     m_bind (if item_size s = 2 then usr_chk_word gmi (sr_base (SS s) + offset) access else usr_chk_dword gmi (sr_base (SS s) + offset) access)
       (\<lambda>_. chk_stack gmi access n (stack_wrap s (offset + of_nat (item_size s)))))"

definition validate_stack_exists :: "'v gmi \<Rightarrow> bool \<Rightarrow> nat \<Rightarrow> ('v, unit) m" where
  "validate_stack_exists gmi use_bp nr_items = m_get (\<lambda>c. let s = core_cpu c; offset = (if use_bp then get_current_BP s else GetStackPointer s) in
     if sr_ar_r (SS s) = 0 then m_fault (if real_mode s then GP 0 else SF 0)
     else m_bind (limit_check 2 offset nr_items (item_size s)) (\<lambda>_. chk_stack gmi PG_R nr_items offset))"

definition validate_stack_space :: "'v gmi \<Rightarrow> bool \<Rightarrow> nat \<Rightarrow> ('v, unit) m" where
  "validate_stack_space gmi use_bp nr_items = m_get (\<lambda>c. let s = core_cpu c;
       offset = stack_wrap s ((if use_bp then get_current_BP s else GetStackPointer s) - of_nat (nr_items * item_size s)) in
     if sr_ar_w (SS s) = 0 then m_fault (if real_mode s then GP 0 else SF 0)
     else m_bind (limit_check 2 offset nr_items (item_size s)) (\<lambda>_. chk_stack gmi PG_W nr_items offset))"

section \<open>Instructions\<close>

definition PUSH :: "'v gmi \<Rightarrow> IU32 \<Rightarrow> ('v, unit) m" where
  "PUSH gmi op1 = m_bind (validate_stack_space gmi False 1) (\<lambda>_. spush gmi op1)"

definition PUSH_SR :: "'v gmi \<Rightarrow> IU32 \<Rightarrow> ('v, unit) m" where
  "PUSH_SR gmi op1 = m_bind (validate_stack_space gmi False 1) (\<lambda>_. spush16 gmi op1)"

definition POP :: "'v gmi \<Rightarrow> ('v, IU32) m" where
  "POP gmi = m_bind (validate_stack_exists gmi False 1) (\<lambda>_. spop gmi)"

definition MOV_SR :: "'v gmi \<Rightarrow> nat \<Rightarrow> IU32 \<Rightarrow> ('v, unit) m" where
  "MOV_SR gmi op1 op2 =
     (if op1 \<in> {3, 0, 4, 5} then load_data_seg gmi op1 (ucast op2)
      else if op1 = 2 then load_stack_seg gmi (ucast op2)
      else m_ret ())"

definition POP_SR :: "'v gmi \<Rightarrow> nat \<Rightarrow> ('v, unit) m" where
  "POP_SR gmi op1 =
     m_bind (validate_stack_exists gmi False 1) (\<lambda>_.
     m_bind (tpop gmi 0 0) (\<lambda>op2.
     m_bind (MOV_SR gmi op1 (op2 AND 0xffff)) (\<lambda>_. m_cpu (change_SP 1))))"

primrec spush_all :: "'v gmi \<Rightarrow> IU32 list \<Rightarrow> ('v, unit) m" where
  "spush_all gmi [] = m_ret ()"
| "spush_all gmi (x # xs) = m_bind (spush gmi x) (\<lambda>_. spush_all gmi xs)"

text \<open>The pushes change only ESP of the registers, so the values may be read beforehand, ESP itself as the source does.\<close>

definition PUSHA :: "'v gmi \<Rightarrow> ('v, unit) m" where
  "PUSHA gmi = m_bind (validate_stack_space gmi False 8) (\<lambda>_. m_get (\<lambda>c. let R = CCPU_GR (core_cpu c) in
     spush_all gmi [R 0, R 1, R 2, R 3, R 4, R 5, R 6, R 7]))"

primrec spop_into :: "'v gmi \<Rightarrow> (IU32 \<Rightarrow> ccpu \<Rightarrow> ccpu) list \<Rightarrow> ('v, unit) m" where
  "spop_into gmi [] = m_ret ()"
| "spop_into gmi (f # fs) = m_bind (spop gmi) (\<lambda>x. m_bind (m_cpu (f x)) (\<lambda>_. spop_into gmi fs))"

definition POPA :: "'v gmi \<Rightarrow> ('v, unit) m" where
  "POPA gmi = m_bind (validate_stack_exists gmi False 8) (\<lambda>_. let W = (\<lambda>i x. SET_WR i (ucast x)) in
     spop_into gmi [W 7, W 6, W 5, \<lambda>_ s. s, W 3, W 2, W 1, W 0])"

definition POPAD :: "'v gmi \<Rightarrow> ('v, unit) m" where
  "POPAD gmi = m_bind (validate_stack_exists gmi False 8) (\<lambda>_.
     spop_into gmi [SET_GR 7, SET_GR 6, SET_GR 5, \<lambda>_ s. s, SET_GR 3, SET_GR 2, SET_GR 1, SET_GR 0])"

definition PUSHF :: "'v gmi \<Rightarrow> ('v, unit) m" where
  "PUSHF gmi = m_bind (validate_stack_space gmi False 1) (\<lambda>_. m_get (\<lambda>c.
     spush gmi (c_getEFLAGS (core_cpu c) AND NOT 0x20000 AND NOT 0x10000)))"

definition POPF :: "'v gmi \<Rightarrow> ('v, unit) m" where
  "POPF gmi = m_bind (validate_stack_exists gmi False 1) (\<lambda>_. m_bind (spop gmi) (\<lambda>val. m_cpu (setFLAGS val)))"

text \<open>The note that \<open>POPFD\<close> makes of flags of later processors is a diagnostic.\<close>

definition POPFD :: "'v gmi \<Rightarrow> ('v, unit) m" where
  "POPFD gmi = m_bind (validate_stack_exists gmi False 1) (\<lambda>_. m_get (\<lambda>c.
     let keep_vm = GET_VM (core_cpu c); keep_rf = GET_RF (core_cpu c) in
     m_bind (spop gmi) (\<lambda>val. m_cpu (\<lambda>s. SET_RF keep_rf (SET_VM keep_vm (c_setEFLAGS val s))))))"

definition LEAVE :: "'v gmi \<Rightarrow> (IU32 \<Rightarrow> ccpu \<Rightarrow> ccpu) \<Rightarrow> ('v, unit) m" where
  "LEAVE gmi set_bp = m_bind (validate_stack_exists gmi True 1) (\<lambda>_.
     m_bind (m_cpu (\<lambda>s. set_current_SP (CCPU_GR s 5) s)) (\<lambda>_. m_bind (spop gmi) (\<lambda>new_bp. m_cpu (set_bp new_bp))))"

definition LEAVE16 :: "'v gmi \<Rightarrow> ('v, unit) m" where "LEAVE16 gmi = LEAVE gmi (\<lambda>x. SET_WR 5 (ucast x))"
definition LEAVE32 :: "'v gmi \<Rightarrow> ('v, unit) m" where "LEAVE32 gmi = LEAVE gmi (SET_GR 5)"

primrec copy_params :: "'v gmi \<Rightarrow> (IU32 \<Rightarrow> ('v, IU32) m) \<Rightarrow> IU32 \<Rightarrow> nat \<Rightarrow> IU32 \<Rightarrow> ('v, unit) m" where
  "copy_params gmi rd sz 0 p_delta = m_ret ()"
| "copy_params gmi rd sz (Suc n) p_delta = m_get (\<lambda>c. let s = core_cpu c; p_delta = p_delta - sz in
     m_bind (rd (stack_wrap s (get_current_BP s + p_delta) + sr_base (SS s))) (\<lambda>param.
     m_bind (spush gmi param) (\<lambda>_. copy_params gmi rd sz n p_delta)))"

definition ENTER :: "'v gmi \<Rightarrow> (IU32 \<Rightarrow> ('v, IU32) m) \<Rightarrow> IU32 \<Rightarrow> (ccpu \<Rightarrow> IU32) \<Rightarrow> IU32 \<Rightarrow> IU32 \<Rightarrow> ('v, unit) m" where
  "ENTER gmi rd sz bp op1 op2 =
     (let op2 = unat (op2 AND 0x1f) in
      m_bind (validate_stack_space gmi False (op2 + 1)) (\<lambda>_. m_get (\<lambda>c.
      m_bind (if 1 < op2 then (if sr_ar_r (SS (core_cpu c)) = 0 then m_fault (SF 0) else validate_stack_space gmi True (op2 - 1)) else m_ret ()) (\<lambda>_. m_get (\<lambda>c.
      m_bind (spush gmi (bp (core_cpu c))) (\<lambda>_. m_get (\<lambda>c. let frame_ptr = GetStackPointer (core_cpu c) in
      m_bind (if 0 < op2 then m_bind (copy_params gmi rd sz (op2 - 1) 0) (\<lambda>_. spush gmi frame_ptr) else m_ret ()) (\<lambda>_.
      m_bind (m_cpu (set_current_BP frame_ptr)) (\<lambda>_.
      if op1 \<noteq> 0 then m_cpu (byte_change_SP (- op1)) else m_ret ())))))))))"

definition ENTER16 :: "'v gmi \<Rightarrow> IU32 \<Rightarrow> IU32 \<Rightarrow> ('v, unit) m" where
  "ENTER16 gmi = ENTER gmi (\<lambda>a. m_bind (vir_read_word gmi a NO_PHYSICAL_MAPPING) (\<lambda>w. m_ret (ucast w))) 2 (\<lambda>s. ucast (GET_WR 5 s))"

definition ENTER32 :: "'v gmi \<Rightarrow> IU32 \<Rightarrow> IU32 \<Rightarrow> ('v, unit) m" where
  "ENTER32 gmi = ENTER gmi (\<lambda>a. vir_read_dword gmi a NO_PHYSICAL_MAPPING) 4 (\<lambda>s. CCPU_GR s 5)"

end
