(* ===== verification/Ccpu_Tsksw.thy ===== *)
theory Ccpu_Tsksw
  imports Ccpu_Stack
begin

text \<open>
  Task switches (\<open>ccpu386/c_tsksw.c\<close>) and the moves to control, debug and test registers (\<open>mov.c\<close>). A task switch saves the registers
  into the task state segment of the old task, marks the descriptors, loads the registers of the new task, and only then checks what it
  loaded: from there on exceptions belong to the new task.
\<close>

section \<open>Control, debug and test registers\<close>

definition m_mmu :: "('v mmu \<Rightarrow> 'v mmu) \<Rightarrow> ('v, unit) m" where
  "m_mmu f c = Some (Inr (), c\<lparr>core_mmu := f (core_mmu c)\<rparr>)"

definition m_dbg :: "(ccpu_debug \<Rightarrow> ccpu_debug) \<Rightarrow> ('v, unit) m" where
  "m_dbg f c = Some (Inr (), c\<lparr>core_dbg := f (core_dbg c)\<rparr>)"

definition GET_ET :: "ccpu \<Rightarrow> IU32" where
  "GET_ET s = of_bool (CCPU_CR s 0 AND 0x10 \<noteq> 0)"

definition SET_ET :: "IU32 \<Rightarrow> ccpu \<Rightarrow> ccpu" where
  "SET_ET x s = SET_CR 0 (CCPU_CR s 0 AND NOT 0x10 OR push_bit 4 (x AND 1)) s"

definition SET_DR :: "nat \<Rightarrow> IU32 \<Rightarrow> ccpu_debug \<Rightarrow> ccpu_debug" where
  "SET_DR i x d = d\<lparr>CCPU_DR := (CCPU_DR d)(i := x)\<rparr>"

definition SET_TR :: "nat \<Rightarrow> IU32 \<Rightarrow> 'v mmu \<Rightarrow> 'v mmu" where
  "SET_TR i x s = s\<lparr>CCPU_TR := (CCPU_TR s)(i := x)\<rparr>"

definition MOV_CR :: "IU32 \<Rightarrow> IU32 \<Rightarrow> ('v, unit) m" where
  "MOV_CR op1 op2 =
     (if op1 = 0
      then (if op2 AND 0x80000000 \<noteq> 0 \<and> op2 AND 1 = 0 then m_fault (GP 0)
            else m_cpu (\<lambda>s. SET_ET (GET_ET s) (SET_CR 0 (op2 AND 0x8000001f) s)))
      else if op1 = 2 then m_cpu (SET_CR 2 op2)
      else if op1 = 3 then m_bind (m_cpu (SET_CR 3 (op2 AND 0xfffff000))) (\<lambda>_. m_mmu flush_tlb)
      else m_ret ())"

definition MOV_DR :: "IU32 \<Rightarrow> IU32 \<Rightarrow> ccpu_debug \<Rightarrow> ccpu_debug" where
  "MOV_DR op1 op2 d =
     (if op1 \<le> 3 then setup_breakpoints (SET_DR (unat op1) op2 d)
      else if op1 = 6 then SET_DR 6 (op2 AND 0xe00f) d
      else if op1 = 7 then setup_breakpoints (SET_DR 7 (op2 AND 0xffff03ff) d)
      else d)"

text \<open>Writes to the cache test registers only print a message.\<close>

definition MOV_TR :: "IU32 \<Rightarrow> IU32 \<Rightarrow> 'v mmu \<Rightarrow> 'v mmu" where
  "MOV_TR op1 op2 s = (if op1 = 6 then test_tlb (SET_TR 6 op2 s) else if op1 = 7 then SET_TR 7 op2 s else s)"

section \<open>Parts of a task switch\<close>

abbreviation (input) LDT_SEGMENT :: IU16 where "LDT_SEGMENT \<equiv> 0x02"

abbreviation LDTR :: "ccpu \<Rightarrow> SYSTEM_ADDRESS_REGISTER" where "LDTR s \<equiv> CCPU_SAR s 0"
abbreviation TR :: "ccpu \<Rightarrow> SYSTEM_ADDRESS_REGISTER" where "TR s \<equiv> CCPU_SAR s 1"

definition set_sar :: "nat \<Rightarrow> (SYSTEM_ADDRESS_REGISTER \<Rightarrow> SYSTEM_ADDRESS_REGISTER) \<Rightarrow> ccpu \<Rightarrow> ccpu" where
  "set_sar i f s = s\<lparr>CCPU_SAR := (CCPU_SAR s)(i := f (CCPU_SAR s i))\<rparr>"

definition SET_SELECTOR :: "nat \<Rightarrow> IU16 \<Rightarrow> ccpu \<Rightarrow> ccpu" where
  "SET_SELECTOR i x = set_sr i (\<lambda>r. r\<lparr>sr_selector := x\<rparr>)"

definition load_LDT_in_task_switch :: "'v gmi \<Rightarrow> IU16 \<Rightarrow> ('v, unit) m" where
  "load_LDT_in_task_switch gmi tss_selector = m_get (\<lambda>c. let selector = sar_selector (LDTR (core_cpu c));
       bad = m_bind (m_cpu (set_sar 0 (\<lambda>r. r\<lparr>sar_selector := 0\<rparr>))) (\<lambda>_. m_fault (TS tss_selector)) in
     if selector_is_null selector then m_ret ()
     else (case selector_outside_GDT selector (core_cpu c) of
         None \<Rightarrow> bad
       | Some descr_addr \<Rightarrow> m_bind (read_descr gmi descr_addr) (\<lambda>e.
           if descriptor_super_type (descr_AR e) \<noteq> LDT_SEGMENT \<or> GET_AR_P (descr_AR e) = 0 then bad
           else m_cpu (set_sar 0 (\<lambda>r. r\<lparr>sar_base := descr_base e, sar_limit := descr_limit e\<rparr>)))))"

definition load_data_seg_new_task :: "'v gmi \<Rightarrow> nat \<Rightarrow> IU16 \<Rightarrow> ('v, unit) m" where
  "load_data_seg_new_task gmi indx selector =
     m_bind (load_data_seg gmi indx selector) (\<lambda>_. m_cpu (\<lambda>s. if GET_VM s = 1 then load_pseudo_descr indx s else s))"

text \<open>Items written and read one after the other, the address running on by a step.\<close>

primrec write_items :: "(IU32 \<Rightarrow> 'a \<Rightarrow> ('v, unit) m) \<Rightarrow> IU32 \<Rightarrow> IU32 \<Rightarrow> 'a list \<Rightarrow> ('v, unit) m" where
  "write_items wr step a [] = m_ret ()"
| "write_items wr step a (x # xs) = m_bind (wr a x) (\<lambda>_. write_items wr step (a + step) xs)"

primrec read_items :: "(IU32 \<Rightarrow> ('v, 'a) m) \<Rightarrow> IU32 \<Rightarrow> IU32 \<Rightarrow> ('a \<Rightarrow> ccpu \<Rightarrow> ccpu) list \<Rightarrow> ('v, unit) m" where
  "read_items rd step a [] = m_ret ()"
| "read_items rd step a (f # fs) = m_bind (rd a) (\<lambda>x. m_bind (m_cpu (f x)) (\<lambda>_. read_items rd step (a + step) fs))"

definition selectors :: "nat list \<Rightarrow> ccpu \<Rightarrow> IU16 list" where
  "selectors is s = map (\<lambda>i. sr_selector (CCPU_SR s i)) is"

definition save_state_386 :: "'v gmi \<Rightarrow> bool \<Rightarrow> IU16 \<Rightarrow> IU32 \<Rightarrow> ('v, unit) m" where
  "save_state_386 gmi returning TSS_selector return_ip = m_get (\<lambda>c. let s = core_cpu c;
       tss_addr = sar_base (TR s);
       flags = (if returning then c_getEFLAGS s AND NOT 0x4000 else c_getEFLAGS s) in
     if sar_limit (TR s) < 0x67 then m_fault (TS TSS_selector)
     else m_bind (write_items (spr_write_dword gmi) 4 (tss_addr + 0x1c)
            ([CCPU_CR s 3, return_ip, flags] @ map (CCPU_GR s) [0, 1, 2, 3, 4, 5, 6, 7])) (\<lambda>_.
          write_items (spr_write_word gmi) 4 (tss_addr + 0x48) (selectors [0, 1, 2, 3, 4, 5] s)))"

definition save_state_286 :: "'v gmi \<Rightarrow> bool \<Rightarrow> IU16 \<Rightarrow> IU32 \<Rightarrow> ('v, unit) m" where
  "save_state_286 gmi returning TSS_selector return_ip = m_get (\<lambda>c. let s = core_cpu c;
       flags = (if returning then getFLAGS s AND NOT 0x4000 else getFLAGS s) in
     if sar_limit (TR s) < 0x29 then m_fault (TS TSS_selector)
     else write_items (spr_write_word gmi) 2 (sar_base (TR s) + 0x0e)
            ([ucast return_ip, ucast flags] @ map (\<lambda>i. GET_WR i s) [0, 1, 2, 3, 4, 5, 6, 7] @ selectors [0, 1, 2, 3] s))"

definition as_supervisor :: "(ccpu \<Rightarrow> ccpu) \<Rightarrow> ccpu \<Rightarrow> ccpu" where
  "as_supervisor f s = (f (s\<lparr>CCPU_CPL := 0\<rparr>))\<lparr>CCPU_CPL := CCPU_CPL s\<rparr>"

definition set_ldt_selector :: "IU16 \<Rightarrow> ccpu \<Rightarrow> ccpu" where
  "set_ldt_selector x = set_sar 0 (\<lambda>r. r\<lparr>sar_selector := x\<rparr>)"

text \<open>The result is the byte with the T bit.\<close>

definition extract_state_386 :: "'v gmi \<Rightarrow> IU16 \<Rightarrow> ('v, IU8) m" where
  "extract_state_386 gmi TSS_selector = m_get (\<lambda>c. let tss_addr = sar_base (TR (core_cpu c)) in
     if sar_limit (TR (core_cpu c)) < 0x67 then m_fault (TS TSS_selector)
     else m_bind (spr_read_dword gmi (tss_addr + 0x1c)) (\<lambda>pdbr. m_get (\<lambda>c.
          m_bind (if pdbr \<noteq> CCPU_CR (core_cpu c) 3 then MOV_CR 3 pdbr else m_ret ()) (\<lambda>_.
          m_bind (read_items (spr_read_dword gmi) 4 (tss_addr + 0x20)
            ([\<lambda>x s. s\<lparr>CCPU_IP := x\<rparr>, \<lambda>x. as_supervisor (c_setEFLAGS x)] @ map SET_GR [0, 1, 2, 3, 4, 5, 6, 7])) (\<lambda>_.
          m_bind (read_items (spr_read_word gmi) 4 (tss_addr + 0x48) (map SET_SELECTOR [0, 1, 2, 3, 4, 5] @ [set_ldt_selector])) (\<lambda>_.
          spr_read_byte gmi (tss_addr + 0x64)))))))"

definition extract_state_286 :: "'v gmi \<Rightarrow> IU16 \<Rightarrow> ('v, IU8) m" where
  "extract_state_286 gmi TSS_selector = m_get (\<lambda>c. let tss_addr = sar_base (TR (core_cpu c)) in
     if sar_limit (TR (core_cpu c)) < 0x2b then m_fault (TS TSS_selector)
     else m_bind (read_items (spr_read_word gmi) 2 (tss_addr + 0x0e)
            ([\<lambda>x s. s\<lparr>CCPU_IP := ucast x\<rparr>, \<lambda>x. as_supervisor (\<lambda>s. SET_VM 0 (setFLAGS (ucast x) s))] @ map SET_WR [0, 1, 2, 3, 4, 5, 6, 7]
             @ map SET_SELECTOR [0, 1, 2, 3])) (\<lambda>_.
          m_bind (m_cpu (\<lambda>s. SET_SELECTOR 5 0 (SET_SELECTOR 4 0 s))) (\<lambda>_.
          m_bind (spr_read_word gmi (tss_addr + 0x2a)) (\<lambda>x. m_bind (m_cpu (set_ldt_selector x)) (\<lambda>_. m_ret 0)))))"

definition load_task_register :: "IU16 \<Rightarrow> CPU_DESCR \<Rightarrow> ccpu \<Rightarrow> ccpu" where
  "load_task_register selector e =
     set_sar 1 (\<lambda>r. r\<lparr>sar_selector := selector, sar_base := descr_base e, sar_limit := descr_limit e,
       sar_ar_super := uint (descriptor_super_type (descr_AR e))\<rparr>)"

definition invalidate_segs :: "ccpu \<Rightarrow> ccpu" where
  "invalidate_segs s = fold (\<lambda>i. set_sr i (\<lambda>r. r\<lparr>sr_ar_r := 0, sr_ar_w := 0\<rparr>)) [1, 3, 0, 2, 4, 5] s"

definition task_code_check :: "IU16 \<Rightarrow> IU32 \<Rightarrow> CPU_DESCR \<Rightarrow> ccpu_fault option" where
  "task_code_check new_cs CPL e =
     (let super = descriptor_super_type (descr_AR e); dpl = GET_AR_DPL (descr_AR e); p = GET_AR_P (descr_AR e)
      in if super = CONFORM_NOREAD_CODE \<or> super = CONFORM_READABLE_CODE
         then (if p = 0 then Some (NP new_cs) else if CPL < dpl then Some (TS new_cs) else None)
         else if super = NONCONFORM_NOREAD_CODE \<or> super = NONCONFORM_READABLE_CODE
         then (if p = 0 then Some (NP new_cs) else if dpl \<noteq> CPL then Some (TS new_cs) else None)
         else Some (TS new_cs))"

section \<open>Task switch\<close>

text \<open>
  On the way into virtual 8086 mode the source leaves its local variable \<open>new_cs\<close> without a value and passes it on to
  \<open>load_CS_cache\<close>: \<open>junk\<close> stands for what the variable holds.
\<close>

definition check_new_task :: "'v gmi \<Rightarrow> IU16 \<Rightarrow> IU16 \<Rightarrow> ('v, unit) m" where
  "check_new_task gmi junk TSS_selector =
     m_bind (load_LDT_in_task_switch gmi TSS_selector) (\<lambda>_. m_get (\<lambda>c.
     m_bind (if GET_VM (core_cpu c) = 1
             then m_bind (m_cpu (\<lambda>s. s\<lparr>CCPU_CPL := 3\<rparr>)) (\<lambda>_. load_CS_cache gmi junk 0 \<lparr>descr_base = 0, descr_limit = 0, descr_AR = 0\<rparr>)
             else (let new_cs = sr_selector (CCPU_SR (core_cpu c) 1); CPL = GET_SELECTOR_RPL new_cs in
                m_bind (m_cpu (\<lambda>s. s\<lparr>CCPU_CPL := CPL\<rparr>)) (\<lambda>_.
                case selector_outside_GDT_LDT new_cs (core_cpu c) of
                  None \<Rightarrow> m_fault (TS new_cs)
                | Some cs_descr \<Rightarrow> m_bind (read_descr gmi cs_descr) (\<lambda>cs_entry.
                    case task_code_check new_cs CPL cs_entry of
                      Some f \<Rightarrow> m_fault f
                    | None \<Rightarrow> load_CS_cache gmi new_cs cs_descr cs_entry)))) (\<lambda>_. m_get (\<lambda>c. let s = core_cpu c; ss = sr_selector (SS s) in
     m_bind (if GET_VM s = 1 then m_bind (load_stack_seg gmi ss) (\<lambda>_. m_cpu (load_pseudo_descr 2))
             else m_bind (validate_SS_on_stack_change gmi (CCPU_CPL s) ss) (\<lambda>(ss_descr, ss_entry). load_SS_cache gmi ss ss_descr ss_entry)) (\<lambda>_.
     m_bind (m_get (\<lambda>c. load_data_seg_new_task gmi 3 (sr_selector (CCPU_SR (core_cpu c) 3)))) (\<lambda>_.
     m_bind (m_get (\<lambda>c. load_data_seg_new_task gmi 0 (sr_selector (CCPU_SR (core_cpu c) 0)))) (\<lambda>_.
     m_bind (m_get (\<lambda>c. load_data_seg_new_task gmi 4 (sr_selector (CCPU_SR (core_cpu c) 4)))) (\<lambda>_.
     m_get (\<lambda>c. load_data_seg_new_task gmi 5 (sr_selector (CCPU_SR (core_cpu c) 5)))))))))))"

definition switch_tasks :: "'v gmi \<Rightarrow> IU16 \<Rightarrow> bool \<Rightarrow> bool \<Rightarrow> IU16 \<Rightarrow> IU32 \<Rightarrow> IU32 \<Rightarrow> ('v, unit) m" where
  "switch_tasks gmi junk returning nesting TSS_selector descr return_ip = m_get (\<lambda>c. let old_tss = sar_selector (TR (core_cpu c)) in
     if old_tss = 0 then m_fault (TS TSS_selector)
     else m_bind (read_descr gmi descr) (\<lambda>new_tss. let old_descr = star_base (CCPU_STAR (core_cpu c) 0) + ucast (GET_SELECTOR_INDEX_TIMES8 old_tss) in
          m_bind (spr_read_byte gmi (old_descr + 5)) (\<lambda>old_AR.
          m_bind ((if sar_ar_super (TR (core_cpu c)) = uint XTND_BUSY_TSS then save_state_386 else save_state_286) gmi returning TSS_selector return_ip) (\<lambda>_.
          let new_tss = new_tss\<lparr>descr_AR := descr_AR new_tss OR 2\<rparr> in
          m_bind (spr_write_byte gmi (descr + 5) (ucast (descr_AR new_tss))) (\<lambda>_.
          m_bind (m_cpu (load_task_register TSS_selector new_tss)) (\<lambda>_.
          m_bind (if nesting then spr_write_word gmi (descr_base new_tss) old_tss else spr_write_byte gmi (old_descr + 5) (old_AR AND NOT 2)) (\<lambda>_.
          m_bind (m_get (\<lambda>c. (if sar_ar_super (TR (core_cpu c)) = uint XTND_BUSY_TSS then extract_state_386 else extract_state_286) gmi TSS_selector)) (\<lambda>T_byte.
          m_bind (m_cpu invalidate_segs) (\<lambda>_.
          m_bind (m_cpu (\<lambda>s. if nesting then SET_NT 1 s else if \<not> returning then SET_NT 0 s else s)) (\<lambda>_.
          m_bind (m_cpu (\<lambda>s. SET_CR 0 (CCPU_CR s 0 OR 8) s)) (\<lambda>_.
          m_bind (m_dbg (\<lambda>d. SET_DR 7 (CCPU_DR d 7 AND NOT 0x155) d)) (\<lambda>_.
          m_bind (m_dbg (\<lambda>d. if T_byte AND 1 \<noteq> 0 then SET_DR 6 (CCPU_DR d 6 OR 0x8000) d else d)) (\<lambda>_.
          check_new_task gmi junk TSS_selector)))))))))))))"

end
