(* ===== verification/Ccpu_Xfer.thy ===== *)
theory Ccpu_Xfer
  imports Ccpu_Tsksw
begin

text \<open>
  Far transfers of control (\<open>ccpu386/c_xfer.c\<close>): the destination of a jump or call as a code segment, a call gate or a task, with the
  privilege checks, and the instructions \<open>jmp.c\<close>, \<open>call.c\<close>, \<open>ret.c\<close> and \<open>lxs.c\<close>. The real mode limit faults are configured out, as the
  sources say.
\<close>

section \<open>Destinations\<close>

abbreviation (input) CALL_GATE :: IU16 where "CALL_GATE \<equiv> 0x04"
abbreviation (input) TASK_GATE :: IU16 where "TASK_GATE \<equiv> 0x05"
abbreviation (input) XTND_CALL_GATE :: IU16 where "XTND_CALL_GATE \<equiv> 0x0c"

abbreviation (input) MORE_PRIVILEGE0 :: IU32 where "MORE_PRIVILEGE0 \<equiv> 0"
abbreviation (input) SAME_LEVEL :: IU32 where "SAME_LEVEL \<equiv> 3"
abbreviation (input) NEW_TASK :: IU32 where "NEW_TASK \<equiv> 5"

definition SET_OPERAND_SIZE :: "IU32 \<Rightarrow> ccpu \<Rightarrow> ccpu" where
  "SET_OPERAND_SIZE x s = s\<lparr>CCPU_MODE := (CCPU_MODE s)(0 := x)\<rparr>"

definition SET_EIP :: "IU32 \<Rightarrow> ccpu \<Rightarrow> ccpu" where
  "SET_EIP x s = s\<lparr>CCPU_IP := x\<rparr>"

definition SET_CPL :: "IU32 \<Rightarrow> ccpu \<Rightarrow> ccpu" where
  "SET_CPL x s = s\<lparr>CCPU_CPL := x\<rparr>"

definition read_call_gate :: "'v gmi \<Rightarrow> IU32 \<Rightarrow> IU16 \<Rightarrow> ('v, IU16 \<times> IU32 \<times> nat) m" where
  "read_call_gate gmi descr_addr super =
     m_bind (spr_read_dword gmi descr_addr) (\<lambda>first_dword.
     m_bind (spr_read_dword gmi (descr_addr + 4)) (\<lambda>second_dword.
     let selector = ucast (drop_bit 16 first_dword); offset = first_dword AND 0xffff; count = second_dword AND 0xff
     in if super = XTND_CALL_GATE
        then m_bind (m_cpu (SET_OPERAND_SIZE 1)) (\<lambda>_. m_ret (selector, second_dword AND NOT 0xffff OR offset, unat (count AND 0x0f)))
        else m_bind (m_cpu (SET_OPERAND_SIZE 0)) (\<lambda>_. m_ret (selector, offset, unat (count AND 0x1f)))))"

definition gate_dest_check :: "bool \<Rightarrow> IU16 \<Rightarrow> IU16 \<Rightarrow> ccpu \<Rightarrow> ccpu_fault + IU32" where
  "gate_dest_check jmp new_cs AR s =
     (let super = descriptor_super_type AR; dpl = GET_AR_DPL AR; CPL = CCPU_CPL s;
          finish = (\<lambda>dest_type.
            if GET_VM s = 1 \<and> (dest_type \<noteq> MORE_PRIVILEGE0 \<or> OPERAND_SIZE s \<noteq> 1) then Inl (GP new_cs)
            else if GET_AR_P AR = 0 then Inl (NP new_cs) else Inr dest_type)
      in if super = CONFORM_NOREAD_CODE \<or> super = CONFORM_READABLE_CODE
         then (if CPL < dpl then Inl (GP new_cs) else finish SAME_LEVEL)
         else if super = NONCONFORM_NOREAD_CODE \<or> super = NONCONFORM_READABLE_CODE
         then (if CPL < dpl then Inl (GP new_cs)
               else if jmp \<and> dpl \<noteq> CPL then Inl (GP new_cs)
               else finish (if dpl < CPL then dpl else SAME_LEVEL))
         else Inl (GP new_cs))"

definition validate_gate_dest :: "'v gmi \<Rightarrow> bool \<Rightarrow> IU16 \<Rightarrow> ('v, IU32 \<times> IU32) m" where
  "validate_gate_dest gmi jmp new_cs = m_get (\<lambda>c.
     case selector_outside_GDT_LDT new_cs (core_cpu c) of
       None \<Rightarrow> m_fault (GP new_cs)
     | Some descr_addr \<Rightarrow> m_bind (spr_read_byte gmi (descr_addr + 5)) (\<lambda>AR.
         case gate_dest_check jmp new_cs (ucast AR) (core_cpu c) of Inl f \<Rightarrow> m_fault f | Inr dest_type \<Rightarrow> m_ret (descr_addr, dest_type)))"

definition validate_task_dest :: "'v gmi \<Rightarrow> IU16 \<Rightarrow> ('v, IU16 \<times> IU32) m" where
  "validate_task_dest gmi selector = m_get (\<lambda>c.
     case selector_outside_GDT selector (core_cpu c) of
       None \<Rightarrow> m_fault (GP selector)
     | Some descr_addr \<Rightarrow> m_bind (spr_read_byte gmi (descr_addr + 5)) (\<lambda>AR. let super = descriptor_super_type (ucast AR)
         in if super \<noteq> AVAILABLE_TSS \<and> super \<noteq> XTND_AVAILABLE_TSS then m_fault (GP selector)
            else if GET_AR_P (ucast AR) = 0 then m_fault (NP selector)
            else m_ret (super, descr_addr)))"

definition gate_admits :: "IU16 \<Rightarrow> IU16 \<Rightarrow> IU32 \<Rightarrow> bool" where
  "gate_admits new_cs AR CPL = (GET_SELECTOR_RPL new_cs \<le> GET_AR_DPL AR \<and> CPL \<le> GET_AR_DPL AR)"

text \<open>The result: selector, offset, address of the descriptor, parameter count and kind. The count is used with a gate to more privilege only.\<close>

definition validate_far_dest :: "'v gmi \<Rightarrow> IU16 \<Rightarrow> IU32 \<Rightarrow> bool \<Rightarrow> ('v, IU16 \<times> IU32 \<times> IU32 \<times> nat \<times> IU32) m" where
  "validate_far_dest gmi new_cs new_ip jmp = m_get (\<lambda>c. let CPL = CCPU_CPL (core_cpu c) in
     case selector_outside_GDT_LDT new_cs (core_cpu c) of
       None \<Rightarrow> m_fault (GP new_cs)
     | Some descr_addr \<Rightarrow> m_bind (spr_read_byte gmi (descr_addr + 5)) (\<lambda>AR. let AR = ucast AR; super = descriptor_super_type AR in
         if super = CONFORM_NOREAD_CODE \<or> super = CONFORM_READABLE_CODE
         then (if CPL < GET_AR_DPL AR then m_fault (GP new_cs)
               else if GET_AR_P AR = 0 then m_fault (NP new_cs) else m_ret (new_cs, new_ip, descr_addr, 0, SAME_LEVEL))
         else if super = NONCONFORM_NOREAD_CODE \<or> super = NONCONFORM_READABLE_CODE
         then (if CPL < GET_SELECTOR_RPL new_cs \<or> GET_AR_DPL AR \<noteq> CPL then m_fault (GP new_cs)
               else if GET_AR_P AR = 0 then m_fault (NP new_cs) else m_ret (new_cs, new_ip, descr_addr, 0, SAME_LEVEL))
         else if super = CALL_GATE \<or> super = XTND_CALL_GATE
         then (if \<not> gate_admits new_cs AR CPL then m_fault (GP new_cs)
               else if GET_AR_P AR = 0 then m_fault (NP new_cs)
               else m_bind (read_call_gate gmi descr_addr super) (\<lambda>(new_cs, new_ip, count).
                    m_bind (validate_gate_dest gmi jmp new_cs) (\<lambda>(descr_addr, dest_type).
                    m_ret (new_cs, new_ip, descr_addr, count, dest_type))))
         else if super = TASK_GATE
         then (if \<not> gate_admits new_cs AR CPL then m_fault (GP new_cs)
               else if GET_AR_P AR = 0 then m_fault (NP new_cs)
               else m_bind (spr_read_word gmi (descr_addr + 2)) (\<lambda>new_cs.
                    m_bind (validate_task_dest gmi new_cs) (\<lambda>(_, descr_addr).
                    m_ret (new_cs, new_ip, descr_addr, 0, NEW_TASK))))
         else if super = AVAILABLE_TSS \<or> super = XTND_AVAILABLE_TSS
         then (if GET_SELECTOR_TI new_cs = 1 then m_fault (GP new_cs)
               else if \<not> gate_admits new_cs AR CPL then m_fault (GP new_cs)
               else if GET_AR_P AR = 0 then m_fault (NP new_cs)
               else m_ret (new_cs, new_ip, descr_addr, 0, NEW_TASK))
         else m_fault (GP new_cs)))"

section \<open>Jumps\<close>

abbreviation (input) no_descr :: CPU_DESCR where "no_descr \<equiv> \<lparr>descr_base = 0, descr_limit = 0, descr_AR = 0\<rparr>"

abbreviation CS :: "ccpu \<Rightarrow> SEGMENT_REGISTER" where "CS s \<equiv> CCPU_SR s 1"

definition set_cs_ip :: "'v gmi \<Rightarrow> IU16 \<Rightarrow> IU32 \<Rightarrow> CPU_DESCR \<Rightarrow> IU32 \<Rightarrow> ('v, unit) m" where
  "set_cs_ip gmi new_cs descr_addr e new_ip = m_bind (load_CS_cache gmi new_cs descr_addr e) (\<lambda>_. m_cpu (SET_EIP new_ip))"

definition to_new_task :: "'v gmi \<Rightarrow> IU16 \<Rightarrow> bool \<Rightarrow> bool \<Rightarrow> IU16 \<Rightarrow> IU32 \<Rightarrow> ('v, unit) m" where
  "to_new_task gmi junk returning nesting new_cs descr_addr = m_get (\<lambda>c.
     switch_tasks gmi junk returning nesting new_cs descr_addr (CCPU_IP (core_cpu c)))"

definition task_limit_check :: "('v, unit) m" where
  "task_limit_check = m_get (\<lambda>c. let s = core_cpu c in if sr_limit (CS s) < CCPU_IP s then m_fault (GP 0) else m_ret ())"

definition JMPF :: "'v gmi \<Rightarrow> IU16 \<Rightarrow> IU16 \<Rightarrow> IU32 \<Rightarrow> ('v, unit) m" where
  "JMPF gmi junk new_cs new_ip = m_get (\<lambda>c.
     if real_mode (core_cpu c) then set_cs_ip gmi new_cs 0 no_descr new_ip
     else m_bind (validate_far_dest gmi new_cs new_ip True) (\<lambda>(new_cs, new_ip, descr_addr, count, dest_type).
          if dest_type = NEW_TASK
          then m_bind (to_new_task gmi junk False False new_cs descr_addr) (\<lambda>_. task_limit_check)
          else if dest_type = SAME_LEVEL
          then m_bind (read_descr gmi descr_addr) (\<lambda>e.
               if descr_limit e < new_ip then m_fault (GP 0)
               else m_get (\<lambda>c. set_cs_ip gmi (SET_SELECTOR_RPL new_cs (CCPU_CPL (core_cpu c))) descr_addr e new_ip))
          else m_ret ()))"

definition JMPN :: "IU32 \<Rightarrow> ('v, unit) m" where
  "JMPN offset = m_get (\<lambda>c. if \<not> real_mode (core_cpu c) \<and> sr_limit (CS (core_cpu c)) < offset then m_fault (GP 0) else m_cpu (SET_EIP offset))"

section \<open>Calls\<close>

primrec spops :: "'v gmi \<Rightarrow> nat \<Rightarrow> ('v, IU32 list) m" where
  "spops gmi 0 = m_ret []"
| "spops gmi (Suc n) = m_bind (spop gmi) (\<lambda>x. m_bind (spops gmi n) (\<lambda>xs. m_ret (x # xs)))"

definition push_return :: "'v gmi \<Rightarrow> ('v, unit) m" where
  "push_return gmi = m_get (\<lambda>c. m_bind (spush16 gmi (ucast (sr_selector (CS (core_cpu c))))) (\<lambda>_. m_get (\<lambda>c. spush gmi (CCPU_IP (core_cpu c)))))"

definition call_more_privilege :: "'v gmi \<Rightarrow> IU16 \<Rightarrow> IU32 \<Rightarrow> IU32 \<Rightarrow> nat \<Rightarrow> IU32 \<Rightarrow> ('v, unit) m" where
  "call_more_privilege gmi new_cs new_ip cs_descr_addr count dpl =
     m_bind (read_descr gmi cs_descr_addr) (\<lambda>cs_entry. let new_cs = SET_SELECTOR_RPL new_cs dpl in
     m_bind (get_stack_selector_from_TSS gmi dpl) (\<lambda>(new_ss, new_sp).
     m_bind (validate_SS_on_stack_change gmi dpl new_ss) (\<lambda>(ss_descr_addr, ss_entry).
     m_bind (validate_new_stack_space gmi (count + 4) new_sp ss_entry) (\<lambda>_.
     if descr_limit cs_entry < new_ip then m_fault (GP 0)
     else m_bind (m_cpu (SET_CPL dpl)) (\<lambda>_. m_get (\<lambda>c. let old_cs = ucast (sr_selector (CS (core_cpu c))); old_ip = CCPU_IP (core_cpu c) in
          m_bind (set_cs_ip gmi new_cs cs_descr_addr cs_entry new_ip) (\<lambda>_. m_get (\<lambda>c. let old_ss = ucast (sr_selector (SS (core_cpu c))); old_sp = CCPU_GR (core_cpu c) 4 in
          m_bind (spops gmi count) (\<lambda>params.
          m_bind (load_SS_cache gmi new_ss ss_descr_addr ss_entry) (\<lambda>_.
          m_bind (m_cpu (set_current_SP new_sp)) (\<lambda>_.
          m_bind (spush16 gmi old_ss) (\<lambda>_.
          m_bind (spush gmi old_sp) (\<lambda>_.
          m_bind (spush_all gmi (rev params)) (\<lambda>_.
          m_bind (spush16 gmi old_cs) (\<lambda>_. spush gmi old_ip)))))))))))))))"

definition CALLF :: "'v gmi \<Rightarrow> IU16 \<Rightarrow> IU16 \<Rightarrow> IU32 \<Rightarrow> ('v, unit) m" where
  "CALLF gmi junk new_cs new_ip = m_get (\<lambda>c.
     if real_mode (core_cpu c)
     then m_bind (validate_stack_space gmi False 2) (\<lambda>_. m_bind (push_return gmi) (\<lambda>_. set_cs_ip gmi new_cs 0 no_descr new_ip))
     else m_bind (validate_far_dest gmi new_cs new_ip False) (\<lambda>(new_cs, new_ip, descr_addr, count, dest_type).
          if dest_type = NEW_TASK
          then m_bind (to_new_task gmi junk False True new_cs descr_addr) (\<lambda>_. task_limit_check)
          else if dest_type = SAME_LEVEL
          then m_bind (read_descr gmi descr_addr) (\<lambda>e. m_get (\<lambda>c. let new_cs = SET_SELECTOR_RPL new_cs (CCPU_CPL (core_cpu c)) in
               m_bind (validate_stack_space gmi False 2) (\<lambda>_.
               if descr_limit e < new_ip then m_fault (GP 0)
               else m_bind (push_return gmi) (\<lambda>_. set_cs_ip gmi new_cs descr_addr e new_ip))))
          else call_more_privilege gmi new_cs new_ip descr_addr count dest_type))"

definition CALLN :: "'v gmi \<Rightarrow> IU32 \<Rightarrow> ('v, unit) m" where
  "CALLN gmi offset =
     m_bind (validate_stack_space gmi False 1) (\<lambda>_. m_bind (m_get (\<lambda>c. spush gmi (CCPU_IP (core_cpu c)))) (\<lambda>_. m_cpu (SET_EIP offset)))"

definition CALLR :: "'v gmi \<Rightarrow> IU32 \<Rightarrow> ('v, unit) m" where
  "CALLR gmi rel_offset =
     m_bind (validate_stack_space gmi False 1) (\<lambda>_. m_get (\<lambda>c. let s = core_cpu c; new_dest = CCPU_IP s + rel_offset;
       new_dest = (if OPERAND_SIZE s = 0 then new_dest AND 0xffff else new_dest) in
     m_bind (spush gmi (CCPU_IP s)) (\<lambda>_. m_cpu (SET_EIP new_dest))))"

section \<open>Returns\<close>

text \<open>The check of a code segment that is returned to at the privilege of its selector, shared with \<open>iret.c\<close>.\<close>

definition return_code_check :: "IU16 \<Rightarrow> CPU_DESCR \<Rightarrow> ccpu_fault option" where
  "return_code_check new_cs e =
     (let super = descriptor_super_type (descr_AR e); dpl = GET_AR_DPL (descr_AR e); privilege = GET_SELECTOR_RPL new_cs
      in if (super = CONFORM_NOREAD_CODE \<or> super = CONFORM_READABLE_CODE) \<and> dpl \<le> privilege
            \<or> (super = NONCONFORM_NOREAD_CODE \<or> super = NONCONFORM_READABLE_CODE) \<and> dpl = privilege
         then (if GET_AR_P (descr_AR e) = 0 then Some (NP new_cs) else None)
         else Some (GP new_cs))"

definition data_segs_new_privilege :: "ccpu \<Rightarrow> ccpu" where
  "data_segs_new_privilege s =
     load_data_seg_new_privilege 5 (load_data_seg_new_privilege 4 (load_data_seg_new_privilege 0 (load_data_seg_new_privilege 3 s)))"

definition return_code :: "'v gmi \<Rightarrow> IU16 \<Rightarrow> ('v, IU32 \<times> CPU_DESCR) m" where
  "return_code gmi new_cs = m_get (\<lambda>c.
     case selector_outside_GDT_LDT new_cs (core_cpu c) of
       None \<Rightarrow> m_fault (GP new_cs)
     | Some cs_descr_addr \<Rightarrow> m_bind (read_descr gmi cs_descr_addr) (\<lambda>cs_entry.
         case return_code_check new_cs cs_entry of Some f \<Rightarrow> m_fault f | None \<Rightarrow> m_ret (cs_descr_addr, cs_entry)))"

definition release_stack :: "IU32 \<Rightarrow> IU32 \<Rightarrow> ('v, unit) m" where
  "release_stack stk_inc op1 = m_cpu (\<lambda>s. byte_change_SP op1 (change_SP stk_inc s))"

definition retf_same_level :: "'v gmi \<Rightarrow> IU32 \<Rightarrow> IU32 \<Rightarrow> IU16 \<Rightarrow> ('v, unit) m" where
  "retf_same_level gmi op1 new_ip new_cs =
     m_bind (return_code gmi new_cs) (\<lambda>(cs_descr_addr, cs_entry).
     if descr_limit cs_entry < new_ip then m_fault (GP 0)
     else m_bind (set_cs_ip gmi new_cs cs_descr_addr cs_entry new_ip) (\<lambda>_. release_stack 2 op1))"

definition retf_lower_privilege :: "'v gmi \<Rightarrow> IU32 \<Rightarrow> nat \<Rightarrow> IU32 \<Rightarrow> IU16 \<Rightarrow> ('v, unit) m" where
  "retf_lower_privilege gmi op1 stk_item new_ip new_cs = (let privilege = GET_SELECTOR_RPL new_cs in
     m_bind (validate_stack_exists gmi False (4 + stk_item)) (\<lambda>_.
     m_bind (return_code gmi new_cs) (\<lambda>(cs_descr_addr, cs_entry).
     m_bind (tpop gmi 3 op1) (\<lambda>ss_item. let new_ss = ucast ss_item in
     m_bind (check_SS gmi new_ss privilege) (\<lambda>(ss_descr_addr, ss_entry).
     if descr_limit cs_entry < new_ip then m_fault (GP 0)
     else m_bind (m_cpu (SET_CPL privilege)) (\<lambda>_.
          m_bind (set_cs_ip gmi new_cs cs_descr_addr cs_entry new_ip) (\<lambda>_.
          m_bind (tpop gmi 2 op1) (\<lambda>new_sp.
          m_bind (load_SS_cache gmi new_ss ss_descr_addr ss_entry) (\<lambda>_.
          m_bind (m_cpu (set_current_SP new_sp)) (\<lambda>_.
          m_bind (m_cpu data_segs_new_privilege) (\<lambda>_. release_stack 0 op1)))))))))))"

definition RETF :: "'v gmi \<Rightarrow> IU32 \<Rightarrow> ('v, unit) m" where
  "RETF gmi op1 =
     m_bind (validate_stack_exists gmi False 2) (\<lambda>_.
     m_bind (tpop gmi 0 0) (\<lambda>new_ip.
     m_bind (tpop gmi 1 0) (\<lambda>item. m_get (\<lambda>c. let s = core_cpu c; new_cs = ucast item; privilege = GET_SELECTOR_RPL new_cs;
       stk_item = unat op1 div (if OPERAND_SIZE s = 0 then 2 else 4) in
     if real_mode s then m_bind (set_cs_ip gmi new_cs 0 no_descr new_ip) (\<lambda>_. release_stack 2 op1)
     else if privilege < CCPU_CPL s then m_fault (GP new_cs)
     else if privilege = CCPU_CPL s then retf_same_level gmi op1 new_ip new_cs
     else retf_lower_privilege gmi op1 stk_item new_ip new_cs))))"

definition RETN :: "'v gmi \<Rightarrow> IU32 \<Rightarrow> ('v, unit) m" where
  "RETN gmi op1 =
     m_bind (validate_stack_exists gmi False 1) (\<lambda>_.
     m_bind (tpop gmi 0 0) (\<lambda>new_ip. m_get (\<lambda>c.
     if \<not> real_mode (core_cpu c) \<and> sr_limit (CS (core_cpu c)) < new_ip then m_fault (GP 0)
     else m_cpu (\<lambda>s. let s = change_SP 1 (SET_EIP new_ip s) in if op1 \<noteq> 0 then byte_change_SP op1 s else s))))"

section \<open>Full pointers\<close>

text \<open>The result is the value for the general register.\<close>

definition load_pointer :: "'v gmi \<Rightarrow> nat \<Rightarrow> IU32 \<times> IU32 \<Rightarrow> ('v, IU32) m" where
  "load_pointer gmi i op2 = m_bind (MOV_SR gmi i (snd op2)) (\<lambda>_. m_ret (fst op2))"

definition LDS :: "'v gmi \<Rightarrow> IU32 \<times> IU32 \<Rightarrow> ('v, IU32) m" where "LDS gmi = load_pointer gmi 3"
definition LES :: "'v gmi \<Rightarrow> IU32 \<times> IU32 \<Rightarrow> ('v, IU32) m" where "LES gmi = load_pointer gmi 0"
definition LFS :: "'v gmi \<Rightarrow> IU32 \<times> IU32 \<Rightarrow> ('v, IU32) m" where "LFS gmi = load_pointer gmi 4"
definition LGS :: "'v gmi \<Rightarrow> IU32 \<times> IU32 \<Rightarrow> ('v, IU32) m" where "LGS gmi = load_pointer gmi 5"
definition LSS :: "'v gmi \<Rightarrow> IU32 \<times> IU32 \<Rightarrow> ('v, IU32) m" where "LSS gmi = load_pointer gmi 2"

end
