(* ===== verification/Ccpu_Intr.thy ===== *)
theory Ccpu_Intr
  imports Ccpu_Xfer
begin

text \<open>
  Interrupts (\<open>ccpu386/c_intr.c\<close>), the return from them (\<open>iret.c\<close>), the instructions \<open>intx.c\<close> and \<open>into.c\<close>, and the exceptions
  (\<open>c_xcptn.c\<close>) with the reset they end in (\<open>c_cpu_reset\<close> of \<open>c_main.c\<close>). The messages on the trace file are left out, and the reset of the
  floating point unit, which is not modelled.
\<close>

section \<open>Interrupts\<close>

abbreviation (input) INTERRUPT_GATE :: IU16 where "INTERRUPT_GATE \<equiv> 0x06"
abbreviation (input) TRAP_GATE :: IU16 where "TRAP_GATE \<equiv> 0x07"
abbreviation (input) XTND_INTERRUPT_GATE :: IU16 where "XTND_INTERRUPT_GATE \<equiv> 0x0e"
abbreviation (input) XTND_TRAP_GATE :: IU16 where "XTND_TRAP_GATE \<equiv> 0x0f"

definition m_xcp :: "(xcptn \<Rightarrow> xcptn) \<Rightarrow> ('v, unit) m" where
  "m_xcp f c = Some (Inr (), c\<lparr>core_xcp := f (core_xcp c)\<rparr>)"

text \<open>The result: type of the gate, selector, offset (a gate to code only), address of the descriptor, kind of destination.\<close>

definition validate_int_dest :: "'v gmi \<Rightarrow> IU16 \<Rightarrow> bool \<Rightarrow> ('v, IU16 \<times> IU16 \<times> IU32 \<times> IU32 \<times> IU32) m" where
  "validate_int_dest gmi vector do_priv = m_get (\<lambda>c. let s = core_cpu c; offset = vector * 8; descr_addr = star_base (CCPU_STAR s 1) + ucast offset in
     if unat (star_limit (CCPU_STAR s 1)) < unat offset + 7 then m_fault (GP_INT vector)
     else m_bind (spr_read_byte gmi (descr_addr + 5)) (\<lambda>AR. let AR = ucast AR; super = descriptor_super_type AR in
          m_bind (if super = INTERRUPT_GATE \<or> super = TRAP_GATE then m_cpu (SET_OPERAND_SIZE 0)
                  else if super = XTND_INTERRUPT_GATE \<or> super = XTND_TRAP_GATE then m_cpu (SET_OPERAND_SIZE 1)
                  else if super = TASK_GATE then m_ret ()
                  else m_fault (GP_INT vector)) (\<lambda>_.
          if do_priv \<and> GET_AR_DPL AR < CCPU_CPL s then m_fault (GP_INT vector)
          else if GET_AR_P AR = 0 then m_fault (NP_INT vector)
          else m_bind (spr_read_word gmi (descr_addr + 2)) (\<lambda>cs.
               if super = TASK_GATE
               then m_bind (validate_task_dest gmi cs) (\<lambda>(tss, descr_addr).
                    m_bind (m_cpu (SET_OPERAND_SIZE (if tss = BUSY_TSS \<or> tss = AVAILABLE_TSS then 0 else 1))) (\<lambda>_.
                    m_ret (super, cs, 0, descr_addr, NEW_TASK)))
               else m_bind (spr_read_word gmi descr_addr) (\<lambda>low.
                    m_bind (if super = XTND_INTERRUPT_GATE \<or> super = XTND_TRAP_GATE
                            then m_bind (spr_read_word gmi (descr_addr + 6)) (\<lambda>high. m_ret (push_bit 16 (ucast high) OR ucast low))
                            else m_ret (ucast low)) (\<lambda>ip.
                    m_bind (validate_gate_dest gmi False cs) (\<lambda>(descr_addr, dest_type).
                    m_ret (super, cs, ip, descr_addr, dest_type))))))))"

definition pushed_flags :: "'v core \<Rightarrow> IU32" where
  "pushed_flags c = (if doing_fault (core_xcp c) then c_getEFLAGS (core_cpu c) OR 0x10000 else c_getEFLAGS (core_cpu c))"

definition push_error :: "'v gmi \<Rightarrow> bool \<Rightarrow> IU16 \<Rightarrow> ('v, unit) m" where
  "push_error gmi has_error_code error_code = (if has_error_code then spush gmi (ucast error_code) else m_ret ())"

definition int_flags :: "IU16 \<Rightarrow> ccpu \<Rightarrow> ccpu" where
  "int_flags super s =
     SET_NT 0 (SET_TF 0 (if super = INTERRUPT_GATE \<or> super = XTND_INTERRUPT_GATE then SET_IF 0 s else s))"

definition intr_real :: "'v gmi \<Rightarrow> IU16 \<Rightarrow> ('v, unit) m" where
  "intr_real gmi vector =
     m_bind (validate_stack_space gmi False 3) (\<lambda>_. let ivt_addr = ucast vector * 4 in
     m_bind (phy_get (phy_r16 gmi ivt_addr)) (\<lambda>new_ip.
     m_bind (phy_get (phy_r16 gmi (ivt_addr + 2))) (\<lambda>new_cs.
     m_bind (m_get (\<lambda>c. spush gmi (pushed_flags c))) (\<lambda>_.
     m_bind (push_return gmi) (\<lambda>_.
     m_bind (set_cs_ip gmi new_cs 0 no_descr (ucast new_ip)) (\<lambda>_.
     m_cpu (\<lambda>s. SET_TF 0 (SET_IF 0 s))))))))"

definition intr_same_level :: "'v gmi \<Rightarrow> bool \<Rightarrow> IU16 \<Rightarrow> IU16 \<Rightarrow> IU16 \<Rightarrow> IU32 \<Rightarrow> IU32 \<Rightarrow> ('v, unit) m" where
  "intr_same_level gmi has_error_code error_code super new_cs new_ip cs_descr_addr =
     m_bind (read_descr gmi cs_descr_addr) (\<lambda>cs_entry. m_get (\<lambda>c. let new_cs = SET_SELECTOR_RPL new_cs (CCPU_CPL (core_cpu c)) in
     m_bind (validate_stack_space gmi False (if has_error_code then 4 else 3)) (\<lambda>_.
     if descr_limit cs_entry < new_ip then m_fault (GP 0)
     else m_bind (m_get (\<lambda>c. spush gmi (pushed_flags c))) (\<lambda>_.
          m_bind (push_return gmi) (\<lambda>_.
          m_bind (push_error gmi has_error_code error_code) (\<lambda>_.
          m_bind (set_cs_ip gmi new_cs cs_descr_addr cs_entry new_ip) (\<lambda>_. m_cpu (int_flags super))))))))"

definition intr_from_v86 :: "'v gmi \<Rightarrow> ('v, unit) m" where
  "intr_from_v86 gmi = m_get (\<lambda>c. let sel = (\<lambda>i. ucast (sr_selector (CCPU_SR (core_cpu c) i))) in
     m_bind (spush16 gmi (sel 5)) (\<lambda>_. m_bind (spush16 gmi (sel 4)) (\<lambda>_. m_bind (spush16 gmi (sel 3)) (\<lambda>_. m_bind (spush16 gmi (sel 0)) (\<lambda>_.
     m_bind (load_data_seg gmi 5 0) (\<lambda>_. m_bind (load_data_seg gmi 4 0) (\<lambda>_. m_bind (load_data_seg gmi 3 0) (\<lambda>_. load_data_seg gmi 0 0))))))))"

definition intr_more_privilege :: "'v gmi \<Rightarrow> bool \<Rightarrow> IU16 \<Rightarrow> IU16 \<Rightarrow> IU16 \<Rightarrow> IU32 \<Rightarrow> IU32 \<Rightarrow> IU32 \<Rightarrow> ('v, unit) m" where
  "intr_more_privilege gmi has_error_code error_code super new_cs new_ip cs_descr_addr dpl =
     m_bind (read_descr gmi cs_descr_addr) (\<lambda>cs_entry. let new_cs = SET_SELECTOR_RPL new_cs dpl in
     m_bind (get_stack_selector_from_TSS gmi dpl) (\<lambda>(new_ss, new_sp).
     m_bind (validate_SS_on_stack_change gmi dpl new_ss) (\<lambda>(ss_descr_addr, ss_entry). m_get (\<lambda>c. let v86 = (GET_VM (core_cpu c) = 1) in
     m_bind (validate_new_stack_space gmi ((if v86 then 9 else 5) + (if has_error_code then 1 else 0)) new_sp ss_entry) (\<lambda>_.
     if descr_limit cs_entry < new_ip then m_fault (GP 0)
     else m_get (\<lambda>c. let flags = pushed_flags c; old_ss = ucast (sr_selector (SS (core_cpu c))); old_sp = CCPU_GR (core_cpu c) 4 in
          m_bind (m_cpu (\<lambda>s. SET_VM 0 (SET_CPL dpl s))) (\<lambda>_.
          m_bind (load_SS_cache gmi new_ss ss_descr_addr ss_entry) (\<lambda>_.
          m_bind (m_cpu (set_current_SP new_sp)) (\<lambda>_.
          m_bind (if v86 then intr_from_v86 gmi else m_ret ()) (\<lambda>_.
          m_bind (spush16 gmi old_ss) (\<lambda>_.
          m_bind (spush gmi old_sp) (\<lambda>_.
          m_bind (spush gmi flags) (\<lambda>_.
          m_bind (push_return gmi) (\<lambda>_.
          m_bind (push_error gmi has_error_code error_code) (\<lambda>_.
          m_bind (set_cs_ip gmi new_cs cs_descr_addr cs_entry new_ip) (\<lambda>_. m_cpu (int_flags super)))))))))))))))))"

definition intr_new_task :: "'v gmi \<Rightarrow> IU16 \<Rightarrow> bool \<Rightarrow> IU16 \<Rightarrow> IU16 \<Rightarrow> IU32 \<Rightarrow> ('v, unit) m" where
  "intr_new_task gmi junk has_error_code error_code new_cs cs_descr_addr =
     m_bind (to_new_task gmi junk False True new_cs cs_descr_addr) (\<lambda>_.
     m_bind (if has_error_code then m_bind (validate_stack_space gmi False 1) (\<lambda>_. spush gmi (ucast error_code)) else m_ret ()) (\<lambda>_.
     task_limit_check))"

definition end_of_interrupt :: "xcptn \<Rightarrow> xcptn" where
  "end_of_interrupt x = x\<lparr>EXT := 0, doing_fault := False, doing_contributory := False, doing_page_fault := False, doing_double_fault := False\<rparr>"

definition do_intrupt :: "'v gmi \<Rightarrow> IU16 \<Rightarrow> IU16 \<Rightarrow> bool \<Rightarrow> bool \<Rightarrow> IU16 \<Rightarrow> ('v, unit) m" where
  "do_intrupt gmi junk vector priv_check has_error_code error_code =
     (if vector = 0xffff then m_ret ()
      else m_bind (m_get (\<lambda>c.
        if \<not> GET_PE (core_cpu c) then intr_real gmi vector
        else m_bind (validate_int_dest gmi vector priv_check) (\<lambda>(super, new_cs, new_ip, cs_descr_addr, dest_type).
             if dest_type = NEW_TASK then intr_new_task gmi junk has_error_code error_code new_cs cs_descr_addr
             else if dest_type = SAME_LEVEL then intr_same_level gmi has_error_code error_code super new_cs new_ip cs_descr_addr
             else intr_more_privilege gmi has_error_code error_code super new_cs new_ip cs_descr_addr dest_type))) (\<lambda>_.
        m_xcp end_of_interrupt))"

definition INTx :: "'v gmi \<Rightarrow> IU16 \<Rightarrow> IU32 \<Rightarrow> ('v, unit) m" where
  "INTx gmi junk op1 = m_bind (m_xcp (\<lambda>x. x\<lparr>EXT := 0\<rparr>)) (\<lambda>_. do_intrupt gmi junk (ucast op1) True False 0)"

definition INTO :: "'v gmi \<Rightarrow> IU16 \<Rightarrow> ('v, unit) m" where
  "INTO gmi junk = m_get (\<lambda>c. if GET_OF (core_cpu c) \<noteq> 0 then m_bind (m_xcp (\<lambda>x. x\<lparr>EXT := 0\<rparr>)) (\<lambda>_. do_intrupt gmi junk 4 True False 0) else m_ret ())"

section \<open>Return from an interrupt\<close>

definition set_current_FLAGS :: "IU32 \<Rightarrow> ccpu \<Rightarrow> ccpu" where
  "set_current_FLAGS flags s = (if OPERAND_SIZE s = 0 then setFLAGS flags s else c_setEFLAGS flags s)"

text \<open>The frame on the stack: offset, selector and flags, popped without moving the stack pointer.\<close>

definition int_frame :: "'v gmi \<Rightarrow> ('v, IU32 \<times> IU16 \<times> IU32) m" where
  "int_frame gmi =
     m_bind (validate_stack_exists gmi False 3) (\<lambda>_.
     m_bind (tpop gmi 0 0) (\<lambda>new_ip. m_bind (tpop gmi 1 0) (\<lambda>new_cs. m_bind (tpop gmi 2 0) (\<lambda>new_flags.
     m_ret (new_ip, ucast new_cs, new_flags)))))"

definition iret_real :: "'v gmi \<Rightarrow> ('v, unit) m" where
  "iret_real gmi =
     m_bind (int_frame gmi) (\<lambda>(new_ip, new_cs, new_flags).
     m_bind (set_cs_ip gmi new_cs 0 no_descr new_ip) (\<lambda>_.
     m_cpu (\<lambda>s. set_current_FLAGS new_flags (change_SP 3 s))))"

definition pop_data_seg :: "'v gmi \<Rightarrow> nat \<Rightarrow> IU32 \<Rightarrow> ('v, unit) m" where
  "pop_data_seg gmi i item = m_bind (tpop gmi item 0) (\<lambda>x. load_data_seg gmi i (ucast x))"

definition iret_to_v86 :: "'v gmi \<Rightarrow> IU32 \<Rightarrow> IU16 \<Rightarrow> IU32 \<Rightarrow> ('v, unit) m" where
  "iret_to_v86 gmi new_ip new_cs new_flags =
     m_bind (validate_stack_exists gmi False 9) (\<lambda>_.
     if 0xffff < new_ip then m_fault (GP 0)
     else m_bind (m_cpu (\<lambda>s. SET_CPL 3 (c_setEFLAGS new_flags s))) (\<lambda>_.
          m_bind (load_CS_cache gmi new_cs 0 no_descr) (\<lambda>_.
          m_bind (m_cpu (\<lambda>s. SET_EIP new_ip (set_sr 1 (\<lambda>r. r\<lparr>sr_limit := 0xffff\<rparr>) s))) (\<lambda>_.
          m_bind (tpop gmi 3 0) (\<lambda>new_sp.
          m_bind (tpop gmi 4 0) (\<lambda>new_ss.
          m_bind (pop_data_seg gmi 0 5) (\<lambda>_. m_bind (pop_data_seg gmi 3 6) (\<lambda>_. m_bind (pop_data_seg gmi 4 7) (\<lambda>_. m_bind (pop_data_seg gmi 5 8) (\<lambda>_.
          m_bind (load_stack_seg gmi (ucast new_ss)) (\<lambda>_.
          m_cpu (\<lambda>s. load_pseudo_descr 5 (load_pseudo_descr 4 (load_pseudo_descr 0 (load_pseudo_descr 3 (load_pseudo_descr 2
            (set_current_SP new_sp s)))))))))))))))))"

definition iret_same_level :: "'v gmi \<Rightarrow> IU32 \<Rightarrow> IU16 \<Rightarrow> IU32 \<Rightarrow> ('v, unit) m" where
  "iret_same_level gmi new_ip new_cs new_flags =
     m_bind (return_code gmi new_cs) (\<lambda>(cs_descr_addr, cs_entry).
     if descr_limit cs_entry < new_ip then m_fault (GP 0)
     else m_bind (set_cs_ip gmi new_cs cs_descr_addr cs_entry new_ip) (\<lambda>_. m_cpu (\<lambda>s. set_current_FLAGS new_flags (change_SP 3 s))))"

definition iret_lower_privilege :: "'v gmi \<Rightarrow> IU32 \<Rightarrow> IU16 \<Rightarrow> IU32 \<Rightarrow> ('v, unit) m" where
  "iret_lower_privilege gmi new_ip new_cs new_flags = (let privilege = GET_SELECTOR_RPL new_cs in
     m_bind (validate_stack_exists gmi False 5) (\<lambda>_.
     m_bind (return_code gmi new_cs) (\<lambda>(cs_descr_addr, cs_entry).
     m_bind (tpop gmi 4 0) (\<lambda>ss_item. let new_ss = ucast ss_item in
     m_bind (check_SS gmi new_ss privilege) (\<lambda>(ss_descr_addr, ss_entry).
     if descr_limit cs_entry < new_ip then m_fault (GP 0)
     else m_bind (set_cs_ip gmi new_cs cs_descr_addr cs_entry new_ip) (\<lambda>_.
          m_bind (m_cpu (set_current_FLAGS new_flags)) (\<lambda>_.
          m_bind (tpop gmi 3 0) (\<lambda>new_sp.
          m_bind (load_SS_cache gmi new_ss ss_descr_addr ss_entry) (\<lambda>_.
          m_cpu (\<lambda>s. data_segs_new_privilege (SET_CPL privilege (set_current_SP new_sp s))))))))))))"

definition iret_same_task :: "'v gmi \<Rightarrow> IU32 \<Rightarrow> IU16 \<Rightarrow> IU32 \<Rightarrow> ('v, unit) m" where
  "iret_same_task gmi new_ip new_cs flags = m_get (\<lambda>c. let CPL = CCPU_CPL (core_cpu c); privilege = GET_SELECTOR_RPL new_cs;
       new_flags = (if CPL \<noteq> 0 then flags AND NOT 0x20000 else flags) in
     if new_flags AND 0x20000 \<noteq> 0 then iret_to_v86 gmi new_ip new_cs new_flags
     else if privilege < CPL then m_fault (GP new_cs)
     else if privilege = CPL then iret_same_level gmi new_ip new_cs new_flags
     else iret_lower_privilege gmi new_ip new_cs new_flags)"

definition IRET :: "'v gmi \<Rightarrow> IU16 \<Rightarrow> ('v, unit) m" where
  "IRET gmi junk = m_get (\<lambda>c.
     if real_mode (core_cpu c) then iret_real gmi
     else if GET_NT (core_cpu c) = 1
     then m_bind (spr_read_word gmi (sar_base (TR (core_cpu c)))) (\<lambda>back_link.
          m_bind (validate_TSS gmi back_link True) (\<lambda>(_, tss_descr_addr).
          m_bind (to_new_task gmi junk True False back_link tss_descr_addr) (\<lambda>_. task_limit_check)))
     else m_bind (int_frame gmi) (\<lambda>(new_ip, new_cs, flags). iret_same_task gmi new_ip new_cs flags))"

section \<open>Reset\<close>

definition reset_seg :: "nat \<Rightarrow> IU16 \<Rightarrow> IU32 \<Rightarrow> ccpu \<Rightarrow> ccpu" where
  "reset_seg i sel base s = load_pseudo_descr i (set_sr i (\<lambda>r. r\<lparr>sr_selector := sel, sr_base := base\<rparr>) s)"

definition reset_registers :: "ccpu \<Rightarrow> ccpu" where
  "reset_registers s =
     (let s = fold (\<lambda>i. SET_FLAG i 0) [16, 17, 14, 12, 2, 0, 4, 6, 7, 11, 8, 9, 10] s;
          s = SET_CPL 0 (SET_EIP 0xfff0 s);
          s = reset_seg 5 0 0 (reset_seg 4 0 0 (reset_seg 0 0 0 (reset_seg 3 0 0 (reset_seg 2 0 0 (reset_seg 1 0xf000 0xf0000 s)))));
          s = SET_CR 0 0 s;
          s = s\<lparr>CCPU_STAR := (CCPU_STAR s)(1 := \<lparr>star_base = 0, star_limit = 0x3ff\<rparr>, 0 := \<lparr>star_base = 0, star_limit = 0\<rparr>)\<rparr>;
          s = set_sar 0 (\<lambda>r. r\<lparr>sar_selector := 0, sar_base := 0, sar_limit := 0\<rparr>) s;
          s = set_sar 1 (\<lambda>r. r\<lparr>sar_selector := 0, sar_base := 0, sar_limit := 0, sar_ar_super := 3\<rparr>) s;
          s = fold (\<lambda>(i, x). SET_GR i x) [(0, 0), (1, 0), (2, 0x303), (3, 0), (4, 0), (5, 0), (6, 0), (7, 0)] s
      in SET_ET 1 s)"

definition c_cpu_reset :: "('v, unit) m" where
  "c_cpu_reset =
     m_bind (m_cpu reset_registers) (\<lambda>_.
     m_bind (m_dbg (\<lambda>d. MOV_DR 7 0 (SET_DR 6 0 (SET_DR 3 0 (SET_DR 2 0 (SET_DR 1 0 (SET_DR 0 0 d))))))) (\<lambda>_.
     m_mmu (\<lambda>s. SET_TR 7 0 (SET_TR 6 0 s))))"

section \<open>Exceptions\<close>

text \<open>
  Every exception function ends by going back to the main loop, so the calls nested in it never return to it: its result is
  \<open>Delivered\<close>, a \<open>Reset\<close> of the machine, or the abort of a call from outside the CPU with the number of the exception; a fault
  inside the delivery is the exception raised next.
\<close>

datatype xc_result = Delivered | Reset | Aborted nat

definition default_mode :: "ccpu \<Rightarrow> ccpu" where
  "default_mode s = s\<lparr>CCPU_MODE := (CCPU_MODE s)(0 := sr_ar_x (CS s), 1 := sr_ar_x (CS s), 2 := 0)\<rparr>"

definition restart_instruction :: "('v, unit) m" where
  "restart_instruction = m_get (\<lambda>c. m_cpu (\<lambda>s. default_mode (SET_EIP (CCPU_save_EIP (core_xcp c)) s)))"

definition deliver :: "'v gmi \<Rightarrow> IU16 \<Rightarrow> IU16 \<Rightarrow> bool \<Rightarrow> IU16 \<Rightarrow> ('v, xc_result) m" where
  "deliver gmi junk nmbr has_error_code error_code =
     m_bind (do_intrupt gmi junk nmbr False has_error_code error_code) (\<lambda>_. m_ret Delivered)"

definition check_interface_active :: "nat \<Rightarrow> ('v, xc_result) m \<Rightarrow> ('v, xc_result) m" where
  "check_interface_active except_nmbr p = m_get (\<lambda>c. if interface_active (core_xcp c) then m_ret (Aborted except_nmbr) else p)"

definition check_for_shutdown :: "('v, xc_result) m \<Rightarrow> ('v, xc_result) m" where
  "check_for_shutdown p = m_get (\<lambda>c.
     if doing_double_fault (core_xcp c)
     then m_bind (m_xcp (\<lambda>x. x\<lparr>doing_contributory := False, doing_page_fault := False, doing_double_fault := False, EXT := 0\<rparr>)) (\<lambda>_.
          m_bind c_cpu_reset (\<lambda>_. m_ret Reset))
     else p)"

definition DF :: "'v gmi \<Rightarrow> IU16 \<Rightarrow> ('v, xc_result) m" where
  "DF gmi junk =
     m_bind (m_xcp (\<lambda>x. x\<lparr>doing_fault := False\<rparr>)) (\<lambda>_. m_get (\<lambda>c. let rest =
       m_bind restart_instruction (\<lambda>_. m_bind (m_xcp (\<lambda>x. x\<lparr>EXT := 0\<rparr>)) (\<lambda>_. deliver gmi junk 8 True 0)) in
     if GET_PE (core_cpu c) then check_for_shutdown (m_bind (m_xcp (\<lambda>x. x\<lparr>doing_double_fault := True\<rparr>)) (\<lambda>_. rest)) else rest))"

definition check_for_double_fault :: "'v gmi \<Rightarrow> IU16 \<Rightarrow> ('v, xc_result) m \<Rightarrow> ('v, xc_result) m" where
  "check_for_double_fault gmi junk p = m_get (\<lambda>c.
     if doing_contributory (core_xcp c) \<or> doing_page_fault (core_xcp c) then DF gmi junk else p)"

definition benign_exception :: "'v gmi \<Rightarrow> IU16 \<Rightarrow> IU16 \<Rightarrow> IU16 \<Rightarrow> ('v, xc_result) m" where
  "benign_exception gmi junk nmbr source =
     m_bind restart_instruction (\<lambda>_. m_bind (m_xcp (\<lambda>x. x\<lparr>EXT := source\<rparr>)) (\<lambda>_. deliver gmi junk nmbr False 0))"

text \<open>The common part of the two kinds of contributory exceptions, which differ in their error code.\<close>

definition contributory :: "'v gmi \<Rightarrow> IU16 \<Rightarrow> IU16 \<Rightarrow> (IU16 \<Rightarrow> IU16) \<Rightarrow> ('v, xc_result) m" where
  "contributory gmi junk nmbr code =
     check_interface_active (unat nmbr) (check_for_shutdown (check_for_double_fault gmi junk (m_get (\<lambda>c. let error_code = code (EXT (core_xcp c)) in
     m_bind (m_xcp (\<lambda>x. x\<lparr>doing_contributory := True\<rparr>)) (\<lambda>_.
     m_bind restart_instruction (\<lambda>_.
     m_bind (m_xcp (\<lambda>x. x\<lparr>EXT := 0\<rparr>)) (\<lambda>_. deliver gmi junk nmbr True error_code)))))))"

definition contributory_exception :: "'v gmi \<Rightarrow> IU16 \<Rightarrow> IU16 \<Rightarrow> IU16 \<Rightarrow> ('v, xc_result) m" where
  "contributory_exception gmi junk selector nmbr = contributory gmi junk nmbr (\<lambda>ext. (selector AND 0xfffc) OR ext)"

definition contributory_idt_exception :: "'v gmi \<Rightarrow> IU16 \<Rightarrow> IU16 \<Rightarrow> IU16 \<Rightarrow> ('v, xc_result) m" where
  "contributory_idt_exception gmi junk vector nmbr = contributory gmi junk nmbr (\<lambda>ext. push_bit 3 (vector AND 0xff) OR 2 OR ext)"

definition PF :: "'v gmi \<Rightarrow> IU16 \<Rightarrow> IU16 \<Rightarrow> ('v, xc_result) m" where
  "PF gmi junk page_error =
     check_interface_active 14 (m_bind (m_xcp (\<lambda>x. x\<lparr>doing_fault := True\<rparr>)) (\<lambda>_. check_for_shutdown (m_get (\<lambda>c.
     if doing_page_fault (core_xcp c) then DF gmi junk
     else m_bind (m_xcp (\<lambda>x. x\<lparr>doing_page_fault := True\<rparr>)) (\<lambda>_.
          m_bind restart_instruction (\<lambda>_. deliver gmi junk 14 True page_error))))))"

definition take_Int0 :: "'v gmi \<Rightarrow> IU16 \<Rightarrow> ('v, xc_result) m" where
  "take_Int0 gmi junk =
     m_bind (m_xcp (\<lambda>x. x\<lparr>doing_fault := True\<rparr>)) (\<lambda>_. m_get (\<lambda>c.
     m_bind (m_xcp (\<lambda>x. if GET_PE (core_cpu c) then x\<lparr>doing_contributory := True\<rparr> else x)) (\<lambda>_.
     m_bind restart_instruction (\<lambda>_. m_bind (m_xcp (\<lambda>x. x\<lparr>EXT := 0\<rparr>)) (\<lambda>_. deliver gmi junk 0 False 0)))))"

definition benign_fault :: "'v gmi \<Rightarrow> IU16 \<Rightarrow> bool \<Rightarrow> IU16 \<Rightarrow> IU16 \<Rightarrow> ('v, xc_result) m" where
  "benign_fault gmi junk fault nmbr source = m_bind (m_xcp (\<lambda>x. x\<lparr>doing_fault := fault\<rparr>)) (\<lambda>_. benign_exception gmi junk nmbr source)"

definition Int1_f :: "'v gmi \<Rightarrow> IU16 \<Rightarrow> ('v, xc_result) m" where "Int1_f gmi junk = benign_fault gmi junk True 1 1"
definition Int1_t :: "'v gmi \<Rightarrow> IU16 \<Rightarrow> ('v, xc_result) m" where "Int1_t gmi junk = benign_fault gmi junk False 1 1"
definition take_Int5 :: "'v gmi \<Rightarrow> IU16 \<Rightarrow> ('v, xc_result) m" where "take_Int5 gmi junk = benign_fault gmi junk True 5 0"
definition Int6 :: "'v gmi \<Rightarrow> IU16 \<Rightarrow> ('v, xc_result) m" where "Int6 gmi junk = benign_fault gmi junk True 6 0"
definition Int7 :: "'v gmi \<Rightarrow> IU16 \<Rightarrow> ('v, xc_result) m" where "Int7 gmi junk = benign_fault gmi junk True 7 0"
definition Int16 :: "'v gmi \<Rightarrow> IU16 \<Rightarrow> ('v, xc_result) m" where "Int16 gmi junk = benign_fault gmi junk True 16 1"

definition faulting :: "('v, xc_result) m \<Rightarrow> ('v, xc_result) m" where
  "faulting p = m_bind (m_xcp (\<lambda>x. x\<lparr>doing_fault := True\<rparr>)) (\<lambda>_. p)"

fun take_fault :: "'v gmi \<Rightarrow> IU16 \<Rightarrow> ccpu_fault \<Rightarrow> ('v, xc_result) m" where
  "take_fault gmi junk (GP selector) = faulting (contributory_exception gmi junk selector 13)"
| "take_fault gmi junk (GP_INT vector) = faulting (contributory_idt_exception gmi junk vector 13)"
| "take_fault gmi junk (NP selector) = faulting (contributory_exception gmi junk selector 11)"
| "take_fault gmi junk (NP_INT vector) = faulting (contributory_idt_exception gmi junk vector 11)"
| "take_fault gmi junk (SF selector) = faulting (contributory_exception gmi junk selector 12)"
| "take_fault gmi junk (TS selector) = faulting (contributory_exception gmi junk selector 10)"
| "take_fault gmi junk (PageFault p) = PF gmi junk (fst p)"

text \<open>
  The exceptions the CPU raises: the faults, and those without an error code, which the main loop and the instructions raise and no delivery does. \<open>DF\<close> is none of them: it is only ever called by one of the others.
\<close>

datatype ccpu_exception = Xc_Int0 | Xc_Int1_f | Xc_Int1_t | Xc_Int5 | Xc_Int6 | Xc_Int7 | Xc_Int16 | Xc_fault ccpu_fault

fun take_exception :: "'v gmi \<Rightarrow> IU16 \<Rightarrow> ccpu_exception \<Rightarrow> ('v, xc_result) m" where
  "take_exception gmi junk Xc_Int0 = take_Int0 gmi junk"
| "take_exception gmi junk Xc_Int1_f = Int1_f gmi junk"
| "take_exception gmi junk Xc_Int1_t = Int1_t gmi junk"
| "take_exception gmi junk Xc_Int5 = take_Int5 gmi junk"
| "take_exception gmi junk Xc_Int6 = Int6 gmi junk"
| "take_exception gmi junk Xc_Int7 = Int7 gmi junk"
| "take_exception gmi junk Xc_Int16 = Int16 gmi junk"
| "take_exception gmi junk (Xc_fault f) = take_fault gmi junk f"

text \<open>
  Exceptions raised one inside the other, at most \<open>n\<close> of them; the call of \<open>DF\<close> is part of the exception that makes it.
\<close>

datatype 'v raised = Finished xc_result "'v core" | StillRaising ccpu_exception "'v core" | WildAccess

primrec raise_chain :: "'v gmi \<Rightarrow> IU16 \<Rightarrow> nat \<Rightarrow> ccpu_exception \<Rightarrow> 'v core \<Rightarrow> 'v raised" where
  "raise_chain gmi junk 0 e c = StillRaising e c"
| "raise_chain gmi junk (Suc n) e c =
     (case take_exception gmi junk e c of
        None \<Rightarrow> WildAccess
      | Some (Inr r, c') \<Rightarrow> Finished r c'
      | Some (Inl f, c') \<Rightarrow> raise_chain gmi junk n (Xc_fault f) c')"

end
