(* ===== verification/Ccpu_Addr_Run.thy ===== *)
theory Ccpu_Addr_Run
  imports Ccpu_Addr Ccpu_Page_Run
begin

text \<open>
  The addressing forms and limits of \<open>c_addr.c\<close> against the description of the processor: the effective address is the
  sum of base, scaled index and displacement in the width of the address size, and the limit check admits exactly the
  operands that lie in the segment.
\<close>

section \<open>Instruction bytes and displacements\<close>

primrec take_bytes :: "'v gmi \<Rightarrow> nat \<Rightarrow> host_ip \<Rightarrow> ('v, IU8 list \<times> host_ip) m" where
  "take_bytes gmi 0 p = m_ret ([], p)"
| "take_bytes gmi (Suc n) p = m_bind (GET_INST_BYTE gmi p) (\<lambda>(b, p). m_bind (take_bytes gmi n p) (\<lambda>(bs, p). m_ret (b # bs, p)))"

fun le_nat :: "IU8 list \<Rightarrow> nat" where
  "le_nat [] = 0"
| "le_nat (b # bs) = unat b + 256 * le_nat bs"

definition le_signed :: "IU8 list \<Rightarrow> int" where
  "le_signed bs = (if 2 * le_nat bs < 256 ^ length bs then int (le_nat bs) else int (le_nat bs) - 256 ^ length bs)"

lemma or_push_add:
  fixes a :: IU8 and b :: IU32
  shows "ucast a OR push_bit 8 b = (ucast a + push_bit 8 b :: IU32)"
proof (rule disjunctive_add_eq_or [symmetric])
  show "ucast a AND push_bit 8 b = (0 :: IU32)" by (rule bit_word_eqI) (auto simp: bit_simps dest: bit_imp_le_length)
qed

lemma le_word:
  "ucast b0 = (of_nat (le_nat [b0]) :: IU32)"
  "ucast b0 OR push_bit 8 (ucast b1) = (of_nat (le_nat [b0, b1]) :: IU32)"
  "ucast b0 OR push_bit 8 (ucast b1) OR push_bit 16 (ucast b2) OR push_bit 24 (ucast b3) = (of_nat (le_nat [b0, b1, b2, b3]) :: IU32)"
proof -
  have p: "push_bit 8 x = 256 * x" for x :: IU32 by (simp add: push_bit_eq_mult)
  show "ucast b0 = (of_nat (le_nat [b0]) :: IU32)" by simp
  show "ucast b0 OR push_bit 8 (ucast b1) = (of_nat (le_nat [b0, b1]) :: IU32)" by (simp only: or_push_add) (simp add: p)
  have "ucast b0 OR push_bit 8 (ucast b1) OR push_bit 16 (ucast b2) OR push_bit 24 (ucast b3) =
    ucast b0 OR push_bit 8 (ucast b1 OR push_bit 8 (ucast b2 OR push_bit 8 (ucast b3 :: IU32)))" by (simp add: push_bit_or or.assoc)
  also have "\<dots> = of_nat (le_nat [b0, b1, b2, b3])" by (simp only: or_push_add) (simp add: p algebra_simps)
  finally show "ucast b0 OR push_bit 8 (ucast b1) OR push_bit 16 (ucast b2) OR push_bit 24 (ucast b3) = (of_nat (le_nat [b0, b1, b2, b3]) :: IU32)" .
qed

lemma le_nat_less: "le_nat bs < 256 ^ length bs"
proof (induction bs)
  case (Cons b bs)
  have "unat b < 2 ^ LENGTH(8)" by (rule unsigned_less)
  then have "unat b < 256" by simp
  then show ?case using Cons by simp
qed simp

lemma sign_bit:
  fixes n :: nat
  assumes "n < 2 * 2 ^ k" "k < 31" shows "of_nat n AND 2 ^ k \<noteq> (0 :: IU32) \<longleftrightarrow> 2 ^ k \<le> n"
proof -
  have l: "(2 :: nat) * 2 ^ k \<le> 2 ^ 32" using power_increasing [of "Suc k" 32 "2 :: nat"] assms(2) by simp
  have "n < 2 ^ 32" using assms(1) l by (rule less_le_trans)
  then have u: "unat (of_nat n :: IU32) = n" by (simp add: unat_of_nat)
  have "bit (of_nat n :: IU32) k \<longleftrightarrow> bit (unat (of_nat n :: IU32)) k" using assms(2) by (simp add: bit_unsigned_iff)
  then have "bit (of_nat n :: IU32) k \<longleftrightarrow> odd (n div 2 ^ k)" unfolding u by (simp only: bit_iff_odd)
  moreover have "n div 2 ^ k = of_bool (2 ^ k \<le> n)" using assms(1) by (cases "2 ^ k \<le> n") (simp_all add: div_if)
  ultimately show ?thesis unfolding and_exp_neq_0_iff by simp
qed

lemma sign_extend:
  "(let d = of_nat (le_nat [b0]) :: IU32 in if d AND 0x80 \<noteq> 0 then d OR NOT 0xff else d) = word_of_int (le_signed [b0])"
  "(let d = of_nat (le_nat [b0, b1]) :: IU32 in if d AND 0x8000 \<noteq> 0 then d OR NOT 0xffff else d) = word_of_int (le_signed [b0, b1])"
proof -
  have o: "of_nat n OR NOT (mask k) = (word_of_int (int n - 2 ^ k) :: IU32)" if "n < 2 ^ k" "k < 32" for n k
  proof -
    have "(2 :: nat) ^ k < 2 ^ 32" using that(2) by (simp only: power_strict_increasing_iff [of "2 :: nat"])
    then have "n < 4294967296" using that(1) by simp
    then have m: "(of_nat n :: IU32) = of_nat n AND mask k" unfolding word_unat_eq_iff unat_and_mask using that(1) by (simp add: unat_of_nat)
    have "of_nat n AND NOT (mask k) = (0 :: IU32)" by (subst m) (simp add: and.assoc)
    then have "of_nat n OR NOT (mask k) = (of_nat n + NOT (mask k) :: IU32)" by (rule disjunctive_add_eq_or [symmetric])
    then show ?thesis by (simp add: minus_exp_eq_not_mask [symmetric])
  qed
  have m: "(0xff :: IU32) = mask 8" "(0xffff :: IU32) = mask 16" by (simp_all add: mask_numeral)
  have e: "(0x80 :: IU32) = 2 ^ 7" "(0x8000 :: IU32) = 2 ^ 15" by simp_all
  show "(let d = of_nat (le_nat [b0]) :: IU32 in if d AND 0x80 \<noteq> 0 then d OR NOT 0xff else d) = word_of_int (le_signed [b0])"
    using le_nat_less [of "[b0]"] sign_bit [of "le_nat [b0]" 7] o [of "le_nat [b0]" 8] unfolding Let_def le_signed_def m e by (simp del: le_nat.simps)
  show "(let d = of_nat (le_nat [b0, b1]) :: IU32 in if d AND 0x8000 \<noteq> 0 then d OR NOT 0xffff else d) = word_of_int (le_signed [b0, b1])"
    using le_nat_less [of "[b0, b1]"] sign_bit [of "le_nat [b0, b1]" 15] o [of "le_nat [b0, b1]" 16] unfolding Let_def le_signed_def m e by (simp del: le_nat.simps)
qed

section \<open>The effective address\<close>

text \<open>What the manual says, in integers: which bytes follow the mode byte, and what the address is.\<close>

definition mode_of :: "IU8 \<Rightarrow> nat" where "mode_of b = unat (drop_bit 6 b AND 3)"
definition reg_of :: "IU8 \<Rightarrow> nat" where "reg_of b = unat (drop_bit 3 b AND 7)"
definition rm_of :: "IU8 \<Rightarrow> nat" where "rm_of b = unat (b AND 7)"

definition disp_len :: "bool \<Rightarrow> nat \<Rightarrow> nat \<Rightarrow> nat" where
  "disp_len a32 mode base =
     (if mode = 1 then 1 else if mode = 2 \<or> base = (if a32 then 5 else 6) then (if a32 then 4 else 2) else 0)"

definition ea16 :: "ccpu \<Rightarrow> nat \<Rightarrow> nat \<Rightarrow> int \<Rightarrow> int" where
  "ea16 s mode rm d =
     ((\<Sum>r \<leftarrow> (if mode = 0 \<and> rm = 6 then [] else [[3, 6], [3, 7], [5, 6], [5, 7], [6], [7], [5], [3]] ! rm). uint (CCPU_GR s r)) + d) mod 2 ^ 16"

definition ea32 :: "ccpu \<Rightarrow> nat \<Rightarrow> nat \<Rightarrow> IU8 list \<Rightarrow> int \<Rightarrow> int" where
  "ea32 s mode base sib d =
     ((if mode = 0 \<and> base = 5 then 0 else uint (CCPU_GR s base)) + (if base = 4 then uint (GET_POP_DISP s) else 0) +
      (if sib = [] \<or> reg_of (hd sib) = 4 then 0 else uint (CCPU_GR s (reg_of (hd sib))) * 2 ^ mode_of (hd sib)) + d) mod 2 ^ 32"

definition default_seg :: "bool \<Rightarrow> nat \<Rightarrow> nat \<Rightarrow> nat" where
  "default_seg a32 mode base =
     (if a32 then (if base = 4 \<or> base = 5 \<and> mode \<noteq> 0 then 2 else 3)
      else (if base = 2 \<or> base = 3 \<or> base = 6 \<and> mode \<noteq> 0 then 2 else 3))"

lemma less8: "(n :: nat) < 8 \<longleftrightarrow> n = 0 \<or> n = 1 \<or> n = 2 \<or> n = 3 \<or> n = 4 \<or> n = 5 \<or> n = 6 \<or> n = 7"
  by arith

lemma less3: "(n :: nat) < 3 \<longleftrightarrow> n = 0 \<or> n = 1 \<or> n = 2"
  by arith

lemma less4: "(n :: nat) < 4 \<longleftrightarrow> n = 0 \<or> n = 1 \<or> n = 2 \<or> n = 3"
  by arith

lemma field_less: "rm_of b < 8" "reg_of b < 8" "mode_of b < 4"
proof -
  have "unat (x AND 7) < 8" "unat (x AND 3) < 4" for x :: IU8
    using unat_and_mask [of x 3] unat_and_mask [of x 2] by (simp_all add: mask_numeral)
  then show "rm_of b < 8" "reg_of b < 8" "mode_of b < 4" by (simp_all add: rm_of_def reg_of_def mode_of_def)
qed

lemma default_seg_table: "mode < 3 \<Longrightarrow> rm < 8 \<Longrightarrow> addr_default_seg ! of_bool a32 ! mode ! rm = default_seg a32 mode rm"
  unfolding less8 less3 by (cases a32) (elim disjE; simp add: addr_default_seg_def default_seg_def)+

definition disp_kind_len :: "disp_kind \<Rightarrow> nat" where
  "disp_kind_len k = (case k of D_NO \<Rightarrow> 0 | D_S8 \<Rightarrow> 1 | D_S16 \<Rightarrow> 2 | D_Z16 \<Rightarrow> 2 | D_32 \<Rightarrow> 4)"

definition disp_word :: "disp_kind \<Rightarrow> IU8 list \<Rightarrow> IU32" where
  "disp_word k bs = (if k = D_Z16 then of_nat (le_nat bs) else word_of_int (le_signed bs))"

lemma disp_table: "mode < 3 \<Longrightarrow> rm < 8 \<Longrightarrow> disp_kind_len (addr_disp ! of_bool a32 ! mode ! rm) = disp_len a32 mode rm"
  unfolding less8 less3 by (cases a32) (elim disjE; simp add: addr_disp_def disp_len_def disp_kind_len_def)+

lemma le_signed_word: "length bs = 4 \<Longrightarrow> word_of_int (le_signed bs) = (of_nat (le_nat bs) :: IU32)"
  by (simp add: le_signed_def)

lemma sign_extend_word:
  "(if (ucast b0 OR push_bit 8 (ucast b1)) AND (0x8000 :: IU32) \<noteq> 0 then (ucast b0 OR push_bit 8 (ucast b1)) OR NOT 0xffff else ucast b0 OR push_bit 8 (ucast b1)) =
    (word_of_int (le_signed [b0, b1]) :: IU32)"
  unfolding le_word(2) using sign_extend(2) [of b0 b1] by (simp only: Let_def)

lemma take_bytes_4: "take_bytes gmi 4 p = m_bind (GET_INST_BYTE gmi p) (\<lambda>(b0, p). m_bind (GET_INST_BYTE gmi p) (\<lambda>(b1, p).
    m_bind (GET_INST_BYTE gmi p) (\<lambda>(b2, p). m_bind (GET_INST_BYTE gmi p) (\<lambda>(b3, p). m_ret ([b0, b1, b2, b3], p)))))"
  by (simp add: numeral_eq_Suc m_laws)

lemma get_disp_bytes: "get_disp gmi k p = m_bind (take_bytes gmi (disp_kind_len k) p) (\<lambda>(bs, p). m_ret (disp_word k bs, p))"
proof (cases k)
  case D_NO
  then show ?thesis by (simp add: get_disp_def disp_kind_len_def disp_word_def le_signed_def)
next
  case D_S8
  then show ?thesis using sign_extend(1) by (simp add: get_disp_def disp_kind_len_def disp_word_def m_laws Let_def)
next
  case D_S16
  then have "get_disp gmi k p = m_bind (GET_INST_BYTE gmi p) (\<lambda>(b0, p). m_bind (GET_INST_BYTE gmi p) (\<lambda>(b1, p). m_ret (word_of_int (le_signed [b0, b1]), p)))"
    unfolding get_disp_def Let_def sign_extend_word by simp
  then show ?thesis using D_S16 by (simp add: disp_kind_len_def disp_word_def m_laws numeral_eq_Suc)
next
  case D_Z16
  then show ?thesis unfolding get_disp_def le_word(2,3) by (simp add: disp_kind_len_def disp_word_def m_laws numeral_eq_Suc)
next
  case D_32
  then show ?thesis unfolding get_disp_def le_word(2,3) by (simp add: disp_kind_len_def disp_word_def m_laws take_bytes_4 le_signed_word del: le_nat.simps)
qed

lemma word16_word: "ucast (GET_WR i s) = (take_bit 16 (CCPU_GR s i) :: IU32)"
  by (simp add: GET_WR_def) (rule bit_word_eqI, auto simp: bit_simps)

lemma and_ffff: "x AND 0xffff = take_bit 16 (x :: IU32)"
  by (simp add: take_bit_eq_mask mask_numeral)

lemma take16_add: "take_bit 16 (take_bit 16 a + take_bit 16 b) = take_bit 16 (a + b :: IU32)"
proof -
  have u: "unat (take_bit 16 x) = unat x mod 65536" for x :: IU32 using unat_and_mask [of x 16] by (simp add: take_bit_eq_mask)
  have m: "x mod 4294967296 mod 65536 = x mod 65536" for x :: nat by (rule mod_mod_cancel) simp
  show ?thesis unfolding word_unat_eq_iff u unat_word_ariths by (simp add: m mod_add_eq)
qed

lemma take16_left: "take_bit 16 (take_bit 16 a + d) = take_bit 16 (a + d :: IU32)"
  using take16_add [of "take_bit 16 a" d] take16_add [of a d] by simp

lemma take16_sum: "take_bit 16 (take_bit 16 a + take_bit 16 b + d) = take_bit 16 (a + b + d :: IU32)"
  using take16_left [of a "take_bit 16 b + d"] take16_left [of b "a + d"] by (simp add: add.assoc add.left_commute)

lemma sum_of_int: "of_int (\<Sum>r \<leftarrow> xs. f r) = (\<Sum>r \<leftarrow> xs. of_int (f r) :: IU32)"
  by (induction xs) simp_all

lemma take16_int: "take_bit 16 (word_of_int i) = (word_of_int (i mod 65536) :: IU32)"
  by (rule bit_word_eqI) (auto simp: bit_simps simp flip: take_bit_eq_mod [of 16, simplified])

lemma take16_disp: "length bs = disp_kind_len k \<Longrightarrow> take_bit 16 (x + disp_word k bs) = take_bit 16 (x + word_of_int (le_signed bs))"
proof (cases "k = D_Z16")
  case True
  assume "length bs = disp_kind_len k"
  then have "le_signed bs = int (le_nat bs) \<or> le_signed bs = int (le_nat bs) - 65536" using True by (simp add: le_signed_def disp_kind_len_def)
  then have "take_bit 16 (word_of_int (le_signed bs)) = take_bit 16 (word_of_int (int (le_nat bs)) :: IU32)" unfolding take16_int using minus_mod_self2 [of "int (le_nat bs)" 65536] by (elim disjE) (simp_all only:)
  then have t: "take_bit 16 (word_of_int (le_signed bs)) = take_bit 16 (disp_word k bs)" using True by (simp add: disp_word_def)
  show ?thesis using take16_add [of x "disp_word k bs"] take16_add [of x "word_of_int (le_signed bs)"] unfolding t by simp
qed (simp add: disp_word_def)

lemma main_offset_16:
  assumes "mode < 3" "rm < 8" "length bs = disp_kind_len k"
  shows "main_offset (addr_maintype ! 0 ! mode ! rm) (disp_word k bs) s = word_of_int (ea16 s mode rm (le_signed bs))"
proof -
  have d: "take_bit 16 (disp_word k bs) = take_bit 16 (word_of_int (le_signed bs))" using take16_disp [OF assms(3), of 0] by simp
  have e: "word_of_int (ea16 s mode rm (le_signed bs)) =
     take_bit 16 ((\<Sum>r \<leftarrow> (if mode = 0 \<and> rm = 6 then [] else [[3, 6], [3, 7], [5, 6], [5, 7], [6], [7], [5], [3]] ! rm). CCPU_GR s r) + word_of_int (le_signed bs))"
    unfolding ea16_def by (simp add: take16_int [symmetric] sum_of_int)
  show ?thesis using assms(1,2) unfolding e less8 less3 main_offset_def Let_def word16_word and_ffff
    by (elim disjE; simp add: addr_maintype_def take16_left take16_sum take16_disp [OF assms(3)] d)
qed

lemma main_offset_32:
  assumes "mode < 3" "base < 8" "i = 2 \<or> i = 1 \<and> base \<noteq> 4"
  shows "main_offset (addr_maintype ! i ! mode ! base) d s = (if mode = 0 \<and> base = 5 then 0 else CCPU_GR s base) + (if base = 4 then GET_POP_DISP s else 0) + d"
  using assms unfolding less8 less3 main_offset_def Let_def by (elim disjE conjE; simp add: addr_maintype_def)

lemma sub_offset_index:
  assumes "ss < 4" "idx < 8"
  shows "sub_offset (addr_subtype ! ss ! idx) off s = off + (if idx = 4 then 0 else CCPU_GR s idx * 2 ^ ss)"
  using assms unfolding less8 less4 sub_offset_def by (elim disjE; simp add: addr_subtype_def push_bit_eq_mult)

lemma take_bytes_bind:
  assumes "\<And>bs p. length bs = n \<Longrightarrow> f (bs, p) = g (bs, p)"
  shows "m_bind (take_bytes gmi n p) f = m_bind (take_bytes gmi n p) g"
  using assms
proof (induction n arbitrary: p f g)
  case (Suc n)
  have "m_bind (take_bytes gmi n q) (\<lambda>(bs, p). f (b # bs, p)) = m_bind (take_bytes gmi n q) (\<lambda>(bs, p). g (b # bs, p))" for b q
    by (rule Suc.IH) (simp add: Suc.prems)
  then show ?case by (simp add: m_laws)
qed simp

definition base_of :: "IU8 \<Rightarrow> IU8 list \<Rightarrow> nat" where
  "base_of modRM sib = (if sib = [] then rm_of modRM else rm_of (hd sib))"

lemma offset_16:
  assumes "mode < 3" "rm < 8" "length bs = disp_len False mode rm"
  shows "sub_offset 0 (main_offset (addr_maintype ! 0 ! mode ! rm) (disp_word (addr_disp ! 0 ! mode ! rm) bs) s) s = word_of_int (ea16 s mode rm (le_signed bs))"
  using main_offset_16 [OF assms(1,2), of bs "addr_disp ! 0 ! mode ! rm" s] disp_table [OF assms(1,2), of False] assms(3) by (simp add: sub_offset_def)

lemma disp_32: "mode < 3 \<Longrightarrow> rm < 8 \<Longrightarrow> disp_word (addr_disp ! 1 ! mode ! rm) bs = word_of_int (le_signed bs)"
  unfolding less8 less3 by (elim disjE; simp add: addr_disp_def disp_word_def)

lemma word_of_int_mod32: "word_of_int (i mod 2 ^ 32) = (word_of_int i :: IU32)"
  by (simp add: word_of_int_eq_iff take_bit_eq_mod)

lemma offset_32:
  assumes "mode < 3" "rm < 8" "rm \<noteq> 4"
  shows "sub_offset 0 (main_offset (addr_maintype ! 1 ! mode ! rm) (disp_word (addr_disp ! 1 ! mode ! rm) bs) s) s = word_of_int (ea32 s mode rm [] (le_signed bs))"
  using main_offset_32 [OF assms(1,2), of 1] assms(3) unfolding disp_32 [OF assms(1,2)] ea32_def word_of_int_mod32 by (simp add: sub_offset_def)

lemma offset_sib:
  assumes "mode < 3"
  shows "sub_offset (addr_subtype ! mode_of sib ! reg_of sib) (main_offset (addr_maintype ! 2 ! mode ! rm_of sib) (disp_word (addr_disp ! 1 ! mode ! rm_of sib) bs) s) s =
    word_of_int (ea32 s mode (rm_of sib) [sib] (le_signed bs))"
  unfolding disp_32 [OF assms field_less(1)] ea32_def word_of_int_mod32 sub_offset_index [OF field_less(3,2)]
  using main_offset_32 [OF assms field_less(1), of 2] by simp

lemma d_mem_sib:
  assumes m: "mode_of modRM < 3" and z: "ADDRESS_SIZE (core_cpu c) = 1" "rm_of modRM = 4"
  shows "d_mem gmi modRM p segment_override c =
    m_bind (take_bytes gmi 1 p) (\<lambda>(sib, p).
    m_bind (take_bytes gmi (disp_len True (mode_of modRM) (base_of modRM sib)) p) (\<lambda>(bs, p). m_get (\<lambda>c.
      m_ret (if segment_override = 6 then default_seg True (mode_of modRM) (base_of modRM sib) else segment_override,
             word_of_int (ea32 (core_cpu c) (mode_of modRM) (base_of modRM sib) sib (le_signed bs)), p)))) c"
proof -
  note f = mode_of_def [symmetric] reg_of_def [symmetric] rm_of_def [symmetric]
  have "m_bind (take_bytes gmi (disp_len True (mode_of modRM) (rm_of sib)) q) (\<lambda>(bs, p). m_get (\<lambda>c'. m_ret (seg, sub_offset (addr_subtype ! mode_of sib ! reg_of sib)
      (main_offset (addr_maintype ! 2 ! mode_of modRM ! rm_of sib) (disp_word (addr_disp ! 1 ! mode_of modRM ! rm_of sib) bs) (core_cpu c')) (core_cpu c'), p))) =
    m_bind (take_bytes gmi (disp_len True (mode_of modRM) (rm_of sib)) q) (\<lambda>(bs, p). m_get (\<lambda>c'. m_ret (seg, word_of_int (ea32 (core_cpu c') (mode_of modRM) (rm_of sib) [sib] (le_signed bs)), p)))"
    for sib q seg using offset_sib [OF m] by (intro take_bytes_bind) simp
  note o = this
  have t: "disp_kind_len (addr_disp ! 1 ! mode_of modRM ! rm_of b) = disp_len True (mode_of modRM) (rm_of b)" "addr_default_seg ! 1 ! mode_of modRM ! rm_of b = default_seg True (mode_of modRM) (rm_of b)" for b
    using disp_table [OF m field_less(1), of True] default_seg_table [OF m field_less(1), of True] by simp_all
  have rg: "rm_of (drop_bit 3 b) = reg_of b" for b by (simp add: rm_of_def reg_of_def)
  have "d_mem gmi modRM p segment_override c = m_bind (GET_INST_BYTE gmi p) (\<lambda>(sib, p).
      m_bind (take_bytes gmi (disp_len True (mode_of modRM) (rm_of sib)) p) (\<lambda>(bs, p). m_get (\<lambda>c'. m_ret (if segment_override = 6 then default_seg True (mode_of modRM) (rm_of sib) else segment_override,
        sub_offset (addr_subtype ! mode_of sib ! reg_of sib) (main_offset (addr_maintype ! 2 ! mode_of modRM ! rm_of sib) (disp_word (addr_disp ! 1 ! mode_of modRM ! rm_of sib) bs) (core_cpu c')) (core_cpu c'), p)))) c"
    unfolding d_mem_def Let_def f by (subst m_get_def) (simp only: z rg m_laws get_disp_bytes t prod.case simp_thms if_True)
  also have "\<dots> = m_bind (GET_INST_BYTE gmi p) (\<lambda>(sib, p).
      m_bind (take_bytes gmi (disp_len True (mode_of modRM) (rm_of sib)) p) (\<lambda>(bs, p). m_get (\<lambda>c'. m_ret (if segment_override = 6 then default_seg True (mode_of modRM) (rm_of sib) else segment_override,
        word_of_int (ea32 (core_cpu c') (mode_of modRM) (rm_of sib) [sib] (le_signed bs)), p)))) c" unfolding o ..
  also have "\<dots> = m_bind (take_bytes gmi 1 p) (\<lambda>(sib, p).
      m_bind (take_bytes gmi (disp_len True (mode_of modRM) (base_of modRM sib)) p) (\<lambda>(bs, p). m_get (\<lambda>c'. m_ret (if segment_override = 6 then default_seg True (mode_of modRM) (base_of modRM sib) else segment_override,
        word_of_int (ea32 (core_cpu c') (mode_of modRM) (base_of modRM sib) sib (le_signed bs)), p)))) c" by (simp add: m_laws base_of_def cong del: if_weak_cong)
  finally show ?thesis .
qed

lemma d_mem_plain:
  assumes m: "mode_of modRM < 3" and sz: "ADDRESS_SIZE (core_cpu c) = of_bool a32" and nsib: "\<not> (a32 \<and> rm_of modRM = 4)"
  shows "d_mem gmi modRM p segment_override c =
    m_bind (take_bytes gmi (disp_len a32 (mode_of modRM) (rm_of modRM)) p) (\<lambda>(bs, p). m_get (\<lambda>c.
      m_ret (if segment_override = 6 then default_seg a32 (mode_of modRM) (rm_of modRM) else segment_override,
             word_of_int (if a32 then ea32 (core_cpu c) (mode_of modRM) (rm_of modRM) [] (le_signed bs)
                          else ea16 (core_cpu c) (mode_of modRM) (rm_of modRM) (le_signed bs)), p))) c"
proof -
  note f = mode_of_def [symmetric] reg_of_def [symmetric] rm_of_def [symmetric]
  have o: "sub_offset 0 (main_offset (addr_maintype ! of_bool a32 ! mode_of modRM ! rm_of modRM) (disp_word (addr_disp ! of_bool a32 ! mode_of modRM ! rm_of modRM) bs) s) s =
    word_of_int (if a32 then ea32 s (mode_of modRM) (rm_of modRM) [] (le_signed bs) else ea16 s (mode_of modRM) (rm_of modRM) (le_signed bs))"
    if "length bs = disp_len a32 (mode_of modRM) (rm_of modRM)" for s bs
    using offset_16 [OF m field_less(1), of bs modRM s] offset_32 [OF m field_less(1), of modRM bs s] that nsib by (cases a32) simp_all
  have "m_bind (take_bytes gmi (disp_len a32 (mode_of modRM) (rm_of modRM)) p) (\<lambda>(bs, p). m_get (\<lambda>c'. m_ret (seg, sub_offset 0
      (main_offset (addr_maintype ! of_bool a32 ! mode_of modRM ! rm_of modRM) (disp_word (addr_disp ! of_bool a32 ! mode_of modRM ! rm_of modRM) bs) (core_cpu c')) (core_cpu c'), p))) =
    m_bind (take_bytes gmi (disp_len a32 (mode_of modRM) (rm_of modRM)) p) (\<lambda>(bs, p). m_get (\<lambda>c'. m_ret (seg, word_of_int
      (if a32 then ea32 (core_cpu c') (mode_of modRM) (rm_of modRM) [] (le_signed bs) else ea16 (core_cpu c') (mode_of modRM) (rm_of modRM) (le_signed bs)), p)))"
    for seg using o by (intro take_bytes_bind) simp
  note o = this
  have t: "disp_kind_len (addr_disp ! of_bool a32 ! mode_of modRM ! rm_of modRM) = disp_len a32 (mode_of modRM) (rm_of modRM)"
    "addr_default_seg ! of_bool a32 ! mode_of modRM ! rm_of modRM = default_seg a32 (mode_of modRM) (rm_of modRM)"
    using disp_table [OF m field_less(1), of a32] default_seg_table [OF m field_less(1), of a32] by simp_all
  have z: "\<not> (rm_of modRM = 4 \<and> of_bool a32 = (1 :: nat))" using nsib by simp
  have "d_mem gmi modRM p segment_override c =
      m_bind (take_bytes gmi (disp_len a32 (mode_of modRM) (rm_of modRM)) p) (\<lambda>(bs, p). m_get (\<lambda>c'. m_ret (if segment_override = 6 then default_seg a32 (mode_of modRM) (rm_of modRM) else segment_override,
        sub_offset 0 (main_offset (addr_maintype ! of_bool a32 ! mode_of modRM ! rm_of modRM) (disp_word (addr_disp ! of_bool a32 ! mode_of modRM ! rm_of modRM) bs) (core_cpu c')) (core_cpu c'), p))) c"
    unfolding d_mem_def Let_def f by (subst m_get_def) (simp only: sz z m_laws get_disp_bytes t prod.case if_False)
  then show ?thesis unfolding o .
qed

text \<open>
  C18. The addressing forms. For every mode byte of a memory operand, in both address sizes, the decoder takes from the instruction
  exactly the bytes the form has (an SIB byte, and a displacement of none, one, two or four bytes) and yields the segment
  register, by default the stack segment exactly for the forms based on BP, EBP or ESP, and the effective address:
  the sum of the base and index registers, the index scaled, and the signed displacement, modulo 2 to the 16 or to the 32. The
  base ESP counts the bytes that a POP has already taken.
\<close>

theorem d_mem_effective_address:
  assumes "mode_of modRM < 3" "CCPU_MODE (core_cpu c) 1 = of_bool a32"
  shows "d_mem gmi modRM p segment_override c =
    m_bind (take_bytes gmi (of_bool (a32 \<and> rm_of modRM = 4)) p) (\<lambda>(sib, p).
    m_bind (take_bytes gmi (disp_len a32 (mode_of modRM) (base_of modRM sib)) p) (\<lambda>(bs, p). m_get (\<lambda>c.
      m_ret (if segment_override = 6 then default_seg a32 (mode_of modRM) (base_of modRM sib) else segment_override,
             word_of_int (if a32 then ea32 (core_cpu c) (mode_of modRM) (base_of modRM sib) sib (le_signed bs)
                          else ea16 (core_cpu c) (mode_of modRM) (rm_of modRM) (le_signed bs)), p)))) c"
proof (cases "a32 \<and> rm_of modRM = 4")
  case True
  then have "ADDRESS_SIZE (core_cpu c) = 1" "rm_of modRM = 4" using assms(2) by simp_all
  then show ?thesis using d_mem_sib [OF assms(1)] True by (simp cong del: if_weak_cong del: One_nat_def)
next
  case False
  have "take_bytes gmi (of_bool (a32 \<and> rm_of modRM = 4)) p = m_ret ([], p)" by (simp only: False of_bool_eq(1) take_bytes.simps)
  moreover have "base_of modRM [] = rm_of modRM" "ADDRESS_SIZE (core_cpu c) = of_bool a32" using assms(2) by (simp_all add: base_of_def)
  ultimately show ?thesis using d_mem_plain [OF assms(1) _ False] by (simp only: m_laws prod.case)
qed

text \<open>The form \<open>[BP + SI + d8]\<close> in 16 bits, with BP = 1, SI = 0xffff and the byte 7 at the instruction pointer: offset 7 in the stack segment.\<close>

definition demo_form :: "unit core" where
  "demo_form = \<lparr>core_mmu = demo_mmu 0x2007 0x3005 (SET_GR 5 0x10001 (SET_GR 6 0xffff ccpu0)), core_dbg = demo_debug, core_xcp = xcptn0\<rparr>"

definition demo_ip :: host_ip where
  "demo_ip = \<lparr>hip_p = 0x1000, p_start = 0xfff, pg_end = 0x2000\<rparr>"

theorem d_mem_effective_address_witness:
  "\<forall>gmi. d_mem gmi 0x42 demo_ip 6 demo_form = Some (Inr (2, 7, demo_ip\<lparr>hip_p := 0x1001\<rparr>), demo_form)"
proof
  fix gmi :: "unit gmi"
  have f: "mode_of 0x42 = 1" "rm_of 0x42 = 2" by (simp_all add: mode_of_def rm_of_def)
  have z: "CCPU_MODE (core_cpu demo_form) 1 = of_bool False" by (simp add: demo_form_def demo_mmu_def SET_CR_def SET_GR_def ccpu0_def)
  have b: "GET_INST_BYTE gmi demo_ip demo_form = Some (Inr (7, demo_ip\<lparr>hip_p := 0x1001\<rparr>), demo_form)"
    by (simp add: GET_INST_BYTE_def inst_byte_def m_get_def m_ret_def demo_ip_def demo_form_def demo_mmu_def demo_mem_def)
  have r: "CCPU_GR (core_cpu demo_form) 5 = 0x10001" "CCPU_GR (core_cpu demo_form) 6 = 0xffff" by (simp_all add: demo_form_def demo_mmu_def SET_CR_def SET_GR_def)
  have m: "mode_of 0x42 < 3" using f by simp
  have "(\<Sum>r \<leftarrow> [[3, 6], [3, 7], [5, 6], [5, 7], [6], [7], [5], [3]] ! 2. uint (CCPU_GR (core_cpu demo_form) r)) = 0x20000" using r by simp
  then have "ea16 (core_cpu demo_form) 1 2 (le_signed [7]) = 7" by (simp add: ea16_def le_signed_def)
  then show "d_mem gmi 0x42 demo_ip 6 demo_form = Some (Inr (2, 7, demo_ip\<lparr>hip_p := 0x1001\<rparr>), demo_form)"
    using d_mem_effective_address [OF m z, of gmi demo_ip 6] b
    by (simp add: f base_of_def disp_len_def default_seg_def m_bind_def m_ret_def m_get_def)
qed

section \<open>Limits\<close>

text \<open>
  The offsets of a segment, and the bytes an access to \<open>n\<close> items of \<open>sz\<close> bytes touches: every item is contiguous, and the items follow each
  other modulo the size of the offsets of the segment.
\<close>

definition seg_span :: "SEGMENT_REGISTER \<Rightarrow> nat" where
  "seg_span r = (if sr_ar_x r = 1 then 2 ^ 32 else 2 ^ 16)"

definition seg_offsets :: "SEGMENT_REGISTER \<Rightarrow> nat set" where
  "seg_offsets r = (if sr_ar_e r \<noteq> 0 then {unat (sr_limit r) + 1 ..< seg_span r} else {0 .. unat (sr_limit r)})"

definition in_segment :: "SEGMENT_REGISTER \<Rightarrow> IU32 \<Rightarrow> nat \<Rightarrow> nat \<Rightarrow> bool" where
  "in_segment r offset n sz \<longleftrightarrow> unat offset < seg_span r \<and> (\<forall>i < n. \<forall>j < sz. (unat offset + i * sz) mod seg_span r + j \<in> seg_offsets r)"

text \<open>An access that does not leave the segment upwards touches the bytes from its offset on.\<close>

lemma byte_item: "0 < sz \<Longrightarrow> t < n * sz \<Longrightarrow> \<exists>i < n. \<exists>j < sz. t = i * sz + (j :: nat)"
  by (rule exI [of _ "t div sz"], intro conjI exI [of _ "t mod sz"]) (simp_all add: less_mult_imp_div_less)

lemma straight:
  assumes "a + n * sz \<le> M" "i < n" "j < sz" shows "(a + i * sz) mod M = a + i * sz" "a + i * sz + j < a + n * (sz :: nat)"
proof -
  have "(i + 1) * sz \<le> n * sz" using assms(2) by (intro mult_right_mono) simp_all
  then have "i * sz + sz \<le> n * sz" by (simp add: algebra_simps)
  then show "a + i * sz + j < a + n * sz" using assms(3) by simp
  then show "(a + i * sz) mod M = a + i * sz" using assms(1) by simp
qed

text \<open>The first byte at or above a bound, and the item it belongs to.\<close>

lemma crossing:
  fixes sz :: nat
  assumes "0 < sz" "a < b" "b < a + n * sz" "b \<le> M"
  obtains i j where "i < n" "j < sz" "a + i * sz + j = b" "(a + i * sz) mod M + j = b \<or> a + i * sz = M \<and> j = 0 \<and> b = M"
proof -
  have "b - a < n * sz" using assms(2,3) by arith
  then obtain i j where ij: "i < n" "j < sz" "b - a = i * sz + j" using byte_item [OF assms(1)] by blast
  then have e: "a + i * sz + j = b" using assms(2) by simp
  then have "(a + i * sz) mod M + j = b \<or> a + i * sz = M \<and> j = 0 \<and> b = M" using assms(4) by (cases "a + i * sz < M") auto
  then show thesis using that ij e by blast
qed

lemma up_items:
  fixes sz :: nat
  assumes sz: "0 < sz" "sz dvd M" and n: "0 < n" and a: "a < M" "L < M"
  shows "(\<forall>i < n. \<forall>j < sz. (a + i * sz) mod M + j \<le> L) \<longleftrightarrow> a + n * sz \<le> L + 1 \<or> a \<le> L \<and> L = M - 1 \<and> sz dvd a" (is "?all \<longleftrightarrow> _")
proof (cases "a + n * sz \<le> L + 1")
  case True
  then have "a + n * sz \<le> M" using a(2) by simp
  then show ?thesis using straight [of a n sz M] True by fastforce
next
  case False
  show ?thesis
  proof
    assume all: ?all
    have "a \<le> L" using all [rule_format, OF n sz(1)] a(1) by simp
    moreover obtain i j where "i < n" "j < sz" "a + i * sz + j = L + 1" "(a + i * sz) mod M + j = L + 1 \<or> a + i * sz = M \<and> j = 0 \<and> L + 1 = M"
      using crossing [OF sz(1), of a "L + 1" n M] False \<open>a \<le> L\<close> a(2) by auto
    moreover have "sz dvd a" if "a + i * sz = M" for i using sz(2) that by (metis dvd_add_left_iff dvd_triv_right)
    ultimately show "a + n * sz \<le> L + 1 \<or> a \<le> L \<and> L = M - 1 \<and> sz dvd a" using all by fastforce
  next
    assume "a + n * sz \<le> L + 1 \<or> a \<le> L \<and> L = M - 1 \<and> sz dvd a"
    then have l: "L = M - 1" "sz dvd a" using False by auto
    show ?all
    proof (intro allI impI)
      fix i j assume ij: "i < n" "j < sz"
      let ?x = "(a + i * sz) mod M"
      have "sz dvd ?x" using l(2) sz(2) by (simp add: dvd_mod_iff)
      moreover have "?x < M" using a(1) by simp
      moreover obtain q where "M = sz * q" using sz(2) by (elim dvdE)
      ultimately have "?x + sz \<le> M" by (metis add.commute dvd_def mult_less_cancel1 mult_Suc_right mult_le_mono2 Suc_leI)
      then show "?x + j \<le> L" using ij(2) l(1) by simp
    qed
  qed
qed

lemma down_items:
  fixes sz :: nat
  assumes sz: "0 < sz" and n: "0 < n" and a: "a < M"
  shows "(\<forall>i < n. \<forall>j < sz. (a + i * sz) mod M + j \<in> {L + 1 ..< M}) \<longleftrightarrow> L < a \<and> a + n * sz \<le> M" (is "?all \<longleftrightarrow> _")
proof
  assume all: ?all
  have "L < a" using all [rule_format, OF n sz] a by simp
  moreover have "a + n * sz \<le> M"
  proof (rule ccontr)
    assume "\<not> a + n * sz \<le> M"
    then have "M < a + n * sz" by simp
    then obtain i j where ij: "i < n" "j < sz" "(a + i * sz) mod M + j = M \<or> a + i * sz = M \<and> j = 0 \<and> M = M" by (rule crossing [OF sz a _ order_refl])
    then have "(a + i * sz) mod M + j = M \<or> (a + i * sz) mod M + j = 0" by auto
    then show False using all [rule_format, OF ij(1,2)] by auto
  qed
  ultimately show "L < a \<and> a + n * sz \<le> M" by simp
next
  assume "L < a \<and> a + n * sz \<le> M"
  then show ?all using straight [of a n sz M] by fastforce
qed

lemma bad_limit_exact:
  assumes sz: "sz = 1 \<or> sz = 2 \<or> sz = 4" and n: "0 < n" "n * sz \<le> 65536" and l: "unat (sr_limit r) < seg_span r" and x: "sr_ar_x r = 0 \<or> sr_ar_x r = 1"
  shows "bad_limit r offset n sz \<longleftrightarrow> \<not> in_segment r offset n sz"
proof -
  let ?R = "of_nat n * of_nat sz - 1 :: IU32" and ?L = "unat (sr_limit r)" and ?a = "unat offset"
  define N where "N = n * sz"
  have p: "0 < sz" "sz dvd 2 ^ 16" "sz dvd 2 ^ 32" and N: "0 < N" "N \<le> 65536" using sz n by (auto simp: N_def)
  have R: "unat ?R = N - 1"
  proof -
    have "?R = of_nat (N - 1)" using N(1) by (simp add: of_nat_diff Suc_leI) (simp add: N_def)
    then show ?thesis using N(2) by (simp add: unat_of_nat)
  qed
  show ?thesis
  proof (cases "sr_ar_e r = 0")
    case True
    have sub: "unat (sr_limit r - ?R) = ?L - (N - 1)" if "\<not> sr_limit r < ?R" using that R by (simp add: unat_sub not_less)
    have lim: "sr_limit r = 0xffff \<longleftrightarrow> ?L = 65535" "sr_limit r = 0xffffffff \<longleftrightarrow> ?L = 4294967295" by (simp_all add: word_unat_eq_iff)
    have "bad_limit r offset n sz \<longleftrightarrow> ?L < ?a \<or> ?L < N - 1 \<or> ?L - (N - 1) < ?a \<and> (?a mod sz \<noteq> 0 \<or> ?L \<noteq> seg_span r - 1)"
      unfolding bad_limit_def Let_def lim using True x sub R by (auto simp: word_less_nat_alt seg_span_def)
    moreover have "in_segment r offset n sz \<longleftrightarrow> ?a < seg_span r \<and> (?a + N \<le> ?L + 1 \<or> ?a \<le> ?L \<and> ?L = seg_span r - 1 \<and> sz dvd ?a)"
      using up_items [OF p(1) _ n(1), of "seg_span r" ?a ?L, folded N_def] p(2,3) l True by (auto simp: in_segment_def seg_offsets_def seg_span_def)
    ultimately show ?thesis using N l by (auto simp: seg_span_def mod_eq_0_iff_dvd split: if_splits)
  next
    case False
    have top: "unat ((if sr_ar_x r = 1 then 0xffffffff else 0xffff) - ?R) = seg_span r - N"
    proof -
      have "?R \<le> (if sr_ar_x r = 1 then 0xffffffff else 0xffff)" using R N by (auto simp: word_le_nat_alt)
      then show ?thesis using R N by (auto simp: unat_sub seg_span_def)
    qed
    have "bad_limit r offset n sz \<longleftrightarrow> ?a \<le> ?L \<or> seg_span r - N < ?a"
      unfolding bad_limit_def Let_def using False top by (simp add: word_le_nat_alt word_less_nat_alt)
    moreover have "in_segment r offset n sz \<longleftrightarrow> ?a < seg_span r \<and> ?L < ?a \<and> ?a + N \<le> seg_span r"
      using down_items [OF p(1) n(1), of ?a "seg_span r" ?L, folded N_def] False by (auto simp: in_segment_def seg_offsets_def)
    ultimately show ?thesis using N by (auto simp: seg_span_def)
  qed
qed

text \<open>
  C19. The limit check is exact. In protected mode an access to items of one, two or four bytes is admitted exactly when every byte of
  every item lies in the segment, for segments that grow up and down and of both sizes; an access of several items may
  wrap around in a segment of full size, an item may not. Otherwise it raises the stack fault or the
  general protection fault with code 0. In real and virtual 8086 mode nothing is checked.
\<close>

theorem limit_check_exact:
  assumes "sz = 1 \<or> sz = 2 \<or> sz = 4" "0 < n" "n * sz \<le> 65536" "unat (sr_limit (CCPU_SR (core_cpu c) i)) < seg_span (CCPU_SR (core_cpu c) i)"
    "sr_ar_x (CCPU_SR (core_cpu c) i) = 0 \<or> sr_ar_x (CCPU_SR (core_cpu c) i) = 1"
  shows "limit_check i offset n sz c =
    Some (if GET_PE (core_cpu c) \<and> GET_VM (core_cpu c) \<noteq> 1 \<and> \<not> in_segment (CCPU_SR (core_cpu c) i) offset n sz
          then Inl (if i = 2 then SF 0 else GP 0) else Inr (), c)"
  using bad_limit_exact [OF assms] by (simp add: limit_check_def m_get_def m_ret_def m_fault_def)

text \<open>In a data segment of 64K two words may wrap around, one word may not.\<close>

definition demo_segment :: "unit core" where
  "demo_segment = upd_cpu (\<lambda>s. SET_CR 0 1 (s\<lparr>CCPU_SR := (CCPU_SR s)(3 := (CCPU_SR s 3)\<lparr>sr_limit := 0xffff\<rparr>)\<rparr>)) demo_form"

theorem limit_check_exact_witness:
  "limit_check 3 0xfffe 2 2 demo_segment = Some (Inr (), demo_segment) \<and> limit_check 3 0xffff 1 2 demo_segment = Some (Inl (GP 0), demo_segment)"
proof -
  let ?r = "CCPU_SR (core_cpu demo_segment) 3"
  have f: "sr_limit ?r = 0xffff" "sr_ar_x ?r = 0" "sr_ar_e ?r = 0" "GET_PE (core_cpu demo_segment)" "GET_VM (core_cpu demo_segment) = 0"
    by (simp_all add: demo_segment_def upd_cpu_def demo_form_def demo_mmu_def SET_CR_def SET_GR_def ccpu0_def)
  have o: "seg_span ?r = 65536" "seg_offsets ?r = {0..65535}" using f by (simp_all add: seg_span_def seg_offsets_def)
  have "in_segment ?r 0xfffe 2 2" "\<not> in_segment ?r 0xffff 1 2" unfolding in_segment_def o by (auto simp: less_2_cases_iff)
  then show ?thesis using limit_check_exact [of 2 2 demo_segment 3 "0xfffe"] limit_check_exact [of 2 1 demo_segment 3 "0xffff"] f o(1) by simp
qed

end
