(* ===== verification/Ccpu_Stack_Run.thy ===== *)
theory Ccpu_Stack_Run
  imports Ccpu_Stack Ccpu_Addr_Run Ccpu_Seg_Run
begin

text \<open>
  The stack instructions keep what the comment of \<open>c_stack.c\<close> demands, that all checks come before the first change: a push
  that faults has not moved the stack pointer, and a pop gives back what was pushed.
\<close>

section \<open>The stack pointer\<close>

lemma ucast_and_ffff: "ucast (ucast y :: IU16) = (y AND 0xffff :: IU32)"
proof -
  have "(0xffff :: IU32) = mask 16" by (simp add: mask_numeral)
  then show ?thesis by (simp add: and_ffff) (rule bit_word_eqI, auto simp: bit_simps)
qed

lemma stack_reg_of_change:
  assumes "sr_ar_x (SS s) = 0 \<or> sr_ar_x (SS s) = 1"
  shows "GetStackPointer (byte_change_SP d s) = stack_wrap s (GetStackPointer s + d)"
proof (cases "sr_ar_x (SS s) = 1")
  case True
  then show ?thesis by (simp add: GetStackPointer_def get_stack_reg_def byte_change_SP_def stack_wrap_def SET_GR_def)
next
  case False
  then have "sr_ar_x (SS s) = 0" "CCPU_SR (SET_WR 4 w s) = CCPU_SR s" for w using assms by (simp_all add: SET_WR_def SET_GR_def)
  then show ?thesis using WR.get_put [of 4] ucast_and_ffff by (simp add: GetStackPointer_def get_stack_reg_def byte_change_SP_def stack_wrap_def)
qed

lemma change_keeps: "CCPU_SR (byte_change_SP d s) = CCPU_SR s" "CCPU_MODE (byte_change_SP d s) = CCPU_MODE s" "CCPU_CR (byte_change_SP d s) = CCPU_CR s"
  by (simp_all add: byte_change_SP_def SET_WR_def SET_GR_def)

lemma ready_upd_cpu: "GET_PG (f (core_cpu c)) = GET_PG (core_cpu c) \<Longrightarrow> ready (upd_cpu f c) lin w phy = ready c lin w phy"
  by (rule same_tlb_ready) (simp_all add: upd_cpu_def tlb_wf_def indexed_def)

text \<open>A write whose translation is ready does not fault, and leaves the registers as they are.\<close>

lemma ready_vir_write:
  assumes "\<forall>j < n. ready c (lin + of_nat j) True (f (lin + of_nat j))"
  shows "n = 2 \<Longrightarrow> vir_write_word gmi lin 0 w c = Some (r, c') \<Longrightarrow> r = Inr () \<and> core_cpu c' = core_cpu c"
    "n = 4 \<Longrightarrow> vir_write_dword gmi lin 0 d c = Some (r, c') \<Longrightarrow> r = Inr () \<and> core_cpu c' = core_cpu c"
proof -
  assume n: "n = 2" and l: "vir_write_word gmi lin 0 w c = Some (r, c')"
  obtain db where db: "data_break lin D_W 1 c = Some (Inr (), c\<lparr>core_dbg := db\<rparr>)" by (rule data_break_ready)
  have "ready c lin True (f lin)" "ready c (lin + 1) True (f (lin + 1))" using assms [rule_format, of 0] assms [rule_format, of 1] n by simp_all
  then have "spr_write_word gmi lin w (c\<lparr>core_dbg := db\<rparr>) = phy_put (put16 gmi (GET_PG (core_cpu c)) f lin w) (c\<lparr>core_dbg := db\<rparr>)"
    using ready_write_word [of "c\<lparr>core_dbg := db\<rparr>" lin f gmi w] by simp
  then show "r = Inr () \<and> core_cpu c' = core_cpu c" using l db by (auto simp: vir_write_word_def m_bind_def phy_put_def split: bind_splits)
next
  assume n: "n = 4" and l: "vir_write_dword gmi lin 0 d c = Some (r, c')"
  obtain db where db: "data_break lin D_W 3 c = Some (Inr (), c\<lparr>core_dbg := db\<rparr>)" by (rule data_break_ready)
  have "spr_write_dword gmi lin d (c\<lparr>core_dbg := db\<rparr>) = phy_put (put_dword gmi (GET_PG (core_cpu c)) f lin d) (c\<lparr>core_dbg := db\<rparr>)"
    using ready_write_dword [of "c\<lparr>core_dbg := db\<rparr>" lin f gmi d] assms n by simp
  then show "r = Inr () \<and> core_cpu c' = core_cpu c" using l db by (auto simp: vir_write_dword_def m_bind_def phy_put_def split: bind_splits)
qed

lemma keeps_stack [keeps_intro]: "keeps (limit_check i offset n sz)" "keeps (chk_stack gmi access k offset)"
proof -
  show "keeps (limit_check i offset n sz)" unfolding limit_check_def by (intro keeps_intro)
  show "keeps (chk_stack gmi access k offset)" by (induction k arbitrary: offset) (simp_all only: chk_stack.simps Let_def keeps_intro)
qed

lemma keeps_validate [keeps_intro]: "keeps (validate_stack_space gmi b n)" "keeps (validate_stack_exists gmi b n)"
  unfolding validate_stack_space_def validate_stack_exists_def Let_def by (intro keeps_intro)+

section \<open>Push\<close>

definition push_address :: "ccpu \<Rightarrow> IU32" where
  "push_address s = sr_base (SS s) + stack_wrap s (GetStackPointer s - of_nat (item_size s))"

lemma item_sizes: "item_size s = 2 \<and> OPERAND_SIZE s = 0 \<or> item_size s = 4 \<and> OPERAND_SIZE s \<noteq> 0"
  by (simp add: item_size_def)

lemma limit_check_same: "limit_check i offset n sz c = Some (Inr u, c1) \<Longrightarrow> c1 = c"
  by (auto simp: limit_check_def m_get_def m_ret_def m_fault_def split: if_splits)

lemma validated_push:
  assumes "validate_stack_space gmi False 1 c = Some (Inr u, c1)"
  obtains phy where "usr_chk gmi (item_size (core_cpu c) - 1) (push_address (core_cpu c)) PG_W c = Some (Inr phy, c1)"
proof -
  let ?s = "core_cpu c"
  let ?o = "stack_wrap ?s (GetStackPointer ?s - of_nat (item_size ?s))"
  have "m_bind (limit_check 2 ?o 1 (item_size ?s)) (\<lambda>_. chk_stack gmi PG_W 1 ?o) c = Some (Inr u, c1)"
    using assms by (auto simp: validate_stack_space_def m_get_def Let_def m_fault_def split: if_splits)
  then have "chk_stack gmi PG_W 1 ?o c = Some (Inr u, c1)" by (elim m_bind_Some) (simp, use limit_check_same in blast)
  then have "m_bind (if item_size ?s = 2 then usr_chk_word gmi (push_address ?s) PG_W else usr_chk_dword gmi (push_address ?s) PG_W) (\<lambda>_. m_ret ()) c = Some (Inr u, c1)"
    by (simp only: One_nat_def chk_stack.simps m_get_def Let_def push_address_def)
  then obtain phy where "(if item_size ?s = 2 then usr_chk_word gmi (push_address ?s) PG_W else usr_chk_dword gmi (push_address ?s) PG_W) c = Some (Inr phy, c1)"
    by (elim m_bind_Some) (auto simp: m_ret_def)
  then have "usr_chk gmi (item_size ?s - 1) (push_address ?s) PG_W c = Some (Inr phy, c1)" using item_sizes [of ?s] usr_chk_items [of gmi] by (auto simp: numeral_eq_Suc)
  then show thesis by (rule that)
qed

lemma pushed_address:
  assumes "sr_ar_x (SS s) = 0 \<or> sr_ar_x (SS s) = 1" "k = item_size s"
  shows "sr_base (SS (byte_change_SP (- of_nat k) s)) + GetStackPointer (byte_change_SP (- of_nat k) s) = push_address s"
  using stack_reg_of_change [OF assms(1)] assms(2) by (simp add: push_address_def change_keeps)

lemma spush_write:
  "OPERAND_SIZE (core_cpu c) = 0 \<Longrightarrow> spush gmi v c = vir_write_word gmi (sr_base (SS (byte_change_SP (- 2) (core_cpu c))) + GetStackPointer (byte_change_SP (- 2) (core_cpu c))) 0 (ucast v) (upd_cpu (byte_change_SP (- 2)) c)"
  "OPERAND_SIZE (core_cpu c) \<noteq> 0 \<Longrightarrow> spush gmi v c = vir_write_dword gmi (sr_base (SS (byte_change_SP (- 4) (core_cpu c))) + GetStackPointer (byte_change_SP (- 4) (core_cpu c))) 0 v (upd_cpu (byte_change_SP (- 4)) c)"
  unfolding spush_def m_get_def m_bind_def m_cpu_def Let_def by (simp_all only: if_True if_False simp_thms option.case prod.case sum.case core_upd_cpu)

lemma spush_ready:
  assumes x: "sr_ar_x (SS (core_cpu c)) = 0 \<or> sr_ar_x (SS (core_cpu c)) = 1"
    and rd: "\<forall>j < item_size (core_cpu c). ready c (push_address (core_cpu c) + of_nat j) True (f (push_address (core_cpu c) + of_nat j))"
    and l: "spush gmi v c = Some (r, c')"
  shows "r = Inr () \<and> core_cpu c' = byte_change_SP (- of_nat (item_size (core_cpu c))) (core_cpu c)"
proof -
  let ?s = "core_cpu c" and ?k = "item_size (core_cpu c)"
  have rd': "\<forall>j < ?k. ready (upd_cpu (byte_change_SP d) c) (push_address ?s + of_nat j) True (f (push_address ?s + of_nat j))" for d
    using rd ready_upd_cpu [of "byte_change_SP d" c] by (simp add: change_keeps)
  note a = pushed_address [OF x refl]
  have n: "(of_nat 2 :: IU32) = 2" "(of_nat 4 :: IU32) = 4" by simp_all
  show ?thesis
  proof (cases "OPERAND_SIZE ?s = 0")
    case True
    then have k: "?k = 2" by (simp add: item_size_def)
    have "vir_write_word gmi (push_address ?s) 0 (ucast v) (upd_cpu (byte_change_SP (- 2)) c) = Some (r, c')"
      using l spush_write(1) [OF True, of gmi v] a unfolding k n by argo
    then show ?thesis using ready_vir_write(1) [OF rd' k] unfolding k n core_upd_cpu [symmetric] by blast
  next
    case False
    then have k: "?k = 4" by (simp add: item_size_def)
    have "vir_write_dword gmi (push_address ?s) 0 v (upd_cpu (byte_change_SP (- 4)) c) = Some (r, c')"
      using l spush_write(2) [OF False, of gmi v] a unfolding k n by argo
    then show ?thesis using ready_vir_write(2) [OF rd' k] unfolding k n core_upd_cpu [symmetric] by blast
  qed
qed

text \<open>
  C20. A push is all or nothing. If \<open>PUSH\<close> faults, for lack of access rights, of space in the segment or of a page, no register
  has changed but the fault address, so that the instruction can be restarted; if it succeeds, exactly the stack pointer has
  moved by the size of the item. The write itself, which comes after the stack pointer has moved, cannot fault.
\<close>

theorem push_all_or_nothing:
  assumes "tlb_wf (core_mmu c)" "coherent (core_mmu c)" "tables_in_ram (core_mmu c) (push_address (core_cpu c))"
    "tables_in_ram (core_mmu c) (push_address (core_cpu c) + of_nat (item_size (core_cpu c) - 1))"
    "sr_ar_x (SS (core_cpu c)) = 0 \<or> sr_ar_x (SS (core_cpu c)) = 1" "PUSH gmi v c = Some (r, c')"
  shows "case r of Inl _ \<Rightarrow> regs (core_cpu c') = regs (core_cpu c)
    | Inr _ \<Rightarrow> core_cpu c' = byte_change_SP (- of_nat (item_size (core_cpu c))) (core_cpu c)"
  using assms(6) unfolding PUSH_def
proof (rule m_bind_Some)
  fix e assume "validate_stack_space gmi False 1 c = Some (Inl e, c')" "r = Inl e"
  then show ?thesis using keepsD [OF keeps_validate(1)] by simp
next
  fix u c1 assume v: "validate_stack_space gmi False 1 c = Some (Inr u, c1)" and p: "spush gmi v c1 = Some (r, c')"
  obtain phy where "usr_chk gmi (item_size (core_cpu c) - 1) (push_address (core_cpu c)) PG_W c = Some (Inr phy, c1)" by (rule validated_push [OF v])
  moreover have "item_size (core_cpu c) - 1 < 4096" "PG_W = PG_R \<or> PG_W = PG_W" using item_sizes [of "core_cpu c"] by auto
  ultimately have u: "core_cpu c1 = core_cpu c"
    "j \<le> item_size (core_cpu c) - 1 \<Longrightarrow> ready c1 (push_address (core_cpu c) + of_nat j) True (to_phys c PG_W (push_address (core_cpu c) + of_nat j))" for j
    using usr_chk_ready [OF assms(1-4), of PG_W gmi phy c1] by auto
  then have "\<forall>j < item_size (core_cpu c1). ready c1 (push_address (core_cpu c1) + of_nat j) True (to_phys c PG_W (push_address (core_cpu c1) + of_nat j))" by auto
  then show ?thesis using spush_ready [OF _ _ p, of "to_phys c PG_W"] assms(5) u(1) by simp
qed

section \<open>Push and pop\<close>

text \<open>An item of two or four bytes in RAM, at an address that is a multiple of its size.\<close>

definition ram_item :: "'v sas \<Rightarrow> IU32 \<Rightarrow> nat \<Rightarrow> bool" where
  "ram_item m a k \<longleftrightarrow> (\<exists>b j. a = b + of_nat j \<and> ram32 m b \<and> (k = 4 \<and> j = 0 \<or> k = 2 \<and> (j = 0 \<or> j = 2)))"

lemma item_roundtrip:
  "ram_item m a 2 \<Longrightarrow> \<exists>m'. phy_w16 gmi a w m = Some m' \<and> phy_r16 gmi a m' = Some (w, m')"
  "ram_item m a 4 \<Longrightarrow> \<exists>m'. phy_w32 gmi a d m = Some m' \<and> phy_r32 gmi a m' = Some (d, m')"
proof -
  assume "ram_item m a 2"
  then obtain b j where b: "a = b + of_nat j" "ram32 m b" "j = 0 \<or> j = 2" by (auto simp: ram_item_def)
  define m' where "m' = m\<lparr>M_area := (M_area m)(unat (b AND SasWrapMask m) + j + 1 := ucast (drop_bit 8 w), unat (b AND SasWrapMask m) + j := ucast w)\<rparr>"
  have "phy_w16 gmi a w m = Some m'" using ram32_w16 [OF b(2,3)] by (simp add: b(1) m'_def)
  moreover have r: "ram32 m' b" using b(2) by (simp add: ram32_def m'_def READ_SELF_MOD_def)
  have "push_bit 8 (ucast (ucast (drop_bit 8 w) :: IU8)) OR ucast (ucast w :: IU8) = w" by (rule bit_word_eqI) (auto simp: bit_simps)
  then have "phy_r16 gmi a m' = Some (w, m')" using ram32_r16 [OF r b(3), of gmi] by (simp add: b(1) m'_def)
  ultimately show "\<exists>m'. phy_w16 gmi a w m = Some m' \<and> phy_r16 gmi a m' = Some (w, m')" by blast
next
  assume "ram_item m a 4"
  then have r: "ram32 m a" by (auto simp: ram_item_def)
  then obtain m' where m: "phy_w32 gmi a d m = Some m'" "ram32 m' = ram32 m" "peek32 m' a = d" using RAM.wr [OF r, of gmi d] by auto
  then have "phy_r32 gmi a m' = Some (d, m')" using RAM.rd [of m' a gmi] r by simp
  then show "\<exists>m'. phy_w32 gmi a d m = Some m' \<and> phy_r32 gmi a m' = Some (d, m')" using m(1) by blast
qed

lemma ucast_add: "ucast (a + b :: IU32) = (ucast a + ucast b :: IU16)"
proof -
  have m: "x mod 4294967296 mod 65536 = x mod 65536" for x :: nat by (rule mod_mod_cancel) simp
  show ?thesis by (simp add: word_unat_eq_iff unsigned_ucast_eq take_bit_eq_mod unat_word_ariths m mod_add_eq)
qed

lemma pop_undoes_push: "byte_change_SP d (byte_change_SP (- d) s) = s"
proof (cases "sr_ar_x (SS s) = 1")
  case True
  then show ?thesis by (simp add: byte_change_SP_def SET_GR_def)
next
  case False
  have x: "CCPU_SR (SET_WR 4 w s) = CCPU_SR s" for w by (simp add: SET_WR_def SET_GR_def)
  have "ucast (ucast (ucast (ucast (GET_WR 4 s) + - d :: IU32) :: IU16) + d :: IU32) = GET_WR 4 s" 
  proof -
    have i: "ucast (ucast w :: IU32) = w" for w :: IU16 by (rule bit_word_eqI) (auto simp: bit_simps)
    have "ucast (- d) + ucast d = (0 :: IU16)" using ucast_add [of "- d" d] by simp
    then show ?thesis by (simp only: ucast_add i add.assoc) simp
  qed
  then show ?thesis using False x WR.get_put [of 4] WR.put_put [of 4] WR.put_get [of 4 s] by (simp add: byte_change_SP_def)
qed

lemma plain_write:
  assumes "\<not> GET_PG (core_cpu c)"
  shows "phy_w16 gmi a w (core_phys c) = Some m \<Longrightarrow> \<exists>d. vir_write_word gmi a 0 w c = Some (Inr (), set_phys m (c\<lparr>core_dbg := d\<rparr>))"
    "phy_w32 gmi a x (core_phys c) = Some m \<Longrightarrow> \<exists>d. vir_write_dword gmi a 0 x c = Some (Inr (), set_phys m (c\<lparr>core_dbg := d\<rparr>))"
proof -
  obtain d where "data_break a D_W 1 c = Some (Inr (), c\<lparr>core_dbg := d\<rparr>)" by (rule data_break_ready)
  then show "phy_w16 gmi a w (core_phys c) = Some m \<Longrightarrow> \<exists>d. vir_write_word gmi a 0 w c = Some (Inr (), set_phys m (c\<lparr>core_dbg := d\<rparr>))"
    using assms by (auto simp: vir_write_word_def spr_write_word_def map_address_def m_bind_def m_get_def m_ret_def phy_put_def)
  obtain d where "data_break a D_W 3 c = Some (Inr (), c\<lparr>core_dbg := d\<rparr>)" by (rule data_break_ready)
  then show "phy_w32 gmi a x (core_phys c) = Some m \<Longrightarrow> \<exists>d. vir_write_dword gmi a 0 x c = Some (Inr (), set_phys m (c\<lparr>core_dbg := d\<rparr>))"
    using assms by (auto simp: vir_write_dword_def spr_write_dword_def map_address_def m_bind_def m_get_def m_ret_def phy_put_def)
qed

lemma plain_read:
  assumes "\<not> GET_PG (core_cpu c)"
  shows "phy_r16 gmi a (core_phys c) = Some (w, core_phys c) \<Longrightarrow> \<exists>d. vir_read_word gmi a 0 c = Some (Inr w, c\<lparr>core_dbg := d\<rparr>)"
    "phy_r32 gmi a (core_phys c) = Some (x, core_phys c) \<Longrightarrow> \<exists>d. vir_read_dword gmi a 0 c = Some (Inr x, c\<lparr>core_dbg := d\<rparr>)"
proof -
  have s: "set_phys (core_phys c) (c\<lparr>core_dbg := d\<rparr>) = c\<lparr>core_dbg := d\<rparr>" for d by (simp add: set_phys_def)
  obtain d where "data_break a D_R 1 c = Some (Inr (), c\<lparr>core_dbg := d\<rparr>)" by (rule data_break_ready)
  then show "phy_r16 gmi a (core_phys c) = Some (w, core_phys c) \<Longrightarrow> \<exists>d. vir_read_word gmi a 0 c = Some (Inr w, c\<lparr>core_dbg := d\<rparr>)"
    using assms s by (auto simp: vir_read_word_def spr_read_word_def map_address_def m_bind_def m_get_def m_ret_def phy_get_def)
  obtain d where "data_break a D_R 3 c = Some (Inr (), c\<lparr>core_dbg := d\<rparr>)" by (rule data_break_ready)
  then show "phy_r32 gmi a (core_phys c) = Some (x, core_phys c) \<Longrightarrow> \<exists>d. vir_read_dword gmi a 0 c = Some (Inr x, c\<lparr>core_dbg := d\<rparr>)"
    using assms s by (auto simp: vir_read_dword_def spr_read_dword_def map_address_def m_bind_def m_get_def m_ret_def phy_get_def)
qed

lemma plain_check: "\<not> GET_PG (core_cpu c) \<Longrightarrow> chk_stack gmi access 1 offset c = Some (Inr (), c)"
  by (auto simp: m_get_def Let_def m_bind_def m_ret_def usr_chk_word_def usr_chk_dword_def)

text \<open>The stack admits the next item: access rights and limit.\<close>

definition room :: "ccpu \<Rightarrow> bool" where
  "room s \<longleftrightarrow> sr_ar_r (SS s) \<noteq> 0 \<and> sr_ar_w (SS s) \<noteq> 0 \<and>
     (real_mode s \<or> \<not> bad_limit (SS s) (stack_wrap s (GetStackPointer s - of_nat (item_size s))) 1 (item_size s))"

lemma change_item: "item_size (byte_change_SP d s) = item_size s" "stack_wrap (byte_change_SP d s) = stack_wrap s" "CCPU_FLAGS (byte_change_SP d s) = CCPU_FLAGS s"
  by (auto simp: item_size_def stack_wrap_def change_keeps fun_eq_iff) (simp_all add: byte_change_SP_def SET_WR_def SET_GR_def)

lemma room_push:
  assumes "\<not> GET_PG (core_cpu c)" "room (core_cpu c)" shows "validate_stack_space gmi False 1 c = Some (Inr (), c)"
proof -
  have "limit_check 2 (stack_wrap (core_cpu c) (GetStackPointer (core_cpu c) - of_nat (item_size (core_cpu c)))) 1 (item_size (core_cpu c)) c = Some (Inr (), c)"
    using assms(2) by (auto simp: limit_check_def m_get_def m_ret_def room_def)
  then show ?thesis using assms plain_check [OF assms(1)] by (simp add: validate_stack_space_def m_get_def Let_def m_bind_def room_def del: One_nat_def chk_stack.simps)
qed

lemma room_pop:
  assumes "\<not> GET_PG (core_cpu c)" "room s" "core_cpu c = byte_change_SP (- of_nat (item_size s)) s" "sr_ar_x (SS s) = 0 \<or> sr_ar_x (SS s) = 1"
  shows "validate_stack_exists gmi False 1 c = Some (Inr (), c)"
proof -
  have sp: "GetStackPointer (core_cpu c) = stack_wrap s (GetStackPointer s - of_nat (item_size s))" using stack_reg_of_change [OF assms(4)] assms(3) by simp
  have k: "CCPU_SR (core_cpu c) = CCPU_SR s" "CCPU_FLAGS (core_cpu c) = CCPU_FLAGS s" "CCPU_CR (core_cpu c) = CCPU_CR s" "item_size (core_cpu c) = item_size s"
    unfolding assms(3) by (simp_all add: change_keeps change_item)
  have "limit_check 2 (GetStackPointer (core_cpu c)) 1 (item_size (core_cpu c)) c = Some (Inr (), c)"
    using assms(2) k unfolding sp by (auto simp: limit_check_def m_get_def m_ret_def room_def)
  then show ?thesis using assms(2) k plain_check [OF assms(1)] by (simp add: validate_stack_exists_def m_get_def Let_def m_bind_def room_def del: One_nat_def chk_stack.simps)
qed

lemma spop_read:
  "OPERAND_SIZE (core_cpu c) = 0 \<Longrightarrow> vir_read_word gmi (sr_base (SS (core_cpu c)) + GetStackPointer (core_cpu c)) 0 c = Some (Inr w, c') \<Longrightarrow>
     spop gmi c = Some (Inr (ucast w), upd_cpu (byte_change_SP 2) c')"
  "OPERAND_SIZE (core_cpu c) \<noteq> 0 \<Longrightarrow> vir_read_dword gmi (sr_base (SS (core_cpu c)) + GetStackPointer (core_cpu c)) 0 c = Some (Inr v, c') \<Longrightarrow>
     spop gmi c = Some (Inr v, upd_cpu (byte_change_SP 4) c')"
  unfolding spop_def m_get_def m_bind_def m_cpu_def m_ret_def Let_def by (simp_all only: if_True if_False simp_thms option.case prod.case sum.case)

lemma spush_spop:
  assumes "\<not> GET_PG (core_cpu c)" "sr_ar_x (SS (core_cpu c)) = 0 \<or> sr_ar_x (SS (core_cpu c)) = 1" "ram_item (core_phys c) (push_address (core_cpu c)) (item_size (core_cpu c))"
  shows "\<exists>c1 d. spush gmi v c = Some (Inr (), c1) \<and> core_cpu c1 = byte_change_SP (- of_nat (item_size (core_cpu c))) (core_cpu c) \<and>
    spop gmi c1 = Some (Inr (if item_size (core_cpu c) = 2 then v AND 0xffff else v), upd_cpu (byte_change_SP (of_nat (item_size (core_cpu c)))) (c1\<lparr>core_dbg := d\<rparr>))"
proof -
  let ?s = "core_cpu c" and ?a = "push_address (core_cpu c)"
  let ?k = "item_size ?s"
  let ?c = "\<lambda>m d. set_phys m ((upd_cpu (byte_change_SP (- of_nat ?k)) c)\<lparr>core_dbg := d\<rparr>)"
  have f: "core_cpu (?c m d) = byte_change_SP (- of_nat ?k) ?s" "core_phys (?c m d) = m" for m d by simp_all
  have pg: "\<not> GET_PG (core_cpu (?c m d))" "\<not> GET_PG (core_cpu (upd_cpu (byte_change_SP (- of_nat ?k)) c))" for m d using assms(1) by (simp_all add: change_keeps)
  have ph: "core_phys (upd_cpu g c) = core_phys c" for g by (simp add: upd_cpu_def)
  note a = pushed_address [OF assms(2) refl]
  have os: "OPERAND_SIZE (core_cpu (?c m d)) = OPERAND_SIZE ?s" for m d by (simp add: change_keeps)
  have n: "(of_nat 2 :: IU32) = 2" "(of_nat 4 :: IU32) = 4" by simp_all
  have "\<exists>m d d'. spush gmi v c = Some (Inr (), ?c m d) \<and>
    spop gmi (?c m d) = Some (Inr (if ?k = 2 then v AND 0xffff else v), upd_cpu (byte_change_SP (of_nat ?k)) ((?c m d)\<lparr>core_dbg := d'\<rparr>))"
  proof (cases "OPERAND_SIZE ?s = 0")
    case True
    then have k: "?k = 2" by (simp add: item_size_def)
    obtain m where m: "phy_w16 gmi ?a (ucast v) (core_phys c) = Some m" "phy_r16 gmi ?a m = Some (ucast v, m)" using item_roundtrip(1) assms(3) unfolding k by blast
    obtain d where d: "spush gmi v c = Some (Inr (), ?c m d)"
      using plain_write(1) [OF pg(2), of gmi ?a "ucast v" m] m(1) spush_write(1) [OF True, of gmi v] a unfolding ph k n by auto
    obtain d' where "vir_read_word gmi ?a 0 (?c m d) = Some (Inr (ucast v), (?c m d)\<lparr>core_dbg := d'\<rparr>)" using plain_read(1) [OF pg(1), of gmi ?a m d "ucast v"] m(2) by auto
    then have "spop gmi (?c m d) = Some (Inr (ucast (ucast v :: IU16)), upd_cpu (byte_change_SP 2) ((?c m d)\<lparr>core_dbg := d'\<rparr>))"
      using spop_read(1) [of "?c m d" gmi "ucast v"] True os a f(1) by metis
    then show ?thesis using d k n(1) ucast_and_ffff [of v] by auto
  next
    case False
    then have k: "?k = 4" by (simp add: item_size_def)
    obtain m where m: "phy_w32 gmi ?a v (core_phys c) = Some m" "phy_r32 gmi ?a m = Some (v, m)" using item_roundtrip(2) assms(3) unfolding k by blast
    obtain d where d: "spush gmi v c = Some (Inr (), ?c m d)"
      using plain_write(2) [OF pg(2), of gmi ?a v m] m(1) spush_write(2) [OF False, of gmi v] a unfolding ph k n by auto
    obtain d' where "vir_read_dword gmi ?a 0 (?c m d) = Some (Inr v, (?c m d)\<lparr>core_dbg := d'\<rparr>)" using plain_read(2) [OF pg(1), of gmi ?a m d v] m(2) by auto
    then have "spop gmi (?c m d) = Some (Inr v, upd_cpu (byte_change_SP 4) ((?c m d)\<lparr>core_dbg := d'\<rparr>))"
      using spop_read(2) [of "?c m d" gmi v] False os a f(1) by metis
    then show ?thesis using d k n(2) by auto
  qed
  then show ?thesis using f(1) by blast
qed

text \<open>
  C21. A pop gives back what was pushed: with paging off and an aligned item in RAM, where the segment has room, \<open>PUSH\<close> and
  \<open>POP\<close> both succeed, the value popped is the value pushed (its low word for 16-bit operands), and every register is as it was,
  for both sizes of stack and operand, in every mode.
\<close>

theorem push_pop_roundtrip:
  assumes "\<not> GET_PG (core_cpu c)" "room (core_cpu c)" "sr_ar_x (SS (core_cpu c)) = 0 \<or> sr_ar_x (SS (core_cpu c)) = 1"
    "ram_item (core_phys c) (push_address (core_cpu c)) (item_size (core_cpu c))"
  shows "\<exists>c1 c2. PUSH gmi v c = Some (Inr (), c1) \<and> POP gmi c1 = Some (Inr (if item_size (core_cpu c) = 2 then v AND 0xffff else v), c2) \<and> core_cpu c2 = core_cpu c"
proof -
  let ?s = "core_cpu c"
  let ?k = "item_size ?s"
  obtain c1 d where p: "spush gmi v c = Some (Inr (), c1)" "core_cpu c1 = byte_change_SP (- of_nat ?k) ?s"
    "spop gmi c1 = Some (Inr (if ?k = 2 then v AND 0xffff else v), upd_cpu (byte_change_SP (of_nat ?k)) (c1\<lparr>core_dbg := d\<rparr>))"
    using spush_spop [OF assms(1,3,4)] by blast
  have pg: "\<not> GET_PG (core_cpu c1)" using assms(1) p(2) by (simp add: change_keeps)
  have "PUSH gmi v c = Some (Inr (), c1)" using p(1) room_push [OF assms(1,2)] by (simp add: PUSH_def m_bind_def)
  moreover have "POP gmi c1 = Some (Inr (if ?k = 2 then v AND 0xffff else v), upd_cpu (byte_change_SP (of_nat ?k)) (c1\<lparr>core_dbg := d\<rparr>))"
    using p(3) room_pop [OF pg assms(2) p(2) assms(3)] by (simp add: POP_def m_bind_def)
  moreover have "core_cpu (upd_cpu (byte_change_SP (of_nat ?k)) (c1\<lparr>core_dbg := d\<rparr>)) = ?s" using p(2) pop_undoes_push by simp
  ultimately show ?thesis by blast
qed

text \<open>A machine in real mode with the stack at 0x100 and SP = 0x20, and 16-bit operands.\<close>

definition demo_stack :: "unit core" where
  "demo_stack = \<lparr>core_mmu = demo_mmu 0 0 (SET_GR 4 0x20 (ccpu0\<lparr>CCPU_SR := (\<lambda>_. (CCPU_SR ccpu0 2)\<lparr>sr_base := 0x100, sr_limit := 0xffff, sr_ar_r := 1, sr_ar_w := 1\<rparr>)\<rparr>)), core_dbg = demo_debug, core_xcp = xcptn0\<rparr>"

lemma demo_stack_facts:
  "\<not> GET_PG (core_cpu demo_stack)" "room (core_cpu demo_stack)" "sr_ar_x (SS (core_cpu demo_stack)) = 0" "item_size (core_cpu demo_stack) = 2" "push_address (core_cpu demo_stack) = 0x11e"
  "tlb_wf (core_mmu demo_stack)" "coherent (core_mmu demo_stack)" "ram_item (core_phys demo_stack) 0x11e 2"
proof -
  show x: "sr_ar_x (SS (core_cpu demo_stack)) = 0" "\<not> GET_PG (core_cpu demo_stack)" by (simp_all add: demo_stack_def demo_mmu_def SET_CR_def SET_GR_def ccpu0_def)
  show k: "item_size (core_cpu demo_stack) = 2" by (simp add: demo_stack_def demo_mmu_def SET_CR_def SET_GR_def ccpu0_def item_size_def)
  have sp: "GetStackPointer (core_cpu demo_stack) = 0x20" using x(1) by (simp add: GetStackPointer_def get_stack_reg_def GET_WR_def) (simp add: demo_stack_def demo_mmu_def SET_CR_def SET_GR_def)
  have b: "sr_base (SS (core_cpu demo_stack)) = 0x100" by (simp add: demo_stack_def demo_mmu_def SET_CR_def SET_GR_def ccpu0_def)
  then show "push_address (core_cpu demo_stack) = 0x11e" using x(1) k sp by (simp add: push_address_def stack_wrap_def)
  show "room (core_cpu demo_stack)" unfolding room_def by (simp add: demo_stack_def demo_mmu_def SET_CR_def SET_GR_def ccpu0_def)
  show "tlb_wf (core_mmu demo_stack)" "coherent (core_mmu demo_stack)" using demo_wf by (simp_all add: demo_stack_def)
  have "ram32 (core_phys demo_stack) 0x11c" by (simp add: ram32_def demo_stack_def demo_mmu_def READ_SELF_MOD_def)
  then show "ram_item (core_phys demo_stack) 0x11e 2" unfolding ram_item_def by (intro exI [of _ "0x11c"] exI [of _ 2]) simp
qed

theorem push_pop_roundtrip_witness:
  "\<forall>gmi. \<exists>c1 c2. PUSH gmi 0x12345678 demo_stack = Some (Inr (), c1) \<and> POP gmi c1 = Some (Inr 0x5678, c2) \<and> core_cpu c2 = core_cpu demo_stack"
proof
  fix gmi :: "unit gmi"
  have "ram_item (core_phys demo_stack) (push_address (core_cpu demo_stack)) (item_size (core_cpu demo_stack))" unfolding demo_stack_facts(4,5) by (rule demo_stack_facts)
  from push_pop_roundtrip [OF demo_stack_facts(1,2) disjI1 [OF demo_stack_facts(3)] this, of gmi "0x12345678"]
  show "\<exists>c1 c2. PUSH gmi 0x12345678 demo_stack = Some (Inr (), c1) \<and> POP gmi c1 = Some (Inr 0x5678, c2) \<and> core_cpu c2 = core_cpu demo_stack"
    by (simp add: demo_stack_facts(4))
qed

lemma demo_stack_tables: "tables_in_ram (core_mmu demo_stack) 0x11e" "tables_in_ram (core_mmu demo_stack) 0x11f"
proof -
  have a: "pde_addr 0x11e (core_mmu demo_stack) = 0x1000" "pde_addr 0x11f (core_mmu demo_stack) = 0x1000" by (simp_all add: pde_addr_def demo_stack_def demo_mmu_def SET_CR_def)
  have d: "pde_of (core_mmu demo_stack) 0x11e = 0" "pde_of (core_mmu demo_stack) 0x11f = 0" unfolding pde_of_def a by (simp_all add: peek32_def demo_stack_def demo_mmu_def demo_mem_def)
  show "tables_in_ram (core_mmu demo_stack) 0x11e" "tables_in_ram (core_mmu demo_stack) 0x11f" unfolding tables_in_ram_def a d
    by (simp_all add: pte_addr_def ram32_def demo_stack_def demo_mmu_def READ_SELF_MOD_def)
qed

theorem push_all_or_nothing_witness:
  "\<forall>gmi. \<exists>c'. PUSH gmi 0x12345678 demo_stack = Some (Inr (), c') \<and> core_cpu c' = byte_change_SP (- 2) (core_cpu demo_stack)"
proof
  fix gmi :: "unit gmi"
  note f = demo_stack_facts
  have x: "sr_ar_x (SS (core_cpu demo_stack)) = 0 \<or> sr_ar_x (SS (core_cpu demo_stack)) = 1" using f(3) by simp
  have "ram_item (core_phys demo_stack) (push_address (core_cpu demo_stack)) (item_size (core_cpu demo_stack))" unfolding f(4,5) by (rule f)
  then obtain c' where "spush gmi 0x12345678 demo_stack = Some (Inr (), c')" using spush_spop [OF f(1) x] by blast
  then have "PUSH gmi 0x12345678 demo_stack = Some (Inr (), c')" using room_push [OF f(1,2)] by (simp add: PUSH_def m_bind_def)
  moreover from push_all_or_nothing [OF f(6,7) _ _ x this] have "core_cpu c' = byte_change_SP (- 2) (core_cpu demo_stack)"
    using demo_stack_tables unfolding f(4,5) by simp
  ultimately show "\<exists>c'. PUSH gmi 0x12345678 demo_stack = Some (Inr (), c') \<and> core_cpu c' = byte_change_SP (- 2) (core_cpu demo_stack)" by blast
qed

end
