(* ===== verification/Ccpu_Intr_Run.thy ===== *)
theory Ccpu_Intr_Run
  imports Ccpu_Intr Ccpu_Stack_Run
begin

text \<open>
  Exceptions and returns: faults inside the delivery of a fault end in a double fault and at last in a reset; the frames of the operations
  (what they leave of the mode, of the status of exceptions and of the privilege level) carry the proofs; no return gains privilege.
\<close>

section \<open>Operations that stay in protected mode\<close>

definition steady :: "('v, 'a) m \<Rightarrow> bool" where
  "steady p \<longleftrightarrow> (\<forall>c r c'. p c = Some (r, c') \<longrightarrow> GET_PE (core_cpu c') = GET_PE (core_cpu c) \<and> core_xcp c' = core_xcp c)"

named_theorems steady_intro \<open>operations that change neither the mode nor the status of exceptions\<close>

lemma steadyD: "steady p \<Longrightarrow> p c = Some (r, c') \<Longrightarrow> GET_PE (core_cpu c') = GET_PE (core_cpu c) \<and> core_xcp c' = core_xcp c"
  unfolding steady_def by blast

lemma steady_ret [steady_intro]: "steady (m_ret x)" "steady (m_fault f)" "steady (\<lambda>_. None)"
  by (simp_all add: steady_def m_ret_def m_fault_def)

lemma steady_bind [steady_intro]:
  assumes "steady p" "\<And>x. steady (f x)" shows "steady (m_bind p f)"
  unfolding steady_def
proof (intro allI impI)
  fix c r c' assume "m_bind p f c = Some (r, c')"
  then show "GET_PE (core_cpu c') = GET_PE (core_cpu c) \<and> core_xcp c' = core_xcp c"
    using steadyD [OF assms(1)] steadyD [OF assms(2)] by (fastforce simp: m_bind_def split: option.splits sum.splits)
qed

lemma steady_get [steady_intro]: "(\<And>c. steady (f c)) \<Longrightarrow> steady (m_get f)"
  by (simp add: steady_def m_get_def)

lemma steady_cases [steady_intro]:
  "steady p \<Longrightarrow> steady q \<Longrightarrow> steady (if b then p else q)"
  "steady p \<Longrightarrow> (\<And>x. steady (g x)) \<Longrightarrow> steady (case y of None \<Rightarrow> p | Some x \<Rightarrow> g x)"
  "(\<And>a b. steady (h a b)) \<Longrightarrow> steady (case z of (a, b) \<Rightarrow> h a b)"
  "(\<And>a. steady (k a)) \<Longrightarrow> (\<And>b. steady (l b)) \<Longrightarrow> steady (case w of Inl a \<Rightarrow> k a | Inr b \<Rightarrow> l b)"
  by (auto split: option.split prod.split sum.split)

lemma steady_cpu: "(\<And>s. GET_PE (f s) = GET_PE s) \<Longrightarrow> steady (m_cpu f)"
  by (simp add: steady_def m_cpu_def upd_cpu_def)

lemma steady_phys [steady_intro]: "steady (phy_get f)" "steady (phy_put g)" "steady (data_break lin attr sz)" "steady (m_dbg h)"
  by (auto simp: steady_def phy_get_def phy_put_def data_break_def m_dbg_def set_phys_def split: bind_splits)

lemma steady_lin2phy [steady_intro]: "steady (lin2phy_m gmi lin access)"
  unfolding steady_def
proof (intro allI impI conjI)
  fix c r c' assume l: "lin2phy_m gmi lin access c = Some (r, c')"
  then show "core_xcp c' = core_xcp c" by (auto simp: lin2phy_m_def split: bind_splits)
  have "regs (core_cpu c') = regs (core_cpu c)" by (rule keepsD [OF keeps_lin2phy l])
  then show "GET_PE (core_cpu c') = GET_PE (core_cpu c)" using regs_eq(9) [of "core_cpu c'" "core_cpu c" 0] by simp
qed

lemma steady_accesses [steady_intro]:
  "steady (map_address gmi lin access)" "steady (chk_item gmi lst k lin access)" "steady (usr_chk_byte gmi lin access)" "steady (usr_chk_word gmi lin access)"
  "steady (usr_chk_dword gmi lin access)" "steady (spr_chk_word gmi lin access)" "steady (spr_chk_dword gmi lin access)" "steady (spr_read_byte gmi lin)" "steady (spr_write_byte gmi lin v)"
  unfolding map_address_def chk_item_def usr_chk_byte_def usr_chk_word_def usr_chk_dword_def spr_chk_word_def spr_chk_dword_def spr_read_byte_def spr_write_byte_def
  by (intro steady_intro)+

lemma steady_words [steady_intro]: "steady (spr_read_word gmi lin)" "steady (spr_write_word gmi lin w)"
  unfolding spr_read_word_def spr_write_word_def by (intro steady_intro)+

lemma steady_dwords [steady_intro]: "steady (spr_read_dword gmi lin)" "steady (spr_write_dword gmi lin d)"
  unfolding spr_read_dword_def spr_write_dword_def by (intro steady_intro)+

lemma steady_vir [steady_intro]:
  "steady (vir_read_word gmi lin phy)" "steady (vir_read_dword gmi lin phy)" "steady (vir_write_word gmi lin phy w)" "steady (vir_write_dword gmi lin phy d)"
  unfolding vir_read_word_def vir_read_dword_def vir_write_word_def vir_write_dword_def by (intro steady_intro)+

text \<open>Changes of registers that leave the control register \<open>CR0\<close> alone.\<close>

lemma CR_upd [simp]:
  "CCPU_CR (SET_GR i x s) = CCPU_CR s" "CCPU_CR (SET_WR i w s) = CCPU_CR s" "CCPU_CR (set_sr i f s) = CCPU_CR s" "CCPU_CR (set_sar i g s) = CCPU_CR s"
  "CCPU_CR (SET_OPERAND_SIZE v s) = CCPU_CR s" "CCPU_CR (SET_EIP x s) = CCPU_CR s" "CCPU_CR (SET_CPL x s) = CCPU_CR s" "CCPU_CR (load_pseudo_descr i s) = CCPU_CR s"
  "CCPU_CR (byte_change_SP d s) = CCPU_CR s" "CCPU_CR (change_SP d s) = CCPU_CR s" "CCPU_CR (set_current_SP x s) = CCPU_CR s"
  by (simp_all add: SET_GR_def SET_WR_def set_sr_def set_sar_def SET_OPERAND_SIZE_def SET_EIP_def SET_CPL_def load_pseudo_descr_def byte_change_SP_def change_SP_def set_current_SP_def
      set_stack_reg_def Let_def)

lemma steady_stack [steady_intro]:
  "steady (limit_check i offset n sz)" "steady (chk_stack gmi access k offset)" "steady (chk_new_stack gmi k base offset)" "steady (spush gmi x)" "steady (spush16 gmi x)"
  "steady (spop gmi)" "steady (tpop gmi a b)"
proof -
  show "steady (limit_check i offset n sz)" unfolding limit_check_def by (intro steady_intro)
  show "steady (chk_stack gmi access k offset)" by (induction k arbitrary: offset) (simp_all only: chk_stack.simps Let_def steady_intro)
  show "steady (chk_new_stack gmi k base offset)" by (induction k arbitrary: offset) (simp_all only: chk_new_stack.simps Let_def steady_intro)
  show "steady (spush gmi x)" "steady (spush16 gmi x)" "steady (spop gmi)" "steady (tpop gmi a b)"
    unfolding spush_def spush16_def spop_def tpop_def Let_def by (intro steady_intro steady_cpu; simp)+
qed

lemma steady_space [steady_intro]:
  "steady (validate_stack_space gmi b n)" "steady (validate_stack_exists gmi b n)" "steady (validate_new_stack_space gmi n stack_top e)"
  unfolding validate_stack_space_def validate_stack_exists_def validate_new_stack_space_def Let_def by (intro steady_intro)+

lemma steady_descr [steady_intro]:
  "steady (read_descr gmi a)" "steady (mark_accessed gmi a e)" "steady (get_stack_selector_from_TSS gmi priv)" "steady (validate_SS_on_stack_change gmi priv x)"
  "steady (validate_TSS gmi x b)" "steady (check_SS gmi x priv)"
  unfolding read_descr_def mark_accessed_def get_stack_selector_from_TSS_def validate_SS_on_stack_change_def validate_TSS_def check_SS_def Let_def by (intro steady_intro)+

lemma steady_segs [steady_intro]: "steady (load_CS_cache gmi x a e)" "steady (load_SS_cache gmi x a e)" "steady (load_data_seg gmi i x)" "steady (load_stack_seg gmi x)"
  unfolding load_CS_cache_def load_SS_cache_def load_data_seg_def load_stack_seg_def by (intro steady_intro steady_cpu; simp)+

lemma steady_loops [steady_intro]:
  "(\<And>a x. steady (wr a x)) \<Longrightarrow> steady (write_items wr step a xs)" "steady (spush_all gmi ys)" "steady (spops gmi n)"
  by (induction xs arbitrary: a, simp_all add: steady_intro) (induction ys, simp_all add: steady_intro, induction n, simp_all add: steady_intro)

lemma steady_read_items:
  "(\<And>a. steady (rd a)) \<Longrightarrow> (\<And>f x s. f \<in> set fs \<Longrightarrow> CCPU_CR (f x s) = CCPU_CR s) \<Longrightarrow> steady (read_items rd step a fs)"
  by (induction fs arbitrary: a) (simp_all add: steady_intro steady_cpu)

lemma CR_flags [simp]: "CCPU_CR (setFLAGS x s) = CCPU_CR s" "CCPU_CR (c_setEFLAGS x s) = CCPU_CR s"
  by (simp_all add: setFLAGS_def c_setEFLAGS_def Let_def)

lemma CR_task [simp]: "CCPU_CR (as_supervisor (c_setEFLAGS x) s) = CCPU_CR s" "CCPU_CR (as_supervisor (\<lambda>s. SET_VM 0 (setFLAGS x s)) s) = CCPU_CR s"
  "CCPU_CR (SET_SELECTOR i v s) = CCPU_CR s" "CCPU_CR (set_ldt_selector v s) = CCPU_CR s" "CCPU_CR (load_task_register v e s) = CCPU_CR s" "CCPU_CR (invalidate_segs s) = CCPU_CR s"
  by (simp_all add: as_supervisor_def SET_SELECTOR_def set_ldt_selector_def load_task_register_def invalidate_segs_def)

lemma flush_cpu [simp]: "cpu (flush_tlb s) = cpu s"
proof -
  have e: "cpu (flush_entry i j s) = cpu s" for i j and s :: "'v mmu" by (simp add: flush_entry_def tlb_upd_def Let_def)
  have r: "cpu (fold (flush_entry i) js s) = cpu s" for i js and s :: "'v mmu" by (induction js arbitrary: s) (simp_all add: e)
  have "cpu (fold (\<lambda>i. fold (flush_entry i) [0..<8]) is s) = cpu s" for "is" and s :: "'v mmu" by (induction "is" arbitrary: s) (simp_all add: r)
  then show ?thesis unfolding flush_tlb_def .
qed

lemma steady_MOV_CR3 [steady_intro]: "steady (MOV_CR 3 x)"
  by (simp add: MOV_CR_def) (intro steady_intro steady_cpu, simp_all add: SET_CR_def steady_def m_mmu_def)

lemma steady_task [steady_intro]:
  "steady (save_state_386 gmi b x ip)" "steady (save_state_286 gmi b x ip)" "steady (extract_state_386 gmi x)" "steady (extract_state_286 gmi x)"
  "steady (load_LDT_in_task_switch gmi x)" "steady (load_data_seg_new_task gmi i x)"
proof -
  show "steady (save_state_386 gmi b x ip)" "steady (save_state_286 gmi b x ip)" unfolding save_state_386_def save_state_286_def Let_def by (intro steady_intro)+
  show "steady (extract_state_386 gmi x)" "steady (extract_state_286 gmi x)"
    unfolding extract_state_386_def extract_state_286_def Let_def by (intro steady_intro steady_read_items steady_cpu; auto simp del: map_eq_Cons_conv)+
  show "steady (load_LDT_in_task_switch gmi x)" "steady (load_data_seg_new_task gmi i x)"
    unfolding load_LDT_in_task_switch_def load_data_seg_new_task_def Let_def by (intro steady_intro steady_cpu; simp)+
qed

lemma steady_check_new_task [steady_intro]: "steady (check_new_task gmi junk x)"
  unfolding check_new_task_def Let_def by (intro steady_intro steady_cpu; simp)

lemma steady_chosen:
  "steady (f a b c d) \<Longrightarrow> steady (g a b c d) \<Longrightarrow> steady ((if t then f else g) a b c d)"
  "steady (f2 a b) \<Longrightarrow> steady (g2 a b) \<Longrightarrow> steady ((if t then f2 else g2) a b)"
  by simp_all

lemma steady_switch [steady_intro]: "steady (switch_tasks gmi junk returning nesting x descr ip)"
proof -
  have "GET_PE (SET_CR 0 (CCPU_CR s 0 OR 8) s) = GET_PE s" for s
    by (simp add: SET_CR_def bit.conj_disj_distrib2)
  then show ?thesis unfolding switch_tasks_def Let_def
    by (intro steady_intro steady_chosen steady_cpu) simp_all
qed

lemma steady_dest [steady_intro]:
  "steady (validate_gate_dest gmi jmp x)" "steady (validate_task_dest gmi x)" "steady (read_call_gate gmi a super)" "steady (set_cs_ip gmi x a e ip)"
  "steady (to_new_task gmi junk b1 b2 x a)" "steady task_limit_check" "steady (push_return gmi)" "steady (push_error gmi b1 x)"
  unfolding validate_gate_dest_def validate_task_dest_def read_call_gate_def set_cs_ip_def to_new_task_def task_limit_check_def push_return_def push_error_def Let_def
  by (intro steady_intro steady_cpu; simp)+

lemma CR_int [simp]: "CCPU_CR (int_flags super s) = CCPU_CR s"
  by (simp add: int_flags_def)

lemma steady_intr [steady_intro]:
  "steady (validate_int_dest gmi v b)" "steady (intr_real gmi v)" "steady (intr_same_level gmi b x super cs ip a)" "steady (intr_from_v86 gmi)"
  "steady (intr_new_task gmi junk b x cs a)"
  unfolding validate_int_dest_def intr_real_def intr_same_level_def intr_from_v86_def intr_new_task_def Let_def by (intro steady_intro steady_cpu; simp)+

lemma steady_intr_more [steady_intro]: "steady (intr_more_privilege gmi b x super cs ip a dpl)"
  unfolding intr_more_privilege_def Let_def by (intro steady_intro steady_cpu; simp)

section \<open>The chain of exceptions\<close>

lemma fault_before_xcp: "m_bind p (\<lambda>_. m_xcp g) c = Some (Inl f, c') \<Longrightarrow> p c = Some (Inl f, c')"
  by (auto simp: m_bind_def m_xcp_def split: option.splits sum.splits)

lemma do_intrupt_fault:
  assumes "do_intrupt gmi junk v p b x c = Some (Inl f, c')"
  shows "GET_PE (core_cpu c') = GET_PE (core_cpu c)" "core_xcp c' = core_xcp c"
proof -
  let ?body = "m_get (\<lambda>c. if \<not> GET_PE (core_cpu c) then intr_real gmi v
        else m_bind (validate_int_dest gmi v p) (\<lambda>(super, new_cs, new_ip, cs_descr_addr, dest_type).
             if dest_type = NEW_TASK then intr_new_task gmi junk b x new_cs cs_descr_addr
             else if dest_type = SAME_LEVEL then intr_same_level gmi b x super new_cs new_ip cs_descr_addr
             else intr_more_privilege gmi b x super new_cs new_ip cs_descr_addr dest_type))"
  have s: "steady ?body" by (intro steady_intro)
  have "v \<noteq> 0xffff" using assms by (auto simp: do_intrupt_def m_ret_def)
  then have "m_bind ?body (\<lambda>_. m_xcp end_of_interrupt) c = Some (Inl f, c')" using assms unfolding do_intrupt_def by (simp only: if_False)
  then have "?body c = Some (Inl f, c')" by (rule fault_before_xcp)
  then show "GET_PE (core_cpu c') = GET_PE (core_cpu c)" "core_xcp c' = core_xcp c" using steadyD [OF s] by blast+
qed

lemma deliver_fault: "deliver gmi junk v b x c = Some (Inl f, c') \<Longrightarrow> GET_PE (core_cpu c') = GET_PE (core_cpu c) \<and> core_xcp c' = core_xcp c"
  using do_intrupt_fault by (fastforce simp: deliver_def m_bind_def m_ret_def split: option.splits sum.splits)

text \<open>How many exceptions may still be raised.\<close>

definition depth :: "xcptn \<Rightarrow> nat" where
  "depth x = (if doing_double_fault x then 0 else if doing_page_fault x then 1 else if doing_contributory x then 2 else 3)"

lemmas m_steps = m_bind_def m_get_def m_ret_def m_xcp_def m_cpu_def

lemma restart_steps: "restart_instruction c = Some (Inr (), upd_cpu (\<lambda>s. default_mode (SET_EIP (CCPU_save_EIP (core_xcp c)) s)) c)"
  by (simp add: restart_instruction_def m_steps)

lemma CR_mode [simp]: "CCPU_CR (default_mode s) = CCPU_CR s"
  by (simp add: default_mode_def)

lemma core_upd [simp]: "core_xcp (upd_cpu f c) = core_xcp c" "upd_cpu f (c\<lparr>core_xcp := x\<rparr>) = (upd_cpu f c)\<lparr>core_xcp := x\<rparr>"
  by (simp_all add: upd_cpu_def)

lemma reset_no_fault [simp]: "c_cpu_reset c \<noteq> Some (Inl f, c')"
  by (simp add: c_cpu_reset_def m_steps m_dbg_def m_mmu_def)

lemma DF_fault:
  assumes "DF gmi junk c = Some (Inl f, c')" "GET_PE (core_cpu c)"
  shows "GET_PE (core_cpu c') \<and> depth (core_xcp c') < depth (core_xcp c)"
  using assms by (auto simp: DF_def check_for_shutdown_def restart_steps m_steps Let_def depth_def dest!: deliver_fault split: if_splits option.splits sum.splits)

lemma contributory_fault:
  assumes "contributory gmi junk n code c = Some (Inl f, c')" "GET_PE (core_cpu c)"
  shows "GET_PE (core_cpu c') \<and> depth (core_xcp c') < depth (core_xcp c)"
  using assms DF_fault [of gmi junk c f c']
  by (auto simp: contributory_def check_interface_active_def check_for_shutdown_def check_for_double_fault_def restart_steps m_steps Let_def depth_def dest!: deliver_fault split: if_splits option.splits sum.splits)

lemma depth_fault [simp]: "depth (x\<lparr>doing_fault := b\<rparr>) = depth x"
  by (simp add: depth_def)

lemma take_fault_again:
  assumes "take_fault gmi junk f c = Some (Inl f', c')" "GET_PE (core_cpu c)"
  shows "GET_PE (core_cpu c') \<and> depth (core_xcp c') < depth (core_xcp c)"
proof (cases f)
  case (PageFault p)
  then show ?thesis using assms DF_fault [of gmi junk "c\<lparr>core_xcp := core_xcp c\<lparr>doing_fault := True\<rparr>\<rparr>" f' c']
    by (auto simp: PF_def check_interface_active_def check_for_shutdown_def restart_steps m_steps depth_def dest!: deliver_fault split: if_splits option.splits sum.splits)
qed (use assms in \<open>auto simp: faulting_def contributory_exception_def contributory_idt_exception_def m_bind_def m_xcp_def dest!: contributory_fault\<close>)

text \<open>The end of a chain: handler entered, machine reset, or call from outside given up.\<close>

definition quiet :: "xcptn \<Rightarrow> bool" where
  "quiet x = (\<not> doing_contributory x \<and> \<not> doing_page_fault x \<and> \<not> doing_double_fault x)"

definition reset_state :: "ccpu \<Rightarrow> bool" where
  "reset_state s = (\<not> GET_PE s \<and> sr_selector (CS s) = 0xf000 \<and> sr_base (CS s) = 0xf0000 \<and> CCPU_IP s = 0xfff0 \<and> CCPU_CPL s = 0 \<and> GET_VM s = 0)"

definition chain_end :: "xc_result \<Rightarrow> 'v core \<Rightarrow> bool" where
  "chain_end r c = (case r of Delivered \<Rightarrow> quiet (core_xcp c) | Reset \<Rightarrow> quiet (core_xcp c) \<and> reset_state (core_cpu c) | Aborted n \<Rightarrow> interface_active (core_xcp c))"

lemma deliver_done: "deliver gmi junk v b x c = Some (Inr r, c') \<Longrightarrow> v \<noteq> 0xffff \<Longrightarrow> chain_end r c'"
  by (auto simp: deliver_def do_intrupt_def m_bind_def m_ret_def m_xcp_def chain_end_def quiet_def end_of_interrupt_def split: option.splits sum.splits)

lemma reset_done: "c_cpu_reset c = Some (Inr u, c') \<Longrightarrow> core_xcp c' = core_xcp c \<and> reset_state (core_cpu c')"
proof -
  have "reset_state (reset_registers s)" for s
    unfolding reset_state_def reset_registers_def Let_def
    by (simp add: SET_ET_def SET_CR_def set_sar_def reset_seg_def load_pseudo_descr_def SET_CPL_def SET_EIP_def SET_GR_def set_sr_def SET_FLAG_def)
  then show "c_cpu_reset c = Some (Inr u, c') \<Longrightarrow> ?thesis" by (auto simp: c_cpu_reset_def m_steps m_dbg_def m_mmu_def SET_TR_def upd_cpu_def)
qed

lemma shutdown_done:
  assumes "check_for_shutdown p c = Some (Inr r, c')" "\<not> doing_double_fault (core_xcp c) \<Longrightarrow> p c = Some (Inr r, c') \<Longrightarrow> chain_end r c'"
  shows "chain_end r c'"
proof (cases "doing_double_fault (core_xcp c)")
  case True
  then show ?thesis using assms(1) by (auto simp: check_for_shutdown_def m_steps chain_end_def quiet_def dest!: reset_done split: option.splits sum.splits)
qed (use assms in \<open>simp add: check_for_shutdown_def m_get_def\<close>)

lemma DF_done: "DF gmi junk c = Some (Inr r, c') \<Longrightarrow> chain_end r c'"
  by (auto simp: DF_def restart_steps m_steps Let_def dest!: deliver_done elim!: shutdown_done split: if_splits)

lemma contributory_done: "contributory gmi junk n code c = Some (Inr r, c') \<Longrightarrow> n \<noteq> 0xffff \<Longrightarrow> chain_end r c'"
  by (auto simp: contributory_def check_interface_active_def check_for_double_fault_def restart_steps m_steps Let_def chain_end_def [of "Aborted _"]
      dest!: deliver_done elim!: shutdown_done split: if_splits dest: DF_done)

lemma take_fault_done: "take_fault gmi junk f c = Some (Inr r, c') \<Longrightarrow> chain_end r c'"
  by (cases f) (auto simp: PF_def faulting_def contributory_exception_def contributory_idt_exception_def check_interface_active_def restart_steps m_steps
      chain_end_def [of "Aborted _"] dest!: deliver_done contributory_done elim!: shutdown_done split: if_splits dest: DF_done)

lemma chain_ends:
  "GET_PE (core_cpu c) \<Longrightarrow> depth (core_xcp c) < n \<Longrightarrow>
   (case raise_chain gmi junk n (Xc_fault f) c of Finished r c' \<Rightarrow> chain_end r c' | StillRaising f' c' \<Rightarrow> False | WildAccess \<Rightarrow> True)"
proof (induction n arbitrary: f c)
  case (Suc n)
  show ?case
  proof (cases "take_fault gmi junk f c")
    case (Some rc)
    show ?thesis
    proof (cases "fst rc")
      case (Inl f')
      then have t: "take_fault gmi junk f c = Some (Inl f', snd rc)" using Some by (metis prod.collapse)
      then have "GET_PE (core_cpu (snd rc))" "depth (core_xcp (snd rc)) < n" using take_fault_again [OF t] Suc.prems by auto
      then show ?thesis using Suc.IH t by simp
    next
      case (Inr r)
      then have "take_fault gmi junk f c = Some (Inr r, snd rc)" using Some by (metis prod.collapse)
      then show ?thesis using take_fault_done by simp
    qed
  qed simp
qed simp

text \<open>The exceptions without an error code: they do not look at the exception in progress, and a divide error becomes one itself.\<close>

lemmas plain_steps = benign_fault_def benign_exception_def Int1_f_def Int1_t_def take_Int5_def Int6_def Int7_def Int16_def take_Int0_def restart_steps m_steps

lemma plain_again:
  assumes "take_exception gmi junk e c = Some (Inl f, c')" "GET_PE (core_cpu c)" "\<nexists>f'. e = Xc_fault f'"
  shows "GET_PE (core_cpu c') \<and> depth (core_xcp c') < 4"
proof -
  have "depth x < 4" for x by (simp add: depth_def)
  then show ?thesis using assms by (cases e) (auto simp: plain_steps dest!: deliver_fault split: option.splits sum.splits)
qed

lemma take_exception_done: "take_exception gmi junk e c = Some (Inr r, c') \<Longrightarrow> chain_end r c'"
proof (cases e)
  case (Xc_fault f)
  then show "take_exception gmi junk e c = Some (Inr r, c') \<Longrightarrow> chain_end r c'" using take_fault_done by simp
qed (auto simp: plain_steps dest!: deliver_done)

lemma exception_ends:
  assumes "GET_PE (core_cpu c)" "4 \<le> n" "(\<nexists>f. e = Xc_fault f) \<longrightarrow> 5 \<le> n"
  shows "case raise_chain gmi junk n e c of Finished r c' \<Rightarrow> chain_end r c' | StillRaising f' c' \<Rightarrow> False | WildAccess \<Rightarrow> True"
proof (cases "\<exists>f. e = Xc_fault f")
  case True
  have "depth (core_xcp c) < n" using assms(2) by (simp add: depth_def)
  then show ?thesis using chain_ends [OF assms(1)] True by blast
next
  case False
  then obtain k where n: "n = Suc k" "4 \<le> k" using assms(3) by (cases n) auto
  show ?thesis
  proof (cases "take_exception gmi junk e c")
    case (Some rc)
    show ?thesis
    proof (cases "fst rc")
      case (Inl f')
      then have t: "take_exception gmi junk e c = Some (Inl f', snd rc)" using Some by (metis prod.collapse)
      then have "GET_PE (core_cpu (snd rc))" "depth (core_xcp (snd rc)) < k" using plain_again [OF t assms(1) False] n(2) by auto
      then show ?thesis using chain_ends t n(1) by simp
    next
      case (Inr r)
      then have "take_exception gmi junk e c = Some (Inr r, snd rc)" using Some by (metis prod.collapse)
      then show ?thesis using take_exception_done n(1) by simp
    qed
  qed (simp add: n(1))
qed

section \<open>Delivery in real mode\<close>

text \<open>With paging off and a writable stack segment no delivery in real mode faults.\<close>

definition plain :: "'v core \<Rightarrow> bool" where
  "plain c = (\<not> GET_PE (core_cpu c) \<and> \<not> GET_PG (core_cpu c) \<and> sr_ar_w (SS (core_cpu c)) \<noteq> 0)"

definition smooth :: "('v, 'a) m \<Rightarrow> bool" where
  "smooth p \<longleftrightarrow> (\<forall>c r c'. plain c \<longrightarrow> p c = Some (r, c') \<longrightarrow> \<not> isl r \<and> plain c')"

named_theorems smooth_intro \<open>operations that do not fault in real mode\<close>

lemma smoothD: "smooth p \<Longrightarrow> plain c \<Longrightarrow> p c = Some (r, c') \<Longrightarrow> (\<exists>x. r = Inr x) \<and> plain c'"
  unfolding smooth_def by (cases r) auto

lemma smooth_ret [smooth_intro]: "smooth (m_ret x)"
  by (simp add: smooth_def m_ret_def)

lemma smooth_bind [smooth_intro]:
  assumes "smooth p" "\<And>x. smooth (f x)" shows "smooth (m_bind p f)"
  unfolding smooth_def
proof (intro allI impI)
  fix c r c' assume p: "plain c" and b: "m_bind p f c = Some (r, c')"
  then obtain q c1 where q: "p c = Some (q, c1)" by (cases "p c") (auto simp: m_bind_def)
  then obtain x where "q = Inr x" "plain c1" using smoothD [OF assms(1) p] by blast
  moreover from this have "f x c1 = Some (r, c')" using b q by (simp add: m_bind_def)
  ultimately show "\<not> isl r \<and> plain c'" using assms(2) [of x] unfolding smooth_def by blast
qed

lemma smooth_get [smooth_intro]: "(\<And>c. plain c \<Longrightarrow> smooth (f c)) \<Longrightarrow> smooth (m_get f)"
  unfolding smooth_def m_get_def by blast

lemma smooth_if [smooth_intro]: "(b \<Longrightarrow> smooth p) \<Longrightarrow> (\<not> b \<Longrightarrow> smooth q) \<Longrightarrow> smooth (if b then p else q)"
  by simp

lemma smooth_cpu: "(\<And>s. CCPU_CR (f s) 0 = CCPU_CR s 0 \<and> sr_ar_w (SS (f s)) = sr_ar_w (SS s)) \<Longrightarrow> smooth (m_cpu f)"
  by (simp add: smooth_def m_cpu_def upd_cpu_def plain_def)

lemma smooth_phys [smooth_intro]: "smooth (phy_get f)" "smooth (phy_put g)" "smooth (data_break lin attr sz)" "smooth (m_xcp h)"
  by (auto simp: smooth_def phy_get_def phy_put_def data_break_def m_xcp_def set_phys_def plain_def split: bind_splits)

lemma smooth_map [smooth_intro]: "smooth (map_address gmi lin access)" "smooth (usr_chk_word gmi lin access)" "smooth (usr_chk_dword gmi lin access)"
  unfolding map_address_def usr_chk_word_def usr_chk_dword_def by (intro smooth_intro; simp add: plain_def)+

lemma smooth_write [smooth_intro]: "smooth (spr_write_word gmi lin w)" "smooth (spr_write_dword gmi lin d)"
  unfolding spr_write_word_def spr_write_dword_def by (intro smooth_intro; simp add: plain_def)+

lemma smooth_vir [smooth_intro]: "smooth (vir_write_word gmi lin phy w)" "smooth (vir_write_dword gmi lin phy d)"
  unfolding vir_write_word_def vir_write_dword_def by (intro smooth_intro)+

lemma SR_upd [simp]: "CCPU_SR (SET_GR i x s) = CCPU_SR s" "CCPU_SR (SET_WR i w s) = CCPU_SR s" "CCPU_SR (SET_EIP x s) = CCPU_SR s" "CCPU_SR (SET_FLAG i v s) = CCPU_SR s"
  "CCPU_SR (default_mode s) = CCPU_SR s" "CCPU_SR (byte_change_SP d s) = CCPU_SR s"
  by (simp_all add: SET_GR_def SET_WR_def SET_EIP_def SET_FLAG_def default_mode_def byte_change_SP_def)

lemma smooth_push [smooth_intro]: "smooth (spush gmi x)" "smooth (spush16 gmi x)"
  unfolding spush_def spush16_def Let_def by (intro smooth_intro smooth_cpu; simp)+

lemma smooth_chk [smooth_intro]: "smooth (chk_stack gmi access k offset)"
  by (induction k arbitrary: offset) (simp_all only: chk_stack.simps Let_def smooth_intro)

lemma smooth_space [smooth_intro]: "smooth (validate_stack_space gmi b n)"
  unfolding validate_stack_space_def limit_check_def Let_def by (intro smooth_intro; simp add: plain_def)

lemma smooth_CS [smooth_intro]: "smooth (load_CS_cache gmi x a e)"
  unfolding load_CS_cache_def by (intro smooth_intro smooth_cpu; simp add: plain_def)

lemma smooth_intr [smooth_intro]: "smooth (do_intrupt gmi junk v p b x)"
proof -
  have "smooth (intr_real gmi v)"
    unfolding intr_real_def push_return_def set_cs_ip_def Let_def by (intro smooth_intro smooth_cpu; simp)
  then show ?thesis unfolding do_intrupt_def by (intro smooth_intro; simp add: plain_def)
qed

lemma smooth_reset [smooth_intro]: "smooth c_cpu_reset"
proof -
  have "CCPU_CR (reset_registers s) 0 = 0x10 \<and> sr_ar_w (SS (reset_registers s)) = 1" for s
    unfolding reset_registers_def Let_def
    by (simp add: SET_ET_def SET_CR_def set_sar_def reset_seg_def load_pseudo_descr_def SET_CPL_def SET_EIP_def SET_GR_def set_sr_def SET_FLAG_def)
  then show ?thesis by (auto simp: smooth_def c_cpu_reset_def m_steps m_dbg_def m_mmu_def SET_TR_def upd_cpu_def plain_def)
qed

lemma smooth_restart [smooth_intro]: "smooth restart_instruction"
  unfolding restart_instruction_def by (intro smooth_intro smooth_cpu; simp)

lemma smooth_DF [smooth_intro]: "smooth (DF gmi junk)"
  unfolding DF_def deliver_def Let_def by (intro smooth_intro; simp add: plain_def)

lemma smooth_take_fault: "smooth (take_fault gmi junk f)"
  by (cases f) (simp_all only: take_fault.simps PF_def faulting_def contributory_exception_def contributory_idt_exception_def contributory_def
      check_interface_active_def check_for_shutdown_def check_for_double_fault_def deliver_def Let_def smooth_intro)

lemma smooth_exception: "smooth (take_exception gmi junk e)"
proof (cases e)
  case (Xc_fault f)
  then show ?thesis using smooth_take_fault by simp
qed (simp_all only: take_exception.simps benign_fault_def benign_exception_def Int1_f_def Int1_t_def take_Int5_def Int6_def Int7_def Int16_def take_Int0_def deliver_def smooth_intro)

text \<open>
  C16. An exception always ends. Exceptions raised one inside the other (a fault inside the delivery of an exception is the exception raised next; a double fault counts with the exception that
  turns into it): when the first is a fault with an error code, at most four of them are raised, and when it is one without (divide error, debug, bound, invalid opcode, no
  coprocessor, coprocessor error), at most five, before the handler of one of them is reached, the machine is reset, or the call from outside the CPU that caused it is given up. A delivered exception
  leaves no trace of a fault in progress, and a reset leaves the machine at \<open>F000:FFF0\<close> in real mode. This holds in protected mode from any state, and
  in real mode with paging off and a writable stack segment. The result \<open>WildAccess\<close>, about which nothing is said, is a physical access that calls a
  handler of the memory tables that does not exist.
\<close>

theorem exception_delivery_ends:
  assumes "GET_PE (core_cpu c) \<or> \<not> GET_PG (core_cpu c) \<and> sr_ar_w (SS (core_cpu c)) \<noteq> 0"
    and "n = (case e of Xc_fault f \<Rightarrow> 4 | _ \<Rightarrow> 5)"
  shows "case raise_chain gmi junk n e c of
      Finished Delivered c' \<Rightarrow> quiet (core_xcp c')
    | Finished Reset c' \<Rightarrow> quiet (core_xcp c') \<and> reset_state (core_cpu c')
    | Finished (Aborted n) c' \<Rightarrow> interface_active (core_xcp c')
    | StillRaising e' c' \<Rightarrow> False
    | WildAccess \<Rightarrow> True"
proof -
  have n: "4 \<le> n" "(\<nexists>f. e = Xc_fault f) \<longrightarrow> 5 \<le> n" using assms(2) by (auto split: ccpu_exception.splits)
  have "case raise_chain gmi junk n e c of Finished r c' \<Rightarrow> chain_end r c' | StillRaising e' c' \<Rightarrow> False | WildAccess \<Rightarrow> True"
  proof (cases "GET_PE (core_cpu c)")
    case True
    then show ?thesis by (rule exception_ends [OF _ n])
  next
    case False
    then have "plain c" using assms(1) by (simp add: plain_def)
    then have "take_exception gmi junk e c \<noteq> Some (Inl f', c')" for f' c' using smoothD [OF smooth_exception] by fastforce
    moreover obtain k where "n = Suc k" using n(1) by (cases n) auto
    ultimately show ?thesis using take_exception_done [of gmi junk e c] by (auto split: option.split prod.split sum.split)
  qed
  then show ?thesis by (auto simp: chain_end_def split: raised.splits xc_result.splits)
qed

text \<open>Without an interrupt table every delivery faults: exception, double fault, reset.\<close>

definition no_table :: "'v core \<Rightarrow> bool" where
  "no_table c = (GET_PE (core_cpu c) \<and> star_limit (CCPU_STAR (core_cpu c) 1) = 0 \<and> \<not> interface_active (core_xcp c))"

lemma no_table_upd [simp]: "no_table (c\<lparr>core_xcp := x\<rparr>) = (GET_PE (core_cpu c) \<and> star_limit (CCPU_STAR (core_cpu c) 1) = 0 \<and> \<not> interface_active x)"
  "no_table (upd_cpu (\<lambda>s. default_mode (SET_EIP e s)) c) = no_table c"
  by (simp_all add: no_table_def default_mode_def SET_EIP_def)

lemma no_table_deliver: "no_table c \<Longrightarrow> v \<noteq> 0xffff \<Longrightarrow> deliver gmi junk v b x c = Some (Inl (GP_INT v), c)"
  by (simp add: no_table_def deliver_def do_intrupt_def validate_int_dest_def m_bind_def m_get_def m_fault_def Let_def)

lemmas contributory_steps = faulting_def contributory_exception_def contributory_idt_exception_def contributory_def check_interface_active_def check_for_shutdown_def
  check_for_double_fault_def DF_def restart_steps m_steps

lemma no_table_D: "no_table c \<Longrightarrow> GET_PE (core_cpu c) \<and> star_limit (CCPU_STAR (core_cpu c) 1) = 0 \<and> \<not> interface_active (core_xcp c)"
  by (simp add: no_table_def)

lemma no_table_first:
  assumes "no_table c" "depth (core_xcp c) = 3"
  shows "\<exists>c'. take_fault gmi junk (GP_INT x) c = Some (Inl (GP_INT 13), c') \<and> no_table c' \<and> depth (core_xcp c') = 2"
proof -
  let ?c = "(upd_cpu (\<lambda>s. default_mode (SET_EIP (CCPU_save_EIP (core_xcp c)) s)) c)\<lparr>core_xcp := core_xcp c\<lparr>doing_fault := True, doing_contributory := True, EXT := 0\<rparr>\<rparr>"
  have d: "\<not> doing_double_fault (core_xcp c)" "\<not> doing_page_fault (core_xcp c)" "\<not> doing_contributory (core_xcp c)" using assms(2) by (auto simp: depth_def split: if_splits)
  have n: "no_table ?c" using no_table_D [OF assms(1)] no_table_upd(2) [of "CCPU_save_EIP (core_xcp c)" c] assms(1) by (simp add: no_table_def del: One_nat_def)
  have "take_fault gmi junk (GP_INT x) c = deliver gmi junk 13 True (push_bit 3 (x AND 0xff) OR 2 OR EXT (core_xcp c)) ?c"
    using d no_table_D [OF assms(1)] by (simp add: contributory_steps)
  then show ?thesis using no_table_deliver [OF n] n d by (simp add: depth_def)
qed

lemma no_table_second:
  assumes "no_table c" "depth (core_xcp c) = 2"
  shows "\<exists>c'. take_fault gmi junk (GP_INT x) c = Some (Inl (GP_INT 8), c') \<and> no_table c' \<and> depth (core_xcp c') = 0"
proof -
  let ?c = "(upd_cpu (\<lambda>s. default_mode (SET_EIP (CCPU_save_EIP (core_xcp c)) s)) c)\<lparr>core_xcp := core_xcp c\<lparr>doing_fault := False, doing_double_fault := True, EXT := 0\<rparr>\<rparr>"
  have d: "\<not> doing_double_fault (core_xcp c)" "doing_contributory (core_xcp c)" using assms(2) by (auto simp: depth_def split: if_splits)
  have n: "no_table ?c" using no_table_D [OF assms(1)] no_table_upd(2) [of "CCPU_save_EIP (core_xcp c)" c] assms(1) by (simp add: no_table_def del: One_nat_def)
  have "take_fault gmi junk (GP_INT x) c = deliver gmi junk 8 True 0 ?c"
    using d no_table_D [OF assms(1)] by (simp add: contributory_steps)
  then show ?thesis using no_table_deliver [OF n] n d by (simp add: depth_def)
qed

lemma no_table_third: "no_table c \<Longrightarrow> depth (core_xcp c) = 0 \<Longrightarrow> \<exists>c'. take_fault gmi junk (GP_INT x) c = Some (Inr Reset, c')"
  by (auto simp: contributory_steps depth_def c_cpu_reset_def m_dbg_def m_mmu_def dest!: no_table_D split: if_splits)

definition demo_no_idt :: "unit core" where
  "demo_no_idt = \<lparr>core_mmu = demo_mmu 0 0 (SET_CR 0 1 ccpu0), core_dbg = demo_debug, core_xcp = xcptn0\<rparr>"

text \<open>An invalid opcode there: three exceptions, the last of which turns into a double fault, and the fourth resets the machine.\<close>

lemma demo_resets: "\<exists>c'. raise_chain gmi junk 5 Xc_Int6 demo_no_idt = Finished Reset c'"
proof -
  let ?c = "(upd_cpu (\<lambda>s. default_mode (SET_EIP (CCPU_save_EIP xcptn0) s)) demo_no_idt)\<lparr>core_xcp := xcptn0\<lparr>doing_fault := True, EXT := 0\<rparr>\<rparr>"
  have n: "no_table demo_no_idt" by (simp add: no_table_def demo_no_idt_def demo_mmu_def ccpu0_def SET_CR_def xcptn0_def)
  have n1: "no_table ?c" "depth (core_xcp ?c) = 3"
    using no_table_D [OF n] no_table_upd(2) [of "CCPU_save_EIP xcptn0" demo_no_idt] n by (simp_all add: no_table_def depth_def xcptn0_def del: One_nat_def)
  have x: "core_xcp demo_no_idt = xcptn0" by (simp add: demo_no_idt_def)
  have "take_exception gmi junk Xc_Int6 demo_no_idt = deliver gmi junk 6 False 0 ?c"
    by (simp add: plain_steps x)
  then have 0: "take_exception gmi junk Xc_Int6 demo_no_idt = Some (Inl (GP_INT 6), ?c)" using no_table_deliver [OF n1(1)] by simp
  obtain c1 where 1: "take_fault gmi junk (GP_INT 6) ?c = Some (Inl (GP_INT 13), c1)" "no_table c1" "depth (core_xcp c1) = 2" using no_table_first [OF n1] by blast
  then obtain c2 where 2: "take_fault gmi junk (GP_INT 13) c1 = Some (Inl (GP_INT 8), c2)" "no_table c2" "depth (core_xcp c2) = 0" using no_table_second by blast
  then obtain c3 where "take_fault gmi junk (GP_INT 8) c2 = Some (Inr Reset, c3)" using no_table_third by blast
  then show ?thesis using 0 1 2 by (simp add: eval_nat_numeral)
qed

theorem exception_delivery_ends_witness:
  "\<forall>gmi. \<exists>c'. raise_chain gmi 0 5 Xc_Int6 demo_no_idt = Finished Reset c' \<and> reset_state (core_cpu c')"
proof
  fix gmi :: "unit gmi"
  have "GET_PE (core_cpu demo_no_idt)" by (simp add: demo_no_idt_def demo_mmu_def SET_CR_def)
  moreover obtain c' where "raise_chain gmi 0 5 Xc_Int6 demo_no_idt = Finished Reset c'" using demo_resets by blast
  ultimately show "\<exists>c'. raise_chain gmi 0 5 Xc_Int6 demo_no_idt = Finished Reset c' \<and> reset_state (core_cpu c')"
    using exception_delivery_ends [of demo_no_idt 5 Xc_Int6 gmi 0] by simp
qed

section \<open>Privilege\<close>

text \<open>The registers at level \<open>p\<close> in protected mode; with a code segment whose selector carries the level.\<close>

definition at_level :: "IU32 \<Rightarrow> ccpu \<Rightarrow> bool" where
  "at_level p s = (\<not> real_mode s \<and> CCPU_CPL s = p)"

definition code_at :: "IU32 \<Rightarrow> ccpu \<Rightarrow> bool" where
  "code_at p s = (at_level p s \<and> GET_SELECTOR_RPL (sr_selector (CS s)) = p)"

lemma level_cond: "register_cond (at_level p)" "register_cond (code_at p)"
proof -
  have l: "at_level p s' \<longleftrightarrow> at_level p s" "sr_selector (CS s') = sr_selector (CS s)" if "regs s' = regs s" for s s'
    using regs_eq(1,6,7) [OF that] regs_eq(9) [OF that, of 0] by (simp_all add: at_level_def)
  then show "register_cond (at_level p)" "register_cond (code_at p)" unfolding register_cond_def code_at_def by metis+
qed

lemma keeps_case [keeps_intro]: "keeps p \<Longrightarrow> (\<And>x. keeps (g x)) \<Longrightarrow> keeps (case y of None \<Rightarrow> p | Some x \<Rightarrow> g x)"
  by (simp split: option.split)

lemma keeps_tpop [keeps_intro]: "keeps (tpop gmi a b)"
  unfolding tpop_def Let_def by (intro keeps_intro)

lemma keeps_more [keeps_intro]: "keeps (check_SS gmi x priv)" "keeps (return_code gmi x)" "keeps (int_frame gmi)"
  unfolding check_SS_def return_code_def int_frame_def by (intro keeps_intro)+

text \<open>Loading the code segment in protected mode.\<close>

lemma triple_CS:
  assumes "GET_SELECTOR_RPL sel = p"
  shows "triple (at_level p) (at_level p) (set_cs_ip gmi sel a e ip) (\<lambda>_. code_at p)"
proof -
  have "triple (at_level p) (at_level p) (load_CS_cache gmi sel a e) (\<lambda>_. code_at p)"
    unfolding load_CS_cache_def
  proof (rule triple_get, rule triple_if)
    fix c :: "'a core" assume "at_level p (core_cpu c)" "real_mode (core_cpu c)"
    then show "triple (at_level p) (at_level p) (m_cpu f) (\<lambda>_. code_at p)" for f by (simp add: at_level_def)
  next
    have "triple (at_level p) (at_level p) (mark_accessed gmi a e) (\<lambda>_. at_level p)" by (intro triple_keeps keeps_intro level_cond)
    moreover have "triple (at_level p) (at_level p) (m_cpu (set_sr 1 (code_cache sel e'))) (\<lambda>_. code_at p)" for e'
      using assms by (intro triple_cpu) (auto simp: code_at_def at_level_def code_cache_def set_sr_def)
    ultimately show "triple (at_level p) (at_level p) (m_bind (mark_accessed gmi a e) (\<lambda>e. m_cpu (set_sr 1 (code_cache sel e)))) (\<lambda>_. code_at p)"
      by (rule triple_bind)
  qed
  moreover have "triple (at_level p) (code_at p) (m_cpu (SET_EIP ip)) (\<lambda>_. code_at p)" by (intro triple_cpu) (simp add: code_at_def at_level_def SET_EIP_def)
  ultimately show ?thesis unfolding set_cs_ip_def by (rule triple_bind)
qed

lemma triple_weaken: "triple E P p Q \<Longrightarrow> (\<And>s. E s \<Longrightarrow> E' s) \<Longrightarrow> (\<And>s. P' s \<Longrightarrow> P s) \<Longrightarrow> (\<And>x s. Q x s \<Longrightarrow> Q' x s) \<Longrightarrow> triple E' P' p Q'"
  unfolding triple_def by (fastforce split: sum.splits)

definition data_visible :: "ccpu \<Rightarrow> bool" where
  "data_visible s = (visible s 0 \<and> visible s 3 \<and> visible s 4 \<and> visible s 5)"

lemma new_privilege_sel:
  "CCPU_CPL (load_data_seg_new_privilege j s) = CCPU_CPL s" "CCPU_CR (load_data_seg_new_privilege j s) = CCPU_CR s" "CCPU_FLAGS (load_data_seg_new_privilege j s) = CCPU_FLAGS s"
  "i \<noteq> j \<Longrightarrow> CCPU_SR (load_data_seg_new_privilege j s) i = CCPU_SR s i"
  by (auto simp: load_data_seg_new_privilege_def set_sr_def Let_def)

lemma new_privilege_others: "i \<noteq> j \<Longrightarrow> visible (load_data_seg_new_privilege j s) i = visible s i"
  by (simp add: visible_def new_privilege_sel)

lemma data_segs_visible: "data_visible (data_segs_new_privilege s)"
  by (simp add: data_visible_def data_segs_new_privilege_def new_privilege_others new_privilege_visible)

lemma code_at_segs: "code_at p (data_segs_new_privilege s) = code_at p s"
  by (simp add: code_at_def at_level_def data_segs_new_privilege_def new_privilege_sel)

lemma stack_pointer_only:
  "code_at p (set_current_SP x s) = code_at p s" "code_at p (byte_change_SP y (change_SP z s)) = code_at p s" "data_visible (byte_change_SP y (change_SP z s)) = data_visible s"
  "code_at p (change_SP z s) = code_at p s"
  by (simp_all add: code_at_def at_level_def data_visible_def visible_def set_current_SP_def set_stack_reg_def byte_change_SP_def change_SP_def SET_WR_def SET_GR_def Let_def)

text \<open>What a return leaves behind, from level \<open>k\<close>.\<close>

definition returned :: "IU32 \<Rightarrow> ccpu \<Rightarrow> bool" where
  "returned k s = (k \<le> CCPU_CPL s \<and> GET_SELECTOR_RPL (sr_selector (CS s)) = CCPU_CPL s \<and> (k < CCPU_CPL s \<longrightarrow> data_visible s))"

lemma triple_SS: "triple (at_level p) (code_at p) (load_SS_cache gmi x a e) (\<lambda>_. code_at p)"
proof -
  have "triple (at_level p) (code_at p) (mark_accessed gmi a e) (\<lambda>_. code_at p)" by (intro triple_keeps keeps_intro level_cond) (simp add: code_at_def)
  moreover have "triple (at_level p) (code_at p) (m_cpu (set_sr 2 g)) (\<lambda>_. code_at p)" for g by (intro triple_cpu) (auto simp: code_at_def at_level_def set_sr_def)
  ultimately show ?thesis unfolding load_SS_cache_def by (rule triple_bind)
qed

lemma triple_first:
  assumes "keeps p" "register_cond P" "\<And>s. P s \<Longrightarrow> E s" "\<And>x. triple E P (f x) Q" shows "triple E P (m_bind p f) Q"
  by (rule triple_bind [OF triple_keeps [OF assms(1-3)] assms(4)])

abbreviation not_below :: "IU32 \<Rightarrow> ccpu \<Rightarrow> bool" where "not_below k s \<equiv> k \<le> CCPU_CPL s"

lemma level_first:
  assumes "keeps p" "k \<le> q" "\<And>x. triple (not_below k) (at_level q) (f x) Q"
  shows "triple (not_below k) (at_level q) (m_bind p f) Q"
  by (rule triple_first [OF assms(1) level_cond(1) _ assms(3)]) (use assms(2) in \<open>simp add: at_level_def\<close>)

lemma code_first:
  assumes "keeps p" "k \<le> q" "\<And>x. triple (not_below k) (code_at q) (f x) Q"
  shows "triple (not_below k) (code_at q) (m_bind p f) Q"
  by (rule triple_first [OF assms(1) level_cond(2) _ assms(3)]) (use assms(2) in \<open>simp add: code_at_def at_level_def\<close>)

lemma level_loads:
  assumes "k \<le> q"
  shows "GET_SELECTOR_RPL sel = q \<Longrightarrow> triple (not_below k) (at_level q) (set_cs_ip gmi sel a e ip) (\<lambda>_. code_at q)"
    "triple (not_below k) (code_at q) (load_SS_cache gmi x a e) (\<lambda>_. code_at q)" "triple (not_below k) (code_at q) (m_cpu (set_current_SP y)) (\<lambda>_. code_at q)"
    "triple (not_below k) (code_at q) (m_cpu data_segs_new_privilege) (\<lambda>_ s. code_at q s \<and> data_visible s)"
  subgoal by (rule triple_weaken [OF triple_CS]) (use assms in \<open>auto simp: at_level_def\<close>)
  subgoal by (rule triple_weaken [OF triple_SS]) (use assms in \<open>auto simp: at_level_def\<close>)
  subgoal by (rule triple_cpu) (simp add: stack_pointer_only)
  subgoal by (rule triple_cpu) (simp add: code_at_segs data_segs_visible)
  done

lemma triple_release:
  "(k = p \<Longrightarrow> triple (not_below k) (code_at p) (release_stack x y) (\<lambda>_. returned k))"
  "k < p \<Longrightarrow> triple (not_below k) (\<lambda>s. code_at p s \<and> data_visible s) (release_stack x y) (\<lambda>_. returned k)"
  unfolding release_stack_def
  by (rule triple_cpu; auto simp: returned_def stack_pointer_only code_at_def at_level_def data_visible_def visible_def set_current_SP_def set_stack_reg_def byte_change_SP_def change_SP_def SET_WR_def SET_GR_def Let_def)+

lemma triple_limit: "k \<le> q \<Longrightarrow> triple (not_below k) (at_level q) p Q \<Longrightarrow> triple (not_below k) (at_level q) (if b then m_fault f else p) Q"
  by (intro triple_if triple_fault) (simp_all add: at_level_def)

lemma level_change: "k \<le> q \<Longrightarrow> triple (not_below k) (at_level k) (m_cpu (SET_CPL q)) (\<lambda>_. at_level q)"
  by (rule triple_cpu) (simp add: at_level_def SET_CPL_def)

lemma retf_same_level_returns:
  assumes "GET_SELECTOR_RPL new_cs = k"
  shows "triple (not_below k) (at_level k) (retf_same_level gmi op1 new_ip new_cs) (\<lambda>_. returned k)"
  unfolding retf_same_level_def
  by (intro level_first keeps_intro order_refl triple_split triple_limit triple_bind [OF level_loads(1) triple_release(1)] assms refl)

lemma retf_lower_returns:
  assumes "k < GET_SELECTOR_RPL new_cs"
  shows "triple (not_below k) (at_level k) (retf_lower_privilege gmi op1 n new_ip new_cs) (\<lambda>_. returned k)"
proof -
  let ?p = "GET_SELECTOR_RPL new_cs"
  have k: "k \<le> ?p" using assms by simp
  have out: "triple (not_below k) (at_level k) (m_bind (m_cpu (SET_CPL ?p)) (\<lambda>_.
          m_bind (set_cs_ip gmi new_cs a e new_ip) (\<lambda>_.
          m_bind (tpop gmi 2 op1) (\<lambda>new_sp.
          m_bind (load_SS_cache gmi x b d) (\<lambda>_.
          m_bind (m_cpu (set_current_SP new_sp)) (\<lambda>_.
          m_bind (m_cpu data_segs_new_privilege) (\<lambda>_. release_stack 0 op1))))))) (\<lambda>_. returned k)" for a e x b d
    by (rule triple_bind [OF level_change [OF k] triple_bind [OF level_loads(1) [OF k refl] code_first [OF keeps_tpop k
          triple_bind [OF level_loads(2) [OF k] triple_bind [OF level_loads(3) [OF k] triple_bind [OF level_loads(4) [OF k] triple_release(2) [OF assms]]]]]]])
  show ?thesis unfolding retf_lower_privilege_def Let_def
    by (intro triple_split triple_limit order_refl out | rule level_first [OF _ order_refl], (rule keeps_intro)+)+
qed

lemma RETF_returns: "triple (not_below k) (at_level k) (RETF gmi op1) (\<lambda>_. returned k)"
  unfolding RETF_def Let_def
proof ((rule level_first [OF _ order_refl], rule keeps_intro)+, intro triple_get triple_if)
  fix c :: "'a core" and item :: IU32 and new_ip
  assume at: "at_level k (core_cpu c)"
  let ?cs = "ucast item :: IU16"
  show "triple (not_below k) (at_level k) (m_bind (set_cs_ip gmi ?cs 0 no_descr new_ip) (\<lambda>_. release_stack 2 op1)) (\<lambda>_. returned k)" if "real_mode (core_cpu c)"
    using at that by (simp add: at_level_def)
  show "triple (not_below k) (at_level k) (m_fault (GP ?cs)) (\<lambda>_. returned k)" by (rule triple_fault) (simp add: at_level_def)
  show "triple (not_below k) (at_level k) (retf_same_level gmi op1 new_ip ?cs) (\<lambda>_. returned k)" if "GET_SELECTOR_RPL ?cs = CCPU_CPL (core_cpu c)"
    using at that by (intro retf_same_level_returns) (simp add: at_level_def)
  show "triple (not_below k) (at_level k) (retf_lower_privilege gmi op1 n new_ip ?cs) (\<lambda>_. returned k)"
    if "\<not> GET_SELECTOR_RPL ?cs < CCPU_CPL (core_cpu c)" "GET_SELECTOR_RPL ?cs \<noteq> CCPU_CPL (core_cpu c)" for n
    using at that by (intro retf_lower_returns) (simp add: at_level_def)
qed

text \<open>The return of \<open>IRET\<close> changes the level last; before that only the code segment names the new one.\<close>

definition code_is :: "IU32 \<Rightarrow> IU16 \<Rightarrow> ccpu \<Rightarrow> bool" where
  "code_is k sel s = (CCPU_CPL s = k \<and> sr_selector (CS s) = sel)"

lemma code_is_cond: "register_cond (code_is k sel)"
  unfolding register_cond_def code_is_def by (metis regs_eq(1,6))

lemma flags_regs: "CCPU_CPL (set_current_FLAGS x s) = CCPU_CPL s" "CCPU_SR (set_current_FLAGS x s) = CCPU_SR s"
  by (simp_all add: set_current_FLAGS_def setFLAGS_def c_setEFLAGS_def Let_def)

lemma stack_regs: "CCPU_CPL (change_SP z s) = CCPU_CPL s" "CCPU_SR (change_SP z s) = CCPU_SR s" "CCPU_CPL (set_current_SP z s) = CCPU_CPL s" "CCPU_SR (set_current_SP z s) = CCPU_SR s"
  by (simp_all add: change_SP_def set_current_SP_def set_stack_reg_def SET_WR_def SET_GR_def Let_def)

lemma CS_is: "triple (not_below k) (at_level k) (set_cs_ip gmi sel a e ip) (\<lambda>_. code_is k sel)"
  unfolding set_cs_ip_def load_CS_cache_def
proof (rule triple_bind [where R = "\<lambda>_. code_is k sel"], rule triple_get, rule triple_if)
  fix c :: "'a core" assume "at_level k (core_cpu c)" "real_mode (core_cpu c)"
  then show "triple (not_below k) (at_level k) (m_cpu f) (\<lambda>_. code_is k sel)" for f by (simp add: at_level_def)
next
  have "triple (not_below k) (at_level k) (m_cpu (set_sr 1 (code_cache sel d))) (\<lambda>_. code_is k sel)" for d
    by (rule triple_cpu) (simp add: code_is_def at_level_def code_cache_def)
  then show "triple (not_below k) (at_level k) (m_bind (mark_accessed gmi a e) (\<lambda>d. m_cpu (set_sr 1 (code_cache sel d)))) (\<lambda>_. code_is k sel)"
    by (rule level_first [OF keeps_descr(2) order_refl])
next
  show "triple (not_below k) (code_is k sel) (m_cpu (SET_EIP ip)) (\<lambda>_. code_is k sel)" for x :: unit
    by (rule triple_cpu) (simp add: code_is_def SET_EIP_def)
qed

lemma iret_same_level_returns:
  assumes "GET_SELECTOR_RPL new_cs = k"
  shows "triple (not_below k) (at_level k) (iret_same_level gmi new_ip new_cs new_flags) (\<lambda>_. returned k)"
proof -
  have "triple (not_below k) (code_is k new_cs) (m_cpu (\<lambda>s. set_current_FLAGS new_flags (change_SP 3 s))) (\<lambda>_. returned k)"
    by (rule triple_cpu) (use assms in \<open>simp add: code_is_def returned_def flags_regs stack_regs\<close>)
  note rest = triple_bind [OF CS_is this]
  show ?thesis unfolding iret_same_level_def
    by (intro triple_split triple_limit order_refl rest | rule level_first [OF _ order_refl], (rule keeps_intro)+)+
qed

lemma iret_lower_returns:
  assumes "k < GET_SELECTOR_RPL new_cs"
  shows "triple (not_below k) (at_level k) (iret_lower_privilege gmi new_ip new_cs new_flags) (\<lambda>_. returned k)"
proof -
  let ?p = "GET_SELECTOR_RPL new_cs" and ?C = "code_is k new_cs"
  have fl: "triple (not_below k) ?C (m_cpu (set_current_FLAGS new_flags)) (\<lambda>_. ?C)" by (rule triple_cpu) (simp add: code_is_def flags_regs)
  have ss: "triple (not_below k) ?C (m_cpu (set_sr 2 g)) (\<lambda>_. ?C)" for g by (rule triple_cpu) (simp add: code_is_def)
  have fin: "triple (not_below k) ?C (m_cpu (\<lambda>s. data_segs_new_privilege (SET_CPL ?p (set_current_SP x s)))) (\<lambda>_. returned k)" for x
    by (rule triple_cpu) (use assms in \<open>simp add: code_is_def returned_def data_segs_visible data_segs_new_privilege_def new_privilege_sel SET_CPL_def stack_regs\<close>,
      simp add: data_segs_visible [unfolded data_segs_new_privilege_def])
  have keep: "triple (not_below k) ?C (m_bind p f) Q" if "keeps p" "\<And>x. triple (not_below k) ?C (f x) Q" for p f Q
    by (rule triple_first [OF that(1) code_is_cond _ that(2)]) (simp add: code_is_def)
  have SS: "triple (not_below k) ?C (load_SS_cache gmi x a e) (\<lambda>_. ?C)" for x a e
    unfolding load_SS_cache_def by (intro keep keeps_intro ss)
  note rest = triple_bind [OF CS_is triple_bind [OF fl keep [OF keeps_tpop triple_bind [OF SS fin]]]]
  show ?thesis unfolding iret_lower_privilege_def Let_def
    by (intro triple_split triple_limit order_refl rest | rule level_first [OF _ order_refl], (rule keeps_intro)+)+
qed

text \<open>Into virtual 8086 mode, from level 0 only.\<close>

abbreviation v86 :: "ccpu \<Rightarrow> bool" where "v86 s \<equiv> GET_VM s = 1"

lemma v86_cond: "register_cond v86"
  unfolding register_cond_def by (metis regs_eq(7))

lemma v86_first: "keeps p \<Longrightarrow> (\<And>x. triple (not_below 0) v86 (f x) Q) \<Longrightarrow> triple (not_below 0) v86 (m_bind p f) Q"
  by (rule triple_first) (simp_all add: v86_cond)

lemma v86_seg: "triple (not_below 0) v86 (m_cpu (set_sr i g)) (\<lambda>_. v86)" 
  by (rule triple_cpu) (simp add: set_sr_def)

lemma v86_loads:
  "triple (not_below 0) v86 (load_data_seg gmi i x) (\<lambda>_. v86)" "triple (not_below 0) v86 (load_stack_seg gmi x) (\<lambda>_. v86)" "triple (not_below 0) v86 (load_CS_cache gmi x a e) (\<lambda>_. v86)"
  unfolding load_data_seg_def load_stack_seg_def load_CS_cache_def by (rule triple_get; simp add: v86_seg; rule triple_cpu; simp add: set_sr_def)+

lemma v86_pop: "triple (not_below 0) v86 (pop_data_seg gmi i x) (\<lambda>_. v86)"
  unfolding pop_data_seg_def by (intro v86_first keeps_intro v86_loads)

lemma v86_entered:
  assumes "new_flags AND 0x20000 \<noteq> 0"
  shows "triple (not_below 0) (at_level 0) (iret_to_v86 gmi new_ip new_cs new_flags) (\<lambda>_. v86)"
proof -
  have e: "triple (not_below 0) (at_level 0) (m_cpu (\<lambda>s. SET_CPL 3 (c_setEFLAGS new_flags s))) (\<lambda>_. v86)"
    by (rule triple_cpu) (use assms in \<open>simp add: at_level_def SET_CPL_def c_setEFLAGS_def setFLAGS_def Let_def\<close>)
  have i: "triple (not_below 0) v86 (m_cpu (\<lambda>s. SET_EIP x (set_sr 1 g s))) (\<lambda>_. v86)" for x g by (rule triple_cpu) (simp add: SET_EIP_def set_sr_def)
  have f: "triple (not_below 0) v86 (m_cpu (\<lambda>s. load_pseudo_descr 5 (load_pseudo_descr 4 (load_pseudo_descr 0 (load_pseudo_descr 3 (load_pseudo_descr 2
            (set_current_SP x s))))))) (\<lambda>_. v86)" for x
    by (rule triple_cpu) (simp add: load_pseudo_descr_def set_sr_def set_current_SP_def set_stack_reg_def SET_WR_def SET_GR_def)
  note rest = triple_bind [OF e triple_bind [OF v86_loads(3) triple_bind [OF i v86_first [OF keeps_tpop v86_first [OF keeps_tpop
    triple_bind [OF v86_pop triple_bind [OF v86_pop triple_bind [OF v86_pop triple_bind [OF v86_pop triple_bind [OF v86_loads(2) f]]]]]]]]]]
  show ?thesis unfolding iret_to_v86_def
    by (rule level_first [OF keeps_validate(2) order_refl]) (intro triple_limit order_refl rest)
qed

lemma iret_same_task_returns:
  "triple (not_below k) (at_level k) (iret_same_task gmi new_ip new_cs flags) (\<lambda>_ s. returned k s \<or> k = 0 \<and> v86 s)"
  unfolding iret_same_task_def Let_def
proof (rule triple_get, intro triple_if)
  let ?Q = "\<lambda>_ s. returned k s \<or> k = 0 \<and> v86 s"
  fix c :: "'a core" assume at: "at_level k (core_cpu c)"
  let ?f = "if CCPU_CPL (core_cpu c) \<noteq> 0 then flags AND NOT 0x20000 else flags"
  show "triple (not_below k) (at_level k) (iret_to_v86 gmi new_ip new_cs ?f) ?Q" if f: "?f AND 0x20000 \<noteq> 0"
  proof -
    have z: "(flags AND NOT 0x20000) AND 0x20000 = 0" by (simp add: and.assoc)
    have "CCPU_CPL (core_cpu c) = 0"
    proof (rule ccontr)
      assume n: "CCPU_CPL (core_cpu c) \<noteq> 0"
      show False using f unfolding if_P [OF n] z by (rule notE) (rule refl)
    qed
    then have "k = 0" using at by (simp add: at_level_def)
    then show ?thesis unfolding \<open>k = 0\<close> by (intro triple_weaken [OF v86_entered [OF f]] conjI disjI2 refl)
  qed
  show "triple (not_below k) (at_level k) (m_fault (GP new_cs)) ?Q" by (rule triple_fault) (simp add: at_level_def)
  show "triple (not_below k) (at_level k) (iret_same_level gmi new_ip new_cs ?f) ?Q" if "GET_SELECTOR_RPL new_cs = CCPU_CPL (core_cpu c)"
    using at that by (intro triple_weaken [OF iret_same_level_returns]) (auto simp: at_level_def)
  show "triple (not_below k) (at_level k) (iret_lower_privilege gmi new_ip new_cs ?f) ?Q"
    if "\<not> GET_SELECTOR_RPL new_cs < CCPU_CPL (core_cpu c)" "GET_SELECTOR_RPL new_cs \<noteq> CCPU_CPL (core_cpu c)"
    using at that by (intro triple_weaken [OF iret_lower_returns]) (auto simp: at_level_def)
qed

lemma IRET_returns:
  "triple (not_below k) (\<lambda>s. at_level k s \<and> GET_NT s \<noteq> 1) (IRET gmi junk) (\<lambda>_ s. returned k s \<or> k = 0 \<and> v86 s)"
proof -
  have "triple (not_below k) (at_level k) (m_bind (int_frame gmi) (\<lambda>(new_ip, new_cs, flags). iret_same_task gmi new_ip new_cs flags)) (\<lambda>_ s. returned k s \<or> k = 0 \<and> v86 s)"
    by (rule level_first [OF keeps_more(3) order_refl]) (intro triple_split iret_same_task_returns)
  then have "triple (not_below k) (\<lambda>s. at_level k s \<and> GET_NT s \<noteq> 1) (m_bind (int_frame gmi) (\<lambda>(new_ip, new_cs, flags). iret_same_task gmi new_ip new_cs flags))
      (\<lambda>_ s. returned k s \<or> k = 0 \<and> v86 s)" by (rule triple_weaken) simp_all
  then show ?thesis unfolding IRET_def by (intro triple_get) (simp add: at_level_def)
qed

section \<open>The code segment returned to\<close>

text \<open>
  The rule for the descriptor of a return to level \<open>p\<close>, on its access byte: present, code, and at that level, or, if conforming, at that level or a more privileged one.
\<close>

definition may_return_to :: "IU32 \<Rightarrow> CPU_DESCR \<Rightarrow> bool" where
  "may_return_to p e = (let AR = descr_AR e; dpl = GET_AR_DPL AR
     in AR AND 0x80 \<noteq> 0 \<and> AR AND 0x18 = 0x18 \<and> (if AR AND 4 \<noteq> 0 then dpl \<le> p else dpl = p))"

lemma code_types:
  fixes AR :: IU16
  shows "(descriptor_super_type AR \<in> {CONFORM_NOREAD_CODE, CONFORM_READABLE_CODE}) = (AR AND 0x18 = 0x18 \<and> AR AND 4 \<noteq> 0)"
    "(descriptor_super_type AR \<in> {NONCONFORM_NOREAD_CODE, NONCONFORM_READABLE_CODE}) = (AR AND 0x18 = 0x18 \<and> AR AND 4 = 0)"
proof -
  have "unat (AR AND 0x1f) < 32"
  proof -
    have "AR AND 0x1f \<le> (0x1f :: IU16)" by (rule word_and_le1)
    then show ?thesis by (simp add: word_le_nat_alt)
  qed
  then have "unat (AR AND 0x1f) \<in> set [0..<32]" by simp
  moreover have "AR AND 0x1f = of_nat (unat (AR AND 0x1f))" by simp
  ultimately obtain v where v: "v \<in> set [0..<32]" "AR AND 0x1f = of_nat v" by blast
  have m: "AR AND 0x18 = (AR AND 0x1f) AND 0x18" "AR AND 4 = (AR AND 0x1f) AND 4" by (simp_all add: and.assoc)
  have "\<forall>v \<in> set [0..<32]. \<forall>AR :: IU16. AR AND 0x1f = of_nat v \<longrightarrow>
      (descriptor_super_type AR \<in> {CONFORM_NOREAD_CODE, CONFORM_READABLE_CODE}) = (of_nat v AND (0x18 :: IU16) = 0x18 \<and> of_nat v AND (4 :: IU16) \<noteq> 0) \<and>
      (descriptor_super_type AR \<in> {NONCONFORM_NOREAD_CODE, NONCONFORM_READABLE_CODE}) = (of_nat v AND (0x18 :: IU16) = 0x18 \<and> of_nat v AND (4 :: IU16) = 0)"
    by (simp add: upt_rec descriptor_super_type_def Let_def)
  from bspec [OF this v(1), THEN spec, THEN mp, OF v(2)] show "(descriptor_super_type AR \<in> {CONFORM_NOREAD_CODE, CONFORM_READABLE_CODE}) = (AR AND 0x18 = 0x18 \<and> AR AND 4 \<noteq> 0)"
    "(descriptor_super_type AR \<in> {NONCONFORM_NOREAD_CODE, NONCONFORM_READABLE_CODE}) = (AR AND 0x18 = 0x18 \<and> AR AND 4 = 0)"
    unfolding m v(2) by (simp_all only: simp_thms)
qed

lemma return_code_permits: "(return_code_check sel e = None) = may_return_to (GET_SELECTOR_RPL sel) e"
  using code_types [of "descr_AR e"] by (auto simp: return_code_check_def may_return_to_def Let_def GET_AR_DPL_def GET_AR_P_def)

text \<open>The code segment register holds the descriptor, and the instruction pointer is within its limit.\<close>

definition code_from :: "CPU_DESCR \<Rightarrow> ccpu \<Rightarrow> bool" where
  "code_from e s = (sr_base (CS s) = descr_base e \<and> sr_limit (CS s) = descr_limit e \<and> sr_ar_dpl (CS s) = GET_AR_DPL (descr_AR e) \<and>
     sr_ar_c (CS s) = GET_AR_C (descr_AR e) \<and> CCPU_IP s \<le> descr_limit e)"

definition code_in :: "IU16 \<Rightarrow> CPU_DESCR \<Rightarrow> ccpu \<Rightarrow> bool" where
  "code_in sel e s = (sr_selector (CS s) = sel \<and> code_from e s)"

abbreviation anywhere :: "ccpu \<Rightarrow> bool" where "anywhere \<equiv> \<lambda>_. True"

lemma code_in_cond: "register_cond (code_in sel e)"
  unfolding register_cond_def code_in_def code_from_def by (metis regs_eq(1,3))

lemma protected_cond: "register_cond (\<lambda>s. \<not> real_mode s)"
  unfolding register_cond_def by (metis regs_eq(7) regs_eq(9) zero_neq_numeral)

lemma code_in_same:
  assumes "CCPU_SR s' 1 = CCPU_SR s 1" "CCPU_IP s' = CCPU_IP s" shows "code_in sel e s' = code_in sel e s"
  using assms by (simp add: code_in_def code_from_def)

lemma accessed_AR: "GET_AR_DPL (AR OR 1) = GET_AR_DPL AR" "GET_AR_C (AR OR 1) = GET_AR_C AR"
proof -
  have "(AR OR 1) AND 0x60 = AR AND 0x60" "(AR OR 1) AND 4 = AR AND 4" by (simp_all add: bit.conj_disj_distrib2)
  then show "GET_AR_DPL (AR OR 1) = GET_AR_DPL AR" "GET_AR_C (AR OR 1) = GET_AR_C AR" by (simp_all only: GET_AR_DPL_def GET_AR_C_def)
qed

text \<open>Every later step of a return leaves the code segment and the instruction pointer alone.\<close>

lemma in_first: "keeps p \<Longrightarrow> (\<And>x. triple anywhere (code_in sel e) (f x) Q) \<Longrightarrow> triple anywhere (code_in sel e) (m_bind p f) Q"
  by (rule triple_first [OF _ code_in_cond]) simp_all

lemma in_cpu: "(\<And>s. CCPU_SR (g s) 1 = CCPU_SR s 1 \<and> CCPU_IP (g s) = CCPU_IP s) \<Longrightarrow> triple anywhere (code_in sel e) (m_cpu g) (\<lambda>_. code_in sel e)"
  by (rule triple_cpu) (metis code_in_same)

lemma in_SS: "triple anywhere (code_in sel e) (load_SS_cache gmi x a d) (\<lambda>_. code_in sel e)"
  unfolding load_SS_cache_def by (rule in_first [OF keeps_descr(2)], rule in_cpu) (simp add: set_sr_def)

lemma IP_stack: "CCPU_IP (change_SP z s) = CCPU_IP s" "CCPU_IP (byte_change_SP y s) = CCPU_IP s" "CCPU_IP (set_current_SP z s) = CCPU_IP s"
  by (simp_all add: change_SP_def byte_change_SP_def set_current_SP_def set_stack_reg_def SET_WR_def SET_GR_def Let_def)

lemma IP_flags: "CCPU_IP (set_current_FLAGS x s) = CCPU_IP s"
proof -
  have "CCPU_IP (SET_FLAG i v t) = CCPU_IP t" for i v t by (simp add: SET_FLAG_def)
  then show ?thesis by (simp add: set_current_FLAGS_def setFLAGS_def c_setEFLAGS_def Let_def)
qed

lemma IP_level: "CCPU_IP (SET_CPL p s) = CCPU_IP s" "CCPU_SR (SET_CPL p s) = CCPU_SR s"
  by (simp_all add: SET_CPL_def)

lemma IP_segs: "CCPU_IP (data_segs_new_privilege s) = CCPU_IP s" "CCPU_SR (data_segs_new_privilege s) 1 = CCPU_SR s 1"
proof -
  have "CCPU_IP (load_data_seg_new_privilege j t) = CCPU_IP t" for j t by (simp add: load_data_seg_new_privilege_def set_sr_def Let_def)
  then show "CCPU_IP (data_segs_new_privilege s) = CCPU_IP s" unfolding data_segs_new_privilege_def by metis
  show "CCPU_SR (data_segs_new_privilege s) 1 = CCPU_SR s 1" by (simp add: data_segs_new_privilege_def new_privilege_sel)
qed

lemmas IP_regs = IP_stack IP_flags IP_level IP_segs

lemma in_CS:
  assumes "ip \<le> descr_limit e"
  shows "triple anywhere (\<lambda>s. \<not> real_mode s) (set_cs_ip gmi sel a e ip) (\<lambda>_. code_in sel e)"
proof -
  let ?R = "\<lambda>s. sr_selector (CS s) = sel \<and> sr_base (CS s) = descr_base e \<and> sr_limit (CS s) = descr_limit e \<and> sr_ar_dpl (CS s) = GET_AR_DPL (descr_AR e) \<and> sr_ar_c (CS s) = GET_AR_C (descr_AR e)"
  have "triple anywhere (\<lambda>s. \<not> real_mode s) (load_CS_cache gmi sel a e) (\<lambda>_. ?R)" unfolding load_CS_cache_def
  proof (rule triple_get)
    fix c :: "'a core" assume r: "\<not> real_mode (core_cpu c)"
    have w: "triple anywhere (\<lambda>s. \<not> real_mode s) (m_bind (spr_write_byte gmi (a + 5) x) (\<lambda>_. m_cpu (set_sr 1 (code_cache sel (e\<lparr>descr_AR := descr_AR e OR 1\<rparr>))))) (\<lambda>_. ?R)" for x
      by (rule triple_first [OF keeps_accesses(9) protected_cond], simp, rule triple_cpu) (simp add: set_sr_def code_cache_def accessed_AR)
    have "m_bind (mark_accessed gmi a e) (\<lambda>e. m_cpu (set_sr 1 (code_cache sel e))) =
        m_bind (spr_write_byte gmi (a + 5) (ucast (descr_AR e) OR 1)) (\<lambda>_. m_cpu (set_sr 1 (code_cache sel (e\<lparr>descr_AR := descr_AR e OR 1\<rparr>))))"
      by (simp add: mark_accessed_def m_bind_def m_ret_def fun_eq_iff split: option.split sum.split)
    then show "triple anywhere (\<lambda>s. \<not> real_mode s) (if real_mode (core_cpu c) then m_cpu (\<lambda>s. set_sr 1 (\<lambda>r. r\<lparr>sr_selector := sel, sr_base := push_bit 4 (ucast sel), sr_ar_w := 1, sr_ar_r := 1,
            sr_ar_e := 0, sr_ar_c := 0, sr_ar_x := 0, sr_ar_dpl := (if GET_VM s = 1 then 3 else 0)\<rparr>) s)
          else m_bind (mark_accessed gmi a e) (\<lambda>e. m_cpu (set_sr 1 (code_cache sel e)))) (\<lambda>_. ?R)" using w r by simp
  qed
  moreover have "triple anywhere ?R (m_cpu (SET_EIP ip)) (\<lambda>_. code_in sel e)"
    by (rule triple_cpu) (use assms in \<open>simp add: code_in_def code_from_def SET_EIP_def\<close>)
  ultimately show ?thesis unfolding set_cs_ip_def by (rule triple_bind)
qed

lemma in_limit:
  "(\<not> b \<Longrightarrow> triple anywhere P p Q) \<Longrightarrow> triple anywhere P (if b then m_fault f else p) Q"
  by (intro triple_if triple_fault) simp_all

lemma in_protected: "keeps p \<Longrightarrow> (\<And>x. triple anywhere (\<lambda>s. \<not> real_mode s) (f x) Q) \<Longrightarrow> triple anywhere (\<lambda>s. \<not> real_mode s) (m_bind p f) Q"
  by (rule triple_first [OF _ protected_cond]) simp_all

text \<open>The states from which the descriptor is read: only the stack has been looked at before.\<close>

inductive reading :: "'v gmi \<Rightarrow> 'v core \<Rightarrow> 'v core \<Rightarrow> bool" for gmi where
  start: "reading gmi c c"
| exists: "reading gmi c c1 \<Longrightarrow> validate_stack_exists gmi b n c1 = Some (Inr u, c2) \<Longrightarrow> reading gmi c c2"
| pop: "reading gmi c c1 \<Longrightarrow> tpop gmi i x c1 = Some (Inr y, c2) \<Longrightarrow> reading gmi c c2"

lemma reading_keeps: "reading gmi c c1 \<Longrightarrow> regs (core_cpu c1) = regs (core_cpu c)"
  by (induction rule: reading.induct) (use keeps_tpop keeps_validate(2) in \<open>fastforce simp: keeps_def\<close>)+

text \<open>The segment of the selector in \<open>CS\<close>, as its descriptor was found in its table, is one a return to the current level may enter.\<close>

definition code_permitted :: "'v gmi \<Rightarrow> 'v core \<Rightarrow> ccpu \<Rightarrow> bool" where
  "code_permitted gmi c s = (\<exists>c1 c2 a e. reading gmi c c1 \<and> selector_outside_GDT_LDT (sr_selector (CS s)) (core_cpu c1) = Some a \<and>
     read_descr gmi a c1 = Some (Inr e, c2) \<and> may_return_to (GET_SELECTOR_RPL (sr_selector (CS s))) e \<and> code_from e s)"

lemma bind_done: "m_bind p f c = Some (Inr y, c') \<Longrightarrow> \<exists>x c1. p c = Some (Inr x, c1) \<and> f x c1 = Some (Inr y, c')"
  by (auto simp: m_bind_def split: option.splits sum.splits)

lemma return_code_done:
  assumes "return_code gmi sel c1 = Some (Inr (a, e), c2)"
  shows "selector_outside_GDT_LDT sel (core_cpu c1) = Some a \<and> read_descr gmi a c1 = Some (Inr e, c2) \<and> may_return_to (GET_SELECTOR_RPL sel) e"
  using assms by (auto simp: return_code_def m_get_def m_fault_def m_ret_def m_bind_def return_code_permits [symmetric] split: option.splits sum.splits)

lemma permitted:
  assumes "reading gmi c c1" "m_bind (return_code gmi sel) (\<lambda>(a, e). f a e) c1 = Some (Inr y, c')" "\<not> real_mode (core_cpu c)"
    and "\<And>a e. triple anywhere (\<lambda>s. \<not> real_mode s) (f a e) (\<lambda>_. code_in sel e)"
  shows "code_permitted gmi c (core_cpu c') \<and> sr_selector (CS (core_cpu c')) = sel"
proof -
  obtain a e c2 where r: "return_code gmi sel c1 = Some (Inr (a, e), c2)" "f a e c2 = Some (Inr y, c')" using bind_done [OF assms(2)] by auto
  have "regs (core_cpu c2) = regs (core_cpu c)" using reading_keeps [OF assms(1)] keeps_more(2) [of gmi sel] r(1) by (simp add: keeps_def)
  then have "\<not> real_mode (core_cpu c2)" using protected_cond assms(3) unfolding register_cond_def by blast
  then have "code_in sel e (core_cpu c')" using assms(4) [of a e] r(2) unfolding triple_def by fastforce
  then show ?thesis using return_code_done [OF r(1)] assms(1) unfolding code_permitted_def code_in_def by blast
qed

text \<open>A return within the level leaves the other segment registers alone.\<close>

definition other_segs :: "(nat \<Rightarrow> SEGMENT_REGISTER) \<Rightarrow> ccpu \<Rightarrow> bool" where
  "other_segs d s = (\<forall>i. i \<noteq> 1 \<longrightarrow> CCPU_SR s i = d i)"

lemma segs_cond: "register_cond (\<lambda>s. \<not> real_mode s \<and> other_segs d s)"
  using protected_cond unfolding register_cond_def other_segs_def by (metis regs_eq(1))

lemma segs_first: "keeps p \<Longrightarrow> (\<And>x. triple anywhere (\<lambda>s. \<not> real_mode s \<and> other_segs d s) (f x) Q) \<Longrightarrow> triple anywhere (\<lambda>s. \<not> real_mode s \<and> other_segs d s) (m_bind p f) Q"
  by (rule triple_first [OF _ segs_cond]) simp_all

lemma segs_CS: "triple anywhere (\<lambda>s. \<not> real_mode s \<and> other_segs d s) (set_cs_ip gmi sel a e ip) (\<lambda>_. other_segs d)"
  unfolding set_cs_ip_def load_CS_cache_def
proof (rule triple_bind [where R = "\<lambda>_. other_segs d"], rule triple_get, rule triple_if)
  show "triple anywhere (\<lambda>s. \<not> real_mode s \<and> other_segs d s) (m_cpu (\<lambda>s. set_sr 1 (f s) s)) (\<lambda>_. other_segs d)" for f
    by (rule triple_cpu) (simp add: other_segs_def)
  have "triple anywhere (\<lambda>s. \<not> real_mode s \<and> other_segs d s) (m_cpu (set_sr 1 (code_cache sel x))) (\<lambda>_. other_segs d)" for x
    by (rule triple_cpu) (simp add: other_segs_def)
  then show "triple anywhere (\<lambda>s. \<not> real_mode s \<and> other_segs d s) (m_bind (mark_accessed gmi a e) (\<lambda>e. m_cpu (set_sr 1 (code_cache sel e)))) (\<lambda>_. other_segs d)"
    by (rule segs_first [OF keeps_descr(2)])
  show "triple anywhere (other_segs d) (m_cpu (SET_EIP ip)) (\<lambda>_. other_segs d)" for x :: unit
    by (rule triple_cpu) (simp add: other_segs_def SET_EIP_def)
qed

lemma same_level_segs:
  "triple anywhere (\<lambda>s. \<not> real_mode s \<and> other_segs d s) (retf_same_level gmi op1 new_ip new_cs) (\<lambda>_. other_segs d)"
  "triple anywhere (\<lambda>s. \<not> real_mode s \<and> other_segs d s) (iret_same_level gmi new_ip new_cs new_flags) (\<lambda>_. other_segs d)"
proof -
  have g: "triple anywhere (other_segs d) (m_cpu g) (\<lambda>_. other_segs d)" if "\<And>s. CCPU_SR (g s) = CCPU_SR s" for g
    by (rule triple_cpu) (simp add: other_segs_def that)
  have "triple anywhere (\<lambda>s. \<not> real_mode s \<and> other_segs d s) (m_bind (set_cs_ip gmi new_cs a e new_ip) (\<lambda>_. release_stack 2 op1)) (\<lambda>_. other_segs d)" for a e
    unfolding release_stack_def by (rule triple_bind [OF segs_CS g]) (simp add: stack_regs)
  then show "triple anywhere (\<lambda>s. \<not> real_mode s \<and> other_segs d s) (retf_same_level gmi op1 new_ip new_cs) (\<lambda>_. other_segs d)"
    unfolding retf_same_level_def by (intro segs_first [OF keeps_more(2)] triple_split in_limit)
  have "triple anywhere (\<lambda>s. \<not> real_mode s \<and> other_segs d s) (m_bind (set_cs_ip gmi new_cs a e new_ip) (\<lambda>_. m_cpu (\<lambda>s. set_current_FLAGS new_flags (change_SP 3 s)))) (\<lambda>_. other_segs d)" for a e
    by (rule triple_bind [OF segs_CS g]) (simp add: stack_regs flags_regs)
  then show "triple anywhere (\<lambda>s. \<not> real_mode s \<and> other_segs d s) (iret_same_level gmi new_ip new_cs new_flags) (\<lambda>_. other_segs d)"
    unfolding iret_same_level_def by (intro segs_first [OF keeps_more(2)] triple_split in_limit)
qed

text \<open>The four ways to return, from a state in which only the stack has been read.\<close>

lemma in_release: "triple anywhere (code_in sel e) (release_stack x y) (\<lambda>_. code_in sel e)"
  unfolding release_stack_def by (rule in_cpu) (simp add: IP_regs stack_regs)

lemma retf_same_permitted:
  assumes "reading gmi c c1" "\<not> real_mode (core_cpu c)" "retf_same_level gmi op1 new_ip new_cs c1 = Some (Inr y, c')"
  shows "code_permitted gmi c (core_cpu c') \<and> sr_selector (CS (core_cpu c')) = new_cs"
  by (rule permitted [OF assms(1) assms(3) [unfolded retf_same_level_def] assms(2)])
    (rule in_limit, rule triple_bind [OF in_CS in_release], simp)

lemma iret_same_permitted:
  assumes "reading gmi c c1" "\<not> real_mode (core_cpu c)" "iret_same_level gmi new_ip new_cs new_flags c1 = Some (Inr y, c')"
  shows "code_permitted gmi c (core_cpu c') \<and> sr_selector (CS (core_cpu c')) = new_cs"
  by (rule permitted [OF assms(1) assms(3) [unfolded iret_same_level_def] assms(2)])
    (rule in_limit, rule triple_bind [OF in_CS in_cpu], simp, simp add: IP_regs stack_regs flags_regs)

lemma protected_level: "triple anywhere (\<lambda>s. \<not> real_mode s) (m_cpu (SET_CPL p)) (\<lambda>_ s. \<not> real_mode s)"
  by (rule triple_cpu) (simp add: SET_CPL_def)

lemma retf_lower_permitted:
  assumes "reading gmi c c1" "\<not> real_mode (core_cpu c)" "retf_lower_privilege gmi op1 n new_ip new_cs c1 = Some (Inr y, c')"
  shows "code_permitted gmi c (core_cpu c') \<and> sr_selector (CS (core_cpu c')) = new_cs"
proof -
  let ?p = "GET_SELECTOR_RPL new_cs"
  obtain u c2 where c2: "validate_stack_exists gmi False (4 + n) c1 = Some (Inr u, c2)"
    and r: "m_bind (return_code gmi new_cs) (\<lambda>(cs_descr_addr, cs_entry).
     m_bind (tpop gmi 3 op1) (\<lambda>ss_item. 
     m_bind (check_SS gmi (ucast ss_item) ?p) (\<lambda>(ss_descr_addr, ss_entry).
     if descr_limit cs_entry < new_ip then m_fault (GP 0)
     else m_bind (m_cpu (SET_CPL ?p)) (\<lambda>_.
          m_bind (set_cs_ip gmi new_cs cs_descr_addr cs_entry new_ip) (\<lambda>_.
          m_bind (tpop gmi 2 op1) (\<lambda>new_sp.
          m_bind (load_SS_cache gmi (ucast ss_item) ss_descr_addr ss_entry) (\<lambda>_.
          m_bind (m_cpu (set_current_SP new_sp)) (\<lambda>_.
          m_bind (m_cpu data_segs_new_privilege) (\<lambda>_. release_stack 0 op1))))))))) c2 = Some (Inr y, c')"
    using bind_done [OF assms(3) [unfolded retf_lower_privilege_def Let_def]] by blast
  have sp: "triple anywhere (code_in new_cs e) (m_cpu (set_current_SP x)) (\<lambda>_. code_in new_cs e)" for e x by (rule in_cpu) (simp add: IP_regs stack_regs)
  have ds: "triple anywhere (code_in new_cs e) (m_cpu data_segs_new_privilege) (\<lambda>_. code_in new_cs e)" for e by (rule in_cpu) (simp add: IP_segs del: One_nat_def)
  show ?thesis
    by (rule permitted [OF reading.exists [OF assms(1) c2] r assms(2)])
      (rule in_protected [OF keeps_tpop], rule in_protected [OF keeps_more(1)], rule triple_split, rule in_limit,
        rule triple_bind [OF protected_level triple_bind [OF in_CS in_first [OF keeps_tpop triple_bind [OF in_SS triple_bind [OF sp triple_bind [OF ds in_release]]]]]], simp)
qed

lemma iret_lower_permitted:
  assumes "reading gmi c c1" "\<not> real_mode (core_cpu c)" "iret_lower_privilege gmi new_ip new_cs new_flags c1 = Some (Inr y, c')"
  shows "code_permitted gmi c (core_cpu c') \<and> sr_selector (CS (core_cpu c')) = new_cs"
proof -
  let ?p = "GET_SELECTOR_RPL new_cs"
  obtain u c2 where c2: "validate_stack_exists gmi False 5 c1 = Some (Inr u, c2)"
    and r: "m_bind (return_code gmi new_cs) (\<lambda>(cs_descr_addr, cs_entry).
     m_bind (tpop gmi 4 0) (\<lambda>ss_item.
     m_bind (check_SS gmi (ucast ss_item) ?p) (\<lambda>(ss_descr_addr, ss_entry).
     if descr_limit cs_entry < new_ip then m_fault (GP 0)
     else m_bind (set_cs_ip gmi new_cs cs_descr_addr cs_entry new_ip) (\<lambda>_.
          m_bind (m_cpu (set_current_FLAGS new_flags)) (\<lambda>_.
          m_bind (tpop gmi 3 0) (\<lambda>new_sp.
          m_bind (load_SS_cache gmi (ucast ss_item) ss_descr_addr ss_entry) (\<lambda>_.
          m_cpu (\<lambda>s. data_segs_new_privilege (SET_CPL ?p (set_current_SP new_sp s))))))))))
      c2 = Some (Inr y, c')"
    using bind_done [OF assms(3) [unfolded iret_lower_privilege_def Let_def]] by blast
  have fl: "triple anywhere (code_in new_cs e) (m_cpu (set_current_FLAGS new_flags)) (\<lambda>_. code_in new_cs e)" for e by (rule in_cpu) (simp add: IP_regs flags_regs)
  have fin: "triple anywhere (code_in new_cs e) (m_cpu (\<lambda>s. data_segs_new_privilege (SET_CPL ?p (set_current_SP x s)))) (\<lambda>_. code_in new_cs e)" for e x
    by (rule in_cpu) (simp add: IP_regs stack_regs del: One_nat_def)
  show ?thesis
    by (rule permitted [OF reading.exists [OF assms(1) c2] r assms(2)])
      (rule in_protected [OF keeps_tpop], rule in_protected [OF keeps_more(1)], rule triple_split, rule in_limit,
        rule triple_bind [OF in_CS triple_bind [OF fl in_first [OF keeps_tpop triple_bind [OF in_SS fin]]]], simp)
qed

text \<open>A legal return, from the machine \<open>c\<close>.\<close>

definition legal_return :: "'v gmi \<Rightarrow> 'v core \<Rightarrow> ccpu \<Rightarrow> bool" where
  "legal_return gmi c s = (returned (CCPU_CPL (core_cpu c)) s \<and> code_permitted gmi c s \<and>
     (CCPU_CPL s = CCPU_CPL (core_cpu c) \<longrightarrow> other_segs (CCPU_SR (core_cpu c)) s))"

lemma reading_level: "reading gmi c c1 \<Longrightarrow> real_mode (core_cpu c1) = real_mode (core_cpu c) \<and> CCPU_CPL (core_cpu c1) = CCPU_CPL (core_cpu c) \<and> CCPU_SR (core_cpu c1) = CCPU_SR (core_cpu c)"
  using regs_eq(1,6,7) [OF reading_keeps, of gmi c c1] regs_eq(9) [OF reading_keeps, of gmi c c1 0] by simp

lemma RETF_legal:
  assumes "RETF gmi op1 c = Some (Inr y, c')" "\<not> real_mode (core_cpu c)" "returned (CCPU_CPL (core_cpu c)) (core_cpu c')"
  shows "legal_return gmi c (core_cpu c')"
proof -
  define T where "T = (\<lambda>ip (item :: IU32). m_get (\<lambda>c. let s = core_cpu c; new_cs = ucast item; privilege = GET_SELECTOR_RPL new_cs; stk_item = unat op1 div (if OPERAND_SIZE s = 0 then 2 else 4) in
      if real_mode s then m_bind (set_cs_ip gmi new_cs 0 no_descr ip) (\<lambda>_. release_stack 2 op1) else if privilege < CCPU_CPL s then m_fault (GP new_cs)
      else if privilege = CCPU_CPL s then retf_same_level gmi op1 ip new_cs else retf_lower_privilege gmi op1 stk_item ip new_cs))"
  have "RETF gmi op1 = m_bind (validate_stack_exists gmi False 2) (\<lambda>_. m_bind (tpop gmi 0 0) (\<lambda>ip. m_bind (tpop gmi 1 0) (T ip)))" by (simp only: RETF_def T_def)
  then obtain u c1 ip c2 item c3 where p: "validate_stack_exists gmi False 2 c = Some (Inr u, c1)" "tpop gmi 0 0 c1 = Some (Inr ip, c2)" "tpop gmi 1 0 c2 = Some (Inr item, c3)"
    and r: "T ip item c3 = Some (Inr y, c')"
    using assms(1) by (auto dest!: bind_done)
  have rd: "reading gmi c c3" by (rule reading.pop [OF reading.pop [OF reading.exists [OF reading.start p(1)] p(2)] p(3)])
  note lv = reading_level [OF rd]
  let ?cs = "ucast item :: IU16"
  consider "GET_SELECTOR_RPL ?cs = CCPU_CPL (core_cpu c)" "retf_same_level gmi op1 ip ?cs c3 = Some (Inr y, c')"
    | n where "GET_SELECTOR_RPL ?cs \<noteq> CCPU_CPL (core_cpu c)" "retf_lower_privilege gmi op1 n ip ?cs c3 = Some (Inr y, c')"
    using r lv assms(2) unfolding T_def m_get_def Let_def
    by (cases "GET_SELECTOR_RPL ?cs < CCPU_CPL (core_cpu c)"; cases "GET_SELECTOR_RPL ?cs = CCPU_CPL (core_cpu c)") (simp_all add: m_fault_def)
  then show ?thesis
  proof cases
    case 1
    have "other_segs (CCPU_SR (core_cpu c)) (core_cpu c3)" using lv by (simp add: other_segs_def)
    then have "other_segs (CCPU_SR (core_cpu c)) (core_cpu c')" using same_level_segs(1) 1(2) lv assms(2) unfolding triple_def by fastforce
    then show ?thesis using retf_same_permitted [OF rd assms(2) 1(2)] assms(3) by (simp add: legal_return_def)
  next
    case 2
    then show ?thesis using retf_lower_permitted [OF rd assms(2) 2(2)] assms(3) by (auto simp: legal_return_def returned_def)
  qed
qed

lemma IRET_legal:
  assumes "IRET gmi junk c = Some (Inr y, c')" "\<not> real_mode (core_cpu c)" "GET_NT (core_cpu c) \<noteq> 1" "returned (CCPU_CPL (core_cpu c)) (core_cpu c')"
  shows "legal_return gmi c (core_cpu c') \<or> CCPU_CPL (core_cpu c) = 0 \<and> GET_VM (core_cpu c') = 1"
proof -
  obtain ip cs fl c3 where p: "int_frame gmi c = Some (Inr (ip, cs, fl), c3)" and r: "iret_same_task gmi ip cs fl c3 = Some (Inr y, c')"
    using assms(1-3) unfolding IRET_def by (auto dest!: bind_done simp: m_get_def)
  have rd: "reading gmi c c3" using p unfolding int_frame_def
    by (auto dest!: bind_done simp: m_ret_def intro!: reading.pop [OF reading.pop [OF reading.pop [OF reading.exists [OF reading.start]]]])
  note lv = reading_level [OF rd]
  define f where "f = (if CCPU_CPL (core_cpu c) \<noteq> 0 then fl AND NOT 0x20000 else fl)"
  have v: "CCPU_CPL (core_cpu c) = 0 \<and> GET_VM (core_cpu c') = 1" if f: "f AND 0x20000 \<noteq> 0" "iret_to_v86 gmi ip cs f c3 = Some (Inr y, c')"
  proof -
    have z: "(fl AND NOT 0x20000) AND 0x20000 = 0" by (simp add: and.assoc)
    have "CCPU_CPL (core_cpu c) = 0"
    proof (rule ccontr)
      assume n: "CCPU_CPL (core_cpu c) \<noteq> 0"
      show False using f(1) unfolding f_def if_P [OF n] z by (rule notE) (rule refl)
    qed
    moreover from this have "at_level 0 (core_cpu c3)" using lv assms(2) by (simp add: at_level_def)
    then have "GET_VM (core_cpu c') = 1" using v86_entered [OF f(1)] f(2) unfolding triple_def by fastforce
    ultimately show ?thesis by simp
  qed
  have "(if f AND 0x20000 \<noteq> 0 then iret_to_v86 gmi ip cs f else if GET_SELECTOR_RPL cs < CCPU_CPL (core_cpu c) then m_fault (GP cs)
      else if GET_SELECTOR_RPL cs = CCPU_CPL (core_cpu c) then iret_same_level gmi ip cs f else iret_lower_privilege gmi ip cs f) c3 = Some (Inr y, c')"
    using r lv by (simp only: iret_same_task_def Let_def m_get_def f_def)
  then consider "GET_SELECTOR_RPL cs = CCPU_CPL (core_cpu c)" "iret_same_level gmi ip cs f c3 = Some (Inr y, c')"
    | "GET_SELECTOR_RPL cs \<noteq> CCPU_CPL (core_cpu c)" "iret_lower_privilege gmi ip cs f c3 = Some (Inr y, c')" | "CCPU_CPL (core_cpu c) = 0 \<and> GET_VM (core_cpu c') = 1"
    using v by (auto simp: m_fault_def split: if_splits)
  then show ?thesis
  proof cases
    case 1
    have "other_segs (CCPU_SR (core_cpu c)) (core_cpu c3)" using lv by (simp add: other_segs_def)
    then have "other_segs (CCPU_SR (core_cpu c)) (core_cpu c')" using same_level_segs(2) 1(2) lv assms(2) unfolding triple_def by fastforce
    then show ?thesis using iret_same_permitted [OF rd assms(2) 1(2)] assms(4) by (simp add: legal_return_def)
  next
    case 2
    then show ?thesis using iret_lower_permitted [OF rd assms(2) 2(2)] assms(4) by (auto simp: legal_return_def returned_def)
  qed simp
qed

text \<open>
  C17. No return gains privilege. In protected mode a far return, or a return from an interrupt within the task, never lowers the number of the current level, not even
  when it faults half way. When it succeeds, the selector of the code segment carries the level reached; the descriptor that the selector names, as it was read from its table after nothing but
  the stack had been looked at, is a present code segment of exactly that level, or a conforming one of that level or a more privileged one; the register holds its base, limit and level, and the
  instruction pointer is within the limit. A return to a less privileged level leaves each data segment register unusable unless the new level may use it, and a return within the level leaves all other segment
  registers as they were. The exception is the return to virtual 8086 mode, and it is possible from level 0 only.
\<close>

theorem returns_never_gain_privilege:
  assumes "\<not> real_mode (core_cpu c)" and k: "k = CCPU_CPL (core_cpu c)"
  shows "(RETF gmi op1 c = Some (r, c') \<longrightarrow> k \<le> CCPU_CPL (core_cpu c') \<and> (r = Inr () \<longrightarrow> legal_return gmi c (core_cpu c'))) \<and>
    (GET_NT (core_cpu c) \<noteq> 1 \<and> IRET gmi junk c = Some (r, c') \<longrightarrow>
       k \<le> CCPU_CPL (core_cpu c') \<and> (r = Inr () \<longrightarrow> legal_return gmi c (core_cpu c') \<or> k = 0 \<and> GET_VM (core_cpu c') = 1))"
proof -
  have at: "at_level k (core_cpu c)" using assms by (simp add: at_level_def)
  have "k \<le> CCPU_CPL (core_cpu c') \<and> (r = Inr () \<longrightarrow> returned k (core_cpu c'))" if "RETF gmi op1 c = Some (r, c')"
    using RETF_returns [of k gmi op1] at that unfolding triple_def by (cases r) (fastforce simp: returned_def)+
  moreover have "k \<le> CCPU_CPL (core_cpu c') \<and> (r = Inr () \<longrightarrow> returned k (core_cpu c') \<or> k = 0 \<and> GET_VM (core_cpu c') = 1)"
    if "GET_NT (core_cpu c) \<noteq> 1" "IRET gmi junk c = Some (r, c')"
    using IRET_returns [of k gmi junk] at that unfolding triple_def by (cases r) (fastforce simp: returned_def)+
  ultimately show ?thesis using RETF_legal [OF _ assms(1), of gmi op1 "()" c'] IRET_legal [OF _ assms(1), of gmi junk "()" c'] unfolding k by blast
qed

text \<open>A program of level 3 that tries to return to the code segment of selector 8, which asks for level 0.\<close>

definition demo_return :: "unit core" where
  "demo_return = \<lparr>core_mmu = (demo_mmu 0 0 (SET_GR 4 0x20 (SET_CR 0 1 (ccpu0\<lparr>CCPU_CPL := 3, CCPU_STAR := (\<lambda>_. \<lparr>star_base = 0, star_limit = 0x17\<rparr>),
       CCPU_SR := (\<lambda>_. (CCPU_SR ccpu0 2)\<lparr>sr_base := 0x100, sr_limit := 0xffff, sr_ar_r := 1, sr_ar_w := 1\<rparr>)\<rparr>))))
     \<lparr>phys := (phys (demo_mmu 0 0 ccpu0))\<lparr>M_area := (\<lambda>_. 0)(0x120 := 0x10, 0x122 := 8)\<rparr>\<rparr>, core_dbg = demo_debug, core_xcp = xcptn0\<rparr>"

lemma demo_return_cpu:
  "\<not> real_mode (core_cpu demo_return)" "CCPU_CPL (core_cpu demo_return) = 3" "\<not> GET_PG (core_cpu demo_return)" "OPERAND_SIZE (core_cpu demo_return) = 0"
  "GetStackPointer (core_cpu demo_return) = 0x20" "SS (core_cpu demo_return) = (CCPU_SR ccpu0 2)\<lparr>sr_base := 0x100, sr_limit := 0xffff, sr_ar_r := 1, sr_ar_w := 1\<rparr>"
  by (simp_all add: demo_return_def demo_mmu_def SET_CR_def SET_GR_def ccpu0_def GetStackPointer_def get_stack_reg_def GET_WR_def)

lemma demo_return_frame:
  "phy_r16 gmi 0x120 (core_phys demo_return) = Some (0x10, core_phys demo_return)" "phy_r16 gmi 0x122 (core_phys demo_return) = Some (8, core_phys demo_return)"
proof -
  have r: "ram32 (core_phys demo_return) 0x120" by (simp add: ram32_def demo_return_def demo_mmu_def READ_SELF_MOD_def)
  have m: "M_area (core_phys demo_return) = (\<lambda>_. 0)(0x120 := 0x10, 0x122 := 8)" "SasWrapMask (core_phys demo_return) = 0xffffffff" by (simp_all add: demo_return_def demo_mmu_def)
  show "phy_r16 gmi 0x120 (core_phys demo_return) = Some (0x10, core_phys demo_return)" "phy_r16 gmi 0x122 (core_phys demo_return) = Some (8, core_phys demo_return)"
    using ram32_r16 [OF r, of 0 gmi] ram32_r16 [OF r, of 2 gmi] by (simp_all add: m)
qed

lemma demo_return_denied: "\<exists>c'. RETF gmi 0 demo_return = Some (Inl (GP 8), c')"
proof -
  note f = demo_return_cpu
  have v: "validate_stack_exists gmi False 2 demo_return = Some (Inr (), demo_return)"
  proof -
    have "chk_stack gmi PG_R (Suc (Suc 0)) x demo_return = Some (Inr (), demo_return)" for x
      using f by (simp add: m_get_def m_bind_def m_ret_def Let_def item_size_def usr_chk_word_def)
    moreover have "\<not> bad_limit (SS (core_cpu demo_return)) 0x20 2 2" using f by (simp add: bad_limit_def ccpu0_def Let_def)
    ultimately show ?thesis using f unfolding numeral_2_eq_2 [symmetric]
      by (simp add: validate_stack_exists_def limit_check_def m_get_def m_bind_def m_ret_def Let_def item_size_def)
  qed
  obtain d where 1: "vir_read_word gmi 0x120 0 demo_return = Some (Inr 0x10, demo_return\<lparr>core_dbg := d\<rparr>)" using plain_read(1) [OF f(3) demo_return_frame(1)] by blast
  have "phy_r16 gmi 0x122 (core_phys (demo_return\<lparr>core_dbg := d\<rparr>)) = Some (8, core_phys (demo_return\<lparr>core_dbg := d\<rparr>))" using demo_return_frame(2) by simp
  moreover have "\<not> GET_PG (core_cpu (demo_return\<lparr>core_dbg := d\<rparr>))" using f(3) by simp
  ultimately obtain d' where 2: "vir_read_word gmi 0x122 0 (demo_return\<lparr>core_dbg := d\<rparr>) = Some (Inr 8, demo_return\<lparr>core_dbg := d'\<rparr>)"
    using plain_read(1) [of "demo_return\<lparr>core_dbg := d\<rparr>"] by fastforce
  have t: "tpop gmi 0 0 demo_return = Some (Inr 0x10, demo_return\<lparr>core_dbg := d\<rparr>)" "tpop gmi 1 0 (demo_return\<lparr>core_dbg := d\<rparr>) = Some (Inr 8, demo_return\<lparr>core_dbg := d'\<rparr>)"
    using f 1 2 by (simp_all add: tpop_def m_get_def m_bind_def m_ret_def Let_def stack_wrap_def ccpu0_def)
  show ?thesis using f t v by (simp add: RETF_def m_bind_def m_get_def m_fault_def Let_def GET_SELECTOR_RPL_def)
qed

theorem returns_never_gain_privilege_witness:
  "\<forall>gmi. \<exists>c'. RETF gmi 0 demo_return = Some (Inl (GP 8), c') \<and> 3 \<le> CCPU_CPL (core_cpu c')"
proof
  fix gmi :: "unit gmi"
  obtain c' where r: "RETF gmi 0 demo_return = Some (Inl (GP 8), c')" using demo_return_denied by blast
  then show "\<exists>c'. RETF gmi 0 demo_return = Some (Inl (GP 8), c') \<and> 3 \<le> CCPU_CPL (core_cpu c')"
    using returns_never_gain_privilege [OF demo_return_cpu(1) refl, of gmi 0 "Inl (GP 8)" c'] demo_return_cpu(2) by simp
qed

end
