(* ===== verification/Dma.thy ===== *)
theory Dma
  imports Ccpu_Sas
begin

text \<open>
  The DMA adaptor (\<open>system/at_dma.c\<close>, \<open>inc/dma.h\<close>): two 8237A controllers of four channels each, the page
  register chip, their ports, and the transfer of a block between a device buffer and physical memory.

  The device buffer is a list of bytes; the pointer into it is a position. The Sound Blaster is asked for its
  position when its channel is read (\<open>SbGetDMAPosition\<close>): this call and the number of its channel are
  parameters of \<open>dma_inb\<close>.
\<close>

section \<open>State\<close>

record DMA_CNTRL =
  base_address :: "nat \<Rightarrow> nat \<Rightarrow> IU8"
  base_count :: "nat \<Rightarrow> nat \<Rightarrow> IU8"
  current_address :: "nat \<Rightarrow> nat \<Rightarrow> IU8"
  current_count :: "nat \<Rightarrow> nat \<Rightarrow> IU8"
  temporary_address :: "nat \<Rightarrow> nat \<Rightarrow> IU8"
  temporary_count :: "nat \<Rightarrow> nat \<Rightarrow> IU8"
  status :: IU8
  command :: IU8
  temporary :: IU8
  mode :: "nat \<Rightarrow> IU8"
  dma_mask :: IU8
  request :: IU8
  first_last :: nat

record DMA_ADAPT =
  controller :: "nat \<Rightarrow> DMA_CNTRL"
  page :: "nat \<Rightarrow> IU8"

definition cntrl_upd :: "nat \<Rightarrow> (DMA_CNTRL \<Rightarrow> DMA_CNTRL) \<Rightarrow> DMA_ADAPT \<Rightarrow> DMA_ADAPT" where
  "cntrl_upd i f a = a\<lparr>controller := (controller a)(i := f (controller a i))\<rparr>"

text \<open>The bit fields of the command, mode and status registers.\<close>

definition controller_disable :: "DMA_CNTRL \<Rightarrow> bool" where
  "controller_disable d = bit (command d) 2"

definition transfer_type :: "IU8 \<Rightarrow> nat" where
  "transfer_type m = unat (drop_bit 2 m AND 3)"

definition auto_init :: "IU8 \<Rightarrow> bool" where
  "auto_init m = bit m 4"

definition address_dec :: "IU8 \<Rightarrow> bool" where
  "address_dec m = bit m 5"

definition dma_logical_channel :: "nat \<Rightarrow> nat \<Rightarrow> nat" where
  "dma_logical_channel cntrl chan = cntrl * 4 + chan"

definition dma_physical_channel :: "nat \<Rightarrow> nat" where
  "dma_physical_channel channel = channel mod 4"

definition dma_physical_controller :: "nat \<Rightarrow> nat" where
  "dma_physical_controller channel = channel div 4"

definition dma_system_address :: "nat \<Rightarrow> IU8 \<Rightarrow> IU16 \<Rightarrow> IU32" where
  "dma_system_address channel pg offset =
     (if channel < 4 then push_bit 16 (ucast (pg AND 0xff)) OR ucast (offset AND 0xffff)
      else push_bit 16 (ucast (pg AND 0xfe)) OR push_bit 1 (ucast (offset AND 0xffff)))"

definition dma_unit_size :: "nat \<Rightarrow> nat" where
  "dma_unit_size channel = (if channel < 4 then 1 else 2)"

section \<open>Reset\<close>

definition master_clear :: "DMA_CNTRL \<Rightarrow> DMA_CNTRL" where
  "master_clear d = d\<lparr>command := 0, status := 0, request := 0, temporary := 0, dma_mask := NOT 0, first_last := 0\<rparr>"

definition dma_post :: "DMA_ADAPT \<Rightarrow> DMA_ADAPT" where
  "dma_post a =
     a\<lparr>controller := (\<lambda>cntrl. if cntrl < 2
          then (master_clear (controller a cntrl))\<lparr>mode := (\<lambda>chan. if chan < 4
                 then (if dma_logical_channel cntrl chan = 4 then push_bit 6 3 else push_bit 6 1) else mode (controller a cntrl) chan)\<rparr>
          else controller a cntrl)\<rparr>"

section \<open>Controller ports\<close>

definition dma_port :: "IU16 \<Rightarrow> nat \<times> IU16" where
  "dma_port port = (if port \<le> 0x1F then (0, port AND NOT 0x10) else (1, port AND NOT 0x01))"

definition read_byte :: "(DMA_CNTRL \<Rightarrow> nat \<Rightarrow> nat \<Rightarrow> IU8) \<Rightarrow> nat \<Rightarrow> nat \<Rightarrow> DMA_ADAPT \<Rightarrow> IU8 option \<times> DMA_ADAPT" where
  "read_byte reg i chan a =
     (Some (reg (controller a i) chan (first_last (controller a i))), cntrl_upd i (\<lambda>d. d\<lparr>first_last := first_last d XOR 1\<rparr>) a)"

text \<open>No value means that the port is not readable and the caller's variable is left alone.\<close>

definition dma_inb :: "(DMA_ADAPT \<Rightarrow> DMA_ADAPT) \<Rightarrow> nat \<Rightarrow> IU16 \<Rightarrow> DMA_ADAPT \<Rightarrow> IU8 option \<times> DMA_ADAPT" where
  "dma_inb SbGetDMAPosition SbDmaChannel port0 a =
     (let (i, port) = dma_port port0
      in if port \<in> {0x00, 0x02, 0x04, 0x06}
         then (let chan = unat (port - 0x00) div 2;
                   a = (if first_last (controller a i) = 0 \<and> chan = SbDmaChannel then SbGetDMAPosition a else a)
               in read_byte current_address i chan a)
         else if port \<in> {0xC0, 0xC4, 0xC8, 0xCC} then read_byte current_address i (unat (port - 0xC0) div 4) a
         else if port \<in> {0x01, 0x03, 0x05, 0x07}
         then (let chan = unat (port - 0x01) div 2;
                   a = (if first_last (controller a i) = 0 \<and> chan = SbDmaChannel then SbGetDMAPosition a else a)
               in read_byte current_count i chan a)
         else if port \<in> {0xC2, 0xC6, 0xCA, 0xCE} then read_byte current_count i (unat (port - 0xC2) div 4) a
         else if port = 0x08 \<or> port = 0xD0
         then (Some (status (controller a i)), cntrl_upd i (\<lambda>d. d\<lparr>status := status d AND NOT 0x0f\<rparr>) a)
         else if port = 0x0D \<or> port = 0xDA then (Some (temporary (controller a i)), a)
         else (None, a))"

definition set_byte :: "nat \<Rightarrow> nat \<Rightarrow> IU8 \<Rightarrow> (nat \<Rightarrow> nat \<Rightarrow> IU8) \<Rightarrow> nat \<Rightarrow> nat \<Rightarrow> IU8" where
  "set_byte chan b v w = w(chan := (w chan)(b := v))"

definition write_address :: "nat \<Rightarrow> IU8 \<Rightarrow> DMA_CNTRL \<Rightarrow> DMA_CNTRL" where
  "write_address chan v d =
     d\<lparr>current_address := set_byte chan (first_last d) v (current_address d), base_address := set_byte chan (first_last d) v (base_address d),
       first_last := first_last d XOR 1\<rparr>"

definition write_count :: "nat \<Rightarrow> IU8 \<Rightarrow> DMA_CNTRL \<Rightarrow> DMA_CNTRL" where
  "write_count chan v d =
     d\<lparr>current_count := set_byte chan (first_last d) v (current_count d), base_count := set_byte chan (first_last d) v (base_count d),
       first_last := first_last d XOR 1\<rparr>"

definition write_register :: "IU16 \<Rightarrow> IU8 \<Rightarrow> DMA_CNTRL \<Rightarrow> DMA_CNTRL" where
  "write_register port v d =
     (if port \<in> {0x00, 0x02, 0x04, 0x06} then write_address (unat (port - 0x00) div 2) v d
      else if port \<in> {0xC0, 0xC4, 0xC8, 0xCC} then write_address (unat (port - 0xC0) div 4) v d
      else if port \<in> {0x01, 0x03, 0x05, 0x07} then write_count (unat (port - 0x01) div 2) v d
      else if port \<in> {0xC2, 0xC6, 0xCA, 0xCE} then write_count (unat (port - 0xC2) div 4) v d
      else if port = 0x08 \<or> port = 0xD0 then d\<lparr>command := v\<rparr>
      else if port = 0x09 \<or> port = 0xD2 then d
      else if port = 0x0A \<or> port = 0xD4
      then d\<lparr>dma_mask := (if v AND 0x4 \<noteq> 0 then dma_mask d OR push_bit (unat (v AND 0x3)) 1 else dma_mask d AND NOT (push_bit (unat (v AND 0x3)) 1))\<rparr>
      else if port = 0x0B \<or> port = 0xD6 then d\<lparr>mode := (mode d)(unat (v AND 0x3) := v)\<rparr>
      else if port = 0x0C \<or> port = 0xD8 then d\<lparr>first_last := 0\<rparr>
      else if port = 0x0D \<or> port = 0xDA then master_clear d
      else if port = 0x0E \<or> port = 0xDC then d\<lparr>dma_mask := 0\<rparr>
      else if port = 0x0F \<or> port = 0xDE then d\<lparr>dma_mask := v\<rparr>
      else d)"

definition dma_outb :: "IU16 \<Rightarrow> IU8 \<Rightarrow> DMA_ADAPT \<Rightarrow> DMA_ADAPT" where
  "dma_outb port0 v a = (let (i, port) = dma_port port0 in cntrl_upd i (write_register port v) a)"

section \<open>Page registers\<close>

definition page_channel :: "IU16 \<Rightarrow> nat option" where
  "page_channel port = map_of [(0x87, 0), (0x83, 1), (0x81, 2), (0x82, 3), (0x8b, 5), (0x89, 6), (0x8a, 7), (0x8f, 15),
     (0x84, 8), (0x85, 9), (0x86, 10), (0x88, 11), (0x8c, 12), (0x8d, 13), (0x8e, 14)] port"

definition dma_page_inb :: "IU16 \<Rightarrow> DMA_ADAPT \<Rightarrow> IU8 option" where
  "dma_page_inb port a = (case page_channel (port AND NOT 0x10) of Some ch \<Rightarrow> Some (page a ch) | None \<Rightarrow> None)"

definition dma_page_outb :: "IU16 \<Rightarrow> IU8 \<Rightarrow> DMA_ADAPT \<Rightarrow> DMA_ADAPT" where
  "dma_page_outb port v a = (case page_channel (port AND NOT 0x10) of Some ch \<Rightarrow> a\<lparr>page := (page a)(ch := v)\<rparr> | None \<Rightarrow> a)"

section \<open>Transfer\<close>

function bwd_dest_copy_to_M :: "'v gmi \<Rightarrow> IU8 list \<Rightarrow> IU32 \<Rightarrow> nat \<Rightarrow> nat \<Rightarrow> 'v sas \<Rightarrow> 'v sas option" where
  "bwd_dest_copy_to_M gmi src d l usize s =
     (if 0 < usize \<and> usize \<le> l
      then do { s \<leftarrow> c_sas_PWS gmi (take usize src) d s; bwd_dest_copy_to_M gmi (drop usize src) (d - of_nat usize) (l - usize) usize s }
      else Some s)"
  by auto
termination by (relation "measure (\<lambda>(gmi, src, d, l, usize, s). l)") auto

function bwd_dest_copy_from_M :: "'v gmi \<Rightarrow> IU32 \<Rightarrow> nat \<Rightarrow> nat \<Rightarrow> 'v sas \<Rightarrow> (IU8 list \<times> 'v sas) option" where
  "bwd_dest_copy_from_M gmi src l usize s =
     (if 0 < usize \<and> usize \<le> l
      then do {
        (bs, s) \<leftarrow> c_sas_PRS gmi usize src s;
        (rest, s) \<leftarrow> bwd_dest_copy_from_M gmi (src - of_nat usize) (l - usize) usize s;
        Some (bs @ rest, s)
      }
      else Some ([], s))"
  by auto
termination by (relation "measure (\<lambda>(gmi, src, l, usize, s). l)") auto

text \<open>What the device buffer holds after bytes have been stored from a position on.\<close>

definition put_bytes :: "nat \<Rightarrow> IU8 list \<Rightarrow> IU8 list \<Rightarrow> IU8 list" where
  "put_bytes pos bs buf = take pos buf @ bs @ drop (pos + length bs) buf"

definition do_transfer :: "'v gmi \<Rightarrow> nat \<Rightarrow> bool \<Rightarrow> IU32 \<Rightarrow> nat \<Rightarrow> nat \<Rightarrow> nat \<Rightarrow> IU8 list \<Rightarrow> 'v sas \<Rightarrow> (IU8 list \<times> 'v sas) option" where
  "do_transfer gmi type decrement dma_addr pos len usize hw_buffer s =
     (if type = 1
      then (if \<not> decrement then do { s \<leftarrow> c_sas_PWS gmi (take (len * usize) (drop pos hw_buffer)) dma_addr s; Some (hw_buffer, s) }
            else do { s \<leftarrow> bwd_dest_copy_to_M gmi (drop pos hw_buffer) dma_addr (len * usize) usize s; Some (hw_buffer, s) })
      else if type = 2
      then (if \<not> decrement then do { (bs, s) \<leftarrow> c_sas_PRS gmi (len * usize) dma_addr s; Some (put_bytes pos bs hw_buffer, s) }
            else do { (bs, s) \<leftarrow> bwd_dest_copy_from_M gmi dma_addr (len * usize) usize s; Some (put_bytes pos bs hw_buffer, s) })
      else Some (hw_buffer, s))"

definition get_word :: "(nat \<Rightarrow> nat \<Rightarrow> IU8) \<Rightarrow> nat \<Rightarrow> IU16" where
  "get_word w chan = push_bit 8 (ucast (w chan 1)) OR ucast (w chan 0)"

definition put_word :: "nat \<Rightarrow> IU16 \<Rightarrow> (nat \<Rightarrow> nat \<Rightarrow> IU8) \<Rightarrow> nat \<Rightarrow> nat \<Rightarrow> IU8" where
  "put_word chan v w = set_byte chan 0 (ucast v) (set_byte chan 1 (ucast (drop_bit 8 v)) w)"

text \<open>Moving the block, in two parts where the 16 bit offset wraps.\<close>

definition move_block :: "'v gmi \<Rightarrow> nat \<Rightarrow> IU8 \<Rightarrow> IU8 \<Rightarrow> IU16 \<Rightarrow> IU32 \<Rightarrow> IU8 list \<Rightarrow> 'v sas \<Rightarrow> (IU8 list \<times> 'v sas) option" where
  "move_block gmi channel pg m offset munch hw_buffer s =
     (let usize = dma_unit_size channel;
          address = dma_system_address channel pg offset;
          transfer = do_transfer gmi (transfer_type m) (address_dec m)
      in if \<not> address_dec m
         then (if 0x10000 < ucast offset + munch
               then do {
                 let split_munch1 = 0x10000 - ucast offset;
                 let split_munch2 = munch - split_munch1;
                 (buf, s) \<leftarrow> transfer address 0 (unat split_munch1) usize hw_buffer s;
                 transfer (dma_system_address channel pg 0) (unat split_munch1 * usize) (unat split_munch2) usize buf s
               }
               else transfer address 0 (unat munch) usize hw_buffer s)
         else (if ucast offset + 1 < munch
               then do {
                 let split_munch1 = ucast offset + 1;
                 let split_munch2 = munch - split_munch1;
                 (buf, s) \<leftarrow> transfer address 0 (unat split_munch1) usize hw_buffer s;
                 transfer (dma_system_address channel pg 0xffff) (unat split_munch1 * usize) (unat split_munch2) usize buf s
               }
               else transfer address 0 (unat munch) usize hw_buffer s))"

definition terminal_count :: "nat \<Rightarrow> DMA_CNTRL \<Rightarrow> DMA_CNTRL" where
  "terminal_count chan d =
     (let d = d\<lparr>status := (status d OR push_bit chan 1) AND NOT (push_bit (4 + chan) 1)\<rparr>
      in if auto_init (mode d chan)
         then d\<lparr>current_count := set_byte chan 1 (base_count d chan 1) (set_byte chan 0 (base_count d chan 0) (current_count d)),
                current_address := set_byte chan 1 (base_address d chan 1) (set_byte chan 0 (base_address d chan 0) (current_address d))\<rparr>
         else d\<lparr>dma_mask := dma_mask d OR push_bit chan 1\<rparr>)"

definition dma_request :: "'v gmi \<Rightarrow> nat \<Rightarrow> IU8 list \<Rightarrow> IU16 \<Rightarrow> DMA_ADAPT \<Rightarrow> 'v sas \<Rightarrow> (bool \<times> IU8 list \<times> DMA_ADAPT \<times> 'v sas) option" where
  "dma_request gmi channel hw_buffer len a s =
     do {
       let i = dma_physical_controller channel;
       let chan = dma_physical_channel channel;
       let d = controller a i;
       if controller_disable d \<or> bit (dma_mask d) chan then Some (True, hw_buffer, a, s)
       else do {
         let offset = get_word (current_address d) chan;
         let count = get_word (current_count d) chan;
         let munch = (ucast count + 1 :: IU32);
         let munch = (if ucast len < munch then ucast len else munch);
         (buf, s) \<leftarrow> move_block gmi channel (page a channel) (mode d chan) offset munch hw_buffer s;
         let offset = (if address_dec (mode d chan) then offset - ucast munch else offset + ucast munch);
         let count = count - ucast munch;
         let d = d\<lparr>current_address := put_word chan offset (current_address d), current_count := put_word chan count (current_count d)\<rparr>;
         Some (count \<noteq> 0xffff, buf, a\<lparr>controller := (controller a)(i := if count = 0xffff then terminal_count chan d else d)\<rparr>, s)
       }
     }"

definition dma_enquire :: "nat \<Rightarrow> DMA_ADAPT \<Rightarrow> IU32 \<times> IU16" where
  "dma_enquire channel a =
     (let d = controller a (dma_physical_controller channel); chan = dma_physical_channel channel
      in (dma_system_address channel (page a channel) (get_word (current_address d) chan), get_word (current_count d) chan))"

section \<open>Snapshot\<close>

text \<open>The snapshot holds the registers of both controllers and the page registers, field by field.\<close>

record softpc_device_dma_state =
  snap_controller :: "nat \<Rightarrow> DMA_CNTRL"
  snap_page :: "nat \<Rightarrow> IU8"

definition softpc_device_snapshot_capture_dma :: "DMA_ADAPT \<Rightarrow> softpc_device_dma_state" where
  "softpc_device_snapshot_capture_dma a = \<lparr>snap_controller = controller a, snap_page = page a\<rparr>"

definition restore_controller :: "softpc_device_dma_state \<Rightarrow> nat \<Rightarrow> DMA_ADAPT \<Rightarrow> DMA_ADAPT option" where
  "restore_controller st i a = (if 1 < first_last (snap_controller st i) then None else Some (cntrl_upd i (\<lambda>_. snap_controller st i) a))"

definition softpc_device_snapshot_restore_dma :: "softpc_device_dma_state \<Rightarrow> DMA_ADAPT \<Rightarrow> bool \<times> DMA_ADAPT" where
  "softpc_device_snapshot_restore_dma st a =
     (case restore_controller st 0 a of None \<Rightarrow> (False, a)
      | Some a \<Rightarrow> (case restore_controller st 1 a of None \<Rightarrow> (False, a)
          | Some a \<Rightarrow> (True, a\<lparr>page := (\<lambda>channel. if channel < 16 then snap_page st channel else page a channel)\<rparr>)))"

end
