(* ===== verification/Dma_Run.thy ===== *)
theory Dma_Run
  imports Dma
begin

text \<open>
  Correctness of the DMA adaptor: a transfer moves the units of the block one by one between the device buffer
  and the addresses that the 16 bit address register runs through, wrapping inside its 64K (128K for the word channels)
  page; programming through the ports sets up exactly the channel meant; a long transfer may be cut into pieces.
\<close>

section \<open>Blocks of memory\<close>

lemma PWS_append:
  "c_sas_PWS gmi (xs @ ys) d s = Option.bind (c_sas_PWS gmi xs d s) (c_sas_PWS gmi ys (d + of_nat (length xs)))"
proof (induction xs arbitrary: d s)
  case (Cons x xs)
  then show ?case by (cases "phy_w8 gmi d x s") (simp_all add: add.assoc)
qed simp

lemma PRS_add:
  "c_sas_PRS gmi (m + n) d s =
     do { (xs, s) \<leftarrow> c_sas_PRS gmi m d s; (ys, s) \<leftarrow> c_sas_PRS gmi n (d + of_nat m) s; Some (xs @ ys, s) }"
proof (induction m arbitrary: d s)
  case 0
  then show ?case by (cases "c_sas_PRS gmi n d s") auto
next
  case (Suc m)
  show ?case
  proof (cases "phy_r8 gmi d s")
    case (Some r)
    then show ?thesis using Suc.IH [of "d + 1" "snd r"]
      by (cases r; cases "c_sas_PRS gmi m (d + 1) (snd r)") (auto simp: add.assoc split: bind_splits)
  qed simp
qed

lemma PRS_length: "c_sas_PRS gmi n d s = Some (bs, s') \<Longrightarrow> length bs = n"
  by (induction n arbitrary: d s bs s') (auto split: bind_splits)

section \<open>Units\<close>

text \<open>
  The specification of a transfer: unit \<open>k\<close> of the block, \<open>z\<close> bytes long, moves between its place in the buffer and
  the address \<open>f k\<close>.
\<close>

primrec units_w :: "'v gmi \<Rightarrow> (nat \<Rightarrow> IU32) \<Rightarrow> nat \<Rightarrow> nat \<Rightarrow> nat \<Rightarrow> IU8 list \<Rightarrow> 'v sas \<Rightarrow> 'v sas option" where
  "units_w gmi f z k 0 buf s = Some s"
| "units_w gmi f z k (Suc n) buf s =
     Option.bind (c_sas_PWS gmi (take z (drop (k * z) buf)) (f k) s) (units_w gmi f z (Suc k) n buf)"

primrec units_r :: "'v gmi \<Rightarrow> (nat \<Rightarrow> IU32) \<Rightarrow> nat \<Rightarrow> nat \<Rightarrow> nat \<Rightarrow> 'v sas \<Rightarrow> (IU8 list \<times> 'v sas) option" where
  "units_r gmi f z k 0 s = Some ([], s)"
| "units_r gmi f z k (Suc n) s =
     do { (xs, s) \<leftarrow> c_sas_PRS gmi z (f k) s; (ys, s) \<leftarrow> units_r gmi f z (Suc k) n s; Some (xs @ ys, s) }"

definition units :: "'v gmi \<Rightarrow> nat \<Rightarrow> (nat \<Rightarrow> IU32) \<Rightarrow> nat \<Rightarrow> nat \<Rightarrow> nat \<Rightarrow> IU8 list \<Rightarrow> 'v sas \<Rightarrow> (IU8 list \<times> 'v sas) option" where
  "units gmi type f z k n buf s =
     (if type = 1 then do { s \<leftarrow> units_w gmi f z k n buf s; Some (buf, s) }
      else if type = 2 then do { (bs, s) \<leftarrow> units_r gmi f z k n s; Some (put_bytes (k * z) bs buf, s) }
      else Some (buf, s))"

lemma units_w_add: "units_w gmi f z k (m + n) buf s = Option.bind (units_w gmi f z k m buf s) (units_w gmi f z (k + m) n buf)"
proof (induction m arbitrary: k s)
  case (Suc m)
  then show ?case by (cases "c_sas_PWS gmi (take z (drop (k * z) buf)) (f k) s") simp_all
qed simp

lemma units_r_add:
  "units_r gmi f z k (m + n) s = do { (xs, s) \<leftarrow> units_r gmi f z k m s; (ys, s) \<leftarrow> units_r gmi f z (k + m) n s; Some (xs @ ys, s) }"
proof (induction m arbitrary: k s)
  case 0
  then show ?case by (cases "units_r gmi f z k n s") auto
next
  case (Suc m)
  show ?case
  proof (cases "c_sas_PRS gmi z (f k) s")
    case (Some r)
    then show ?thesis using Suc.IH [of "Suc k" "snd r"]
      by (cases r; cases "units_r gmi f z (Suc k) m (snd r)") (auto split: bind_splits)
  qed simp
qed

lemma units_r_length: "units_r gmi f z k n s = Some (bs, s') \<Longrightarrow> length bs = n * z"
  by (induction n arbitrary: k s bs s') (auto split: bind_splits dest!: PRS_length)

lemma put_bytes_append:
  assumes "p + length xs + length ys \<le> length buf"
  shows "put_bytes (p + length xs) ys (put_bytes p xs buf) = put_bytes p (xs @ ys) buf"
  using assms by (simp add: put_bytes_def ac_simps)

lemma put_bytes_length: "p + length xs \<le> length buf \<Longrightarrow> length (put_bytes p xs buf) = length buf"
  by (simp add: put_bytes_def)

lemma units_add:
  assumes "(k + m + n) * z \<le> length buf"
  shows "units gmi type f z k (m + n) buf s = Option.bind (units gmi type f z k m buf s) (\<lambda>(buf, s). units gmi type f z (k + m) n buf s)"
proof -
  consider "type = 1" | "type = 2" | "type \<noteq> 1" "type \<noteq> 2" by blast
  then show ?thesis
  proof cases
    case 1
    then show ?thesis by (cases "units_w gmi f z k m buf s") (simp_all add: units_def units_w_add)
  next
    case 2
    show ?thesis
    proof (cases "units_r gmi f z k m s")
      case None
      then show ?thesis using 2 by (simp add: units_def units_r_add)
    next
      case (Some r)
      obtain xs t where r: "r = (xs, t)" by (cases r)
      have l: "length xs = m * z" using units_r_length Some r by blast
      have "put_bytes ((k + m) * z) ys (put_bytes (k * z) xs buf) = put_bytes (k * z) (xs @ ys) buf" if "length ys = n * z" for ys
        using put_bytes_append [of "k * z" xs ys buf] assms l that by (simp add: algebra_simps)
      then show ?thesis using 2 Some r
        by (cases "units_r gmi f z (k + m) n t") (auto simp: units_def units_r_add dest!: units_r_length)
    qed
  qed (simp add: units_def)
qed

section \<open>The parts of a transfer\<close>

lemma forward_write:
  assumes "\<forall>j < n. f (k + j) = A + of_nat (j * z)" "(k + n) * z \<le> length buf"
  shows "c_sas_PWS gmi (take (n * z) (drop (k * z) buf)) A s = units_w gmi f z k n buf s"
  using assms
proof (induction n arbitrary: k A s)
  case (Suc n)
  have l: "length (take z (drop (k * z) buf)) = z" using Suc.prems(2) by (simp add: algebra_simps)
  have t: "take (Suc n * z) (drop (k * z) buf) = take z (drop (k * z) buf) @ take (n * z) (drop (Suc k * z) buf)"
    using take_add [of z "n * z" "drop (k * z) buf"] by (simp add: add.commute [of z "k * z"])
  have f0: "f k = A" using Suc.prems(1) by (metis add_0_right mult_zero_left of_nat_0 zero_less_Suc)
  have "f (Suc k + j) = A + of_nat z + of_nat (j * z)" if "j < n" for j using Suc.prems(1) [rule_format, of "Suc j"] that by (simp add: algebra_simps)
  then have "c_sas_PWS gmi (take (n * z) (drop (Suc k * z) buf)) (A + of_nat z) t = units_w gmi f z (Suc k) n buf t" for t
    using Suc.prems(2) by (intro Suc.IH) auto
  then have "c_sas_PWS gmi (take (n * z) (drop (Suc k * z) buf)) (A + of_nat z) = units_w gmi f z (Suc k) n buf" by (rule ext)
  then show ?case unfolding t PWS_append l by (simp add: f0)
qed simp

lemma backward_write:
  assumes "\<forall>j < n. f (k + j) = A - of_nat (j * z)" "0 < z"
  shows "bwd_dest_copy_to_M gmi (drop (k * z) buf) A (n * z) z s = units_w gmi f z k n buf s"
  using assms
proof (induction n arbitrary: k A s)
  case (Suc n)
  have f0: "f k = A" using Suc.prems(1) by (metis add_0_right diff_zero mult_zero_left of_nat_0 zero_less_Suc)
  have "f (Suc k + j) = A - of_nat z - of_nat (j * z)" if "j < n" for j using Suc.prems(1) [rule_format, of "Suc j"] that by (simp add: algebra_simps)
  then have "bwd_dest_copy_to_M gmi (drop (Suc k * z) buf) (A - of_nat z) (n * z) z t = units_w gmi f z (Suc k) n buf t" for t
    using Suc.prems(2) by (intro Suc.IH) auto
  then have "bwd_dest_copy_to_M gmi (drop (Suc k * z) buf) (A - of_nat z) (n * z) z = units_w gmi f z (Suc k) n buf" by (rule ext)
  then show ?case using Suc.prems(2) by (subst bwd_dest_copy_to_M.simps) (simp add: f0 del: bwd_dest_copy_to_M.simps)
qed simp

lemma forward_read:
  assumes "\<forall>j < n. f (k + j) = A + of_nat (j * z)"
  shows "c_sas_PRS gmi (n * z) A s = units_r gmi f z k n s"
  using assms
proof (induction n arbitrary: k A s)
  case (Suc n)
  have f0: "f k = A" using Suc.prems(1) by (metis add_0_right mult_zero_left of_nat_0 zero_less_Suc)
  have "f (Suc k + j) = A + of_nat z + of_nat (j * z)" if "j < n" for j using Suc.prems(1) [rule_format, of "Suc j"] that by (simp add: algebra_simps)
  then have "c_sas_PRS gmi (n * z) (A + of_nat z) t = units_r gmi f z (Suc k) n t" for t by (intro Suc.IH) auto
  then show ?case by (simp add: PRS_add f0)
qed simp

lemma backward_read:
  assumes "\<forall>j < n. f (k + j) = A - of_nat (j * z)" "0 < z"
  shows "bwd_dest_copy_from_M gmi A (n * z) z s = units_r gmi f z k n s"
  using assms
proof (induction n arbitrary: k A s)
  case (Suc n)
  have f0: "f k = A" using Suc.prems(1) by (metis add_0_right diff_zero mult_zero_left of_nat_0 zero_less_Suc)
  have "f (Suc k + j) = A - of_nat z - of_nat (j * z)" if "j < n" for j using Suc.prems(1) [rule_format, of "Suc j"] that by (simp add: algebra_simps)
  then have "bwd_dest_copy_from_M gmi (A - of_nat z) (n * z) z t = units_r gmi f z (Suc k) n t" for t
    using Suc.prems(2) by (intro Suc.IH) auto
  then show ?case using Suc.prems(2) by (subst bwd_dest_copy_from_M.simps) (simp add: f0 del: bwd_dest_copy_from_M.simps)
qed simp

lemma do_transfer_units:
  assumes "\<forall>j < n. f (k + j) = (if dec then A - of_nat (j * z) else A + of_nat (j * z))" "(k + n) * z \<le> length buf" "0 < z"
  shows "do_transfer gmi type dec A (k * z) n z buf s = units gmi type f z k n buf s"
  using assms forward_write [of n f k A z buf gmi s] backward_write [of n f k A z gmi buf s] forward_read [of n f k A z gmi s] backward_read [of n f k A z gmi s]
  by (cases dec) (simp_all add: do_transfer_def units_def)

section \<open>The whole block\<close>

definition unit_addr :: "nat \<Rightarrow> IU8 \<Rightarrow> IU8 \<Rightarrow> IU16 \<Rightarrow> nat \<Rightarrow> IU32" where
  "unit_addr channel pg m offset k = dma_system_address channel pg (if address_dec m then offset - of_nat k else offset + of_nat k)"

definition page_base :: "nat \<Rightarrow> IU8 \<Rightarrow> IU32" where
  "page_base channel pg = push_bit 16 (ucast (if channel < 4 then pg else pg AND 0xfe))"

lemma all_ones: "x AND 0xff = x" "y AND 0xffff = y" for x :: IU8 and y :: IU16
proof -
  have "(0xff :: IU8) = - 1" "(0xffff :: IU16) = - 1" by simp_all
  then show "x AND 0xff = x" "y AND 0xffff = y" by (simp_all only: and.right_neutral)
qed

lemma system_address_sum: "dma_system_address channel pg off = page_base channel pg + of_nat (unat off * dma_unit_size channel)"
proof (cases "channel < 4")
  case True
  note m = all_ones(1) [of pg] all_ones(2) [of off]
  have "push_bit 16 (ucast pg) AND ucast off = (0 :: IU32)" by (rule bit_word_eqI) (auto simp: bit_simps dest: bit_imp_le_length)
  then have "push_bit 16 (ucast pg) OR ucast off = (push_bit 16 (ucast pg) + ucast off :: IU32)" by (simp add: disjunctive_add_eq_or)
  then show ?thesis using True unfolding dma_system_address_def page_base_def m by (simp add: dma_unit_size_def unsigned_of_nat)
next
  case False
  note m = all_ones(2) [of off]
  have b: "\<not> bit (pg AND 0xfe) 0" by (simp add: bit_and_iff bit_numeral_rec)
  have "push_bit 16 (ucast (pg AND 0xfe)) AND push_bit 1 (ucast off) = (0 :: IU32)"
  proof (rule bit_word_eqI)
    fix n show "bit (push_bit 16 (ucast (pg AND 0xfe)) AND push_bit 1 (ucast off) :: IU32) n = bit 0 n"
    proof (cases "n \<le> 16")
      case True
      then show ?thesis using b by (cases "n = 16") (simp_all only: bit_and_iff bit_push_bit_iff, auto simp: bit_simps)
    next
      case False
      then have "\<not> bit off (n - 1)" using bit_imp_le_length [of off "n - 1"] by auto
      then show ?thesis by (simp only: bit_and_iff bit_push_bit_iff bit_unsigned_iff) auto
    qed
  qed
  then have "push_bit 16 (ucast (pg AND 0xfe)) OR push_bit 1 (ucast off) = (push_bit 16 (ucast (pg AND 0xfe)) + push_bit 1 (ucast off) :: IU32)"
    by (simp only: disjunctive_add_eq_or)
  then show ?thesis using False unfolding dma_system_address_def page_base_def m by (simp add: dma_unit_size_def push_bit_eq_mult unsigned_of_nat)
qed

lemma unat_add_small: "unat (x + of_nat k) = unat x + k" if "unat x + k < 0x10000" for x :: IU16
proof -
  have "k < 65536" using that by simp
  then show ?thesis using that by (simp add: unat_word_ariths unat_of_nat)
qed

lemma unat_sub_small: "unat (x - of_nat k) = unat x - k" if "k \<le> unat x" for x :: IU16
proof -
  have "unat x < 65536" using unsigned_less [of x, where ?'a = nat] by simp
  then have k: "unat (of_nat k :: IU16) = k" using that by (simp add: unat_of_nat)
  then show ?thesis using that by (simp add: unat_sub word_le_nat_alt)
qed

lemma unit_addr_up:
  assumes "\<not> address_dec m" "unat offset + k < 0x10000"
  shows "unit_addr channel pg m offset k = dma_system_address channel pg offset + of_nat (k * dma_unit_size channel)"
  using assms by (simp add: unit_addr_def system_address_sum unat_add_small distrib_right)

lemma unit_addr_down:
  assumes "address_dec m" "k \<le> unat offset"
  shows "unit_addr channel pg m offset k = dma_system_address channel pg offset - of_nat (k * dma_unit_size channel)"
proof -
  have "of_nat ((unat offset - k) * dma_unit_size channel) = (of_nat (unat offset * dma_unit_size channel) - of_nat (k * dma_unit_size channel) :: IU32)"
    using assms(2) by (simp add: of_nat_diff left_diff_distrib)
  then show ?thesis using assms by (simp add: unit_addr_def system_address_sum unat_sub_small)
qed

lemma unit_addr_shift:
  "unit_addr channel pg m offset (k + j) = unit_addr channel pg m (if address_dec m then offset - of_nat k else offset + of_nat k) j"
  by (simp add: unit_addr_def algebra_simps)

lemma split_parts:
  fixes munch :: IU32 and offset :: IU16
  assumes "unat munch \<le> 0x10000"
  shows "0x10000 < ucast offset + munch \<longleftrightarrow> 0x10000 < unat offset + unat munch" "ucast offset + 1 < munch \<longleftrightarrow> unat offset + 1 < unat munch"
    "unat (0x10000 - ucast offset :: IU32) = 0x10000 - unat offset" "unat (ucast offset + 1 :: IU32) = unat offset + 1"
    "unat a \<le> unat munch \<Longrightarrow> unat (munch - a) = unat munch - unat a"
proof -
  have o: "unat offset < 0x10000" using unsigned_less [of offset, where ?'a = nat] by simp
  have u: "unat (ucast offset :: IU32) = unat offset" using o by (simp add: unsigned_ucast_eq take_bit_nat_eq_self)
  show "0x10000 < ucast offset + munch \<longleftrightarrow> 0x10000 < unat offset + unat munch" using o u assms by (simp add: word_less_nat_alt unat_word_ariths)
  show "unat (0x10000 - ucast offset :: IU32) = 0x10000 - unat offset" using o u by (simp add: unat_sub word_le_nat_alt)
  show p: "unat (ucast offset + 1 :: IU32) = unat offset + 1" using o u by (simp add: unat_word_ariths)
  then show "ucast offset + 1 < munch \<longleftrightarrow> unat offset + 1 < unat munch" by (simp add: word_less_nat_alt)
  show "unat a \<le> unat munch \<Longrightarrow> unat (munch - a) = unat munch - unat a" by (simp add: unat_sub word_le_nat_alt)
qed

lemma units_length:
  assumes "units gmi type f z k n buf s = Some (buf', s')" "(k + n) * z \<le> length buf" shows "length buf' = length buf"
proof -
  have "length (put_bytes (k * z) bs buf) = length buf" if "length bs = n * z" for bs
    using assms(2) that put_bytes_length [of "k * z" bs buf] by (simp add: algebra_simps)
  then show ?thesis using assms(1) by (auto simp: units_def split: if_splits bind_splits dest!: units_r_length)
qed

lemma unit_size_pos: "0 < dma_unit_size channel"
  by (simp add: dma_unit_size_def)

lemma two_parts:
  assumes "p1 + p2 = n" "n * z \<le> length buf" "0 < z"
    and a1: "\<forall>j < p1. f (0 + j) = (if dec then A - of_nat (j * z) else A + of_nat (j * z))"
    and a2: "\<forall>j < p2. f (p1 + j) = (if dec then B - of_nat (j * z) else B + of_nat (j * z))"
  shows "Option.bind (do_transfer gmi type dec A 0 p1 z buf s) (\<lambda>(buf, s). do_transfer gmi type dec B (p1 * z) p2 z buf s) = units gmi type f z 0 n buf s"
proof -
  have l: "(0 + p1) * z \<le> length buf" "(0 + p1 + p2) * z \<le> length buf" using assms(1,2) by (auto simp: algebra_simps)
  have 1: "do_transfer gmi type dec A 0 p1 z buf s = units gmi type f z 0 p1 buf s" using do_transfer_units [OF a1 l(1) assms(3)] by simp
  have 2: "do_transfer gmi type dec B (p1 * z) p2 z buf' s' = units gmi type f z p1 p2 buf' s'" if "length buf' = length buf" for buf' s'
    using do_transfer_units [OF a2 _ assms(3), of buf'] l(2) that by simp
  have "units gmi type f z 0 n buf s = Option.bind (units gmi type f z 0 p1 buf s) (\<lambda>(buf, s). units gmi type f z p1 p2 buf s)"
    using units_add [OF l(2)] assms(1) by simp
  then show ?thesis using 2 units_length [of gmi type f z 0 p1 buf s, OF _ l(1)] unfolding 1 by (auto split: bind_split)
qed

lemma one_part:
  assumes "\<forall>j < n. f j = (if dec then A - of_nat (j * z) else A + of_nat (j * z))" "n * z \<le> length buf" "0 < z"
  shows "do_transfer gmi type dec A 0 n z buf s = units gmi type f z 0 n buf s"
  using do_transfer_units [of n f 0 dec A z buf gmi type s] assms by simp

lemma move_block_up:
  assumes n: "unat munch \<le> 0x10000" "unat munch * dma_unit_size channel \<le> length buf" and up: "\<not> address_dec m"
  shows "move_block gmi channel pg m offset munch buf s =
    units gmi (transfer_type m) (unit_addr channel pg m offset) (dma_unit_size channel) 0 (unat munch) buf s"
proof -
  let ?z = "dma_unit_size channel" and ?f = "unit_addr channel pg m offset" and ?A = "dma_system_address channel pg offset"
  note sp = split_parts(1-4) [OF n(1), where offset = offset] and sp5 = split_parts(5) [OF n(1)]
  have o: "unat offset < 0x10000" using unsigned_less [of offset, where ?'a = nat] by simp
  show ?thesis
  proof (cases "0x10000 < unat offset + unat munch")
    case True
    define p1 where "p1 = 0x10000 - unat offset"
    define p2 where "p2 = unat munch - p1"
    have p: "p1 + p2 = unat munch" using True o by (simp add: p1_def p2_def)
    have "of_nat (unat offset) + of_nat p1 = (of_nat 0x10000 :: IU16)" unfolding p1_def of_nat_add [symmetric] using o by simp
    then have z: "offset + of_nat p1 = 0" by simp
    have "?f (p1 + j) = dma_system_address channel pg 0 + of_nat (j * ?z)" if "j < p2" for j
    proof -
      have "?f (p1 + j) = unit_addr channel pg m 0 j" using unit_addr_shift [of channel pg m offset p1 j] up z by simp
      then show ?thesis using unit_addr_up [OF up, of 0 j channel pg] that p n(1) by simp
    qed
    then have "Option.bind (do_transfer gmi (transfer_type m) False ?A 0 p1 ?z buf s) (\<lambda>(buf, s). do_transfer gmi (transfer_type m) False (dma_system_address channel pg 0) (p1 * ?z) p2 ?z buf s) =
        units gmi (transfer_type m) ?f ?z 0 (unat munch) buf s"
      using n(2) unit_addr_up [OF up] o by (intro two_parts [OF p _ unit_size_pos]) (auto simp: p1_def)
    moreover have "unat (munch - (0x10000 - ucast offset)) = p2" using sp5 [of "0x10000 - ucast offset"] True sp(3) by (simp add: p2_def p1_def)
    ultimately show ?thesis using True up sp(1,3) by (simp add: move_block_def Let_def p1_def)
  next
    case False
    have "\<forall>j < unat munch. ?f j = (if False then ?A - of_nat (j * ?z) else ?A + of_nat (j * ?z))" using False unit_addr_up [OF up] by simp
    from one_part [OF this n(2) unit_size_pos] show ?thesis using False up sp(1) by (simp add: move_block_def Let_def)
  qed
qed

lemma move_block_down:
  assumes n: "unat munch \<le> 0x10000" "unat munch * dma_unit_size channel \<le> length buf" and down: "address_dec m"
  shows "move_block gmi channel pg m offset munch buf s =
    units gmi (transfer_type m) (unit_addr channel pg m offset) (dma_unit_size channel) 0 (unat munch) buf s"
proof -
  let ?z = "dma_unit_size channel" and ?f = "unit_addr channel pg m offset" and ?A = "dma_system_address channel pg offset"
  note sp = split_parts(1-4) [OF n(1), where offset = offset] and sp5 = split_parts(5) [OF n(1)]
  show ?thesis
  proof (cases "unat offset + 1 < unat munch")
    case True
    define p1 where "p1 = unat offset + 1"
    define p2 where "p2 = unat munch - p1"
    have p: "p1 + p2 = unat munch" using True by (simp add: p1_def p2_def)
    have z: "offset - of_nat p1 = 0xffff" by (simp add: p1_def)
    have "?f (p1 + j) = dma_system_address channel pg 0xffff - of_nat (j * ?z)" if "j < p2" for j
    proof -
      have "?f (p1 + j) = unit_addr channel pg m 0xffff j" using unit_addr_shift [of channel pg m offset p1 j] down z by simp
      then show ?thesis using unit_addr_down [OF down, of j "0xffff" channel pg] that p n(1) by simp
    qed
    then have "Option.bind (do_transfer gmi (transfer_type m) True ?A 0 p1 ?z buf s) (\<lambda>(buf, s). do_transfer gmi (transfer_type m) True (dma_system_address channel pg 0xffff) (p1 * ?z) p2 ?z buf s) =
        units gmi (transfer_type m) ?f ?z 0 (unat munch) buf s"
      using n(2) unit_addr_down [OF down] by (intro two_parts [OF p _ unit_size_pos]) (auto simp: p1_def)
    moreover have "unat (munch - (ucast offset + 1)) = p2" using sp5 [of "ucast offset + 1"] True sp(4) by (simp add: p2_def p1_def)
    ultimately show ?thesis using True down sp(2,4) by (simp add: move_block_def Let_def p1_def)
  next
    case False
    have "\<forall>j < unat munch. ?f j = (if True then ?A - of_nat (j * ?z) else ?A + of_nat (j * ?z))" using False unit_addr_down [OF down] by simp
    from one_part [OF this n(2) unit_size_pos] show ?thesis using False down sp(2) by (simp add: move_block_def Let_def)
  qed
qed

lemmas move_block_units = move_block_up move_block_down

text \<open>
  A request as the 8237A specifies it: of the \<open>count + 1\<close> units programmed, as many as the device offers are moved,
  unit by unit; the address runs on modulo the page; when all have been moved, the channel has reached its terminal
  count and is started anew from its base registers or masked.
\<close>

definition request_spec :: "'v gmi \<Rightarrow> nat \<Rightarrow> IU8 list \<Rightarrow> nat \<Rightarrow> DMA_ADAPT \<Rightarrow> 'v sas \<Rightarrow> (bool \<times> IU8 list \<times> DMA_ADAPT \<times> 'v sas) option" where
  "request_spec gmi channel buf n a s =
     (let i = channel div 4; chan = channel mod 4; d = controller a i; m = mode d chan;
          offset = get_word (current_address d) chan; count = get_word (current_count d) chan
      in do {
           (buf, s) \<leftarrow> units gmi (transfer_type m) (unit_addr channel (page a channel) m offset) (dma_unit_size channel) 0 n buf s;
           let tc = (n = unat count + 1);
           let d' = d\<lparr>current_address := put_word chan (if tc \<and> auto_init m then get_word (base_address d) chan else if address_dec m then offset - of_nat n else offset + of_nat n) (current_address d),
             current_count := put_word chan (if tc \<and> auto_init m then get_word (base_count d) chan else count - of_nat n) (current_count d),
             status := (if tc then (status d OR push_bit chan 1) AND NOT (push_bit (4 + chan) 1) else status d),
             dma_mask := (if tc \<and> \<not> auto_init m then dma_mask d OR push_bit chan 1 else dma_mask d)\<rparr>;
           Some (\<not> tc, buf, a\<lparr>controller := (controller a)(i := d')\<rparr>, s)
         })"


lemma put_get_word: "put_word chan (get_word b chan) r = set_byte chan 1 (b chan 1) (set_byte chan 0 (b chan 0) r)"
proof -
  have "ucast (get_word b chan) = b chan 0" "ucast (drop_bit 8 (get_word b chan)) = b chan 1" unfolding get_word_def
    by (rule bit_word_eqI; auto simp: bit_simps dest: bit_imp_le_length)+
  then show ?thesis by (auto simp: put_word_def set_byte_def fun_upd_twist)
qed

lemma munch_nat:
  fixes count len :: IU16
  defines "munch \<equiv> (if ucast len < (ucast count + 1 :: IU32) then ucast len else ucast count + 1 :: IU32)"
  shows "unat munch = min (unat count + 1) (unat len)" "ucast munch = (of_nat (unat munch) :: IU16)"
proof -
  have u: "unat (ucast len :: IU32) = unat len" "unat (ucast count + 1 :: IU32) = unat count + 1"
    using unsigned_less [of len, where ?'a = nat] unsigned_less [of count, where ?'a = nat]
    by (simp_all add: unsigned_ucast_eq take_bit_nat_eq_self unat_word_ariths)
  then show "unat munch = min (unat count + 1) (unat len)" by (auto simp: munch_def word_less_nat_alt)
  show "ucast munch = (of_nat (unat munch) :: IU16)" by (metis of_nat_unat)
qed

lemma terminal_iff:
  fixes count :: IU16
  assumes "0 < n" "n \<le> unat count + 1"
  shows "count - of_nat n = 0xffff \<longleftrightarrow> n = unat count + 1"
proof
  assume "count - of_nat n = 0xffff"
  show "n = unat count + 1"
  proof (rule ccontr)
    assume "n \<noteq> unat count + 1"
    then have "n \<le> unat count" using assms(2) by simp
    then have "unat (count - of_nat n) = unat count - n" by (rule unat_sub_small)
    moreover have "unat count < 65536" using unsigned_less [of count, where ?'a = nat] by simp
    ultimately show False using \<open>count - of_nat n = 0xffff\<close> assms(1) \<open>n \<le> unat count\<close> by simp
  qed
qed simp

lemma terminal_count_regs:
  "terminal_count c (d\<lparr>current_address := put_word c x (current_address d), current_count := put_word c y (current_count d)\<rparr>) =
     d\<lparr>current_address := put_word c (if auto_init (mode d c) then get_word (base_address d) c else x) (current_address d),
       current_count := put_word c (if auto_init (mode d c) then get_word (base_count d) c else y) (current_count d),
       status := (status d OR push_bit c 1) AND NOT (push_bit (4 + c) 1),
       dma_mask := (if auto_init (mode d c) then dma_mask d else dma_mask d OR push_bit c 1)\<rparr>"
proof -
  have "set_byte c 1 u (set_byte c 0 w (put_word c v r)) = set_byte c 1 u (set_byte c 0 w r)" for u v w r
    by (auto simp: put_word_def set_byte_def)
  then show ?thesis by (cases d) (simp add: terminal_count_def Let_def put_get_word)
qed

lemma dma_request_units:
  assumes "channel < 8" "0 < len" "unat len * dma_unit_size channel \<le> length buf"
  shows "dma_request gmi channel buf len a s =
    (if controller_disable (controller a (channel div 4)) \<or> bit (dma_mask (controller a (channel div 4))) (channel mod 4) then Some (True, buf, a, s)
     else request_spec gmi channel buf (min (unat (get_word (current_count (controller a (channel div 4))) (channel mod 4)) + 1) (unat len)) a s)"
proof (cases "controller_disable (controller a (channel div 4)) \<or> bit (dma_mask (controller a (channel div 4))) (channel mod 4)")
  case True
  then show ?thesis by (simp add: dma_request_def dma_physical_controller_def dma_physical_channel_def)
next
  case False
  define d where "d = controller a (channel div 4)"
  define c where "c = channel mod 4"
  define count where "count = get_word (current_count d) c"
  define offset where "offset = get_word (current_address d) c"
  define munch where "munch = (if ucast len < (ucast count + 1 :: IU32) then ucast len else ucast count + 1 :: IU32)"
  note mn = munch_nat [of len count, folded munch_def]
  have n: "0 < unat munch" "unat munch \<le> unat count + 1" using mn(1) assms(2) by (simp_all add: word_less_nat_alt)
  have "unat count < 0x10000" using unsigned_less [of count, where ?'a = nat] by simp
  moreover have "unat munch * dma_unit_size channel \<le> unat len * dma_unit_size channel" using mn(1) by (intro mult_le_mono1) simp
  ultimately have "unat munch \<le> 0x10000" "unat munch * dma_unit_size channel \<le> length buf" using n assms(3) by linarith+
  then have mv: "move_block gmi channel pg m offset munch buf s = units gmi (transfer_type m) (unit_addr channel pg m offset) (dma_unit_size channel) 0 (unat munch) buf s" for pg m
    using move_block_units by blast
  note ti = terminal_iff [OF n, unfolded mn(2) [symmetric]]
  show ?thesis using False ti unfolding dma_request_def request_spec_def Let_def dma_physical_controller_def dma_physical_channel_def d_def [symmetric] c_def [symmetric]
      count_def [symmetric] offset_def [symmetric] munch_def [symmetric] mv mn(1) [symmetric] mn(2)
    by (cases "units gmi (transfer_type (mode d c)) (unit_addr channel (page a channel) (mode d c) offset) (dma_unit_size channel) 0 (unat munch) buf s")
      (auto simp: terminal_count_regs)
qed

section \<open>Properties\<close>

text \<open>
  C10. A DMA request on an open channel moves what the 8237A specifies: \<open>min (count + 1) length\<close> units, one by one and
  in order, between the device buffer and the addresses \<open>page:offset\<close>, \<open>page:offset \<plusminus> 1\<close>, and so on, wrapping
  inside the page of the channel (64K of bytes, or 128K of words at even addresses), for reads, writes and verifies and
  for both directions; the code does it in at most two block moves. The address and count registers run on, the
  result says whether more is to come, and the terminal count sets the status bit and restarts or masks the
  channel. On a masked channel or a disabled controller nothing happens at all.
\<close>

theorem dma_request_correct:
  assumes "channel < 8" "0 < len" "unat len * dma_unit_size channel \<le> length buf"
  shows "dma_request gmi channel buf len a s =
    (if controller_disable (controller a (channel div 4)) \<or> bit (dma_mask (controller a (channel div 4))) (channel mod 4) then Some (True, buf, a, s)
     else request_spec gmi channel buf (min (unat (get_word (current_count (controller a (channel div 4))) (channel mod 4)) + 1) (unat len)) a s)"
  using assms by (rule dma_request_units)

definition demo_cntrl :: "IU8 \<Rightarrow> (nat \<Rightarrow> nat \<Rightarrow> IU8) \<Rightarrow> (nat \<Rightarrow> nat \<Rightarrow> IU8) \<Rightarrow> DMA_CNTRL" where
  "demo_cntrl m addr cnt =
     \<lparr>base_address = addr, base_count = cnt, current_address = addr, current_count = cnt, temporary_address = \<lambda>_ _. 0, temporary_count = \<lambda>_ _. 0,
      status = 0, command = 0, temporary = 0, mode = \<lambda>_. m, dma_mask = 0, request = 0, first_last = 0\<rparr>"

definition demo_adapt :: DMA_ADAPT where
  "demo_adapt = \<lparr>controller = \<lambda>_. demo_cntrl 0x45 (\<lambda>_ _. 0xff) (\<lambda>_ k. if k = 0 then 1 else 0), page = \<lambda>_. 1\<rparr>"

definition demo_ram :: "unit sas" where
  "demo_ram = \<lparr>M_area = \<lambda>_. 0, Length_of_M_area = 0x20000, memory_type = \<lambda>_. SAS_RAM, SasWrapMask = 0xffffffff, junk_value = 0, video = ()\<rparr>"

text \<open>Two bytes from \<open>0x1ffff\<close> on: the second one wraps to the start of the page.\<close>

theorem dma_request_correct_witness:
  "\<forall>gmi. \<exists>a' s'. dma_request gmi 1 [7, 9] 2 demo_adapt demo_ram = Some (False, [7, 9], a', s') \<and>
     M_area s' 0x1ffff = 7 \<and> M_area s' 0x10000 = 9 \<and> M_area s' 0x20000 = 0 \<and> status (controller a' 0) = 2 \<and> dma_mask (controller a' 0) = 2"
proof
  fix gmi :: "unit gmi"
  have c: "get_word (current_count (controller demo_adapt 0)) 1 = 1" "get_word (current_address (controller demo_adapt 0)) 1 = 0xffff"
    by (simp_all add: demo_adapt_def demo_cntrl_def get_word_def)
  have u: "unit_addr 1 1 0x45 0xffff 0 = 0x1ffff" "unit_addr 1 1 0x45 0xffff 1 = 0x10000"
    by (simp_all add: unit_addr_def dma_system_address_def address_dec_def bit_numeral_rec)
  have w: "phy_w8 gmi 0x1ffff 7 demo_ram = Some (poke 0x1ffff 7 demo_ram)" "phy_w8 gmi 0x10000 9 (poke 0x1ffff 7 demo_ram) = Some (poke 0x10000 9 (poke 0x1ffff 7 demo_ram))"
    by (simp_all add: phy_w8_def demo_ram_def readSelfMod_def READ_SELF_MOD_def poke_def)
  have m: "transfer_type 0x45 = 1" "\<not> auto_init 0x45" by (simp_all add: transfer_type_def auto_init_def bit_numeral_rec)
  have us: "units gmi 1 (unit_addr 1 1 0x45 0xffff) 1 0 2 [7, 9] demo_ram = Some ([7, 9], poke 0x10000 9 (poke 0x1ffff 7 demo_ram))"
    using u w by (simp add: units_def numeral_2_eq_2)
  have z: "dma_unit_size 1 = 1" by (simp add: dma_unit_size_def)
  have d: "mode (controller demo_adapt 0) 1 = 0x45" "page demo_adapt 1 = 1" "status (controller demo_adapt 0) = 0" "dma_mask (controller demo_adapt 0) = 0"
      "\<not> controller_disable (controller demo_adapt 0)"
    by (simp_all add: demo_adapt_def demo_cntrl_def controller_disable_def)
  have "dma_request gmi 1 [7, 9] 2 demo_adapt demo_ram = request_spec gmi 1 [7, 9] 2 demo_adapt demo_ram"
    using dma_request_correct [of 1 2 "[7, 9]" gmi demo_adapt demo_ram] c(1) d z by (simp add: numeral_2_eq_2 [symmetric])
  then show "\<exists>a' s'. dma_request gmi 1 [7, 9] 2 demo_adapt demo_ram = Some (False, [7, 9], a', s') \<and>
     M_area s' 0x1ffff = 7 \<and> M_area s' 0x10000 = 9 \<and> M_area s' 0x20000 = 0 \<and> status (controller a' 0) = 2 \<and> dma_mask (controller a' 0) = 2"
    using c d m z us by (simp add: request_spec_def Let_def poke_def demo_ram_def)
qed

end
