(* ===== verification/Medium.thy ===== *)
theory Medium
  imports Softpc_Prelude "HOL-Library.Monad_Syntax"
begin

text \<open>
  The storage medium (\<open>src/lib/storage/medium.c\<close>): a byte addressed disk image on a host file, written through, read
  only, or with an overlay of pages that keep what the machine writes and leave the file alone.

  The host file (streams of the C library behind \<open>file.c\<close>) and the memory allocator are a parameter: reading and
  writing at an offset, flushing, and whether an allocation succeeds, answered for each block asked for on its own, so that
  memory may run out in the middle of a write. A null stream is \<open>None\<close>. Pointers passed in are not null, sizes are natural numbers: the range check keeps every sum below the
  size of the medium.
\<close>

section \<open>State\<close>

datatype lib_status = LIB_STATUS_OK | LIB_STATUS_INVALID_ARGUMENT | LIB_STATUS_INVALID_STATE | LIB_STATUS_UNSUPPORTED
  | LIB_STATUS_NO_MEMORY | LIB_STATUS_IO_ERROR | LIB_STATUS_INTERNAL_ERROR | LIB_STATUS_LIMIT_EXCEEDED

datatype lib_storage_medium_mode = LIB_STORAGE_MEDIUM_DIRECT | LIB_STORAGE_MEDIUM_READONLY | LIB_STORAGE_MEDIUM_OVERLAY

record 'f lib_storage_medium =
  med_file :: "'f option"
  med_pages :: "nat \<Rightarrow> 8 word list option"
  med_byte_count :: nat
  med_mode :: lib_storage_medium_mode

text \<open>The blocks that are allocated: the medium, the table of so many pages, the page at an index of the table.\<close>

datatype allocation = Medium_block | Page_table nat | Overlay_page nat

record 'f host =
  file_read :: "nat \<Rightarrow> nat \<Rightarrow> 'f \<Rightarrow> lib_status + 8 word list"
  file_write :: "nat \<Rightarrow> 8 word list \<Rightarrow> 'f \<Rightarrow> lib_status \<times> 'f"
  file_flush :: "'f \<Rightarrow> lib_status \<times> 'f"
  lib_allocate :: "allocation \<Rightarrow> bool"

abbreviation PAGE_BYTES :: nat where "PAGE_BYTES \<equiv> 4096"

section \<open>Creation\<close>

definition lib_storage_medium_page_count :: "nat \<Rightarrow> nat" where
  "lib_storage_medium_page_count n = n div PAGE_BYTES + of_bool (n mod PAGE_BYTES \<noteq> 0)"

text \<open>The overlay table starts with null pages; in the other modes there is no table.\<close>

definition lib_storage_medium_set_size :: "'f host \<Rightarrow> nat \<Rightarrow> 'f lib_storage_medium \<Rightarrow> lib_status \<times> 'f lib_storage_medium" where
  "lib_storage_medium_set_size h n m =
     (let count = lib_storage_medium_page_count n
      in if med_mode m = LIB_STORAGE_MEDIUM_OVERLAY \<and> count \<noteq> 0 \<and> \<not> lib_allocate h (Page_table count) then (LIB_STATUS_NO_MEMORY, m)
         else (LIB_STATUS_OK, m\<lparr>med_pages := (\<lambda>_. None), med_byte_count := n\<rparr>))"

definition lib_storage_medium_create :: "'f host \<Rightarrow> nat \<Rightarrow> lib_storage_medium_mode \<Rightarrow> lib_status + 'f lib_storage_medium" where
  "lib_storage_medium_create h n md =
     (if \<not> lib_allocate h Medium_block then Inl LIB_STATUS_NO_MEMORY
      else (case lib_storage_medium_set_size h n \<lparr>med_file = None, med_pages = (\<lambda>_. None), med_byte_count = 0, med_mode = md\<rparr> of
          (LIB_STATUS_OK, m) \<Rightarrow> Inr m
        | (st, _) \<Rightarrow> Inl st))"

definition lib_storage_medium_create_zero_overlay :: "'f host \<Rightarrow> nat \<Rightarrow> lib_status + 'f lib_storage_medium" where
  "lib_storage_medium_create_zero_overlay h n = lib_storage_medium_create h n LIB_STORAGE_MEDIUM_OVERLAY"

text \<open>Opening: what the host answers when the path is opened, the stream and its length.\<close>

definition lib_storage_medium_open :: "'f host \<Rightarrow> (lib_status + 'f \<times> nat) \<Rightarrow> lib_storage_medium_mode \<Rightarrow> lib_status + 'f lib_storage_medium" where
  "lib_storage_medium_open h opened md =
     (case lib_storage_medium_create h 0 md of Inl st \<Rightarrow> Inl st
      | Inr m \<Rightarrow> (case opened of Inl st \<Rightarrow> Inl st
          | Inr (f, n) \<Rightarrow> (case lib_storage_medium_set_size h n (m\<lparr>med_file := Some f\<rparr>) of (LIB_STATUS_OK, m) \<Rightarrow> Inr m | (st, _) \<Rightarrow> Inl st)))"

section \<open>Reading\<close>

definition lib_storage_medium_range :: "'f lib_storage_medium \<Rightarrow> nat \<Rightarrow> nat \<Rightarrow> lib_status" where
  "lib_storage_medium_range m offset n =
     (if med_byte_count m < offset \<or> med_byte_count m - offset < n then LIB_STATUS_INVALID_ARGUMENT else LIB_STATUS_OK)"

definition lib_storage_medium_read_base :: "'f host \<Rightarrow> 'f lib_storage_medium \<Rightarrow> nat \<Rightarrow> nat \<Rightarrow> lib_status + 8 word list" where
  "lib_storage_medium_read_base h m offset n =
     (if n = 0 then Inr []
      else case med_file m of None \<Rightarrow> Inr (replicate n 0) | Some f \<Rightarrow> file_read h offset n f)"

text \<open>The part of a range that lies in the first page it touches.\<close>

definition page_part :: "nat \<Rightarrow> nat \<Rightarrow> nat" where
  "page_part offset n = min (PAGE_BYTES - offset mod PAGE_BYTES) n"

lemma page_part_pos: "0 < n \<Longrightarrow> 0 < page_part offset n"
  by (simp add: page_part_def)

function read_pages :: "'f host \<Rightarrow> 'f lib_storage_medium \<Rightarrow> nat \<Rightarrow> nat \<Rightarrow> lib_status + 8 word list" where
  "read_pages h m offset n =
     (if n = 0 then Inr []
      else (case (case med_pages m (offset div PAGE_BYTES) of
                Some p \<Rightarrow> Inr (take (page_part offset n) (drop (offset mod PAGE_BYTES) p))
              | None \<Rightarrow> lib_storage_medium_read_base h m offset (page_part offset n)) of
          Inl st \<Rightarrow> Inl st
        | Inr bs \<Rightarrow> (case read_pages h m (offset + page_part offset n) (n - page_part offset n) of Inl st \<Rightarrow> Inl st | Inr rest \<Rightarrow> Inr (bs @ rest))))"
  by auto
termination by (relation "measure (\<lambda>(h, m, offset, n). n)") (auto simp: page_part_def)

definition lib_storage_medium_read_at :: "'f host \<Rightarrow> 'f lib_storage_medium \<Rightarrow> nat \<Rightarrow> nat \<Rightarrow> lib_status + 8 word list" where
  "lib_storage_medium_read_at h m offset n =
     (if lib_storage_medium_range m offset n \<noteq> LIB_STATUS_OK then Inl LIB_STATUS_INVALID_ARGUMENT
      else if med_mode m \<noteq> LIB_STORAGE_MEDIUM_OVERLAY then lib_storage_medium_read_base h m offset n
      else read_pages h m offset n)"

section \<open>Writing\<close>

definition lib_storage_medium_page_for_write :: "'f host \<Rightarrow> nat \<Rightarrow> 'f lib_storage_medium \<Rightarrow> (lib_status + 8 word list) \<times> 'f lib_storage_medium" where
  "lib_storage_medium_page_for_write h ix m =
     (case med_pages m ix of Some p \<Rightarrow> (Inr p, m)
      | None \<Rightarrow>
          if \<not> lib_allocate h (Overlay_page ix) then (Inl LIB_STATUS_NO_MEMORY, m)
          else (let offset = ix * PAGE_BYTES; count = min (med_byte_count m - offset) PAGE_BYTES
                in case lib_storage_medium_read_base h m offset count of
                    Inl st \<Rightarrow> (Inl st, m)
                  | Inr bs \<Rightarrow> (let p = bs @ replicate (PAGE_BYTES - count) 0 in (Inr p, m\<lparr>med_pages := (med_pages m)(ix \<mapsto> p)\<rparr>))))"

function write_pages :: "'f host \<Rightarrow> nat \<Rightarrow> 8 word list \<Rightarrow> 'f lib_storage_medium \<Rightarrow> lib_status \<times> 'f lib_storage_medium" where
  "write_pages h offset bs m =
     (if bs = [] then (LIB_STATUS_OK, m)
      else (let ix = offset div PAGE_BYTES; at = offset mod PAGE_BYTES; count = page_part offset (length bs)
            in case lib_storage_medium_page_for_write h ix m of
                (Inl st, m) \<Rightarrow> (st, m)
              | (Inr p, m) \<Rightarrow>
                  write_pages h (offset + count) (drop count bs)
                    (m\<lparr>med_pages := (med_pages m)(ix \<mapsto> take at p @ take count bs @ drop (at + count) p)\<rparr>)))"
  by auto
termination by (relation "measure (\<lambda>(h, offset, bs, m). length bs)") (auto simp: page_part_def)

definition lib_storage_medium_write :: "'f host \<Rightarrow> nat \<Rightarrow> 8 word list \<Rightarrow> 'f lib_storage_medium \<Rightarrow> lib_status \<times> 'f lib_storage_medium" where
  "lib_storage_medium_write h offset bs m =
     (if lib_storage_medium_range m offset (length bs) \<noteq> LIB_STATUS_OK then (LIB_STATUS_INVALID_ARGUMENT, m)
      else case med_mode m of
          LIB_STORAGE_MEDIUM_READONLY \<Rightarrow> (LIB_STATUS_INVALID_STATE, m)
        | LIB_STORAGE_MEDIUM_DIRECT \<Rightarrow>
            (case med_file m of None \<Rightarrow> (LIB_STATUS_INVALID_ARGUMENT, m)
             | Some f \<Rightarrow> (let (st, f) = file_write h offset bs f in (st, m\<lparr>med_file := Some f\<rparr>)))
        | LIB_STORAGE_MEDIUM_OVERLAY \<Rightarrow> write_pages h offset bs m)"

definition flush_direct :: "'f host \<Rightarrow> 'f lib_storage_medium \<Rightarrow> lib_status \<times> 'f lib_storage_medium" where
  "flush_direct h m =
     (case med_file m of None \<Rightarrow> (LIB_STATUS_INVALID_ARGUMENT, m)
      | Some f \<Rightarrow> (let (st, f) = file_flush h f in (st, m\<lparr>med_file := Some f\<rparr>)))"

definition lib_storage_medium_write_at :: "'f host \<Rightarrow> nat \<Rightarrow> 8 word list \<Rightarrow> 'f lib_storage_medium \<Rightarrow> lib_status \<times> 'f lib_storage_medium" where
  "lib_storage_medium_write_at h offset bs m =
     (case lib_storage_medium_write h offset bs m of (st, m) \<Rightarrow>
        if st = LIB_STATUS_OK \<and> med_mode m = LIB_STORAGE_MEDIUM_DIRECT then flush_direct h m else (st, m))"

text \<open>The loop of \<open>lib_storage_medium_fill_at\<close> over a buffer of 512 bytes.\<close>

function fill_loop :: "'f host \<Rightarrow> nat \<Rightarrow> nat \<Rightarrow> 8 word \<Rightarrow> 'f lib_storage_medium \<Rightarrow> lib_status \<times> 'f lib_storage_medium" where
  "fill_loop h offset n v m =
     (if n = 0 then (LIB_STATUS_OK, m)
      else (case lib_storage_medium_write h offset (replicate (min 512 n) v) m of
          (LIB_STATUS_OK, m) \<Rightarrow> fill_loop h (offset + min 512 n) (n - min 512 n) v m
        | (st, m) \<Rightarrow> (st, m)))"
  by auto
termination by (relation "measure (\<lambda>(h, offset, n, v, m). n)") auto

definition lib_storage_medium_fill_at :: "'f host \<Rightarrow> nat \<Rightarrow> nat \<Rightarrow> 8 word \<Rightarrow> 'f lib_storage_medium \<Rightarrow> lib_status \<times> 'f lib_storage_medium" where
  "lib_storage_medium_fill_at h offset n v m =
     (if lib_storage_medium_range m offset n \<noteq> LIB_STATUS_OK then (LIB_STATUS_INVALID_ARGUMENT, m)
      else if n = 0 then (LIB_STATUS_OK, m)
      else (case fill_loop h offset n v m of (st, m) \<Rightarrow>
        if med_mode m = LIB_STORAGE_MEDIUM_DIRECT
        then (let (st', m) = flush_direct h m in (if st = LIB_STATUS_OK then st' else st, m))
        else (st, m)))"

definition lib_storage_medium_create_overlay :: "'f host \<Rightarrow> 8 word list \<Rightarrow> lib_status + 'f lib_storage_medium" where
  "lib_storage_medium_create_overlay h bs =
     (case lib_storage_medium_create h (length bs) LIB_STORAGE_MEDIUM_OVERLAY of
        Inl st \<Rightarrow> Inl st
      | Inr m \<Rightarrow> if bs = [] then Inr m
          else (case lib_storage_medium_write_at h 0 bs m of (LIB_STATUS_OK, m) \<Rightarrow> Inr m | (st, _) \<Rightarrow> Inl st))"

declare read_pages.simps [simp del] write_pages.simps [simp del] fill_loop.simps [simp del]

end
