(* ===== verification/Medium_Inv.thy ===== *)
theory Medium_Inv
  imports Medium
begin

text \<open>
  Correctness of the storage medium: with an overlay it behaves as one array of bytes that starts as the image and is
  updated by writes, while the host file stays as it is.
\<close>

section \<open>The medium as an array\<close>

text \<open>
  What the host file holds: a read that succeeds delivers the bytes of the image in order. A medium without
  a stream is an image of zeros.
\<close>

definition holds :: "'f host \<Rightarrow> 'f lib_storage_medium \<Rightarrow> (nat \<Rightarrow> 8 word) \<Rightarrow> bool" where
  "holds h m base \<longleftrightarrow> (case med_file m of None \<Rightarrow> base = (\<lambda>_. 0)
     | Some f \<Rightarrow> \<forall>offset n. (case file_read h offset n f of Inl st \<Rightarrow> st \<noteq> LIB_STATUS_OK | Inr bs \<Rightarrow> bs = map base [offset..<offset + n]))"

definition contents :: "(nat \<Rightarrow> 8 word) \<Rightarrow> 'f lib_storage_medium \<Rightarrow> nat \<Rightarrow> 8 word" where
  "contents base m i = (case med_pages m (i div PAGE_BYTES) of Some p \<Rightarrow> p ! (i mod PAGE_BYTES) | None \<Rightarrow> base i)"

definition pages_wf :: "'f lib_storage_medium \<Rightarrow> bool" where
  "pages_wf m \<longleftrightarrow> (\<forall>ix p. med_pages m ix = Some p \<longrightarrow> length p = PAGE_BYTES)"

lemma read_base_holds:
  assumes "holds h m base"
  shows "case lib_storage_medium_read_base h m offset n of Inl st \<Rightarrow> st \<noteq> LIB_STATUS_OK | Inr bs \<Rightarrow> bs = map base [offset..<offset + n]"
proof (cases "med_file m")
  case None
  then show ?thesis using assms by (simp add: lib_storage_medium_read_base_def holds_def map_replicate_const)
next
  case (Some f)
  then have "case file_read h offset n f of Inl st \<Rightarrow> st \<noteq> LIB_STATUS_OK | Inr bs \<Rightarrow> bs = map base [offset..<offset + n]"
    using assms by (simp add: holds_def)
  then show ?thesis using Some by (simp add: lib_storage_medium_read_base_def)
qed

lemma same_page_index:
  assumes "offset \<le> i" "i < offset + page_part offset n"
  shows "i div PAGE_BYTES = offset div PAGE_BYTES" "i mod PAGE_BYTES = offset mod PAGE_BYTES + (i - offset)"
proof -
  define q r where "q = offset div PAGE_BYTES" and "r = offset mod PAGE_BYTES + (i - offset)"
  have "offset = PAGE_BYTES * q + offset mod PAGE_BYTES" unfolding q_def by simp
  then have i: "i = PAGE_BYTES * q + r" using assms(1) unfolding r_def by linarith
  have "r < PAGE_BYTES" using assms by (simp add: page_part_def r_def)
  then have "i div PAGE_BYTES = q" "i mod PAGE_BYTES = r" unfolding i by simp_all
  then show "i div PAGE_BYTES = offset div PAGE_BYTES" "i mod PAGE_BYTES = offset mod PAGE_BYTES + (i - offset)" by (simp_all add: q_def r_def)
qed

lemma part_contents:
  assumes "pages_wf m" "holds h m base"
    and "(case med_pages m (offset div PAGE_BYTES) of
        Some p \<Rightarrow> Inr (take (page_part offset n) (drop (offset mod PAGE_BYTES) p))
      | None \<Rightarrow> lib_storage_medium_read_base h m offset (page_part offset n)) = Inr bs"
  shows "bs = map (contents base m) [offset..<offset + page_part offset n]"
proof (cases "med_pages m (offset div PAGE_BYTES)")
  case None
  then have "bs = map base [offset..<offset + page_part offset n]" using assms(3) read_base_holds [OF assms(2), of offset "page_part offset n"] by simp
  then show ?thesis using None same_page_index by (auto simp: contents_def)
next
  case (Some p)
  then have l: "length p = PAGE_BYTES" using assms(1) by (auto simp: pages_wf_def)
  have c: "page_part offset n \<le> PAGE_BYTES - offset mod PAGE_BYTES" by (simp add: page_part_def)
  have b: "bs = take (page_part offset n) (drop (offset mod PAGE_BYTES) p)" using assms(3) Some by simp
  show ?thesis
  proof (rule nth_equalityI)
    show "length bs = length (map (contents base m) [offset..<offset + page_part offset n])" using b l c by simp
    fix k assume "k < length bs"
    then have k: "k < page_part offset n" using b by simp
    have "(offset + k) div PAGE_BYTES = offset div PAGE_BYTES" "(offset + k) mod PAGE_BYTES = offset mod PAGE_BYTES + k"
      using same_page_index [of offset "offset + k" n] k by simp_all
    then show "bs ! k = map (contents base m) [offset..<offset + page_part offset n] ! k" using k b l Some by (simp add: contents_def)
  qed
qed

lemma read_pages_contents:
  assumes "pages_wf m" "holds h m base"
  shows "read_pages h m offset n = Inr bs \<Longrightarrow> bs = map (contents base m) [offset..<offset + n]"
  using assms
proof (induction h m offset n arbitrary: bs rule: read_pages.induct)
  case (1 h m offset n)
  show ?case
  proof (cases "n = 0")
    case False
    let ?c = "page_part offset n"
    obtain b1 b2 where b: "(case med_pages m (offset div PAGE_BYTES) of Some p \<Rightarrow> Inr (take ?c (drop (offset mod PAGE_BYTES) p))
        | None \<Rightarrow> lib_storage_medium_read_base h m offset ?c) = Inr b1" "read_pages h m (offset + ?c) (n - ?c) = Inr b2" "bs = b1 @ b2"
      using "1.prems"(1) False by (subst (asm) read_pages.simps) (auto split: sum.splits)
    have "b1 = map (contents base m) [offset..<offset + ?c]" by (rule part_contents [OF "1.prems"(2,3) b(1)])
    moreover have "b2 = map (contents base m) [offset + ?c..<offset + ?c + (n - ?c)]" by (rule "1.IH" [OF False b(1,2) "1.prems"(2,3)])
    moreover have "?c \<le> n" by (simp add: page_part_def)
    ultimately show ?thesis using b(3) upt_add_eq_append [of offset "offset + ?c" "n - ?c"] by simp
  qed (use "1.prems" in \<open>simp add: read_pages.simps\<close>)
qed

section \<open>Writes\<close>

text \<open>What every write keeps: the host file, the size and the mode of the medium, and the shape of the overlay.\<close>

definition kept :: "'f lib_storage_medium \<Rightarrow> 'f lib_storage_medium \<Rightarrow> bool" where
  "kept m m' \<longleftrightarrow> med_file m' = med_file m \<and> med_byte_count m' = med_byte_count m \<and> med_mode m' = med_mode m \<and> pages_wf m'"

lemma kept_holds: "kept m m' \<Longrightarrow> holds h m' base = holds h m base"
  by (simp add: kept_def holds_def)

lemma page_for_write_ok:
  assumes wf: "pages_wf m" and h: "holds h m base" and w: "lib_storage_medium_page_for_write h ix m = (r, m')"
  shows "kept m m'" "\<forall>i < med_byte_count m. contents base m' i = contents base m i"
    "case r of Inl st \<Rightarrow> st \<noteq> LIB_STATUS_OK \<and> m' = m | Inr p \<Rightarrow> med_pages m' ix = Some p \<and> length p = PAGE_BYTES"
proof -
  let ?c = "min (med_byte_count m - ix * PAGE_BYTES) PAGE_BYTES"
  have "kept m m' \<and> (\<forall>i < med_byte_count m. contents base m' i = contents base m i) \<and>
    (case r of Inl st \<Rightarrow> st \<noteq> LIB_STATUS_OK \<and> m' = m | Inr p \<Rightarrow> med_pages m' ix = Some p \<and> length p = PAGE_BYTES)"
  proof (cases "med_pages m ix")
    case (Some p)
    then show ?thesis using wf w by (auto simp: lib_storage_medium_page_for_write_def kept_def pages_wf_def)
  next
    case None
    note rb = read_base_holds [OF h, of "ix * PAGE_BYTES" ?c]
    show ?thesis
    proof (cases "lib_allocate h (Overlay_page ix) \<and> (\<exists>bs. lib_storage_medium_read_base h m (ix * PAGE_BYTES) ?c = Inr bs)")
      case True
      then obtain bs where bs: "lib_storage_medium_read_base h m (ix * PAGE_BYTES) ?c = Inr bs" by blast
      define p where "p = map base [ix * PAGE_BYTES..<ix * PAGE_BYTES + ?c] @ replicate (PAGE_BYTES - ?c) 0"
      have m': "r = Inr p" "m' = m\<lparr>med_pages := (med_pages m)(ix \<mapsto> p)\<rparr>"
        using w None True bs rb by (auto simp: lib_storage_medium_page_for_write_def Let_def p_def)
      have "contents base m' i = contents base m i" if i: "i < med_byte_count m" for i
      proof (cases "i div PAGE_BYTES = ix")
        case True
        have "i = ix * PAGE_BYTES + i mod PAGE_BYTES" using True by (metis div_mult_mod_eq)
        moreover have "i mod PAGE_BYTES < ?c" using i calculation by (simp add: less_diff_conv)
        ultimately have "p ! (i mod PAGE_BYTES) = base i" unfolding p_def by (simp add: nth_append)
        then show ?thesis using True None m'(2) by (simp add: contents_def)
      qed (simp add: m'(2) contents_def)
      moreover have "length p = PAGE_BYTES" by (simp add: p_def)
      ultimately show ?thesis using m' wf by (simp add: kept_def pages_wf_def)
    next
      case False
      then show ?thesis using w None rb wf
        by (auto simp: lib_storage_medium_page_for_write_def Let_def kept_def split: sum.splits if_splits)
    qed
  qed
  then show "kept m m'" "\<forall>i < med_byte_count m. contents base m' i = contents base m i"
    "case r of Inl st \<Rightarrow> st \<noteq> LIB_STATUS_OK \<and> m' = m | Inr p \<Rightarrow> med_pages m' ix = Some p \<and> length p = PAGE_BYTES" by blast+
qed

lemma put_page_contents:
  assumes p: "med_pages m (offset div PAGE_BYTES) = Some p" "length p = PAGE_BYTES" and c: "c = page_part offset (length bs)" and wf: "pages_wf m"
    and m': "m' = m\<lparr>med_pages := (med_pages m)(offset div PAGE_BYTES \<mapsto> take (offset mod PAGE_BYTES) p @ take c bs @ drop (offset mod PAGE_BYTES + c) p)\<rparr>"
  shows "kept m m'" "contents base m' i = (if offset \<le> i \<and> i < offset + c then bs ! (i - offset) else contents base m i)"
proof -
  let ?at = "offset mod PAGE_BYTES"
  let ?p = "take ?at p @ take c bs @ drop (?at + c) p"
  have at: "?at < PAGE_BYTES" by simp
  have cc: "c \<le> length bs" "?at + c \<le> PAGE_BYTES" using at by (auto simp: c page_part_def)
  then have l: "length ?p = PAGE_BYTES" "length (take c bs) = c" "length (take ?at p) = ?at" using p(2) at by simp_all
  then show "kept m m'" using wf by (simp add: kept_def pages_wf_def m')
  show "contents base m' i = (if offset \<le> i \<and> i < offset + c then bs ! (i - offset) else contents base m i)"
  proof (cases "offset \<le> i \<and> i < offset + c")
    case True
    note ix = same_page_index [of offset i "length bs", folded c, OF conjunct1 [OF True] conjunct2 [OF True]]
    define k where "k = i - offset"
    have "k < c" using True by (auto simp: k_def)
    then have "?p ! (?at + k) = bs ! k" using l by (simp add: nth_append)
    then show ?thesis using True ix unfolding k_def [symmetric] by (simp add: contents_def m')
  next
    case False
    have "?p ! (i mod PAGE_BYTES) = p ! (i mod PAGE_BYTES)" if e: "i div PAGE_BYTES = offset div PAGE_BYTES"
    proof -
      have "i = PAGE_BYTES * (offset div PAGE_BYTES) + i mod PAGE_BYTES" using e by (metis mult_div_mod_eq)
      moreover have "offset = PAGE_BYTES * (offset div PAGE_BYTES) + ?at" by simp
      ultimately have "i mod PAGE_BYTES < ?at \<or> ?at + c \<le> i mod PAGE_BYTES" using False by linarith
      then show ?thesis using l(2,3) cc p(2) by (auto simp: nth_append)
    qed
    then show ?thesis using False p(1) by (auto simp: contents_def m')
  qed
qed

definition overwrite :: "nat \<Rightarrow> 8 word list \<Rightarrow> (nat \<Rightarrow> 8 word) \<Rightarrow> nat \<Rightarrow> 8 word" where
  "overwrite offset bs c i = (if offset \<le> i \<and> i < offset + length bs then bs ! (i - offset) else c i)"

lemma overwrite_cong: "f i = g i \<Longrightarrow> overwrite offset bs f i = overwrite offset bs g i"
  by (simp add: overwrite_def)

lemma overwrite_part:
  assumes "c \<le> length bs" "k \<le> length bs - c"
  shows "overwrite (offset + c) (take k (drop c bs)) (overwrite offset (take c bs) f) = overwrite offset (take (c + k) bs) f"
proof
  fix i
  have "i - offset = c + (i - (offset + c))" if "offset + c \<le> i" using that by simp
  then show "overwrite (offset + c) (take k (drop c bs)) (overwrite offset (take c bs) f) i = overwrite offset (take (c + k) bs) f i"
    using assms by (auto simp: overwrite_def)
qed

text \<open>A write stores a prefix of the bytes, all of them exactly when it reports success, and changes nothing else.\<close>

definition wrote :: "(nat \<Rightarrow> 8 word) \<Rightarrow> nat \<Rightarrow> 8 word list \<Rightarrow> 'f lib_storage_medium \<Rightarrow> lib_status \<Rightarrow> 'f lib_storage_medium \<Rightarrow> bool" where
  "wrote base offset bs m st m' \<longleftrightarrow> kept m m' \<and>
     (\<exists>k \<le> length bs. (st = LIB_STATUS_OK \<longleftrightarrow> k = length bs) \<and>
       (\<forall>i < med_byte_count m. contents base m' i = overwrite offset (take k bs) (contents base m) i))"

lemma write_pages_wrote:
  assumes "pages_wf m" "holds h m base" "write_pages h offset bs m = (st, m')"
  shows "wrote base offset bs m st m'"
  using assms
proof (induction h offset bs m arbitrary: st m' rule: write_pages.induct)
  case (1 h offset bs m)
  show ?case
  proof (cases "bs = []")
    case True
    then show ?thesis using "1.prems" by (auto simp: write_pages.simps wrote_def kept_def overwrite_def)
  next
    case False
    let ?ix = "offset div PAGE_BYTES"
    define c where "c = page_part offset (length bs)"
    have c: "0 < c" "c \<le> length bs" using False page_part_pos [of "length bs" offset] by (auto simp: c_def page_part_def)
    obtain r m1 where w: "lib_storage_medium_page_for_write h ?ix m = (r, m1)" by (cases "lib_storage_medium_page_for_write h ?ix m")
    note pw = page_for_write_ok [OF "1.prems"(1,2) w]
    show ?thesis
    proof (cases r)
      case (Inl e)
      then have "st \<noteq> LIB_STATUS_OK" "m' = m" using "1.prems"(3) False w pw(3) by (auto simp: write_pages.simps Let_def)
      then show ?thesis using "1.prems"(1) False unfolding wrote_def by (intro conjI exI [of _ 0]) (auto simp: kept_def overwrite_def)
    next
      case (Inr p)
      let ?m2 = "m1\<lparr>med_pages := (med_pages m1)(?ix \<mapsto> take (offset mod PAGE_BYTES) p @ take c bs @ drop (offset mod PAGE_BYTES + c) p)\<rparr>"
      have wf1: "pages_wf m1" using pw(1) by (simp add: kept_def)
      have p: "med_pages m1 ?ix = Some p" "length p = PAGE_BYTES" using pw(3) Inr by simp_all
      note pp1 = put_page_contents(1) [OF p c_def wf1 refl] and pp2 = put_page_contents(2) [OF p c_def wf1 refl, of base]
      have k2: "kept m ?m2" using pw(1) pp1 by (simp add: kept_def)
      have rest: "write_pages h (offset + c) (drop c bs) ?m2 = (st, m')" using "1.prems"(3) False w Inr by (subst (asm) write_pages.simps) (simp add: Let_def c_def)
      have "wrote base (offset + c) (drop c bs) ?m2 st m'"
        by (rule "1.IH" [OF False refl refl c_def w [symmetric] Inr _ _ rest]) (use k2 kept_holds [OF k2] "1.prems"(2) in \<open>simp_all add: kept_def\<close>)
      then obtain k where k: "kept ?m2 m'" "k \<le> length (drop c bs)" "st = LIB_STATUS_OK \<longleftrightarrow> k = length (drop c bs)"
        "\<forall>i < med_byte_count m. contents base m' i = overwrite (offset + c) (take k (drop c bs)) (contents base ?m2) i"
        using k2 by (auto simp: wrote_def kept_def)
      have "contents base ?m2 i = overwrite offset (take c bs) (contents base m) i" if "i < med_byte_count m" for i
        using pp2 [of i] pw(2) that c(2) by (auto simp: overwrite_def)
      then have "contents base m' i = overwrite offset (take (c + k) bs) (contents base m) i" if "i < med_byte_count m" for i
        using k(2,4) that overwrite_part [OF c(2), of k offset "contents base m"] overwrite_cong [of "contents base ?m2" i "overwrite offset (take c bs) (contents base m)"] by simp
      moreover have "kept m m'" using k(1) k2 by (simp add: kept_def)
      ultimately show ?thesis using k(2,3) c(2) unfolding wrote_def by (intro conjI exI [of _ "c + k"]) auto
    qed
  qed
qed

section \<open>Success\<close>

text \<open>A host that can read every part of the image, and one that also has memory for every page.\<close>

definition readable :: "'f host \<Rightarrow> 'f lib_storage_medium \<Rightarrow> bool" where
  "readable h m \<longleftrightarrow> (\<forall>offset n. offset + n \<le> med_byte_count m \<longrightarrow> (\<exists>bs. lib_storage_medium_read_base h m offset n = Inr bs))"

definition reliable :: "'f host \<Rightarrow> 'f lib_storage_medium \<Rightarrow> bool" where
  "reliable h m \<longleftrightarrow> readable h m \<and> (\<forall>ix. lib_allocate h (Overlay_page ix))"

lemma kept_reliable: "kept m m' \<Longrightarrow> reliable h m' = reliable h m"
  by (simp add: kept_def reliable_def readable_def lib_storage_medium_read_base_def)

lemma read_pages_total: "readable h m \<Longrightarrow> offset + n \<le> med_byte_count m \<Longrightarrow> \<exists>bs. read_pages h m offset n = Inr bs"
proof (induction h m offset n rule: read_pages.induct)
  case (1 h m offset n)
  show ?case
  proof (cases "n = 0")
    case False
    let ?c = "page_part offset n"
    have c: "?c \<le> n" by (simp add: page_part_def)
    obtain b1 where b1: "(case med_pages m (offset div PAGE_BYTES) of Some p \<Rightarrow> Inr (take ?c (drop (offset mod PAGE_BYTES) p))
        | None \<Rightarrow> lib_storage_medium_read_base h m offset ?c) = Inr b1"
    proof (cases "med_pages m (offset div PAGE_BYTES)")
      case None
      have "offset + ?c \<le> med_byte_count m" using "1.prems"(2) c by linarith
      then show ?thesis using that None "1.prems"(1) unfolding readable_def by fastforce
    qed (use that in auto)
    obtain b2 where "read_pages h m (offset + ?c) (n - ?c) = Inr b2" using "1.IH" [OF False b1] "1.prems" c by auto
    then show ?thesis using False b1 by (subst read_pages.simps) simp
  qed (simp add: read_pages.simps)
qed

lemma write_pages_total:
  "pages_wf m \<Longrightarrow> holds h m base \<Longrightarrow> reliable h m \<Longrightarrow> offset + length bs \<le> med_byte_count m \<Longrightarrow> fst (write_pages h offset bs m) = LIB_STATUS_OK"
proof (induction h offset bs m rule: write_pages.induct)
  case (1 h offset bs m)
  show ?case
  proof (cases "bs = []")
    case False
    let ?ix = "offset div PAGE_BYTES"
    define c where "c = page_part offset (length bs)"
    have c: "c \<le> length bs" by (simp add: c_def page_part_def)
    obtain r m1 where w: "lib_storage_medium_page_for_write h ?ix m = (r, m1)" by (cases "lib_storage_medium_page_for_write h ?ix m")
    note pw = page_for_write_ok [OF "1.prems"(1,2) w]
    have "?ix * PAGE_BYTES \<le> offset" by simp
    then have "?ix * PAGE_BYTES + min (med_byte_count m - ?ix * PAGE_BYTES) PAGE_BYTES \<le> med_byte_count m" using "1.prems"(4) by linarith
    then obtain b where "lib_storage_medium_read_base h m (?ix * PAGE_BYTES) (min (med_byte_count m - ?ix * PAGE_BYTES) PAGE_BYTES) = Inr b"
      using "1.prems"(3) unfolding reliable_def readable_def by blast
    then obtain p where Inr: "r = Inr p" using w "1.prems"(3)
      by (cases "med_pages m ?ix") (auto simp: lib_storage_medium_page_for_write_def reliable_def Let_def)
    let ?m2 = "m1\<lparr>med_pages := (med_pages m1)(?ix \<mapsto> take (offset mod PAGE_BYTES) p @ take c bs @ drop (offset mod PAGE_BYTES + c) p)\<rparr>"
    have "med_pages m1 ?ix = Some p" "length p = PAGE_BYTES" "pages_wf m1" using pw(1,3) Inr by (simp_all add: kept_def)
    from put_page_contents(1) [OF this(1,2) c_def this(3) refl] have "kept m1 ?m2" .
    then have k2: "kept m ?m2" using pw(1) by (simp add: kept_def)
    have "fst (write_pages h (offset + c) (drop c bs) ?m2) = LIB_STATUS_OK"
      by (rule "1.IH" [OF False refl refl c_def w [symmetric] Inr])
        (use k2 kept_holds [OF k2] kept_reliable [OF k2] "1.prems" c in \<open>simp_all add: kept_def\<close>)
    then show ?thesis using False w Inr by (subst write_pages.simps) (simp add: Let_def c_def)
  qed (simp add: write_pages.simps)
qed

section \<open>Fills\<close>

lemma wrote_append:
  assumes "wrote base offset bs m LIB_STATUS_OK m1" "wrote base (offset + length bs) cs m1 st m'"
  shows "wrote base offset (bs @ cs) m st m'"
proof -
  have 1: "kept m m1" "\<forall>i < med_byte_count m. contents base m1 i = overwrite offset bs (contents base m) i"
    using assms(1) by (auto simp: wrote_def)
  obtain k where k: "kept m1 m'" "k \<le> length cs" "st = LIB_STATUS_OK \<longleftrightarrow> k = length cs"
    "\<forall>i < med_byte_count m. contents base m' i = overwrite (offset + length bs) (take k cs) (contents base m1) i"
    using assms(2) 1(1) by (auto simp: wrote_def kept_def)
  have "contents base m' i = overwrite offset (take (length bs + k) (bs @ cs)) (contents base m) i" if "i < med_byte_count m" for i
    using overwrite_part [of "length bs" "bs @ cs" k offset "contents base m"] k(2,4) 1(2) that
      overwrite_cong [of "contents base m1" i "overwrite offset bs (contents base m)"] by simp
  then show ?thesis using k(1-3) 1(1) unfolding wrote_def by (intro conjI exI [of _ "length bs + k"]) (auto simp: kept_def)
qed

lemma overlay_write:
  assumes "med_mode m = LIB_STORAGE_MEDIUM_OVERLAY" "offset + length bs \<le> med_byte_count m"
  shows "lib_storage_medium_write h offset bs m = write_pages h offset bs m"
  using assms by (auto simp: lib_storage_medium_write_def lib_storage_medium_range_def)

lemma fill_loop_wrote:
  assumes "pages_wf m" "holds h m base" "med_mode m = LIB_STORAGE_MEDIUM_OVERLAY" "offset + n \<le> med_byte_count m" "fill_loop h offset n v m = (st, m')"
  shows "wrote base offset (replicate n v) m st m' \<and> (reliable h m \<longrightarrow> st = LIB_STATUS_OK)"
  using assms
proof (induction h offset n v m arbitrary: st m' rule: fill_loop.induct)
  case (1 h offset n v m)
  show ?case
  proof (cases "n = 0")
    case True
    then show ?thesis using "1.prems" by (auto simp: fill_loop.simps wrote_def kept_def overwrite_def)
  next
    case False
    let ?c = "min 512 n"
    obtain s1 m1 where w: "lib_storage_medium_write h offset (replicate ?c v) m = (s1, m1)" by (cases "lib_storage_medium_write h offset (replicate ?c v) m")
    then have p: "write_pages h offset (replicate ?c v) m = (s1, m1)" using overlay_write [OF "1.prems"(3), of offset "replicate ?c v"] "1.prems"(4) by simp
    note wr = write_pages_wrote [OF "1.prems"(1,2) p]
    have ok: "reliable h m \<Longrightarrow> s1 = LIB_STATUS_OK" using write_pages_total [OF "1.prems"(1,2), of offset "replicate ?c v"] p "1.prems"(4) by simp
    have rp: "replicate n v = replicate ?c v @ replicate (n - ?c) v" by (simp flip: replicate_add)
    show ?thesis
    proof (cases "s1 = LIB_STATUS_OK")
      case True
      have k: "kept m m1" using wr by (simp add: wrote_def)
      have "fill_loop h (offset + ?c) (n - ?c) v m1 = (st, m')" using "1.prems"(5) False w True by (subst (asm) fill_loop.simps) simp
      then have "wrote base (offset + ?c) (replicate (n - ?c) v) m1 st m' \<and> (reliable h m1 \<longrightarrow> st = LIB_STATUS_OK)"
        by (intro "1.IH" [OF False w [symmetric] True]) (use k kept_holds [OF k] "1.prems" in \<open>auto simp: kept_def\<close>)
      then show ?thesis using wrote_append [OF wr [unfolded True], of "replicate (n - ?c) v" st m'] kept_reliable [OF k] unfolding rp by simp
    next
      case F: False
      then have "st = s1" "m' = m1" using "1.prems"(5) False w by (subst (asm) fill_loop.simps; cases s1; simp)+
      moreover obtain k where k: "kept m m1" "k < ?c" "\<forall>i < med_byte_count m. contents base m1 i = overwrite offset (take k (replicate ?c v)) (contents base m) i"
        using wr F by (auto simp: wrote_def le_less)
      moreover have "k < n" "take k (replicate ?c v) = take k (replicate n v)" using k(2) by simp_all
      ultimately show ?thesis using F ok unfolding wrote_def by (metis length_replicate less_imp_le_nat nat_neq_iff)
    qed
  qed
qed

section \<open>Properties\<close>

text \<open>
  The outcome of storing bytes at an offset of the array: the host file, the size, the mode and the shape of the overlay stay; a range that does not
  fit is refused and changes nothing; success is reported exactly when all bytes are stored, and always when the host is reliable; otherwise a
  prefix has been stored; no byte outside the range changes.
\<close>

definition array_stored :: "'f host \<Rightarrow> (nat \<Rightarrow> 8 word) \<Rightarrow> nat \<Rightarrow> 8 word list \<Rightarrow> 'f lib_storage_medium \<Rightarrow> lib_status \<Rightarrow> 'f lib_storage_medium \<Rightarrow> bool" where
  "array_stored h base offset bs m st m' \<longleftrightarrow>
     pages_wf m' \<and> med_file m' = med_file m \<and> med_byte_count m' = med_byte_count m \<and> med_mode m' = med_mode m \<and>
     (med_byte_count m < offset + length bs \<longrightarrow> st = LIB_STATUS_INVALID_ARGUMENT \<and> m' = m) \<and>
     (offset + length bs \<le> med_byte_count m \<and> reliable h m \<longrightarrow> st = LIB_STATUS_OK) \<and>
     (\<exists>k \<le> length bs. (st = LIB_STATUS_OK \<longleftrightarrow> k = length bs \<and> offset + length bs \<le> med_byte_count m) \<and>
       (\<forall>i < med_byte_count m. contents base m' i = overwrite offset (take k bs) (contents base m) i))"

lemma array_stored_wrote:
  assumes "wrote base offset bs m st m'" "offset + length bs \<le> med_byte_count m" "reliable h m \<longrightarrow> st = LIB_STATUS_OK"
  shows "array_stored h base offset bs m st m'"
  using assms by (auto simp: wrote_def kept_def array_stored_def)

lemma array_stored_refused:
  assumes "pages_wf m" "med_byte_count m < offset + length bs"
  shows "array_stored h base offset bs m LIB_STATUS_INVALID_ARGUMENT m"
  using assms unfolding array_stored_def by (auto simp: overwrite_def intro!: exI [of _ 0])

text \<open>
  C11. A medium with an overlay is an array of bytes on top of an image that is never written. Reading a range that fits
  delivers the current bytes, whatever part of it lies in overlay pages and whatever in the file, and fails only when the host cannot read the image.
  Writing a range and filling a range with a byte replace exactly the bytes of that range, across any number of pages, bring in the untouched rest of
  each page from the file, and report success exactly when all of them are stored; after an error of the host, which may refuse any single page, a
  prefix has been stored. A range that does not fit is refused and changes nothing. The host file, the size and the mode stay as they are, and with a
  host that can read the image and has memory all three operations succeed.
\<close>

theorem overlay_is_array:
  assumes "pages_wf m" "holds h m base" "med_mode m = LIB_STORAGE_MEDIUM_OVERLAY"
  shows "(case lib_storage_medium_read_at h m offset n of
        Inl st \<Rightarrow> med_byte_count m < offset + n \<or> \<not> readable h m
      | Inr got \<Rightarrow> offset + n \<le> med_byte_count m \<and> got = map (contents base m) [offset..<offset + n]) \<and>
    (case lib_storage_medium_write_at h offset bs m of (st, m') \<Rightarrow> array_stored h base offset bs m st m') \<and>
    (case lib_storage_medium_fill_at h offset n v m of (st, m') \<Rightarrow> array_stored h base offset (replicate n v) m st m')"
proof (intro conjI)
  have r: "lib_storage_medium_range m offset n = LIB_STATUS_OK \<longleftrightarrow> offset + n \<le> med_byte_count m" for n by (auto simp: lib_storage_medium_range_def)
  show "case lib_storage_medium_read_at h m offset n of
        Inl st \<Rightarrow> med_byte_count m < offset + n \<or> \<not> readable h m
      | Inr got \<Rightarrow> offset + n \<le> med_byte_count m \<and> got = map (contents base m) [offset..<offset + n]"
    using assms(3) r read_pages_contents [OF assms(1,2), of offset n] read_pages_total [of h m offset n]
    by (auto simp: lib_storage_medium_read_at_def split: sum.split)
  show "case lib_storage_medium_write_at h offset bs m of (st, m') \<Rightarrow> array_stored h base offset bs m st m'"
  proof (cases "offset + length bs \<le> med_byte_count m")
    case False
    then show ?thesis using r array_stored_refused [OF assms(1)] by (auto simp: lib_storage_medium_write_at_def lib_storage_medium_write_def)
  next
    case True
    obtain st m' where w: "write_pages h offset bs m = (st, m')" by (cases "write_pages h offset bs m")
    have wr: "wrote base offset bs m st m'" by (rule write_pages_wrote [OF assms(1,2) w])
    then have "lib_storage_medium_write_at h offset bs m = (st, m')" using w assms(3) overlay_write [OF assms(3) True, of h]
      by (simp add: lib_storage_medium_write_at_def wrote_def kept_def)
    then show ?thesis using array_stored_wrote [OF wr True, of h] w write_pages_total [OF assms(1,2) _ True] by simp
  qed
  show "case lib_storage_medium_fill_at h offset n v m of (st, m') \<Rightarrow> array_stored h base offset (replicate n v) m st m'"
  proof (cases "offset + n \<le> med_byte_count m")
    case False
    then show ?thesis using r array_stored_refused [OF assms(1), of offset "replicate n v"] by (auto simp: lib_storage_medium_fill_at_def)
  next
    case True
    obtain st m' where w: "fill_loop h offset n v m = (st, m')" by (cases "fill_loop h offset n v m")
    note f = fill_loop_wrote [OF assms True w]
    have "fill_loop h offset 0 v m = (LIB_STATUS_OK, m)" by (subst fill_loop.simps) simp
    then have "lib_storage_medium_fill_at h offset n v m = (st, m')" using f w assms(3) r [of n] True
      by (auto simp: lib_storage_medium_fill_at_def wrote_def kept_def)
    then show ?thesis using f array_stored_wrote [of base offset "replicate n v" m st m' h] True by simp
  qed
qed

text \<open>An empty overlay of 5000 bytes; the two bytes written lie in different pages, and so do the ends of the range filled.\<close>

definition demo_host :: "unit host" where
  "demo_host = \<lparr>file_read = (\<lambda>_ _ _. Inl LIB_STATUS_IO_ERROR), file_write = (\<lambda>_ _ f. (LIB_STATUS_IO_ERROR, f)), file_flush = (\<lambda>f. (LIB_STATUS_OK, f)), lib_allocate = (\<lambda>_. True)\<rparr>"

definition demo_medium :: "unit lib_storage_medium" where
  "demo_medium = \<lparr>med_file = None, med_pages = (\<lambda>_. None), med_byte_count = 5000, med_mode = LIB_STORAGE_MEDIUM_OVERLAY\<rparr>"

theorem overlay_is_array_witness:
  "(case lib_storage_medium_write_at demo_host 4095 [7, 9] demo_medium of (st, m') \<Rightarrow>
     st = LIB_STATUS_OK \<and> med_file m' = None \<and> contents (\<lambda>_. 0) m' 4095 = 7 \<and> contents (\<lambda>_. 0) m' 4096 = 9 \<and> contents (\<lambda>_. 0) m' 4097 = 0) \<and>
   (case lib_storage_medium_fill_at demo_host 4090 20 5 demo_medium of (st, m') \<Rightarrow>
     st = LIB_STATUS_OK \<and> contents (\<lambda>_. 0) m' 4089 = 0 \<and> contents (\<lambda>_. 0) m' 4090 = 5 \<and> contents (\<lambda>_. 0) m' 4109 = 5 \<and> contents (\<lambda>_. 0) m' 4110 = 0) \<and>
   lib_storage_medium_create_zero_overlay demo_host 5000 = Inr demo_medium"
proof (intro conjI)
  have a: "pages_wf demo_medium" "holds demo_host demo_medium (\<lambda>_. 0)" "med_mode demo_medium = LIB_STORAGE_MEDIUM_OVERLAY"
    by (simp_all add: pages_wf_def holds_def demo_medium_def)
  have r: "reliable demo_host demo_medium" "med_byte_count demo_medium = 5000" "med_file demo_medium = None" "\<And>i. contents (\<lambda>_. 0) demo_medium i = 0"
    by (simp_all add: reliable_def readable_def demo_host_def demo_medium_def lib_storage_medium_read_base_def contents_def)
  note o = overlay_is_array [OF a, THEN conjunct2]
  show "case lib_storage_medium_write_at demo_host 4095 [7, 9] demo_medium of (st, m') \<Rightarrow>
     st = LIB_STATUS_OK \<and> med_file m' = None \<and> contents (\<lambda>_. 0) m' 4095 = 7 \<and> contents (\<lambda>_. 0) m' 4096 = 9 \<and> contents (\<lambda>_. 0) m' 4097 = 0"
    using o [of 4095 "[7, 9]" 0 0, THEN conjunct1] r by (auto simp: array_stored_def overwrite_def)
  show "case lib_storage_medium_fill_at demo_host 4090 20 5 demo_medium of (st, m') \<Rightarrow>
     st = LIB_STATUS_OK \<and> contents (\<lambda>_. 0) m' 4089 = 0 \<and> contents (\<lambda>_. 0) m' 4090 = 5 \<and> contents (\<lambda>_. 0) m' 4109 = 5 \<and> contents (\<lambda>_. 0) m' 4110 = 0"
    using o [of 4090 "[]" 20 5, THEN conjunct2] r by (auto simp: array_stored_def overwrite_def)
  show "lib_storage_medium_create_zero_overlay demo_host 5000 = Inr demo_medium"
    by (simp add: lib_storage_medium_create_zero_overlay_def lib_storage_medium_create_def lib_storage_medium_set_size_def demo_host_def demo_medium_def)
qed

end
