(* ===== verification/Gfi_image.thy ===== *)
theory Gfi_image
  imports Dma_Run Medium_Inv
begin

text \<open>
  The floppy drive on a disk image (\<open>app-softpc/compat/gfi_image.c\<close>) and the BIOS code that sets up its DMA channel
  (\<open>dma_setup\<close> and \<open>fmtdma_set\<close> of \<open>base/disks/floppy.c\<close>): geometry, sector transfer between image and memory through DMA
  channel 2, formatting, and the dispatch of controller commands with their result bytes.

  Command and result blocks are arrays of bytes, read and written with the field macros of \<open>inc/gfi.h\<close>. What the local
  buffers of the C functions hold before they are filled is a parameter. \<open>None\<close> is a call that does not
  return (a memory handler called outside its table).
\<close>

section \<open>State\<close>

record 'f softpc_gfi_image_drive =
  drv_medium :: "'f lib_storage_medium option"
  drv_mode :: lib_storage_medium_mode
  cylinders :: nat
  heads :: nat
  sectors :: nat
  drive_type :: nat
  cylinder :: nat

record ('f, 'v) floppy =
  drives :: "nat \<Rightarrow> 'f softpc_gfi_image_drive"
  dma :: DMA_ADAPT
  mem :: "'v sas"

type_synonym block = "nat \<Rightarrow> IU8"

definition drive_upd :: "nat \<Rightarrow> ('f softpc_gfi_image_drive \<Rightarrow> 'f softpc_gfi_image_drive) \<Rightarrow> ('f, 'v) floppy \<Rightarrow> ('f, 'v) floppy" where
  "drive_upd u f x = x\<lparr>drives := (drives x)(u := f (drives x u))\<rparr>"

definition softpc_gfi_geometry :: "nat \<Rightarrow> 'f softpc_gfi_image_drive \<Rightarrow> bool \<times> 'f softpc_gfi_image_drive" where
  "softpc_gfi_geometry bytes d =
     (let s = bytes div 512
      in if bytes mod 512 \<noteq> 0 then (False, d)
         else if s = 720 then (True, d\<lparr>cylinders := 40, heads := 2, sectors := 9\<rparr>)
         else if s = 1440 then (True, d\<lparr>cylinders := 80, heads := 2, sectors := 9\<rparr>)
         else if s = 2400 then (True, d\<lparr>cylinders := 80, heads := 2, sectors := 15\<rparr>)
         else if s = 2880 then (True, d\<lparr>cylinders := 80, heads := 2, sectors := 18\<rparr>)
         else if s = 5760 then (True, d\<lparr>cylinders := 80, heads := 2, sectors := 36\<rparr>)
         else if 1 \<le> s then (True, d\<lparr>cylinders := 80, heads := 2, sectors := 18\<rparr>)
         else (False, d))"

section \<open>Result blocks\<close>

definition put_field :: "IU8 \<Rightarrow> nat \<Rightarrow> IU8 \<Rightarrow> nat \<Rightarrow> block \<Rightarrow> block" where
  "put_field msk sh v i r = r(i := (r i AND NOT msk) OR (push_bit sh v AND msk))"

definition softpc_gfi_result :: "nat \<Rightarrow> nat \<Rightarrow> nat \<Rightarrow> nat \<Rightarrow> nat \<Rightarrow> bool \<Rightarrow> bool \<Rightarrow> block \<Rightarrow> block" where
  "softpc_gfi_result unit cyl head sector sz failed write_protected r =
     (let r = r(0 := push_bit 2 (of_nat head) OR of_nat unit, 1 := 0, 2 := 0);
          r = (if failed then
                 (let r = put_field 0xc0 6 1 0 r
                  in if write_protected then put_field 0x2 1 1 1 r else put_field 0x4 2 1 1 r)
               else r)
      in r(3 := of_nat cyl, 4 := of_nat head, 5 := of_nat sector, 6 := of_nat sz))"

text \<open>The address of the next sector, as the controller reports it after a transfer of some sectors.\<close>

definition softpc_gfi_update_chrn :: "nat \<Rightarrow> nat \<Rightarrow> nat \<Rightarrow> bool \<Rightarrow> nat \<Rightarrow> nat \<Rightarrow> nat \<times> nat \<times> nat" where
  "softpc_gfi_update_chrn cyl head sector multi_track eot sector_count =
     (let new_sector = sector + sector_count - 1;
          over = eot < new_sector \<and> multi_track;
          head = (if over then 1 else head);
          new_sector = (if over then new_sector div 2 else new_sector);
          sector = (if new_sector = eot then 1 else new_sector + 1)
      in if multi_track \<and> new_sector = eot then ((if head = 1 then cyl + 1 else cyl), head XOR 1, sector)
         else if new_sector = eot then (cyl + 1, head, sector)
         else (cyl, head, sector))"

section \<open>Transfer\<close>

definition sector_offset :: "'f softpc_gfi_image_drive \<Rightarrow> nat \<Rightarrow> nat \<Rightarrow> nat \<Rightarrow> nat" where
  "sector_offset d cyl head sector = ((cyl * heads d + head) * sectors d + (sector - 1)) * 512"

fun transfer_loop :: "'f host \<Rightarrow> 'v gmi \<Rightarrow> nat \<Rightarrow> bool \<Rightarrow> nat \<Rightarrow> nat \<Rightarrow> nat list \<Rightarrow> IU8 list \<Rightarrow> ('f, 'v) floppy \<Rightarrow> (bool \<times> ('f, 'v) floppy) option" where
  "transfer_loop h gmi unit writing cyl head [] buffer x = Some (True, x)"
| "transfer_loop h gmi unit writing cyl head (current # rest) buffer x =
     (let d = drives x unit; offset = sector_offset d cyl head current
      in if sectors d < current then Some (False, x)
         else case drv_medium d of None \<Rightarrow> Some (False, x)
           | Some m \<Rightarrow>
               if writing
               then (if drv_mode d = LIB_STORAGE_MEDIUM_READONLY then Some (False, x)
                     else do {
                       (more, buffer, a, s) \<leftarrow> dma_request gmi 2 buffer 512 (dma x) (mem x);
                       let (st, m) = lib_storage_medium_write_at h offset (take 512 buffer) m;
                       let x = (drive_upd unit (\<lambda>d. d\<lparr>drv_medium := Some m\<rparr>) x)\<lparr>dma := a, mem := s\<rparr>;
                       if st \<noteq> LIB_STATUS_OK then Some (False, x)
                       else transfer_loop h gmi unit writing cyl head rest buffer x
                     })
               else (case lib_storage_medium_read_at h m offset 512 of
                   Inl st \<Rightarrow> Some (False, x)
                 | Inr bs \<Rightarrow>
                     do {
                       (more, buffer, a, s) \<leftarrow> dma_request gmi 2 (put_bytes 0 bs buffer) 512 (dma x) (mem x);
                       transfer_loop h gmi unit writing cyl head rest buffer (x\<lparr>dma := a, mem := s\<rparr>)
                     }))"

definition softpc_gfi_transfer :: "'f host \<Rightarrow> 'v gmi \<Rightarrow> IU8 list \<Rightarrow> nat \<Rightarrow> block \<Rightarrow> bool \<Rightarrow> ('f, 'v) floppy \<Rightarrow> (bool \<times> (nat \<times> nat \<times> nat) \<times> ('f, 'v) floppy) option" where
  "softpc_gfi_transfer h gmi buffer unit cmd writing x =
     (let d = drives x unit; cyl = unat (cmd 2); head = unat (cmd 3); sector = unat (cmd 4); size_code = unat (cmd 5)
      in if size_code \<noteq> 2 \<or> drv_medium d = None \<or> cylinders d \<le> cyl \<or> heads d \<le> head \<or> sector = 0 \<or> sectors d < sector
         then Some (False, (cyl, head, sector), x)
         else do {
           let count = (unat (snd (dma_enquire 2 (dma x))) + 1 + 512 - 1) div 512;
           let count = (if count = 0 then 1 else count);
           (ok, x) \<leftarrow> transfer_loop h gmi unit writing cyl head [sector..<sector + count] buffer x;
           if ok then Some (True, softpc_gfi_update_chrn cyl head sector (bit (cmd 0) 7) (unat (cmd 6)) count, drive_upd unit (\<lambda>d. d\<lparr>cylinder := cyl\<rparr>) x)
           else Some (False, (cyl, head, sector), x)
         })"

section \<open>Formatting\<close>

primrec format_loop :: "'f host \<Rightarrow> 'v gmi \<Rightarrow> nat \<Rightarrow> nat \<Rightarrow> nat \<Rightarrow> nat \<Rightarrow> IU8 \<Rightarrow> nat \<Rightarrow> IU8 list \<Rightarrow> ('f, 'v) floppy \<Rightarrow> (bool \<times> ('f, 'v) floppy) option" where
  "format_loop h gmi unit cyl head size_code filler 0 ids x = Some (True, x)"
| "format_loop h gmi unit cyl head size_code filler (Suc n) ids x =
     do {
       (more, ids, a, s) \<leftarrow> dma_request gmi 2 ids 4 (dma x) (mem x);
       let x = x\<lparr>dma := a, mem := s\<rparr>;
       let d = drives x unit;
       let sector = unat (ids ! 2);
       if unat (ids ! 0) \<noteq> cyl \<or> unat (ids ! 1) \<noteq> head \<or> unat (ids ! 3) \<noteq> size_code \<or> sector = 0 \<or> sectors d < sector then Some (False, x)
       else case drv_medium d of None \<Rightarrow> Some (False, x)
         | Some m \<Rightarrow>
             (let (st, m) = lib_storage_medium_write_at h (sector_offset d cyl head sector) (replicate 512 filler) m;
                  x = drive_upd unit (\<lambda>d. d\<lparr>drv_medium := Some m\<rparr>) x
              in if st \<noteq> LIB_STATUS_OK then Some (False, x)
                 else format_loop h gmi unit cyl head size_code filler n ids x)
     }"

definition softpc_gfi_format :: "'f host \<Rightarrow> 'v gmi \<Rightarrow> IU8 list \<Rightarrow> nat \<Rightarrow> block \<Rightarrow> ('f, 'v) floppy \<Rightarrow> (bool \<times> ('f, 'v) floppy) option" where
  "softpc_gfi_format h gmi ids unit cmd x =
     (let d = drives x unit; head = unat (drop_bit 2 (cmd 1 AND 4)); size_code = unat (cmd 2); count = unat (cmd 3)
      in if drv_medium d = None \<or> drv_mode d = LIB_STORAGE_MEDIUM_READONLY \<or> 6 < size_code then Some (False, x)
         else if push_bit size_code 128 \<noteq> (512 :: nat) \<or> count = 0 \<or> sectors d < count \<or> cylinders d \<le> cylinder d \<or> heads d \<le> head then Some (False, x)
         else format_loop h gmi unit (cylinder d) head size_code (cmd 5) count ids x)"

section \<open>Commands\<close>

definition softpc_gfi_command :: "'f host \<Rightarrow> 'v gmi \<Rightarrow> IU8 list \<Rightarrow> IU8 list \<Rightarrow> block \<Rightarrow> block \<Rightarrow> ('f, 'v) floppy \<Rightarrow> (bool \<times> block \<times> ('f, 'v) floppy) option" where
  "softpc_gfi_command h gmi buffer ids cmd r x =
     (let unit = unat (cmd 1 AND 3); d = drives x unit; code = cmd 0 AND 0x1f
      in if code = 0x03 then Some (True, r, x)
         else if code = 0x07 then Some (True, r(0 := 0x20 OR of_nat unit, 1 := 0), drive_upd unit (\<lambda>d. d\<lparr>cylinder := 0\<rparr>) x)
         else if code = 0x0F
         then Some (True, r(0 := 0x20 OR of_nat unit, 1 := cmd 2), drive_upd unit (\<lambda>d. d\<lparr>cylinder := unat (cmd 2)\<rparr>) x)
         else if code = 0x04
         then (let r = put_field 0x80 7 0 0 r;
                   r = put_field 0x40 6 (of_bool (drv_medium d \<noteq> None \<and> drv_mode d = LIB_STORAGE_MEDIUM_READONLY)) 0 r;
                   r = put_field 0x20 5 (of_bool (drv_medium d \<noteq> None)) 0 r;
                   r = put_field 0x10 4 (of_bool (cylinder d = 0)) 0 r;
                   r = put_field 0x08 3 (of_bool (drive_type d \<noteq> 0)) 0 r;
                   r = put_field 0x04 2 (drop_bit 2 (cmd 1 AND 4)) 0 r;
                   r = put_field 0x03 0 (of_nat unit) 0 r
               in Some (True, r, x))
         else if code = 0x0A
         then Some (True, softpc_gfi_result unit (cylinder d) (unat (drop_bit 2 (cmd 1 AND 4))) 1 2 (drv_medium d = None) False r, x)
         else if code = 0x06 \<or> code = 0x05
         then do {
           let writing = (code = 0x05);
           (ok, (cyl, head, sector), x) \<leftarrow> softpc_gfi_transfer h gmi buffer unit cmd writing x;
           Some (True, softpc_gfi_result unit cyl head sector (unat (cmd 5)) (\<not> ok)
             (writing \<and> drv_medium (drives x unit) \<noteq> None \<and> drv_mode (drives x unit) = LIB_STORAGE_MEDIUM_READONLY) r, x)
         }
         else if code = 0x0D
         then do {
           (ok, x) \<leftarrow> softpc_gfi_format h gmi ids unit cmd x;
           let d = drives x unit;
           Some (True, softpc_gfi_result unit (cylinder d) (unat (drop_bit 2 (cmd 1 AND 4))) (unat (cmd 3)) (unat (cmd 2)) (\<not> ok)
             (drv_medium d \<noteq> None \<and> drv_mode d = LIB_STORAGE_MEDIUM_READONLY) r, x)
         }
         else Some (False, r, x))"

definition softpc_gfi_change :: "nat \<Rightarrow> ('f, 'v) floppy \<Rightarrow> bool" where
  "softpc_gfi_change unit x = (unit < 4 \<and> drv_medium (drives x unit) \<noteq> None)"

definition softpc_gfi_reset :: "nat \<Rightarrow> block \<Rightarrow> ('f, 'v) floppy \<Rightarrow> bool \<times> block \<times> ('f, 'v) floppy" where
  "softpc_gfi_reset unit r x = (if 4 \<le> unit then (False, r, x) else (True, r(0 := 0, 1 := 0), drive_upd unit (\<lambda>d. d\<lparr>cylinder := 0\<rparr>) x))"

section \<open>The BIOS sets up the DMA channel\<close>

text \<open>
  \<open>addr\<close> is the linear address of \<open>ES:BX\<close> and \<open>parm\<close> the parameter of the disk table; the store into the BIOS data area
  (\<open>sas_store\<close>) is a parameter.
\<close>

definition program_channel2 :: "IU8 \<Rightarrow> IU32 \<Rightarrow> IU16 \<Rightarrow> DMA_ADAPT \<Rightarrow> DMA_ADAPT" where
  "program_channel2 dma_mode addr byte_count a =
     (let a = dma_outb 0x0C dma_mode a;
          a = dma_outb 0x0B dma_mode a;
          a = dma_outb 0x04 (ucast addr) a;
          a = dma_outb 0x04 (ucast (drop_bit 8 addr)) a;
          a = dma_page_outb 0x81 (ucast (drop_bit 16 addr)) a;
          a = dma_outb 0x05 (ucast byte_count) a;
          a = dma_outb 0x05 (ucast (drop_bit 8 byte_count)) a
      in dma_outb 0x0A 2 a)"

definition dma_setup :: "(IU32 \<Rightarrow> IU8 \<Rightarrow> 'v sas \<Rightarrow> 'v sas) \<Rightarrow> IU32 \<Rightarrow> IU8 \<Rightarrow> IU8 \<Rightarrow> ccpu \<Rightarrow> DMA_ADAPT \<Rightarrow> 'v sas \<Rightarrow> bool \<times> ccpu \<times> DMA_ADAPT \<times> 'v sas" where
  "dma_setup sas_store addr parm dma_mode c a s =
     (let addr = (if dma_mode = 0x42 then 0 else addr);
          byte_count = ucast (push_bit (7 + unat parm) (ucast (GET_AL c) :: IU32) - 1);
          a = program_channel2 dma_mode addr byte_count a;
          c = SET_IF 1 (SET_IF 0 c)
      in if 0xffff < unat (ucast addr :: IU16) + unat byte_count then (False, c, a, sas_store 0x441 0x09 s) else (True, c, a, s))"

definition fmtdma_set :: "(IU32 \<Rightarrow> IU8 \<Rightarrow> 'v sas \<Rightarrow> 'v sas) \<Rightarrow> IU32 \<Rightarrow> IU8 \<Rightarrow> ccpu \<Rightarrow> DMA_ADAPT \<Rightarrow> 'v sas \<Rightarrow> bool \<times> ccpu \<times> DMA_ADAPT \<times> 'v sas" where
  "fmtdma_set sas_store addr parm c a s =
     (let byte_count = ucast (push_bit 2 (ucast parm :: IU32) - 1);
          a = program_channel2 0x4A addr byte_count a;
          c = SET_IF 1 (SET_IF 0 c)
      in if 0xffff < unat (ucast addr :: IU16) + unat byte_count then (False, c, a, sas_store 0x441 0x09 s) else (True, c, a, s))"

end
