(* ===== verification/Gfi_Run.thy ===== *)
theory Gfi_Run
  imports Gfi_image
begin

text \<open>
  The floppy from end to end: the BIOS programs the DMA channel, the drive reads sectors of the image and hands them to
  the DMA adaptor, and the bytes arrive in memory.
\<close>

section \<open>Blocks in RAM\<close>

definition ram_block :: "'v sas \<Rightarrow> IU32 \<Rightarrow> nat \<Rightarrow> bool" where
  "ram_block s a n \<longleftrightarrow> unat a + n \<le> 2 ^ 32 \<and>
     (\<forall>k < n. (a + of_nat k) AND SasWrapMask s = a + of_nat k \<and> a + of_nat k < Length_of_M_area s \<and> READ_SELF_MOD (a + of_nat k) s = SAS_RAM)"

lemma ram_block_tail:
  assumes "ram_block s a (m + n)" "0 < n" shows "ram_block s (a + of_nat m) n" "unat (a + of_nat m) = unat a + m"
proof -
  have l: "unat a + m < 2 ^ 32" using assms by (simp add: ram_block_def)
  then have "m < 2 ^ 32" by linarith
  then show u: "unat (a + of_nat m) = unat a + m" using l by (simp add: unat_word_ariths unat_of_nat)
  show "ram_block s (a + of_nat m) n" unfolding ram_block_def
  proof (intro conjI allI impI)
    show "unat (a + of_nat m) + n \<le> 2 ^ 32" using assms(1) u by (simp add: ram_block_def)
    fix k assume "k < n"
    then have "m + k < m + n" by simp
    then have "(a + of_nat (m + k)) AND SasWrapMask s = a + of_nat (m + k) \<and> a + of_nat (m + k) < Length_of_M_area s \<and> READ_SELF_MOD (a + of_nat (m + k)) s = SAS_RAM"
      using assms(1) unfolding ram_block_def by blast
    then show "(a + of_nat m + of_nat k) AND SasWrapMask s = a + of_nat m + of_nat k" "a + of_nat m + of_nat k < Length_of_M_area s"
      "READ_SELF_MOD (a + of_nat m + of_nat k) s = SAS_RAM" by (simp_all add: add.assoc)
  qed
qed

lemma ram_block_head: "ram_block s a (m + n) \<Longrightarrow> ram_block s a m"
  by (simp add: ram_block_def)

lemma ram_block_mem: "ram_block (s\<lparr>M_area := f\<rparr>) a n = ram_block s a n"
  by (simp add: ram_block_def READ_SELF_MOD_def)

lemma overwrite_Cons: "overwrite (Suc a) bs (f(a := b)) = overwrite a (b # bs) f"
  by (auto simp: overwrite_def fun_eq_iff nth_Cons' Suc_le_eq)

lemma overwrite_append: "overwrite (a + length xs) ys (overwrite a xs f) = overwrite a (xs @ ys) f"
  by (auto simp: overwrite_def fun_eq_iff nth_append)

lemma PWS_ram: "ram_block s a (length bs) \<Longrightarrow> c_sas_PWS gmi bs a s = Some (s\<lparr>M_area := overwrite (unat a) bs (M_area s)\<rparr>)"
proof (induction bs arbitrary: a s)
  case Nil
  have "overwrite (unat a) [] (M_area s) = M_area s" by (auto simp: overwrite_def fun_eq_iff)
  then show ?case by simp
next
  case (Cons b bs)
  have "a AND SasWrapMask s = a" "a < Length_of_M_area s" "READ_SELF_MOD a s = SAS_RAM" using Cons.prems by (auto simp: ram_block_def)
  then have w: "phy_w8 gmi a b s = Some (s\<lparr>M_area := (M_area s)(unat a := b)\<rparr>)" by (simp add: phy_w8_def Let_def readSelfMod_def poke_def)
  show ?case
  proof (cases "bs = []")
    case True
    have "overwrite (unat a) [b] (M_area s) = (M_area s)(unat a := b)" by (auto simp: overwrite_def fun_eq_iff)
    then show ?thesis using w True by (simp add: fun_upd_def)
  next
    case False
    then have "ram_block s (a + of_nat 1) (length bs)" "unat (a + of_nat 1) = unat a + 1"
      using ram_block_tail [of s a 1 "length bs"] Cons.prems by simp_all
    then show ?thesis using w Cons.IH [of "s\<lparr>M_area := (M_area s)(unat a := b)\<rparr>" "a + 1"] 
      by (simp add: ram_block_mem fun_upd_def overwrite_Cons [unfolded fun_upd_def])
  qed
qed

section \<open>The armed channel\<close>

definition armed :: "DMA_ADAPT \<Rightarrow> IU8 \<Rightarrow> IU8 \<Rightarrow> IU16 \<Rightarrow> IU16 \<Rightarrow> bool" where
  "armed a m pg offset count \<longleftrightarrow> \<not> controller_disable (controller a 0) \<and> \<not> bit (dma_mask (controller a 0)) 2 \<and> mode (controller a 0) 2 = m \<and>
     page a 2 = pg \<and> get_word (current_address (controller a 0)) 2 = offset \<and> get_word (current_count (controller a 0)) 2 = count"

lemma get_set_word:
  "get_word (set_byte c (Suc 0) (ucast (drop_bit 8 v)) (set_byte c 0 (ucast v) w)) c = v"
  "get_word (put_word c v w) c = v" for v :: IU16
proof -
  have "push_bit 8 (ucast (ucast (drop_bit 8 v) :: IU8)) OR ucast (ucast v :: IU8) = v"
  proof (rule bit_word_eqI)
    fix n assume "n < LENGTH(16)"
    then show "bit (push_bit 8 (ucast (ucast (drop_bit 8 v) :: IU8)) OR ucast (ucast v :: IU8) :: IU16) n = bit v n"
      by (cases "n < 8") (auto simp: bit_simps)
  qed
  then show "get_word (set_byte c (Suc 0) (ucast (drop_bit 8 v)) (set_byte c 0 (ucast v) w)) c = v" "get_word (put_word c v w) c = v"
    by (simp_all add: get_word_def set_byte_def put_word_def)
qed

lemma program_channel2_armed:
  assumes "\<not> controller_disable (controller a 0)" "m AND 3 = 2"
  shows "armed (program_channel2 m addr cnt a) m (ucast (drop_bit 16 addr)) (ucast addr) cnt"
proof -
  have o: "dma_outb 0x0C m b = cntrl_upd 0 (\<lambda>d. d\<lparr>first_last := 0\<rparr>) b" "dma_outb 0x0B m b = cntrl_upd 0 (\<lambda>d. d\<lparr>mode := (mode d)(2 := m)\<rparr>) b"
      "dma_outb 0x04 v b = cntrl_upd 0 (write_address 2 v) b" "dma_outb 0x05 v b = cntrl_upd 0 (write_count 2 v) b"
      "dma_outb 0x0A 2 b = cntrl_upd 0 (\<lambda>d. d\<lparr>dma_mask := dma_mask d AND NOT 4\<rparr>) b"
      "dma_page_outb 0x81 v b = b\<lparr>page := (page b)(2 := v)\<rparr>" for v b
    using assms(2) by (simp_all add: dma_outb_def dma_port_def write_register_def dma_page_outb_def page_channel_def cntrl_upd_def)
  have b: "ucast (drop_bit 8 addr) = (ucast (drop_bit 8 (ucast addr :: IU16)) :: IU8)" "ucast addr = (ucast (ucast addr :: IU16) :: IU8)"
    by (rule bit_word_eqI; auto simp: bit_simps)+
  have n: "\<not> bit (x AND NOT 4 :: IU8) 2" for x by (simp add: bit_and_iff bit_not_iff bit_numeral_rec)
  show ?thesis using assms(1) n get_set_word(1)
    unfolding program_channel2_def Let_def o b by (simp add: armed_def cntrl_upd_def write_address_def write_count_def controller_disable_def)
qed

text \<open>One sector through the armed channel: the bytes go to memory, and the channel stands at the next sector.\<close>

lemma sector_request:
  assumes ar: "armed a 0x46 pg offset count" and c: "511 \<le> unat count" and o: "unat offset + 512 \<le> 0x10000" and b: "512 \<le> length buf"
    and r: "ram_block s (dma_system_address 2 pg offset) 512"
  shows "\<exists>a'. dma_request gmi 2 buf 512 a s =
      Some (unat count \<noteq> 511, buf, a', s\<lparr>M_area := overwrite (unat (dma_system_address 2 pg offset)) (take 512 buf) (M_area s)\<rparr>) \<and>
    (511 < unat count \<longrightarrow> armed a' 0x46 pg (offset + 512) (count - 512)) \<and> page a' = page a"
proof -
  let ?A = "dma_system_address 2 pg offset" and ?d = "controller a 0"
  have d: "\<not> controller_disable ?d" "\<not> bit (dma_mask ?d) 2" "mode ?d 2 = 0x46" "page a 2 = pg" "get_word (current_address ?d) 2 = offset" "get_word (current_count ?d) 2 = count"
    using ar by (auto simp: armed_def)
  have m: "transfer_type 0x46 = 1" "\<not> address_dec 0x46" "\<not> auto_init 0x46" by (simp_all add: transfer_type_def address_dec_def auto_init_def bit_numeral_rec)
  have z: "dma_unit_size 2 = 1" by (simp add: dma_unit_size_def)
  have f: "\<forall>j < 512. unit_addr 2 pg 0x46 offset (0 + j) = ?A + of_nat (j * 1)" using unit_addr_up [OF m(2), of offset _ 2 pg] o z by simp
  have "units_w gmi (unit_addr 2 pg 0x46 offset) 1 0 512 buf s = c_sas_PWS gmi (take (512 * 1) (drop (0 * 1) buf)) ?A s"
    by (rule forward_write [OF f, symmetric]) (use b in simp)
  also have "\<dots> = Some (s\<lparr>M_area := overwrite (unat ?A) (take 512 buf) (M_area s)\<rparr>)"
    using PWS_ram [of s ?A "take 512 buf" gmi] r b by simp
  finally have u: "units gmi 1 (unit_addr 2 pg 0x46 offset) 1 0 512 buf s = Some (buf, s\<lparr>M_area := overwrite (unat ?A) (take 512 buf) (M_area s)\<rparr>)"
    by (simp add: units_def)
  have mn: "min (unat count + 1) (unat (512 :: IU16)) = 512" using c by simp
  have q: "dma_request gmi 2 buf 512 a s = request_spec gmi 2 buf 512 a s"
    using dma_request_units [of 2 512 buf gmi a s] d(1,2,6) mn b z by simp
  show ?thesis
  proof (cases "unat count = 511")
    case True
    then show ?thesis unfolding q by (simp add: request_spec_def Let_def d m z u [unfolded One_nat_def])
  next
    case False
    let ?a = "a\<lparr>controller := (controller a)(0 := ?d\<lparr>current_address := put_word 2 (offset + 512) (current_address ?d), current_count := put_word 2 (count - 512) (current_count ?d)\<rparr>)\<rparr>"
    have "request_spec gmi 2 buf 512 a s = Some (True, buf, ?a, s\<lparr>M_area := overwrite (unat ?A) (take 512 buf) (M_area s)\<rparr>)"
      using False by (simp add: request_spec_def Let_def d m z u [unfolded One_nat_def])
    moreover have "armed ?a 0x46 pg (offset + 512) (count - 512)" using d by (simp add: armed_def get_set_word(2) controller_disable_def)
    ultimately show ?thesis unfolding q using False by auto
  qed
qed

section \<open>Reading sectors\<close>

text \<open>An image that can be read: every range inside the medium delivers its bytes.\<close>

definition image_reads :: "'f host \<Rightarrow> 'f lib_storage_medium \<Rightarrow> (nat \<Rightarrow> IU8) \<Rightarrow> bool" where
  "image_reads h m img \<longleftrightarrow> (\<forall>offset n. offset + n \<le> med_byte_count m \<longrightarrow> lib_storage_medium_read_at h m offset n = Inr (map img [offset..<offset + n]))"

lemma medium_reads:
  assumes "pages_wf m" "holds h m base" "med_mode m \<noteq> LIB_STORAGE_MEDIUM_OVERLAY \<longrightarrow> med_pages m = (\<lambda>_. None)" "readable h m"
  shows "image_reads h m (contents base m)"
  unfolding image_reads_def
proof (intro allI impI)
  fix offset n assume l: "offset + n \<le> med_byte_count m"
  obtain bs b2 where "read_pages h m offset n = Inr bs" "lib_storage_medium_read_base h m offset n = Inr b2"
    using read_pages_total [OF assms(4) l] assms(4) l unfolding readable_def by blast
  moreover from this have "bs = map (contents base m) [offset..<offset + n]" "b2 = map base [offset..<offset + n]"
    using read_pages_contents [OF assms(1,2)] read_base_holds [OF assms(2), of offset n] by simp_all
  moreover have "med_pages m = (\<lambda>_. None) \<Longrightarrow> contents base m = base" by (simp add: contents_def fun_eq_iff)
  ultimately show "lib_storage_medium_read_at h m offset n = Inr (map (contents base m) [offset..<offset + n])"
    using assms(3) l by (auto simp: lib_storage_medium_read_at_def lib_storage_medium_range_def)
qed

lemma next_address:
  assumes "unat offset + 512 < 0x10000"
  shows "dma_system_address 2 pg (offset + 512) = dma_system_address 2 pg offset + of_nat 512" "unat (offset + 512) = unat offset + 512"
proof -
  show "unat (offset + 512) = unat offset + 512" using unat_add_small [of offset 512] assms by simp
  then show "dma_system_address 2 pg (offset + 512) = dma_system_address 2 pg offset + of_nat 512" by (simp add: system_address_sum dma_unit_size_def)
qed

lemma read_sectors:
  assumes "drv_medium (drives x u) = Some m" "image_reads h m img" "armed (dma x) 0x46 pg offset count" "unat count + 1 = 512 * r" "0 < r"
    "unat offset + 512 * r \<le> 0x10000" "ram_block (mem x) (dma_system_address 2 pg offset) (512 * r)" "0 < sector" "sector + r \<le> sectors (drives x u) + 1"
    "sector_offset (drives x u) cyl head sector + 512 * r \<le> med_byte_count m" "512 \<le> length buffer"
  shows "\<exists>a'. transfer_loop h gmi u False cyl head [sector..<sector + r] buffer x =
    Some (True, x\<lparr>dma := a', mem := (mem x)\<lparr>M_area := overwrite (unat (dma_system_address 2 pg offset))
      (map img [sector_offset (drives x u) cyl head sector..<sector_offset (drives x u) cyl head sector + 512 * r]) (M_area (mem x))\<rparr>\<rparr>)"
  using assms
proof (induction r arbitrary: x offset count sector buffer)
  case (Suc r)
  let ?A = "dma_system_address 2 pg offset" and ?o = "sector_offset (drives x u) cyl head sector"
  let ?b = "map img [?o..<?o + 512]"
  let ?buf = "put_bytes 0 ?b buffer"
  let ?M = "(mem x)\<lparr>M_area := overwrite (unat ?A) ?b (M_area (mem x))\<rparr>"
  have rd: "lib_storage_medium_read_at h m ?o 512 = Inr ?b" using Suc.prems(2,10) by (simp add: image_reads_def)
  have bl: "take 512 ?buf = ?b" "512 \<le> length ?buf" using Suc.prems(11) by (simp_all add: put_bytes_def)
  have blk: "ram_block (mem x) ?A (512 + 512 * r)" using Suc.prems(7) by simp
  have c: "511 \<le> unat count" "unat offset + 512 \<le> 0x10000" using Suc.prems(4,6) by simp_all
  obtain a1 where a1: "dma_request gmi 2 ?buf 512 (dma x) (mem x) = Some (unat count \<noteq> 511, ?buf, a1, ?M)"
      "511 < unat count \<longrightarrow> armed a1 0x46 pg (offset + 512) (count - 512)"
    using sector_request [OF Suc.prems(3) c bl(2) ram_block_head [OF blk]] bl(1) by metis
  have up: "[sector..<sector + Suc r] = sector # [Suc sector..<Suc sector + r]" by (simp add: upt_rec)
  have step: "transfer_loop h gmi u False cyl head [sector..<sector + Suc r] buffer x =
      transfer_loop h gmi u False cyl head [Suc sector..<Suc sector + r] ?buf (x\<lparr>dma := a1, mem := ?M\<rparr>)"
    using Suc.prems(1,8,9) rd a1(1) unfolding up by (simp add: Let_def)
  show ?case
  proof (cases "r = 0")
    case True
    then show ?thesis unfolding step by auto
  next
    case False
    let ?x = "x\<lparr>dma := a1, mem := ?M\<rparr>"
    have so: "sector_offset (drives x u) cyl head (Suc sector) = ?o + 512" using Suc.prems(8) by (simp add: sector_offset_def)
    have na: "dma_system_address 2 pg (offset + 512) = ?A + of_nat 512" "unat (offset + 512) = unat offset + 512"
      using next_address(1) [of offset pg] next_address(2) [of offset] Suc.prems(6) False by simp_all
    have uc: "unat (count - 512) + 1 = 512 * r" "511 < unat count"
      using unat_sub_small [of 512 count] Suc.prems(4) False by simp_all
    have rb: "ram_block (mem x) (?A + of_nat 512) (512 * r)" "unat (?A + of_nat 512) = unat ?A + 512" using ram_block_tail [OF blk] False by simp_all
    have "\<exists>a'. transfer_loop h gmi u False cyl head [Suc sector..<Suc sector + r] ?buf ?x =
        Some (True, ?x\<lparr>dma := a', mem := (mem ?x)\<lparr>M_area := overwrite (unat (dma_system_address 2 pg (offset + 512)))
          (map img [sector_offset (drives ?x u) cyl head (Suc sector)..<sector_offset (drives ?x u) cyl head (Suc sector) + 512 * r]) (M_area (mem ?x))\<rparr>\<rparr>)"
      by (rule Suc.IH [OF _ Suc.prems(2)]) (use Suc.prems a1(2) uc na rb False so bl(2) in \<open>simp_all add: ram_block_mem\<close>)
    moreover have "overwrite (unat ?A + 512) (map img [?o + 512..<?o + 512 + 512 * r]) (overwrite (unat ?A) ?b f) = overwrite (unat ?A) (map img [?o..<?o + 512 * Suc r]) f" for f
      using overwrite_append [of "unat ?A" ?b "map img [?o + 512..<?o + 512 + 512 * r]" f] upt_add_eq_append [of ?o "?o + 512" "512 * r"] by (simp add: add.assoc)
    moreover have "unat (?A + 512) = unat ?A + 512" using rb(2) by simp
    ultimately show ?thesis unfolding step by (simp add: so na(1) del: upt_Suc)
  qed
qed simp

lemma sector_count:
  fixes v :: IU8
  assumes "0 < unat v" "unat v \<le> 128"
  shows "unat (ucast (push_bit 9 (ucast v :: IU32) - 1) :: IU16) + 1 = 512 * unat v"
proof -
  have u: "unat (push_bit 9 (ucast v :: IU32)) = 512 * unat v"
    using unsigned_less [of v, where ?'a = nat] by (simp add: push_bit_eq_mult unat_word_ariths unsigned_ucast_eq take_bit_nat_eq_self)
  have "push_bit 9 (ucast v :: IU32) \<ge> 1" using u assms(1) by (simp add: word_le_nat_alt)
  then have "unat (push_bit 9 (ucast v :: IU32) - 1) = 512 * unat v - 1" using u by (simp add: unat_sub)
  moreover have "512 * unat v - 1 < 2 ^ 16" using assms(2) by simp
  ultimately show ?thesis using assms(1) by (simp add: unsigned_ucast_eq take_bit_nat_eq_self)
qed

lemma page_and_offset:
  fixes addr :: IU32
  assumes "addr < 0x1000000"
  shows "dma_system_address 2 (ucast (drop_bit 16 addr)) (ucast addr) = addr"
proof -
  have hi: "n < 24" if "bit addr n" for n
  proof -
    have "addr < 2 ^ 24" using assms by simp
    then have "take_bit 24 addr = addr" by (simp add: take_bit_eq_mod mod_word_less)
    then show ?thesis using that by (metis bit_take_bit_iff)
  qed
  have "push_bit 16 (ucast (ucast (drop_bit 16 addr) :: IU8)) OR ucast (ucast addr :: IU16) = addr"
  proof (rule bit_word_eqI)
    fix n assume "n < LENGTH(32)"
    then show "bit (push_bit 16 (ucast (ucast (drop_bit 16 addr) :: IU8)) OR ucast (ucast addr :: IU16) :: IU32) n = bit addr n"
      by (cases "n < 16") (auto simp: bit_simps dest: hi)
  qed
  then show ?thesis unfolding dma_system_address_def all_ones by simp
qed

text \<open>The head and the unit leave the interrupt code of \<open>ST0\<close> free.\<close>

lemma st0_normal: "hn < 2 \<Longrightarrow> u < 4 \<Longrightarrow> (push_bit 2 (of_nat hn) OR of_nat u :: IU8) AND 0xc0 = 0"
proof -
  assume "hn < 2" "u < 4"
  then have "(hn = 0 \<or> hn = 1) \<and> (u = 0 \<or> u = 1 \<or> u = 2 \<or> u = 3)" by arith
  then show ?thesis by auto
qed

lemma unat_and_3: "unat ((w :: IU8) AND 3) < 4"
proof -
  have "w AND 3 \<le> 3" by (rule word_and_le1)
  then show ?thesis by (simp add: word_le_nat_alt)
qed

section \<open>Properties\<close>

text \<open>
  C12. A floppy read by the BIOS works from end to end. After \<open>dma_setup\<close> for \<open>AL\<close> sectors of 512 bytes to the address
  \<open>ES:BX\<close> has succeeded (it checks that the transfer does not cross a 64K boundary), the READ DATA command on a drive with a
  disk image in any mode that the host can read and of at most two heads, for sectors that lie on one track of the image and a target in RAM, returns and reports normal
  termination: the interrupt code in \<open>ST0\<close> is 0 beside the head and the unit, \<open>ST1\<close> and \<open>ST2\<close> are 0, and the
  other result bytes are the address of the next sector and the size code. It has copied to memory exactly the bytes of the image that the
  cylinder, head and sector name, in order, sector by sector through DMA channel 2; no other byte of memory changes, and neither does the image.
\<close>

theorem floppy_read_delivers:
  assumes "drv_medium (drives x u) = Some m" "pages_wf m" "holds h m base" "med_mode m \<noteq> LIB_STORAGE_MEDIUM_OVERLAY \<longrightarrow> med_pages m = (\<lambda>_. None)" "readable h m"
    and "\<not> controller_disable (controller (dma x) 0)" "dma_setup sas_store addr 2 0x46 c (dma x) (mem x) = (True, c', a, s)"
    and "n = unat (GET_AL c)" "0 < n" "n \<le> 128" "addr < 0x1000000" "ram_block (mem x) addr (512 * n)"
    and "cmd 0 AND 0x1f = 0x06" "unat (cmd 1 AND 3) = u" "cmd 5 = 2"
    and "unat (cmd 2) < cylinders (drives x u)" "unat (cmd 3) < heads (drives x u)" "0 < cmd 4" "unat (cmd 4) + n \<le> sectors (drives x u) + 1"
    and "offset = sector_offset (drives x u) (unat (cmd 2)) (unat (cmd 3)) (unat (cmd 4))" "offset + 512 * n \<le> med_byte_count m" "length buffer = 8192"
    and "heads (drives x u) \<le> 2" "softpc_gfi_update_chrn (unat (cmd 2)) (unat (cmd 3)) (unat (cmd 4)) (bit (cmd 0) 7) (unat (cmd 6)) n = (k, hn, sc)"
  shows "\<exists>r' x'. softpc_gfi_command h gmi buffer ids cmd r (x\<lparr>dma := a, mem := s\<rparr>) = Some (True, r', x') \<and>
    r' 0 AND 0xc0 = 0 \<and> r' 0 = push_bit 2 (of_nat hn) OR of_nat u \<and> r' 1 = 0 \<and> r' 2 = 0 \<and> r' 3 = of_nat k \<and> r' 4 = of_nat hn \<and> r' 5 = of_nat sc \<and> r' 6 = 2 \<and>
    M_area (mem x') = overwrite (unat addr) (map (contents base m) [offset..<offset + 512 * n]) (M_area (mem x)) \<and>
    drv_medium (drives x' u) = Some m \<and> cylinder (drives x' u) = unat (cmd 2)"
proof -
  define cnt :: IU16 where "cnt = ucast (push_bit 9 (ucast (GET_AL c) :: IU32) - 1)"
  have cnt: "unat cnt + 1 = 512 * n" using sector_count [of "GET_AL c"] assms(8-10) by (simp add: cnt_def)
  have set: "a = program_channel2 0x46 addr cnt (dma x)" "s = mem x" "unat (ucast addr :: IU16) + unat cnt \<le> 0xffff"
    using assms(7) by (auto simp: dma_setup_def Let_def cnt_def split: if_splits)
  have ar: "armed a 0x46 (ucast (drop_bit 16 addr)) (ucast addr) cnt" using program_channel2_armed [OF assms(6), of "0x46" addr cnt] set(1) by simp
  let ?x = "x\<lparr>dma := a, mem := s\<rparr>"
  have ad: "dma_system_address 2 (ucast (drop_bit 16 addr)) (ucast addr) = addr" by (rule page_and_offset [OF assms(11)])
  have enq: "snd (dma_enquire 2 a) = cnt" using ar by (simp add: dma_enquire_def armed_def dma_physical_controller_def dma_physical_channel_def Let_def)
  have q: "(unat cnt + 1 + 512 - 1) div 512 = n" using cnt by simp
  have "\<exists>a'. transfer_loop h gmi u False (unat (cmd 2)) (unat (cmd 3)) [unat (cmd 4)..<unat (cmd 4) + n] buffer ?x =
    Some (True, ?x\<lparr>dma := a', mem := (mem ?x)\<lparr>M_area := overwrite (unat (dma_system_address 2 (ucast (drop_bit 16 addr)) (ucast addr)))
      (map (contents base m) [sector_offset (drives ?x u) (unat (cmd 2)) (unat (cmd 3)) (unat (cmd 4))..<sector_offset (drives ?x u) (unat (cmd 2)) (unat (cmd 3)) (unat (cmd 4)) + 512 * n]) (M_area (mem ?x))\<rparr>\<rparr>)"
    by (rule read_sectors [OF _ medium_reads [OF assms(2-5)]])
      (use assms ar cnt set ad in \<open>simp_all add: word_less_nat_alt\<close>)
  then obtain a' where loop: "transfer_loop h gmi u False (unat (cmd 2)) (unat (cmd 3)) [unat (cmd 4)..<unat (cmd 4) + n] buffer ?x =
      Some (True, ?x\<lparr>dma := a', mem := (mem x)\<lparr>M_area := overwrite (unat addr) (map (contents base m) [offset..<offset + 512 * n]) (M_area (mem x))\<rparr>\<rparr>)"
    using set(2) ad assms(20) by auto
  have t: "softpc_gfi_transfer h gmi buffer u cmd False ?x = Some (True, softpc_gfi_update_chrn (unat (cmd 2)) (unat (cmd 3)) (unat (cmd 4)) (bit (cmd 0) 7) (unat (cmd 6)) n,
      drive_upd u (\<lambda>d. d\<lparr>cylinder := unat (cmd 2)\<rparr>) (?x\<lparr>dma := a', mem := (mem x)\<lparr>M_area := overwrite (unat addr) (map (contents base m) [offset..<offset + 512 * n]) (M_area (mem x))\<rparr>\<rparr>))"
    using loop enq q assms(1,9,15-19) by (auto simp: softpc_gfi_transfer_def Let_def word_less_nat_alt)
  have "unat (cmd 3) < 2" using assms(17,23) by simp
  then have hn: "hn < 2" using assms(24) by (auto simp: softpc_gfi_update_chrn_def Let_def less_2_cases_iff split: if_splits)
  have st0: "(push_bit 2 (of_nat hn) OR of_nat u :: IU8) AND 0xc0 = 0" by (rule st0_normal [OF hn]) (use assms(14) in \<open>auto intro: unat_and_3\<close>)
  show ?thesis using t assms(1,13-15,24) st0 by (simp add: softpc_gfi_command_def Let_def softpc_gfi_result_def drive_upd_def)
qed

text \<open>A 1.44 MB image whose first page is all \<open>7\<close>, in drive A, and an idle machine.\<close>

definition demo_image :: "unit lib_storage_medium" where
  "demo_image = \<lparr>med_file = None, med_pages = (\<lambda>_. None)(0 := Some (replicate 4096 7)), med_byte_count = 1474560, med_mode = LIB_STORAGE_MEDIUM_OVERLAY\<rparr>"

definition demo_floppy :: "(unit, unit) floppy" where
  "demo_floppy = \<lparr>drives = \<lambda>_. \<lparr>drv_medium = Some demo_image, drv_mode = LIB_STORAGE_MEDIUM_OVERLAY, cylinders = 80, heads = 2, sectors = 18, drive_type = 4, cylinder = 0\<rparr>,
     dma = demo_adapt, mem = demo_ram\<rparr>"

definition demo_cmd :: block where
  "demo_cmd = (\<lambda>_. 0)(0 := 0x46, 4 := 2, 5 := 2, 6 := 18)"

lemma demo_block: "ram_block demo_ram 0x1000 512"
proof -
  have "unat ((0x1000 :: IU32) + of_nat k) = 0x1000 + k" if "k < 512" for k
    using that by (simp add: unat_word_ariths unat_of_nat)
  then have "(0x1000 :: IU32) + of_nat k < 0x20000" if "k < 512" for k using that by (simp add: word_less_nat_alt)
  moreover have "x AND 0xffffffff = x" for x :: IU32
  proof -
    have "(0xffffffff :: IU32) = - 1" by simp
    then show ?thesis by (simp only: and.right_neutral)
  qed
  ultimately show ?thesis by (simp add: ram_block_def demo_ram_def READ_SELF_MOD_def)
qed

theorem floppy_read_delivers_witness:
  "\<forall>gmi c sas_store. let (ok, c', a, s) = dma_setup sas_store 0x1000 2 0x46 (SET_AL 1 c) demo_adapt demo_ram
     in ok \<and> (\<exists>r' x'. softpc_gfi_command demo_host gmi (replicate 8192 0) [0, 0, 0, 0] demo_cmd (\<lambda>_. 0) (demo_floppy\<lparr>dma := a, mem := s\<rparr>) = Some (True, r', x') \<and> r' 0 = 0 \<and> r' 5 = 3 \<and>
       M_area (mem x') 0x0fff = 0 \<and> M_area (mem x') 0x1000 = 7 \<and> M_area (mem x') 0x11ff = 7 \<and> M_area (mem x') 0x1200 = 0)"
proof (intro allI)
  fix gmi :: "unit gmi" and c and sas_store :: "IU32 \<Rightarrow> IU8 \<Rightarrow> unit sas \<Rightarrow> unit sas"
  have al: "GET_AL (SET_AL 1 c) = 1" by (rule BR.get_put) simp
  obtain ok c' a s where set: "dma_setup sas_store 0x1000 2 0x46 (SET_AL 1 c) demo_adapt demo_ram = (ok, c', a, s)"
    by (cases "dma_setup sas_store 0x1000 2 0x46 (SET_AL 1 c) demo_adapt demo_ram")
  have ok: "ok" using set al by (auto simp: dma_setup_def Let_def)
  then have set': "dma_setup sas_store 0x1000 2 0x46 (SET_AL 1 c) (dma demo_floppy) (mem demo_floppy) = (True, c', a, s)" using set by (simp add: demo_floppy_def)
  have n: "(1 :: nat) = unat (GET_AL (SET_AL 1 c))" "0 < (1 :: nat)" "1 \<le> (128 :: nat)" "(0x1000 :: IU32) < 0x1000000" "ram_block (mem demo_floppy) 0x1000 (512 * 1)"
    using al demo_block by (simp_all add: demo_floppy_def)
  have img: "pages_wf demo_image" "holds demo_host demo_image (\<lambda>_. 0)" "med_mode demo_image \<noteq> LIB_STORAGE_MEDIUM_OVERLAY \<longrightarrow> med_pages demo_image = (\<lambda>_. None)" "readable demo_host demo_image"
    by (auto simp: pages_wf_def holds_def demo_image_def readable_def demo_host_def lib_storage_medium_read_base_def split: if_splits)
  have f: "drv_medium (drives demo_floppy 0) = Some demo_image" "\<not> controller_disable (controller (dma demo_floppy) 0)" "mem demo_floppy = demo_ram" "dma demo_floppy = demo_adapt"
    by (simp_all add: demo_floppy_def demo_adapt_def demo_cntrl_def controller_disable_def)
  have rest: "unat (demo_cmd 1 AND 3) = 0" "demo_cmd 0 AND 0x1f = 0x06" "demo_cmd 5 = 2" "unat (demo_cmd 2) < cylinders (drives demo_floppy 0)"
      "unat (demo_cmd 3) < heads (drives demo_floppy 0)" "0 < demo_cmd 4" "unat (demo_cmd 4) + 1 \<le> sectors (drives demo_floppy 0) + 1"
      "512 = sector_offset (drives demo_floppy 0) (unat (demo_cmd 2)) (unat (demo_cmd 3)) (unat (demo_cmd 4))" "512 + 512 * 1 \<le> med_byte_count demo_image"
      "heads (drives demo_floppy 0) \<le> 2" "softpc_gfi_update_chrn (unat (demo_cmd 2)) (unat (demo_cmd 3)) (unat (demo_cmd 4)) (bit (demo_cmd 0) 7) (unat (demo_cmd 6)) 1 = (0, 0, 3)"
    by (simp_all add: demo_cmd_def demo_floppy_def demo_image_def sector_offset_def softpc_gfi_update_chrn_def)
  obtain r' x' where r: "softpc_gfi_command demo_host gmi (replicate 8192 0) [0, 0, 0, 0] demo_cmd (\<lambda>_. 0) (demo_floppy\<lparr>dma := a, mem := s\<rparr>) = Some (True, r', x')"
      "M_area (mem x') = overwrite (unat (0x1000 :: IU32)) (map (contents (\<lambda>_. 0) demo_image) [512..<512 + 512 * 1]) (M_area (mem demo_floppy))"
      "r' 0 = push_bit 2 (of_nat 0) OR of_nat 0" "r' 5 = of_nat 3"
    using floppy_read_delivers [OF f(1) img f(2) set' n rest(2,1,3-9) length_replicate rest(10,11)] by metis
  have c7: "contents (\<lambda>_. 0) demo_image i = 7" if "i < 4096" for i
    using that by (simp add: contents_def demo_image_def)
  have "M_area (mem demo_floppy) i = 0" for i by (simp add: demo_floppy_def demo_ram_def)
  then have "M_area (mem x') 0x0fff = 0" "M_area (mem x') 0x1000 = 7" "M_area (mem x') 0x11ff = 7" "M_area (mem x') 0x1200 = 0"
    unfolding r(2) using c7 by (simp_all add: overwrite_def)
  then show "let (ok, c', a, s) = dma_setup sas_store 0x1000 2 0x46 (SET_AL 1 c) demo_adapt demo_ram
     in ok \<and> (\<exists>r' x'. softpc_gfi_command demo_host gmi (replicate 8192 0) [0, 0, 0, 0] demo_cmd (\<lambda>_. 0) (demo_floppy\<lparr>dma := a, mem := s\<rparr>) = Some (True, r', x') \<and> r' 0 = 0 \<and> r' 5 = 3 \<and>
       M_area (mem x') 0x0fff = 0 \<and> M_area (mem x') 0x1000 = 7 \<and> M_area (mem x') 0x11ff = 7 \<and> M_area (mem x') 0x1200 = 0)"
    using ok r(1,3,4) set by auto
qed

end
