(* ===== verification/Spec2Isabelle.thy ===== *)
theory Spec2Isabelle
  imports Ccpu_Decimal Ccpu_Shift Ccpu_Muldiv Ccpu_Jump Ica_Run Quick_ev_Again Ccpu_Select Ccpu_Intr_Run Gfi_Run
begin

text \<open>
  Verification of the core of SoftPC, an emulator of an AT compatible personal computer.

  \<^bold>\<open>The program.\<close> SoftPC runs the software of a PC by interpreting its processor and imitating its devices. The C CPU
  (\<open>src/src/app-softpc/softpc.new/base/ccpu386\<close>) holds the registers of an 80386, decodes one instruction after the other, and
  calls one C function per instruction. Its operands come from physical memory through segmentation, the limit checks and the page
  tables. The devices of the board (\<open>base/system\<close>: interrupt controllers, DMA adaptor, timers, the queue of delayed calls that
  paces them all) are called by the CPU through port reads and writes, by each other through C functions, and reach the CPU by the
  interrupt line of the master controller. The disks (\<open>base/disks\<close>, \<open>app-softpc/compat/gfi_image.c\<close>) move sectors between an
  image file on the host (\<open>src/src/lib/storage/medium.c\<close>) and memory through the DMA adaptor. The configuration modelled is the
  one of the build: \<open>CPU_40_STYLE\<close>, \<open>CCPU\<close>, \<open>SPC386\<close>, \<open>PROD\<close>, \<open>EGG\<close>, \<open>LIM\<close>, \<open>EOI_HOOKS\<close>, \<open>HOOKED_IRETS\<close>,
  \<open>SOFTPC_STANDALONE\<close>, on a little-endian host; the other branches of the preprocessor are \<open>#error\<close> in the sources.

  \<^bold>\<open>How the code is translated.\<close> An array of registers is a function from its index, a C structure a \<open>record\<close>, an integer a word of
  its width. A C function that changes state is a HOL function that returns the new state; \<open>None\<close> is a call through a pointer outside its
  table or a loop that does not end (\<open>partial_function (option)\<close>), so that a claim that something returns is proved as an
  existence of a result. A C function that may raise a processor exception has the type \<open>('v, 'a) m\<close> of
  \<open>Ccpu_Page\<close>: its result is the exception with the state at that moment, or the value with the new state. Code outside the repository or
  behind a function pointer (memory handlers of video pages, the devices behind the interrupt controllers, host files) is a
  parameter; what is needed of it is a named hypothesis or a locale.

  \<^bold>\<open>The theories.\<close>

  \<^item> \<open>Softpc_Prelude\<close>: the integer types of \<open>insignia.h\<close>, lemmas on bits and carries, and the locale \<open>cells\<close>, the laws of a bank of registers.

  \<^item> \<open>Ccpu_State\<close>, \<open>Ccpu_Bsic\<close> (\<open>c_main.c\<close>, \<open>c_reg.h\<close>, \<open>c_bsic.c\<close>): registers (\<open>cells\<close> is interpreted on the
  double word, word and byte registers and on the flags), EFLAGS as a word and as a bank, selectors and descriptors. Saving
  and restoring EFLAGS is the identity up to the privileged bits, which no unprivileged load changes; a selector that passes the check
  addresses a descriptor inside its table.

  \<^item> \<open>Ccpu_Arith\<close>, \<open>Ccpu_Decimal\<close>, \<open>Ccpu_Shift\<close>, \<open>Ccpu_Muldiv\<close> (\<open>add.c\<close>, \<open>sub.c\<close>, \<open>daa.c\<close>, \<open>shl.c\<close>, \<open>c_mul64.c\<close>, \<open>div.c\<close>,
  \<open>idiv.c\<close> and their neighbours): every instruction against the arithmetic on integers, result and flags, for operands of 8, 16 and 32 bits.
  The division instructions take the divide error exactly when the quotient does not fit, with the exceptions the findings name.

  \<^item> \<open>Ccpu_Sas\<close>, \<open>Ccpu_Tlb\<close>, \<open>Ccpu_Tlb_Inv\<close> (\<open>ccpusas4.c\<close>, \<open>c_tlb.c\<close>): physical memory with its page types and handlers, the translation
  lookaside buffer in its two formats, and the page walk. The locale \<open>page_memory\<close> states what the walk needs of memory; it is interpreted on
  the RAM of \<open>Ccpu_Sas\<close>. \<open>lin2phy\<close> refines the translation that the page tables in memory define.

  \<^item> \<open>Ccpu_Debug\<close>, \<open>Ccpu_Page\<close>, \<open>Ccpu_Page_Run\<close>, \<open>Ccpu_Frame\<close> (\<open>c_debug.c\<close>, \<open>c_page.c\<close>): breakpoints, and the accesses of the CPU to memory. An access
  that has been checked does not fault afterwards, which the instructions rely on to be restartable.

  \<^item> \<open>Ccpu_Addr\<close>, \<open>Ccpu_Addr_Run\<close>, \<open>Ccpu_Seg\<close>, \<open>Ccpu_Seg_Run\<close>, \<open>Ccpu_Select\<close>, \<open>Ccpu_Stack\<close>, \<open>Ccpu_Stack_Run\<close> (\<open>c_addr.c\<close>, \<open>c_seg.c\<close>, \<open>c_prot.c\<close>,
  \<open>c_stack.c\<close> and the instructions on segments and the stack): addressing forms, segment limits, loads of segment registers under the privilege
  rules, pushes that change everything or nothing.

  \<^item> \<open>Ica\<close>, \<open>Ica_Inv\<close>, \<open>Ica_Run\<close> (\<open>ica.c\<close>): the two interrupt controllers. The locales \<open>request_invariant\<close> and \<open>pic_devices\<close> say what the
  controllers need of the devices behind their function pointers; they are interpreted on the invariant of the adapters, on the machine
  without hooks and on a device that raises its line again. Runs of the controllers (\<open>pic_step\<close>) take every port write of the guest and end where the guest gives the slave an
  identity that is no line. A request that wins is delivered with its vector, the order is that of the
  priorities, and the operations return; where the code loses a request or does not return is stated in theorems of their own.

  \<^item> \<open>Quick_ev\<close>, \<open>Quick_ev_Inv\<close>, \<open>Quick_ev_Run\<close>, \<open>Quick_ev_Again\<close> (\<open>quick_ev.c\<close>): the queues of delayed calls as linked lists in a store, refining an agenda sorted by time. Ticks are
  run with callbacks that may queue a further event, against a reference model on the agenda.

  \<^item> \<open>Dma\<close>, \<open>Dma_Run\<close>, \<open>Medium\<close>, \<open>Medium_Inv\<close>, \<open>Gfi_image\<close>, \<open>Gfi_Run\<close> (\<open>at_dma.c\<close>, \<open>medium.c\<close>, \<open>gfi_image.c\<close>, parts of \<open>floppy.c\<close>): a transfer as a
  sequence of units, the image with its overlay as one array of bytes, and a floppy read from the port writes of the BIOS to the bytes in memory.

  \<^item> \<open>Ccpu_Jump\<close>, \<open>Ccpu_Tsksw\<close>, \<open>Ccpu_Xfer\<close>, \<open>Ccpu_Intr\<close>, \<open>Ccpu_Intr_Run\<close> (\<open>jxx.c\<close>, \<open>loopxx.c\<close>, \<open>jcxz.c\<close>, \<open>setxx.c\<close>; \<open>c_tsksw.c\<close>,
  \<open>mov.c\<close>; \<open>c_xfer.c\<close>, \<open>jmp.c\<close>, \<open>call.c\<close>, \<open>ret.c\<close>, \<open>lxs.c\<close>; \<open>c_intr.c\<close>, \<open>iret.c\<close>, \<open>intx.c\<close>, \<open>into.c\<close>, \<open>c_xcptn.c\<close>, \<open>c_cpu_reset\<close> of \<open>c_main.c\<close>): control
  transfer. A fault is a value that the monad of \<open>Ccpu_Page\<close> carries out of an instruction; \<open>take_fault\<close> delivers it, and delivery may fault in turn. The
  parameter \<open>junk\<close> is the value of a variable that the task switch into virtual 8086 mode uses uninitialised. After a comparison the conditional jumps
  mean the order of the operands; the delivery of an exception ends in a handler or in a reset; no return gains privilege or leaves a data segment
  that the new level may not use, and the code segment returned to is one its descriptor admits.

  \<^bold>\<open>Bounds and fuel.\<close> Loops over a count are recursion on that count. The searches of the interrupt controller and of the event queues that may run
  for ever in the C code are partial functions; their totality on well-formed states is a theorem, and the states on which they do not
  return are named in theorems of their own. The nesting of exceptions is counted by \<open>raise_chain\<close>, a double fault with the exception that turns into it; four levels are enough for a fault in protected mode from any state, because every
  fault in progress is noted and the note of the double fault forces the reset, and one more for an exception without an error code, which notes nothing.

  \<^bold>\<open>Not modelled.\<close> The instruction decoder and the main loop beyond the fetch of bytes and the permission map of ports, and the string
  instructions that live in it; the floating point unit (\<open>fpu.c\<close>, host floating point); the timer, keyboard, mouse, serial and parallel
  ports; the BIOS services and the fixed disk; the video adapters and the generated video routines (\<open>cvidc\<close>), which work on host display
  memory; the host adaptation, the debugger front end, the assembler and disassembler of the debugger (\<open>x86-debug\<close>), the snapshot archive and the
  user interface. They are either input and output on the host, generated code, or independent of the parts above, to which they attach by
  the interfaces that are parameters here.
\<close>

end
